(* ===== verification/Prelude.thy ===== *)
theory Prelude
  imports Main "HOL-Library.Word" "HOL-Library.Monad_Syntax"
begin

section \<open>Shared vocabulary and automation\<close>

text \<open>
  Shared by every component theory:
  \<^item> the machine integers of the C++ code (\<open>uint32_t\<close>, \<open>uint64_t\<close>) as words;
  \<^item> \<open>cassert\<close>, the model of \<open>assert(e)\<close> and of \<open>abort()\<close>: the build never defines
    \<^verbatim>\<open>NDEBUG\<close>, so a failing assertion stops the simulator, which is the value
    \<open>None\<close> of an option-valued operation;
  \<^item> runs of an operation-driven state machine and the locale that lifts a
    per-operation invariant to whole runs;
  \<^item> lemmas on lists and sums which several components use.

  Unsigned C++ counters that are only incremented, compared and used as vector
  indices are \<open>nat\<close>; values whose width matters (addresses, bit fields, cycle
  counters that saturate) are words.
\<close>

unbundle bit_operations_syntax

type_synonym u8 = "8 word"
type_synonym u16 = "16 word"
type_synonym u32 = "32 word"
type_synonym u64 = "64 word"

subsection \<open>Assertions\<close>

definition cassert :: "bool \<Rightarrow> unit option" where
  "cassert b = (if b then Some () else None)"

lemma cassert_simps [simp]:
  "cassert True = Some ()"
  "cassert False = None"
  "cassert b = Some u \<longleftrightarrow> b"
  "cassert b = None \<longleftrightarrow> \<not> b"
  by (simp_all add: cassert_def)

lemma cassert_bind_eq_Some [simp]:
  "Option.bind (cassert b) f = Some x \<longleftrightarrow> b \<and> f () = Some x"
  by (simp add: cassert_def)

lemma cassert_bind_ok [simp]: "b \<Longrightarrow> Option.bind (cassert b) f = f ()"
  by (simp add: cassert_def)

subsection \<open>Runs of operations\<close>

text \<open>
  A component is driven by a sequence of calls. \<open>run_ops step s xs\<close> is the state
  after the calls \<open>xs\<close>, or \<open>None\<close> as soon as one of them aborts.
\<close>

fun run_ops :: "('s \<Rightarrow> 'op \<Rightarrow> 's option) \<Rightarrow> 's \<Rightarrow> 'op list \<Rightarrow> 's option" where
  "run_ops step s [] = Some s"
| "run_ops step s (x # xs) = Option.bind (step s x) (\<lambda>t. run_ops step t xs)"

lemma run_ops_append:
  "run_ops step s (xs @ ys) = Option.bind (run_ops step s xs) (\<lambda>t. run_ops step t ys)"
  by (induction xs arbitrary: s) (auto split: Option.bind_splits)

text \<open>Every call of the run meets its precondition in the state it is made in.\<close>

fun allowed_run :: "('s \<Rightarrow> 'op \<Rightarrow> 's option) \<Rightarrow> ('s \<Rightarrow> 'op \<Rightarrow> bool) \<Rightarrow> 's \<Rightarrow> 'op list \<Rightarrow> bool" where
  "allowed_run step allowed s [] = True"
| "allowed_run step allowed s (x # xs) =
     (allowed s x \<and> (case step s x of None \<Rightarrow> True | Some t \<Rightarrow> allowed_run step allowed t xs))"

locale step_invariant =
  fixes step :: "'s \<Rightarrow> 'op \<Rightarrow> 's option"
    and inv :: "'s \<Rightarrow> bool"
  assumes step_keeps: "inv s \<Longrightarrow> step s x = Some t \<Longrightarrow> inv t"
begin

lemma run_keeps: "inv s \<Longrightarrow> run_ops step s xs = Some t \<Longrightarrow> inv t"
  by (induction xs arbitrary: s) (auto simp: bind_eq_Some_conv dest: step_keeps)

end

text \<open>
  A component whose operations never abort in a well-formed state, as long as the
  caller meets the operation's precondition.
\<close>

locale step_safe = step_invariant step inv
  for step :: "'s \<Rightarrow> 'op \<Rightarrow> 's option" and inv :: "'s \<Rightarrow> bool" +
  fixes allowed :: "'s \<Rightarrow> 'op \<Rightarrow> bool"
  assumes step_defined: "inv s \<Longrightarrow> allowed s x \<Longrightarrow> step s x \<noteq> None"

text \<open>
  The same for components whose operations keep the invariant only when their precondition
  holds; the safe components are a special case.
\<close>

locale guarded_step =
  fixes step :: "'s \<Rightarrow> 'op \<Rightarrow> 's option"
    and inv :: "'s \<Rightarrow> bool"
    and allowed :: "'s \<Rightarrow> 'op \<Rightarrow> bool"
  assumes step_ok: "inv s \<Longrightarrow> allowed s x \<Longrightarrow> \<exists>t. step s x = Some t \<and> inv t"
begin

lemma run_ok:
  "inv s \<Longrightarrow> allowed_run step allowed s xs \<Longrightarrow> \<exists>t. run_ops step s xs = Some t \<and> inv t"
  proof (induction xs arbitrary: s)
  case (Cons x xs)
  from Cons.prems obtain t where "step s x = Some t" "inv t" by (auto dest: step_ok)
  with Cons show ?case by simp
qed simp

end

sublocale step_safe \<subseteq> guarded: guarded_step step inv allowed
proof unfold_locales
  fix s x
  assume s: "inv s" "allowed s x"
  then obtain t where "step s x = Some t" using step_defined by blast
  with step_keeps [OF s(1)] show "\<exists>t. step s x = Some t \<and> inv t" by blast
qed

context step_safe
begin

lemma run_safe:
  "inv s \<Longrightarrow> allowed_run step allowed s xs \<Longrightarrow> \<exists>t. run_ops step s xs = Some t \<and> inv t"
  by (rule guarded.run_ok)

end

subsection \<open>Observable runs and simulation\<close>

text \<open>
  An operation that returns a result makes an observable step. A specification is a relation
  between state, operation, result and next state, so that it may leave a choice open; a run
  of the code is one of its traces if every step is simulated.
\<close>

fun run_out :: "('s \<Rightarrow> 'op \<Rightarrow> ('r \<times> 's) option) \<Rightarrow> 's \<Rightarrow> 'op list \<Rightarrow> ('r list \<times> 's) option" where
  "run_out step s [] = Some ([], s)"
| "run_out step s (x # xs) = do {
     (r, t) \<leftarrow> step s x;
     (rs, u) \<leftarrow> run_out step t xs;
     Some (r # rs, u)
   }"

inductive trace :: "('a \<Rightarrow> 'op \<Rightarrow> 'r \<Rightarrow> 'a \<Rightarrow> bool) \<Rightarrow> 'a \<Rightarrow> 'op list \<Rightarrow> 'r list \<Rightarrow> 'a \<Rightarrow> bool"
  for spec where
  trace_Nil: "trace spec a [] [] a"
| trace_Cons: "spec a x r b \<Longrightarrow> trace spec b xs rs c \<Longrightarrow> trace spec a (x # xs) (r # rs) c"

inductive_simps trace_simps [simp]:
  "trace spec a [] rs c"
  "trace spec a (x # xs) rs c"

locale simulation =
  fixes step :: "'s \<Rightarrow> 'op \<Rightarrow> ('r \<times> 's) option"
    and spec :: "'a \<Rightarrow> 'op \<Rightarrow> 'r \<Rightarrow> 'a \<Rightarrow> bool"
    and rel :: "'s \<Rightarrow> 'a \<Rightarrow> bool"
  assumes step_simulated: "rel s a \<Longrightarrow> step s x = Some (r, t) \<Longrightarrow> \<exists>b. spec a x r b \<and> rel t b"
begin

lemma run_simulated:
  "rel s a \<Longrightarrow> run_out step s xs = Some (rs, t) \<Longrightarrow> \<exists>b. trace spec a xs rs b \<and> rel t b"
proof (induction xs arbitrary: s a rs)
  case Nil
  then show ?case by (auto intro: trace_Nil)
next
  case (Cons x xs)
  from Cons.prems(2) obtain r s1 rs' where s1: "step s x = Some (r, s1)"
    and rest: "run_out step s1 xs = Some (rs', t)" and rs: "rs = r # rs'"
    by (auto simp: bind_eq_Some_conv)
  from step_simulated [OF Cons.prems(1) s1] obtain b where "spec a x r b" "rel s1 b" by blast
  with Cons.IH [OF _ rest] rs show ?case by (blast intro: trace_Cons)
qed

end

subsection \<open>Lists and sums\<close>

lemma sum_list_update_nat:
  "i < length xs \<Longrightarrow> sum_list (xs[i := (v::nat)]) + xs ! i = sum_list xs + v"
proof (induction xs arbitrary: i)
  case Nil
  then show ?case by simp
next
  case (Cons x xs)
  then show ?case by (cases i) auto
qed

lemma nth_le_sum_list: "i < length xs \<Longrightarrow> (xs ! i :: nat) \<le> sum_list xs"
  by (induction xs arbitrary: i) (auto simp: nth_Cons trans_le_add2 split: nat.splits)

lemma nth_list_update_at: "j < length xs \<Longrightarrow> xs[i := v] ! j = (if i = j then v else xs ! j)"
  by (cases "i < length xs") (simp_all add: nth_list_update list_update_beyond)

lemma map_update_nth_same:
  "i < length xs \<Longrightarrow> f (g (xs ! i)) = f (xs ! i) \<Longrightarrow> map f (xs[i := g (xs ! i)]) = map f xs"
  by (auto simp: list_eq_iff_nth_eq nth_list_update)

lemma set_update_subset_iff:
  "i < length xs \<Longrightarrow> (\<forall>j < length xs. j \<noteq> i \<longrightarrow> P j (xs ! j)) \<Longrightarrow> P i v
    \<Longrightarrow> \<forall>j < length (xs[i := v]). P j (xs[i := v] ! j)"
  by (auto simp: nth_list_update)

text \<open>A saturating 64-bit addition, which the timing classes all define for themselves.\<close>

definition saturating_add :: "u64 \<Rightarrow> u64 \<Rightarrow> u64" where
  "saturating_add value delta =
     (let maximum = (- 1 :: u64) in if value > maximum - delta then maximum else value + delta)"

lemma unat_max_u64: "unat (- 1 :: u64) = 2 ^ 64 - 1"
  by (simp add: unsigned_minus_1_eq_mask mask_eq_exp_minus_1)

lemma unat_u64_lt: "unat (a :: u64) < 2 ^ 64"
  using unsigned_less [of a] by simp

lemma unat_saturating_add:
  "unat (saturating_add a d) = min (2 ^ 64 - 1) (unat a + unat d)"
proof -
  have m: "unat (- 1 - d) = 2 ^ 64 - 1 - unat d"
    using unat_sub [of d "- 1"] by (simp add: unat_max_u64 word_order.extremum)
  have lt: "unat a < 2 ^ 64" "unat d < 2 ^ 64"
    by (rule unat_u64_lt)+
  show ?thesis
  proof (cases "- 1 - d < a")
    case True
    then have "2 ^ 64 - 1 - unat d < unat a"
      by (simp add: word_less_nat_alt m)
    with True lt show ?thesis
      by (simp add: saturating_add_def unat_max_u64)
  next
    case False
    then have "unat a + unat d < 2 ^ 64"
      using lt by (simp add: word_less_nat_alt m)
    with False show ?thesis
      by (simp add: saturating_add_def unat_word_ariths)
  qed
qed

lemma saturating_add_ge: "a \<le> saturating_add a d"
  using unat_u64_lt [of a] by (simp add: word_le_nat_alt unat_saturating_add)

lemma saturating_add_mono:
  "a \<le> b \<Longrightarrow> c \<le> d \<Longrightarrow> saturating_add a c \<le> saturating_add b d"
  by (simp add: word_le_nat_alt unat_saturating_add min_le_iff_disj)

subsection \<open>32-bit unsigned arithmetic on natural numbers\<close>

text \<open>
  What C's \<^verbatim>\<open>unsigned\<close> keeps of a number, and the wrapping difference of two.
\<close>

definition wrap32 :: "nat \<Rightarrow> nat" where
  "wrap32 x = x mod 2 ^ 32"

definition sub32 :: "nat \<Rightarrow> nat \<Rightarrow> nat" where
  "sub32 x y = nat ((int x - int y) mod 4294967296)"

lemma wrap32_code [code]: "wrap32 x = nat (int x mod 4294967296)"
  by (simp add: wrap32_def nat_mod_distrib)

lemma wrap32_small [simp]: "x < 2 ^ 32 \<Longrightarrow> wrap32 x = x"
  by (simp add: wrap32_def)

lemma sub32_small: "y \<le> x \<Longrightarrow> x < 2 ^ 32 \<Longrightarrow> sub32 x y = x - y"
  by (simp add: sub32_def nat_diff_distrib)

end
