(* ===== verification/Issue_Timing.thy ===== *)
theory Issue_Timing
  imports Prelude
begin

section \<open>Issue gates, the frontend service queue and the hang watchdog\<close>

text \<open>
  Models \<^verbatim>\<open>flash/issue_interval_timing.h\<close> (\<open>issue_interval_timing_t\<close> and
  \<open>issue_service_queue_timing_t\<close>), \<^verbatim>\<open>flash/tma_issue_timing.h\<close> and the predicates of
  \<^verbatim>\<open>flash/cluster_hang_prevent.h\<close>. Cycles are 64-bit words, because the code saturates
  them; intervals, latencies and depths are \<open>unsigned\<close>, 32-bit words.

  The locale \<open>issue_gate\<close> is the contract the two gate classes share. Its lemmas are
  used by the strict mode of the service queue.
\<close>

subsection \<open>The contract of an issue gate\<close>

text \<open>A trace of issues is accepted when the gate was ready at each of them.\<close>

fun gate_accepts ::
  "('g \<Rightarrow> u64 \<Rightarrow> bool) \<Rightarrow> ('g \<Rightarrow> u64 \<Rightarrow> u32 \<Rightarrow> 'g) \<Rightarrow> 'g \<Rightarrow> (u64 \<times> u32) list \<Rightarrow> bool"
where
  "gate_accepts ready begin_issue g [] = True"
| "gate_accepts ready begin_issue g ((c, d) # xs) =
     (ready g c \<and> gate_accepts ready begin_issue (begin_issue g c d) xs)"

fun spaced :: "(u64 \<times> u32) list \<Rightarrow> bool" where
  "spaced ((c, d) # (c', d') # xs) =
     ((d \<noteq> 0 \<longrightarrow> saturating_add c (ucast d) \<le> c') \<and> spaced ((c', d') # xs))"
| "spaced _ = True"

locale issue_gate =
  fixes reset :: "'g \<Rightarrow> 'g"
    and begin_issue :: "'g \<Rightarrow> u64 \<Rightarrow> u32 \<Rightarrow> 'g"
    and ready :: "'g \<Rightarrow> u64 \<Rightarrow> bool"
  assumes ready_reset: "ready (reset g) c"
    and begin_zero: "begin_issue g c 0 = g"
    and ready_begin: "d \<noteq> 0 \<Longrightarrow> ready (begin_issue g c d) c' \<longleftrightarrow> saturating_add c (ucast d) \<le> c'"
    and ready_mono: "ready g c \<Longrightarrow> c \<le> c' \<Longrightarrow> ready g c'"
begin

lemma accepts_spaced: "gate_accepts ready begin_issue g xs \<Longrightarrow> spaced xs"
  by (induction xs arbitrary: g rule: spaced.induct) (auto simp: ready_begin)

lemma not_ready_inside:
  "d \<noteq> 0 \<Longrightarrow> c' < saturating_add c (ucast d) \<Longrightarrow> \<not> ready (begin_issue g c d) c'"
  by (simp add: ready_begin)

end

subsection \<open>issue\_interval\_timing\_t\<close>

record issue_interval_timing =
  iit_m_next_issue_cycle :: u64

definition issue_interval_reset :: "issue_interval_timing \<Rightarrow> issue_interval_timing" where
  "issue_interval_reset g = g\<lparr>iit_m_next_issue_cycle := 0\<rparr>"

definition issue_interval_begin ::
  "issue_interval_timing \<Rightarrow> u64 \<Rightarrow> u32 \<Rightarrow> issue_interval_timing" where
  "issue_interval_begin g issue_cycle issue_interval =
     (if issue_interval = 0 then g
      else g\<lparr>iit_m_next_issue_cycle := saturating_add issue_cycle (ucast issue_interval)\<rparr>)"

definition issue_interval_ready :: "issue_interval_timing \<Rightarrow> u64 \<Rightarrow> bool" where
  "issue_interval_ready g cycle \<longleftrightarrow> cycle \<ge> iit_m_next_issue_cycle g"

interpretation interval_gate:
  issue_gate issue_interval_reset issue_interval_begin issue_interval_ready
  by unfold_locales
    (auto simp: issue_interval_reset_def issue_interval_begin_def issue_interval_ready_def)

subsection \<open>tma\_issue\_timing\_t\<close>

record tma_issue_timing =
  tit_m_ready_cycle :: u64

definition tma_issue_reset :: "tma_issue_timing \<Rightarrow> tma_issue_timing" where
  "tma_issue_reset g = g\<lparr>tit_m_ready_cycle := 0\<rparr>"

definition tma_issue_begin :: "tma_issue_timing \<Rightarrow> u64 \<Rightarrow> u32 \<Rightarrow> tma_issue_timing" where
  "tma_issue_begin g issue_cycle latency =
     (if latency = 0 then g
      else g\<lparr>tit_m_ready_cycle := saturating_add issue_cycle (ucast latency)\<rparr>)"

definition tma_issue_ready :: "tma_issue_timing \<Rightarrow> u64 \<Rightarrow> bool" where
  "tma_issue_ready g cycle \<longleftrightarrow> cycle \<ge> tit_m_ready_cycle g"

interpretation tma_gate: issue_gate tma_issue_reset tma_issue_begin tma_issue_ready
  by unfold_locales (auto simp: tma_issue_reset_def tma_issue_begin_def tma_issue_ready_def)

subsection \<open>issue\_service\_queue\_timing\_t\<close>

record issue_service_queue =
  isq_m_strict :: issue_interval_timing
  isq_m_next_service_cycle :: u64
  isq_m_pending_service_cycles :: "u64 list"

definition service_queue_init :: issue_service_queue where
  "service_queue_init =
     \<lparr>isq_m_strict = \<lparr>iit_m_next_issue_cycle = 0\<rparr>, isq_m_next_service_cycle = 0,
      isq_m_pending_service_cycles = []\<rparr>"

definition service_queue_reset :: "issue_service_queue \<Rightarrow> issue_service_queue" where
  "service_queue_reset q = q\<lparr>isq_m_strict := issue_interval_reset (isq_m_strict q),
     isq_m_next_service_cycle := 0, isq_m_pending_service_cycles := []\<rparr>"

fun pop_dispatched :: "u64 \<Rightarrow> u64 list \<Rightarrow> u64 list" where
  "pop_dispatched cycle [] = []"
| "pop_dispatched cycle (p # ps) = (if p \<le> cycle then pop_dispatched cycle ps else p # ps)"

definition retire_dispatched :: "issue_service_queue \<Rightarrow> u64 \<Rightarrow> issue_service_queue" where
  "retire_dispatched q cycle =
     q\<lparr>isq_m_pending_service_cycles := pop_dispatched cycle (isq_m_pending_service_cycles q)\<rparr>"

definition service_queue_ready ::
  "issue_service_queue \<Rightarrow> u64 \<Rightarrow> u32 \<Rightarrow> u32 \<Rightarrow> bool \<times> issue_service_queue" where
  "service_queue_ready q cycle issue_interval queue_depth =
     (if issue_interval = 0 then (True, q)
      else if queue_depth = 0 then (issue_interval_ready (isq_m_strict q) cycle, q)
      else let q' = retire_dispatched q cycle
           in (length (isq_m_pending_service_cycles q') < unat queue_depth, q'))"

definition service_queue_begin ::
  "issue_service_queue \<Rightarrow> u64 \<Rightarrow> u32 \<Rightarrow> u32 \<Rightarrow> u64 \<times> issue_service_queue" where
  "service_queue_begin q issue_cycle issue_interval queue_depth =
     (if issue_interval = 0 then (issue_cycle, q)
      else if queue_depth = 0
      then (issue_cycle,
            q\<lparr>isq_m_strict := issue_interval_begin (isq_m_strict q) issue_cycle issue_interval\<rparr>)
      else
        let q1 = retire_dispatched q issue_cycle;
            service_cycle = (if isq_m_next_service_cycle q1 > issue_cycle
                             then isq_m_next_service_cycle q1 else issue_cycle);
            q2 = q1\<lparr>isq_m_next_service_cycle :=
                      saturating_add service_cycle (ucast issue_interval)\<rparr>;
            q3 = (if service_cycle > issue_cycle
                  then q2\<lparr>isq_m_pending_service_cycles :=
                            isq_m_pending_service_cycles q2 @ [service_cycle]\<rparr>
                  else q2)
        in (service_cycle, q3))"

definition service_queue_pending :: "issue_service_queue \<Rightarrow> nat" where
  "service_queue_pending q = length (isq_m_pending_service_cycles q)"

subsection \<open>The queue is a single server with deterministic service\<close>

definition service_queue_wf :: "issue_service_queue \<Rightarrow> bool" where
  "service_queue_wf q \<longleftrightarrow> sorted (isq_m_pending_service_cycles q) \<and>
     (\<forall>p \<in> set (isq_m_pending_service_cycles q). p \<le> isq_m_next_service_cycle q)"

lemma pop_dispatched_filter: "sorted ps \<Longrightarrow> pop_dispatched c ps = filter (\<lambda>p. c < p) ps"
proof (induction ps)
  case Nil
  then show ?case by simp
next
  case (Cons p ps)
  show ?case
  proof (cases "p \<le> c")
    case True
    with Cons show ?thesis by (simp add: not_less)
  next
    case False
    with Cons.prems have "\<forall>x \<in> set ps. c < x" by auto
    then have "filter (\<lambda>p. c < p) ps = ps" by (simp add: filter_id_conv)
    with False show ?thesis by simp
  qed
qed

lemma service_queue_init_wf: "service_queue_wf service_queue_init"
  by (simp add: service_queue_wf_def service_queue_init_def)

lemma retire_dispatched_wf:
  "service_queue_wf q \<Longrightarrow> service_queue_wf (retire_dispatched q c)"
  by (auto simp: service_queue_wf_def retire_dispatched_def pop_dispatched_filter sorted_filter
      sorted_wrt_filter)

lemma service_queue_begin_wf:
  assumes "service_queue_wf q"
  shows "service_queue_wf (snd (service_queue_begin q c i n))"
proof -
  let ?q = "retire_dispatched q c"
  have wf: "service_queue_wf ?q" using assms by (rule retire_dispatched_wf)
  have le: "p \<le> saturating_add s d" if "p \<le> s" for p s d
    using that saturating_add_ge by (rule order_trans)
  show ?thesis
    using wf assms
    by (auto simp: service_queue_begin_def service_queue_wf_def Let_def sorted_append
        saturating_add_ge not_less intro: le dest: order_trans)
qed

text \<open>
  The service times of the queued mode as a closed recursion: a server that is free at
  cycle \<open>free\<close> takes the issue at \<open>c\<close> at \<open>max free c\<close> and is free \<open>d\<close> cycles later.
\<close>

fun single_server :: "u64 \<Rightarrow> u64 \<Rightarrow> u64 list \<Rightarrow> u64 list" where
  "single_server d free [] = []"
| "single_server d free (c # cs) =
     (let s = max free c in s # single_server d (saturating_add s d) cs)"

fun service_queue_issues ::
  "u32 \<Rightarrow> u32 \<Rightarrow> issue_service_queue \<Rightarrow> u64 list \<Rightarrow> u64 list \<times> issue_service_queue" where
  "service_queue_issues i n q [] = ([], q)"
| "service_queue_issues i n q (c # cs) =
     (let (s, q1) = service_queue_begin q c i n; (ss, q2) = service_queue_issues i n q1 cs
      in (s # ss, q2))"

lemma begin_queued:
  assumes "i \<noteq> 0" "n \<noteq> 0" "service_queue_wf q"
  shows "service_queue_begin q c i n =
    (let s = max (isq_m_next_service_cycle q) c in
     (s, q\<lparr>isq_m_next_service_cycle := saturating_add s (ucast i),
           isq_m_pending_service_cycles := filter (\<lambda>p. c < p) (isq_m_pending_service_cycles q @ [s])\<rparr>))"
  using assms
  by (auto simp: service_queue_begin_def service_queue_wf_def retire_dispatched_def Let_def max_def
      pop_dispatched_filter)

lemma single_server_ge: "s \<in> set (single_server d f cs) \<Longrightarrow> f \<le> s"
proof (induction cs arbitrary: f)
  case Nil
  then show ?case by simp
next
  case (Cons c cs)
  from Cons.prems have "s = max f c \<or> s \<in> set (single_server d (saturating_add (max f c) d) cs)"
    by (auto simp: Let_def)
  then show ?case
  proof
    assume "s = max f c" then show ?thesis by simp
  next
    assume "s \<in> set (single_server d (saturating_add (max f c) d) cs)"
    then have "saturating_add (max f c) d \<le> s" by (rule Cons.IH)
    with saturating_add_ge [of "max f c" d] show ?thesis by (meson max.boundedE order_trans)
  qed
qed

lemma service_queue_issues_spec:
  assumes "i \<noteq> 0" "n \<noteq> 0" "service_queue_wf q" "sorted cs" "cs \<noteq> []"
  shows "fst (service_queue_issues i n q cs) =
           single_server (ucast i) (isq_m_next_service_cycle q) cs \<and>
         isq_m_pending_service_cycles (snd (service_queue_issues i n q cs)) =
           filter (\<lambda>s. last cs < s) (isq_m_pending_service_cycles q @
             single_server (ucast i) (isq_m_next_service_cycle q) cs) \<and>
         service_queue_wf (snd (service_queue_issues i n q cs))"
  using assms(3-)
proof (induction cs arbitrary: q)
  case Nil
  then show ?case by simp
next
  case (Cons c cs)
  let ?s = "max (isq_m_next_service_cycle q) c"
  let ?q = "snd (service_queue_begin q c i n)"
  have b: "fst (service_queue_begin q c i n) = ?s"
    "isq_m_next_service_cycle ?q = saturating_add ?s (ucast i)"
    "isq_m_pending_service_cycles ?q = filter (\<lambda>p. c < p) (isq_m_pending_service_cycles q @ [?s])"
    using Cons.prems assms by (simp_all add: begin_queued Let_def)
  have wf: "service_queue_wf ?q" using Cons.prems(1) by (rule service_queue_begin_wf)
  show ?case
  proof (cases "cs = []")
    case True
    with b wf show ?thesis by (auto simp: split_beta Let_def)
  next
    case False
    with Cons.prems have le: "c \<le> last cs" by simp
    have "filter (\<lambda>s. last cs < s) (filter (\<lambda>p. c < p) xs) = filter (\<lambda>s. last cs < s) xs" for xs
      using le by (auto simp: filter_filter intro!: filter_cong)
    moreover have "\<not> c < ?s \<longrightarrow> \<not> last cs < ?s"
      using le by auto
    ultimately show ?thesis
      using False b Cons.IH [OF wf] Cons.prems(2)
      by (simp add: split_beta Let_def)
  qed
qed

lemma service_queue_ready_pending:
  assumes "service_queue_wf q" "i \<noteq> 0" "n \<noteq> 0"
    and "service_queue_ready q c i n = (True, q1)"
  shows "service_queue_pending (snd (service_queue_begin q1 c i n)) \<le> unat n"
proof -
  have wf: "service_queue_wf q1"
    using assms by (auto simp: service_queue_ready_def Let_def intro: retire_dispatched_wf)
  have len: "length (isq_m_pending_service_cycles q1) < unat n"
    using assms by (auto simp: service_queue_ready_def Let_def)
  have "length (filter (\<lambda>p. c < p) (isq_m_pending_service_cycles q1)) < unat n"
    using len by (rule le_less_trans [OF length_filter_le])
  with wf assms show ?thesis
    by (simp add: begin_queued Let_def service_queue_pending_def)
qed

subsection \<open>cluster\_hang\_prevent.h\<close>

definition kHangTightLoopPcs :: nat where "kHangTightLoopPcs = 6"

definition peer_arm_quiet_limit :: "u32 \<Rightarrow> u32 \<Rightarrow> u32 \<Rightarrow> u32 \<Rightarrow> u32" where
  "peer_arm_quiet_limit hop tma_hop trywait fabric_rtt =
     (let n = hop * 2 + 64;
          n = (if tma_hop + 64 > n then tma_hop + 64 else n);
          n = (if trywait + 64 > n then trywait + 64 else n);
          n = (if fabric_rtt + 64 > n then fabric_rtt + 64 else n)
      in n)"

definition peer_access_still_armed :: "bool \<Rightarrow> bool \<Rightarrow> u32 \<Rightarrow> u32 \<Rightarrow> bool \<Rightarrow> bool" where
  "peer_access_still_armed saw_peer at_recognized_wait quiet_since_peer quiet_limit
     fabric_outstanding =
     (if \<not> saw_peer \<or> at_recognized_wait then False
      else if fabric_outstanding then True
      else quiet_since_peer < quiet_limit)"

fun unique_pc_count_upto :: "u64 list \<Rightarrow> nat \<Rightarrow> nat" where
  "unique_pc_count_upto hist 0 = 0"
| "unique_pc_count_upto hist (Suc i) =
     unique_pc_count_upto hist i +
       (if list_ex (\<lambda>j. hist ! j = hist ! i) [0..<i] then 0 else 1)"

definition unique_pc_count :: "u64 list \<Rightarrow> nat \<Rightarrow> nat" where
  "unique_pc_count hist n = unique_pc_count_upto hist n"

definition spin_watchdog_should_trip ::
  "bool \<Rightarrow> u32 \<Rightarrow> bool \<Rightarrow> bool \<Rightarrow> bool \<Rightarrow> nat \<Rightarrow> u32 \<Rightarrow> bool" where
  "spin_watchdog_should_trip enabled threshold at_recognized_wait has_mbar_interest
     saw_peer_access unique_recent_pcs watch_cycles =
     (if \<not> enabled \<or> threshold = 0 then False
      else if at_recognized_wait \<or> has_mbar_interest \<or> \<not> saw_peer_access then False
      else if unique_recent_pcs = 0 \<or> unique_recent_pcs > kHangTightLoopPcs then False
      else watch_cycles \<ge> threshold)"

definition mixed_bar_trywait_should_trip :: "bool \<Rightarrow> u32 \<Rightarrow> bool \<Rightarrow> bool \<Rightarrow> u32 \<Rightarrow> bool" where
  "mixed_bar_trywait_should_trip enabled threshold partial_trywait sibling_at_bar_sync mix_cycles =
     (if \<not> enabled \<or> threshold = 0 then False
      else if \<not> partial_trywait \<or> \<not> sibling_at_bar_sync then False
      else mix_cycles \<ge> threshold)"

lemma unique_pc_count_upto_card:
  "n \<le> length hist \<Longrightarrow> unique_pc_count_upto hist n = card (set (take n hist))"
proof (induction n)
  case 0
  then show ?case by simp
next
  case (Suc n)
  have "list_ex (\<lambda>j. hist ! j = hist ! n) [0..<n] \<longleftrightarrow> hist ! n \<in> set (take n hist)"
    using Suc.prems by (force simp: list_ex_iff in_set_conv_nth)
  with Suc show ?case by (simp add: take_Suc_conv_app_nth card_insert_if)
qed

text \<open>
  C35. The frontend queue of \<open>issue_service_queue_timing_t\<close> is a single deterministic
  server: issuing at non-decreasing cycles through a queue of positive depth returns
  exactly the service cycles of the recursion \<open>s = max free c\<close>, \<open>free = s + interval\<close>
  (saturating), and the entries still pending after the last issue are exactly the
  services scheduled later than that issue, in order.
\<close>

theorem service_queue_single_server:
  assumes "i \<noteq> 0" "n \<noteq> 0" "sorted cs" "cs \<noteq> []"
  shows "fst (service_queue_issues i n service_queue_init cs) = single_server (ucast i) 0 cs \<and>
    isq_m_pending_service_cycles (snd (service_queue_issues i n service_queue_init cs)) =
           filter (\<lambda>s. last cs < s) (single_server (ucast i) 0 cs)"
  using service_queue_issues_spec [OF assms(1,2) service_queue_init_wf assms(3,4)]
  by (simp_all add: service_queue_init_def)

theorem service_queue_single_server_witness:
  "fst (service_queue_issues 4 2 service_queue_init [10, 11, 30]) = single_server (ucast (4 :: u32)) 0 [10, 11, 30]"
  using service_queue_single_server [of 4 2 "[10, 11, 30]"] by simp

end
