(* ===== verification/Transport.thy ===== *)
theory Transport
  imports Prelude
begin

section \<open>Flit-level transport primitives\<close>

text \<open>
  Models \<^verbatim>\<open>src/gpgpu-sim/transport.h\<close>: the bounded virtual-output queues
  \<open>bounded_voq_t\<close>, the credit pool \<open>flit_credit_counters_t\<close>, the arbiter
  \<open>round_robin_arbiter_t\<close> and the ejection buffer \<open>interconnect_sink_t\<close>.

  The queue is a template over the packet type, which must provide
  \<open>remaining_flits\<close> and \<open>created_cycle\<close>: here a record with these two fields, and the
  operations work on every extension of it. Cycles are 64-bit words; flit counts are
  \<open>nat\<close>, for limits below \<open>2^31\<close>: no sum of \<open>can_push\<close> leaves 32 bits then, which
  \<open>voq_can_push_32_eq\<close> proves against the comparison written out at 32 bits.

  Three locales state what a client relies on: \<open>bounded_queue\<close> for the queue of one
  destination, \<open>credit_pool\<close> and \<open>fair_arbiter\<close>. Each is interpreted on the model here.
\<close>

subsection \<open>Packets and statistics\<close>

record flit_packet =
  remaining_flits :: nat
  created_cycle :: u64

record transport_packet_metadata = flit_packet +
  tpm_packet_id :: nat
  tpm_src :: nat
  tpm_dst :: nat
  tpm_payload_bytes :: nat
  tpm_total_flits :: nat

record interconnect_stats =
  ics_flits_moved :: nat
  ics_packets_in :: nat
  ics_packets_out :: nat
  ics_stall_events :: nat
  ics_occupancy_high_water :: nat
  ics_latency_sum :: u64
  ics_latency_samples :: nat

definition interconnect_stats_init :: interconnect_stats where
  "interconnect_stats_init =
     \<lparr>ics_flits_moved = 0, ics_packets_in = 0, ics_packets_out = 0, ics_stall_events = 0,
      ics_occupancy_high_water = 0, ics_latency_sum = 0, ics_latency_samples = 0\<rparr>"

definition note_occupancy :: "nat \<Rightarrow> interconnect_stats \<Rightarrow> interconnect_stats" where
  "note_occupancy flits st =
     (if flits > ics_occupancy_high_water st
      then st\<lparr>ics_occupancy_high_water := flits\<rparr> else st)"

subsection \<open>bounded\_voq\_t\<close>

record 'p bounded_voq =
  voq_m_limit :: nat
  voq_m_q :: "'p list list"
  voq_m_occ :: "nat list"
  voq_m_stats :: interconnect_stats

definition voq_init :: "nat \<Rightarrow> nat \<Rightarrow> 'p bounded_voq" where
  "voq_init n_dst flit_limit_per_dst =
     \<lparr>voq_m_limit = flit_limit_per_dst, voq_m_q = replicate n_dst [],
      voq_m_occ = replicate n_dst 0, voq_m_stats = interconnect_stats_init\<rparr>"

definition voq_n_dst :: "'p bounded_voq \<Rightarrow> nat" where
  "voq_n_dst v = length (voq_m_q v)"

definition voq_occupancy_dst :: "'p bounded_voq \<Rightarrow> nat \<Rightarrow> nat" where
  "voq_occupancy_dst v dst = voq_m_occ v ! dst"

definition voq_occupancy_flits :: "'p bounded_voq \<Rightarrow> nat" where
  "voq_occupancy_flits v = wrap32 (sum_list (voq_m_occ v))"

definition voq_empty :: "'p bounded_voq \<Rightarrow> nat \<Rightarrow> bool" where
  "voq_empty v dst \<longleftrightarrow> voq_m_q v ! dst = []"

definition voq_contains :: "'p bounded_voq \<Rightarrow> nat \<Rightarrow> ('p \<Rightarrow> bool) \<Rightarrow> bool" where
  "voq_contains v dst predicate \<longleftrightarrow> find predicate (voq_m_q v ! dst) \<noteq> None"

definition voq_can_push :: "'p bounded_voq \<Rightarrow> nat \<Rightarrow> nat \<Rightarrow> bool" where
  "voq_can_push v dst flits =
     (if flits > voq_m_limit v then voq_m_q v ! dst = [] \<and> voq_m_occ v ! dst = 0
      else voq_m_occ v ! dst + flits \<le> voq_m_limit v)"

fun insert_before :: "('p \<Rightarrow> bool) \<Rightarrow> 'p \<Rightarrow> 'p list \<Rightarrow> 'p list" where
  "insert_before before pkt [] = [pkt]"
| "insert_before before pkt (x # xs) =
     (if before x then pkt # x # xs else x # insert_before before pkt xs)"

definition voq_push ::
  "'a flit_packet_scheme bounded_voq \<Rightarrow> nat \<Rightarrow> 'a flit_packet_scheme
   \<Rightarrow> (bool \<times> 'a flit_packet_scheme bounded_voq) option" where
  "voq_push v dst pkt = do {
     cassert (dst < length (voq_m_q v));
     let flits = remaining_flits pkt;
     if \<not> voq_can_push v dst flits
     then Some (False, v\<lparr>voq_m_stats := (voq_m_stats v)
            \<lparr>ics_stall_events := ics_stall_events (voq_m_stats v) + 1\<rparr>\<rparr>)
     else
       let v1 = v\<lparr>voq_m_q := (voq_m_q v)[dst := voq_m_q v ! dst @ [pkt]],
                  voq_m_occ := (voq_m_occ v)[dst := voq_m_occ v ! dst + min flits (voq_m_limit v)]\<rparr>;
           st = (voq_m_stats v1)\<lparr>ics_packets_in := ics_packets_in (voq_m_stats v1) + 1\<rparr>
       in Some (True, v1\<lparr>voq_m_stats := note_occupancy (voq_occupancy_flits v1) st\<rparr>)
   }"

definition voq_push_before ::
  "'a flit_packet_scheme bounded_voq \<Rightarrow> nat \<Rightarrow> 'a flit_packet_scheme
   \<Rightarrow> ('a flit_packet_scheme \<Rightarrow> bool) \<Rightarrow> (bool \<times> 'a flit_packet_scheme bounded_voq) option" where
  "voq_push_before v dst pkt before = do {
     cassert (dst < length (voq_m_q v));
     let flits = remaining_flits pkt;
     if \<not> voq_can_push v dst flits
     then Some (False, v\<lparr>voq_m_stats := (voq_m_stats v)
            \<lparr>ics_stall_events := ics_stall_events (voq_m_stats v) + 1\<rparr>\<rparr>)
     else
       let v1 = v\<lparr>voq_m_q := (voq_m_q v)[dst := insert_before before pkt (voq_m_q v ! dst)],
                  voq_m_occ := (voq_m_occ v)[dst := voq_m_occ v ! dst + min flits (voq_m_limit v)]\<rparr>;
           st = (voq_m_stats v1)\<lparr>ics_packets_in := ics_packets_in (voq_m_stats v1) + 1\<rparr>
       in Some (True, v1\<lparr>voq_m_stats := note_occupancy (voq_occupancy_flits v1) st\<rparr>)
   }"

definition voq_push_front ::
  "'a flit_packet_scheme bounded_voq \<Rightarrow> nat \<Rightarrow> 'a flit_packet_scheme
   \<Rightarrow> (bool \<times> 'a flit_packet_scheme bounded_voq) option" where
  "voq_push_front v dst pkt = voq_push_before v dst pkt (\<lambda>_. True)"

definition voq_front :: "'p bounded_voq \<Rightarrow> nat \<Rightarrow> 'p option" where
  "voq_front v dst = (case voq_m_q v ! dst of [] \<Rightarrow> None | p # _ \<Rightarrow> Some p)"

text \<open>\<open>front_mutable\<close> hands out a pointer; a client's write through it is this update.\<close>

definition voq_update_front :: "'p bounded_voq \<Rightarrow> nat \<Rightarrow> ('p \<Rightarrow> 'p) \<Rightarrow> 'p bounded_voq" where
  "voq_update_front v dst f =
     (case voq_m_q v ! dst of [] \<Rightarrow> v
      | p # ps \<Rightarrow> v\<lparr>voq_m_q := (voq_m_q v)[dst := f p # ps]\<rparr>)"

definition voq_grant_flit ::
  "'a flit_packet_scheme bounded_voq \<Rightarrow> nat \<Rightarrow> u64
   \<Rightarrow> ('a flit_packet_scheme option \<times> 'a flit_packet_scheme bounded_voq) option" where
  "voq_grant_flit v dst now = do {
     cassert (dst < length (voq_m_q v));
     cassert (voq_m_q v ! dst \<noteq> []);
     cassert (voq_m_occ v ! dst > 0);
     let p0 = hd (voq_m_q v ! dst);
     cassert (remaining_flits p0 > 0);
     let before = remaining_flits p0;
     let p = p0\<lparr>remaining_flits := before - 1\<rparr>;
     let occ = (if before \<le> voq_m_limit v
                then (voq_m_occ v)[dst := voq_m_occ v ! dst - 1] else voq_m_occ v);
     let st = (voq_m_stats v)\<lparr>ics_flits_moved := ics_flits_moved (voq_m_stats v) + 1\<rparr>;
     if remaining_flits p > 0
     then Some (None, v\<lparr>voq_m_q := (voq_m_q v)[dst := p # tl (voq_m_q v ! dst)],
                        voq_m_occ := occ, voq_m_stats := st\<rparr>)
     else Some (Some p,
            v\<lparr>voq_m_q := (voq_m_q v)[dst := tl (voq_m_q v ! dst)], voq_m_occ := occ,
              voq_m_stats := st\<lparr>ics_packets_out := ics_packets_out st + 1,
                ics_latency_sum := ics_latency_sum st + (now - created_cycle p),
                ics_latency_samples := ics_latency_samples st + 1\<rparr>\<rparr>)
   }"

subsection \<open>flit\_credit\_counters\_t\<close>

record flit_credit_counters =
  crd_m_depth :: nat
  crd_m_free :: "nat list"

definition credit_init :: "nat \<Rightarrow> nat \<Rightarrow> flit_credit_counters" where
  "credit_init n_queues depth = \<lparr>crd_m_depth = depth, crd_m_free = replicate n_queues depth\<rparr>"

definition credit_remaining :: "flit_credit_counters \<Rightarrow> nat \<Rightarrow> nat" where
  "credit_remaining c q = crd_m_free c ! q"

definition credit_has :: "flit_credit_counters \<Rightarrow> nat \<Rightarrow> nat \<Rightarrow> bool" where
  "credit_has c q flits \<longleftrightarrow> crd_m_free c ! q \<ge> flits"

definition credit_take :: "flit_credit_counters \<Rightarrow> nat \<Rightarrow> nat \<Rightarrow> bool \<times> flit_credit_counters" where
  "credit_take c q flits =
     (if crd_m_free c ! q < flits then (False, c)
      else (True, c\<lparr>crd_m_free := (crd_m_free c)[q := crd_m_free c ! q - flits]\<rparr>))"

definition credit_give :: "flit_credit_counters \<Rightarrow> nat \<Rightarrow> nat \<Rightarrow> flit_credit_counters option" where
  "credit_give c q flits = do {
     let c1 = c\<lparr>crd_m_free := (crd_m_free c)[q := crd_m_free c ! q + flits]\<rparr>;
     cassert (crd_m_free c1 ! q \<le> crd_m_depth c1);
     Some c1
   }"

subsection \<open>round\_robin\_arbiter\_t\<close>

record round_robin_arbiter =
  rr_m_n :: nat
  rr_m_next :: nat

definition rr_init :: "nat \<Rightarrow> round_robin_arbiter" where
  "rr_init n_inputs = \<lparr>rr_m_n = n_inputs, rr_m_next = 0\<rparr>"

fun rr_scan :: "nat \<Rightarrow> nat \<Rightarrow> bool list \<Rightarrow> nat list \<Rightarrow> nat option" where
  "rr_scan n next ready [] = None"
| "rr_scan n next ready (k # ks) =
     (let i = (next + k) mod n in if ready ! i then Some i else rr_scan n next ready ks)"

definition rr_grant ::
  "round_robin_arbiter \<Rightarrow> bool list \<Rightarrow> nat \<Rightarrow> (nat option \<times> round_robin_arbiter) option" where
  "rr_grant a ready n = do {
     cassert (n = rr_m_n a);
     case rr_scan (rr_m_n a) (rr_m_next a) ready [0..<rr_m_n a] of
       None \<Rightarrow> Some (None, a)
     | Some i \<Rightarrow> Some (Some i, a\<lparr>rr_m_next := (i + 1) mod rr_m_n a\<rparr>)
   }"

subsection \<open>interconnect\_sink\_t\<close>

record interconnect_sink =
  snk_m_limit :: nat
  snk_m_occ :: nat

definition sink_init :: "nat \<Rightarrow> interconnect_sink" where
  "sink_init flit_limit = \<lparr>snk_m_limit = flit_limit, snk_m_occ = 0\<rparr>"

definition sink_free_flits :: "interconnect_sink \<Rightarrow> nat" where
  "sink_free_flits s = snk_m_limit s - snk_m_occ s"

definition sink_can_accept :: "interconnect_sink \<Rightarrow> nat \<Rightarrow> bool" where
  "sink_can_accept s flits \<longleftrightarrow> snk_m_occ s + flits \<le> snk_m_limit s"

definition sink_push :: "interconnect_sink \<Rightarrow> nat \<Rightarrow> bool \<times> interconnect_sink" where
  "sink_push s flits =
     (if \<not> sink_can_accept s flits then (False, s)
      else (True, s\<lparr>snk_m_occ := snk_m_occ s + flits\<rparr>))"

definition sink_pop :: "interconnect_sink \<Rightarrow> nat \<Rightarrow> interconnect_sink option" where
  "sink_pop s flits = do {
     cassert (snk_m_occ s \<ge> flits);
     Some (s\<lparr>snk_m_occ := snk_m_occ s - flits\<rparr>)
   }"

subsection \<open>The interface of the queues\<close>

text \<open>
  What a client of the virtual-output queues relies on: one packet list per destination,
  a push that appends or refuses, a priority push that prepends or refuses, and a grant
  that consumes one flit of the head packet and hands it out with its last flit.
\<close>

text \<open>Successive grants to one destination, at the given cycles: the packets completed.\<close>

fun serve ::
  "('v \<Rightarrow> nat \<Rightarrow> u64 \<Rightarrow> ('p option \<times> 'v) option) \<Rightarrow> 'v \<Rightarrow> nat \<Rightarrow> u64 list \<Rightarrow> ('p list \<times> 'v) option"
where
  "serve grant v d [] = Some ([], v)"
| "serve grant v d (now # nows) =
     Option.bind (grant v d now) (\<lambda>(done, v1).
       Option.bind (serve grant v1 d nows) (\<lambda>(ps, v2).
         Some ((case done of None \<Rightarrow> ps | Some p \<Rightarrow> p # ps), v2)))"

locale packet_queue =
  fixes wf :: "'v \<Rightarrow> bool"
    and dsts :: "'v \<Rightarrow> nat"
    and contents :: "'v \<Rightarrow> nat \<Rightarrow> 'a flit_packet_scheme list"
    and push :: "'v \<Rightarrow> nat \<Rightarrow> 'a flit_packet_scheme \<Rightarrow> (bool \<times> 'v) option"
    and push_front :: "'v \<Rightarrow> nat \<Rightarrow> 'a flit_packet_scheme \<Rightarrow> (bool \<times> 'v) option"
    and grant :: "'v \<Rightarrow> nat \<Rightarrow> u64 \<Rightarrow> ('a flit_packet_scheme option \<times> 'v) option"
  assumes push_law: "wf v \<Longrightarrow> d < dsts v \<Longrightarrow> 0 < remaining_flits p \<Longrightarrow>
      \<exists>ok v'. push v d p = Some (ok, v') \<and> wf v' \<and> dsts v' = dsts v \<and>
        contents v' = (if ok then (contents v)(d := contents v d @ [p]) else contents v)"
    and push_front_law: "wf v \<Longrightarrow> d < dsts v \<Longrightarrow> 0 < remaining_flits p \<Longrightarrow>
      \<exists>ok v'. push_front v d p = Some (ok, v') \<and> wf v' \<and> dsts v' = dsts v \<and>
        contents v' = (if ok then (contents v)(d := p # contents v d) else contents v)"
    and contents_pos: "wf v \<Longrightarrow> d < dsts v \<Longrightarrow> p \<in> set (contents v d) \<Longrightarrow> 0 < remaining_flits p"
    and grant_law: "wf v \<Longrightarrow> d < dsts v \<Longrightarrow> contents v d = p # ps \<Longrightarrow>
      \<exists>v'. grant v d now =
            Some (if remaining_flits p = 1 then Some (p\<lparr>remaining_flits := 0\<rparr>) else None, v') \<and>
          wf v' \<and> dsts v' = dsts v \<and>
          contents v' = (contents v)(d :=
            if remaining_flits p = 1 then ps
            else p\<lparr>remaining_flits := remaining_flits p - 1\<rparr> # ps)"
begin

lemma serve_head:
  assumes "wf v" "d < dsts v" "contents v d = p # ps" "length nows = remaining_flits p"
  shows "\<exists>v'. serve grant v d nows = Some ([p\<lparr>remaining_flits := 0\<rparr>], v') \<and> wf v' \<and> dsts v' = dsts v \<and>
    contents v' = (contents v)(d := ps)"
  using assms
proof (induction nows arbitrary: v p)
  case Nil
  then have "0 < remaining_flits p" using contents_pos by (metis list.set_intros(1))
  with Nil show ?case by simp
next
  case (Cons now nows)
  obtain v1 where g: "grant v d now =
        Some (if remaining_flits p = 1 then Some (p\<lparr>remaining_flits := 0\<rparr>) else None, v1)"
    and v1: "wf v1" "dsts v1 = dsts v"
      "contents v1 = (contents v)(d :=
         if remaining_flits p = 1 then ps
         else p\<lparr>remaining_flits := remaining_flits p - 1\<rparr> # ps)"
    using grant_law [OF Cons.prems(1-3), of now] by blast
  show ?case
  proof (cases "remaining_flits p = 1")
    case True
    with Cons.prems g v1 show ?thesis by (simp add: fun_eq_iff)
  next
    case False
    let ?p = "p\<lparr>remaining_flits := remaining_flits p - 1\<rparr>"
    have "contents v1 d = ?p # ps" "length nows = remaining_flits ?p" "d < dsts v1"
      using False v1 Cons.prems by auto
    from Cons.IH [OF v1(1) this(3,1,2)] obtain v2 where
      "serve grant v1 d nows = Some ([p\<lparr>remaining_flits := 0\<rparr>], v2)" "wf v2" "dsts v2 = dsts v"
      "contents v2 = (contents v)(d := ps)"
      using v1 by (auto simp: fun_eq_iff)
    with False g show ?thesis by (simp add: fun_eq_iff)
  qed
qed

lemma serve_append:
  "serve grant v d (xs @ ys) = Option.bind (serve grant v d xs) (\<lambda>(ps, v1).
     Option.bind (serve grant v1 d ys) (\<lambda>(qs, v2). Some (ps @ qs, v2)))"
  by (induction xs arbitrary: v) (auto split: Option.bind_splits option.splits)

text \<open>The queue of a destination is served in order, one grant per flit, nothing lost.\<close>

lemma serve_prefix:
  assumes "wf v" "d < dsts v" "contents v d = ps @ qs"
    and "length nows = sum_list (map remaining_flits ps)"
  shows "\<exists>v'. serve grant v d nows = Some (map (\<lambda>p. p\<lparr>remaining_flits := 0\<rparr>) ps, v') \<and> wf v' \<and>
    dsts v' = dsts v \<and> contents v' = (contents v)(d := qs)"
  using assms
proof (induction ps arbitrary: v nows)
  case Nil
  then show ?case by (simp add: fun_upd_idem)
next
  case (Cons p ps)
  let ?k = "remaining_flits p"
  have nows: "nows = take ?k nows @ drop ?k nows" "length (take ?k nows) = ?k"
    "length (drop ?k nows) = sum_list (map remaining_flits ps)"
    using Cons.prems(4) by auto
  obtain v1 where v1: "serve grant v d (take ?k nows) = Some ([p\<lparr>remaining_flits := 0\<rparr>], v1)"
    "wf v1" "dsts v1 = dsts v" "contents v1 = (contents v)(d := ps @ qs)"
    using serve_head [OF Cons.prems(1,2), of p "ps @ qs" "take ?k nows"] Cons.prems(3) nows(2)
    by auto
  have "d < dsts v1" "contents v1 d = ps @ qs" using v1 Cons.prems by auto
  from Cons.IH [OF v1(2) this nows(3)] obtain v2 where
    "serve grant v1 d (drop ?k nows) = Some (map (\<lambda>p. p\<lparr>remaining_flits := 0\<rparr>) ps, v2)" "wf v2"
    "dsts v2 = dsts v" "contents v2 = (contents v)(d := qs)"
    using v1 by (auto simp: fun_eq_iff)
  with v1 have "serve grant v d (take ?k nows @ drop ?k nows) =
      Some (map (\<lambda>p. p\<lparr>remaining_flits := 0\<rparr>) (p # ps), v2)"
    by (simp only: serve_append) simp
  then show ?case
    using nows(1) \<open>wf v2\<close> \<open>dsts v2 = dsts v\<close> \<open>contents v2 = (contents v)(d := qs)\<close> by auto
qed

end

subsection \<open>Well-formed queues\<close>

text \<open>
  The occupancy of a destination is the sum of its packets' remaining flits, an oversized
  packet counted as the limit; no queued packet is empty.
\<close>

definition voq_load :: "nat \<Rightarrow> 'a flit_packet_scheme list \<Rightarrow> nat" where
  "voq_load limit ps = sum_list (map (\<lambda>p. min (remaining_flits p) limit) ps)"

definition voq_wf :: "'a flit_packet_scheme bounded_voq \<Rightarrow> bool" where
  "voq_wf v \<longleftrightarrow> 0 < voq_m_limit v \<and> length (voq_m_occ v) = length (voq_m_q v) \<and>
     (\<forall>d < length (voq_m_q v).
        voq_m_occ v ! d = voq_load (voq_m_limit v) (voq_m_q v ! d) \<and>
        voq_m_occ v ! d \<le> voq_m_limit v \<and>
        (\<forall>p \<in> set (voq_m_q v ! d). 0 < remaining_flits p))"

definition voq_contents :: "'a flit_packet_scheme bounded_voq \<Rightarrow> nat \<Rightarrow> 'a flit_packet_scheme list" where
  "voq_contents v d = voq_m_q v ! d"

lemma voq_load_simps [simp]:
  "voq_load l [] = 0"
  "voq_load l (p # ps) = min (remaining_flits p) l + voq_load l ps"
  "voq_load l (ps @ qs) = voq_load l ps + voq_load l qs"
  by (simp_all add: voq_load_def)

lemma voq_init_wf: "0 < limit \<Longrightarrow> voq_wf (voq_init n limit)"
  by (simp add: voq_wf_def voq_init_def)

lemma insert_before_True [simp]: "insert_before (\<lambda>_. True) p xs = p # xs"
  by (cases xs) simp_all

lemma insert_before_False [simp]: "insert_before (\<lambda>_. False) p xs = xs @ [p]"
  by (induction xs) simp_all

lemma set_insert_before [simp]: "set (insert_before b p xs) = insert p (set xs)"
  by (induction xs) auto

lemma voq_load_insert_before [simp]:
  "voq_load l (insert_before b p xs) = min (remaining_flits p) l + voq_load l xs"
  by (induction xs) auto

text \<open>Both pushes are one operation up to the list they build.\<close>

lemma voq_push_before_wf:
  assumes "voq_wf v" "d < length (voq_m_q v)" "0 < remaining_flits p"
    and "voq_push_before v d p b = Some (ok, v')"
  shows "voq_wf v' \<and> length (voq_m_q v') = length (voq_m_q v) \<and>
    ok = voq_can_push v d (remaining_flits p) \<and> voq_m_limit v' = voq_m_limit v \<and>
    voq_m_q v' = (if ok then (voq_m_q v)[d := insert_before b p (voq_m_q v ! d)] else voq_m_q v)"
  using assms
  by (auto simp: voq_push_before_def voq_wf_def voq_can_push_def Let_def nth_list_update
      split: if_splits)

text \<open>The capacity check as the code computes it, on 32-bit unsigned counts.\<close>

definition voq_can_push_32 :: "'p bounded_voq \<Rightarrow> nat \<Rightarrow> nat \<Rightarrow> bool" where
  "voq_can_push_32 v dst flits =
     (if flits > voq_m_limit v then voq_m_q v ! dst = [] \<and> voq_m_occ v ! dst = 0
      else wrap32 (voq_m_occ v ! dst + flits) \<le> voq_m_limit v)"

lemma voq_wf_occupancy_le:
  "voq_wf v \<Longrightarrow> dst < length (voq_m_q v) \<Longrightarrow> voq_occupancy_dst v dst \<le> voq_m_limit v"
  unfolding voq_wf_def voq_occupancy_dst_def by blast

lemma voq_can_push_32_eq:
  assumes "voq_wf v" "voq_m_limit v < 2 ^ 31" "dst < length (voq_m_q v)"
  shows "voq_can_push_32 v dst flits = voq_can_push v dst flits"
proof -
  have "voq_m_occ v ! dst \<le> voq_m_limit v"
    using voq_wf_occupancy_le [OF assms(1,3)] by (simp add: voq_occupancy_dst_def)
  then have "wrap32 (voq_m_occ v ! dst + flits) = voq_m_occ v ! dst + flits" if "flits \<le> voq_m_limit v"
    using that assms(2) by (intro wrap32_small) simp
  then show ?thesis by (simp add: voq_can_push_32_def voq_can_push_def)
qed

lemma voq_push_as_push_before:
  "voq_push v d p = voq_push_before v d p (\<lambda>_. False)"
  by (simp add: voq_push_def voq_push_before_def cong: if_cong)

lemma voq_push_before_defined:
  "d < length (voq_m_q v) \<Longrightarrow> \<exists>v'. voq_push_before v d p b =
     Some (voq_can_push v d (remaining_flits p), v')"
  by (simp add: voq_push_before_def Let_def)

lemma voq_push_before_law:
  assumes "voq_wf v" "d < length (voq_m_q v)" "0 < remaining_flits p"
  shows "\<exists>ok v'. voq_push_before v d p b = Some (ok, v') \<and> voq_wf v' \<and>
    voq_n_dst v' = voq_n_dst v \<and>
    voq_contents v' = (if ok then (voq_contents v)(d := insert_before b p (voq_contents v d))
                       else voq_contents v)"
proof -
  obtain v' where v': "voq_push_before v d p b = Some (voq_can_push v d (remaining_flits p), v')"
    using voq_push_before_defined [OF assms(2)] by blast
  from voq_push_before_wf [OF assms v'] v' assms(2) show ?thesis
    by (auto simp: voq_n_dst_def voq_contents_def fun_eq_iff nth_list_update)
qed

lemma voq_grant_cases:
  assumes wf: "voq_wf v" and d: "d < length (voq_m_q v)" and q: "voq_m_q v ! d = p # ps"
  shows "\<exists>v'. voq_grant_flit v d now =
      Some (if remaining_flits p = 1 then Some (p\<lparr>remaining_flits := 0\<rparr>) else None, v') \<and>
    voq_wf v' \<and> voq_m_limit v' = voq_m_limit v \<and>
    voq_m_q v' = (voq_m_q v)[d :=
      if remaining_flits p = 1 then ps else p\<lparr>remaining_flits := remaining_flits p - 1\<rparr> # ps]"
proof -
  have pos: "0 < remaining_flits p" and lim: "0 < voq_m_limit v"
    and occ: "voq_m_occ v ! d = min (remaining_flits p) (voq_m_limit v) + voq_load (voq_m_limit v) ps"
    using wf d q by (auto simp: voq_wf_def)
  then have occ_pos: "0 < voq_m_occ v ! d" by simp
  show ?thesis
    using wf d q pos lim occ occ_pos
    by (auto simp: voq_grant_flit_def voq_wf_def Let_def nth_list_update)
qed

interpretation voq: packet_queue voq_wf voq_n_dst voq_contents voq_push voq_push_front voq_grant_flit
proof (unfold_locales, goal_cases)
  case (1 v d p)
  from voq_push_before_law [OF 1(1) 1(2) [unfolded voq_n_dst_def] 1(3), of "\<lambda>_. False"]
  show ?case unfolding voq_push_as_push_before insert_before_False .
next
  case (2 v d p)
  from voq_push_before_law [OF 2(1) 2(2) [unfolded voq_n_dst_def] 2(3), of "\<lambda>_. True"]
  show ?case unfolding voq_push_front_def insert_before_True .
next
  case (3 v d p)
  then show ?case by (auto simp: voq_wf_def voq_n_dst_def voq_contents_def)
next
  case (4 v d p ps now)
  then obtain v' where "voq_grant_flit v d now =
      Some (if remaining_flits p = 1 then Some (p\<lparr>remaining_flits := 0\<rparr>) else None, v')"
    "voq_wf v'" "voq_m_q v' = (voq_m_q v)[d :=
      if remaining_flits p = 1 then ps else p\<lparr>remaining_flits := remaining_flits p - 1\<rparr> # ps]"
    using voq_grant_cases [of v d p ps now] by (auto simp: voq_n_dst_def voq_contents_def)
  with 4(2) show ?case
    by (simp add: voq_n_dst_def voq_contents_def fun_eq_iff nth_list_update)
qed

subsection \<open>The credit pool\<close>

locale credit_pool =
  fixes queues :: "'c \<Rightarrow> nat"
    and depth :: "'c \<Rightarrow> nat"
    and free :: "'c \<Rightarrow> nat \<Rightarrow> nat"
    and take :: "'c \<Rightarrow> nat \<Rightarrow> nat \<Rightarrow> bool \<times> 'c"
    and give :: "'c \<Rightarrow> nat \<Rightarrow> nat \<Rightarrow> 'c option"
  assumes take_law: "q < queues c \<Longrightarrow> take c q k = (ok, c') \<Longrightarrow>
      (ok \<longleftrightarrow> k \<le> free c q) \<and> queues c' = queues c \<and> depth c' = depth c \<and>
      free c' = (if ok then (free c)(q := free c q - k) else free c)"
    and give_law: "q < queues c \<Longrightarrow> free c q + k \<le> depth c \<Longrightarrow>
      \<exists>c'. give c q k = Some c' \<and> queues c' = queues c \<and> depth c' = depth c \<and>
        free c' = (free c)(q := free c q + k)"
    and give_overflow: "q < queues c \<Longrightarrow> depth c < free c q + k \<Longrightarrow> give c q k = None"
begin

text \<open>
  What is outstanding at queue \<open>q\<close>: credits taken and not yet returned. Taking and
  returning keep \<open>free + outstanding = depth\<close>, and returning what is outstanding never
  trips the assertion.
\<close>

definition balanced :: "'c \<Rightarrow> (nat \<Rightarrow> nat) \<Rightarrow> bool" where
  "balanced c out \<longleftrightarrow> (\<forall>q < queues c. free c q + out q = depth c)"

lemma balanced_take:
  assumes "balanced c out" "q < queues c" "take c q k = (True, c')"
  shows "balanced c' (out(q := out q + k))"
  using assms(1,2) take_law [OF assms(2,3)] by (auto simp: balanced_def)

lemma balanced_give:
  assumes "balanced c out" "q < queues c" "k \<le> out q"
  shows "\<exists>c'. give c q k = Some c' \<and> queues c' = queues c \<and> depth c' = depth c \<and>
    free c' = (free c)(q := free c q + k) \<and> balanced c' (out(q := out q - k))"
proof -
  have "free c q + out q = depth c" using assms by (simp add: balanced_def)
  with assms give_law [of q c k] show ?thesis by (auto simp: balanced_def)
qed

lemma take_independent:
  "q < queues c \<Longrightarrow> take c q k = (ok, c') \<Longrightarrow> r \<noteq> q \<Longrightarrow> free c' r = free c r"
  using take_law by (auto split: if_splits)

end

interpretation credit: credit_pool "\<lambda>c. length (crd_m_free c)" crd_m_depth credit_remaining
  credit_take credit_give
proof (unfold_locales, goal_cases)
  case (1 q c k ok c')
  then show ?case
    by (auto simp: credit_take_def credit_remaining_def fun_eq_iff nth_list_update
        split: if_splits)
next
  case (2 q c k)
  then show ?case
    by (auto simp: credit_give_def credit_remaining_def fun_eq_iff nth_list_update Let_def)
next
  case (3 q c k)
  then show ?case
    by (simp add: credit_give_def credit_remaining_def Let_def)
qed

lemma credit_init_balanced: "credit.balanced (credit_init n d) (\<lambda>_. 0)"
  by (simp add: credit.balanced_def credit_init_def credit_remaining_def)

subsection \<open>A fair arbiter\<close>

text \<open>
  A sequence of arbitration rounds, each with its own vector of ready inputs.
\<close>

fun rounds :: "('a \<Rightarrow> bool list \<Rightarrow> nat \<Rightarrow> (nat option \<times> 'a) option) \<Rightarrow> 'a \<Rightarrow> bool list list
    \<Rightarrow> nat option list" where
  "rounds grant a [] = []"
| "rounds grant a (r # rs) =
     (case grant a r (length r) of None \<Rightarrow> [] | Some (w, a') \<Rightarrow> w # rounds grant a' rs)"

locale fair_arbiter =
  fixes wf :: "'a \<Rightarrow> bool"
    and inputs :: "'a \<Rightarrow> nat"
    and rank :: "'a \<Rightarrow> nat \<Rightarrow> nat"
    and grant :: "'a \<Rightarrow> bool list \<Rightarrow> nat \<Rightarrow> (nat option \<times> 'a) option"
  assumes grant_total: "wf a \<Longrightarrow> length r = inputs a \<Longrightarrow>
      \<exists>w a'. grant a r (inputs a) = Some (w, a') \<and> wf a' \<and> inputs a' = inputs a"
    and grant_ready: "wf a \<Longrightarrow> length r = inputs a \<Longrightarrow> grant a r (inputs a) = Some (Some i, a') \<Longrightarrow>
      i < inputs a \<and> r ! i"
    and grant_none: "wf a \<Longrightarrow> length r = inputs a \<Longrightarrow> grant a r (inputs a) = Some (None, a') \<Longrightarrow>
      j < inputs a \<Longrightarrow> \<not> r ! j"
    and grant_least: "wf a \<Longrightarrow> length r = inputs a \<Longrightarrow> grant a r (inputs a) = Some (Some i, a') \<Longrightarrow>
      j < inputs a \<Longrightarrow> r ! j \<Longrightarrow> j \<noteq> i \<Longrightarrow> rank a i < rank a j \<and> rank a' j < rank a j"
    and rank_bound: "wf a \<Longrightarrow> j < inputs a \<Longrightarrow> rank a j < inputs a"
begin

lemma granted_within:
  assumes "wf a" "j < inputs a" "\<forall>r \<in> set rs. length r = inputs a \<and> r ! j"
    and "rank a j < length rs"
  shows "\<exists>t \<le> rank a j. t < length (rounds grant a rs) \<and> rounds grant a rs ! t = Some j"
  using assms
proof (induction rs arbitrary: a)
  case Nil
  then show ?case by simp
next
  case (Cons r rs)
  have r: "length r = inputs a" "r ! j" using Cons.prems by auto
  obtain w a' where g: "grant a r (inputs a) = Some (w, a')" and a': "wf a'" "inputs a' = inputs a"
    using grant_total Cons.prems(1) r(1) by blast
  have "w \<noteq> None"
    using grant_none [OF Cons.prems(1) r(1)] g r(2) Cons.prems(2) by (cases w) auto
  then obtain i where w: "w = Some i" by blast
  show ?case
  proof (cases "i = j")
    case True
    with g w r(1) show ?thesis by (intro exI [of _ 0]) simp
  next
    case False
    have less: "rank a' j < rank a j"
      using grant_least [OF Cons.prems(1) r(1)] g w Cons.prems(2) r(2) False by blast
    then have "\<exists>t \<le> rank a' j. t < length (rounds grant a' rs) \<and> rounds grant a' rs ! t = Some j"
      using Cons.IH [OF a'(1)] Cons.prems a' by auto
    then obtain t where "t \<le> rank a' j" "t < length (rounds grant a' rs)"
      "rounds grant a' rs ! t = Some j" by blast
    with less g w r(1) show ?thesis by (intro exI [of _ "Suc t"]) auto
  qed
qed

lemma no_starvation:
  assumes "wf a" "j < inputs a" "\<forall>r \<in> set rs. length r = inputs a \<and> r ! j"
    and "inputs a \<le> length rs"
  shows "\<exists>t < inputs a. t < length (rounds grant a rs) \<and> rounds grant a rs ! t = Some j"
proof -
  have "rank a j < inputs a" using assms(1,2) by (rule rank_bound)
  with granted_within [OF assms(1-3)] assms(4) show ?thesis by (meson le_less_trans less_le_trans)
qed

end

definition rr_wf :: "round_robin_arbiter \<Rightarrow> bool" where
  "rr_wf a \<longleftrightarrow> rr_m_next a < rr_m_n a \<or> rr_m_n a = 0 \<and> rr_m_next a = 0"

text \<open>How many inputs the cursor passes before it reaches \<open>j\<close>.\<close>

definition rr_rank :: "round_robin_arbiter \<Rightarrow> nat \<Rightarrow> nat" where
  "rr_rank a j = (j + rr_m_n a - rr_m_next a) mod rr_m_n a"

lemma rr_scan_Some:
  "rr_scan n next r ks = Some i \<Longrightarrow>
   \<exists>us k vs. ks = us @ k # vs \<and> i = (next + k) mod n \<and> r ! i \<and>
     (\<forall>u \<in> set us. \<not> r ! ((next + u) mod n))"
proof (induction ks)
  case Nil
  then show ?case by simp
next
  case (Cons k ks)
  show ?case
  proof (cases "r ! ((next + k) mod n)")
    case True
    with Cons.prems have "i = (next + k) mod n" by (simp add: Let_def)
    with True show ?thesis by (intro exI [of _ "[]"]) auto
  next
    case False
    with Cons obtain us k' vs where "ks = us @ k' # vs" "i = (next + k') mod n" "r ! i"
      "\<forall>u \<in> set us. \<not> r ! ((next + u) mod n)" by (auto simp: Let_def)
    with False show ?thesis by (intro exI [of _ "k # us"]) auto
  qed
qed

lemma rr_scan_None: "rr_scan n next r ks = None \<longleftrightarrow> (\<forall>k \<in> set ks. \<not> r ! ((next + k) mod n))"
  by (induction ks) (auto simp: Let_def)

lemma rr_scan_upt:
  assumes "rr_scan n next r [0..<n] = Some i"
  shows "\<exists>k < n. i = (next + k) mod n \<and> r ! i \<and> (\<forall>u < k. \<not> r ! ((next + u) mod n))"
proof -
  obtain us k vs where us: "[0..<n] = us @ k # vs" and i: "i = (next + k) mod n" "r ! i"
    "\<forall>u \<in> set us. \<not> r ! ((next + u) mod n)"
    using rr_scan_Some [OF assms] by blast
  have "length us < n" using arg_cong [OF us, of length] by simp
  have "k = length us"
    using arg_cong [OF us, of "\<lambda>xs. xs ! length us"] \<open>length us < n\<close> by simp
  moreover have "us = [0..<length us]"
    using arg_cong [OF us, of "take (length us)"] \<open>length us < n\<close> by (simp add: take_upt)
  then have "set us = {0..<length us}" by (metis set_upt)
  ultimately show ?thesis using i \<open>length us < n\<close> by (intro exI [of _ k]) auto
qed

lemma rr_rank_offset:
  assumes "c < n" "k < n"
  shows "((c + k) mod n + n - c) mod n = (k :: nat)"
proof (cases "c + k < n")
  case True
  then have "(c + k) mod n + n - c = k + n" by simp
  then show ?thesis using assms by simp
next
  case False
  then have "(c + k) mod n = c + k - n" using assms by (simp add: mod_if)
  with False assms show ?thesis by simp
qed

lemma rr_rank_inverse:
  assumes "c < n" "j < (n :: nat)"
  shows "(c + (j + n - c) mod n) mod n = j"
proof -
  have "(c + (j + n - c) mod n) mod n = (c + (j + n - c)) mod n" by (rule mod_add_right_eq)
  also have "c + (j + n - c) = j + n" using assms by simp
  finally show ?thesis using assms by simp
qed

lemma rr_rank_after:
  assumes "c < n" "k < l" "l < (n :: nat)"
  shows "((c + l) mod n + n - ((c + k) mod n + 1) mod n) mod n < l"
proof -
  let ?m = "((c + k) mod n + 1) mod n"
  have "?m = (c + k + 1) mod n" by (metis mod_add_left_eq)
  then have "(?m + (l - k - 1)) mod n = (c + k + 1 + (l - k - 1)) mod n"
    by (simp only: mod_add_left_eq)
  also have "c + k + 1 + (l - k - 1) = c + l" using assms(2) by simp
  finally have "((c + l) mod n + n - ?m) mod n = l - k - 1"
    using rr_rank_offset [of ?m n "l - k - 1"] assms by simp
  with assms show ?thesis by simp
qed

lemma rr_grant_Some:
  assumes wf: "rr_wf a" and len: "length r = rr_m_n a"
    and g: "rr_grant a r (rr_m_n a) = Some (Some i, a')"
  shows "\<exists>k < rr_m_n a. i = (rr_m_next a + k) mod rr_m_n a \<and> r ! i \<and>
    (\<forall>u < k. \<not> r ! ((rr_m_next a + u) mod rr_m_n a)) \<and> i < rr_m_n a \<and>
    rr_rank a i = k \<and> a' = a\<lparr>rr_m_next := (i + 1) mod rr_m_n a\<rparr>"
proof -
  from g have scan: "rr_scan (rr_m_n a) (rr_m_next a) r [0..<rr_m_n a] = Some i"
    and a': "a' = a\<lparr>rr_m_next := (i + 1) mod rr_m_n a\<rparr>"
    by (auto simp: rr_grant_def split: option.splits)
  from rr_scan_upt [OF scan] obtain k where k: "k < rr_m_n a"
    "i = (rr_m_next a + k) mod rr_m_n a" "r ! i"
    "\<forall>u < k. \<not> r ! ((rr_m_next a + u) mod rr_m_n a)" by blast
  moreover have "rr_rank a i = k"
    using wf k(1,2) rr_rank_offset [of "rr_m_next a" "rr_m_n a" k] by (auto simp: rr_rank_def rr_wf_def)
  ultimately show ?thesis using a' by auto
qed

interpretation rr: fair_arbiter rr_wf rr_m_n rr_rank rr_grant
proof (unfold_locales, goal_cases)
  case (1 a r)
  then show ?case
    by (cases "rr_m_n a = 0") (auto simp: rr_grant_def rr_wf_def split: option.splits)
next
  case (2 a r i a')
  from rr_grant_Some [OF this] show ?case by auto
next
  case (3 a r a' j)
  then have none: "\<forall>k < rr_m_n a. \<not> r ! ((rr_m_next a + k) mod rr_m_n a)"
    by (auto simp: rr_grant_def rr_scan_None split: option.splits)
  have "rr_m_next a < rr_m_n a" using 3(1,4) by (auto simp: rr_wf_def)
  with none 3(4) have "\<not> r ! ((rr_m_next a + (j + rr_m_n a - rr_m_next a) mod rr_m_n a) mod rr_m_n a)"
    by simp
  with rr_rank_inverse [OF \<open>rr_m_next a < rr_m_n a\<close> 3(4)] show ?case by simp
next
  case (4 a r i a' j)
  have next': "rr_m_next a < rr_m_n a" using 4(1,4) by (auto simp: rr_wf_def)
  from rr_grant_Some [OF 4(1-3)] obtain k where k: "k < rr_m_n a"
    "i = (rr_m_next a + k) mod rr_m_n a" "\<forall>u < k. \<not> r ! ((rr_m_next a + u) mod rr_m_n a)"
    "rr_rank a i = k" "a' = a\<lparr>rr_m_next := (i + 1) mod rr_m_n a\<rparr>" by blast
  define l where "l = rr_rank a j"
  have l: "l < rr_m_n a" "(rr_m_next a + l) mod rr_m_n a = j"
    using rr_rank_inverse [OF next' 4(4)] next' by (simp_all add: l_def rr_rank_def)
  have "\<not> l < k" using k(3) l(2) 4(5) by auto
  moreover have "l \<noteq> k" using k(2) l(2) 4(6) by auto
  ultimately have "k < l" by simp
  with rr_rank_after [OF next' this l(1)] have "rr_rank a' j < l"
    by (simp add: k(2,5) rr_rank_def l(2))
  with \<open>k < l\<close> show ?case by (simp add: k(4) l_def)
next
  case (5 a j)
  then show ?case by (simp add: rr_rank_def)
qed

subsection \<open>Runs of queue operations\<close>

datatype 'p voq_op = Voq_Push nat 'p | Voq_Push_Front nat 'p | Voq_Grant nat u64

fun voq_step ::
  "'a flit_packet_scheme bounded_voq \<Rightarrow> 'a flit_packet_scheme voq_op
   \<Rightarrow> 'a flit_packet_scheme bounded_voq option" where
  "voq_step v (Voq_Push d p) = map_option snd (voq_push v d p)"
| "voq_step v (Voq_Push_Front d p) = map_option snd (voq_push_front v d p)"
| "voq_step v (Voq_Grant d now) = map_option snd (voq_grant_flit v d now)"

text \<open>
  What the class asks of its caller: destinations in range, no empty packet, and a grant
  only where a packet waits.
\<close>

fun voq_allowed :: "'a flit_packet_scheme bounded_voq \<Rightarrow> 'a flit_packet_scheme voq_op \<Rightarrow> bool" where
  "voq_allowed v (Voq_Push d p) \<longleftrightarrow> d < voq_n_dst v \<and> 0 < remaining_flits p"
| "voq_allowed v (Voq_Push_Front d p) \<longleftrightarrow> d < voq_n_dst v \<and> 0 < remaining_flits p"
| "voq_allowed v (Voq_Grant d now) \<longleftrightarrow> d < voq_n_dst v \<and> \<not> voq_empty v d"

definition voq_shape :: "nat \<Rightarrow> nat \<Rightarrow> 'a flit_packet_scheme bounded_voq \<Rightarrow> bool" where
  "voq_shape n l v \<longleftrightarrow> voq_wf v \<and> voq_n_dst v = n \<and> voq_m_limit v = l"

lemma voq_push_before_shape:
  assumes "voq_shape n l v" "d < voq_n_dst v" "0 < remaining_flits p"
  shows "\<exists>ok v'. voq_push_before v d p b = Some (ok, v') \<and> voq_shape n l v'"
proof -
  have d: "d < length (voq_m_q v)" and wf: "voq_wf v"
    using assms by (simp_all add: voq_n_dst_def voq_shape_def)
  obtain ok v' where e: "voq_push_before v d p b = Some (ok, v')"
    using voq_push_before_defined [OF d] by blast
  from voq_push_before_wf [OF wf d assms(3) e] assms(1) have "voq_shape n l v'"
    by (simp add: voq_shape_def voq_n_dst_def)
  with e show ?thesis by blast
qed

lemma voq_grant_shape:
  assumes "voq_shape n l v" "d < voq_n_dst v" "\<not> voq_empty v d"
  shows "\<exists>done v'. voq_grant_flit v d now = Some (done, v') \<and> voq_shape n l v'"
proof -
  have d: "d < length (voq_m_q v)" and wf: "voq_wf v"
    using assms by (simp_all add: voq_n_dst_def voq_shape_def)
  obtain p ps where "voq_m_q v ! d = p # ps"
    using assms(3) by (auto simp: voq_empty_def neq_Nil_conv)
  from voq_grant_cases [OF wf d this, of now] assms(1) show ?thesis
    by (auto simp: voq_shape_def voq_n_dst_def)
qed

lemma voq_allowed_step:
  assumes "voq_shape n l v" "voq_allowed v x"
  shows "\<exists>v'. voq_step v x = Some v' \<and> voq_shape n l v'"
proof (cases x)
  case (Voq_Push d p)
  with assms voq_push_before_shape [OF assms(1), of d p "\<lambda>_. False"] show ?thesis
    by (auto simp: voq_push_as_push_before)
next
  case (Voq_Push_Front d p)
  with assms voq_push_before_shape [OF assms(1), of d p "\<lambda>_. True"] show ?thesis
    by (auto simp: voq_push_front_def)
next
  case (Voq_Grant d now)
  with assms voq_grant_shape [OF assms(1), of d now] show ?thesis by auto
qed

text \<open>A grant to an empty queue aborts, so the guarded step is the one with an invariant.\<close>

definition voq_guarded_step ::
  "'a flit_packet_scheme bounded_voq \<Rightarrow> 'a flit_packet_scheme voq_op
   \<Rightarrow> 'a flit_packet_scheme bounded_voq option" where
  "voq_guarded_step v x = (if voq_allowed v x then voq_step v x else None)"

interpretation voq_run: step_safe voq_guarded_step "voq_shape n l" voq_allowed for n l
  by unfold_locales
    (fastforce simp: voq_guarded_step_def dest: voq_allowed_step split: if_splits)+

text \<open>
  C30. No sequence of pushes, priority pushes and flit grants that respects the caller's
  duties trips an assertion of \<open>bounded_voq_t\<close>; throughout, the occupancy of each
  destination is the flits its packets still hold (an oversized packet counted as the
  limit) and never exceeds the limit.
\<close>

theorem voq_run_never_aborts:
  assumes "0 < l" "allowed_run voq_guarded_step voq_allowed (voq_init n l) ops"
  shows "\<exists>v. run_ops voq_guarded_step (voq_init n l) ops = Some v \<and>
    (\<forall>d < n. voq_occupancy_dst v d = voq_load l (voq_contents v d) \<and> voq_occupancy_dst v d \<le> l)"
proof -
  have "voq_shape n l (voq_init n l)"
    using voq_init_wf [OF assms(1)] by (simp add: voq_shape_def voq_n_dst_def voq_init_def)
  from voq_run.run_safe [OF this assms(2)] show ?thesis
    by (auto simp: voq_shape_def voq_wf_def voq_n_dst_def voq_occupancy_dst_def voq_contents_def)
qed

definition sample_packet :: "nat \<Rightarrow> flit_packet" where
  "sample_packet n = \<lparr>remaining_flits = n, created_cycle = 0\<rparr>"

definition sample_ops :: "flit_packet voq_op list" where
  "sample_ops = [Voq_Push 0 (sample_packet 9), Voq_Push 0 (sample_packet 1), Voq_Grant 0 1,
     Voq_Push 1 (sample_packet 2), Voq_Push_Front 1 (sample_packet 1), Voq_Grant 1 2]"

theorem voq_run_never_aborts_witness:
  "\<exists>v. run_ops voq_guarded_step (voq_init 2 4) sample_ops = Some v \<and>
    (\<forall>d < 2. voq_occupancy_dst v d = voq_load 4 (voq_contents v d) \<and> voq_occupancy_dst v d \<le> 4)"
  by (rule voq_run_never_aborts) (simp, code_simp)

text \<open>
  C38. The queue of a destination is served strictly in order and loses nothing: granting
  as many flits as its packets hold completes exactly these packets, in queue order, each
  with its last flit, empties the queue and leaves every other destination untouched.
\<close>

theorem voq_served_in_order:
  assumes "voq_wf v" "d < voq_n_dst v"
    and "length nows = sum_list (map remaining_flits (voq_contents v d))"
  shows "\<exists>v'. serve voq_grant_flit v d nows =
      Some (map (\<lambda>p. p\<lparr>remaining_flits := 0\<rparr>) (voq_contents v d), v') \<and> voq_wf v' \<and>
    voq_contents v' d = [] \<and> (\<forall>e. e \<noteq> d \<longrightarrow> voq_contents v' e = voq_contents v e)"
  using voq.serve_prefix [OF assms(1,2), of "voq_contents v d" "[]" nows] assms(3)
  by (auto simp: fun_eq_iff)

definition sample_voq :: "flit_packet bounded_voq" where
  "sample_voq = \<lparr>voq_m_limit = 4, voq_m_q = [[sample_packet 2, sample_packet 1], [sample_packet 9]],
     voq_m_occ = [3, 4], voq_m_stats = interconnect_stats_init\<rparr>"

theorem voq_served_in_order_witness:
  "\<exists>v'. serve voq_grant_flit sample_voq 0 [5, 6, 7] =
      Some (map (\<lambda>p. p\<lparr>remaining_flits := 0\<rparr>) (voq_contents sample_voq 0), v') \<and> voq_wf v' \<and>
    voq_contents v' 0 = [] \<and> (\<forall>e. e \<noteq> 0 \<longrightarrow> voq_contents v' e = voq_contents sample_voq e)"
proof (rule voq_served_in_order)
  show "voq_wf sample_voq"
    by (simp add: voq_wf_def sample_voq_def sample_packet_def All_less_Suc numeral_2_eq_2)
qed (simp_all add: sample_voq_def voq_n_dst_def voq_contents_def sample_packet_def)

text \<open>
  C39. The round-robin arbiter starves no input: an input that is ready in each of \<open>n\<close>
  consecutive rounds (\<open>n\<close> the number of inputs) is granted in one of them, whatever the
  other inputs do.
\<close>

theorem rr_no_starvation:
  assumes "rr_wf a" "j < rr_m_n a" "\<forall>r \<in> set rs. length r = rr_m_n a \<and> r ! j"
    and "rr_m_n a \<le> length rs"
  shows "\<exists>t < rr_m_n a. t < length (rounds rr_grant a rs) \<and> rounds rr_grant a rs ! t = Some j"
  using assms by (rule rr.no_starvation)

theorem rr_no_starvation_witness:
  "\<exists>t < (3 :: nat). t < length (rounds rr_grant (rr_init 3)
        [[True, True, True], [True, False, True], [True, True, True]]) \<and>
     rounds rr_grant (rr_init 3)
        [[True, True, True], [True, False, True], [True, True, True]] ! t = Some 2"
  using rr_no_starvation [of "rr_init 3" 2 "[[True, True, True], [True, False, True], [True, True, True]]"]
  by (simp add: rr_init_def rr_wf_def)

end
