(* ===== verification/Topology.thy ===== *)
theory Topology
  imports Prelude
begin

section \<open>The SM / GPC / CPC-slot map\<close>

text \<open>
  Models \<^verbatim>\<open>src/gpgpu-sim/gpu_topology.h\<close> and \<^verbatim>\<open>gpu_topology.cc\<close>: building the map
  from the number of enabled SMs of every GPC, the lookups in both directions, the node
  numbers of the global interconnect, the order in which a GPC visits its SMs, the per-SM
  response FIFOs and the resolution of old and new topology knobs. The error texts the
  code formats are left out: a failing build aborts (\<open>None\<close>), a disagreeing knob is \<open>None\<close>.
  \<open>~0u\<close>, the mark of a power-gated slot, is \<open>None\<close> in the slot table. Counts are \<open>nat\<close>, for
  SM counts whose sum is below \<open>2^32\<close>; only the number of slots of a GPC wraps.
\<close>

definition k_sm_slots_per_cpc :: nat where "k_sm_slots_per_cpc = 6"

record sm_location =
  loc_sm_id :: nat
  loc_gpc_id :: nat
  loc_local_sm_id :: nat
  loc_cpc_id :: nat
  loc_cpc_slot :: nat

record gpu_topology =
  topo_m_num_gpcs :: nat
  topo_m_sms_per_gpc :: nat
  topo_m_cpcs_per_gpc :: nat
  topo_m_num_sms :: nat
  topo_m_slots_per_gpc :: nat
  topo_m_sms_in_gpc :: "nat list"
  topo_m_gpc_sm_base :: "nat list"
  topo_m_sm :: "sm_location list"
  topo_m_slot_sm :: "nat option list"

subsection \<open>Building the map\<close>

text \<open>The first loop of \<open>build\<close>: bases, the total and the largest count, or an abort.\<close>

fun topo_scan :: "nat \<Rightarrow> nat list \<Rightarrow> nat \<Rightarrow> nat \<Rightarrow> (nat list \<times> nat \<times> nat) option" where
  "topo_scan slots [] num_sms largest = Some ([], num_sms, largest)"
| "topo_scan slots (n # ns) num_sms largest =
     (if n = 0 \<or> n > slots then None
      else do {
        (bases, tot, largest') \<leftarrow>
          topo_scan slots ns (num_sms + n) (if n > largest then n else largest);
        Some (num_sms # bases, tot, largest')
      })"

definition topo_location :: "nat \<Rightarrow> nat \<Rightarrow> nat \<Rightarrow> sm_location" where
  "topo_location sm g local =
     \<lparr>loc_sm_id = sm, loc_gpc_id = g, loc_local_sm_id = local,
      loc_cpc_id = local div k_sm_slots_per_cpc, loc_cpc_slot = local mod k_sm_slots_per_cpc\<rparr>"

text \<open>The body of the second loop: SM \<open>local\<close> of GPC \<open>g\<close> enters both tables.\<close>

definition topo_place ::
  "nat list \<Rightarrow> nat \<Rightarrow> nat \<Rightarrow> nat \<Rightarrow> sm_location list \<times> nat option list
   \<Rightarrow> sm_location list \<times> nat option list" where
  "topo_place bases slots g local tabs =
     (let sm = bases ! g + local
      in ((fst tabs)[sm := topo_location sm g local], (snd tabs)[g * slots + local := Some sm]))"

text \<open>The slots of a GPC, in the 32-bit arithmetic of the code.\<close>

definition cpc_slots :: "nat \<Rightarrow> nat" where
  "cpc_slots cpcs_per_gpc = wrap32 (k_sm_slots_per_cpc * cpcs_per_gpc)"

lemma cpc_slots_small: "6 * cp < 2 ^ 32 \<Longrightarrow> cpc_slots cp = 6 * cp"
  by (simp add: cpc_slots_def k_sm_slots_per_cpc_def wrap32_def)

definition topo_build :: "nat \<Rightarrow> nat list \<Rightarrow> nat \<Rightarrow> gpu_topology option" where
  "topo_build num_gpcs sms_per_gpc cpcs_per_gpc = do {
     cassert (num_gpcs > 0);
     cassert (cpcs_per_gpc > 0);
     cassert (length sms_per_gpc = num_gpcs);
     let slots = cpc_slots cpcs_per_gpc;
     (bases, num_sms, largest) \<leftarrow> topo_scan slots sms_per_gpc 0 0;
     let tabs = fold (\<lambda>g. fold (topo_place bases slots g) [0..<sms_per_gpc ! g]) [0..<num_gpcs]
                  (replicate num_sms (topo_location 0 0 0), replicate (num_gpcs * slots) None);
     Some \<lparr>topo_m_num_gpcs = num_gpcs, topo_m_sms_per_gpc = largest,
           topo_m_cpcs_per_gpc = cpcs_per_gpc, topo_m_num_sms = num_sms,
           topo_m_slots_per_gpc = slots, topo_m_sms_in_gpc = sms_per_gpc,
           topo_m_gpc_sm_base = bases, topo_m_sm = fst tabs, topo_m_slot_sm = snd tabs\<rparr>
   }"

definition topo_build_uniform :: "nat \<Rightarrow> nat \<Rightarrow> nat \<Rightarrow> gpu_topology option" where
  "topo_build_uniform num_gpcs num_sms_per_gpc cpcs_per_gpc =
     topo_build num_gpcs (replicate num_gpcs num_sms_per_gpc) cpcs_per_gpc"

subsection \<open>Lookups\<close>

definition num_sms_in_gpc :: "gpu_topology \<Rightarrow> nat \<Rightarrow> nat option" where
  "num_sms_in_gpc t gpc = do { cassert (gpc < topo_m_num_gpcs t); Some (topo_m_sms_in_gpc t ! gpc) }"

definition num_cpc_slots_in_gpc :: "gpu_topology \<Rightarrow> nat \<Rightarrow> nat option" where
  "num_cpc_slots_in_gpc t gpc = do { cassert (gpc < topo_m_num_gpcs t); Some (topo_m_slots_per_gpc t) }"

definition locate_sm :: "gpu_topology \<Rightarrow> nat \<Rightarrow> sm_location option" where
  "locate_sm t sm_id = do { cassert (sm_id < topo_m_num_sms t); Some (topo_m_sm t ! sm_id) }"

definition slot_is_enabled :: "gpu_topology \<Rightarrow> nat \<Rightarrow> nat \<Rightarrow> nat \<Rightarrow> bool option" where
  "slot_is_enabled t gpc cpc_id cpc_slot = do {
     cassert (gpc < topo_m_num_gpcs t);
     cassert (cpc_id < topo_m_cpcs_per_gpc t);
     cassert (cpc_slot < k_sm_slots_per_cpc);
     let linear = cpc_id * k_sm_slots_per_cpc + cpc_slot;
     Some (topo_m_slot_sm t ! (gpc * topo_m_slots_per_gpc t + linear) \<noteq> None)
   }"

definition sm_id_at :: "gpu_topology \<Rightarrow> nat \<Rightarrow> nat \<Rightarrow> nat option" where
  "sm_id_at t gpc local_sm = do {
     cassert (gpc < topo_m_num_gpcs t);
     cassert (local_sm \<le> topo_m_sms_in_gpc t ! gpc);
     Some (topo_m_gpc_sm_base t ! gpc + local_sm)
   }"

definition gpc_id_of_sm :: "gpu_topology \<Rightarrow> nat \<Rightarrow> nat option" where
  "gpc_id_of_sm t sm_id = map_option loc_gpc_id (locate_sm t sm_id)"

definition local_sm_of_sm :: "gpu_topology \<Rightarrow> nat \<Rightarrow> nat option" where
  "local_sm_of_sm t sm_id = map_option loc_local_sm_id (locate_sm t sm_id)"

definition global_sm_node_id :: "gpu_topology \<Rightarrow> nat \<Rightarrow> nat option" where
  "global_sm_node_id t sm_id = do { cassert (sm_id < topo_m_num_sms t); Some sm_id }"

definition global_l2_node_id :: "gpu_topology \<Rightarrow> nat \<Rightarrow> nat" where
  "global_l2_node_id t subpartition_id = topo_m_num_sms t + subpartition_id"

definition gpc_cta_issue_visit :: "nat \<Rightarrow> nat \<Rightarrow> nat \<Rightarrow> nat" where
  "gpc_cta_issue_visit i rr_start n_local_sms = (i + rr_start + 1) mod n_local_sms"

subsection \<open>Response FIFOs\<close>

record 'mf gpc_sm_response_fifos =
  rsp_m_limit :: nat
  rsp_m_q :: "'mf list list"

definition rsp_init :: "nat \<Rightarrow> nat \<Rightarrow> 'mf gpc_sm_response_fifos" where
  "rsp_init n_local_sms ejection_limit =
     \<lparr>rsp_m_limit = ejection_limit, rsp_m_q = replicate n_local_sms []\<rparr>"

definition rsp_full :: "'mf gpc_sm_response_fifos \<Rightarrow> nat \<Rightarrow> bool" where
  "rsp_full f local_sm \<longleftrightarrow> length (rsp_m_q f ! local_sm) \<ge> rsp_m_limit f"

definition rsp_push :: "'mf gpc_sm_response_fifos \<Rightarrow> nat \<Rightarrow> 'mf \<Rightarrow> 'mf gpc_sm_response_fifos" where
  "rsp_push f local_sm mf =
     f\<lparr>rsp_m_q := (rsp_m_q f)[local_sm := rsp_m_q f ! local_sm @ [mf]]\<rparr>"

text \<open>\<open>pop_front\<close> of an empty list is undefined behaviour in C++: \<open>None\<close>.\<close>

definition rsp_pop :: "'mf gpc_sm_response_fifos \<Rightarrow> nat \<Rightarrow> 'mf gpc_sm_response_fifos option" where
  "rsp_pop f local_sm =
     (case rsp_m_q f ! local_sm of [] \<Rightarrow> None
      | _ # ps \<Rightarrow> Some (f\<lparr>rsp_m_q := (rsp_m_q f)[local_sm := ps]\<rparr>))"

subsection \<open>Old and new topology knobs\<close>

definition resolve_pair :: "bool \<Rightarrow> nat \<Rightarrow> bool \<Rightarrow> nat \<Rightarrow> nat option" where
  "resolve_pair old_set old_val new_set new_val =
     (if old_set \<and> new_set \<and> old_val \<noteq> new_val then None
      else if new_set then Some new_val
      else Some old_val)"

definition gpc_resolve_topology_aliases ::
  "bool \<Rightarrow> nat \<Rightarrow> bool \<Rightarrow> nat \<Rightarrow> bool \<Rightarrow> nat \<Rightarrow> bool \<Rightarrow> nat \<Rightarrow> (nat \<times> nat) option" where
  "gpc_resolve_topology_aliases old_gpcs_set n_clusters new_gpcs_set num_gpcs
     old_sms_set n_cores new_sms_set num_sms_per_gpc = do {
       out_gpcs \<leftarrow> resolve_pair old_gpcs_set n_clusters new_gpcs_set num_gpcs;
       out_sms \<leftarrow> resolve_pair old_sms_set n_cores new_sms_set num_sms_per_gpc;
       Some (out_gpcs, out_sms)
     }"

text \<open>
  \<open>gpc_apply_topology_aliases\<close>: the four knobs afterwards (clusters, cores, GPCs alias,
  SMs-per-GPC alias). Which knobs were set is what the option parser recorded.
\<close>

definition gpc_apply_topology_aliases ::
  "bool \<Rightarrow> (string \<Rightarrow> bool) \<Rightarrow> nat \<Rightarrow> nat \<Rightarrow> nat \<Rightarrow> nat \<Rightarrow> (nat \<times> nat \<times> nat \<times> nat) option" where
  "gpc_apply_topology_aliases opp was_set n_clusters n_cores num_gpcs_alias num_sms_per_gpc_alias =
     do {
       let old_gpcs = opp \<and> was_set ''-gpgpu_n_clusters'';
       let new_gpcs = opp \<and> was_set ''-gpgpu_num_gpcs'';
       let old_sms = opp \<and> was_set ''-gpgpu_n_cores_per_cluster'';
       let new_sms = opp \<and> was_set ''-gpgpu_num_sms_per_gpc'';
       (out_gpcs, out_sms) \<leftarrow> gpc_resolve_topology_aliases old_gpcs n_clusters new_gpcs
          num_gpcs_alias old_sms n_cores new_sms num_sms_per_gpc_alias;
       Some (out_gpcs, out_sms, out_gpcs, out_sms)
     }"

subsection \<open>Tables filled by loops\<close>

lemma fold_fold_concat:
  "fold (\<lambda>g. fold (F g) (ls g)) gs s =
   fold (\<lambda>x. F (fst x) (snd x)) (concat (map (\<lambda>g. map (Pair g) (ls g)) gs)) s"
  by (induction gs arbitrary: s) (auto simp: fold_map comp_def)

lemma length_fold_update [simp]:
  "length (fold (\<lambda>x xs. xs[k x := h x]) ps xs) = length xs"
  by (induction ps arbitrary: xs) auto

lemma fold_update_other:
  "\<forall>x \<in> set ps. k x \<noteq> i \<Longrightarrow> fold (\<lambda>x xs. xs[k x := h x]) ps xs ! i = xs ! i"
  by (induction ps arbitrary: xs) auto

lemma fold_update_at:
  "x \<in> set ps \<Longrightarrow> k x < length xs \<Longrightarrow> \<forall>y \<in> set ps. k y = k x \<longrightarrow> h y = h x \<Longrightarrow>
   fold (\<lambda>x xs. xs[k x := h x]) ps xs ! k x = h x"
proof (induction ps arbitrary: xs)
  case Nil
  then show ?case by simp
next
  case (Cons y ps)
  let ?xs = "xs[k y := h y]"
  show ?case
  proof (cases "x \<in> set ps")
    case True
    then have "fold (\<lambda>x xs. xs[k x := h x]) ps ?xs ! k x = h x"
      by (rule Cons.IH) (use Cons.prems in auto)
    then show ?thesis by simp
  next
    case False
    then have x: "y = x" using Cons.prems(1) by auto
    have "fold (\<lambda>x xs. xs[k x := h x]) qs ?xs ! k x = h x" if "set qs \<subseteq> set ps" for qs
      using that
    proof (induction qs rule: rev_induct)
      case Nil
      then show ?case using x Cons.prems(2) by simp
    next
      case (snoc z qs)
      then show ?case
        using Cons.prems(2,3) by (cases "k z = k x") auto
    qed
    from this [of ps] show ?thesis by simp
  qed
qed

subsection \<open>Prefix sums\<close>

lemma topo_scan_spec:
  "topo_scan slots ns k m = Some (bases, tot, largest) \<Longrightarrow>
   length bases = length ns \<and> tot = k + sum_list ns \<and> (\<forall>n \<in> set ns. 0 < n \<and> n \<le> slots) \<and>
   (\<forall>g < length ns. bases ! g = k + sum_list (take g ns))"
proof (induction ns arbitrary: k m bases tot largest)
  case Nil
  then show ?case by simp
next
  case (Cons n ns)
  from Cons.prems obtain bs where n: "0 < n" "n \<le> slots" "bases = k # bs"
    "topo_scan slots ns (k + n) (if n > m then n else m) = Some (bs, tot, largest)"
    by (auto simp: bind_eq_Some_conv split: if_splits)
  from Cons.IH [OF n(4)] n show ?case by (auto simp: nth_Cons split: nat.splits)
qed

lemma topo_scan_defined:
  "\<forall>n \<in> set ns. 0 < n \<and> n \<le> slots \<Longrightarrow> topo_scan slots ns k m \<noteq> None"
  by (induction ns arbitrary: k m) (auto simp: bind_eq_None_conv split: prod.splits Option.bind_splits)

lemma prefix_sum_step:
  "g < g' \<Longrightarrow> g' \<le> length ns \<Longrightarrow> l < ns ! g \<Longrightarrow> sum_list (take g ns) + l < sum_list (take g' (ns :: nat list))"
proof (induction ns arbitrary: g g')
  case Nil
  then show ?case by simp
next
  case (Cons n ns)
  then show ?case by (cases g; cases g') auto
qed

lemma prefix_sum_inj:
  assumes "g < length ns" "g' < length ns" "l < ns ! g" "l' < ns ! g'"
    and "sum_list (take g ns) + l = sum_list (take g' (ns :: nat list)) + l'"
  shows "g = g' \<and> l = l'"
  using prefix_sum_step [of g g' ns l] prefix_sum_step [of g' g ns l'] assms
  by (cases g g' rule: linorder_cases) auto

lemma prefix_sum_surj:
  "s < sum_list (ns :: nat list) \<Longrightarrow>
   \<exists>g l. g < length ns \<and> l < ns ! g \<and> s = sum_list (take g ns) + l"
proof (induction ns arbitrary: s)
  case Nil
  then show ?case by simp
next
  case (Cons n ns)
  show ?case
  proof (cases "s < n")
    case True
    then show ?thesis by (intro exI [of _ 0] exI [of _ s]) simp
  next
    case False
    with Cons.prems have "s - n < sum_list ns" by auto
    then obtain g l where "g < length ns" "l < ns ! g" "s - n = sum_list (take g ns) + l"
      using Cons.IH by blast
    with False show ?thesis by (intro exI [of _ "Suc g"] exI [of _ l]) auto
  qed
qed

lemma prefix_sum_below:
  "g < length ns \<Longrightarrow> l < ns ! g \<Longrightarrow> sum_list (take g ns) + l < sum_list (ns :: nat list)"
  using prefix_sum_step [of g "length ns" ns l] by simp

subsection \<open>Well-formed maps\<close>

definition topo_wf :: "nat list \<Rightarrow> nat \<Rightarrow> gpu_topology \<Rightarrow> bool" where
  "topo_wf cs cp t \<longleftrightarrow>
     topo_m_num_gpcs t = length cs \<and> topo_m_cpcs_per_gpc t = cp \<and>
     topo_m_slots_per_gpc t = cpc_slots cp \<and> topo_m_sms_in_gpc t = cs \<and>
     topo_m_num_sms t = sum_list cs \<and> (\<forall>n \<in> set cs. 0 < n \<and> n \<le> cpc_slots cp) \<and>
     (\<forall>g < length cs. topo_m_gpc_sm_base t ! g = sum_list (take g cs)) \<and>
     (\<forall>g < length cs. \<forall>l < cs ! g.
        topo_m_sm t ! (sum_list (take g cs) + l) = topo_location (sum_list (take g cs) + l) g l) \<and>
     (\<forall>g < length cs. \<forall>l < cpc_slots cp.
        topo_m_slot_sm t ! (g * cpc_slots cp + l) =
          (if l < cs ! g then Some (sum_list (take g cs) + l) else None))"

definition topo_pairs :: "nat list \<Rightarrow> (nat \<times> nat) list" where
  "topo_pairs cs = concat (map (\<lambda>g. map (Pair g) [0..<cs ! g]) [0..<length cs])"

lemma set_topo_pairs: "(g, l) \<in> set (topo_pairs cs) \<longleftrightarrow> g < length cs \<and> l < cs ! g"
  by (auto simp: topo_pairs_def image_iff)

lemma topo_place_fold:
  "fold (\<lambda>x. topo_place bases slots (fst x) (snd x)) ps (a, b) =
   (fold (\<lambda>x xs. xs[bases ! fst x + snd x := topo_location (bases ! fst x + snd x) (fst x) (snd x)]) ps a,
    fold (\<lambda>x xs. xs[fst x * slots + snd x := Some (bases ! fst x + snd x)]) ps b)"
  by (induction ps arbitrary: a b) (auto simp: topo_place_def Let_def)

lemma slot_index_inj:
  assumes "l < s" "l' < s" "g * s + l = g' * s + (l' :: nat)"
  shows "g = g' \<and> l = l'"
proof -
  have "(g * s + l) div s = g" "(g * s + l) mod s = l" using assms(1) by simp_all
  moreover have "(g' * s + l') div s = g'" "(g' * s + l') mod s = l'" using assms(2) by simp_all
  ultimately show ?thesis using assms(3) by simp
qed

lemma topo_build_wf:
  assumes "topo_build n cs cp = Some t"
  shows "n = length cs \<and> 0 < cp \<and> topo_wf cs cp t"
proof -
  define slots where "slots = cpc_slots cp"
  obtain bases tot largest where n: "n = length cs" "0 < cp"
    and scan: "topo_scan slots cs 0 0 = Some (bases, tot, largest)"
    and t: "topo_m_num_gpcs t = length cs" "topo_m_cpcs_per_gpc t = cp"
      "topo_m_slots_per_gpc t = slots" "topo_m_sms_in_gpc t = cs" "topo_m_num_sms t = tot"
      "topo_m_gpc_sm_base t = bases"
    and tabs: "(topo_m_sm t, topo_m_slot_sm t) =
      fold (\<lambda>x. topo_place bases slots (fst x) (snd x)) (topo_pairs cs)
        (replicate tot (topo_location 0 0 0), replicate (length cs * slots) None)"
    using assms
    by (auto simp: topo_build_def Let_def bind_eq_Some_conv fold_fold_concat topo_pairs_def slots_def)
  from topo_scan_spec [OF scan] have tot: "tot = sum_list cs"
    and pos: "\<forall>k \<in> set cs. 0 < k \<and> k \<le> slots"
    and bases: "\<forall>g < length cs. bases ! g = sum_list (take g cs)" by auto
  have le: "cs ! g \<le> slots" if "g < length cs" for g using pos that by simp
  have sm: "topo_m_sm t ! (sum_list (take g cs) + l) = topo_location (sum_list (take g cs) + l) g l"
    if "g < length cs" "l < cs ! g" for g l
  proof -
    let ?k = "\<lambda>x. bases ! fst x + snd x"
    let ?h = "\<lambda>x. topo_location (bases ! fst x + snd x) (fst x) (snd x)"
    have "fold (\<lambda>x xs. xs[?k x := ?h x]) (topo_pairs cs) (replicate tot (topo_location 0 0 0)) ! ?k (g, l)
        = ?h (g, l)"
    proof (rule fold_update_at)
      show "(g, l) \<in> set (topo_pairs cs)" using that by (simp add: set_topo_pairs)
      show "?k (g, l) < length (replicate tot (topo_location 0 0 0))"
        using that bases tot prefix_sum_below by simp
      show "\<forall>y \<in> set (topo_pairs cs). ?k y = ?k (g, l) \<longrightarrow> ?h y = ?h (g, l)"
        using that bases by (auto simp: set_topo_pairs dest: prefix_sum_inj)
    qed
    with that bases tabs show ?thesis by (simp add: topo_place_fold)
  qed
  have idx: "g * slots + l < length cs * slots" if "g < length cs" "l < slots" for g l
  proof -
    have "g * slots + l < Suc g * slots" using that by simp
    also have "\<dots> \<le> length cs * slots" using that by (intro mult_le_mono1) simp
    finally show ?thesis .
  qed
  have slot: "topo_m_slot_sm t ! (g * slots + l) =
      (if l < cs ! g then Some (sum_list (take g cs) + l) else None)"
    if "g < length cs" "l < slots" for g l
  proof (cases "l < cs ! g")
    case True
    let ?k = "\<lambda>x. fst x * slots + snd x"
    let ?h = "\<lambda>x. Some (bases ! fst x + snd x)"
    have "fold (\<lambda>x xs. xs[?k x := ?h x]) (topo_pairs cs) (replicate (length cs * slots) None) ! ?k (g, l)
        = ?h (g, l)"
    proof (rule fold_update_at)
      show "(g, l) \<in> set (topo_pairs cs)" using that True by (simp add: set_topo_pairs)
      show "?k (g, l) < length (replicate (length cs * slots) None)" using idx that by simp
      show "\<forall>y \<in> set (topo_pairs cs). ?k y = ?k (g, l) \<longrightarrow> ?h y = ?h (g, l)"
        using that le by (auto simp: set_topo_pairs dest!: slot_index_inj [rotated 2] intro: less_le_trans)
    qed
    with that True bases tabs show ?thesis by (simp add: topo_place_fold)
  next
    case False
    have "\<forall>x \<in> set (topo_pairs cs). fst x * slots + snd x \<noteq> g * slots + l"
      using that False le by (auto simp: set_topo_pairs dest!: slot_index_inj [rotated 2] intro: less_le_trans)
    then have "fold (\<lambda>x xs. xs[fst x * slots + snd x := Some (bases ! fst x + snd x)]) (topo_pairs cs)
        (replicate (length cs * slots) None) ! (g * slots + l) = None"
      using idx that by (simp add: fold_update_other)
    with that False tabs show ?thesis by (simp add: topo_place_fold)
  qed
  show ?thesis
    using n t tot pos bases sm slot by (simp add: topo_wf_def slots_def)
qed

lemma topo_build_defined:
  assumes "cs \<noteq> []" "0 < cp" "\<forall>n \<in> set cs. 0 < n \<and> n \<le> cpc_slots cp"
  shows "\<exists>t. topo_build (length cs) cs cp = Some t"
  using assms topo_scan_defined [OF assms(3), of 0 0]
  by (auto simp: topo_build_def Let_def bind_eq_Some_conv)

subsection \<open>Properties of the map\<close>

lemma topo_wf_locate:
  assumes "topo_wf cs cp t" "g < length cs" "l < cs ! g"
  shows "sm_id_at t g l = Some (sum_list (take g cs) + l)"
    and "sum_list (take g cs) + l < topo_m_num_sms t"
    and "locate_sm t (sum_list (take g cs) + l) = Some (topo_location (sum_list (take g cs) + l) g l)"
  using assms prefix_sum_below [of g cs l]
  by (simp_all add: topo_wf_def sm_id_at_def locate_sm_def)

text \<open>
  C32. \<open>locate_sm\<close> and \<open>sm_id_at\<close> are inverse to each other on every topology that
  \<open>build\<close> accepts: each (GPC, local SM) pair has exactly one SM id below \<open>num_sms\<close>,
  located in CPC \<open>local / 6\<close>, slot \<open>local mod 6\<close>, and each SM id below \<open>num_sms\<close> is the
  id of the pair it is located at.
\<close>

theorem topology_locate_roundtrip:
  assumes "topo_build n cs cp = Some t"
  shows "(\<forall>g < n. \<forall>l < cs ! g. \<exists>s. sm_id_at t g l = Some s \<and> s < topo_m_num_sms t \<and>
            locate_sm t s = Some \<lparr>loc_sm_id = s, loc_gpc_id = g, loc_local_sm_id = l,
              loc_cpc_id = l div 6, loc_cpc_slot = l mod 6\<rparr>) \<and>
         (\<forall>s < topo_m_num_sms t. \<exists>loc. locate_sm t s = Some loc \<and> loc_gpc_id loc < n \<and>
            loc_local_sm_id loc < cs ! loc_gpc_id loc \<and>
            sm_id_at t (loc_gpc_id loc) (loc_local_sm_id loc) = Some s)"
proof (intro conjI allI impI)
  have wf: "topo_wf cs cp t" and n: "n = length cs" using topo_build_wf [OF assms] by auto
  fix g l assume "g < n" "l < cs ! g"
  with topo_wf_locate [OF wf] n show "\<exists>s. sm_id_at t g l = Some s \<and> s < topo_m_num_sms t \<and>
    locate_sm t s = Some \<lparr>loc_sm_id = s, loc_gpc_id = g, loc_local_sm_id = l,
      loc_cpc_id = l div 6, loc_cpc_slot = l mod 6\<rparr>"
    by (auto simp: topo_location_def k_sm_slots_per_cpc_def)
next
  have wf: "topo_wf cs cp t" and n: "n = length cs" using topo_build_wf [OF assms] by auto
  fix s assume "s < topo_m_num_sms t"
  then have "s < sum_list cs" using wf by (simp add: topo_wf_def)
  then obtain g l where "g < length cs" "l < cs ! g" "s = sum_list (take g cs) + l"
    using prefix_sum_surj by blast
  with topo_wf_locate [OF wf] n show "\<exists>loc. locate_sm t s = Some loc \<and> loc_gpc_id loc < n \<and>
      loc_local_sm_id loc < cs ! loc_gpc_id loc \<and>
      sm_id_at t (loc_gpc_id loc) (loc_local_sm_id loc) = Some s"
    by (auto simp: topo_location_def)
qed

theorem topology_locate_roundtrip_witness:
  "\<exists>t. topo_build 3 [2, 18, 7] 3 = Some t \<and>
     (\<exists>s. sm_id_at t 1 13 = Some s \<and> locate_sm t s = Some \<lparr>loc_sm_id = s, loc_gpc_id = 1,
        loc_local_sm_id = 13, loc_cpc_id = 2, loc_cpc_slot = 1\<rparr>)"
proof -
  obtain t where t: "topo_build 3 [2, 18, 7] 3 = Some t"
    using topo_build_defined [of "[2, 18, 7]" 3]
    by (auto simp: cpc_slots_small numeral_3_eq_3)
  have "\<forall>l < [2, 18, 7] ! 1. \<exists>s. sm_id_at t 1 l = Some s \<and> s < topo_m_num_sms t \<and>
    locate_sm t s = Some \<lparr>loc_sm_id = s, loc_gpc_id = 1, loc_local_sm_id = l,
      loc_cpc_id = l div 6, loc_cpc_slot = l mod 6\<rparr>"
    using topology_locate_roundtrip [OF t] by simp
  from this [rule_format, of 13] t show ?thesis by auto
qed

text \<open>
  C40. For SM counts whose sum fits 32 bits, \<open>build\<close> succeeds exactly when there is a GPC and a
  CPC, one count per GPC is given and every count lies between 1 and the slots of a GPC,
  \<open>6 * cpcs_per_gpc\<close> in 32-bit arithmetic. When that product does not wrap, a slot is enabled
  (not power-gated) exactly when its linear index is below the GPC's count.
\<close>

theorem topology_build_enabled_slots:
  assumes "sum_list cs < 2 ^ 32"
  shows "(topo_build n cs cp \<noteq> None \<longleftrightarrow>
      0 < n \<and> 0 < cp \<and> length cs = n \<and> (\<forall>k \<in> set cs. 0 < k \<and> k \<le> (6 * cp) mod 2 ^ 32)) \<and>
   (\<forall>t g c k. topo_build n cs cp = Some t \<longrightarrow> 6 * cp < 2 ^ 32 \<longrightarrow> g < n \<longrightarrow> c < cp \<longrightarrow> k < 6 \<longrightarrow>
      slot_is_enabled t g c k = Some (c * 6 + k < cs ! g))"
proof (intro conjI allI impI)
  have slots: "cpc_slots cp = (6 * cp) mod 2 ^ 32" by (simp add: cpc_slots_def k_sm_slots_per_cpc_def wrap32_def)
  show "topo_build n cs cp \<noteq> None \<longleftrightarrow>
      0 < n \<and> 0 < cp \<and> length cs = n \<and> (\<forall>k \<in> set cs. 0 < k \<and> k \<le> (6 * cp) mod 2 ^ 32)"
  proof
    assume "topo_build n cs cp \<noteq> None"
    then obtain t where t: "topo_build n cs cp = Some t" by blast
    then have "0 < n" by (auto simp: topo_build_def bind_eq_Some_conv)
    with topo_build_wf [OF t] show
      "0 < n \<and> 0 < cp \<and> length cs = n \<and> (\<forall>k \<in> set cs. 0 < k \<and> k \<le> (6 * cp) mod 2 ^ 32)"
      unfolding topo_wf_def slots by blast
  next
    assume ok: "0 < n \<and> 0 < cp \<and> length cs = n \<and> (\<forall>k \<in> set cs. 0 < k \<and> k \<le> (6 * cp) mod 2 ^ 32)"
    then have "\<exists>t. topo_build (length cs) cs cp = Some t"
      unfolding slots [symmetric] by (intro topo_build_defined) auto
    with ok show "topo_build n cs cp \<noteq> None" by auto
  qed
next
  fix t g c k
  assume t: "topo_build n cs cp = Some t" and "6 * cp < 2 ^ 32" "g < n" "c < cp" "k < (6 :: nat)"
  have wf: "topo_wf cs cp t" and n: "n = length cs" using topo_build_wf [OF t] by auto
  have "c * 6 + k < cpc_slots cp" using \<open>c < cp\<close> \<open>k < 6\<close> cpc_slots_small [OF \<open>6 * cp < 2 ^ 32\<close>] by simp
  with wf n \<open>g < n\<close> \<open>c < cp\<close> \<open>k < 6\<close> show "slot_is_enabled t g c k = Some (c * 6 + k < cs ! g)"
    by (simp add: slot_is_enabled_def topo_wf_def k_sm_slots_per_cpc_def)
qed

theorem topology_build_enabled_slots_witness:
  "(\<exists>t. topo_build 2 [4, 12] 2 = Some t \<and> slot_is_enabled t 0 0 5 = Some False \<and>
     slot_is_enabled t 1 1 5 = Some True) \<and>
   topo_build 1 [3] 715827883 = None \<and> topo_build 1 [2] 715827883 \<noteq> None"
proof -
  have "topo_build 2 [4, 12] 2 \<noteq> None" using topology_build_enabled_slots [of "[4, 12]" 2 2] by simp
  then obtain t where t: "topo_build 2 [4, 12] 2 = Some t" by blast
  with topology_build_enabled_slots [of "[4, 12]" 2 2] topology_build_enabled_slots [of "[3]" 1 715827883]
    topology_build_enabled_slots [of "[2]" 1 715827883]
  show ?thesis by auto
qed

text \<open>
  One CTA-issue pass of a GPC visits each of its SMs exactly once, and the SM that
  was last issued to (the cursor \<open>rr_start\<close>) comes last.
\<close>

theorem gpc_cta_issue_visits_all_once:
  assumes "0 < n"
  shows "bij_betw (\<lambda>i. gpc_cta_issue_visit i rr n) {..<n} {..<n} \<and>
    gpc_cta_issue_visit (n - 1) rr n = rr mod n"
proof
  have "inj_on (\<lambda>i. gpc_cta_issue_visit i rr n) {..<n}"
  proof (rule inj_onI)
    fix i j assume "i \<in> {..<n}" "j \<in> {..<n}"
      and "gpc_cta_issue_visit i rr n = gpc_cta_issue_visit j rr n"
    then have "(i + (rr + 1)) mod n = (j + (rr + 1)) mod n" "i < n" "j < n"
      by (simp_all add: gpc_cta_issue_visit_def add.assoc)
    then have "i mod n = j mod n" by (simp only: nat_mod_eq_iff) auto
    with \<open>i < n\<close> \<open>j < n\<close> show "i = j" by simp
  qed
  moreover have "(\<lambda>i. gpc_cta_issue_visit i rr n) ` {..<n} \<subseteq> {..<n}"
    using assms by (auto simp: gpc_cta_issue_visit_def)
  ultimately show "bij_betw (\<lambda>i. gpc_cta_issue_visit i rr n) {..<n} {..<n}"
    by (simp add: bij_betw_def endo_inj_surj)
  have "n - 1 + rr + 1 = rr + n" using assms by simp
  then show "gpc_cta_issue_visit (n - 1) rr n = rr mod n"
    by (simp add: gpc_cta_issue_visit_def)
qed

theorem gpc_cta_issue_visits_all_once_witness:
  "bij_betw (\<lambda>i. gpc_cta_issue_visit i 7 18) {..<18} {..<18} \<and> gpc_cta_issue_visit 17 7 18 = 7"
  using gpc_cta_issue_visits_all_once [of 18 7] by simp

end
