(* ===== verification/Service_Budget.thy ===== *)
theory Service_Budget
  imports Prelude
begin

section \<open>Per-tick service budgets\<close>

text \<open>
  Models \<^verbatim>\<open>src/gpgpu-sim/mem_transport_budget.h\<close> (the sector budget of a memory-transport
  port, with its bounded credit for packets wider than one tick) and
  \<^verbatim>\<open>src/gpgpu-sim/smem_service.h\<close> (the shared-memory byte grant with rotating priority).
  \<open>unsigned\<close> values are \<open>nat\<close>; the clamp to \<open>UINT_MAX\<close> and the unlimited budget \<open>~0u\<close>
  are written out.
\<close>

definition UINT_MAX :: nat where "UINT_MAX = 2 ^ 32 - 1"

definition SECTOR_SIZE :: nat where "SECTOR_SIZE = 32"

datatype mf_type = READ_REQUEST | WRITE_REQUEST | READ_REPLY | WRITE_ACK

definition memory_transport_data_sectors :: "mf_type \<Rightarrow> nat \<Rightarrow> nat" where
  "memory_transport_data_sectors type data_bytes =
     (if type = WRITE_ACK then 0
      else data_bytes div SECTOR_SIZE + (if data_bytes mod SECTOR_SIZE \<noteq> 0 then 1 else 0))"

definition memory_transport_service_slots :: "nat \<Rightarrow> nat" where
  "memory_transport_service_slots data_sectors = max 1 data_sectors"

subsection \<open>Statistics\<close>

record service_stats =
  accepted_data_sectors :: nat
  accepted_control_packets :: nat
  width_limited_ticks :: nat
  downstream_full_ticks :: nat
  service_ticks :: nat
  max_service_slots_per_tick :: nat

definition service_stats_init :: service_stats where
  "service_stats_init =
     \<lparr>accepted_data_sectors = 0, accepted_control_packets = 0, width_limited_ticks = 0,
      downstream_full_ticks = 0, service_ticks = 0, max_service_slots_per_tick = 0\<rparr>"

definition record_accept :: "nat \<Rightarrow> service_stats \<Rightarrow> service_stats" where
  "record_accept data_sectors s =
     (let s1 = s\<lparr>accepted_data_sectors := accepted_data_sectors s + data_sectors\<rparr>
      in if data_sectors = 0
         then s1\<lparr>accepted_control_packets := accepted_control_packets s1 + 1\<rparr> else s1)"

definition add_stats :: "service_stats \<Rightarrow> service_stats \<Rightarrow> service_stats" where
  "add_stats s other =
     \<lparr>accepted_data_sectors = accepted_data_sectors s + accepted_data_sectors other,
      accepted_control_packets = accepted_control_packets s + accepted_control_packets other,
      width_limited_ticks = width_limited_ticks s + width_limited_ticks other,
      downstream_full_ticks = downstream_full_ticks s + downstream_full_ticks other,
      service_ticks = service_ticks s + service_ticks other,
      max_service_slots_per_tick =
        max (max_service_slots_per_tick s) (max_service_slots_per_tick other)\<rparr>"

definition record_tick_service :: "nat \<Rightarrow> service_stats \<Rightarrow> service_stats" where
  "record_tick_service service_slots s =
     (let s1 = (if service_slots \<noteq> 0 then s\<lparr>service_ticks := service_ticks s + 1\<rparr> else s)
      in s1\<lparr>max_service_slots_per_tick := max (max_service_slots_per_tick s1) service_slots\<rparr>)"

subsection \<open>memory\_transport\_service\_budget\<close>

record service_budget =
  bud_m_width :: nat
  bud_m_available :: nat
  bud_m_credit :: nat
  bud_m_reserved_credit :: nat
  bud_m_credit_cap :: nat
  bud_m_consumed :: nat
  bud_m_width_limited :: bool
  bud_m_downstream_full :: bool
  bud_m_active :: bool

definition budget_init :: service_budget where
  "budget_init =
     \<lparr>bud_m_width = 0, bud_m_available = 0, bud_m_credit = 0, bud_m_reserved_credit = 0,
      bud_m_credit_cap = 0, bud_m_consumed = 0, bud_m_width_limited = False,
      bud_m_downstream_full = False, bud_m_active = False\<rparr>"

definition begin_tick :: "nat \<Rightarrow> service_budget \<Rightarrow> service_budget" where
  "begin_tick width b =
     b\<lparr>bud_m_width := width,
       bud_m_reserved_credit := bud_m_credit b,
       bud_m_available := (if width \<noteq> 0 then min (width + bud_m_credit b) UINT_MAX else 0),
       bud_m_credit := 0,
       bud_m_credit_cap := 0,
       bud_m_consumed := 0,
       bud_m_width_limited := False,
       bud_m_downstream_full := False,
       bud_m_active := True\<rparr>"

definition explicit_width :: "service_budget \<Rightarrow> bool" where
  "explicit_width b \<longleftrightarrow> bud_m_width b \<noteq> 0"

definition budget_can_accept :: "service_budget \<Rightarrow> nat \<Rightarrow> bool" where
  "budget_can_accept b data_sectors \<longleftrightarrow>
     explicit_width b \<and> memory_transport_service_slots data_sectors \<le> bud_m_available b"

definition budget_consume :: "nat \<Rightarrow> service_budget \<Rightarrow> service_budget option" where
  "budget_consume data_sectors b = do {
     let slots = memory_transport_service_slots data_sectors;
     cassert (explicit_width b);
     cassert (slots \<le> bud_m_available b);
     Some (b\<lparr>bud_m_available := bud_m_available b - slots,
             bud_m_consumed := bud_m_consumed b + slots\<rparr>)
   }"

definition note_width_limited :: "nat \<Rightarrow> service_budget \<Rightarrow> service_budget" where
  "note_width_limited data_sectors b =
     (let b1 = b\<lparr>bud_m_width_limited := True\<rparr>;
          slots = memory_transport_service_slots data_sectors
      in if slots > bud_m_width b1
         then b1\<lparr>bud_m_credit_cap := max (bud_m_credit_cap b1) (slots - bud_m_width b1)\<rparr>
         else b1)"

definition note_downstream_full :: "service_budget \<Rightarrow> service_budget" where
  "note_downstream_full b = b\<lparr>bud_m_downstream_full := True\<rparr>"

definition end_tick :: "service_budget \<Rightarrow> service_stats \<Rightarrow> (service_budget \<times> service_stats) option" where
  "end_tick b stats = do {
     cassert (bud_m_active b);
     let s1 = (if bud_m_width_limited b
               then stats\<lparr>width_limited_ticks := width_limited_ticks stats + 1\<rparr> else stats);
     let s2 = (if bud_m_downstream_full b
               then s1\<lparr>downstream_full_ticks := downstream_full_ticks s1 + 1\<rparr> else s1);
     let s3 = record_tick_service (bud_m_consumed b) s2;
     Some (b\<lparr>bud_m_credit := (if bud_m_width_limited b \<and> \<not> bud_m_downstream_full b
                              then min (bud_m_available b) (bud_m_credit_cap b) else 0),
             bud_m_active := False,
             bud_m_reserved_credit := 0\<rparr>, s3)
   }"

subsection \<open>What happens between begin and end of a tick\<close>

datatype tick_event = Consume nat | Width_Limited nat | Downstream_Full

fun tick_event_step :: "service_budget \<Rightarrow> tick_event \<Rightarrow> service_budget option" where
  "tick_event_step b (Consume n) = budget_consume n b"
| "tick_event_step b (Width_Limited n) = Some (note_width_limited n b)"
| "tick_event_step b Downstream_Full = Some (note_downstream_full b)"

definition budget_tick ::
  "nat \<Rightarrow> tick_event list \<Rightarrow> service_budget \<times> service_stats \<Rightarrow> (service_budget \<times> service_stats) option"
where
  "budget_tick width evs bs = do {
     b1 \<leftarrow> run_ops tick_event_step (begin_tick width (fst bs)) evs;
     end_tick b1 (snd bs)
   }"

text \<open>The slots a run of ticks served, each tick with its width and its events.\<close>

fun budget_served :: "service_budget \<times> service_stats \<Rightarrow> (nat \<times> tick_event list) list
    \<Rightarrow> (nat \<times> service_budget) option" where
  "budget_served bs [] = Some (0, fst bs)"
| "budget_served bs ((w, evs) # ts) = do {
     bs1 \<leftarrow> budget_tick w evs bs;
     (n, b) \<leftarrow> budget_served bs1 ts;
     Some (bud_m_consumed (fst bs1) + n, b)
   }"

subsection \<open>shared\_memory\_service\_t\<close>

definition NCLIENT :: nat where "NCLIENT = 3"

record smem_service =
  sms_m_budget :: nat
  sms_m_rr :: nat
  sms_m_exposed :: "nat list"
  sms_m_granted :: "nat list"

definition smem_init :: "nat \<Rightarrow> smem_service" where
  "smem_init bytes_per_cycle =
     \<lparr>sms_m_budget = bytes_per_cycle, sms_m_rr = 0, sms_m_exposed = replicate NCLIENT 0,
      sms_m_granted = replicate NCLIENT 0\<rparr>"

definition smem_expose :: "smem_service \<Rightarrow> nat \<Rightarrow> nat \<Rightarrow> smem_service" where
  "smem_expose s client bytes =
     (if client < NCLIENT
      then s\<lparr>sms_m_exposed := (sms_m_exposed s)[client := sms_m_exposed s ! client + bytes]\<rparr>
      else s)"

definition smem_take :: "smem_service \<Rightarrow> nat \<Rightarrow> nat \<Rightarrow> nat \<times> smem_service" where
  "smem_take s client bytes =
     (if client \<ge> NCLIENT \<or> bytes = 0 then (0, s)
      else let g = min bytes (sms_m_granted s ! client)
           in (g, s\<lparr>sms_m_granted := (sms_m_granted s)[client := sms_m_granted s ! client - g]\<rparr>))"

text \<open>The loop of \<open>cycle\<close> over \<open>k\<close>; it stops early once nothing remains.\<close>

fun smem_grant_loop :: "nat \<Rightarrow> nat list \<Rightarrow> nat list \<Rightarrow> nat \<Rightarrow> nat list \<Rightarrow> nat list" where
  "smem_grant_loop rr exposed [] remaining granted = granted"
| "smem_grant_loop rr exposed (k # ks) remaining granted =
     (if remaining = 0 then granted
      else let c = (rr + k) mod NCLIENT;
               g = min (exposed ! c) remaining
           in smem_grant_loop rr exposed ks (remaining - g) (granted[c := g]))"

definition smem_cycle :: "smem_service \<Rightarrow> smem_service" where
  "smem_cycle s =
     (let remaining = (if sms_m_budget s \<noteq> 0 then sms_m_budget s else UINT_MAX);
          granted = smem_grant_loop (sms_m_rr s) (sms_m_exposed s) [0..<NCLIENT] remaining
                      (replicate NCLIENT 0)
      in s\<lparr>sms_m_rr := (sms_m_rr s + 1) mod NCLIENT, sms_m_granted := granted,
           sms_m_exposed := replicate NCLIENT 0\<rparr>)"

subsection \<open>The rate of a budgeted port\<close>

lemma consume_keeps:
  "budget_consume n b = Some b' \<Longrightarrow>
   bud_m_available b' + bud_m_consumed b' = bud_m_available b + bud_m_consumed b \<and>
   bud_m_width b' = bud_m_width b \<and> bud_m_active b' = bud_m_active b \<and>
   bud_m_credit_cap b' = bud_m_credit_cap b"
  by (auto simp: budget_consume_def Let_def)

lemma tick_event_keeps:
  "tick_event_step b x = Some b' \<Longrightarrow>
   bud_m_available b' + bud_m_consumed b' = bud_m_available b + bud_m_consumed b \<and>
   bud_m_width b' = bud_m_width b \<and> bud_m_active b' = bud_m_active b"
  by (cases x) (auto simp: note_width_limited_def note_downstream_full_def Let_def
      dest: consume_keeps split: if_splits)

lemma tick_events_keep:
  "run_ops tick_event_step b xs = Some b' \<Longrightarrow>
   bud_m_available b' + bud_m_consumed b' = bud_m_available b + bud_m_consumed b \<and>
   bud_m_width b' = bud_m_width b \<and> bud_m_active b' = bud_m_active b"
  by (induction xs arbitrary: b) (auto simp: bind_eq_Some_conv dest: tick_event_keeps)

lemma budget_tick_balance:
  assumes "budget_tick w evs bs = Some bs'"
  shows "bud_m_consumed (fst bs') + bud_m_credit (fst bs') \<le> w + bud_m_credit (fst bs)"
proof -
  obtain b1 where b1: "run_ops tick_event_step (begin_tick w (fst bs)) evs = Some b1"
    and e: "end_tick b1 (snd bs) = Some bs'"
    using assms by (auto simp: budget_tick_def bind_eq_Some_conv)
  from tick_events_keep [OF b1]
  have "bud_m_available b1 + bud_m_consumed b1 \<le> w + bud_m_credit (fst bs)"
    by (auto simp: begin_tick_def split: if_splits)
  with e show ?thesis by (auto simp: end_tick_def Let_def)
qed

text \<open>
  C37. A budgeted memory-transport port never serves more than its configured rate: over
  any run of ticks, whatever is consumed, refused or blocked in them, the slots served
  plus the credit left are at most the sum of the tick widths plus the credit at the
  start. Credit is only a delay of unused width, never extra bandwidth.
\<close>

theorem budget_rate_bound:
  "budget_served (b, st) ts = Some (n, b') \<Longrightarrow>
   n + bud_m_credit b' \<le> sum_list (map fst ts) + bud_m_credit b"
proof (induction ts arbitrary: b st n)
  case Nil
  then show ?case by simp
next
  case (Cons t ts)
  obtain w evs where t: "t = (w, evs)" by (cases t)
  from Cons.prems t obtain b1 st1 m where
    tick: "budget_tick w evs (b, st) = Some (b1, st1)"
    and rest: "budget_served (b1, st1) ts = Some (m, b')" and n: "n = bud_m_consumed b1 + m"
    by (auto simp: bind_eq_Some_conv)
  from Cons.IH [OF rest] budget_tick_balance [OF tick] n t show ?case by simp
qed

definition sample_ticks :: "(nat \<times> tick_event list) list" where
  "sample_ticks = [(2, [Width_Limited 4]), (2, [Consume 4]), (2, [Consume 1, Consume 0])]"

theorem budget_rate_bound_witness:
  "\<exists>n b'. budget_served (budget_init, service_stats_init) sample_ticks = Some (n, b') \<and>
     n + bud_m_credit b' \<le> 6"
proof -
  define r where "r = budget_served (budget_init, service_stats_init) sample_ticks"
  have "r \<noteq> None"
    by (simp add: r_def sample_ticks_def budget_tick_def begin_tick_def end_tick_def
        budget_consume_def explicit_width_def note_width_limited_def UINT_MAX_def
        memory_transport_service_slots_def budget_init_def)
  then obtain n b' where "r = Some (n, b')" by auto
  with budget_rate_bound [of budget_init service_stats_init sample_ticks n b'] show ?thesis
    by (simp add: r_def sample_ticks_def budget_init_def)
qed

subsection \<open>Progress of an oversized packet\<close>

text \<open>
  A head packet that is offered in every tick while downstream is free: it is consumed
  when it fits, otherwise the tick ends width-limited.
\<close>

definition offer_tick :: "nat \<Rightarrow> nat \<Rightarrow> service_budget \<times> service_stats
    \<Rightarrow> (bool \<times> service_budget \<times> service_stats) option" where
  "offer_tick width data_sectors bs =
     (let b0 = begin_tick width (fst bs) in
      if budget_can_accept b0 data_sectors
      then do { b1 \<leftarrow> budget_consume data_sectors b0; bs' \<leftarrow> end_tick b1 (snd bs); Some (True, bs') }
      else do { bs' \<leftarrow> end_tick (note_width_limited data_sectors b0) (snd bs); Some (False, bs') })"

fun offers_until_accept :: "nat \<Rightarrow> nat \<Rightarrow> nat \<Rightarrow> service_budget \<times> service_stats \<Rightarrow> nat option" where
  "offers_until_accept 0 width data_sectors bs = None"
| "offers_until_accept (Suc fuel) width data_sectors bs =
     (case offer_tick width data_sectors bs of
        None \<Rightarrow> None
      | Some (True, bs') \<Rightarrow> Some 1
      | Some (False, bs') \<Rightarrow> map_option Suc (offers_until_accept fuel width data_sectors bs'))"

lemma offer_tick_cases:
  assumes "0 < w" "memory_transport_service_slots n \<le> UINT_MAX"
    and "w + bud_m_credit b \<le> UINT_MAX"
  shows "\<exists>b' st'. offer_tick w n (b, st) =
    Some (memory_transport_service_slots n \<le> w + bud_m_credit b, b', st') \<and>
    (memory_transport_service_slots n > w + bud_m_credit b \<longrightarrow> bud_m_credit b' =
       min (w + bud_m_credit b) (memory_transport_service_slots n - w))"
  using assms
  by (auto simp: offer_tick_def Let_def begin_tick_def budget_can_accept_def explicit_width_def
      budget_consume_def end_tick_def note_width_limited_def bind_eq_Some_conv)

lemma less_ceiling_div: "0 < w \<Longrightarrow> i < (s + w - 1) div w \<longleftrightarrow> i * w < (s :: nat)"
proof -
  assume w: "0 < w"
  have "i < (s + w - 1) div w \<longleftrightarrow> Suc i * w \<le> s + w - 1"
    using w by (simp only: Suc_le_eq [symmetric] less_eq_div_iff_mult_less_eq)
  also have "\<dots> \<longleftrightarrow> i * w < s" using w by auto
  finally show ?thesis .
qed

lemma offers_accepted:
  assumes w: "0 < w" "w \<le> UINT_MAX" and s: "memory_transport_service_slots n \<le> UINT_MAX"
    and J: "J = (memory_transport_service_slots n + w - 1) div w"
  shows "bud_m_credit b = min (k * w) (memory_transport_service_slots n - w) \<Longrightarrow> 0 < m \<Longrightarrow>
    k + m = J \<Longrightarrow> m \<le> fuel \<Longrightarrow> offers_until_accept fuel w n (b, st) = Some m"
proof (induction fuel arbitrary: b st k m)
  case 0
  then show ?case by simp
next
  case (Suc fuel)
  let ?s = "memory_transport_service_slots n"
  have bound: "w + bud_m_credit b \<le> UINT_MAX" using Suc.prems(1) w s by auto
  obtain b' st' where off: "offer_tick w n (b, st) = Some (?s \<le> w + bud_m_credit b, b', st')"
    and cr: "?s > w + bud_m_credit b \<longrightarrow> bud_m_credit b' = min (w + bud_m_credit b) (?s - w)"
    using offer_tick_cases [OF w(1) s bound] by blast
  have fits: "?s \<le> w + bud_m_credit b \<longleftrightarrow> \<not> (k + 1) * w < ?s"
    using Suc.prems(1) by (auto simp: min_def)
  show ?case
  proof (cases "m = 1")
    case True
    then have "\<not> k + 1 < J" using Suc.prems(3) by simp
    then have "\<not> (k + 1) * w < ?s"
      using less_ceiling_div [OF w(1), of "k + 1" ?s, folded J] by blast
    then have "?s \<le> w + bud_m_credit b" using fits by blast
    with off True show ?thesis by simp
  next
    case False
    then have "k + 1 < J" using Suc.prems(2,3) by simp
    then have late: "(k + 1) * w < ?s"
      using less_ceiling_div [OF w(1), of "k + 1" ?s, folded J] by blast
    then have "bud_m_credit b' = min ((k + 1) * w) (?s - w)"
      using cr fits Suc.prems(1) by (auto simp: min_def)
    from Suc.IH [OF this, of "m - 1" st'] Suc.prems False
    have "offers_until_accept fuel w n (b', st') = Some (m - 1)" by simp
    moreover have "\<not> ?s \<le> w + bud_m_credit b" using fits late by simp
    ultimately show ?thesis using off False Suc.prems(2) by simp
  qed
qed

text \<open>
  An oversized packet always makes progress: offered in every tick to a free
  downstream at a port of width \<open>w > 0\<close> that starts without credit, a packet of \<open>s\<close>
  service slots is accepted in exactly the \<open>\<lceil>s / w\<rceil>\<close>-th tick.
\<close>

theorem oversized_packet_progress:
  assumes "0 < w" "w \<le> UINT_MAX" "memory_transport_service_slots n \<le> UINT_MAX"
    and "bud_m_credit b = 0"
    and "(memory_transport_service_slots n + w - 1) div w \<le> fuel"
  shows "offers_until_accept fuel w n (b, st) =
    Some ((memory_transport_service_slots n + w - 1) div w)"
proof (rule offers_accepted [OF assms(1-3) refl, of b 0])
  show "0 < (memory_transport_service_slots n + w - 1) div w"
    using less_ceiling_div [OF assms(1), of 0 "memory_transport_service_slots n"]
    by (simp add: memory_transport_service_slots_def)
qed (use assms in simp_all)

theorem oversized_packet_progress_witness:
  "offers_until_accept 10 3 (memory_transport_data_sectors READ_REPLY 128)
     (budget_init, service_stats_init) = Some 2"
  using oversized_packet_progress [of 3 4 budget_init 10 service_stats_init]
  by (simp add: memory_transport_service_slots_def budget_init_def UINT_MAX_def
      memory_transport_data_sectors_def SECTOR_SIZE_def)

subsection \<open>The shared-memory grant\<close>

definition smem_wf :: "smem_service \<Rightarrow> bool" where
  "smem_wf s \<longleftrightarrow> sms_m_rr s < NCLIENT \<and> length (sms_m_exposed s) = NCLIENT \<and>
     length (sms_m_granted s) = NCLIENT"

lemma smem_ops_wf:
  "smem_wf (smem_init n)"
  "smem_wf s \<Longrightarrow> smem_wf (smem_expose s c n)"
  "smem_wf s \<Longrightarrow> smem_wf (snd (smem_take s c n))"
  by (auto simp: smem_wf_def smem_init_def smem_expose_def smem_take_def NCLIENT_def Let_def)

text \<open>The effective budget of one cycle.\<close>

definition smem_budget :: "smem_service \<Rightarrow> nat" where
  "smem_budget s = (if sms_m_budget s \<noteq> 0 then sms_m_budget s else UINT_MAX)"

lemma length3: "length xs = 3 \<Longrightarrow> \<exists>a b c. xs = [a, b, c]"
  by (auto simp: numeral_3_eq_3 length_Suc_conv)

text \<open>The early exit of the loop changes nothing: nothing is left to grant.\<close>

fun grant_all :: "nat \<Rightarrow> nat list \<Rightarrow> nat list \<Rightarrow> nat \<Rightarrow> nat list \<Rightarrow> nat list" where
  "grant_all rr exposed [] remaining granted = granted"
| "grant_all rr exposed (k # ks) remaining granted =
     grant_all rr exposed ks (remaining - exposed ! ((rr + k) mod 3))
       (granted[(rr + k) mod 3 := min (exposed ! ((rr + k) mod 3)) remaining])"

lemma grant_all_nothing_left:
  "\<forall>k \<in> set ks. g ! ((rr + k) mod 3) = 0 \<Longrightarrow> grant_all rr e ks 0 g = g"
proof (induction ks arbitrary: g)
  case Nil
  then show ?case by simp
next
  case (Cons k ks)
  then have "g[(rr + k) mod 3 := 0] = g" by (metis list.set_intros(1) list_update_id)
  with Cons show ?case by simp
qed

lemma smem_grant_loop_all:
  "distinct (map (\<lambda>k. (rr + k) mod 3) ks) \<Longrightarrow> \<forall>k \<in> set ks. g ! ((rr + k) mod 3) = 0 \<Longrightarrow>
   smem_grant_loop rr e ks R g = grant_all rr e ks R g"
proof (induction ks arbitrary: R g)
  case Nil
  then show ?case by simp
next
  case (Cons k ks)
  let ?c = "(rr + k) mod 3"
  have zero: "\<forall>k' \<in> set ks. g[?c := x] ! ((rr + k') mod 3) = 0" for x
    using Cons.prems by (auto simp: image_iff)
  have sub: "R - min (e ! ?c) R = R - e ! ?c" by (simp add: min_def)
  show ?case
  proof (cases "R = 0")
    case True
    have "grant_all rr e (k # ks) 0 g = g"
      using Cons.prems(2) by (rule grant_all_nothing_left)
    with True show ?thesis by simp
  next
    case False
    have "distinct (map (\<lambda>k. (rr + k) mod 3) ks)" using Cons.prems(1) by simp
    from Cons.IH [OF this zero] False sub show ?thesis
      by (simp only: smem_grant_loop.simps grant_all.simps Let_def NCLIENT_def if_False)
  qed
qed

lemma rr_cases: "(r :: nat) < 3 \<Longrightarrow> r = 0 \<or> r = 1 \<or> r = 2"
  by arith

lemma smem_cycle_granted:
  assumes "smem_wf s"
  shows "sms_m_granted (smem_cycle s) =
    grant_all (sms_m_rr s) (sms_m_exposed s) [0, 1, 2] (smem_budget s) [0, 0, 0]"
proof -
  have upt: "[0..<NCLIENT] = [0, 1, 2]" by (simp add: upt_rec NCLIENT_def)
  have rep: "replicate NCLIENT 0 = [0, 0, 0 :: nat]" by (simp add: NCLIENT_def numeral_3_eq_3)
  have "distinct (map (\<lambda>k. (sms_m_rr s + k) mod 3) [0, 1, 2])"
    using assms rr_cases [of "sms_m_rr s"] by (auto simp: smem_wf_def NCLIENT_def)
  moreover have "\<forall>k \<in> set [0, 1, 2]. [0, 0, 0 :: nat] ! ((sms_m_rr s + k) mod 3) = 0"
    using assms rr_cases [of "sms_m_rr s"] by (auto simp: smem_wf_def NCLIENT_def)
  ultimately have "smem_grant_loop (sms_m_rr s) (sms_m_exposed s) [0, 1, 2] (smem_budget s) [0, 0, 0]
      = grant_all (sms_m_rr s) (sms_m_exposed s) [0, 1, 2] (smem_budget s) [0, 0, 0]"
    by (rule smem_grant_loop_all)
  then show ?thesis
    by (simp only: smem_cycle_def smem_budget_def Let_def upt rep) simp
qed

lemma length_grant_all [simp]: "length (grant_all rr e ks R g) = length g"
  by (induction ks arbitrary: R g) simp_all

lemma smem_cycle_wf:
  assumes "smem_wf s" shows "smem_wf (smem_cycle s)"
proof -
  have "length (sms_m_granted (smem_cycle s)) = 3"
    unfolding smem_cycle_granted [OF assms] length_grant_all by simp
  then show ?thesis by (simp add: smem_wf_def smem_cycle_def NCLIENT_def Let_def)
qed

lemma three_grants:
  "min a B + (min b (B - a) + min c (B - a - b)) = min B (a + b + (c :: nat))"
  by linarith

text \<open>
  One cycle of the shared-memory service is work-conserving and within budget: no
  client is granted more than it exposed, the grants sum to the smaller of the byte
  budget and the total demand, and the client whose turn it is gets all it asked for up
  to the budget; the turn passes to the next of the three clients.
\<close>

theorem smem_cycle_work_conserving:
  assumes "smem_wf s"
  shows "(\<forall>c < 3. sms_m_granted (smem_cycle s) ! c \<le> sms_m_exposed s ! c) \<and>
    sum_list (sms_m_granted (smem_cycle s)) = min (smem_budget s) (sum_list (sms_m_exposed s)) \<and>
    sms_m_granted (smem_cycle s) ! sms_m_rr s = min (sms_m_exposed s ! sms_m_rr s) (smem_budget s) \<and>
    sms_m_rr (smem_cycle s) = (sms_m_rr s + 1) mod 3 \<and> smem_wf (smem_cycle s)"
proof -
  obtain a b c where e: "sms_m_exposed s = [a, b, c]"
    using length3 [of "sms_m_exposed s"] assms by (auto simp: smem_wf_def NCLIENT_def)
  let ?g = "sms_m_granted (smem_cycle s)" and ?B = "smem_budget s"
  have rest: "sms_m_rr (smem_cycle s) = (sms_m_rr s + 1) mod 3" "smem_wf (smem_cycle s)"
    using smem_cycle_wf [OF assms] by (simp_all add: smem_cycle_def NCLIENT_def Let_def)
  have all3: "(\<forall>c < 3. P c) \<longleftrightarrow> P 0 \<and> P 1 \<and> P 2" for P :: "nat \<Rightarrow> bool"
    by (auto simp: numeral_3_eq_3 numeral_2_eq_2 less_Suc_eq)
  have "sms_m_rr s = 0 \<or> sms_m_rr s = 1 \<or> sms_m_rr s = 2"
    using assms by (intro rr_cases) (simp add: smem_wf_def NCLIENT_def)
  then show ?thesis
  proof (elim disjE)
    assume r: "sms_m_rr s = 0"
    then have "?g = [min a ?B, min b (?B - a), min c (?B - a - b)]"
      by (simp add: smem_cycle_granted [OF assms] e)
    with r e rest three_grants [of a ?B b c] show ?thesis by (simp add: all3)
  next
    assume r: "sms_m_rr s = 1"
    then have "?g = [min a (?B - b - c), min b ?B, min c (?B - b)]"
      by (simp add: smem_cycle_granted [OF assms] e)
    with r e rest three_grants [of b ?B c a] show ?thesis by (simp add: all3 ac_simps)
  next
    assume r: "sms_m_rr s = 2"
    then have "?g = [min a (?B - c), min b (?B - c - a), min c ?B]"
      by (simp add: smem_cycle_granted [OF assms] e)
    with r e rest three_grants [of c ?B a b] show ?thesis by (simp add: all3 ac_simps)
  qed
qed

definition sample_smem :: smem_service where
  "sample_smem = \<lparr>sms_m_budget = 128, sms_m_rr = 1, sms_m_exposed = [100, 0, 60],
     sms_m_granted = [0, 0, 0]\<rparr>"

theorem smem_cycle_work_conserving_witness:
  "sum_list (sms_m_granted (smem_cycle sample_smem)) = 128"
proof -
  have "smem_wf sample_smem" by (simp add: smem_wf_def sample_smem_def NCLIENT_def)
  from smem_cycle_work_conserving [OF this] show ?thesis
    by (simp add: sample_smem_def smem_budget_def)
qed

end
