(* ===== verification/Dsm_Fabric.thy ===== *)
theory Dsm_Fabric
  imports Transport Topology
begin

section \<open>The intra-GPC DSM fabric\<close>

text \<open>
  Models \<^verbatim>\<open>src/gpgpu-sim/dsm_fabric.h\<close> and \<^verbatim>\<open>dsm_fabric.cc\<close>: the packets, the
  configuration with its defaults, injection into the per-source queues, the shaper, the
  route hash, one cycle of the fabric (eligibility, requests, route arbitration, lane
  arbitration with multicast and packing, ejection credits) and ejection.

  It is a client of the queues, credits and arbiters of \<^verbatim>\<open>Transport.thy\<close> and of the map
  of \<^verbatim>\<open>Topology.thy\<close>. The arrays indexed by virtual channel hold two elements, request
  first. Cycles, addresses and multicast groups are 64-bit words, the rest of the
  unsigned fields are \<open>nat\<close>. The printing of \<open>display_state\<close> is left out.
\<close>

subsection \<open>Packets\<close>

datatype dsm_vc = Vc_Request | Vc_Response

datatype dsm_packet_class =
    Read_Command | Read_Data | Write_Data | Write_Ack_Pkt | Atomic_Request | Atomic_Response
  | Tma_Data | Mbarrier_Request | Mbarrier_Completion

record dsm_packet = flit_packet +
  pkt_packet_id :: nat
  pkt_transaction_id :: nat
  pkt_network_src_sm_id :: nat
  pkt_network_dst_sm_id :: nat
  pkt_transaction_requester_sm_id :: nat
  pkt_transaction_target_sm_id :: nat
  pkt_vc :: dsm_vc
  pkt_packet_class :: dsm_packet_class
  pkt_payload_bytes :: nat
  pkt_total_flits :: nat
  pkt_route_lane :: nat
  pkt_gx_plane :: nat
  pkt_payload_address :: u64
  pkt_injected_cycle :: u64
  pkt_tail_arrival_cycle :: u64
  pkt_ejection_reserved_flits :: nat
  pkt_multicast_group :: u64
  pkt_completion_count :: nat
  pkt_cta_slot :: nat
  pkt_cta_gen :: nat

definition dsm_packet_init :: dsm_packet where
  "dsm_packet_init =
     \<lparr>remaining_flits = 0, created_cycle = 0, pkt_packet_id = 0, pkt_transaction_id = 0,
      pkt_network_src_sm_id = 0, pkt_network_dst_sm_id = 0,
      pkt_transaction_requester_sm_id = 0, pkt_transaction_target_sm_id = 0,
      pkt_vc = Vc_Request, pkt_packet_class = Write_Data, pkt_payload_bytes = 0,
      pkt_total_flits = 0, pkt_route_lane = 0, pkt_gx_plane = 0, pkt_payload_address = 0,
      pkt_injected_cycle = 0, pkt_tail_arrival_cycle = 0, pkt_ejection_reserved_flits = 0,
      pkt_multicast_group = 0, pkt_completion_count = 1, pkt_cta_slot = 0, pkt_cta_gen = 0\<rparr>"

definition dsm_packet_is_control :: "dsm_packet_class \<Rightarrow> bool" where
  "dsm_packet_is_control c \<longleftrightarrow>
     c = Read_Command \<or> c = Write_Ack_Pkt \<or> c = Mbarrier_Request \<or> c = Mbarrier_Completion"

definition dsm_vc_of :: "dsm_packet_class \<Rightarrow> dsm_vc" where
  "dsm_vc_of c = (case c of Read_Data \<Rightarrow> Vc_Response | Write_Ack_Pkt \<Rightarrow> Vc_Response
     | Atomic_Response \<Rightarrow> Vc_Response | Mbarrier_Completion \<Rightarrow> Vc_Response | _ \<Rightarrow> Vc_Request)"

definition dsm_payload_flits :: "dsm_packet_class \<Rightarrow> nat \<Rightarrow> nat \<Rightarrow> nat" where
  "dsm_payload_flits c bytes flit_payload_bytes =
     (if dsm_packet_is_control c then 1
      else let f = (if flit_payload_bytes \<noteq> 0 then flit_payload_bytes else 32)
           in wrap32 (bytes + f - 1) div f)"

subsection \<open>Configuration and state\<close>

record dsm_route =
  route_gx_plane :: nat
  route_lane :: nat

record dsm_config =
  cfg_cpcs :: nat
  cfg_lanes_per_cpc :: nat
  cfg_gx_planes :: nat
  cfg_flit_payload_bytes :: nat
  cfg_shaper_period :: nat
  cfg_request_vc_flits :: nat
  cfg_response_vc_flits :: nat
  cfg_ejection_vc_flits :: nat
  cfg_route_seed :: nat
  cfg_response_priority_bound :: nat
  cfg_base_latency_cycles :: nat
  cfg_store_visibility_latency_cycles :: nat
  cfg_shaper :: "string option"
  cfg_shaper_index :: "string option"
  cfg_vc_arbiter :: "string option"

definition dsm_config_init :: dsm_config where
  "dsm_config_init =
     \<lparr>cfg_cpcs = 0, cfg_lanes_per_cpc = 4, cfg_gx_planes = 2, cfg_flit_payload_bytes = 32,
      cfg_shaper_period = 3, cfg_request_vc_flits = 64, cfg_response_vc_flits = 64,
      cfg_ejection_vc_flits = 64, cfg_route_seed = 0, cfg_response_priority_bound = 4,
      cfg_base_latency_cycles = 0, cfg_store_visibility_latency_cycles = 0,
      cfg_shaper = Some ''skip_mod'', cfg_shaper_index = Some ''sm_id'',
      cfg_vc_arbiter = Some ''bounded_response_priority''\<rparr>"

record dsm_stats =
  st_flits_granted :: nat
  st_payload_bytes_granted :: nat
  st_packets_injected :: nat
  st_packets_ejected :: nat
  st_eligibility_slots :: nat
  st_eligibility_used :: nat
  st_eligibility_wasted :: nat
  st_stall_inject :: nat
  st_stall_lane :: nat
  st_stall_ejection :: nat
  st_lane_conflicts :: nat
  st_flits_request :: nat
  st_flits_response :: nat
  st_occupancy_high_water_request :: nat
  st_occupancy_high_water_response :: nat

definition dsm_stats_init :: dsm_stats where
  "dsm_stats_init =
     \<lparr>st_flits_granted = 0, st_payload_bytes_granted = 0, st_packets_injected = 0,
      st_packets_ejected = 0, st_eligibility_slots = 0, st_eligibility_used = 0,
      st_eligibility_wasted = 0, st_stall_inject = 0, st_stall_lane = 0, st_stall_ejection = 0,
      st_lane_conflicts = 0, st_flits_request = 0, st_flits_response = 0,
      st_occupancy_high_water_request = 0, st_occupancy_high_water_response = 0\<rparr>"

datatype dsm_shaper = SHAPER_SKIP_MOD | SHAPER_FIXED_TDM | SHAPER_HARD_RATE_CAP

record dsm_fabric =
  fab_m_cfg :: dsm_config
  fab_m_gpc :: nat
  fab_m_n :: nat
  fab_m_shaper :: dsm_shaper
  fab_m_index_is_slot :: bool
  fab_m_rsp_priority :: bool
  fab_m_now :: u64
  fab_m_next_pkt_id :: nat
  fab_m_cpc :: "nat list"
  fab_m_slot :: "nat list"
  fab_m_hrc_acc :: "nat list"
  fab_m_consec_rsp :: "nat list"
  fab_m_dst_next :: "nat list list"
  fab_m_last_eligible :: "bool list"
  fab_m_in :: "dsm_packet bounded_voq list list"
  fab_m_ej :: "dsm_packet list list list"
  fab_m_credit :: "flit_credit_counters list"
  fab_m_route_rr :: "round_robin_arbiter list"
  fab_m_cpc_rr :: "round_robin_arbiter list"
  fab_m_stats :: dsm_stats

definition num_routes :: "dsm_fabric \<Rightarrow> nat" where
  "num_routes f = cfg_gx_planes (fab_m_cfg f) * cfg_lanes_per_cpc (fab_m_cfg f)"

definition vci :: "dsm_vc \<Rightarrow> nat" where
  "vci v = (case v of Vc_Request \<Rightarrow> 0 | Vc_Response \<Rightarrow> 1)"

text \<open>The constructor first replaces zero fields of the configuration by their defaults.\<close>

definition dsm_config_defaults :: "gpu_topology \<Rightarrow> dsm_config \<Rightarrow> dsm_config" where
  "dsm_config_defaults topo cfg =
     (let d = (\<lambda>x y. if x = 0 then y else x) in
      cfg\<lparr>cfg_cpcs := d (cfg_cpcs cfg) (topo_m_cpcs_per_gpc topo),
          cfg_lanes_per_cpc := d (cfg_lanes_per_cpc cfg) 4,
          cfg_gx_planes := d (cfg_gx_planes cfg) 2,
          cfg_flit_payload_bytes := d (cfg_flit_payload_bytes cfg) 32,
          cfg_shaper_period := d (cfg_shaper_period cfg) 3,
          cfg_request_vc_flits := d (cfg_request_vc_flits cfg) 64,
          cfg_response_vc_flits := d (cfg_response_vc_flits cfg) 64,
          cfg_ejection_vc_flits := d (cfg_ejection_vc_flits cfg) 64,
          cfg_response_priority_bound := d (cfg_response_priority_bound cfg) 4\<rparr>)"

text \<open>The location lookups of the constructor's loop over local SMs.\<close>

fun fabric_locations :: "gpu_topology \<Rightarrow> nat \<Rightarrow> nat list \<Rightarrow> sm_location list option" where
  "fabric_locations topo gpc [] = Some []"
| "fabric_locations topo gpc (local # ls) = do {
     sm \<leftarrow> sm_id_at topo gpc local;
     loc \<leftarrow> locate_sm topo sm;
     locs \<leftarrow> fabric_locations topo gpc ls;
     Some (loc # locs)
   }"

definition dsm_fabric_new :: "gpu_topology \<Rightarrow> nat \<Rightarrow> dsm_config \<Rightarrow> dsm_fabric option" where
  "dsm_fabric_new topo gpc cfg0 = do {
     let cfg = dsm_config_defaults topo cfg0;
     let shaper = (if cfg_shaper cfg = Some ''fixed_tdm'' then SHAPER_FIXED_TDM
                   else if cfg_shaper cfg = Some ''hard_rate_cap'' then SHAPER_HARD_RATE_CAP
                   else SHAPER_SKIP_MOD);
     n \<leftarrow> num_sms_in_gpc topo gpc;
     cassert (n > 0);
     cassert (n \<le> 64);
     locs \<leftarrow> fabric_locations topo gpc [0..<n];
     let n_routes = cfg_gx_planes cfg * cfg_lanes_per_cpc cfg;
     cassert (n_routes > 0);
     cassert (n_routes \<le> 64);
     Some \<lparr>fab_m_cfg = cfg, fab_m_gpc = gpc, fab_m_n = n, fab_m_shaper = shaper,
       fab_m_index_is_slot = (cfg_shaper_index cfg = Some ''cpc_slot''),
       fab_m_rsp_priority =
         (cfg_vc_arbiter cfg = None \<or> cfg_vc_arbiter cfg = Some ''bounded_response_priority''),
       fab_m_now = 0, fab_m_next_pkt_id = 0,
       fab_m_cpc = map loc_cpc_id locs, fab_m_slot = map loc_cpc_slot locs,
       fab_m_hrc_acc = replicate n 0, fab_m_consec_rsp = replicate n 0,
       fab_m_dst_next = replicate 2 (replicate n 0),
       fab_m_last_eligible = replicate n False,
       fab_m_in = [replicate n (voq_init n (cfg_request_vc_flits cfg)),
                   replicate n (voq_init n (cfg_response_vc_flits cfg))],
       fab_m_ej = replicate 2 (replicate n []),
       fab_m_credit = replicate 2 (credit_init n (cfg_ejection_vc_flits cfg)),
       fab_m_route_rr = replicate (cfg_cpcs cfg * n_routes) (rr_init n),
       fab_m_cpc_rr = replicate (cfg_cpcs cfg) (rr_init n_routes),
       fab_m_stats = dsm_stats_init\<rparr>
   }"

text \<open>Reading and writing one queue, ejection list or credit pool.\<close>

abbreviation fab_in :: "dsm_fabric \<Rightarrow> nat \<Rightarrow> nat \<Rightarrow> dsm_packet bounded_voq" where
  "fab_in f v s \<equiv> fab_m_in f ! v ! s"

abbreviation fab_ej :: "dsm_fabric \<Rightarrow> nat \<Rightarrow> nat \<Rightarrow> dsm_packet list" where
  "fab_ej f v d \<equiv> fab_m_ej f ! v ! d"

definition set_in :: "nat \<Rightarrow> nat \<Rightarrow> dsm_packet bounded_voq \<Rightarrow> dsm_fabric \<Rightarrow> dsm_fabric" where
  "set_in v s q f = f\<lparr>fab_m_in := (fab_m_in f)[v := (fab_m_in f ! v)[s := q]]\<rparr>"

definition set_ej :: "nat \<Rightarrow> nat \<Rightarrow> dsm_packet list \<Rightarrow> dsm_fabric \<Rightarrow> dsm_fabric" where
  "set_ej v d ps f = f\<lparr>fab_m_ej := (fab_m_ej f)[v := (fab_m_ej f ! v)[d := ps]]\<rparr>"

definition set_credit :: "nat \<Rightarrow> flit_credit_counters \<Rightarrow> dsm_fabric \<Rightarrow> dsm_fabric" where
  "set_credit v c f = f\<lparr>fab_m_credit := (fab_m_credit f)[v := c]\<rparr>"

definition upd_stats :: "(dsm_stats \<Rightarrow> dsm_stats) \<Rightarrow> dsm_fabric \<Rightarrow> dsm_fabric" where
  "upd_stats g f = f\<lparr>fab_m_stats := g (fab_m_stats f)\<rparr>"

subsection \<open>Routes and injection\<close>

definition hash_route :: "dsm_fabric \<Rightarrow> u64 \<Rightarrow> nat \<Rightarrow> nat \<Rightarrow> nat \<Rightarrow> dsm_route" where
  "hash_route f addr src dst uid =
     (let n_routes = num_routes f;
          idx = addr div of_nat (cfg_flit_payload_bytes (fab_m_cfg f));
          idx = idx + of_nat src * 2;
          idx = idx + of_nat dst * 3;
          idx = idx + of_nat (uid div 16);
          idx = idx + of_nat (cfg_route_seed (fab_m_cfg f));
          route = (if n_routes \<noteq> 0 then unat (idx mod of_nat n_routes) else 0);
          lanes = cfg_lanes_per_cpc (fab_m_cfg f)
      in \<lparr>route_gx_plane = (if lanes \<noteq> 0 then route div lanes else 0),
          route_lane = (if lanes \<noteq> 0 then route mod lanes else 0)\<rparr>)"

definition can_inject_to :: "dsm_fabric \<Rightarrow> nat \<Rightarrow> dsm_vc \<Rightarrow> nat \<Rightarrow> nat \<Rightarrow> bool" where
  "can_inject_to f src vc dest flits \<longleftrightarrow>
     (if src \<ge> fab_m_n f \<or> dest \<ge> fab_m_n f then False
      else voq_can_push (fab_in f (vci vc) src) dest flits)"

definition can_inject :: "dsm_fabric \<Rightarrow> nat \<Rightarrow> dsm_vc \<Rightarrow> nat \<Rightarrow> bool" where
  "can_inject f src vc flits \<longleftrightarrow>
     (if src \<ge> fab_m_n f then False
      else list_ex (\<lambda>d. can_inject_to f src vc d flits) [0..<fab_m_n f])"

definition note_hw :: "nat \<Rightarrow> dsm_fabric \<Rightarrow> dsm_fabric" where
  "note_hw vc f =
     (let occ = wrap32 (sum_list (map (\<lambda>s. voq_occupancy_flits (fab_in f vc s)) [0..<fab_m_n f]))
      in if vc \<noteq> 0
         then (if occ > st_occupancy_high_water_response (fab_m_stats f)
               then upd_stats (\<lambda>st. st\<lparr>st_occupancy_high_water_response := occ\<rparr>) f else f)
         else (if occ > st_occupancy_high_water_request (fab_m_stats f)
               then upd_stats (\<lambda>st. st\<lparr>st_occupancy_high_water_request := occ\<rparr>) f else f))"

text \<open>The packet as it enters the queue: flit counts, identity, time stamps and route.\<close>

definition inject_flits :: "dsm_fabric \<Rightarrow> dsm_packet \<Rightarrow> dsm_packet" where
  "inject_flits f pkt0 =
     (let pkt1 = (if pkt_total_flits pkt0 = 0
                  then let t = dsm_payload_flits (pkt_packet_class pkt0) (pkt_payload_bytes pkt0)
                                 (cfg_flit_payload_bytes (fab_m_cfg f))
                       in pkt0\<lparr>pkt_total_flits := t, remaining_flits := t\<rparr>
                  else pkt0)
      in if remaining_flits pkt1 = 0 then pkt1\<lparr>remaining_flits := pkt_total_flits pkt1\<rparr> else pkt1)"

text \<open>Identity, time stamps and route of an accepted packet.\<close>

definition inject_packet :: "dsm_fabric \<Rightarrow> dsm_packet \<Rightarrow> dsm_packet" where
  "inject_packet f pkt0 =
     (let src = pkt_network_src_sm_id pkt0; dst = pkt_network_dst_sm_id pkt0;
          pkt = inject_flits f pkt0;
          pkt = (if pkt_packet_id pkt = 0
                 then pkt\<lparr>pkt_packet_id := fab_m_next_pkt_id f + 1\<rparr> else pkt);
          pkt = (if created_cycle pkt = 0 then pkt\<lparr>created_cycle := fab_m_now f\<rparr> else pkt);
          pkt = pkt\<lparr>pkt_injected_cycle := fab_m_now f\<rparr>;
          rt = hash_route f (pkt_payload_address pkt) src dst (pkt_packet_id pkt)
      in pkt\<lparr>pkt_gx_plane := route_gx_plane rt, pkt_route_lane := route_lane rt\<rparr>)"

definition fabric_inject :: "dsm_packet option \<Rightarrow> dsm_fabric \<Rightarrow> dsm_fabric option" where
  "fabric_inject packet f =
     (case packet of None \<Rightarrow> Some f
      | Some pkt0 \<Rightarrow>
        (let src = pkt_network_src_sm_id pkt0; dst = pkt_network_dst_sm_id pkt0
         in if \<not> can_inject_to f src (pkt_vc pkt0) dst (remaining_flits (inject_flits f pkt0))
            then Some (upd_stats (\<lambda>st. st\<lparr>st_stall_inject := st_stall_inject st + 1\<rparr>) f)
            else
              let f1 = (if pkt_packet_id (inject_flits f pkt0) = 0
                        then f\<lparr>fab_m_next_pkt_id := fab_m_next_pkt_id f + 1\<rparr> else f);
                  pkt = inject_packet f pkt0;
                  v = vci (pkt_vc pkt);
                  data_queued = voq_contains (fab_in f v src) dst
                    (\<lambda>queued. pkt_packet_class queued \<noteq> Read_Command)
              in do {
                (pushed, q) \<leftarrow>
                  (if pkt_packet_class pkt = Read_Command \<and> data_queued
                   then voq_push_front (fab_in f v src) dst pkt
                   else voq_push (fab_in f v src) dst pkt);
                cassert pushed;
                Some (note_hw v (upd_stats (\<lambda>st. st\<lparr>st_packets_injected := st_packets_injected st + 1\<rparr>)
                        (set_in v src q f1)))
              }))"

subsection \<open>Ejection\<close>

definition ejection_visible :: "dsm_fabric \<Rightarrow> dsm_packet \<Rightarrow> bool" where
  "ejection_visible f p \<longleftrightarrow>
     (let cfg = fab_m_cfg f;
          vis = pkt_tail_arrival_cycle p;
          floor' = (if pkt_packet_class p = Write_Data \<and> cfg_store_visibility_latency_cycles cfg \<noteq> 0
                   then cfg_store_visibility_latency_cycles cfg else cfg_base_latency_cycles cfg);
          vis = (if floor' \<noteq> 0
                 then (let floor_at = pkt_injected_cycle p + of_nat floor'
                       in if floor_at > vis then floor_at else vis)
                 else vis)
      in vis \<le> fab_m_now f)"

definition fabric_top :: "dsm_fabric \<Rightarrow> nat \<Rightarrow> dsm_vc \<Rightarrow> dsm_packet option" where
  "fabric_top f dst vc =
     (if dst \<ge> fab_m_n f then None
      else case fab_ej f (vci vc) dst of [] \<Rightarrow> None
           | p # _ \<Rightarrow> if \<not> ejection_visible f p then None else Some p)"

text \<open>The outer option is the abort of the credit assertion, the inner one a null result.\<close>

definition fabric_pop :: "dsm_fabric \<Rightarrow> nat \<Rightarrow> dsm_vc \<Rightarrow> (dsm_packet option \<times> dsm_fabric) option" where
  "fabric_pop f dst vc =
     (case fabric_top f dst vc of None \<Rightarrow> Some (None, f)
      | Some _ \<Rightarrow>
        (let v = vci vc; pkt = hd (fab_ej f v dst);
             f1 = set_ej v dst (tl (fab_ej f v dst)) f
         in do {
           c \<leftarrow> credit_give (fab_m_credit f1 ! v) dst (pkt_ejection_reserved_flits pkt);
           Some (Some pkt, upd_stats (\<lambda>st. st\<lparr>st_packets_ejected := st_packets_ejected st + 1\<rparr>)
                   (set_credit v c f1))
         }))"

definition fabric_busy :: "dsm_fabric \<Rightarrow> bool" where
  "fabric_busy f \<longleftrightarrow>
     list_ex (\<lambda>v. list_ex (\<lambda>s. voq_occupancy_flits (fab_in f v s) \<noteq> 0 \<or> fab_ej f v s \<noteq> [])
       [0..<fab_m_n f]) [0..<2]"

definition fabric_occupancy_flits :: "dsm_fabric \<Rightarrow> nat \<Rightarrow> dsm_vc \<Rightarrow> nat \<Rightarrow> nat" where
  "fabric_occupancy_flits f src vc dst =
     (if src \<ge> fab_m_n f \<or> dst \<ge> fab_m_n f then 0
      else voq_occupancy_dst (fab_in f (vci vc) src) dst)"

definition fabric_credit_remaining :: "dsm_fabric \<Rightarrow> nat \<Rightarrow> dsm_vc \<Rightarrow> nat" where
  "fabric_credit_remaining f dst vc =
     (if dst \<ge> fab_m_n f then 0 else credit_remaining (fab_m_credit f ! vci vc) dst)"

subsection \<open>Shaper and choice of the head packet\<close>

definition k_phase :: "nat list" where
  "k_phase = [1 + 2 + 4 + 8, 4 + 8 + 16 + 32, 1 + 2 + 16 + 32]"

definition shaper_allows :: "dsm_fabric \<Rightarrow> nat \<Rightarrow> u64 \<Rightarrow> bool" where
  "shaper_allows f sm cycle =
     (let cfg = fab_m_cfg f;
          period = (if cfg_shaper_period cfg \<noteq> 0 then cfg_shaper_period cfg else 3);
          slot = fab_m_slot f ! sm;
          idx = (if fab_m_index_is_slot f then slot else sm)
      in if fab_m_shaper f = SHAPER_SKIP_MOD then unat cycle mod period \<noteq> idx mod period
         else if fab_m_shaper f = SHAPER_FIXED_TDM
              then odd (k_phase ! (unat cycle mod 3) div 2 ^ slot)
         else False)"

definition sm_eligible :: "dsm_fabric \<Rightarrow> nat \<Rightarrow> u64 \<Rightarrow> bool" where
  "sm_eligible f sm cycle =
     (if sm \<ge> fab_m_n f then False
      else if fab_m_shaper f = SHAPER_HARD_RATE_CAP \<and> cycle = fab_m_now f \<and>
              sm < length (fab_m_last_eligible f)
      then fab_m_last_eligible f ! sm
      else shaper_allows f sm cycle)"

definition peek_dst :: "dsm_fabric \<Rightarrow> nat \<Rightarrow> nat \<Rightarrow> nat option" where
  "peek_dst f sm vc =
     find (\<lambda>d. \<not> voq_empty (fab_in f vc sm) d)
       (map (\<lambda>k. (fab_m_dst_next f ! vc ! sm + k) mod fab_m_n f) [0..<fab_m_n f])"

definition pick_head :: "dsm_fabric \<Rightarrow> nat \<Rightarrow> (nat \<times> nat) option" where
  "pick_head f sm =
     (let d_req = peek_dst f sm 0; d_rsp = peek_dst f sm 1;
          req = d_req \<noteq> None; rsp = d_rsp \<noteq> None
      in if \<not> req \<and> \<not> rsp then None
         else
           let pick = (if fab_m_rsp_priority f
                       then (if rsp \<and> fab_m_consec_rsp f ! sm < cfg_response_priority_bound (fab_m_cfg f)
                             then 1 else if req then 0 else 1)
                       else (if req then 0 else 1))
           in map_option (Pair pick) (if pick = 1 then d_rsp else d_req))"

subsection \<open>One cycle: eligibility and requests\<close>

definition eligibility_step :: "u64 \<Rightarrow> nat \<Rightarrow> dsm_fabric \<Rightarrow> dsm_fabric" where
  "eligibility_step cycle sm f =
     (let (allow, f1) =
        (if fab_m_shaper f = SHAPER_HARD_RATE_CAP
         then (let acc = fab_m_hrc_acc f ! sm + cfg_lanes_per_cpc (fab_m_cfg f)
               in if acc \<ge> k_sm_slots_per_cpc
                  then (True, f\<lparr>fab_m_hrc_acc := (fab_m_hrc_acc f)[sm := acc - k_sm_slots_per_cpc]\<rparr>)
                  else (False, f\<lparr>fab_m_hrc_acc := (fab_m_hrc_acc f)[sm := acc]\<rparr>))
         else (shaper_allows f sm cycle, f));
          f2 = f1\<lparr>fab_m_last_eligible := (fab_m_last_eligible f1)[sm := allow]\<rparr>
      in if allow
         then upd_stats (\<lambda>st. st\<lparr>st_eligibility_slots := st_eligibility_slots st + 1\<rparr>) f2
         else f2)"

record fabric_req =
  req_sm :: nat
  req_vc :: nat
  req_dst :: nat
  req_cpc :: nat
  req_route :: nat

definition make_request :: "dsm_fabric \<Rightarrow> nat \<Rightarrow> fabric_req option" where
  "make_request f sm = do {
     (vc, dst) \<leftarrow> pick_head f sm;
     p \<leftarrow> voq_front (fab_in f vc sm) dst;
     let granted_flits = sub32 (pkt_total_flits p) (remaining_flits p);
     let flit_addr = pkt_payload_address p +
           of_nat granted_flits * of_nat (cfg_flit_payload_bytes (fab_m_cfg f));
     let route = hash_route f flit_addr sm dst (pkt_packet_id p);
     Some \<lparr>req_sm = sm, req_vc = vc, req_dst = dst, req_cpc = fab_m_cpc f ! sm,
           req_route = route_gx_plane route * cfg_lanes_per_cpc (fab_m_cfg f) + route_lane route\<rparr>
   }"

definition request_step ::
  "dsm_fabric \<Rightarrow> nat \<Rightarrow> fabric_req list \<times> nat option list \<Rightarrow> fabric_req list \<times> nat option list" where
  "request_step f sm acc =
     (if \<not> fab_m_last_eligible f ! sm then acc
      else case make_request f sm of None \<Rightarrow> acc
           | Some r \<Rightarrow> (fst acc @ [r], (snd acc)[sm := Some (length (fst acc))]))"

definition fabric_requests :: "dsm_fabric \<Rightarrow> fabric_req list \<times> nat option list" where
  "fabric_requests f = fold (request_step f) [0..<fab_m_n f] ([], replicate (fab_m_n f) None)"

subsection \<open>One cycle: arbitration for the routes of a CPC\<close>

definition route_ready :: "fabric_req list \<Rightarrow> nat \<Rightarrow> nat \<Rightarrow> nat \<Rightarrow> bool list" where
  "route_ready reqs cpc route n =
     map (\<lambda>i. list_ex (\<lambda>r. req_cpc r = cpc \<and> req_route r = route \<and> req_sm r = i) reqs) [0..<n]"

text \<open>Winners, number of winners and fabric after the routes of the list.\<close>

fun arbitrate_routes :: "fabric_req list \<Rightarrow> nat \<Rightarrow> nat list \<Rightarrow> nat option list \<Rightarrow> nat \<Rightarrow> dsm_fabric
    \<Rightarrow> (nat option list \<times> nat \<times> dsm_fabric) option" where
  "arbitrate_routes reqs cpc [] winners n_winners f = Some (winners, n_winners, f)"
| "arbitrate_routes reqs cpc (route # routes) winners n_winners f =
     (let n_ready = length (filter (\<lambda>r. req_cpc r = cpc \<and> req_route r = route) reqs)
      in if n_ready = 0 then arbitrate_routes reqs cpc routes winners n_winners f
         else
           let f1 = (if n_ready > 1
                     then upd_stats (\<lambda>st. st\<lparr>st_lane_conflicts := st_lane_conflicts st + 1\<rparr>) f else f);
               i = cpc * num_routes f + route
           in do {
             (win, rr) \<leftarrow> rr_grant (fab_m_route_rr f1 ! i) (route_ready reqs cpc route (fab_m_n f1)) (fab_m_n f1);
             let f2 = f1\<lparr>fab_m_route_rr := (fab_m_route_rr f1)[i := rr]\<rparr>;
             (case win of
                None \<Rightarrow> arbitrate_routes reqs cpc routes winners n_winners f2
              | Some w \<Rightarrow> arbitrate_routes reqs cpc routes (winners[route := Some w]) (n_winners + 1) f2)
           })"

subsection \<open>One cycle: sending for one request\<close>

definition multicast_dsts :: "dsm_fabric \<Rightarrow> fabric_req \<Rightarrow> dsm_packet \<Rightarrow> nat list" where
  "multicast_dsts f r selected =
     req_dst r #
     (if pkt_multicast_group selected \<noteq> 0
      then filter (\<lambda>dst. dst \<noteq> req_dst r \<and>
             (case voq_front (fab_in f (req_vc r) (req_sm r)) dst of None \<Rightarrow> False
              | Some candidate \<Rightarrow> pkt_multicast_group candidate = pkt_multicast_group selected))
             [0..<fab_m_n f]
      else [])"

definition needs_credit :: "dsm_fabric \<Rightarrow> nat \<Rightarrow> dsm_packet \<Rightarrow> bool" where
  "needs_credit f v head \<longleftrightarrow>
     pkt_ejection_reserved_flits head < min (pkt_total_flits head) (crd_m_depth (fab_m_credit f ! v))"

definition has_ejection_space :: "dsm_fabric \<Rightarrow> fabric_req \<Rightarrow> nat list \<Rightarrow> bool option" where
  "has_ejection_space f r dsts =
     fold (\<lambda>dst acc. do {
        ok \<leftarrow> acc;
        if \<not> ok then Some False
        else do {
          head \<leftarrow> voq_front (fab_in f (req_vc r) (req_sm r)) dst;
          Some (\<not> (needs_credit f (req_vc r) head \<and>
                  \<not> credit_has (fab_m_credit f ! req_vc r) dst 1))
        }}) dsts (Some True)"

text \<open>Reserve one ejection credit for the head of \<open>dst\<close>, when it still needs one.\<close>

definition reserve_head :: "nat \<Rightarrow> nat \<Rightarrow> nat \<Rightarrow> dsm_fabric \<Rightarrow> dsm_fabric option" where
  "reserve_head v sm dst f = do {
     head \<leftarrow> voq_front (fab_in f v sm) dst;
     if needs_credit f v head
     then do {
       let (reserved, c) = credit_take (fab_m_credit f ! v) dst 1;
       cassert reserved;
       Some (set_in v sm (voq_update_front (fab_in f v sm) dst
               (\<lambda>p. p\<lparr>pkt_ejection_reserved_flits := pkt_ejection_reserved_flits p + 1\<rparr>))
             (set_credit v c f))
     }
     else Some f
   }"

fun reserve_heads :: "nat \<Rightarrow> nat \<Rightarrow> nat list \<Rightarrow> dsm_fabric \<Rightarrow> dsm_fabric option" where
  "reserve_heads v sm [] f = Some f"
| "reserve_heads v sm (dst # dsts) f = do { f1 \<leftarrow> reserve_head v sm dst f; reserve_heads v sm dsts f1 }"

text \<open>One flit to every destination; a packet that ends is moved to the ejection list.\<close>

definition grant_dst :: "u64 \<Rightarrow> nat \<Rightarrow> nat \<Rightarrow> nat \<Rightarrow> dsm_fabric \<Rightarrow> (bool \<times> dsm_fabric) option" where
  "grant_dst cycle v sm dst f =
     (if voq_empty (fab_in f v sm) dst then Some (False, f)
      else do {
        (done, q) \<leftarrow> voq_grant_flit (fab_in f v sm) dst cycle;
        let f1 = set_in v sm q f;
        (case done of
           None \<Rightarrow> Some (False, f1)
         | Some p \<Rightarrow> Some (True, set_ej v dst
             (fab_ej f1 v dst @ [p\<lparr>pkt_tail_arrival_cycle := cycle\<rparr>]) f1))
      })"

fun grant_dsts :: "u64 \<Rightarrow> nat \<Rightarrow> nat \<Rightarrow> nat list \<Rightarrow> bool \<Rightarrow> dsm_fabric \<Rightarrow> (bool \<times> dsm_fabric) option" where
  "grant_dsts cycle v sm [] any_tail f = Some (any_tail, f)"
| "grant_dsts cycle v sm (dst # dsts) any_tail f = do {
     (tail, f1) \<leftarrow> grant_dst cycle v sm dst f;
     grant_dsts cycle v sm dsts (any_tail \<or> tail) f1
   }"

definition packet_cap_of :: "dsm_fabric \<Rightarrow> nat list \<Rightarrow> dsm_packet \<Rightarrow> nat" where
  "packet_cap_of f dsts selected =
     (let payload = pkt_payload_bytes selected; cls = pkt_packet_class selected;
          flit = cfg_flit_payload_bytes (fab_m_cfg f)
      in if length dsts = 1 \<and> pkt_total_flits selected = 1 \<and> payload > 0
         then (if cls = Read_Command then max 1 (128 div payload)
               else if \<not> dsm_packet_is_control cls \<and> payload < flit then flit div payload
               else 1)
         else 1)"

text \<open>
  The packing loop: \<open>left\<close> packets may still be sent. After a tail the next head joins the
  same grant when it is a single-flit packet of the same class and size and a credit is
  free for it.
\<close>

fun send_loop :: "u64 \<Rightarrow> fabric_req \<Rightarrow> nat list \<Rightarrow> dsm_packet \<Rightarrow> nat \<Rightarrow> dsm_fabric \<Rightarrow> dsm_fabric option" where
  "send_loop cycle r dsts selected 0 f = Some f"
| "send_loop cycle r dsts selected (Suc left) f = do {
     (any_tail, f1) \<leftarrow> grant_dsts cycle (req_vc r) (req_sm r) dsts False f;
     if \<not> any_tail \<or> left = 0 then Some f1
     else
       (case voq_front (fab_in f1 (req_vc r) (req_sm r)) (req_dst r) of
          None \<Rightarrow> Some f1
        | Some nxt \<Rightarrow>
          if pkt_packet_class nxt \<noteq> pkt_packet_class selected \<or>
             pkt_payload_bytes nxt \<noteq> pkt_payload_bytes selected \<or> pkt_total_flits nxt \<noteq> 1
          then Some f1
          else if needs_credit f1 (req_vc r) nxt \<and>
                  \<not> credit_has (fab_m_credit f1 ! req_vc r) (req_dst r) 1
          then Some f1
          else do {
            f2 \<leftarrow> reserve_head (req_vc r) (req_sm r) (req_dst r) f1;
            send_loop cycle r dsts selected left f2
          })
   }"

text \<open>Statistics and cursors after a grant.\<close>

definition after_grant :: "fabric_req \<Rightarrow> bool \<Rightarrow> dsm_fabric \<Rightarrow> dsm_fabric" where
  "after_grant r control f =
     (let flit = cfg_flit_payload_bytes (fab_m_cfg f);
          f1 = upd_stats (\<lambda>st. st\<lparr>st_flits_granted := st_flits_granted st + 1\<rparr>) f;
          f2 = upd_stats (\<lambda>st. if req_vc r \<noteq> 0
                 then st\<lparr>st_flits_response := st_flits_response st + 1\<rparr>
                 else st\<lparr>st_flits_request := st_flits_request st + 1\<rparr>) f1;
          f3 = (if \<not> control
                then upd_stats (\<lambda>st. st\<lparr>st_payload_bytes_granted :=
                       st_payload_bytes_granted st + flit\<rparr>) f2 else f2);
          f4 = f3\<lparr>fab_m_dst_next := (fab_m_dst_next f3)[req_vc r :=
                 (fab_m_dst_next f3 ! req_vc r)[req_sm r := (req_dst r + 1) mod fab_m_n f3]]\<rparr>
      in f4\<lparr>fab_m_consec_rsp := (fab_m_consec_rsp f4)[req_sm r :=
              (if req_vc r \<noteq> 0 then fab_m_consec_rsp f4 ! req_sm r + 1 else 0)]\<rparr>)"

text \<open>One winner: blocked by the ejection credits (\<open>False\<close>), or granted.\<close>

definition serve_request :: "u64 \<Rightarrow> fabric_req \<Rightarrow> dsm_fabric \<Rightarrow> (bool \<times> dsm_fabric) option" where
  "serve_request cycle r f = do {
     selected \<leftarrow> voq_front (fab_in f (req_vc r) (req_sm r)) (req_dst r);
     let dsts = multicast_dsts f r selected;
     space \<leftarrow> has_ejection_space f r dsts;
     if \<not> space
     then Some (False, upd_stats (\<lambda>st. st\<lparr>st_stall_ejection := st_stall_ejection st + 1\<rparr>) f)
     else do {
       f1 \<leftarrow> reserve_heads (req_vc r) (req_sm r) dsts f;
       f2 \<leftarrow> send_loop cycle r dsts selected (packet_cap_of f1 dsts selected) f1;
       Some (True, after_grant r (dsm_packet_is_control (pkt_packet_class selected)) f2)
     }
   }"

subsection \<open>One cycle: lanes of a CPC\<close>

text \<open>The state of the lane loop: ready routes, lanes taken, granted SMs, fabric.\<close>

fun lane_loop :: "u64 \<Rightarrow> fabric_req list \<Rightarrow> nat option list \<Rightarrow> nat option list \<Rightarrow> nat \<Rightarrow> nat
    \<Rightarrow> bool list \<Rightarrow> nat \<Rightarrow> bool list \<Rightarrow> dsm_fabric \<Rightarrow> (nat \<times> bool list \<times> dsm_fabric) option" where
  "lane_loop cycle reqs sm_req winners cpc 0 ready taken granted f = Some (taken, granted, f)"
| "lane_loop cycle reqs sm_req winners cpc (Suc g) ready taken granted f =
     (if taken \<ge> cfg_lanes_per_cpc (fab_m_cfg f) then Some (taken, granted, f)
      else do {
        (w, rr) \<leftarrow> rr_grant (fab_m_cpc_rr f ! cpc) ready (num_routes f);
        let f1 = f\<lparr>fab_m_cpc_rr := (fab_m_cpc_rr f)[cpc := rr]\<rparr>;
        (case w of None \<Rightarrow> Some (taken, granted, f1)
         | Some route \<Rightarrow>
           (let ready1 = ready[route := False]
            in case winners ! route of
                 None \<Rightarrow> lane_loop cycle reqs sm_req winners cpc g ready1 taken granted f1
               | Some sm \<Rightarrow> do {
                   i \<leftarrow> sm_req ! sm;
                   (ok, f2) \<leftarrow> serve_request cycle (reqs ! i) f1;
                   (if ok then lane_loop cycle reqs sm_req winners cpc g ready1 (taken + 1)
                                (granted[req_sm (reqs ! i) := True]) f2
                    else lane_loop cycle reqs sm_req winners cpc g ready1 taken granted f2)
                 }))
      })"

definition cpc_cycle :: "u64 \<Rightarrow> fabric_req list \<Rightarrow> nat option list \<Rightarrow> nat \<Rightarrow> bool list \<Rightarrow> dsm_fabric
    \<Rightarrow> (bool list \<times> dsm_fabric) option" where
  "cpc_cycle cycle reqs sm_req cpc granted f = do {
     (winners, n_winners, f1) \<leftarrow>
       arbitrate_routes reqs cpc [0..<num_routes f] (replicate (num_routes f) None) 0 f;
     let ready = map (\<lambda>w. w \<noteq> None) winners;
     (taken, granted', f2) \<leftarrow>
       lane_loop cycle reqs sm_req winners cpc (cfg_lanes_per_cpc (fab_m_cfg f1)) ready 0 granted f1;
     Some (granted', if n_winners > taken
       then upd_stats (\<lambda>st. st\<lparr>st_stall_lane := st_stall_lane st + (n_winners - taken)\<rparr>) f2 else f2)
   }"

fun cpcs_cycle :: "u64 \<Rightarrow> fabric_req list \<Rightarrow> nat option list \<Rightarrow> nat list \<Rightarrow> bool list \<Rightarrow> dsm_fabric
    \<Rightarrow> (bool list \<times> dsm_fabric) option" where
  "cpcs_cycle cycle reqs sm_req [] granted f = Some (granted, f)"
| "cpcs_cycle cycle reqs sm_req (cpc # cpcs) granted f = do {
     (granted1, f1) \<leftarrow> cpc_cycle cycle reqs sm_req cpc granted f;
     cpcs_cycle cycle reqs sm_req cpcs granted1 f1
   }"

definition usage_step :: "bool list \<Rightarrow> bool list \<Rightarrow> nat \<Rightarrow> dsm_fabric \<Rightarrow> dsm_fabric" where
  "usage_step eligible granted sm f =
     (if \<not> eligible ! sm then f
      else if granted ! sm
      then upd_stats (\<lambda>st. st\<lparr>st_eligibility_used := st_eligibility_used st + 1\<rparr>) f
      else upd_stats (\<lambda>st. st\<lparr>st_eligibility_wasted := st_eligibility_wasted st + 1\<rparr>) f)"

definition fabric_cycle :: "u64 \<Rightarrow> dsm_fabric \<Rightarrow> dsm_fabric option" where
  "fabric_cycle cycle f = do {
     let f1 = fold (eligibility_step cycle) [0..<fab_m_n f] (f\<lparr>fab_m_now := cycle\<rparr>);
     let eligible = fab_m_last_eligible f1;
     let (reqs, sm_req) = fabric_requests f1;
     (granted, f2) \<leftarrow> cpcs_cycle cycle reqs sm_req [0..<cfg_cpcs (fab_m_cfg f1)]
                        (replicate (fab_m_n f1) False) f1;
     let f3 = fold (usage_step eligible granted) [0..<fab_m_n f2] f2;
     Some (note_hw 1 (note_hw 0 f3))
   }"

end
