(* ===== verification/Dsm_Fabric_Safety.thy ===== *)
theory Dsm_Fabric_Safety
  imports Dsm_Fabric "HOL-Library.Multiset"
begin

section \<open>Correctness of the DSM fabric\<close>

text \<open>
  The invariant of the fabric (well-formed queues, ejection credits that balance the
  reservations held by queued and ejected packets, arbiters of the right size), its
  preservation by injection, one cycle and ejection, and what follows: no assertion of
  \<^verbatim>\<open>dsm_fabric.cc\<close> or \<^verbatim>\<open>transport.h\<close> fires, no packet is lost or duplicated, and a
  cycle grants at most \<open>lanes_per_cpc\<close> flits per CPC.
\<close>

subsection \<open>Sums over the packets of one virtual channel and destination\<close>

definition queue_of :: "dsm_fabric \<Rightarrow> nat \<Rightarrow> nat \<Rightarrow> nat \<Rightarrow> dsm_packet list" where
  "queue_of f v s d = voq_m_q (fab_in f v s) ! d"

definition fab_others :: "(dsm_packet \<Rightarrow> 'm::comm_monoid_add) \<Rightarrow> dsm_fabric \<Rightarrow> nat \<Rightarrow> nat \<Rightarrow> nat \<Rightarrow> 'm" where
  "fab_others w f v s d = (\<Sum>s' \<in> {..<fab_m_n f} - {s}. sum_list (map w (queue_of f v s' d)))"

definition fab_sum :: "(dsm_packet \<Rightarrow> 'm::comm_monoid_add) \<Rightarrow> dsm_fabric \<Rightarrow> nat \<Rightarrow> nat \<Rightarrow> 'm" where
  "fab_sum w f v d =
     (\<Sum>s' < fab_m_n f. sum_list (map w (queue_of f v s' d))) + sum_list (map w (fab_ej f v d))"

lemma fab_sum_split:
  assumes "s < fab_m_n f"
  shows "fab_sum w f v d =
     sum_list (map w (queue_of f v s d)) + (fab_others w f v s d + sum_list (map w (fab_ej f v d)))"
proof -
  have "(\<Sum>s' < fab_m_n f. sum_list (map w (queue_of f v s' d))) =
      sum_list (map w (queue_of f v s d)) + fab_others w f v s d"
    unfolding fab_others_def by (rule sum.remove) (use assms in auto)
  then show ?thesis by (simp add: fab_sum_def add.assoc)
qed

definition resv :: "dsm_fabric \<Rightarrow> nat \<Rightarrow> nat \<Rightarrow> nat" where
  "resv = fab_sum pkt_ejection_reserved_flits"

definition ids :: "dsm_fabric \<Rightarrow> nat \<Rightarrow> nat \<Rightarrow> nat multiset" where
  "ids = fab_sum (\<lambda>p. {#pkt_packet_id p#})"

subsection \<open>The invariant\<close>

definition fabric_static :: "dsm_fabric \<Rightarrow> bool" where
  "fabric_static f \<longleftrightarrow>
     0 < fab_m_n f \<and> 0 < num_routes f \<and>
     length (fab_m_cpc f) = fab_m_n f \<and> length (fab_m_slot f) = fab_m_n f \<and>
     length (fab_m_hrc_acc f) = fab_m_n f \<and> length (fab_m_consec_rsp f) = fab_m_n f \<and>
     length (fab_m_last_eligible f) = fab_m_n f \<and> length (fab_m_dst_next f) = 2 \<and>
     (\<forall>v < 2. length (fab_m_dst_next f ! v) = fab_m_n f)"

definition fabric_queues :: "dsm_fabric \<Rightarrow> bool" where
  "fabric_queues f \<longleftrightarrow>
     length (fab_m_in f) = 2 \<and> length (fab_m_ej f) = 2 \<and>
     (\<forall>v < 2. length (fab_m_in f ! v) = fab_m_n f \<and> length (fab_m_ej f ! v) = fab_m_n f \<and>
        (\<forall>s < fab_m_n f. voq_wf (fab_in f v s) \<and> length (voq_m_q (fab_in f v s)) = fab_m_n f))"

definition fabric_credits :: "dsm_fabric \<Rightarrow> bool" where
  "fabric_credits f \<longleftrightarrow>
     length (fab_m_credit f) = 2 \<and>
     (\<forall>v < 2. length (crd_m_free (fab_m_credit f ! v)) = fab_m_n f \<and>
        credit.balanced (fab_m_credit f ! v) (resv f v))"

definition fabric_arbiters :: "dsm_fabric \<Rightarrow> bool" where
  "fabric_arbiters f \<longleftrightarrow>
     length (fab_m_route_rr f) = cfg_cpcs (fab_m_cfg f) * num_routes f \<and>
     length (fab_m_cpc_rr f) = cfg_cpcs (fab_m_cfg f) \<and>
     (\<forall>a \<in> set (fab_m_route_rr f). rr_wf a \<and> rr_m_n a = fab_m_n f) \<and>
     (\<forall>a \<in> set (fab_m_cpc_rr f). rr_wf a \<and> rr_m_n a = num_routes f)"

definition fabric_wf :: "dsm_fabric \<Rightarrow> bool" where
  "fabric_wf f \<longleftrightarrow> fabric_static f \<and> fabric_queues f \<and> fabric_credits f \<and> fabric_arbiters f"

text \<open>
  What every part of a cycle guarantees: the invariant, the same configuration and limits, the
  same packets in flight, and no change to the queues of the SMs outside \<open>S\<close>.
\<close>

definition fab_frame :: "nat set \<Rightarrow> dsm_fabric \<Rightarrow> dsm_fabric \<Rightarrow> bool" where
  "fab_frame S f f' \<longleftrightarrow>
     fabric_wf f' \<and> fab_m_cfg f' = fab_m_cfg f \<and> fab_m_n f' = fab_m_n f \<and>
     (\<forall>v < 2. \<forall>s < fab_m_n f. s \<notin> S \<longrightarrow> fab_in f' v s = fab_in f v s) \<and>
     (\<forall>v < 2. \<forall>s < fab_m_n f. voq_m_limit (fab_in f' v s) = voq_m_limit (fab_in f v s)) \<and>
     (\<forall>v < 2. \<forall>d < fab_m_n f. ids f' v d = ids f v d)"

lemma fab_frame_refl: "fabric_wf f \<Longrightarrow> fab_frame S f f"
  by (simp add: fab_frame_def)

lemma fab_frame_trans: "fab_frame S f g \<Longrightarrow> fab_frame T g h \<Longrightarrow> fab_frame (S \<union> T) f h"
  by (simp add: fab_frame_def)

lemma fab_frame_mono: "fab_frame S f g \<Longrightarrow> S \<subseteq> T \<Longrightarrow> fab_frame T f g"
  by (auto simp: fab_frame_def)

lemma fab_frame_wf: "fab_frame S f g \<Longrightarrow> fabric_wf g"
  by (simp add: fab_frame_def)

lemma fab_frame_num_routes: "fab_frame S f g \<Longrightarrow> num_routes g = num_routes f"
  by (simp add: fab_frame_def num_routes_def)

text \<open>Updates that touch no queue, ejection list, credit or arbiter.\<close>

lemma fab_sum_cong:
  assumes "fab_m_in g = fab_m_in f" "fab_m_ej g = fab_m_ej f" "fab_m_n g = fab_m_n f"
  shows "fab_sum w g = fab_sum w f"
  unfolding fab_sum_def [abs_def] queue_of_def assms ..

lemma fab_frame_inert:
  assumes "fabric_wf f" "fab_m_in g = fab_m_in f" "fab_m_ej g = fab_m_ej f" "fab_m_n g = fab_m_n f"
    and "fab_m_credit g = fab_m_credit f" "fab_m_cfg g = fab_m_cfg f"
    and "fabric_static g" "fabric_arbiters g"
  shows "fab_frame S f g"
  using assms fab_sum_cong [OF assms(2-4), of pkt_ejection_reserved_flits]
    fab_sum_cong [OF assms(2-4), of "\<lambda>p. {#pkt_packet_id p#}"]
  by (simp add: fab_frame_def fabric_wf_def fabric_queues_def fabric_credits_def resv_def ids_def
      num_routes_def)

lemma upd_stats_fields [simp]:
  "fab_m_in (upd_stats h f) = fab_m_in f" "fab_m_ej (upd_stats h f) = fab_m_ej f"
  "fab_m_n (upd_stats h f) = fab_m_n f" "fab_m_credit (upd_stats h f) = fab_m_credit f"
  "fab_m_cfg (upd_stats h f) = fab_m_cfg f" "fab_m_stats (upd_stats h f) = h (fab_m_stats f)"
  "fab_m_cpc (upd_stats h f) = fab_m_cpc f" "fab_m_slot (upd_stats h f) = fab_m_slot f"
  "fab_m_hrc_acc (upd_stats h f) = fab_m_hrc_acc f"
  "fab_m_consec_rsp (upd_stats h f) = fab_m_consec_rsp f"
  "fab_m_last_eligible (upd_stats h f) = fab_m_last_eligible f"
  "fab_m_dst_next (upd_stats h f) = fab_m_dst_next f"
  "fab_m_route_rr (upd_stats h f) = fab_m_route_rr f"
  "fab_m_cpc_rr (upd_stats h f) = fab_m_cpc_rr f" "fab_m_now (upd_stats h f) = fab_m_now f"
  by (simp_all add: upd_stats_def)

lemma upd_stats_frame: "fabric_wf f \<Longrightarrow> fab_frame S f (upd_stats h f)"
  by (rule fab_frame_inert)
    (simp_all add: fabric_wf_def fabric_static_def fabric_arbiters_def num_routes_def)

subsection \<open>Replacing one queue, ejection list and credit pool\<close>

lemma fabric_wf_lengths:
  assumes "fabric_wf f" "v < 2"
  shows "length (fab_m_in f) = 2" "length (fab_m_ej f) = 2" "length (fab_m_credit f) = 2"
    "length (fab_m_in f ! v) = fab_m_n f" "length (fab_m_ej f ! v) = fab_m_n f"
    "length (crd_m_free (fab_m_credit f ! v)) = fab_m_n f" "0 < fab_m_n f"
    "credit.balanced (fab_m_credit f ! v) (resv f v)"
  using assms
  by (simp_all add: fabric_wf_def fabric_queues_def fabric_credits_def fabric_static_def)

lemma fabric_wf_queue:
  assumes "fabric_wf f" "v < 2" "s < fab_m_n f"
  shows "voq_wf (fab_in f v s)" "length (voq_m_q (fab_in f v s)) = fab_m_n f"
  using assms by (simp_all add: fabric_wf_def fabric_queues_def)

definition fab_updated ::
  "nat \<Rightarrow> nat \<Rightarrow> dsm_packet bounded_voq \<Rightarrow> nat \<Rightarrow> dsm_packet list \<Rightarrow> dsm_fabric \<Rightarrow> dsm_fabric \<Rightarrow> bool"
where
  "fab_updated v s q e ps f g \<longleftrightarrow>
     fab_m_in g = (fab_m_in f)[v := (fab_m_in f ! v)[s := q]] \<and>
     fab_m_ej g = (fab_m_ej f)[v := (fab_m_ej f ! v)[e := ps]] \<and>
     fab_m_n g = fab_m_n f"

lemma fab_updated_sum:
  assumes "fabric_wf f" "v < 2" "s < fab_m_n f" "e < fab_m_n f" "fab_updated v s q e ps f g"
    "v' < 2"
  shows "fab_sum w g v' d' =
    (if v' = v then sum_list (map w (voq_m_q q ! d')) +
       (fab_others w f v s d' + sum_list (map w (if d' = e then ps else fab_ej f v d')))
     else fab_sum w f v' d')"
proof -
  note len = fabric_wf_lengths [OF assms(1,2)]
  have n: "fab_m_n g = fab_m_n f" and s: "s < fab_m_n g"
    using assms by (simp_all add: fab_updated_def)
  have ej: "fab_ej g v' d' = (if v' = v \<and> d' = e then ps else fab_ej f v' d')"
    using assms len by (simp add: fab_updated_def nth_list_update)
  have q: "queue_of g v' s' d' = (if v' = v \<and> s' = s then voq_m_q q ! d' else queue_of f v' s' d')"
    if "s' < fab_m_n f" for s'
    using assms len that by (simp add: fab_updated_def queue_of_def nth_list_update)
  have others: "fab_others w g v s d' = fab_others w f v s d'" if "v' = v"
    unfolding fab_others_def n by (rule sum.cong) (use q that in auto)
  have rest: "(\<Sum>s' < fab_m_n g. sum_list (map w (queue_of g v' s' d'))) =
      (\<Sum>s' < fab_m_n f. sum_list (map w (queue_of f v' s' d')))" if "v' \<noteq> v"
    unfolding n by (rule sum.cong) (use q that in auto)
  show ?thesis
  proof (cases "v' = v")
    case True
    with fab_sum_split [OF s, of w v d'] others ej q [OF assms(3)] show ?thesis by simp
  next
    case False
    with rest ej show ?thesis by (simp add: fab_sum_def)
  qed
qed

lemma fab_updated_wf:
  assumes "fabric_wf f" "v < 2" "s < fab_m_n f" "e < fab_m_n f" "fab_updated v s q e ps f g"
    and "fab_m_cfg g = fab_m_cfg f" "fab_m_credit g = (fab_m_credit f)[v := c]"
    and "fabric_static g" "fab_m_route_rr g = fab_m_route_rr f" "fab_m_cpc_rr g = fab_m_cpc_rr f"
    and "voq_wf q" "length (voq_m_q q) = fab_m_n f" "length (crd_m_free c) = fab_m_n f"
    and "credit.balanced c (resv g v)"
  shows "fabric_wf g"
proof -
  note len = fabric_wf_lengths [OF assms(1,2)]
  note upd = assms(5) [unfolded fab_updated_def]
  have resv: "resv g v' = resv f v'" if "v' < 2" "v' \<noteq> v" for v'
    using fab_updated_sum [OF assms(1-5) that(1)] that(2) by (auto simp: fun_eq_iff resv_def)
  have "fabric_queues g"
    using assms(1,2,3,4,11,12) upd len
    by (simp add: fabric_wf_def fabric_queues_def nth_list_update)
  moreover have "fabric_credits g"
    using assms(1,2,7,13,14) upd len resv
    by (auto simp: fabric_wf_def fabric_credits_def nth_list_update)
  moreover have "fabric_arbiters g"
    using assms(1,6,9,10) upd by (simp add: fabric_wf_def fabric_arbiters_def num_routes_def)
  ultimately show ?thesis using assms(8) by (simp add: fabric_wf_def)
qed

lemma fab_updated_frame:
  assumes "fabric_wf f" "v < 2" "s < fab_m_n f" "e < fab_m_n f" "fab_updated v s q e ps f g"
    and "fab_m_cfg g = fab_m_cfg f" "fab_m_credit g = (fab_m_credit f)[v := c]"
    and "fabric_static g" "fab_m_route_rr g = fab_m_route_rr f" "fab_m_cpc_rr g = fab_m_cpc_rr f"
    and "voq_wf q" "length (voq_m_q q) = fab_m_n f" "length (crd_m_free c) = fab_m_n f"
    and "credit.balanced c (resv g v)" "\<forall>d < fab_m_n f. ids g v d = ids f v d"
    and "voq_m_limit q = voq_m_limit (fab_in f v s)"
  shows "fab_frame {s} f g"
proof -
  note len = fabric_wf_lengths [OF assms(1,2)]
  note upd = assms(5) [unfolded fab_updated_def]
  have ids: "ids g v' = ids f v'" if "v' < 2" "v' \<noteq> v" for v'
    using fab_updated_sum [OF assms(1-5) that(1)] that(2) by (auto simp: fun_eq_iff ids_def)
  have "fabric_wf g" by (rule fab_updated_wf [OF assms(1-14)])
  moreover have "\<forall>v' < 2. \<forall>d < fab_m_n f. ids g v' d = ids f v' d"
    using ids assms(15) by metis
  moreover have "\<forall>v' < 2. \<forall>t < fab_m_n f. t \<notin> {s} \<longrightarrow> fab_in g v' t = fab_in f v' t"
    using assms(2) upd len by (auto simp: nth_list_update)
  moreover have "\<forall>v' < 2. \<forall>t < fab_m_n f. voq_m_limit (fab_in g v' t) = voq_m_limit (fab_in f v' t)"
    using assms(2,3,16) upd len by (auto simp: nth_list_update)
  ultimately show ?thesis
    using assms(6) upd by (simp add: fab_frame_def)
qed

subsection \<open>Granting and reserving\<close>

lemma set_fields [simp]:
  "fab_m_n (set_in v s q f) = fab_m_n f" "fab_m_n (set_ej v s ps f) = fab_m_n f"
  "fab_m_n (set_credit v c f) = fab_m_n f" "fab_m_cfg (set_in v s q f) = fab_m_cfg f"
  "fab_m_cfg (set_ej v s ps f) = fab_m_cfg f" "fab_m_cfg (set_credit v c f) = fab_m_cfg f"
  "fab_m_credit (set_in v s q f) = fab_m_credit f" "fab_m_credit (set_ej v s ps f) = fab_m_credit f"
  "fab_m_in (set_ej v s ps f) = fab_m_in f" "fab_m_in (set_credit v c f) = fab_m_in f"
  "fab_m_ej (set_in v s q f) = fab_m_ej f" "fab_m_ej (set_credit v c f) = fab_m_ej f"
  "fab_m_stats (set_in v s q f) = fab_m_stats f" "fab_m_stats (set_ej v s ps f) = fab_m_stats f"
  "fab_m_stats (set_credit v c f) = fab_m_stats f"
  "fab_m_in (set_in v s q f) = (fab_m_in f)[v := (fab_m_in f ! v)[s := q]]"
  "fab_m_ej (set_ej v s ps f) = (fab_m_ej f)[v := (fab_m_ej f ! v)[s := ps]]"
  "fab_m_credit (set_credit v c f) = (fab_m_credit f)[v := c]"
  "fab_m_route_rr (set_in v s q f) = fab_m_route_rr f"
  "fab_m_route_rr (set_ej v s ps f) = fab_m_route_rr f"
  "fab_m_route_rr (set_credit v c f) = fab_m_route_rr f"
  "fab_m_cpc_rr (set_in v s q f) = fab_m_cpc_rr f" "fab_m_cpc_rr (set_ej v s ps f) = fab_m_cpc_rr f"
  "fab_m_cpc_rr (set_credit v c f) = fab_m_cpc_rr f"
  by (simp_all add: set_in_def set_ej_def set_credit_def)

lemma fabric_static_set [simp]:
  "fabric_static (set_in v s q f) = fabric_static f"
  "fabric_static (set_ej v s ps f) = fabric_static f"
  "fabric_static (set_credit v c f) = fabric_static f"
  "fabric_static (upd_stats h f) = fabric_static f"
  by (simp_all add: fabric_static_def set_in_def set_ej_def set_credit_def upd_stats_def
      num_routes_def)

lemma fabric_wf_static: "fabric_wf f \<Longrightarrow> fabric_static f"
  by (simp add: fabric_wf_def)

text \<open>A weight that a granted flit and the time of arrival leave alone.\<close>

definition stable_weight :: "(dsm_packet \<Rightarrow> 'm) \<Rightarrow> bool" where
  "stable_weight w \<longleftrightarrow> (\<forall>p k t. w (p\<lparr>remaining_flits := k, pkt_tail_arrival_cycle := t\<rparr>) = w p) \<and>
     (\<forall>p k. w (p\<lparr>remaining_flits := k\<rparr>) = w p)"

lemma stable_weights [simp]:
  "stable_weight pkt_ejection_reserved_flits" "stable_weight (\<lambda>p. {#pkt_packet_id p#})"
  by (simp_all add: stable_weight_def)

lemma grant_dst_updated:
  assumes wf: "fabric_wf f" and v: "v < 2" and sm: "sm < fab_m_n f" and dst: "dst < fab_m_n f"
    and q: "queue_of f v sm dst = p # ps"
  shows "\<exists>tail q' es g. grant_dst cycle v sm dst f = Some (tail, g) \<and>
    fab_updated v sm q' dst (fab_ej f v dst @ es) f g \<and> voq_wf q' \<and>
    length (voq_m_q q') = fab_m_n f \<and> fab_m_cfg g = fab_m_cfg f \<and> fab_m_credit g = fab_m_credit f \<and>
    fab_m_route_rr g = fab_m_route_rr f \<and> fab_m_cpc_rr g = fab_m_cpc_rr f \<and>
    fabric_static g \<and> fab_m_stats g = fab_m_stats f \<and> voq_m_limit q' = voq_m_limit (fab_in f v sm) \<and>
    (\<forall>d. d \<noteq> dst \<longrightarrow> voq_m_q q' ! d = queue_of f v sm d) \<and>
    ((\<exists>r. voq_m_q q' ! dst = p\<lparr>remaining_flits := r\<rparr> # ps \<and> es = [] \<and> \<not> tail) \<or>
     voq_m_q q' ! dst = ps \<and>
       es = [p\<lparr>remaining_flits := 0, pkt_tail_arrival_cycle := cycle\<rparr>] \<and> tail)"
proof -
  note len = fabric_wf_lengths [OF wf v] and vq = fabric_wf_queue [OF wf v sm]
  have d: "dst < length (voq_m_q (fab_in f v sm))" using vq(2) dst by simp
  have ne: "\<not> voq_empty (fab_in f v sm) dst" using q by (simp add: voq_empty_def queue_of_def)
  from voq_grant_cases [OF vq(1) d q [unfolded queue_of_def], of cycle]
  obtain q' where q': "voq_grant_flit (fab_in f v sm) dst cycle =
      Some (if remaining_flits p = 1 then Some (p\<lparr>remaining_flits := 0\<rparr>) else None, q')"
    "voq_wf q'" "voq_m_limit q' = voq_m_limit (fab_in f v sm)" "voq_m_q q' = (voq_m_q (fab_in f v sm))[dst :=
      if remaining_flits p = 1 then ps else p\<lparr>remaining_flits := remaining_flits p - 1\<rparr> # ps]"
    by blast
  show ?thesis
  proof (cases "remaining_flits p = 1")
    case True
    let ?p = "p\<lparr>remaining_flits := 0, pkt_tail_arrival_cycle := cycle\<rparr>"
    let ?g = "set_ej v dst (fab_ej f v dst @ [?p]) (set_in v sm q' f)"
    have "grant_dst cycle v sm dst f = Some (True, ?g)"
      using True ne q' by (simp add: grant_dst_def)
    moreover have "fab_updated v sm q' dst (fab_ej f v dst @ [?p]) f ?g"
      by (simp add: fab_updated_def)
    ultimately show ?thesis
      using True q' vq d fabric_wf_static [OF wf]
      by (intro exI [of _ True] exI [of _ q'] exI [of _ "[?p]"] exI [of _ ?g])
        (simp add: queue_of_def)
  next
    case False
    let ?g = "set_in v sm q' f"
    have "grant_dst cycle v sm dst f = Some (False, ?g)"
      using False ne q' by (simp add: grant_dst_def)
    moreover have "fab_updated v sm q' dst (fab_ej f v dst @ []) f ?g"
      by (simp add: fab_updated_def)
    ultimately show ?thesis
      using False q' vq d fabric_wf_static [OF wf]
      by (intro exI [of _ False] exI [of _ q'] exI [of _ "[]"] exI [of _ ?g])
        (auto simp: queue_of_def)
  qed
qed

lemma grant_dst_frame:
  assumes wf: "fabric_wf f" and v: "v < 2" and sm: "sm < fab_m_n f" and dst: "dst < fab_m_n f"
  shows "\<exists>tail g. grant_dst cycle v sm dst f = Some (tail, g) \<and> fab_frame {sm} f g \<and>
    fab_m_credit g = fab_m_credit f \<and> fab_m_stats g = fab_m_stats f"
proof (cases "queue_of f v sm dst")
  case Nil
  then show ?thesis
    using fab_frame_refl [OF wf] by (auto simp: grant_dst_def voq_empty_def queue_of_def)
next
  case (Cons p ps)
  from grant_dst_updated [OF assms Cons, of cycle] obtain tail q' es g where g:
    "grant_dst cycle v sm dst f = Some (tail, g)"
    "fab_updated v sm q' dst (fab_ej f v dst @ es) f g"
    "voq_wf q'" "length (voq_m_q q') = fab_m_n f" "fab_m_cfg g = fab_m_cfg f"
    "fab_m_credit g = fab_m_credit f" "fab_m_route_rr g = fab_m_route_rr f"
    "fab_m_cpc_rr g = fab_m_cpc_rr f" "fabric_static g" "fab_m_stats g = fab_m_stats f"
    and limit: "voq_m_limit q' = voq_m_limit (fab_in f v sm)"
    and others: "\<forall>d. d \<noteq> dst \<longrightarrow> voq_m_q q' ! d = queue_of f v sm d"
    and cases: "(\<exists>r. voq_m_q q' ! dst = p\<lparr>remaining_flits := r\<rparr> # ps \<and> es = []) \<or>
     voq_m_q q' ! dst = ps \<and> es = [p\<lparr>remaining_flits := 0, pkt_tail_arrival_cycle := cycle\<rparr>]"
    by metis
  have sum: "fab_sum w g v d = fab_sum w f v d" if "stable_weight w"
    for w :: "dsm_packet \<Rightarrow> 'm::comm_monoid_add" and d
    using fab_updated_sum [OF wf v sm dst g(2) v, of w d] fab_sum_split [OF sm, of w v d]
      others cases Cons that
    by (cases "d = dst") (auto simp: stable_weight_def ac_simps)
  have "credit.balanced (fab_m_credit f ! v) (resv g v)"
    using fabric_wf_lengths(8) [OF wf v] sum [of pkt_ejection_reserved_flits]
    by (simp add: resv_def fun_eq_iff credit.balanced_def)
  moreover have "\<forall>d < fab_m_n f. ids g v d = ids f v d"
    using sum [of "\<lambda>p. {#pkt_packet_id p#}"] by (simp add: ids_def)
  ultimately have "fab_frame {sm} f g"
    using fab_updated_frame [OF wf v sm dst g(2,5) _ g(9,7,8,3,4), of "fab_m_credit f ! v"]
      g(6) limit fabric_wf_lengths [OF wf v] by simp
  with g show ?thesis by blast
qed

lemma grant_dsts_frame:
  assumes "fabric_wf f" "v < 2" "sm < fab_m_n f" "\<forall>d \<in> set dsts. d < fab_m_n f"
  shows "\<exists>tail g. grant_dsts cycle v sm dsts any f = Some (tail, g) \<and> fab_frame {sm} f g \<and>
    fab_m_credit g = fab_m_credit f \<and> fab_m_stats g = fab_m_stats f"
  using assms
proof (induction dsts arbitrary: any f)
  case Nil
  then show ?case by (simp add: fab_frame_refl)
next
  case (Cons d dsts)
  then obtain t g where g: "grant_dst cycle v sm d f = Some (t, g)" "fab_frame {sm} f g"
    "fab_m_credit g = fab_m_credit f" "fab_m_stats g = fab_m_stats f"
    using grant_dst_frame [of f v sm d cycle] by auto
  then have "fabric_wf g" "fab_m_n g = fab_m_n f" by (simp_all add: fab_frame_def)
  with Cons.IH [of g "any \<or> t"] Cons.prems obtain t' h where h:
    "grant_dsts cycle v sm dsts (any \<or> t) g = Some (t', h)" "fab_frame {sm} g h"
    "fab_m_credit h = fab_m_credit g" "fab_m_stats h = fab_m_stats g"
    by auto
  from fab_frame_trans [OF g(2) h(2)] g h show ?case by simp
qed

lemma voq_front_Some:
  "voq_front (fab_in f v sm) d = Some p \<longleftrightarrow> (\<exists>ps. queue_of f v sm d = p # ps)"
  by (cases "voq_m_q (fab_in f v sm) ! d") (simp_all add: voq_front_def queue_of_def)

definition has_credit :: "dsm_fabric \<Rightarrow> nat \<Rightarrow> nat \<Rightarrow> nat \<Rightarrow> bool" where
  "has_credit f v sm d \<longleftrightarrow> (case queue_of f v sm d of [] \<Rightarrow> False
     | head # _ \<Rightarrow> \<not> (needs_credit f v head \<and> \<not> credit_has (fab_m_credit f ! v) d 1))"

lemma reserve_head_frame:
  assumes wf: "fabric_wf f" and v: "v < 2" and sm: "sm < fab_m_n f" and d: "d < fab_m_n f"
    and credit: "has_credit f v sm d"
  shows "\<exists>g. reserve_head v sm d f = Some g \<and> fab_frame {sm} f g \<and> fab_m_stats g = fab_m_stats f \<and>
    (\<forall>e. e \<noteq> d \<longrightarrow> has_credit g v sm e = has_credit f v sm e) \<and>
    (\<forall>e. queue_of g v sm e = [] \<longleftrightarrow> queue_of f v sm e = [])"
proof -
  obtain p ps where q: "queue_of f v sm d = p # ps"
    using credit by (auto simp: has_credit_def split: list.splits)
  then have front: "voq_front (fab_in f v sm) d = Some p" by (simp add: voq_front_Some)
  note len = fabric_wf_lengths [OF wf v] and vq = fabric_wf_queue [OF wf v sm]
  show ?thesis
  proof (cases "needs_credit f v p")
    case False
    then show ?thesis
      using front fab_frame_refl [OF wf] by (simp add: reserve_head_def)
  next
    case True
    define c where "c = fab_m_credit f ! v"
    define c' where "c' = c\<lparr>crd_m_free := (crd_m_free c)[d := crd_m_free c ! d - 1]\<rparr>"
    define p' where "p' = p\<lparr>pkt_ejection_reserved_flits := pkt_ejection_reserved_flits p + 1\<rparr>"
    define q' where "q' = (fab_in f v sm)\<lparr>voq_m_q := (voq_m_q (fab_in f v sm))[d := p' # ps]\<rparr>"
    define g where "g = set_in v sm q' (set_credit v c' f)"
    have free: "1 \<le> crd_m_free c ! d"
      using credit True q by (simp add: has_credit_def credit_has_def c_def)
    then have take: "credit_take c d 1 = (True, c')"
      by (simp add: credit_take_def c'_def)
    have res: "reserve_head v sm d f = Some g"
      using front True take q
      by (simp add: reserve_head_def c_def [symmetric] g_def q'_def p'_def voq_update_front_def
          queue_of_def)
    have upd: "fab_updated v sm q' d (fab_ej f v d) f g"
      by (simp add: fab_updated_def g_def)
    have q'_q: "voq_m_q q' ! e = (if e = d then p' # ps else queue_of f v sm e)" for e
      using vq(2) d by (simp add: q'_def queue_of_def nth_list_update)
    have rem: "remaining_flits p' = remaining_flits p" by (simp add: p'_def)
    have "voq_wf q'"
      using vq d q rem
      by (auto simp: voq_wf_def q'_def queue_of_def nth_list_update)
    have c'_len: "length (crd_m_free c') = fab_m_n f" using len by (simp add: c'_def c_def)
    have resv: "resv g v e = (if e = d then resv f v e + 1 else resv f v e)" for e
      using fab_updated_sum [OF wf v sm d upd v, of pkt_ejection_reserved_flits e] q q'_q
        fab_sum_split [OF sm, of pkt_ejection_reserved_flits v e]
      by (cases "e = d") (simp_all add: resv_def p'_def)
    have "credit.balanced c' ((resv f v)(d := resv f v d + 1))"
      using credit.balanced_take [of c "resv f v" d 1 c'] take len d by (simp add: c_def)
    moreover have "(resv f v)(d := resv f v d + 1) = resv g v"
      using resv by (simp add: fun_eq_iff)
    ultimately have bal: "credit.balanced c' (resv g v)" by simp
    have "ids g v e = ids f v e" for e
      using fab_updated_sum [OF wf v sm d upd v, of "\<lambda>p. {#pkt_packet_id p#}" e] q q'_q
        fab_sum_split [OF sm, of "\<lambda>p. {#pkt_packet_id p#}" v e]
      by (cases "e = d") (simp_all add: ids_def p'_def)
    then have frame: "fab_frame {sm} f g"
      using fab_updated_frame [OF wf v sm d upd _ _ _ _ _ \<open>voq_wf q'\<close> _ c'_len bal]
        fabric_wf_static [OF wf] vq(2) by (simp add: g_def q'_def)
    have queue: "queue_of g v sm e = (if e = d then p' # ps else queue_of f v sm e)" for e
      using q'_q len sm v by (simp add: g_def queue_of_def)
    have "has_credit g v sm e = has_credit f v sm e" if "e \<noteq> d" for e
      using that queue len v
      by (simp add: has_credit_def needs_credit_def credit_has_def g_def c'_def c_def
          split: list.splits)
    with res frame queue q show ?thesis by (auto simp: g_def)
  qed
qed

lemma reserve_heads_frame:
  assumes "fabric_wf f" "v < 2" "sm < fab_m_n f" "\<forall>d \<in> set dsts. d < fab_m_n f \<and> has_credit f v sm d"
    and "distinct dsts"
  shows "\<exists>g. reserve_heads v sm dsts f = Some g \<and> fab_frame {sm} f g \<and> fab_m_stats g = fab_m_stats f"
  using assms
proof (induction dsts arbitrary: f)
  case Nil
  then show ?case by (simp add: fab_frame_refl)
next
  case (Cons d dsts)
  then obtain g where g: "reserve_head v sm d f = Some g" "fab_frame {sm} f g"
    "fab_m_stats g = fab_m_stats f" "\<forall>e. e \<noteq> d \<longrightarrow> has_credit g v sm e = has_credit f v sm e"
    using reserve_head_frame [of f v sm d] by auto
  then have "fabric_wf g" "fab_m_n g = fab_m_n f" by (simp_all add: fab_frame_def)
  moreover have "\<forall>e \<in> set dsts. e < fab_m_n g \<and> has_credit g v sm e"
    using Cons.prems(4,5) g(4) calculation(2) by auto
  ultimately obtain h where h: "reserve_heads v sm dsts g = Some h" "fab_frame {sm} g h"
    "fab_m_stats h = fab_m_stats g"
    using Cons.IH [of g] Cons.prems by auto
  from fab_frame_trans [OF g(2) h(2)] g h show ?case by simp
qed

subsection \<open>Serving one request\<close>

definition req_ok :: "dsm_fabric \<Rightarrow> fabric_req \<Rightarrow> bool" where
  "req_ok f r \<longleftrightarrow> req_vc r < 2 \<and> req_sm r < fab_m_n f \<and> req_dst r < fab_m_n f"

definition req_head :: "dsm_fabric \<Rightarrow> fabric_req \<Rightarrow> bool" where
  "req_head f r \<longleftrightarrow> queue_of f (req_vc r) (req_sm r) (req_dst r) \<noteq> []"

lemma fold_option_all:
  assumes "\<And>d b. d \<in> set ds \<Longrightarrow> F d (Some b) = Some (b \<and> P d)"
  shows "fold F ds (Some b) = Some (b \<and> (\<forall>d \<in> set ds. P d))"
  using assms by (induction ds arbitrary: b) auto

lemma has_ejection_space_eq:
  assumes "\<forall>d \<in> set dsts. queue_of f (req_vc r) (req_sm r) d \<noteq> []"
  shows "has_ejection_space f r dsts = Some (\<forall>d \<in> set dsts. has_credit f (req_vc r) (req_sm r) d)"
proof -
  let ?step = "\<lambda>dst acc. do {
        ok \<leftarrow> acc;
        if \<not> ok then Some False
        else do {
          head \<leftarrow> voq_front (fab_in f (req_vc r) (req_sm r)) dst;
          Some (\<not> (needs_credit f (req_vc r) head \<and>
                  \<not> credit_has (fab_m_credit f ! req_vc r) dst 1))
        }}"
  have "fold ?step dsts (Some True) =
      Some (True \<and> (\<forall>d \<in> set dsts. has_credit f (req_vc r) (req_sm r) d))"
  proof (rule fold_option_all)
    fix d b assume "d \<in> set dsts"
    then show "?step d (Some b) = Some (b \<and> has_credit f (req_vc r) (req_sm r) d)"
      using assms by (fastforce simp: has_credit_def voq_front_def queue_of_def neq_Nil_conv)
  qed
  then show ?thesis by (simp add: has_ejection_space_def)
qed

lemma multicast_dsts_props:
  assumes "req_ok f r" "req_head f r"
  shows "\<forall>d \<in> set (multicast_dsts f r p). d < fab_m_n f \<and> queue_of f (req_vc r) (req_sm r) d \<noteq> []"
    and "distinct (multicast_dsts f r p)"
  using assms
  by (auto simp: multicast_dsts_def req_ok_def req_head_def voq_front_def queue_of_def
      split: option.splits list.splits)

lemma send_loop_frame:
  assumes "fabric_wf f" "req_ok f r" "\<forall>d \<in> set dsts. d < fab_m_n f"
  shows "\<exists>g. send_loop cycle r dsts selected left f = Some g \<and> fab_frame {req_sm r} f g \<and>
    fab_m_stats g = fab_m_stats f"
  using assms
proof (induction left arbitrary: f)
  case 0
  then show ?case by (simp add: fab_frame_refl)
next
  case (Suc left)
  let ?v = "req_vc r" and ?s = "req_sm r" and ?d = "req_dst r"
  obtain tail f1 where f1: "grant_dsts cycle ?v ?s dsts False f = Some (tail, f1)"
    "fab_frame {?s} f f1" "fab_m_stats f1 = fab_m_stats f"
    using grant_dsts_frame [of f ?v ?s dsts cycle False] Suc.prems by (auto simp: req_ok_def)
  have wf1: "fabric_wf f1" "fab_m_n f1 = fab_m_n f" using f1(2) by (simp_all add: fab_frame_def)
  show ?case
  proof (cases "\<not> tail \<or> left = 0")
    case True
    with f1 show ?thesis by auto
  next
    case False
    show ?thesis
    proof (cases "voq_front (fab_in f1 ?v ?s) ?d")
      case None
      with False f1 show ?thesis by simp
    next
      case (Some nxt)
      let ?stop = "(pkt_packet_class nxt \<noteq> pkt_packet_class selected \<or>
             pkt_payload_bytes nxt \<noteq> pkt_payload_bytes selected \<or> pkt_total_flits nxt \<noteq> 1) \<or>
             needs_credit f1 ?v nxt \<and> \<not> credit_has (fab_m_credit f1 ! ?v) ?d 1"
      show ?thesis
      proof (cases ?stop)
        case True
        with False Some f1 show ?thesis by auto
      next
        case no_stop: False
        then have "has_credit f1 ?v ?s ?d"
          using Some by (auto simp: has_credit_def voq_front_Some)
        then obtain f2 where f2: "reserve_head ?v ?s ?d f1 = Some f2" "fab_frame {?s} f1 f2"
          "fab_m_stats f2 = fab_m_stats f1"
          using reserve_head_frame [OF wf1(1), of ?v ?s ?d] Suc.prems wf1(2)
          by (auto simp: req_ok_def)
        then have "fabric_wf f2" "fab_m_n f2 = fab_m_n f" using wf1 by (simp_all add: fab_frame_def)
        with Suc.IH [of f2] Suc.prems obtain g where g:
          "send_loop cycle r dsts selected left f2 = Some g" "fab_frame {?s} f2 g"
          "fab_m_stats g = fab_m_stats f2" by (auto simp: req_ok_def)
        have "fab_frame {?s} f g"
          using fab_frame_trans [OF fab_frame_trans [OF f1(2) f2(2)] g(2)] by simp
        with False Some no_stop f1 f2 g show ?thesis by auto
      qed
    qed
  qed
qed

lemma after_grant_frame:
  assumes "fabric_wf f" "req_ok f r"
  shows "fab_frame S f (after_grant r ctl f)"
    and "st_flits_granted (fab_m_stats (after_grant r ctl f)) =
      st_flits_granted (fab_m_stats f) + 1"
proof -
  have "fabric_static (after_grant r ctl f)"
    using assms
    by (auto simp: after_grant_def fabric_wf_def fabric_static_def req_ok_def Let_def num_routes_def
        nth_list_update)
  moreover have "fabric_arbiters (after_grant r ctl f)"
    using assms by (simp add: after_grant_def fabric_wf_def fabric_arbiters_def Let_def num_routes_def)
  ultimately show "fab_frame S f (after_grant r ctl f)"
    using assms(1) by (intro fab_frame_inert) (simp_all add: after_grant_def Let_def)
  show "st_flits_granted (fab_m_stats (after_grant r ctl f)) =
      st_flits_granted (fab_m_stats f) + 1"
    by (simp add: after_grant_def Let_def)
qed

lemma serve_request_frame:
  assumes wf: "fabric_wf f" and r: "req_ok f r" and head: "req_head f r"
  shows "\<exists>ok g. serve_request cycle r f = Some (ok, g) \<and> fab_frame {req_sm r} f g \<and>
    st_flits_granted (fab_m_stats g) = st_flits_granted (fab_m_stats f) + (if ok then 1 else 0)"
proof -
  let ?v = "req_vc r" and ?s = "req_sm r" and ?d = "req_dst r"
  obtain p where p: "voq_front (fab_in f ?v ?s) ?d = Some p"
    using head by (auto simp: req_head_def voq_front_Some neq_Nil_conv)
  define dsts where "dsts = multicast_dsts f r p"
  have dsts: "\<forall>d \<in> set dsts. d < fab_m_n f \<and> queue_of f ?v ?s d \<noteq> []" "distinct dsts"
    using multicast_dsts_props [OF r head] by (simp_all add: dsts_def)
  then have space: "has_ejection_space f r dsts = Some (\<forall>d \<in> set dsts. has_credit f ?v ?s d)"
    by (simp add: has_ejection_space_eq)
  show ?thesis
  proof (cases "\<forall>d \<in> set dsts. has_credit f ?v ?s d")
    case False
    with p space upd_stats_frame [OF wf] show ?thesis
      by (auto simp: serve_request_def dsts_def [symmetric])
  next
    case True
    then obtain f1 where f1: "reserve_heads ?v ?s dsts f = Some f1" "fab_frame {?s} f f1"
      "fab_m_stats f1 = fab_m_stats f"
      using reserve_heads_frame [OF wf, of ?v ?s dsts] r dsts by (auto simp: req_ok_def)
    have n1: "fabric_wf f1" "fab_m_n f1 = fab_m_n f" using f1(2) by (simp_all add: fab_frame_def)
    then obtain f2 where f2:
      "send_loop cycle r dsts p (packet_cap_of f1 dsts p) f1 = Some f2" "fab_frame {?s} f1 f2"
      "fab_m_stats f2 = fab_m_stats f1"
      using send_loop_frame [of f1 r dsts cycle p "packet_cap_of f1 dsts p"] r dsts
      by (auto simp: req_ok_def)
    let ?g = "after_grant r (dsm_packet_is_control (pkt_packet_class p)) f2"
    have n2: "fabric_wf f2" "req_ok f2 r" using f2(2) n1 r by (simp_all add: fab_frame_def req_ok_def)
    have "fab_frame {?s} f ?g"
      using fab_frame_trans [OF fab_frame_trans [OF f1(2) f2(2)] after_grant_frame(1) [OF n2]]
      by (simp add: fab_frame_mono)
    moreover have "serve_request cycle r f = Some (True, ?g)"
      using p space True f1 f2 by (simp add: serve_request_def dsts_def [symmetric])
    ultimately show ?thesis using after_grant_frame(2) [OF n2] f1(3) f2(3) by auto
  qed
qed

subsection \<open>The requests of a cycle\<close>

lemma peek_dst_Some:
  assumes "peek_dst f sm v = Some d" "0 < fab_m_n f"
  shows "d < fab_m_n f \<and> queue_of f v sm d \<noteq> []"
  using assms by (auto simp: peek_dst_def find_Some_iff voq_empty_def queue_of_def)

lemma pick_head_Some:
  assumes "pick_head f sm = Some (v, d)" "0 < fab_m_n f"
  shows "v < 2 \<and> d < fab_m_n f \<and> queue_of f v sm d \<noteq> []"
  using assms peek_dst_Some [OF _ assms(2), of sm]
  by (auto simp: pick_head_def Let_def split: if_splits)

lemma make_request_Some:
  assumes "make_request f sm = Some r" "0 < fab_m_n f" "sm < fab_m_n f"
  shows "req_sm r = sm \<and> req_ok f r \<and> req_head f r"
  using assms pick_head_Some [OF _ assms(2), of sm]
  by (auto simp: make_request_def req_ok_def req_head_def bind_eq_Some_conv Let_def)

text \<open>The requests and the index kept for each SM.\<close>

definition reqs_ok :: "dsm_fabric \<Rightarrow> fabric_req list \<Rightarrow> nat option list \<Rightarrow> bool" where
  "reqs_ok f reqs sm_req \<longleftrightarrow>
     (\<forall>r \<in> set reqs. req_ok f r) \<and> distinct (map req_sm reqs) \<and>
     (\<forall>i < length reqs. sm_req ! req_sm (reqs ! i) = Some i)"

lemma fabric_requests_prefix:
  assumes "0 < fab_m_n f" "k \<le> fab_m_n f"
    and "fold (request_step f) [0..<k] ([], replicate (fab_m_n f) None) = (reqs, sm_req)"
  shows "reqs_ok f reqs sm_req \<and> (\<forall>r \<in> set reqs. req_head f r \<and> req_sm r < k) \<and>
    length sm_req = fab_m_n f"
  using assms(2,3)
proof (induction k arbitrary: reqs sm_req)
  case 0
  then show ?case by (auto simp: reqs_ok_def)
next
  case (Suc k)
  obtain rs ss where prev: "fold (request_step f) [0..<k] ([], replicate (fab_m_n f) None) = (rs, ss)"
    by fastforce
  note ih = Suc.IH [OF _ prev]
  have step: "request_step f k (rs, ss) = (reqs, sm_req)"
    using Suc.prems(2) prev by simp
  show ?case
  proof (cases "fab_m_last_eligible f ! k \<and> make_request f k \<noteq> None")
    case False
    then have "reqs = rs" "sm_req = ss" using step by (auto simp: request_step_def split: if_splits)
    with ih Suc.prems(1) show ?thesis by fastforce
  next
    case True
    then obtain r where r: "make_request f k = Some r" by blast
    from make_request_Some [OF this assms(1)] Suc.prems(1)
    have rk: "req_sm r = k" "req_ok f r" "req_head f r" by auto
    have new: "reqs = rs @ [r]" "sm_req = ss[k := Some (length rs)]"
      using step True r by (auto simp: request_step_def)
    show ?thesis
      using ih Suc.prems(1) new rk
      by (fastforce simp: reqs_ok_def nth_append nth_list_update less_Suc_eq)
  qed
qed

lemma fabric_requests_ok:
  assumes "0 < fab_m_n f" "fabric_requests f = (reqs, sm_req)"
  shows "reqs_ok f reqs sm_req" "\<forall>r \<in> set reqs. req_head f r"
  using fabric_requests_prefix [OF assms(1) order.refl assms(2) [unfolded fabric_requests_def]]
  by auto

lemma reqs_ok_same_sm:
  assumes "reqs_ok f reqs sm_req" "i < length reqs" "j < length reqs"
    and "req_sm (reqs ! i) = req_sm (reqs ! j)"
  shows "i = j"
  using assms by (auto simp: reqs_ok_def distinct_conv_nth)

lemma reqs_ok_frame: "fab_frame S f g \<Longrightarrow> reqs_ok g reqs ss = reqs_ok f reqs ss"
  by (simp add: reqs_ok_def req_ok_def fab_frame_def)

lemma req_head_frame:
  assumes "fab_frame S f g" "req_ok f r" "req_sm r \<notin> S"
  shows "req_head g r = req_head f r"
  using assms by (simp add: fab_frame_def req_head_def req_ok_def queue_of_def)

subsection \<open>Route arbitration\<close>

definition is_request :: "fabric_req list \<Rightarrow> nat \<Rightarrow> nat \<Rightarrow> nat \<Rightarrow> bool" where
  "is_request reqs cpc route w \<longleftrightarrow>
     (\<exists>i < length reqs. req_cpc (reqs ! i) = cpc \<and> req_route (reqs ! i) = route \<and> req_sm (reqs ! i) = w)"

lemma arbiter_update:
  assumes "\<forall>a \<in> set as. rr_wf a \<and> rr_m_n a = n" "rr_wf b" "rr_m_n b = n"
  shows "\<forall>a \<in> set (as[i := b]). rr_wf a \<and> rr_m_n a = n"
  using assms set_update_subset_insert [of as i b] by blast

lemma route_index: "cpc < cpcs \<Longrightarrow> route < nr \<Longrightarrow> cpc * nr + route < cpcs * (nr :: nat)"
proof -
  assume "cpc < cpcs" "route < nr"
  then have "cpc * nr + route < Suc cpc * nr" by simp
  also have "\<dots> \<le> cpcs * nr" using \<open>cpc < cpcs\<close> by (intro mult_le_mono1) simp
  finally show ?thesis .
qed

lemma route_grant:
  assumes wf: "fabric_wf f" and "cpc < cpcs" "cpcs = cfg_cpcs (fab_m_cfg f)" "route < num_routes f"
  defines "i \<equiv> cpc * num_routes f + route"
  shows "\<exists>win rr. rr_grant (fab_m_route_rr f ! i) (route_ready reqs cpc route (fab_m_n f)) (fab_m_n f)
      = Some (win, rr) \<and>
    fab_frame S f (f\<lparr>fab_m_route_rr := (fab_m_route_rr f)[i := rr]\<rparr>) \<and>
    (\<forall>w. win = Some w \<longrightarrow> is_request reqs cpc route w)"
proof -
  let ?a = "fab_m_route_rr f ! i" and ?r = "route_ready reqs cpc route (fab_m_n f)"
  have arb: "\<forall>a \<in> set (fab_m_route_rr f). rr_wf a \<and> rr_m_n a = fab_m_n f"
    "i < length (fab_m_route_rr f)"
    using assms by (auto simp: fabric_wf_def fabric_arbiters_def i_def intro: route_index)
  then have a: "rr_wf ?a" "rr_m_n ?a = fab_m_n f" by auto
  have len: "length ?r = rr_m_n ?a" using a by (simp add: route_ready_def)
  obtain win rr where g: "rr_grant ?a ?r (rr_m_n ?a) = Some (win, rr)" "rr_wf rr"
    "rr_m_n rr = rr_m_n ?a"
    using rr.grant_total [OF a(1) len] by blast
  let ?g = "f\<lparr>fab_m_route_rr := (fab_m_route_rr f)[i := rr]\<rparr>"
  have "fabric_arbiters ?g"
    using wf arbiter_update [OF arb(1) g(2), of i] g(3) a(2)
    by (simp add: fabric_wf_def fabric_arbiters_def num_routes_def)
  moreover have "fabric_static ?g"
    using wf by (simp add: fabric_wf_def fabric_static_def num_routes_def)
  ultimately have "fab_frame S f ?g" by (intro fab_frame_inert [OF wf]) simp_all
  moreover have "is_request reqs cpc route w" if "win = Some w" for w
  proof -
    have "w < fab_m_n f" "?r ! w"
      using rr.grant_ready [OF a(1) len] g(1) that a(2) by auto
    then show ?thesis
      by (auto simp: route_ready_def list_ex_iff is_request_def in_set_conv_nth)
  qed
  ultimately show ?thesis using g a(2) by auto
qed

abbreviation flits_granted :: "dsm_fabric \<Rightarrow> nat" where
  "flits_granted f \<equiv> st_flits_granted (fab_m_stats f)"

definition winners_ok :: "fabric_req list \<Rightarrow> nat \<Rightarrow> nat option list \<Rightarrow> bool" where
  "winners_ok reqs cpc winners \<longleftrightarrow>
     (\<forall>route < length winners. \<forall>w. winners ! route = Some w \<longrightarrow> is_request reqs cpc route w)"

lemma winners_ok_update:
  assumes "winners_ok reqs cpc ws" "is_request reqs cpc route w"
  shows "winners_ok reqs cpc (ws[route := Some w])"
  using assms
  by (cases "route < length ws") (auto simp: winners_ok_def nth_list_update)

lemma arbitrate_routes_frame:
  assumes "fabric_wf f" "cpc < cfg_cpcs (fab_m_cfg f)" "\<forall>route \<in> set routes. route < num_routes f"
    and "winners_ok reqs cpc winners"
  shows "\<exists>winners' n' g. arbitrate_routes reqs cpc routes winners n f = Some (winners', n', g) \<and>
    fab_frame S f g \<and> flits_granted g = flits_granted f \<and> length winners' = length winners \<and>
    winners_ok reqs cpc winners'"
  using assms
proof (induction routes arbitrary: f winners n)
  case Nil
  then show ?case by (simp add: fab_frame_refl)
next
  case (Cons route routes)
  define n_ready where "n_ready = length (filter (\<lambda>r. req_cpc r = cpc \<and> req_route r = route) reqs)"
  show ?case
  proof (cases "n_ready = 0")
    case True
    with Cons show ?thesis by (simp add: n_ready_def [symmetric] Let_def)
  next
    case False
    define f1 where "f1 = (if n_ready > 1
       then upd_stats (\<lambda>st. st\<lparr>st_lane_conflicts := st_lane_conflicts st + 1\<rparr>) f else f)"
    have f1: "fab_frame S f f1" "flits_granted f1 = flits_granted f"
      "fab_m_n f1 = fab_m_n f" "fab_m_cfg f1 = fab_m_cfg f" "num_routes f1 = num_routes f"
      using upd_stats_frame [OF Cons.prems(1)] fab_frame_refl [OF Cons.prems(1)]
      by (simp_all add: f1_def num_routes_def)
    have wf1: "fabric_wf f1" using f1(1) by (rule fab_frame_wf)
    obtain win rr where g: "rr_grant (fab_m_route_rr f1 ! (cpc * num_routes f + route))
        (route_ready reqs cpc route (fab_m_n f1)) (fab_m_n f1) = Some (win, rr)"
      "fab_frame S f1 (f1\<lparr>fab_m_route_rr :=
         (fab_m_route_rr f1)[cpc * num_routes f + route := rr]\<rparr>)"
      "\<forall>w. win = Some w \<longrightarrow> is_request reqs cpc route w"
      using route_grant [OF wf1, of cpc _ route reqs S] Cons.prems(2,3) f1 by auto
    define f2 where "f2 = f1\<lparr>fab_m_route_rr :=
         (fab_m_route_rr f1)[cpc * num_routes f + route := rr]\<rparr>"
    define ws where "ws = (case win of None \<Rightarrow> winners | Some w \<Rightarrow> winners[route := Some w])"
    define n2 where "n2 = (case win of None \<Rightarrow> n | Some w \<Rightarrow> n + 1)"
    have frame: "fab_frame S f f2"
      using fab_frame_trans [OF f1(1) g(2)] by (simp add: f2_def)
    have f2: "fabric_wf f2" "flits_granted f2 = flits_granted f" "fab_m_cfg f2 = fab_m_cfg f"
      "num_routes f2 = num_routes f"
      using fab_frame_wf [OF frame] f1 by (simp_all add: f2_def num_routes_def)
    have ws: "winners_ok reqs cpc ws" "length ws = length winners"
      using Cons.prems(4) g(3) winners_ok_update by (auto simp: ws_def split: option.splits)
    obtain w' n' h where h: "arbitrate_routes reqs cpc routes ws n2 f2 = Some (w', n', h)"
      "fab_frame S f2 h" "flits_granted h = flits_granted f2" "length w' = length ws"
      "winners_ok reqs cpc w'"
      using Cons.IH [OF f2(1) _ _ ws(1), of n2] Cons.prems(2,3) f2(3,4) by auto
    have "arbitrate_routes reqs cpc (route # routes) winners n f = Some (w', n', h)"
      unfolding arbitrate_routes.simps Let_def n_ready_def [symmetric] f1_def [symmetric]
      using False g(1) h(1) f2_def ws_def n2_def by (cases win) simp_all
    moreover have "fab_frame S f h" using fab_frame_trans [OF frame h(2)] by simp
    ultimately show ?thesis using h ws(2) f2(2) by auto
  qed
qed

subsection \<open>Lane arbitration\<close>

lemma lane_grant:
  assumes wf: "fabric_wf f" and cpc: "cpc < cfg_cpcs (fab_m_cfg f)" and len: "length ready = num_routes f"
  shows "\<exists>w rr. rr_grant (fab_m_cpc_rr f ! cpc) ready (num_routes f) = Some (w, rr) \<and>
    fab_frame S f (f\<lparr>fab_m_cpc_rr := (fab_m_cpc_rr f)[cpc := rr]\<rparr>) \<and>
    (\<forall>route. w = Some route \<longrightarrow> route < num_routes f \<and> ready ! route)"
proof -
  let ?a = "fab_m_cpc_rr f ! cpc"
  have arb: "\<forall>a \<in> set (fab_m_cpc_rr f). rr_wf a \<and> rr_m_n a = num_routes f"
    "cpc < length (fab_m_cpc_rr f)"
    using wf cpc by (auto simp: fabric_wf_def fabric_arbiters_def)
  then have a: "rr_wf ?a" "rr_m_n ?a = num_routes f" by auto
  obtain w rr where g: "rr_grant ?a ready (rr_m_n ?a) = Some (w, rr)" "rr_wf rr" "rr_m_n rr = rr_m_n ?a"
    using rr.grant_total [OF a(1)] len a(2) by metis
  let ?g = "f\<lparr>fab_m_cpc_rr := (fab_m_cpc_rr f)[cpc := rr]\<rparr>"
  have "fabric_arbiters ?g"
    using wf arbiter_update [OF arb(1) g(2), of cpc] g(3) a(2)
    by (simp add: fabric_wf_def fabric_arbiters_def num_routes_def)
  moreover have "fabric_static ?g"
    using wf by (simp add: fabric_wf_def fabric_static_def num_routes_def)
  ultimately have "fab_frame S f ?g" by (intro fab_frame_inert [OF wf]) simp_all
  moreover have "route < num_routes f \<and> ready ! route" if "w = Some route" for route
    using rr.grant_ready [OF a(1), of ready route rr] g(1) that a(2) len by simp
  ultimately show ?thesis using g a(2) by auto
qed

definition lane_heads :: "dsm_fabric \<Rightarrow> fabric_req list \<Rightarrow> nat \<Rightarrow> bool list \<Rightarrow> bool" where
  "lane_heads f reqs cpc ready \<longleftrightarrow>
     (\<forall>i < length reqs. req_cpc (reqs ! i) = cpc \<and> req_route (reqs ! i) < length ready \<and>
        ready ! req_route (reqs ! i) \<longrightarrow> req_head f (reqs ! i))"

definition cpc_sms :: "fabric_req list \<Rightarrow> nat \<Rightarrow> nat set" where
  "cpc_sms reqs cpc = req_sm ` {r \<in> set reqs. req_cpc r = cpc}"

lemma lane_loop_frame:
  assumes "fabric_wf f" "cpc < cfg_cpcs (fab_m_cfg f)" "length ready = num_routes f"
    and "reqs_ok f reqs sm_req" "winners_ok reqs cpc winners" "length winners = num_routes f"
    and "lane_heads f reqs cpc ready"
    and "\<forall>route < num_routes f. ready ! route \<longrightarrow> winners ! route \<noteq> None"
  shows "\<exists>taken' granted' g. lane_loop cycle reqs sm_req winners cpc k ready taken granted f =
      Some (taken', granted', g) \<and> fab_frame (cpc_sms reqs cpc) f g \<and>
    flits_granted g + taken = flits_granted f + taken' \<and>
    taken' \<le> max taken (cfg_lanes_per_cpc (fab_m_cfg f))"
  using assms
proof (induction k arbitrary: f ready taken granted)
  case 0
  then show ?case by (simp add: fab_frame_refl)
next
  case (Suc k)
  let ?S = "cpc_sms reqs cpc" and ?lanes = "cfg_lanes_per_cpc (fab_m_cfg f)"
  show ?case
  proof (cases "taken \<ge> ?lanes")
    case True
    then show ?thesis using fab_frame_refl [OF Suc.prems(1)] by simp
  next
    case more: False
    obtain w rr where g: "rr_grant (fab_m_cpc_rr f ! cpc) ready (num_routes f) = Some (w, rr)"
      "fab_frame ?S f (f\<lparr>fab_m_cpc_rr := (fab_m_cpc_rr f)[cpc := rr]\<rparr>)"
      "\<forall>route. w = Some route \<longrightarrow> route < num_routes f \<and> ready ! route"
      using lane_grant [OF Suc.prems(1-3), of ?S] by blast
    define f1 where "f1 = f\<lparr>fab_m_cpc_rr := (fab_m_cpc_rr f)[cpc := rr]\<rparr>"
    note frame1 = g(2) [folded f1_def]
    have f1: "fabric_wf f1" "fab_m_cfg f1 = fab_m_cfg f" "num_routes f1 = num_routes f"
      "flits_granted f1 = flits_granted f" "reqs_ok f1 reqs sm_req"
      "\<And>r. req_head f1 r = req_head f r"
      using fab_frame_wf [OF frame1] reqs_ok_frame [OF frame1] Suc.prems(4)
      by (simp_all add: f1_def num_routes_def req_head_def queue_of_def)
    show ?thesis
    proof (cases w)
      case None
      then show ?thesis
        using more g(1) frame1 f1(4) by (simp add: f1_def [symmetric])
    next
      case (Some route)
      then have route: "route < num_routes f" "ready ! route" using g(3) by auto
      then obtain sm where sm: "winners ! route = Some sm" using Suc.prems(8) by auto
      then obtain i where i: "i < length reqs" "req_cpc (reqs ! i) = cpc"
        "req_route (reqs ! i) = route" "req_sm (reqs ! i) = sm"
        using Suc.prems(5,6) route by (auto simp: winners_ok_def is_request_def)
      have req: "sm_req ! sm = Some i" "req_ok f1 (reqs ! i)"
        using f1(5) i by (auto simp: reqs_ok_def)
      have "req_head f1 (reqs ! i)"
        using Suc.prems(3,7) i route f1(6) by (simp add: lane_heads_def)
      then obtain ok f2 where f2: "serve_request cycle (reqs ! i) f1 = Some (ok, f2)"
        "fab_frame {sm} f1 f2" "flits_granted f2 = flits_granted f1 + (if ok then 1 else 0)"
        using serve_request_frame [OF f1(1) req(2), of cycle] i(4) by auto
      define ready1 where "ready1 = ready[route := False]"
      have sub: "{sm} \<subseteq> ?S" using i by (auto simp: cpc_sms_def)
      have frame2: "fab_frame ?S f f2"
        using fab_frame_trans [OF frame1 fab_frame_mono [OF f2(2) sub]] by simp
      have wf2: "fabric_wf f2" "fab_m_cfg f2 = fab_m_cfg f" "num_routes f2 = num_routes f"
        "reqs_ok f2 reqs sm_req"
        using fab_frame_wf [OF f2(2)] frame2 f1(2) reqs_ok_frame [OF f2(2)] f1(5)
        by (simp_all add: fab_frame_def num_routes_def)
      have heads: "lane_heads f2 reqs cpc ready1"
        unfolding lane_heads_def
      proof (intro allI impI)
        fix j
        assume j: "j < length reqs" "req_cpc (reqs ! j) = cpc \<and> req_route (reqs ! j) < length ready1 \<and>
          ready1 ! req_route (reqs ! j)"
        then have "j \<noteq> i" "ready ! req_route (reqs ! j)" "req_route (reqs ! j) < length ready"
          using route Suc.prems(3) i(3) by (auto simp: ready1_def nth_list_update split: if_splits)
        moreover have "req_sm (reqs ! j) \<notin> {sm}"
          using reqs_ok_same_sm [OF f1(5) j(1) i(1)] i(4) calculation(1) by auto
        moreover have "req_ok f1 (reqs ! j)" using f1(5) j(1) by (simp add: reqs_ok_def)
        ultimately show "req_head f2 (reqs ! j)"
          using req_head_frame [OF f2(2)] Suc.prems(7) j f1(6) by (simp add: lane_heads_def)
      qed
      have ready1: "length ready1 = num_routes f2"
        "\<forall>route < num_routes f2. ready1 ! route \<longrightarrow> winners ! route \<noteq> None"
        using Suc.prems(3,8) route wf2(3) by (auto simp: ready1_def nth_list_update)
      let ?taken = "if ok then taken + 1 else taken"
      let ?granted = "if ok then granted[sm := True] else granted"
      obtain t' gr' h where h: "lane_loop cycle reqs sm_req winners cpc k ready1 ?taken ?granted f2 =
          Some (t', gr', h)" "fab_frame ?S f2 h" "flits_granted h + ?taken = flits_granted f2 + t'"
        "t' \<le> max ?taken ?lanes"
        using Suc.IH [OF wf2(1) _ ready1(1) wf2(4) Suc.prems(5) _ heads ready1(2), of ?taken ?granted]
          Suc.prems(2,6) wf2(2,3) by auto
      have "lane_loop cycle reqs sm_req winners cpc (Suc k) ready taken granted f = Some (t', gr', h)"
        using more g(1) Some sm req(1) f2(1) h(1) i(4)
        by (simp add: f1_def [symmetric] ready1_def [symmetric] Let_def split: if_splits)
      moreover have "fab_frame ?S f h" using fab_frame_trans [OF frame2 h(2)] by simp
      moreover have "flits_granted h + taken = flits_granted f + t'"
        using h(3) f2(3) f1(4) by (auto split: if_splits)
      moreover have "t' \<le> max taken ?lanes" using h(4) more by (auto split: if_splits)
      ultimately show ?thesis by blast
    qed
  qed
qed

subsection \<open>A whole cycle\<close>

lemma cpc_cycle_frame:
  assumes wf: "fabric_wf f" and cpc: "cpc < cfg_cpcs (fab_m_cfg f)" and reqs: "reqs_ok f reqs sm_req"
    and heads: "\<forall>r \<in> set reqs. req_cpc r = cpc \<longrightarrow> req_head f r"
  shows "\<exists>granted' g. cpc_cycle cycle reqs sm_req cpc granted f = Some (granted', g) \<and>
    fab_frame (cpc_sms reqs cpc) f g \<and> flits_granted f \<le> flits_granted g \<and>
    flits_granted g \<le> flits_granted f + cfg_lanes_per_cpc (fab_m_cfg f)"
proof -
  let ?S = "cpc_sms reqs cpc" and ?nr = "num_routes f"
  have "winners_ok reqs cpc (replicate ?nr None)" by (simp add: winners_ok_def)
  then obtain ws n f1 where f1:
    "arbitrate_routes reqs cpc [0..<?nr] (replicate ?nr None) 0 f = Some (ws, n, f1)"
    "fab_frame {} f f1" "flits_granted f1 = flits_granted f" "length ws = ?nr"
    "winners_ok reqs cpc ws"
    using arbitrate_routes_frame [OF wf cpc, of "[0..<?nr]" reqs "replicate ?nr None" 0 "{}"]
    by auto
  have wf1: "fabric_wf f1" "fab_m_cfg f1 = fab_m_cfg f" "num_routes f1 = ?nr" "reqs_ok f1 reqs sm_req"
    using f1(2) fab_frame_num_routes [OF f1(2)] reqs_ok_frame [OF f1(2)] reqs
    by (simp_all add: fab_frame_def)
  let ?ready = "map (\<lambda>w. w \<noteq> None) ws"
  have heads1: "lane_heads f1 reqs cpc ?ready"
    using heads reqs req_head_frame [OF f1(2)] by (simp add: lane_heads_def reqs_ok_def)
  obtain t gr g where g: "lane_loop cycle reqs sm_req ws cpc (cfg_lanes_per_cpc (fab_m_cfg f1)) ?ready 0
      granted f1 = Some (t, gr, g)" "fab_frame ?S f1 g" "flits_granted g = flits_granted f1 + t"
    "t \<le> cfg_lanes_per_cpc (fab_m_cfg f)"
    using lane_loop_frame [OF wf1(1) _ _ wf1(4) f1(5) _ heads1,
        of cycle "cfg_lanes_per_cpc (fab_m_cfg f1)" 0 granted] cpc wf1(2,3) f1(4) by auto
  define h where "h = (if n > t
       then upd_stats (\<lambda>st. st\<lparr>st_stall_lane := st_stall_lane st + (n - t)\<rparr>) g else g)"
  have "cpc_cycle cycle reqs sm_req cpc granted f = Some (gr, h)"
    using f1(1) g(1) by (simp add: cpc_cycle_def h_def Let_def)
  moreover have "fab_frame ?S g h"
    using upd_stats_frame [OF fab_frame_wf [OF g(2)]] fab_frame_refl [OF fab_frame_wf [OF g(2)]]
    by (simp add: h_def)
  then have "fab_frame ?S f h"
    using fab_frame_trans [OF fab_frame_trans [OF f1(2) g(2)]] by fastforce
  moreover have "flits_granted h = flits_granted f + t" using g(3) f1(3) by (simp add: h_def)
  ultimately show ?thesis using g(4) by auto
qed

lemma cpcs_cycle_frame:
  assumes "fabric_wf f" "\<forall>cpc \<in> set cpcs. cpc < cfg_cpcs (fab_m_cfg f)" "distinct cpcs"
    and "reqs_ok f reqs sm_req" "\<forall>r \<in> set reqs. req_cpc r \<in> set cpcs \<longrightarrow> req_head f r"
  shows "\<exists>granted' g. cpcs_cycle cycle reqs sm_req cpcs granted f = Some (granted', g) \<and>
    fab_frame UNIV f g \<and> flits_granted f \<le> flits_granted g \<and>
    flits_granted g \<le> flits_granted f + length cpcs * cfg_lanes_per_cpc (fab_m_cfg f)"
  using assms
proof (induction cpcs arbitrary: f granted)
  case Nil
  then show ?case by (simp add: fab_frame_refl)
next
  case (Cons cpc cpcs)
  have cpc: "cpc < cfg_cpcs (fab_m_cfg f)" "\<forall>r \<in> set reqs. req_cpc r = cpc \<longrightarrow> req_head f r"
    using Cons.prems(2,5) by auto
  obtain gr g where g: "cpc_cycle cycle reqs sm_req cpc granted f = Some (gr, g)"
    "fab_frame (cpc_sms reqs cpc) f g" "flits_granted f \<le> flits_granted g"
    "flits_granted g \<le> flits_granted f + cfg_lanes_per_cpc (fab_m_cfg f)"
    using cpc_cycle_frame [OF Cons.prems(1) cpc(1) Cons.prems(4) cpc(2), of cycle granted] by blast
  have wf: "fabric_wf g" "fab_m_cfg g = fab_m_cfg f" "reqs_ok g reqs sm_req"
    using g(2) reqs_ok_frame [OF g(2)] Cons.prems(4) by (simp_all add: fab_frame_def)
  have "\<forall>r \<in> set reqs. req_cpc r \<in> set cpcs \<longrightarrow> req_head g r"
  proof (intro ballI impI)
    fix r
    assume r: "r \<in> set reqs" "req_cpc r \<in> set cpcs"
    then have "req_head f r" "req_ok f r" using Cons.prems(4,5) by (auto simp: reqs_ok_def)
    have "req_cpc r \<noteq> cpc" using r(2) Cons.prems(3) by auto
    then have "req_sm r \<notin> cpc_sms reqs cpc"
      using r(1) reqs_ok_same_sm [OF Cons.prems(4)] by (auto simp: cpc_sms_def in_set_conv_nth)
    then show "req_head g r"
      using req_head_frame [OF g(2) \<open>req_ok f r\<close>] \<open>req_head f r\<close> by simp
  qed
  then obtain gr' h where h: "cpcs_cycle cycle reqs sm_req cpcs gr g = Some (gr', h)"
    "fab_frame UNIV g h" "flits_granted g \<le> flits_granted h"
    "flits_granted h \<le> flits_granted g + length cpcs * cfg_lanes_per_cpc (fab_m_cfg g)"
    using Cons.IH [OF wf(1) _ _ wf(3), of gr] Cons.prems(2,3) wf(2) by auto
  have "cpcs_cycle cycle reqs sm_req (cpc # cpcs) granted f = Some (gr', h)"
    using g(1) h(1) by simp
  moreover have "fab_frame UNIV f h" using fab_frame_trans [OF g(2) h(2)] by simp
  moreover have "flits_granted f \<le> flits_granted h" using g(3) h(3) by simp
  moreover have "flits_granted h \<le> flits_granted f + length (cpc # cpcs) * cfg_lanes_per_cpc (fab_m_cfg f)"
    using g(4) h(4) wf(2) by simp
  ultimately show ?case by blast
qed

lemma eligibility_step_frame:
  assumes "fabric_wf f"
  shows "fab_frame S f (eligibility_step cycle sm f)"
    and "flits_granted (eligibility_step cycle sm f) = flits_granted f"
  using assms
  by (auto simp: eligibility_step_def Let_def fabric_wf_def fabric_static_def fabric_arbiters_def
      num_routes_def intro!: fab_frame_inert)

lemma usage_step_frame:
  assumes "fabric_wf f"
  shows "fab_frame S f (usage_step el gr sm f)"
    and "flits_granted (usage_step el gr sm f) = flits_granted f"
  using upd_stats_frame [OF assms] fab_frame_refl [OF assms]
  by (simp_all add: usage_step_def)

lemma note_hw_frame:
  assumes "fabric_wf f"
  shows "fab_frame S f (note_hw v f)" and "flits_granted (note_hw v f) = flits_granted f"
  using upd_stats_frame [OF assms] fab_frame_refl [OF assms]
  by (simp_all add: note_hw_def Let_def)

lemma fold_frame:
  assumes "\<And>x f. fabric_wf f \<Longrightarrow> fab_frame S f (F x f) \<and> flits_granted (F x f) = flits_granted f"
    and "fabric_wf f"
  shows "fab_frame S f (fold F xs f) \<and> flits_granted (fold F xs f) = flits_granted f"
  using assms(2)
proof (induction xs arbitrary: f)
  case Nil
  then show ?case by (simp add: fab_frame_refl)
next
  case (Cons x xs)
  have x: "fab_frame S f (F x f)" "flits_granted (F x f) = flits_granted f"
    using assms(1) [OF Cons.prems] by auto
  from fab_frame_trans [OF x(1)] Cons.IH [OF fab_frame_wf [OF x(1)]] x(2) show ?case by fastforce
qed

lemma fabric_cycle_frame:
  assumes "fabric_wf f"
  shows "\<exists>g. fabric_cycle cycle f = Some g \<and> fab_frame UNIV f g \<and>
    flits_granted f \<le> flits_granted g \<and>
    flits_granted g \<le> flits_granted f + cfg_cpcs (fab_m_cfg f) * cfg_lanes_per_cpc (fab_m_cfg f)"
proof -
  define f0 where "f0 = f\<lparr>fab_m_now := cycle\<rparr>"
  have f0: "fab_frame UNIV f f0" "flits_granted f0 = flits_granted f"
    using assms
    by (auto simp: f0_def fabric_wf_def fabric_static_def fabric_arbiters_def num_routes_def
        intro!: fab_frame_inert)
  define f1 where "f1 = fold (eligibility_step cycle) [0..<fab_m_n f] f0"
  have f1: "fab_frame UNIV f0 f1" "flits_granted f1 = flits_granted f0"
    using fold_frame [of UNIV "eligibility_step cycle"] eligibility_step_frame fab_frame_wf [OF f0(1)]
    by (auto simp: f1_def)
  have frame1: "fab_frame UNIV f f1" using fab_frame_trans [OF f0(1) f1(1)] by simp
  note wf1 = fab_frame_wf [OF frame1]
  have same: "fab_m_cfg f1 = fab_m_cfg f" "fab_m_n f1 = fab_m_n f" using frame1 by (simp_all add: fab_frame_def)
  obtain reqs sm_req where reqs: "fabric_requests f1 = (reqs, sm_req)" by fastforce
  have "0 < fab_m_n f1" using wf1 by (simp add: fabric_wf_def fabric_static_def)
  note ok = fabric_requests_ok [OF this reqs]
  obtain gr f2 where f2: "cpcs_cycle cycle reqs sm_req [0..<cfg_cpcs (fab_m_cfg f1)]
      (replicate (fab_m_n f1) False) f1 = Some (gr, f2)" "fab_frame UNIV f1 f2"
    "flits_granted f1 \<le> flits_granted f2"
    "flits_granted f2 \<le> flits_granted f1 + cfg_cpcs (fab_m_cfg f1) * cfg_lanes_per_cpc (fab_m_cfg f1)"
    using cpcs_cycle_frame [OF wf1 _ _ ok(1), of "[0..<cfg_cpcs (fab_m_cfg f1)]" cycle
        "replicate (fab_m_n f1) False"] ok(2) by (auto simp del: replicate.simps)
  define f3 where "f3 = fold (usage_step (fab_m_last_eligible f1) gr) [0..<fab_m_n f2] f2"
  have f3: "fab_frame UNIV f2 f3" "flits_granted f3 = flits_granted f2"
    using fold_frame [of UNIV "usage_step (fab_m_last_eligible f1) gr"] usage_step_frame
      fab_frame_wf [OF f2(2)] by (auto simp: f3_def)
  let ?h = "note_hw 1 (note_hw 0 f3)"
  note wf3 = fab_frame_wf [OF f3(1)]
  have h: "fab_frame UNIV f3 ?h" "flits_granted ?h = flits_granted f3"
    using fab_frame_trans [OF note_hw_frame(1) [OF wf3, of UNIV 0]
        note_hw_frame(1) [OF fab_frame_wf [OF note_hw_frame(1) [OF wf3, of UNIV 0]], of UNIV 1]]
      note_hw_frame(2) [OF wf3]
      note_hw_frame(2) [OF fab_frame_wf [OF note_hw_frame(1) [OF wf3, of UNIV 0]], of 1]
    by simp_all
  have "fabric_cycle cycle f = Some ?h"
    using reqs f2(1) same
    by (simp add: fabric_cycle_def Let_def f0_def [symmetric] f1_def [symmetric] f3_def [symmetric])
  moreover have "fab_frame UNIV f ?h"
    using fab_frame_trans [OF fab_frame_trans [OF frame1 f2(2)] fab_frame_trans [OF f3(1) h(1)]] by simp
  ultimately show ?thesis using f2(3,4) f3(2) h(2) f1(2) f0(2) same by auto
qed

subsection \<open>Ejection and injection\<close>

lemma vci_less [simp]: "vci vc < 2"
  by (cases vc) (simp_all add: vci_def)

lemma fabric_top_Some:
  "fabric_top f dst vc = Some p \<Longrightarrow> dst < fab_m_n f \<and> (\<exists>ps. fab_ej f (vci vc) dst = p # ps)"
  by (auto simp: fabric_top_def split: if_splits list.splits)

lemma fabric_pop_ok:
  assumes wf: "fabric_wf f"
  shows "\<exists>g. fabric_pop f dst vc = Some (fabric_top f dst vc, g) \<and> fabric_wf g \<and>
    fab_m_n g = fab_m_n f \<and>
    (\<forall>v < 2. \<forall>s < fab_m_n f. voq_m_limit (fab_in g v s) = voq_m_limit (fab_in f v s)) \<and>
    (case fabric_top f dst vc of None \<Rightarrow> g = f
     | Some p \<Rightarrow> ids f (vci vc) dst = add_mset (pkt_packet_id p) (ids g (vci vc) dst) \<and>
         fab_ej f (vci vc) dst = p # fab_ej g (vci vc) dst)"
proof (cases "fabric_top f dst vc")
  case None
  then show ?thesis using wf by (simp add: fabric_pop_def)
next
  case (Some p)
  let ?v = "vci vc"
  have v: "?v < 2" by simp
  from fabric_top_Some [OF Some] obtain ps where d: "dst < fab_m_n f" and ps: "fab_ej f ?v dst = p # ps"
    by blast
  note len = fabric_wf_lengths [OF wf v]
  note vq = fabric_wf_queue [OF wf v d]
  let ?c = "fab_m_credit f ! ?v" and ?k = "pkt_ejection_reserved_flits p"
  have res: "resv f ?v dst = ?k + (fab_others pkt_ejection_reserved_flits f ?v dst dst +
      sum_list (map pkt_ejection_reserved_flits (queue_of f ?v dst dst)) +
      sum_list (map pkt_ejection_reserved_flits ps))"
    using fab_sum_split [OF d, of pkt_ejection_reserved_flits ?v dst] ps by (simp add: resv_def)
  then obtain c where c: "credit_give ?c dst ?k = Some c"
    "length (crd_m_free c) = length (crd_m_free ?c)"
    "credit.balanced c ((resv f ?v)(dst := resv f ?v dst - ?k))"
    using credit.balanced_give [OF len(8), of dst ?k] d len(6) by auto
  define g where "g = upd_stats (\<lambda>st. st\<lparr>st_packets_ejected := st_packets_ejected st + 1\<rparr>)
      (set_credit ?v c (set_ej ?v dst ps f))"
  have pop: "fabric_pop f dst vc = Some (Some p, g)"
    using Some ps c(1) by (simp add: fabric_pop_def g_def Let_def)
  have upd: "fab_updated ?v dst (fab_in f ?v dst) dst ps f g"
    by (simp add: fab_updated_def g_def)
  note sum = fab_updated_sum [OF wf v d d upd v]
  have "resv g ?v e = ((resv f ?v)(dst := resv f ?v dst - ?k)) e" for e
    using sum [of pkt_ejection_reserved_flits e] res
      fab_sum_split [OF d, of pkt_ejection_reserved_flits ?v e]
    by (cases "e = dst") (simp_all add: resv_def queue_of_def)
  then have "resv g ?v = (resv f ?v)(dst := resv f ?v dst - ?k)" by (rule ext)
  then have bal: "credit.balanced c (resv g ?v)" using c(3) by simp
  have "fabric_wf g"
    using fab_updated_wf [OF wf v d d upd _ _ _ _ _ vq(1) vq(2) _ bal] c(2) len
      fabric_wf_static [OF wf] by (simp add: g_def)
  moreover have "ids f ?v dst = add_mset (pkt_packet_id p) (ids g ?v dst)"
    using sum [of "\<lambda>p. {#pkt_packet_id p#}" dst] ps
      fab_sum_split [OF d, of "\<lambda>p. {#pkt_packet_id p#}" ?v dst]
    by (simp add: ids_def queue_of_def)
  moreover have "fab_ej g ?v dst = ps" using len d by (simp add: g_def)
  moreover have "fab_m_n g = fab_m_n f" by (simp add: g_def)
  moreover have "fab_m_in g = fab_m_in f" by (simp add: g_def)
  ultimately show ?thesis using pop Some ps by simp
qed

definition can_inject_packet :: "dsm_fabric \<Rightarrow> dsm_packet \<Rightarrow> bool" where
  "can_inject_packet f p \<longleftrightarrow> can_inject_to f (pkt_network_src_sm_id p) (pkt_vc p)
     (pkt_network_dst_sm_id p) (remaining_flits (inject_flits f p))"

lemma inject_packet_fields:
  "remaining_flits (inject_packet f p) = remaining_flits (inject_flits f p)"
  "pkt_vc (inject_packet f p) = pkt_vc p"
  "pkt_ejection_reserved_flits (inject_packet f p) = pkt_ejection_reserved_flits p"
  by (simp_all add: inject_packet_def inject_flits_def Let_def)

lemma fabric_inject_eq:
  assumes "can_inject_packet f p"
  shows "\<exists>b. fabric_inject (Some p) f =
    Option.bind (voq_push_before (fab_in f (vci (pkt_vc p)) (pkt_network_src_sm_id p))
        (pkt_network_dst_sm_id p) (inject_packet f p) b)
      (\<lambda>(pushed, q). Option.bind (cassert pushed) (\<lambda>_.
        Some (note_hw (vci (pkt_vc p))
          (upd_stats (\<lambda>st. st\<lparr>st_packets_injected := st_packets_injected st + 1\<rparr>)
            (set_in (vci (pkt_vc p)) (pkt_network_src_sm_id p) q
              (if pkt_packet_id (inject_flits f p) = 0
               then f\<lparr>fab_m_next_pkt_id := fab_m_next_pkt_id f + 1\<rparr> else f))))))"
proof -
  have vc: "pkt_vc (inject_packet f p) = pkt_vc p" by (simp add: inject_packet_fields)
  let ?front = "pkt_packet_class (inject_packet f p) = Read_Command \<and>
     voq_contains (fab_in f (vci (pkt_vc p)) (pkt_network_src_sm_id p)) (pkt_network_dst_sm_id p)
       (\<lambda>queued. pkt_packet_class queued \<noteq> Read_Command)"
  show ?thesis
  proof (cases ?front)
    case True
    then show ?thesis
      using assms vc
      by (intro exI [of _ "\<lambda>_. True"])
        (simp add: fabric_inject_def Let_def voq_push_front_def can_inject_packet_def)
  next
    case False
    then show ?thesis
      using assms vc
      by (intro exI [of _ "\<lambda>_. False"])
        (simp add: fabric_inject_def Let_def voq_push_as_push_before can_inject_packet_def
          if_not_P [OF False])
  qed
qed

lemma fabric_inject_ok:
  assumes wf: "fabric_wf f" and p: "0 < remaining_flits (inject_flits f p)"
    and fresh: "pkt_ejection_reserved_flits p = 0"
  shows "\<exists>g. fabric_inject (Some p) f = Some g \<and> fabric_wf g \<and> fab_m_n g = fab_m_n f \<and>
    (\<forall>v < 2. \<forall>s < fab_m_n f. voq_m_limit (fab_in g v s) = voq_m_limit (fab_in f v s)) \<and>
    ids g (vci (pkt_vc p)) (pkt_network_dst_sm_id p) =
      (if can_inject_packet f p
       then add_mset (pkt_packet_id (inject_packet f p)) (ids f (vci (pkt_vc p)) (pkt_network_dst_sm_id p))
       else ids f (vci (pkt_vc p)) (pkt_network_dst_sm_id p))"
proof (cases "can_inject_packet f p")
  case False
  define h :: "dsm_stats \<Rightarrow> dsm_stats" where "h = (\<lambda>st. st\<lparr>st_stall_inject := st_stall_inject st + 1\<rparr>)"
  have "fabric_inject (Some p) f = Some (upd_stats h f)"
    using False by (simp add: fabric_inject_def can_inject_packet_def h_def Let_def)
  moreover have "fabric_wf (upd_stats h f)" using upd_stats_frame [OF wf] by (rule fab_frame_wf)
  moreover have "ids (upd_stats h f) = ids f" unfolding ids_def by (rule fab_sum_cong) simp_all
  ultimately show ?thesis using False by simp
next
  case True
  let ?v = "vci (pkt_vc p)" and ?s = "pkt_network_src_sm_id p" and ?d = "pkt_network_dst_sm_id p"
  let ?p = "inject_packet f p"
  have v: "?v < 2" by simp
  have s: "?s < fab_m_n f" and d: "?d < fab_m_n f"
    and can: "voq_can_push (fab_in f ?v ?s) ?d (remaining_flits ?p)"
    using True by (simp_all add: can_inject_packet_def can_inject_to_def inject_packet_fields
        split: if_splits)
  note len = fabric_wf_lengths [OF wf v] and vq = fabric_wf_queue [OF wf v s]
  obtain b where b: "fabric_inject (Some p) f =
    Option.bind (voq_push_before (fab_in f ?v ?s) ?d ?p b)
      (\<lambda>(pushed, q). Option.bind (cassert pushed) (\<lambda>_.
        Some (note_hw ?v
          (upd_stats (\<lambda>st. st\<lparr>st_packets_injected := st_packets_injected st + 1\<rparr>)
            (set_in ?v ?s q
              (if pkt_packet_id (inject_flits f p) = 0
               then f\<lparr>fab_m_next_pkt_id := fab_m_next_pkt_id f + 1\<rparr> else f))))))"
    using fabric_inject_eq [OF True] by blast
  have dq: "?d < length (voq_m_q (fab_in f ?v ?s))" using vq(2) d by simp
  obtain q where q: "voq_push_before (fab_in f ?v ?s) ?d ?p b = Some (True, q)"
    using voq_push_before_defined [OF dq, of ?p b] can by auto
  have pos: "0 < remaining_flits ?p" using p by (simp add: inject_packet_fields)
  from voq_push_before_wf [OF vq(1) dq pos q] have qwf: "voq_wf q" "length (voq_m_q q) = fab_m_n f"
    and limit: "voq_m_limit q = voq_m_limit (fab_in f ?v ?s)"
    and qq: "voq_m_q q = (voq_m_q (fab_in f ?v ?s))[?d :=
      insert_before b ?p (voq_m_q (fab_in f ?v ?s) ! ?d)]"
    using vq(2) by auto
  define f1 where "f1 = (if pkt_packet_id (inject_flits f p) = 0
      then f\<lparr>fab_m_next_pkt_id := fab_m_next_pkt_id f + 1\<rparr> else f)"
  define g where "g = upd_stats (\<lambda>st. st\<lparr>st_packets_injected := st_packets_injected st + 1\<rparr>)
      (set_in ?v ?s q f1)"
  have inj: "fabric_inject (Some p) f = Some (note_hw ?v g)"
    using b q by (simp add: g_def f1_def)
  have g: "fab_m_in g = (fab_m_in f)[?v := (fab_m_in f ! ?v)[?s := q]]" "fab_m_ej g = fab_m_ej f"
    "fab_m_n g = fab_m_n f" "fab_m_cfg g = fab_m_cfg f" "fab_m_credit g = fab_m_credit f"
    "fab_m_route_rr g = fab_m_route_rr f" "fab_m_cpc_rr g = fab_m_cpc_rr f" "fabric_static g"
    using fabric_wf_static [OF wf]
    by (simp_all add: g_def f1_def fabric_static_def num_routes_def set_in_def)
  have upd: "fab_updated ?v ?s q ?d (fab_ej f ?v ?d) f g"
    using g by (simp add: fab_updated_def)
  have sum: "fab_sum w g ?v e = (if e = ?d then w ?p + fab_sum w f ?v e else fab_sum w f ?v e)"
    for w :: "dsm_packet \<Rightarrow> 'm::comm_monoid_add" and e
  proof -
    have "sum_list (map w (insert_before b ?p xs)) = w ?p + sum_list (map w xs)" for xs
      by (induction xs) (auto simp: ac_simps)
    then show ?thesis
      using fab_updated_sum [OF wf v s d upd v, of w e] fab_sum_split [OF s, of w ?v e] qq dq
      by (cases "e = ?d") (auto simp: queue_of_def add.assoc)
  qed
  have "resv g ?v = resv f ?v"
    using sum [of pkt_ejection_reserved_flits] fresh
    by (simp add: fun_eq_iff resv_def inject_packet_fields)
  then have bal: "credit.balanced (fab_m_credit f ! ?v) (resv g ?v)" using len(8) by simp
  have wfg: "fabric_wf g"
    using fab_updated_wf [OF wf v s d upd g(4) _ g(8,6,7) qwf len(6) bal] g(5) by simp
  have "ids (note_hw ?v g) = ids g"
    unfolding ids_def by (rule fab_sum_cong) (simp_all add: note_hw_def Let_def)
  moreover have "ids g ?v ?d = add_mset (pkt_packet_id ?p) (ids f ?v ?d)"
    using sum [of "\<lambda>p. {#pkt_packet_id p#}" ?d] by (simp add: ids_def)
  moreover have "fabric_wf (note_hw ?v g)" using note_hw_frame(1) [OF wfg] by (rule fab_frame_wf)
  moreover have "fab_m_n (note_hw ?v g) = fab_m_n f"
    using note_hw_frame(1) [OF wfg] g(3) by (simp add: fab_frame_def)
  moreover have "voq_m_limit (fab_in (note_hw ?v g) w t) = voq_m_limit (fab_in f w t)"
    if "w < 2" "t < fab_m_n f" for w t
  proof -
    have "fab_m_in (note_hw ?v g) = fab_m_in g" by (simp add: note_hw_def Let_def)
    then show ?thesis
      using g(1) limit len s that by (cases "w = ?v"; cases "t = ?s"; simp)
  qed
  ultimately show ?thesis using inj True by simp
qed

subsection \<open>A new fabric\<close>

lemma fabric_locations_length: "fabric_locations topo gpc ls = Some locs \<Longrightarrow> length locs = length ls"
  by (induction ls arbitrary: locs) (auto simp: bind_eq_Some_conv)

lemma voq_init_fields [simp]: "voq_m_q (voq_init n l) = replicate n []"
  by (simp add: voq_init_def)

lemma dsm_fabric_new_wf:
  assumes "dsm_fabric_new topo gpc cfg0 = Some f"
  shows "fabric_wf f"
proof -
  let ?cfg = "dsm_config_defaults topo cfg0"
  from assms obtain n locs where new: "0 < n" "fabric_locations topo gpc [0..<n] = Some locs"
    "0 < cfg_gx_planes ?cfg * cfg_lanes_per_cpc ?cfg"
    and f: "fab_m_cfg f = ?cfg" "fab_m_n f = n" "fab_m_cpc f = map loc_cpc_id locs"
      "fab_m_slot f = map loc_cpc_slot locs" "fab_m_hrc_acc f = replicate n 0"
      "fab_m_consec_rsp f = replicate n 0" "fab_m_dst_next f = replicate 2 (replicate n 0)"
      "fab_m_last_eligible f = replicate n False"
      "fab_m_in f = [replicate n (voq_init n (cfg_request_vc_flits ?cfg)),
                   replicate n (voq_init n (cfg_response_vc_flits ?cfg))]"
      "fab_m_ej f = replicate 2 (replicate n [])"
      "fab_m_credit f = replicate 2 (credit_init n (cfg_ejection_vc_flits ?cfg))"
      "fab_m_route_rr f = replicate (cfg_cpcs ?cfg * (cfg_gx_planes ?cfg * cfg_lanes_per_cpc ?cfg)) (rr_init n)"
      "fab_m_cpc_rr f = replicate (cfg_cpcs ?cfg) (rr_init (cfg_gx_planes ?cfg * cfg_lanes_per_cpc ?cfg))"
    by (auto simp: dsm_fabric_new_def Let_def bind_eq_Some_conv)
  have pos: "0 < cfg_request_vc_flits ?cfg" "0 < cfg_response_vc_flits ?cfg"
    by (simp_all add: dsm_config_defaults_def Let_def)
  have locs: "length locs = n" using fabric_locations_length [OF new(2)] by simp
  have in_queue: "fab_in f v s = voq_init n (if v = 0 then cfg_request_vc_flits ?cfg
      else cfg_response_vc_flits ?cfg)" if "v < 2" "s < n" for v s
    using that f(9) by (cases v) auto
  have empty: "resv f v d = 0" if "v < 2" "d < n" for v d
    using that f(2,10) in_queue by (simp add: resv_def fab_sum_def queue_of_def)
  have "fabric_static f"
    using new(1,3) f locs by (simp add: fabric_static_def num_routes_def)
  moreover have "fabric_queues f"
    using f in_queue voq_init_wf pos
    by (auto simp: fabric_queues_def less_2_cases_iff)
  moreover have "fabric_credits f"
    using f(2,11) empty
    by (simp add: fabric_credits_def credit.balanced_def credit_init_def credit_remaining_def)
  moreover have "fabric_arbiters f"
    using f(1,2,12,13) new(1,3)
    by (auto simp: fabric_arbiters_def num_routes_def rr_init_def rr_wf_def)
  ultimately show ?thesis by (simp add: fabric_wf_def)
qed

lemma dsm_fabric_new_limits:
  assumes "dsm_fabric_new topo gpc cfg0 = Some f"
  shows "fab_m_cfg f = dsm_config_defaults topo cfg0"
    and "v < 2 \<Longrightarrow> s < fab_m_n f \<Longrightarrow> voq_m_limit (fab_in f v s) =
      (if v = 0 then cfg_request_vc_flits (fab_m_cfg f) else cfg_response_vc_flits (fab_m_cfg f))"
  using assms by (auto simp: dsm_fabric_new_def Let_def bind_eq_Some_conv voq_init_def less_2_cases_iff)

subsection \<open>Runs of the fabric\<close>

datatype fabric_op = Fab_Inject dsm_packet | Fab_Cycle u64 | Fab_Pop nat dsm_vc

fun fabric_step :: "dsm_fabric \<Rightarrow> fabric_op \<Rightarrow> dsm_fabric option" where
  "fabric_step f (Fab_Inject p) = fabric_inject (Some p) f"
| "fabric_step f (Fab_Cycle cycle) = fabric_cycle cycle f"
| "fabric_step f (Fab_Pop dst vc) = map_option snd (fabric_pop f dst vc)"

text \<open>The caller injects fresh packets that carry at least one flit.\<close>

fun fabric_allowed :: "dsm_fabric \<Rightarrow> fabric_op \<Rightarrow> bool" where
  "fabric_allowed f (Fab_Inject p) \<longleftrightarrow>
     0 < remaining_flits (inject_flits f p) \<and> pkt_ejection_reserved_flits p = 0"
| "fabric_allowed f _ \<longleftrightarrow> True"

definition fabric_guarded_step :: "dsm_fabric \<Rightarrow> fabric_op \<Rightarrow> dsm_fabric option" where
  "fabric_guarded_step f x = (if fabric_allowed f x then fabric_step f x else None)"

lemma fabric_step_ok:
  assumes "fabric_wf f" "fabric_allowed f x"
  shows "\<exists>g. fabric_step f x = Some g \<and> fabric_wf g \<and> fab_m_n g = fab_m_n f \<and>
    (\<forall>v < 2. \<forall>s < fab_m_n f. voq_m_limit (fab_in g v s) = voq_m_limit (fab_in f v s))"
proof (cases x)
  case (Fab_Inject p)
  with assms fabric_inject_ok [of f p] show ?thesis by auto
next
  case (Fab_Cycle cycle)
  with assms fabric_cycle_frame [of f cycle] show ?thesis by (auto simp: fab_frame_def)
next
  case (Fab_Pop dst vc)
  with assms fabric_pop_ok [of f dst vc] show ?thesis by auto
qed

text \<open>The invariant of a run, with the sizes and limits the constructor chose.\<close>

definition fabric_inv :: "nat \<Rightarrow> nat \<Rightarrow> nat \<Rightarrow> dsm_fabric \<Rightarrow> bool" where
  "fabric_inv n lq lr f \<longleftrightarrow> fabric_wf f \<and> fab_m_n f = n \<and>
     (\<forall>v < 2. \<forall>s < n. voq_m_limit (fab_in f v s) = (if v = 0 then lq else lr))"

lemma dsm_fabric_new_inv:
  assumes "dsm_fabric_new topo gpc cfg0 = Some f"
  shows "fabric_inv (fab_m_n f) (cfg_request_vc_flits (fab_m_cfg f)) (cfg_response_vc_flits (fab_m_cfg f)) f"
  using dsm_fabric_new_wf [OF assms] dsm_fabric_new_limits(2) [OF assms] by (simp add: fabric_inv_def)

lemma fabric_inv_step:
  assumes "fabric_inv n lq lr f" "fabric_allowed f x"
  shows "\<exists>g. fabric_step f x = Some g \<and> fabric_inv n lq lr g"
  using fabric_step_ok [OF _ assms(2)] assms(1) by (fastforce simp: fabric_inv_def)

interpretation fabric_run: step_safe fabric_guarded_step "fabric_inv n lq lr" fabric_allowed for n lq lr
proof (unfold_locales, goal_cases)
  case (1 s x t)
  then show ?case using fabric_inv_step [of n lq lr s x] by (auto simp: fabric_guarded_step_def split: if_splits)
next
  case (2 s x)
  then show ?case using fabric_inv_step [of n lq lr s x] by (auto simp: fabric_guarded_step_def)
qed

text \<open>
  The sizes the constructor computes on 32-bit unsigned numbers, in the range where no product
  and no sum of flits wraps.
\<close>

definition fabric_in_range :: "dsm_config \<Rightarrow> bool" where
  "fabric_in_range cfg \<longleftrightarrow> cfg_request_vc_flits cfg < 2 ^ 31 \<and> cfg_response_vc_flits cfg < 2 ^ 31 \<and>
     cfg_ejection_vc_flits cfg < 2 ^ 31 \<and> cfg_gx_planes cfg * cfg_lanes_per_cpc cfg < 2 ^ 32 \<and>
     cfg_cpcs cfg * (cfg_gx_planes cfg * cfg_lanes_per_cpc cfg) < 2 ^ 32"

text \<open>
  C1. A fabric built from any topology and any configuration whose flit limits are below
  \<open>2^31\<close> and whose route count times CPC count is below \<open>2^32\<close>, driven by any
  sequence of cycles, ejections and injections, where every injected packet carries at least one
  flit once \<open>inject\<close> has filled in its flit counts and holds no ejection credit yet: no
  assertion of the fabric, its queues, its credit pools or its arbiters fails. After the sequence
  the free ejection credits of every virtual channel and destination plus the credits
  reserved by queued and ejected packets are exactly the depth of the ejection buffer, and no
  queue holds more flits than its configured limit, so the 32-bit capacity check of
  \<open>can_push\<close> never wraps and decides as on unbounded numbers. The two conditions on
  packets are needed: a data packet with an empty payload has no flit, and the assertion of
  \<open>grant_flit\<close> fails on it.
\<close>

theorem fabric_never_aborts:
  assumes "dsm_fabric_new topo gpc cfg = Some f0" "fabric_in_range (dsm_config_defaults topo cfg)"
    and "allowed_run fabric_guarded_step fabric_allowed f0 ops"
  shows "\<exists>f. run_ops fabric_guarded_step f0 ops = Some f \<and>
    (\<forall>v < 2. \<forall>d < fab_m_n f0. credit_remaining (fab_m_credit f ! v) d + resv f v d =
       crd_m_depth (fab_m_credit f ! v)) \<and>
    (\<forall>v < 2. \<forall>s < fab_m_n f0. \<forall>d < fab_m_n f0.
       voq_occupancy_dst (fab_in f v s) d \<le> (if v = 0 then cfg_request_vc_flits (fab_m_cfg f0)
         else cfg_response_vc_flits (fab_m_cfg f0)) \<and>
       (\<forall>flits. voq_can_push_32 (fab_in f v s) d flits = voq_can_push (fab_in f v s) d flits))"
proof -
  let ?q = "cfg_request_vc_flits (fab_m_cfg f0)" and ?r = "cfg_response_vc_flits (fab_m_cfg f0)"
  have lim: "?q < 2 ^ 31" "?r < 2 ^ 31"
    using assms(2) dsm_fabric_new_limits [OF assms(1)] by (simp_all add: fabric_in_range_def)
  from fabric_run.run_safe [OF dsm_fabric_new_inv [OF assms(1)] assms(3)]
  obtain f where f: "run_ops fabric_guarded_step f0 ops = Some f" "fabric_wf f" "fab_m_n f = fab_m_n f0"
    and limit: "\<And>v s. v < 2 \<Longrightarrow> s < fab_m_n f0 \<Longrightarrow> voq_m_limit (fab_in f v s) = (if v = 0 then ?q else ?r)"
    by (auto simp: fabric_inv_def)
  have "voq_occupancy_dst (fab_in f v s) d \<le> (if v = 0 then ?q else ?r) \<and>
      voq_can_push_32 (fab_in f v s) d flits = voq_can_push (fab_in f v s) d flits"
    if "v < 2" "s < fab_m_n f0" "d < fab_m_n f0" for v s d flits
  proof -
    note w = fabric_wf_queue [OF f(2) that(1) that(2) [folded f(3)]]
    have d: "d < length (voq_m_q (fab_in f v s))" using w(2) f(3) that(3) by simp
    have l: "voq_m_limit (fab_in f v s) < 2 ^ 31" using limit [OF that(1,2)] lim by (simp split: if_splits)
    show ?thesis
      using voq_wf_occupancy_le [OF w(1) d] voq_can_push_32_eq [OF w(1) l d] limit [OF that(1,2)] by simp
  qed
  with f show ?thesis by (auto simp: fabric_wf_def fabric_credits_def credit.balanced_def)
qed

definition sample_topology :: gpu_topology where
  "sample_topology = the (topo_build_uniform 1 4 1)"

definition sample_fabric :: dsm_fabric where
  "sample_fabric = the (dsm_fabric_new sample_topology 0 dsm_config_init)"

definition sample_dsm_packet :: dsm_packet where
  "sample_dsm_packet = dsm_packet_init
     \<lparr>pkt_network_src_sm_id := 1, pkt_network_dst_sm_id := 2, pkt_payload_bytes := 64\<rparr>"

definition sample_fabric_ops :: "fabric_op list" where
  "sample_fabric_ops = [Fab_Inject sample_dsm_packet, Fab_Cycle 1, Fab_Cycle 2, Fab_Cycle 3,
     Fab_Pop 2 Vc_Request]"

lemma sample_topology_cpcs: "topo_m_cpcs_per_gpc sample_topology = 1"
  unfolding sample_topology_def by code_simp

lemma sample_fabric_new: "dsm_fabric_new sample_topology 0 dsm_config_init = Some sample_fabric"
proof -
  have "dsm_fabric_new sample_topology 0 dsm_config_init \<noteq> None"
    unfolding sample_topology_def by code_simp
  then show ?thesis by (auto simp: sample_fabric_def)
qed

theorem fabric_never_aborts_witness:
  "\<exists>f. run_ops fabric_guarded_step sample_fabric sample_fabric_ops = Some f \<and>
    (\<forall>v < 2. \<forall>d < fab_m_n sample_fabric. credit_remaining (fab_m_credit f ! v) d + resv f v d =
       crd_m_depth (fab_m_credit f ! v)) \<and>
    (\<forall>v < 2. \<forall>s < fab_m_n sample_fabric. \<forall>d < fab_m_n sample_fabric.
       voq_occupancy_dst (fab_in f v s) d \<le> (if v = 0 then cfg_request_vc_flits (fab_m_cfg sample_fabric)
         else cfg_response_vc_flits (fab_m_cfg sample_fabric)) \<and>
       (\<forall>flits. voq_can_push_32 (fab_in f v s) d flits = voq_can_push (fab_in f v s) d flits))"
proof (rule fabric_never_aborts [OF sample_fabric_new])
  show "fabric_in_range (dsm_config_defaults sample_topology dsm_config_init)"
    using sample_topology_cpcs
    by (simp add: fabric_in_range_def dsm_config_defaults_def dsm_config_init_def Let_def)
  show "allowed_run fabric_guarded_step fabric_allowed sample_fabric sample_fabric_ops"
    by code_simp
qed

text \<open>
  C12. One cycle of the fabric runs to its end, loses and duplicates no packet (the packet
  ids queued or waiting for ejection are the same, per virtual channel and destination) and
  grants at most \<open>lanes_per_cpc\<close> times the number of CPCs.
\<close>

theorem fabric_cycle_conserves:
  assumes "fabric_wf f"
  shows "\<exists>g. fabric_cycle cycle f = Some g \<and>
    (\<forall>v < 2. \<forall>d < fab_m_n f. ids g v d = ids f v d) \<and>
    st_flits_granted (fab_m_stats g) \<le>
      st_flits_granted (fab_m_stats f) + cfg_cpcs (fab_m_cfg f) * cfg_lanes_per_cpc (fab_m_cfg f)"
  using fabric_cycle_frame [OF assms, of cycle] by (auto simp: fab_frame_def)

definition sample_loaded :: dsm_fabric where
  "sample_loaded = the (fabric_inject (Some sample_dsm_packet) sample_fabric)"

theorem fabric_cycle_conserves_witness:
  "\<exists>g. fabric_cycle 3 sample_loaded = Some g \<and>
    (\<forall>v < 2. \<forall>d < fab_m_n sample_loaded. ids g v d = ids sample_loaded v d) \<and>
    st_flits_granted (fab_m_stats g) \<le>
      st_flits_granted (fab_m_stats sample_loaded) +
      cfg_cpcs (fab_m_cfg sample_loaded) * cfg_lanes_per_cpc (fab_m_cfg sample_loaded)"
proof (rule fabric_cycle_conserves)
  have "0 < remaining_flits (inject_flits sample_fabric sample_dsm_packet)"
    "pkt_ejection_reserved_flits sample_dsm_packet = 0" by code_simp+
  from fabric_inject_ok [OF dsm_fabric_new_wf [OF sample_fabric_new] this]
  show "fabric_wf sample_loaded" by (auto simp: sample_loaded_def)
qed

text \<open>
  Ejection takes the oldest visible packet of a destination, and returning its credits
  never overflows the pool.
\<close>

theorem fabric_pop_takes_oldest:
  assumes "fabric_wf f"
  shows "\<exists>g. fabric_pop f dst vc = Some (fabric_top f dst vc, g) \<and> fabric_wf g \<and>
    (case fabric_top f dst vc of None \<Rightarrow> g = f
     | Some p \<Rightarrow> fab_ej f (vci vc) dst = p # fab_ej g (vci vc) dst \<and>
         ids f (vci vc) dst = add_mset (pkt_packet_id p) (ids g (vci vc) dst))"
  using fabric_pop_ok [OF assms, of dst vc] by (auto split: option.splits)

theorem fabric_pop_takes_oldest_witness:
  "\<exists>g. fabric_pop sample_fabric 2 Vc_Request = Some (fabric_top sample_fabric 2 Vc_Request, g) \<and>
    fabric_wf g \<and>
    (case fabric_top sample_fabric 2 Vc_Request of None \<Rightarrow> g = sample_fabric
     | Some p \<Rightarrow> fab_ej sample_fabric (vci Vc_Request) 2 = p # fab_ej g (vci Vc_Request) 2 \<and>
         ids sample_fabric (vci Vc_Request) 2 =
           add_mset (pkt_packet_id p) (ids g (vci Vc_Request) 2))"
  by (rule fabric_pop_takes_oldest) (rule dsm_fabric_new_wf [OF sample_fabric_new])

end
