(* ===== verification/Dsm_Shaping.thy ===== *)
theory Dsm_Shaping
  imports Dsm_Fabric
begin

section \<open>Shaper and routes of the DSM fabric\<close>

text \<open>
  What the shaper of \<^verbatim>\<open>dsm_fabric.cc\<close> grants each SM over time, and how the route hash
  spreads the flits of a packet over planes and lanes.
\<close>

subsection \<open>The shaper\<close>

lemma unat_plus_small: "unat (c :: u64) + k < 2 ^ 64 \<Longrightarrow> unat (c + of_nat k) = unat c + k"
  by (simp add: unat_word_ariths unat_of_nat)

lemma mod_shift_inj:
  assumes "(a + x) mod n = (a + y) mod n" "x < n" "y < (n :: nat)"
  shows "x = y"
  using assms
proof (induction x y rule: linorder_wlog)
  case (le x y)
  then have "n dvd (a + y) - (a + x)"
    by (metis add_le_cancel_left mod_eq_dvd_iff_nat)
  then have "n dvd y - x" by simp
  with le show ?case by (auto dest: dvd_imp_le)
next
  case (sym x y)
  from sym(1) [OF sym(2) [symmetric] sym(4) sym(3)] show ?case by simp
qed

lemma card_residue:
  assumes "r < (n :: nat)"
  shows "card {k. k < n \<and> (a + k) mod n = r} = 1"
proof -
  have inj: "inj_on (\<lambda>k. (a + k) mod n) {..<n}"
    by (rule inj_onI) (auto intro: mod_shift_inj)
  have "(\<lambda>k. (a + k) mod n) ` {..<n} \<subseteq> {..<n}" using assms by auto
  then have "(\<lambda>k. (a + k) mod n) ` {..<n} = {..<n}" using inj by (simp add: endo_inj_surj)
  then have "r \<in> (\<lambda>k. (a + k) mod n) ` {..<n}" using assms by simp
  then obtain k where k: "k < n" "(a + k) mod n = r" by auto
  have "{k. k < n \<and> (a + k) mod n = r} = {k}"
    using k inj by (auto simp: inj_on_def)
  then show ?thesis by simp
qed

lemma k_phase_values:
  assumes "s < 3" "slot < 6"
  shows "odd (k_phase ! s div 2 ^ slot) \<longleftrightarrow> slot div 2 \<noteq> (s + 2) mod 3"
proof -
  have "s = 0 \<or> s = 1 \<or> s = 2" using assms(1) by arith
  moreover have "slot = 0 \<or> slot = 1 \<or> slot = 2 \<or> slot = 3 \<or> slot = 4 \<or> slot = 5"
    using assms(2) by arith
  ultimately show ?thesis by (elim disjE) (simp_all add: k_phase_def)
qed

text \<open>
  The \<open>skip_mod\<close> shaper skips each SM exactly once in any window of \<open>period\<close>
  consecutive cycles.
\<close>

theorem skip_mod_share:
  assumes "fab_m_shaper f = SHAPER_SKIP_MOD" "0 < cfg_shaper_period (fab_m_cfg f)"
    and "unat cycle + cfg_shaper_period (fab_m_cfg f) \<le> 2 ^ 64"
  shows "card {k. k < cfg_shaper_period (fab_m_cfg f) \<and> shaper_allows f sm (cycle + of_nat k)} =
    cfg_shaper_period (fab_m_cfg f) - 1"
proof -
  let ?n = "cfg_shaper_period (fab_m_cfg f)"
  define r where "r = (if fab_m_index_is_slot f then fab_m_slot f ! sm else sm) mod ?n"
  have "shaper_allows f sm (cycle + of_nat k) \<longleftrightarrow> (unat cycle + k) mod ?n \<noteq> r" if "k < ?n" for k
    using assms that unat_plus_small [of cycle k] by (simp add: shaper_allows_def Let_def r_def)
  then have eq: "{k. k < ?n \<and> shaper_allows f sm (cycle + of_nat k)} =
      {..<?n} - {k. k < ?n \<and> (unat cycle + k) mod ?n = r}" by auto
  have "card {k. k < ?n \<and> (unat cycle + k) mod ?n = r} = 1"
    using assms(2) by (intro card_residue) (simp add: r_def)
  then show ?thesis unfolding eq by (subst card_Diff_subset) auto
qed

text \<open>
  The \<open>fixed_tdm\<close> shaper lets each of the six slots of a CPC inject in exactly two of
  any three consecutive cycles.
\<close>

theorem fixed_tdm_share:
  assumes "fab_m_shaper f = SHAPER_FIXED_TDM" "fab_m_slot f ! sm < 6" "unat cycle + 3 \<le> 2 ^ 64"
  shows "card {k. k < 3 \<and> shaper_allows f sm (cycle + of_nat k)} = 2"
proof -
  let ?c = "unat cycle + 2" and ?slot = "fab_m_slot f ! sm"
  have "shaper_allows f sm (cycle + of_nat k) \<longleftrightarrow> (?c + k) mod 3 \<noteq> ?slot div 2" if "k < 3" for k
  proof -
    have "unat (cycle + of_nat k) = unat cycle + k" using that assms(3) by (intro unat_plus_small) simp
    then have "shaper_allows f sm (cycle + of_nat k) \<longleftrightarrow>
        ?slot div 2 \<noteq> ((unat cycle + k) mod 3 + 2) mod 3"
      using assms(1,2) k_phase_values [of "(unat cycle + k) mod 3" ?slot]
      by (simp add: shaper_allows_def Let_def)
    moreover have "((unat cycle + k) mod 3 + 2) mod 3 = (unat cycle + k + 2) mod 3"
      by (rule mod_add_left_eq)
    moreover have "unat cycle + k + 2 = ?c + k" by simp
    ultimately show ?thesis by auto
  qed
  then have eq: "{k. k < 3 \<and> shaper_allows f sm (cycle + of_nat k)} =
      {..<3} - {k. k < 3 \<and> (?c + k) mod 3 = ?slot div 2}" by auto
  have "card {k. k < 3 \<and> (?c + k) mod 3 = ?slot div 2} = 1"
    using assms(2) by (intro card_residue) simp
  then show ?thesis unfolding eq by (subst card_Diff_subset) auto
qed

text \<open>Two fabrics of one GPC with six slots, one per shaper.\<close>

definition sample_shaped :: "string \<Rightarrow> dsm_fabric" where
  "sample_shaped shaper =
     the (dsm_fabric_new (the (topo_build_uniform 1 6 1)) 0 (dsm_config_init\<lparr>cfg_shaper := Some shaper\<rparr>))"

theorem skip_mod_share_witness:
  "card {k. k < 3 \<and> shaper_allows (sample_shaped ''skip_mod'') 4 (100 + of_nat k)} = 2"
proof -
  have "fab_m_shaper (sample_shaped ''skip_mod'') = SHAPER_SKIP_MOD"
    "cfg_shaper_period (fab_m_cfg (sample_shaped ''skip_mod'')) = 3"
    by code_simp+
  then show ?thesis using skip_mod_share [of "sample_shaped ''skip_mod''" 100 4] by simp
qed

theorem fixed_tdm_share_witness:
  "card {k. k < 3 \<and> shaper_allows (sample_shaped ''fixed_tdm'') 4 (100 + of_nat k)} = 2"
proof -
  have "fab_m_shaper (sample_shaped ''fixed_tdm'') = SHAPER_FIXED_TDM"
    "fab_m_slot (sample_shaped ''fixed_tdm'') ! 4 < 6"
    by code_simp+
  then show ?thesis using fixed_tdm_share [of "sample_shaped ''fixed_tdm''" 4 100] by simp
qed

subsection \<open>The route hash\<close>

text \<open>The index of the hash, before the reduction modulo the number of routes.\<close>

definition hash_index :: "dsm_fabric \<Rightarrow> u64 \<Rightarrow> nat \<Rightarrow> nat \<Rightarrow> nat \<Rightarrow> nat" where
  "hash_index f addr src dst uid =
     unat addr div cfg_flit_payload_bytes (fab_m_cfg f) + src * 2 + dst * 3 + uid div 16 +
     cfg_route_seed (fab_m_cfg f)"

lemma hash_route_index:
  assumes "0 < cfg_gx_planes (fab_m_cfg f)" "0 < cfg_lanes_per_cpc (fab_m_cfg f)"
    and "0 < cfg_flit_payload_bytes (fab_m_cfg f)" "cfg_flit_payload_bytes (fab_m_cfg f) < 2 ^ 32"
    and "num_routes f < 2 ^ 32" "hash_index f addr src dst uid < 2 ^ 64"
  shows "hash_route f addr src dst uid =
    \<lparr>route_gx_plane = hash_index f addr src dst uid mod num_routes f div cfg_lanes_per_cpc (fab_m_cfg f),
     route_lane = hash_index f addr src dst uid mod num_routes f mod cfg_lanes_per_cpc (fab_m_cfg f)\<rparr>"
proof -
  let ?fb = "cfg_flit_payload_bytes (fab_m_cfg f)" and ?i = "hash_index f addr src dst uid"
  have "unat (of_nat ?fb :: u64) = ?fb"
    using assms(4) by (simp add: unat_of_nat)
  then have "addr div of_nat ?fb = of_nat (unat addr div ?fb)" by (simp only: word_arith_nat_div)
  then have "addr div of_nat ?fb + of_nat src * 2 + of_nat dst * 3 + of_nat (uid div 16) +
      of_nat (cfg_route_seed (fab_m_cfg f)) = (of_nat ?i :: u64)"
    by (simp add: hash_index_def)
  moreover have "unat ((of_nat ?i :: u64) mod of_nat (num_routes f)) = ?i mod num_routes f"
    using assms(5,6) by (simp add: unat_mod_distrib unat_of_nat)
  moreover have "num_routes f \<noteq> 0" using assms(1,2) by (simp add: num_routes_def)
  ultimately show ?thesis using assms(2) by (simp add: hash_route_def Let_def)
qed

lemma hash_index_step:
  assumes "0 < cfg_flit_payload_bytes (fab_m_cfg f)"
    and "unat addr + k * cfg_flit_payload_bytes (fab_m_cfg f) < 2 ^ 64"
  shows "hash_index f (addr + of_nat k * of_nat (cfg_flit_payload_bytes (fab_m_cfg f))) src dst uid =
    hash_index f addr src dst uid + k"
proof -
  have "unat (addr + of_nat (k * cfg_flit_payload_bytes (fab_m_cfg f))) =
      unat addr + k * cfg_flit_payload_bytes (fab_m_cfg f)"
    using assms(2) by (rule unat_plus_small)
  then show ?thesis using assms(1) by (simp add: hash_index_def)
qed

text \<open>
  The flits of a packet, addressed \<open>flit_payload_bytes\<close> apart as \<open>make_request\<close> does,
  are spread over all routes: any \<open>gx_planes * lanes_per_cpc\<close> consecutive flits take
  pairwise different routes, each with a plane and a lane in range.
\<close>

theorem flits_spread_over_routes:
  assumes "0 < cfg_gx_planes (fab_m_cfg f)" "0 < cfg_lanes_per_cpc (fab_m_cfg f)"
    and "0 < cfg_flit_payload_bytes (fab_m_cfg f)" "cfg_flit_payload_bytes (fab_m_cfg f) < 2 ^ 32"
    and "num_routes f < 2 ^ 32" "hash_index f addr src dst uid + num_routes f < 2 ^ 64"
    and "unat addr + num_routes f * cfg_flit_payload_bytes (fab_m_cfg f) < 2 ^ 64"
  shows "inj_on (\<lambda>k. hash_route f (addr + of_nat k * of_nat (cfg_flit_payload_bytes (fab_m_cfg f)))
      src dst uid) {..<num_routes f} \<and>
    (\<forall>k < num_routes f.
      route_gx_plane (hash_route f (addr + of_nat k * of_nat (cfg_flit_payload_bytes (fab_m_cfg f)))
        src dst uid) < cfg_gx_planes (fab_m_cfg f) \<and>
      route_lane (hash_route f (addr + of_nat k * of_nat (cfg_flit_payload_bytes (fab_m_cfg f)))
        src dst uid) < cfg_lanes_per_cpc (fab_m_cfg f))"
proof -
  let ?fb = "cfg_flit_payload_bytes (fab_m_cfg f)" and ?lanes = "cfg_lanes_per_cpc (fab_m_cfg f)"
  let ?i = "hash_index f addr src dst uid" and ?n = "num_routes f"
  have route: "hash_route f (addr + of_nat k * of_nat ?fb) src dst uid =
      \<lparr>route_gx_plane = (?i + k) mod ?n div ?lanes, route_lane = (?i + k) mod ?n mod ?lanes\<rparr>"
    if "k < ?n" for k
  proof -
    have "k * ?fb \<le> ?n * ?fb" using that by simp
    then have "unat addr + k * ?fb < 2 ^ 64" using assms(7) by linarith
    from hash_index_step [OF assms(3) this, of src dst uid] that assms(6)
      hash_route_index [OF assms(1-5), of "addr + of_nat k * of_nat ?fb" src dst uid]
    show ?thesis by simp
  qed
  have n: "0 < ?n" using assms(1,2) by (simp add: num_routes_def)
  have "inj_on (\<lambda>k. hash_route f (addr + of_nat k * of_nat ?fb) src dst uid) {..<?n}"
  proof (rule inj_onI)
    fix x y
    assume xy: "x \<in> {..<?n}" "y \<in> {..<?n}" "hash_route f (addr + of_nat x * of_nat ?fb) src dst uid =
      hash_route f (addr + of_nat y * of_nat ?fb) src dst uid"
    then have "(?i + x) mod ?n div ?lanes = (?i + y) mod ?n div ?lanes"
      "(?i + x) mod ?n mod ?lanes = (?i + y) mod ?n mod ?lanes"
      by (simp_all add: route)
    then have "(?i + x) mod ?n = (?i + y) mod ?n" by (metis mult_div_mod_eq)
    with xy show "x = y" by (auto intro: mod_shift_inj)
  qed
  moreover have "(?i + k) mod ?n div ?lanes < cfg_gx_planes (fab_m_cfg f)" for k
    using n by (simp add: num_routes_def less_mult_imp_div_less)
  ultimately show ?thesis using assms(2) by (simp add: route)
qed

theorem flits_spread_over_routes_witness:
  "inj_on (\<lambda>k. hash_route (sample_shaped ''skip_mod'') (4096 + of_nat k * 32) 1 2 7) {..<8}"
proof -
  have cfg: "fab_m_cfg (sample_shaped ''skip_mod'') =
      dsm_config_init\<lparr>cfg_cpcs := 1, cfg_shaper := Some ''skip_mod''\<rparr>"
    by code_simp
  show ?thesis
    using flits_spread_over_routes [of "sample_shaped ''skip_mod''" 4096 1 2 7]
    by (simp add: cfg dsm_config_init_def num_routes_def hash_index_def)
qed

end
