(* ===== verification/Bulk_Group.thy ===== *)
theory Bulk_Group
  imports Prelude "HOL-Library.Finite_Map"
begin

section \<open>Bulk groups of TMA stores\<close>

text \<open>
  Models \<^verbatim>\<open>src/gpgpu-sim/flash/bulk_group.h\<close> and \<^verbatim>\<open>bulk_group.cc\<close>: the bookkeeping
  of one warp (\<open>warp_bulk_info_t\<close>) and the manager that keeps one such record per CTA and
  warp. The ordered maps are finite maps, the transaction sets finite sets; group numbers
  are \<open>nat\<close>, for fewer than \<open>2^32\<close> groups per warp.
\<close>

subsection \<open>One warp\<close>

record bulk_group =
  bg_group_id :: nat
  bg_contained_txs :: "nat fset"

record warp_bulk_info =
  next_group_id :: nat
  tx_to_group :: "(nat, nat) fmap"
  pending_groups :: "(nat, bulk_group) fmap"
  pending_txs :: "nat fset"
  latest_completed_group_id :: nat
  waiting_group_id :: nat
  wb_is_waiting :: bool

definition warp_bulk_info_init :: warp_bulk_info where
  "warp_bulk_info_init =
     \<lparr>next_group_id = 1, tx_to_group = fmempty, pending_groups = fmempty, pending_txs = {||},
      latest_completed_group_id = 0, waiting_group_id = 0, wb_is_waiting = False\<rparr>"

definition info_add_tx :: "nat \<Rightarrow> warp_bulk_info \<Rightarrow> warp_bulk_info" where
  "info_add_tx tx w = w\<lparr>pending_txs := finsert tx (pending_txs w)\<rparr>"

text \<open>\<open>tx_to_group[tx] = g\<close> for every \<open>tx\<close> of the set.\<close>

definition assign_group :: "nat \<Rightarrow> nat fset \<Rightarrow> (nat, nat) fmap \<Rightarrow> (nat, nat) fmap" where
  "assign_group g txs m = fold (\<lambda>tx. fmupd tx g) (sorted_list_of_fset txs) m"

definition info_commit_group :: "warp_bulk_info \<Rightarrow> warp_bulk_info option" where
  "info_commit_group w = do {
     cassert (fmlookup (pending_groups w) (next_group_id w) = None);
     let w1 = (if pending_txs w \<noteq> {||}
               then w\<lparr>tx_to_group := assign_group (next_group_id w) (pending_txs w) (tx_to_group w),
                      pending_groups := fmupd (next_group_id w)
                        \<lparr>bg_group_id = next_group_id w, bg_contained_txs = pending_txs w\<rparr>
                        (pending_groups w),
                      pending_txs := {||}\<rparr>
               else if next_group_id w = latest_completed_group_id w + 1
               then w\<lparr>latest_completed_group_id := latest_completed_group_id w + 1\<rparr>
               else w);
     Some (w1\<lparr>next_group_id := next_group_id w1 + 1\<rparr>)
   }"

text \<open>The loop that skips groups which completed before an older one.\<close>

function skip_completed :: "nat \<Rightarrow> (nat, bulk_group) fmap \<Rightarrow> nat \<Rightarrow> nat" where
  "skip_completed next groups latest =
     (if latest + 1 < next \<and> fmlookup groups (latest + 1) = None
      then skip_completed next groups (latest + 1) else latest)"
  by pat_completeness auto
termination by (relation "measure (\<lambda>(next, _, latest). next - latest)") auto

declare skip_completed.simps [simp del]

definition info_complete_tx :: "nat \<Rightarrow> warp_bulk_info \<Rightarrow> (bool \<times> warp_bulk_info) option" where
  "info_complete_tx tx w =
     (case fmlookup (tx_to_group w) tx of
        None \<Rightarrow> (let w' = w\<lparr>pending_txs := pending_txs w |-| {|tx|}\<rparr> in Some (\<not> wb_is_waiting w', w'))
      | Some group_id \<Rightarrow> do {
          let w1 = w\<lparr>tx_to_group := fmdrop tx (tx_to_group w)\<rparr>;
          g \<leftarrow> fmlookup (pending_groups w1) group_id;
          let txs = bg_contained_txs g |-| {|tx|};
          let w2 = (if txs \<noteq> {||}
             then w1\<lparr>pending_groups := fmupd group_id (g\<lparr>bg_contained_txs := txs\<rparr>) (pending_groups w1)\<rparr>
             else let w3 = w1\<lparr>pending_groups := fmdrop group_id (pending_groups w1)\<rparr>
                  in if group_id = latest_completed_group_id w3 + 1
                     then let l = skip_completed (next_group_id w3) (pending_groups w3)
                                    (latest_completed_group_id w3 + 1);
                              w4 = w3\<lparr>latest_completed_group_id := l\<rparr>
                          in if wb_is_waiting w4 \<and>
                                next_group_id w4 - waiting_group_id w4 \<ge>
                                next_group_id w4 - latest_completed_group_id w4
                             then w4\<lparr>wb_is_waiting := False\<rparr> else w4
                     else w3);
          Some (\<not> wb_is_waiting w2, w2)
        })"

definition info_wait_group :: "nat \<Rightarrow> warp_bulk_info \<Rightarrow> warp_bulk_info option" where
  "info_wait_group group_num w = do {
     cassert (\<not> wb_is_waiting w);
     let incomplete_count = next_group_id w - latest_completed_group_id w - 1;
     Some (if group_num < incomplete_count
           then w\<lparr>waiting_group_id := next_group_id w - group_num - 1, wb_is_waiting := True\<rparr>
           else w)
   }"

definition info_pending_count :: "warp_bulk_info \<Rightarrow> nat" where
  "info_pending_count w = fcard (fmdom (pending_groups w))"

subsection \<open>The manager\<close>

type_synonym bulk_manager = "(nat \<times> nat, warp_bulk_info) fmap"

definition mgr_info :: "bulk_manager \<Rightarrow> nat \<times> nat \<Rightarrow> warp_bulk_info" where
  "mgr_info m k = (case fmlookup m k of None \<Rightarrow> warp_bulk_info_init | Some w \<Rightarrow> w)"

definition mgr_add_tx :: "nat \<Rightarrow> nat \<Rightarrow> nat \<Rightarrow> bulk_manager \<Rightarrow> bulk_manager" where
  "mgr_add_tx cta warp tx m = fmupd (cta, warp) (info_add_tx tx (mgr_info m (cta, warp))) m"

definition mgr_commit_bulk_group :: "nat \<Rightarrow> nat \<Rightarrow> bulk_manager \<Rightarrow> bulk_manager option" where
  "mgr_commit_bulk_group cta warp m = do {
     w \<leftarrow> info_commit_group (mgr_info m (cta, warp));
     Some (fmupd (cta, warp) w m)
   }"

definition mgr_wait_bulk_group :: "nat \<Rightarrow> nat \<Rightarrow> nat \<Rightarrow> bulk_manager \<Rightarrow> (bool \<times> bulk_manager) option" where
  "mgr_wait_bulk_group cta warp n m =
     (case fmlookup m (cta, warp) of
        None \<Rightarrow> Some (True, m)
      | Some w \<Rightarrow> do {
          w' \<leftarrow> info_wait_group n w;
          Some (\<not> wb_is_waiting w', fmupd (cta, warp) w' m)
        })"

definition mgr_complete_tx :: "nat \<Rightarrow> nat \<Rightarrow> nat \<Rightarrow> bulk_manager \<Rightarrow> (bool \<times> bulk_manager) option" where
  "mgr_complete_tx cta warp tx m = do {
     w \<leftarrow> fmlookup m (cta, warp);
     let was_waiting = wb_is_waiting w;
     (_, w') \<leftarrow> info_complete_tx tx w;
     Some (was_waiting \<and> \<not> wb_is_waiting w', fmupd (cta, warp) w' m)
   }"

definition mgr_cleanup_cta :: "nat \<Rightarrow> bulk_manager \<Rightarrow> bulk_manager" where
  "mgr_cleanup_cta cta m = fmfilter (\<lambda>k. fst k \<noteq> cta) m"

definition mgr_is_waiting :: "nat \<Rightarrow> nat \<Rightarrow> bulk_manager \<Rightarrow> bool" where
  "mgr_is_waiting cta warp m =
     (case fmlookup m (cta, warp) of None \<Rightarrow> False | Some w \<Rightarrow> wb_is_waiting w)"

definition mgr_get_pending_group_count :: "nat \<Rightarrow> nat \<Rightarrow> bulk_manager \<Rightarrow> nat" where
  "mgr_get_pending_group_count cta warp m =
     (case fmlookup m (cta, warp) of None \<Rightarrow> 0 | Some w \<Rightarrow> info_pending_count w)"

definition mgr_is_tx_committed :: "nat \<Rightarrow> nat \<Rightarrow> nat \<Rightarrow> bulk_manager \<Rightarrow> bool" where
  "mgr_is_tx_committed cta warp tx m =
     (case fmlookup m (cta, warp) of None \<Rightarrow> False | Some w \<Rightarrow> fmlookup (tx_to_group w) tx \<noteq> None)"

definition idealized_bulk_write_ready_cycle :: "u64 \<Rightarrow> u64" where
  "idealized_bulk_write_ready_cycle commit_cycle = commit_cycle + 1"

definition idealized_bulk_write_can_finalize :: "bool \<Rightarrow> u64 \<Rightarrow> u64 \<Rightarrow> bool" where
  "idealized_bulk_write_can_finalize committed now commit_cycle =
     (if \<not> committed then False else now \<ge> idealized_bulk_write_ready_cycle commit_cycle)"

subsection \<open>The invariant of a warp\<close>

text \<open>
  Every committed group that is not complete is in \<open>pending_groups\<close>, above
  \<open>latest_completed_group_id\<close>; the one just above it, when there is one, is incomplete;
  transactions and groups refer to each other.
\<close>

definition info_wf :: "warp_bulk_info \<Rightarrow> bool" where
  "info_wf w \<longleftrightarrow>
     latest_completed_group_id w < next_group_id w \<and>
     (\<forall>g. fmlookup (pending_groups w) g \<noteq> None \<longrightarrow>
        latest_completed_group_id w < g \<and> g < next_group_id w) \<and>
     (latest_completed_group_id w + 1 < next_group_id w \<longrightarrow>
        fmlookup (pending_groups w) (latest_completed_group_id w + 1) \<noteq> None) \<and>
     (\<forall>tx g. fmlookup (tx_to_group w) tx = Some g \<longleftrightarrow>
        (\<exists>b. fmlookup (pending_groups w) g = Some b \<and> tx |\<in>| bg_contained_txs b)) \<and>
     (\<forall>g b. fmlookup (pending_groups w) g = Some b \<longrightarrow> bg_contained_txs b \<noteq> {||}) \<and>
     (\<forall>tx. tx |\<in>| pending_txs w \<longrightarrow> fmlookup (tx_to_group w) tx = None) \<and>
     (wb_is_waiting w \<longrightarrow>
        latest_completed_group_id w < waiting_group_id w \<and> waiting_group_id w < next_group_id w)"

lemma info_init_wf: "info_wf warp_bulk_info_init"
  by (simp add: info_wf_def warp_bulk_info_init_def)

lemma info_add_wf:
  "info_wf w \<Longrightarrow> fmlookup (tx_to_group w) tx = None \<Longrightarrow> info_wf (info_add_tx tx w)"
  by (auto simp: info_wf_def info_add_tx_def)

lemma lookup_assign_group:
  "fmlookup (assign_group g txs m) tx = (if tx |\<in>| txs then Some g else fmlookup m tx)"
proof -
  have "fmlookup (fold (\<lambda>tx. fmupd tx g) xs m) tx = (if tx \<in> set xs then Some g else fmlookup m tx)"
    for xs
    by (induction xs arbitrary: m) auto
  then show ?thesis by (simp add: assign_group_def)
qed

lemma info_wait_wf:
  assumes "info_wf w" "\<not> wb_is_waiting w"
  shows "\<exists>w'. info_wait_group n w = Some w' \<and> info_wf w' \<and> pending_groups w' = pending_groups w \<and>
    next_group_id w' = next_group_id w \<and> tx_to_group w' = tx_to_group w"
  using assms by (auto simp: info_wait_group_def info_wf_def Let_def)

lemma info_wf_tx:
  "info_wf w \<Longrightarrow> fmlookup (tx_to_group w) tx = Some g \<longleftrightarrow>
     (\<exists>b. fmlookup (pending_groups w) g = Some b \<and> tx |\<in>| bg_contained_txs b)"
  by (simp add: info_wf_def)

lemma info_commit_wf:
  assumes "info_wf w"
  shows "\<exists>w'. info_commit_group w = Some w' \<and> info_wf w' \<and> next_group_id w' = next_group_id w + 1"
proof -
  have fresh: "fmlookup (pending_groups w) (next_group_id w) = None"
    using assms unfolding info_wf_def by blast
  show ?thesis
  proof (cases "pending_txs w = {||}")
    case True
    with assms fresh show ?thesis
      by (auto simp: info_commit_group_def info_wf_def less_Suc_eq)
  next
    case False
    let ?g = "next_group_id w"
    have disj: "fmlookup (pending_groups w) g = Some b \<Longrightarrow> tx |\<notin>| bg_contained_txs b"
      if "tx |\<in>| pending_txs w" for tx g b
      using assms that unfolding info_wf_def by (metis option.distinct(1))
    note wf = assms [unfolded info_wf_def]
    let ?w = "w\<lparr>tx_to_group := assign_group ?g (pending_txs w) (tx_to_group w),
        pending_groups := fmupd ?g \<lparr>bg_group_id = ?g, bg_contained_txs = pending_txs w\<rparr> (pending_groups w),
        pending_txs := {||}, next_group_id := Suc ?g\<rparr>"
    have "fmlookup (tx_to_group ?w) tx = Some g \<longleftrightarrow>
        (\<exists>b. fmlookup (pending_groups ?w) g = Some b \<and> tx |\<in>| bg_contained_txs b)" for tx g
    proof (cases "tx |\<in>| pending_txs w")
      case True
      with disj [OF this, of g] show ?thesis
        by (cases "g = ?g") (fastforce simp: lookup_assign_group)+
    next
      case False
      with info_wf_tx [OF assms, of tx g] fresh show ?thesis
        by (cases "g = ?g") (auto simp: lookup_assign_group)
    qed
    moreover have "fmlookup (pending_groups ?w) (latest_completed_group_id ?w + 1) \<noteq> None"
      using wf by (cases "latest_completed_group_id w + 1 < ?g") auto
    moreover have "latest_completed_group_id ?w < g \<and> g < next_group_id ?w"
      if "fmlookup (pending_groups ?w) g \<noteq> None" for g
      using that wf by (cases "g = ?g") (auto intro: less_SucI)
    moreover have "bg_contained_txs b \<noteq> {||}" if "fmlookup (pending_groups ?w) g = Some b" for g b
      using that wf False by (cases "g = ?g") auto
    ultimately have "info_wf ?w"
      using wf unfolding info_wf_def by (simp add: less_SucI)
    with False fresh show ?thesis by (simp add: info_commit_group_def)
  qed
qed

lemma skip_completed_spec:
  "latest < next \<Longrightarrow>
   latest \<le> skip_completed next gs latest \<and> skip_completed next gs latest < next \<and>
   (\<forall>g. latest < g \<longrightarrow> g \<le> skip_completed next gs latest \<longrightarrow> fmlookup gs g = None) \<and>
   (skip_completed next gs latest + 1 < next \<longrightarrow>
      fmlookup gs (skip_completed next gs latest + 1) \<noteq> None)"
proof (induction "next" gs latest rule: skip_completed.induct)
  case (1 "next" gs latest)
  show ?case
  proof (cases "latest + 1 < next \<and> fmlookup gs (latest + 1) = None")
    case False
    then have "skip_completed next gs latest = latest" by (subst skip_completed.simps) auto
    with False 1(2) show ?thesis by auto
  next
    case True
    then have eq: "skip_completed next gs latest = skip_completed next gs (latest + 1)"
      by (subst skip_completed.simps) simp
    have lt: "latest + 1 < next" and first: "fmlookup gs (latest + 1) = None" using True by auto
    from 1(1) [OF True lt] have ih:
      "latest + 1 \<le> skip_completed next gs (latest + 1)" "skip_completed next gs (latest + 1) < next"
      "\<And>g. latest + 1 < g \<Longrightarrow> g \<le> skip_completed next gs (latest + 1) \<Longrightarrow> fmlookup gs g = None"
      "skip_completed next gs (latest + 1) + 1 < next \<Longrightarrow>
        fmlookup gs (skip_completed next gs (latest + 1) + 1) \<noteq> None"
      by blast+
    have "fmlookup gs g = None" if "latest < g" "g \<le> skip_completed next gs (latest + 1)" for g
    proof (cases "g = latest + 1")
      case True
      then show ?thesis using first by simp
    next
      case False
      then show ?thesis using ih(3) that by simp
    qed
    with ih(1,2,4) show ?thesis unfolding eq by simp
  qed
qed

text \<open>The groups after the completion of a transaction of group \<open>gid\<close>.\<close>

definition shrink_group :: "nat \<Rightarrow> nat \<Rightarrow> bulk_group \<Rightarrow> (nat, bulk_group) fmap \<Rightarrow> (nat, bulk_group) fmap" where
  "shrink_group tx gid b gs =
     (if bg_contained_txs b |-| {|tx|} \<noteq> {||}
      then fmupd gid (b\<lparr>bg_contained_txs := bg_contained_txs b |-| {|tx|}\<rparr>) gs
      else fmdrop gid gs)"

lemma lookup_shrink_group:
  "fmlookup (shrink_group tx gid b gs) g =
     (if g = gid then (if bg_contained_txs b |-| {|tx|} \<noteq> {||}
        then Some (b\<lparr>bg_contained_txs := bg_contained_txs b |-| {|tx|}\<rparr>) else None)
      else fmlookup gs g)"
  by (simp add: shrink_group_def)

lemma info_complete_committed:
  assumes wf: "info_wf w" and tx: "fmlookup (tx_to_group w) tx = Some gid"
  shows "\<exists>b w'. fmlookup (pending_groups w) gid = Some b \<and>
    info_complete_tx tx w = Some (\<not> wb_is_waiting w', w') \<and> info_wf w' \<and>
    tx_to_group w' = fmdrop tx (tx_to_group w) \<and>
    pending_groups w' = shrink_group tx gid b (pending_groups w) \<and>
    next_group_id w' = next_group_id w \<and> waiting_group_id w' = waiting_group_id w \<and>
    (wb_is_waiting w' \<longleftrightarrow> wb_is_waiting w \<and> latest_completed_group_id w' < waiting_group_id w)"
proof -
  let ?next = "next_group_id w" and ?latest = "latest_completed_group_id w"
  obtain b where b: "fmlookup (pending_groups w) gid = Some b" "tx |\<in>| bg_contained_txs b"
    using wf tx unfolding info_wf_def by blast
  define gs where "gs = shrink_group tx gid b (pending_groups w)"
  define l where "l = (if bg_contained_txs b |-| {|tx|} = {||} \<and> gid = ?latest + 1
     then skip_completed ?next gs (?latest + 1) else ?latest)"
  define w' where "w' = w\<lparr>tx_to_group := fmdrop tx (tx_to_group w), pending_groups := gs,
     latest_completed_group_id := l, wb_is_waiting := wb_is_waiting w \<and> l < waiting_group_id w\<rparr>"
  have range: "?latest < gid" "gid < ?next" using wf b(1) by (auto simp: info_wf_def)
  have wait: "wb_is_waiting w \<longrightarrow> ?latest < waiting_group_id w \<and> waiting_group_id w < ?next"
    using wf by (simp add: info_wf_def)
  have l: "?latest \<le> l" "l < ?next" "\<forall>g. ?latest < g \<longrightarrow> g \<le> l \<longrightarrow> fmlookup gs g = None"
    "l + 1 < ?next \<longrightarrow> fmlookup gs (l + 1) \<noteq> None"
  proof -
    have "?latest \<le> l \<and> l < ?next \<and> (\<forall>g. ?latest < g \<longrightarrow> g \<le> l \<longrightarrow> fmlookup gs g = None) \<and>
      (l + 1 < ?next \<longrightarrow> fmlookup gs (l + 1) \<noteq> None)"
    proof (cases "bg_contained_txs b |-| {|tx|} = {||} \<and> gid = ?latest + 1")
      case True
      then have first: "fmlookup gs (?latest + 1) = None" by (simp add: gs_def lookup_shrink_group)
      have "?latest + 1 < ?next" using True range by simp
      note spec = skip_completed_spec [OF this, of gs]
      have "fmlookup gs g = None" if "?latest < g" "g \<le> l" for g
        using that spec first True by (cases "g = ?latest + 1") (auto simp: l_def)
      with spec True show ?thesis by (auto simp: l_def)
    next
      case False
      then have "l = ?latest" by (auto simp: l_def)
      moreover have "fmlookup gs (?latest + 1) \<noteq> None" if "?latest + 1 < ?next"
        using False that wf by (auto simp: gs_def lookup_shrink_group info_wf_def)
      ultimately show ?thesis using wf by (auto simp: info_wf_def)
    qed
    then show "?latest \<le> l" "l < ?next" "\<forall>g. ?latest < g \<longrightarrow> g \<le> l \<longrightarrow> fmlookup gs g = None"
      "l + 1 < ?next \<longrightarrow> fmlookup gs (l + 1) \<noteq> None" by blast+
  qed
  have run: "info_complete_tx tx w = Some (\<not> wb_is_waiting w', w')"
  proof (cases "bg_contained_txs b |-| {|tx|} = {||}")
    case False
    then have "l = ?latest" by (auto simp: l_def)
    with False tx b wait show ?thesis
      by (auto simp: info_complete_tx_def w'_def gs_def shrink_group_def Let_def
          intro!: warp_bulk_info.equality)
  next
    case True
    have "?next - waiting_group_id w \<ge> ?next - l \<longleftrightarrow> waiting_group_id w \<le> l" if "wb_is_waiting w"
      using that wait l(2) by auto
    with True tx b wait show ?thesis
      by (auto simp: info_complete_tx_def w'_def gs_def shrink_group_def Let_def l_def not_le
          intro!: warp_bulk_info.equality)
  qed
  have uniq: "g = gid" if "fmlookup (pending_groups w) g = Some c" "tx |\<in>| bg_contained_txs c" for g c
    using that wf tx unfolding info_wf_def by (metis option.inject)
  have gs_dom: "fmlookup gs g \<noteq> None \<longrightarrow> fmlookup (pending_groups w) g \<noteq> None" for g
    using b(1) by (simp add: gs_def lookup_shrink_group)
  have "info_wf w'"
    unfolding info_wf_def
  proof (intro conjI allI impI)
    show "latest_completed_group_id w' < next_group_id w'" using l(2) by (simp add: w'_def)
    fix g assume g: "fmlookup (pending_groups w') g \<noteq> None"
    then have "?latest < g" "g < ?next" using gs_dom wf by (auto simp: w'_def info_wf_def)
    moreover have "\<not> g \<le> l" using g l(3) \<open>?latest < g\<close> by (auto simp: w'_def)
    ultimately show "latest_completed_group_id w' < g" "g < next_group_id w'"
      by (simp_all add: w'_def)
  next
    assume "latest_completed_group_id w' + 1 < next_group_id w'"
    then show "fmlookup (pending_groups w') (latest_completed_group_id w' + 1) \<noteq> None"
      using l(4) by (simp add: w'_def)
  next
    fix t g
    have old: "fmlookup (tx_to_group w) t = Some g \<longleftrightarrow>
        (\<exists>b. fmlookup (pending_groups w) g = Some b \<and> t |\<in>| bg_contained_txs b)"
      using wf by (simp add: info_wf_def)
    show "fmlookup (tx_to_group w') t = Some g \<longleftrightarrow>
        (\<exists>b. fmlookup (pending_groups w') g = Some b \<and> t |\<in>| bg_contained_txs b)"
    proof (cases "t = tx")
      case True
      with uniq [of g] show ?thesis
        by (cases "g = gid") (auto simp: w'_def gs_def lookup_shrink_group)
    next
      case False
      with old b show ?thesis
        by (cases "g = gid") (auto simp: w'_def gs_def lookup_shrink_group)
    qed
  next
    fix g b' assume "fmlookup (pending_groups w') g = Some b'"
    then show "bg_contained_txs b' \<noteq> {||}"
      using wf by (auto simp: w'_def gs_def lookup_shrink_group info_wf_def split: if_splits)
  next
    fix t assume "t |\<in>| pending_txs w'"
    then show "fmlookup (tx_to_group w') t = None" using wf by (simp add: w'_def info_wf_def)
  next
    assume "wb_is_waiting w'"
    then show "latest_completed_group_id w' < waiting_group_id w'" "waiting_group_id w' < next_group_id w'"
      using wait by (simp_all add: w'_def)
  qed
  moreover have "tx_to_group w' = fmdrop tx (tx_to_group w)" "pending_groups w' = gs"
    "next_group_id w' = ?next" "waiting_group_id w' = waiting_group_id w"
    "wb_is_waiting w' \<longleftrightarrow> wb_is_waiting w \<and> latest_completed_group_id w' < waiting_group_id w"
    by (simp_all add: w'_def)
  ultimately show ?thesis using b(1) run gs_def by blast
qed

lemma info_complete_wf:
  assumes "info_wf w"
  shows "\<exists>r w'. info_complete_tx tx w = Some (r, w') \<and> info_wf w'"
proof (cases "fmlookup (tx_to_group w) tx")
  case None
  then have "info_complete_tx tx w =
      Some (\<not> wb_is_waiting w, w\<lparr>pending_txs := pending_txs w |-| {|tx|}\<rparr>)"
    by (simp add: info_complete_tx_def)
  moreover have "info_wf (w\<lparr>pending_txs := pending_txs w |-| {|tx|}\<rparr>)"
    using assms by (simp add: info_wf_def)
  ultimately show ?thesis by blast
next
  case (Some gid)
  from info_complete_committed [OF assms Some] show ?thesis by blast
qed

lemma waiting_iff_pending:
  assumes "info_wf w" "latest_completed_group_id w < k \<Longrightarrow> k < next_group_id w"
  shows "latest_completed_group_id w < k \<longleftrightarrow> (\<exists>g \<le> k. fmlookup (pending_groups w) g \<noteq> None)"
proof
  assume less: "latest_completed_group_id w < k"
  then have "latest_completed_group_id w + 1 < next_group_id w" using assms(2) by simp
  then have "fmlookup (pending_groups w) (latest_completed_group_id w + 1) \<noteq> None"
    using assms(1) by (simp add: info_wf_def)
  with less show "\<exists>g \<le> k. fmlookup (pending_groups w) g \<noteq> None"
    by (intro exI [of _ "latest_completed_group_id w + 1"]) auto
next
  assume "\<exists>g \<le> k. fmlookup (pending_groups w) g \<noteq> None"
  then show "latest_completed_group_id w < k" using assms(1) by (auto simp: info_wf_def)
qed

subsection \<open>The wait is exact\<close>

text \<open>
  \<open>wait_group(n)\<close> blocks the warp exactly when some committed group other than the
  \<open>n\<close> most recent ones is still incomplete, whatever the order in which groups completed
  and however many empty groups were committed. This is the rule of PTX; the comments of
  \<^verbatim>\<open>bulk_group.h\<close> state another one (wait until at most \<open>n\<close> groups remain incomplete), and the
  two differ when groups complete out of order: with two groups of which only the first is
  incomplete, \<open>wait_group(1)\<close> blocks, as \<open>wait_counts_from_oldest\<close> shows, and would not by
  the comments.
\<close>

theorem bulk_wait_exact:
  assumes "info_wf w" "\<not> wb_is_waiting w"
  shows "\<exists>w'. info_wait_group n w = Some w' \<and>
    (wb_is_waiting w' \<longleftrightarrow>
      (\<exists>g. g + n < next_group_id w \<and> fmlookup (pending_groups w) g \<noteq> None))"
proof -
  let ?next = "next_group_id w" and ?latest = "latest_completed_group_id w"
  have "n < ?next - ?latest - 1 \<longleftrightarrow> (\<exists>g. g + n < ?next \<and> fmlookup (pending_groups w) g \<noteq> None)"
  proof
    assume "n < ?next - ?latest - 1"
    then have "fmlookup (pending_groups w) (?latest + 1) \<noteq> None" "?latest + 1 + n < ?next"
      using assms(1) by (auto simp: info_wf_def)
    then show "\<exists>g. g + n < ?next \<and> fmlookup (pending_groups w) g \<noteq> None" by blast
  next
    assume "\<exists>g. g + n < ?next \<and> fmlookup (pending_groups w) g \<noteq> None"
    then obtain g where "g + n < ?next" "?latest < g" using assms(1) by (auto simp: info_wf_def)
    then show "n < ?next - ?latest - 1" by simp
  qed
  with assms(2) show ?thesis by (auto simp: info_wait_group_def Let_def)
qed

text \<open>Two stores in group 1, one in group 2; the second group completes first.\<close>

definition sample_info :: warp_bulk_info where
  "sample_info =
     \<lparr>next_group_id = 3, tx_to_group = fmap_of_list [(10, 1), (11, 1), (12, 2)],
      pending_groups = fmap_of_list
        [(1, \<lparr>bg_group_id = 1, bg_contained_txs = {|10, 11|}\<rparr>),
         (2, \<lparr>bg_group_id = 2, bg_contained_txs = {|12|}\<rparr>)],
      pending_txs = {||}, latest_completed_group_id = 0, waiting_group_id = 0,
      wb_is_waiting = False\<rparr>"

lemma sample_info_wf: "info_wf sample_info" "info_wf (sample_info\<lparr>waiting_group_id := 2, wb_is_waiting := True\<rparr>)"
  by (auto simp: info_wf_def sample_info_def fmlookup_of_list split: if_splits)

theorem bulk_wait_exact_witness:
  "\<exists>w'. info_wait_group 1 sample_info = Some w' \<and>
    (wb_is_waiting w' \<longleftrightarrow>
      (\<exists>g. g + 1 < next_group_id sample_info \<and> fmlookup (pending_groups sample_info) g \<noteq> None))"
  by (rule bulk_wait_exact [OF sample_info_wf(1)]) (simp add: sample_info_def)

text \<open>One store in each of two groups; the second group completes first.\<close>

definition out_of_order :: "warp_bulk_info option" where
  "out_of_order = do {
     w1 \<leftarrow> info_commit_group (info_add_tx 10 warp_bulk_info_init);
     w2 \<leftarrow> info_commit_group (info_add_tx 11 w1);
     (_, w3) \<leftarrow> info_complete_tx 11 w2;
     Some w3
   }"

lemma wait_counts_from_oldest:
  "map_option (\<lambda>w. (info_pending_count w, map_option wb_is_waiting (info_wait_group 1 w))) out_of_order =
     Some (1, Some True)"
  by code_simp

text \<open>
  C16. Completing a transaction ends a wait exactly when no group up to the awaited one is
  incomplete any more: no early release and no lost wake-up.
\<close>

theorem bulk_complete_exact:
  assumes "info_wf w" "fmlookup (tx_to_group w) tx \<noteq> None"
  shows "\<exists>w'. info_complete_tx tx w = Some (\<not> wb_is_waiting w', w') \<and> info_wf w' \<and>
    (wb_is_waiting w' \<longleftrightarrow> wb_is_waiting w \<and>
      (\<exists>g \<le> waiting_group_id w. fmlookup (pending_groups w') g \<noteq> None))"
proof -
  obtain gid where "fmlookup (tx_to_group w) tx = Some gid" using assms(2) by blast
  from info_complete_committed [OF assms(1) this] obtain w' where w':
    "info_complete_tx tx w = Some (\<not> wb_is_waiting w', w')" "info_wf w'"
    "next_group_id w' = next_group_id w"
    "wb_is_waiting w' \<longleftrightarrow> wb_is_waiting w \<and> latest_completed_group_id w' < waiting_group_id w"
    by blast
  have "wb_is_waiting w' \<longleftrightarrow> wb_is_waiting w \<and>
      (\<exists>g \<le> waiting_group_id w. fmlookup (pending_groups w') g \<noteq> None)"
  proof (cases "wb_is_waiting w")
    case True
    then have "waiting_group_id w < next_group_id w'" using assms(1) w'(3) by (simp add: info_wf_def)
    with waiting_iff_pending [OF w'(2), of "waiting_group_id w"] True w'(4) show ?thesis by simp
  next
    case False
    with w'(4) show ?thesis by simp
  qed
  with w' show ?thesis by blast
qed

theorem bulk_complete_exact_witness:
  "\<exists>w'. info_complete_tx 12 (sample_info\<lparr>waiting_group_id := 2, wb_is_waiting := True\<rparr>) =
      Some (\<not> wb_is_waiting w', w') \<and> info_wf w' \<and>
    (wb_is_waiting w' \<longleftrightarrow>
      (\<exists>g \<le> 2. fmlookup (pending_groups w') g \<noteq> None))"
  using bulk_complete_exact [OF sample_info_wf(2), of 12]
  by (simp add: sample_info_def fmlookup_of_list)

subsection \<open>Every wait ends\<close>

definition complete_step :: "warp_bulk_info \<Rightarrow> nat \<Rightarrow> warp_bulk_info option" where
  "complete_step w tx = map_option snd (info_complete_tx tx w)"

lemma complete_all:
  assumes "info_wf w" "distinct txs" "set txs = fmdom' (tx_to_group w)"
  shows "\<exists>w'. run_ops complete_step w txs = Some w' \<and> info_wf w' \<and> tx_to_group w' = fmempty"
  using assms
proof (induction txs arbitrary: w)
  case Nil
  then have "tx_to_group w = fmempty" by (intro fmap_ext) (auto simp: fmdom'_notD)
  with Nil show ?case by simp
next
  case (Cons tx txs)
  have "tx \<in> fmdom' (tx_to_group w)" using Cons.prems(3) by auto
  then obtain gid where "fmlookup (tx_to_group w) tx = Some gid" by (auto simp: fmlookup_dom'_iff)
  from info_complete_committed [OF Cons.prems(1) this] obtain w1 where w1:
    "complete_step w tx = Some w1" "info_wf w1" "tx_to_group w1 = fmdrop tx (tx_to_group w)"
    by (auto simp: complete_step_def)
  have "set txs = fmdom' (tx_to_group w1)" using Cons.prems(2,3) w1(3) by auto
  with Cons.IH [OF w1(2)] Cons.prems(2) w1(1) show ?case by simp
qed

text \<open>
  Once every committed transaction of a warp has completed, in whatever order, no group
  is pending and the warp does not wait any more.
\<close>

theorem bulk_wait_ends:
  assumes "info_wf w" "distinct txs" "set txs = fmdom' (tx_to_group w)"
  shows "\<exists>w'. run_ops complete_step w txs = Some w' \<and> info_pending_count w' = 0 \<and>
    \<not> wb_is_waiting w'"
proof -
  obtain w' where w': "run_ops complete_step w txs = Some w'" "info_wf w'" "tx_to_group w' = fmempty"
    using complete_all [OF assms] by blast
  have none: "fmlookup (pending_groups w') g = None" for g
  proof (rule ccontr)
    assume "fmlookup (pending_groups w') g \<noteq> None"
    then obtain b where b: "fmlookup (pending_groups w') g = Some b" by blast
    then obtain tx where "tx |\<in>| bg_contained_txs b" using w'(2) by (fastforce simp: info_wf_def)
    with info_wf_tx [OF w'(2), of tx g] b w'(3) show False by simp
  qed
  then have "pending_groups w' = fmempty" by (simp add: fmap_ext)
  moreover have "\<not> wb_is_waiting w'"
    using none w'(2) by (auto simp: info_wf_def)
  ultimately show ?thesis using w'(1) by (simp add: info_pending_count_def)
qed

theorem bulk_wait_ends_witness:
  "\<exists>w'. run_ops complete_step (sample_info\<lparr>waiting_group_id := 2, wb_is_waiting := True\<rparr>) [12, 10, 11] =
      Some w' \<and> info_pending_count w' = 0 \<and> \<not> wb_is_waiting w'"
  by (rule bulk_wait_ends [OF sample_info_wf(2)]) (auto simp: sample_info_def)

subsection \<open>The manager: no assertion fires\<close>

datatype bulk_op = Bulk_Add nat nat nat | Bulk_Commit nat nat | Bulk_Wait nat nat nat
  | Bulk_Complete nat nat nat | Bulk_Cleanup nat

fun bulk_step :: "bulk_manager \<Rightarrow> bulk_op \<Rightarrow> bulk_manager option" where
  "bulk_step m (Bulk_Add c w tx) = Some (mgr_add_tx c w tx m)"
| "bulk_step m (Bulk_Commit c w) = mgr_commit_bulk_group c w m"
| "bulk_step m (Bulk_Wait c w n) = map_option snd (mgr_wait_bulk_group c w n m)"
| "bulk_step m (Bulk_Complete c w tx) = map_option snd (mgr_complete_tx c w tx m)"
| "bulk_step m (Bulk_Cleanup c) = Some (mgr_cleanup_cta c m)"

text \<open>
  The caller's duties: transaction ids are not reused while outstanding, a blocked warp
  does not wait again, and only a warp that used the manager completes transactions.
\<close>

fun bulk_allowed :: "bulk_manager \<Rightarrow> bulk_op \<Rightarrow> bool" where
  "bulk_allowed m (Bulk_Add c w tx) \<longleftrightarrow> \<not> mgr_is_tx_committed c w tx m"
| "bulk_allowed m (Bulk_Wait c w n) \<longleftrightarrow> \<not> mgr_is_waiting c w m"
| "bulk_allowed m (Bulk_Complete c w tx) \<longleftrightarrow> fmlookup m (c, w) \<noteq> None"
| "bulk_allowed m _ \<longleftrightarrow> True"

definition bulk_guarded_step :: "bulk_manager \<Rightarrow> bulk_op \<Rightarrow> bulk_manager option" where
  "bulk_guarded_step m x = (if bulk_allowed m x then bulk_step m x else None)"

definition mgr_wf :: "bulk_manager \<Rightarrow> bool" where
  "mgr_wf m \<longleftrightarrow> (\<forall>k w. fmlookup m k = Some w \<longrightarrow> info_wf w)"

lemma mgr_wf_upd: "mgr_wf m \<Longrightarrow> info_wf w \<Longrightarrow> mgr_wf (fmupd k w m)"
  by (simp add: mgr_wf_def)

lemma mgr_info_wf: "mgr_wf m \<Longrightarrow> info_wf (mgr_info m k)"
  by (cases k) (auto simp: mgr_wf_def mgr_info_def info_init_wf split: option.splits)

lemma bulk_allowed_step:
  assumes "mgr_wf m" "bulk_allowed m x"
  shows "\<exists>m'. bulk_step m x = Some m' \<and> mgr_wf m'"
proof (cases x)
  case (Bulk_Add c w tx)
  have "fmlookup (tx_to_group (mgr_info m (c, w))) tx = None"
    using assms(2) Bulk_Add
    by (auto simp: mgr_is_tx_committed_def mgr_info_def warp_bulk_info_init_def split: option.splits)
  from info_add_wf [OF mgr_info_wf [OF assms(1)] this] Bulk_Add assms(1) show ?thesis
    by (simp add: mgr_add_tx_def mgr_wf_upd)
next
  case (Bulk_Commit c w)
  from info_commit_wf [OF mgr_info_wf [OF assms(1)], of "(c, w)"] Bulk_Commit assms(1) show ?thesis
    by (auto simp: mgr_commit_bulk_group_def mgr_wf_upd)
next
  case (Bulk_Wait c w n)
  show ?thesis
  proof (cases "fmlookup m (c, w)")
    case None
    with Bulk_Wait assms(1) show ?thesis by (simp add: mgr_wait_bulk_group_def)
  next
    case (Some i)
    then have "info_wf i" "\<not> wb_is_waiting i"
      using assms Bulk_Wait by (auto simp: mgr_wf_def mgr_is_waiting_def)
    from info_wait_wf [OF this, of n] Some Bulk_Wait assms(1) show ?thesis
      by (auto simp: mgr_wait_bulk_group_def mgr_wf_upd)
  qed
next
  case (Bulk_Complete c w tx)
  then obtain i where i: "fmlookup m (c, w) = Some i" using assms(2) by auto
  then have "info_wf i" using assms(1) by (simp add: mgr_wf_def)
  from info_complete_wf [OF this, of tx] i Bulk_Complete assms(1) show ?thesis
    by (auto simp: mgr_complete_tx_def Let_def mgr_wf_upd)
next
  case (Bulk_Cleanup c)
  with assms(1) show ?thesis by (auto simp: mgr_cleanup_cta_def mgr_wf_def)
qed

interpretation bulk_run: step_safe bulk_guarded_step mgr_wf bulk_allowed
  by unfold_locales
    (auto simp: bulk_guarded_step_def dest: bulk_allowed_step split: if_splits)

text \<open>
  C36. No sequence of calls that respects the caller's duties trips an assertion of the bulk
  group manager, and in every state reached a warp waits only if some group it waits for is
  still incomplete.
\<close>

theorem bulk_manager_never_aborts:
  assumes "allowed_run bulk_guarded_step bulk_allowed fmempty ops"
  shows "\<exists>m. run_ops bulk_guarded_step fmempty ops = Some m \<and>
    (\<forall>k w. fmlookup m k = Some w \<longrightarrow> wb_is_waiting w \<longrightarrow>
      (\<exists>g \<le> waiting_group_id w. fmlookup (pending_groups w) g \<noteq> None))"
proof -
  have "mgr_wf fmempty" by (simp add: mgr_wf_def)
  from bulk_run.run_safe [OF this assms] obtain m where
    m: "run_ops bulk_guarded_step fmempty ops = Some m" "mgr_wf m" by blast
  have "\<exists>g \<le> waiting_group_id w. fmlookup (pending_groups w) g \<noteq> None"
    if "fmlookup m k = Some w" "wb_is_waiting w" for k w
  proof -
    have wf: "info_wf w" using m(2) that(1) unfolding mgr_wf_def by blast
    then have "latest_completed_group_id w < waiting_group_id w" "waiting_group_id w < next_group_id w"
      using that(2) by (simp_all add: info_wf_def)
    with waiting_iff_pending [OF wf] show ?thesis by blast
  qed
  with m(1) show ?thesis by blast
qed

definition sample_bulk_ops :: "bulk_op list" where
  "sample_bulk_ops = [Bulk_Add 0 3 10, Bulk_Commit 0 3, Bulk_Commit 0 3, Bulk_Add 0 3 11,
     Bulk_Commit 0 3, Bulk_Wait 0 3 0, Bulk_Complete 0 3 11, Bulk_Complete 0 3 10]"

theorem bulk_manager_never_aborts_witness:
  "\<exists>m. run_ops bulk_guarded_step fmempty sample_bulk_ops = Some m \<and>
    (\<forall>k w. fmlookup m k = Some w \<longrightarrow> wb_is_waiting w \<longrightarrow>
      (\<exists>g \<le> waiting_group_id w. fmlookup (pending_groups w) g \<noteq> None))"
  by (rule bulk_manager_never_aborts) code_simp

text \<open>
  The header documents that \<open>complete_tx\<close> returns true when no wait is pending; the
  manager's version returns false then, which its caller relies on to release a warp once.
\<close>

lemma mgr_complete_tx_idle_false:
  assumes "fmlookup m (cta, warp) = Some w" "info_wf w" "\<not> wb_is_waiting w"
  shows "\<exists>m'. mgr_complete_tx cta warp tx m = Some (False, m')"
  using info_complete_wf [OF assms(2), of tx] assms(1,3) by (auto simp: mgr_complete_tx_def Let_def)

end
