(* ===== verification/Barrier_Set.thy ===== *)
theory Barrier_Set
  imports Prelude
begin

section \<open>CTA barriers of a shader core\<close>

text \<open>
  Models the \<open>barrier_set_t\<close> of \<^verbatim>\<open>src/gpgpu-sim/shader.h\<close> and \<^verbatim>\<open>shader.cc\<close> (with the
  delayed releases of \<^verbatim>\<open>flash/mbarrier.cc\<close> and the bulk-group wait of
  \<^verbatim>\<open>flash/bulk_group.cc\<close>): the scheduler's wait bits, their types, the named barriers and
  the queue of delayed releases.

  A bit set of warps is a \<open>nat set\<close>; the vectors indexed by warp are lists; the named
  barrier id is \<open>None\<close> for the code's \<open>(unsigned)-1\<close>, as is an absent thread count. The
  suspended \<open>mbarrier.try_wait\<close> of a warp is only its membership in
  \<open>bs_m_pending_mbarrier_waits\<close> here. The counters of the hang detector and the traces
  are left out; the reduction that a \<open>bar.red\<close> broadcasts is an output of the operation.
\<close>

subsection \<open>State\<close>

datatype barrier_wait_type =
    BARRIER_WAIT_BAR_SYNC | BARRIER_WAIT_MBARRIER | BARRIER_WAIT_BULK_GROUP
  | BARRIER_WAIT_CP_ASYNC_GROUP | BARRIER_WAIT_WGMMA_GROUP | BARRIER_WAIT_TCGEN05
  | BARRIER_WAIT_CLUSTER

datatype barrier_type = BT_NOT_BAR | BT_SYNC | BT_ARRIVE | BT_RED

record pending_warp_release =
  pr_remaining :: nat
  pr_warp_id :: nat
  pr_type :: barrier_wait_type

record barrier_set =
  bs_m_max_cta_per_core :: nat
  bs_m_max_warps_per_core :: nat
  bs_m_max_barriers_per_cta :: nat
  bs_m_warp_size :: nat
  bs_barrier_release_latency :: nat
  bs_cp_async_wait_release_latency :: nat
  bs_m_cta_to_warps :: "nat \<Rightarrow> nat set option"
  bs_m_bar_id_to_warps :: "nat \<Rightarrow> nat set"
  bs_m_bar_id_to_count :: "nat \<times> nat \<Rightarrow> nat option"
  bs_m_warp_active :: "nat set"
  bs_m_warp_at_barrier :: "nat set"
  bs_m_warp_barrier_type :: "barrier_wait_type list"
  bs_m_warp_named_barrier_id :: "nat option list"
  bs_m_pending_warp_releases :: "pending_warp_release list"
  bs_m_pending_mbarrier_waits :: "nat set"
  bs_m_mbar_partial_wait :: "bool list"

definition barrier_set_new :: "nat \<Rightarrow> nat \<Rightarrow> nat \<Rightarrow> nat \<Rightarrow> nat \<Rightarrow> nat \<Rightarrow> barrier_set" where
  "barrier_set_new max_warps max_cta max_barriers warp_size release_latency cp_async_latency =
     \<lparr>bs_m_max_cta_per_core = max_cta, bs_m_max_warps_per_core = max_warps,
      bs_m_max_barriers_per_cta = max_barriers, bs_m_warp_size = warp_size,
      bs_barrier_release_latency = release_latency,
      bs_cp_async_wait_release_latency = cp_async_latency,
      bs_m_cta_to_warps = (\<lambda>_. None), bs_m_bar_id_to_warps = (\<lambda>_. {}),
      bs_m_bar_id_to_count = (\<lambda>_. None), bs_m_warp_active = {}, bs_m_warp_at_barrier = {},
      bs_m_warp_barrier_type = replicate max_warps BARRIER_WAIT_BAR_SYNC,
      bs_m_warp_named_barrier_id = replicate max_warps None,
      bs_m_pending_warp_releases = [], bs_m_pending_mbarrier_waits = {},
      bs_m_mbar_partial_wait = replicate max_warps False\<rparr>"

text \<open>The constructor, whose \<^verbatim>\<open>exit(1)\<close> on sizes above the fixed arrays is \<open>None\<close>.\<close>

definition WARP_PER_CTA_MAX :: nat where "WARP_PER_CTA_MAX = 64"

definition MAX_BARRIERS_PER_CTA :: nat where "MAX_BARRIERS_PER_CTA = 16"

definition barrier_set_create :: "nat \<Rightarrow> nat \<Rightarrow> nat \<Rightarrow> nat \<Rightarrow> nat \<Rightarrow> nat \<Rightarrow> barrier_set option" where
  "barrier_set_create max_warps max_cta max_barriers warp_size release_latency cp_async_latency = do {
     cassert (max_warps \<le> WARP_PER_CTA_MAX);
     cassert (max_barriers \<le> MAX_BARRIERS_PER_CTA);
     Some (barrier_set_new max_warps max_cta max_barriers warp_size release_latency cp_async_latency)
   }"

subsection \<open>Waiting and releasing one warp\<close>

definition assert_warp_waiting :: "nat \<Rightarrow> barrier_wait_type \<Rightarrow> barrier_set \<Rightarrow> unit option" where
  "assert_warp_waiting w t s =
     cassert (w < bs_m_max_warps_per_core s \<and> w \<in> bs_m_warp_at_barrier s \<and>
              bs_m_warp_barrier_type s ! w = t)"

definition clear_warp_waiting :: "nat \<Rightarrow> barrier_wait_type \<Rightarrow> barrier_set \<Rightarrow> barrier_set option" where
  "clear_warp_waiting w t s = do {
     assert_warp_waiting w t s;
     Some (s\<lparr>bs_m_warp_at_barrier := bs_m_warp_at_barrier s - {w},
             bs_m_warp_named_barrier_id := (bs_m_warp_named_barrier_id s)[w := None]\<rparr>)
   }"

definition set_warp_waiting :: "nat \<Rightarrow> barrier_wait_type \<Rightarrow> nat option \<Rightarrow> barrier_set \<Rightarrow> barrier_set" where
  "set_warp_waiting w t named s =
     s\<lparr>bs_m_warp_at_barrier := insert w (bs_m_warp_at_barrier s),
       bs_m_warp_barrier_type := (bs_m_warp_barrier_type s)[w := t],
       bs_m_warp_named_barrier_id := (bs_m_warp_named_barrier_id s)[w := named]\<rparr>"

definition push_release :: "nat \<Rightarrow> nat \<Rightarrow> barrier_wait_type \<Rightarrow> barrier_set \<Rightarrow> barrier_set" where
  "push_release latency w t s =
     s\<lparr>bs_m_pending_warp_releases := bs_m_pending_warp_releases s @
         [\<lparr>pr_remaining = latency, pr_warp_id = w, pr_type = t\<rparr>]\<rparr>"

definition wait_cp_async_group :: "nat \<Rightarrow> barrier_set \<Rightarrow> barrier_set option" where
  "wait_cp_async_group w s = do {
     cassert (w \<notin> bs_m_warp_at_barrier s);
     Some (set_warp_waiting w BARRIER_WAIT_CP_ASYNC_GROUP None s)
   }"

definition release_cp_async_warp :: "nat \<Rightarrow> barrier_set \<Rightarrow> barrier_set option" where
  "release_cp_async_warp w s =
     (let release_latency = bs_cp_async_wait_release_latency s
      in if release_latency > 0
         then do {
           assert_warp_waiting w BARRIER_WAIT_CP_ASYNC_GROUP s;
           Some (push_release release_latency w BARRIER_WAIT_CP_ASYNC_GROUP s)
         }
         else clear_warp_waiting w BARRIER_WAIT_CP_ASYNC_GROUP s)"

definition wait_tcgen05_warp :: "nat \<Rightarrow> barrier_set \<Rightarrow> barrier_set option" where
  "wait_tcgen05_warp w s = do {
     cassert (w \<notin> bs_m_warp_at_barrier s);
     Some (set_warp_waiting w BARRIER_WAIT_TCGEN05 None s)
   }"

definition release_tcgen05_warp :: "nat \<Rightarrow> barrier_set \<Rightarrow> barrier_set option" where
  "release_tcgen05_warp w s = clear_warp_waiting w BARRIER_WAIT_TCGEN05 s"

definition wait_cluster_barrier :: "nat \<Rightarrow> barrier_set \<Rightarrow> barrier_set option" where
  "wait_cluster_barrier w s = do {
     cassert (w \<notin> bs_m_warp_at_barrier s);
     Some (set_warp_waiting w BARRIER_WAIT_CLUSTER None s)
   }"

definition release_cluster_barrier :: "nat \<Rightarrow> barrier_set \<Rightarrow> barrier_set option" where
  "release_cluster_barrier w s = clear_warp_waiting w BARRIER_WAIT_CLUSTER s"

text \<open>The parking of a warp whose bulk-group wait is not satisfied (\<open>flash/bulk_group.cc\<close>).\<close>

definition block_bulk_group :: "nat \<Rightarrow> barrier_set \<Rightarrow> barrier_set option" where
  "block_bulk_group w s = do {
     cassert (w \<notin> bs_m_warp_at_barrier s);
     Some (set_warp_waiting w BARRIER_WAIT_BULK_GROUP None s)
   }"

definition hold_warp :: "nat \<Rightarrow> nat \<Rightarrow> barrier_wait_type \<Rightarrow> barrier_set \<Rightarrow> barrier_set" where
  "hold_warp w latency t s =
     (if latency = 0 then s else push_release latency w t (set_warp_waiting w t None s))"

definition cancel_mbarrier_wait :: "nat \<Rightarrow> barrier_set \<Rightarrow> barrier_set option" where
  "cancel_mbarrier_wait w s =
     (if w \<notin> bs_m_pending_mbarrier_waits s then Some s
      else do {
        s1 \<leftarrow> (if w \<in> bs_m_warp_at_barrier s \<and> bs_m_warp_barrier_type s ! w = BARRIER_WAIT_MBARRIER
               then clear_warp_waiting w BARRIER_WAIT_MBARRIER s else Some s);
        Some (s1\<lparr>bs_m_pending_mbarrier_waits := bs_m_pending_mbarrier_waits s1 - {w}\<rparr>)
      })"

subsection \<open>CTA allocation\<close>

definition erase_cta_counts :: "nat \<Rightarrow> barrier_set \<Rightarrow> barrier_set" where
  "erase_cta_counts cta s =
     s\<lparr>bs_m_bar_id_to_count := (\<lambda>k. if fst k = cta then None else bs_m_bar_id_to_count s k)\<rparr>"

definition erase_warps_from_barriers :: "nat set \<Rightarrow> barrier_set \<Rightarrow> barrier_set" where
  "erase_warps_from_barriers ws s =
     s\<lparr>bs_m_bar_id_to_warps := (\<lambda>i. if i < bs_m_max_barriers_per_cta s
         then bs_m_bar_id_to_warps s i - ws else bs_m_bar_id_to_warps s i)\<rparr>"

definition clear_named_ids :: "nat set \<Rightarrow> barrier_set \<Rightarrow> barrier_set" where
  "clear_named_ids ws s =
     s\<lparr>bs_m_warp_named_barrier_id := map (\<lambda>w. if w \<in> ws then None
         else bs_m_warp_named_barrier_id s ! w) [0..<bs_m_max_warps_per_core s]\<rparr>"

text \<open>
  The assertion that there are not more CTAs than \<^verbatim>\<open>m_max_cta_per_core\<close> follows from the first
  one: every key of the map is below it.
\<close>

definition allocate_barrier :: "nat \<Rightarrow> nat set \<Rightarrow> barrier_set \<Rightarrow> barrier_set option" where
  "allocate_barrier cta warps s = do {
     cassert (cta < bs_m_max_cta_per_core s);
     cassert (bs_m_cta_to_warps s cta = None);
     Some (erase_cta_counts cta (erase_warps_from_barriers warps (clear_named_ids warps
       (s\<lparr>bs_m_cta_to_warps := (bs_m_cta_to_warps s)(cta := Some warps),
          bs_m_warp_active := bs_m_warp_active s \<union> warps,
          bs_m_warp_at_barrier := bs_m_warp_at_barrier s - warps,
          bs_m_mbar_partial_wait := map (\<lambda>w. if w \<in> warps then False
            else bs_m_mbar_partial_wait s ! w) [0..<bs_m_max_warps_per_core s]\<rparr>))))
   }"

text \<open>The suspended waits cancelled with their CTA: those of the warps \<open>pending\<close> names.\<close>

fun cancel_mbarrier_waits :: "nat list \<Rightarrow> barrier_set \<Rightarrow> barrier_set option" where
  "cancel_mbarrier_waits [] s = Some s"
| "cancel_mbarrier_waits (w # ws) s = do { s1 \<leftarrow> cancel_mbarrier_wait w s; cancel_mbarrier_waits ws s1 }"

definition deallocate_barrier :: "nat \<Rightarrow> nat list \<Rightarrow> barrier_set \<Rightarrow> barrier_set option" where
  "deallocate_barrier cta pending s =
     (case bs_m_cta_to_warps s cta of None \<Rightarrow> Some s
      | Some warps \<Rightarrow> do {
          s1 \<leftarrow> cancel_mbarrier_waits pending s;
          cassert (warps \<inter> bs_m_warp_at_barrier s1 = {});
          cassert (warps \<inter> bs_m_warp_active s1 = {});
          let s2 = erase_cta_counts cta (erase_warps_from_barriers warps (clear_named_ids warps
             (s1\<lparr>bs_m_warp_active := bs_m_warp_active s1 - warps,
                bs_m_warp_at_barrier := bs_m_warp_at_barrier s1 - warps\<rparr>)));
          Some (s2\<lparr>bs_m_cta_to_warps := (bs_m_cta_to_warps s2)(cta := None)\<rparr>)
        })"

subsection \<open>Named barriers\<close>

definition named_barrier_waiters :: "nat \<Rightarrow> nat set \<Rightarrow> barrier_set \<Rightarrow> nat set" where
  "named_barrier_waiters bar participants s =
     set (filter (\<lambda>w. w \<in> participants \<and> w \<in> bs_m_warp_at_barrier s \<and>
            bs_m_warp_barrier_type s ! w = BARRIER_WAIT_BAR_SYNC \<and>
            bs_m_warp_named_barrier_id s ! w = Some bar) [0..<bs_m_max_warps_per_core s])"

fun clear_waiters :: "nat set \<Rightarrow> nat list \<Rightarrow> barrier_set \<Rightarrow> barrier_set option" where
  "clear_waiters waiters [] s = Some s"
| "clear_waiters waiters (w # ws) s =
     (if w \<notin> waiters then clear_waiters waiters ws s
      else let latency = bs_barrier_release_latency s
           in if latency = 0
              then do {
                s1 \<leftarrow> clear_warp_waiting w BARRIER_WAIT_BAR_SYNC s;
                clear_waiters waiters ws s1
              }
              else clear_waiters waiters ws (push_release latency w BARRIER_WAIT_BAR_SYNC s))"

definition clear_named_barrier_waiters :: "nat set \<Rightarrow> barrier_set \<Rightarrow> barrier_set option" where
  "clear_named_barrier_waiters waiters s = clear_waiters waiters [0..<bs_m_max_warps_per_core s] s"

text \<open>What the three release sites share.\<close>

definition release_barrier :: "nat \<Rightarrow> nat \<Rightarrow> nat set \<Rightarrow> barrier_set \<Rightarrow> barrier_set option" where
  "release_barrier cta bar at_bar s = do {
     let waiters = named_barrier_waiters bar at_bar s;
     s1 \<leftarrow> clear_named_barrier_waiters waiters
            (s\<lparr>bs_m_bar_id_to_warps := (bs_m_bar_id_to_warps s)
                (bar := bs_m_bar_id_to_warps s bar - at_bar)\<rparr>);
     Some (s1\<lparr>bs_m_bar_id_to_count := (bs_m_bar_id_to_count s1)((cta, bar) := None)\<rparr>)
   }"

text \<open>
  Arrival of a warp. The result holds, for a released \<open>bar.red\<close>, the warps the reduction
  is broadcast to.
\<close>

definition mark_arrival :: "nat \<Rightarrow> nat \<Rightarrow> barrier_type \<Rightarrow> nat \<Rightarrow> nat option \<Rightarrow> barrier_set \<Rightarrow> barrier_set" where
  "mark_arrival cta w bar_type bar bar_count s =
     (let s1 = s\<lparr>bs_m_bar_id_to_warps := (bs_m_bar_id_to_warps s)
                    (bar := insert w (bs_m_bar_id_to_warps s bar))\<rparr>;
          s2 = (if bar_count \<noteq> None
                then s1\<lparr>bs_m_bar_id_to_count := (bs_m_bar_id_to_count s1)((cta, bar) :=
                       Some ((case bs_m_bar_id_to_count s1 (cta, bar) of None \<Rightarrow> 0 | Some c \<Rightarrow> c)
                             + bs_m_warp_size s1))\<rparr>
                else s1)
      in if bar_type = BT_SYNC \<or> bar_type = BT_RED
         then set_warp_waiting w BARRIER_WAIT_BAR_SYNC (Some bar)
                (s2\<lparr>bs_m_mbar_partial_wait := (bs_m_mbar_partial_wait s2)[w := False]\<rparr>)
         else s2)"

definition warp_reaches_barrier ::
  "nat \<Rightarrow> nat \<Rightarrow> barrier_type \<Rightarrow> nat \<Rightarrow> nat option \<Rightarrow> barrier_set \<Rightarrow> (nat set option \<times> barrier_set) option"
where
  "warp_reaches_barrier cta w bar_type bar bar_count s = do {
     warps_in_cta \<leftarrow> bs_m_cta_to_warps s cta;
     cassert (w \<in> warps_in_cta);
     let s1 = mark_arrival cta w bar_type bar bar_count s;
     let at_barrier = warps_in_cta \<inter> bs_m_bar_id_to_warps s1 bar;
     let active = warps_in_cta \<inter> bs_m_warp_active s1;
     let reduction = (if bar_type = BT_RED then Some at_barrier else None);
     let complete = (case bar_count of None \<Rightarrow> at_barrier = active
         | Some n \<Rightarrow> (case bs_m_bar_id_to_count s1 (cta, bar) of None \<Rightarrow> 0 | Some c \<Rightarrow> c) \<ge> n);
     if complete
     then do { s2 \<leftarrow> release_barrier cta bar at_barrier s1; Some (reduction, s2) }
     else Some (None, s1)
   }"

text \<open>The loop of \<open>warp_exit\<close> over the barriers of the warp's CTA.\<close>

fun exit_barriers :: "nat \<Rightarrow> nat set \<Rightarrow> nat list \<Rightarrow> barrier_set \<Rightarrow> barrier_set option" where
  "exit_barriers cta ws [] s = Some s"
| "exit_barriers cta ws (i # is) s =
     (let at_bar = ws \<inter> bs_m_bar_id_to_warps s i
      in if at_bar = ws \<inter> bs_m_warp_active s
         then do { s1 \<leftarrow> release_barrier cta i at_bar s; exit_barriers cta ws is s1 }
         else exit_barriers cta ws is s)"

definition warp_exit :: "nat \<Rightarrow> barrier_set \<Rightarrow> barrier_set option" where
  "warp_exit w s = do {
     s1 \<leftarrow> cancel_mbarrier_wait w s;
     let s2 = s1\<lparr>bs_m_warp_active := bs_m_warp_active s1 - {w},
                 bs_m_warp_named_barrier_id := (bs_m_warp_named_barrier_id s1)[w := None]\<rparr>;
     cta \<leftarrow> find (\<lambda>c. case bs_m_cta_to_warps s2 c of None \<Rightarrow> False | Some ws \<Rightarrow> w \<in> ws)
             [0..<bs_m_max_cta_per_core s2];
     ws \<leftarrow> bs_m_cta_to_warps s2 cta;
     exit_barriers cta ws [0..<bs_m_max_barriers_per_cta s2] s2
   }"

definition warp_waiting_at_barrier :: "nat \<Rightarrow> barrier_set \<Rightarrow> bool" where
  "warp_waiting_at_barrier w s \<longleftrightarrow> w \<in> bs_m_warp_at_barrier s"

definition get_warp_barrier_type :: "nat \<Rightarrow> barrier_set \<Rightarrow> barrier_wait_type" where
  "get_warp_barrier_type w s = bs_m_warp_barrier_type s ! w"

definition active_warps_in_cta :: "nat \<Rightarrow> barrier_set \<Rightarrow> nat" where
  "active_warps_in_cta cta s =
     (case bs_m_cta_to_warps s cta of None \<Rightarrow> 0 | Some ws \<Rightarrow> card (ws \<inter> bs_m_warp_active s))"

definition active_warp_mask :: "nat \<Rightarrow> barrier_set \<Rightarrow> nat set" where
  "active_warp_mask cta s =
     (case bs_m_cta_to_warps s cta of None \<Rightarrow> {} | Some ws \<Rightarrow> ws \<inter> bs_m_warp_active s)"

subsection \<open>Delayed releases\<close>

text \<open>
  One entry of the release queue whose countdown ended. The queue is scanned from its last
  entry; \<open>release_scan\<close> gets it reversed and returns the entries kept, reversed.
\<close>

definition release_entry :: "pending_warp_release \<Rightarrow> barrier_set \<Rightarrow> barrier_set option" where
  "release_entry e s =
     (let w = pr_warp_id e; t = pr_type e;
          live_trywait = w \<in> bs_m_pending_mbarrier_waits s;
          still_mbarrier = w < bs_m_max_warps_per_core s \<and> w \<in> bs_m_warp_at_barrier s \<and>
            bs_m_warp_barrier_type s ! w = BARRIER_WAIT_MBARRIER
      in if t = BARRIER_WAIT_MBARRIER \<and> (live_trywait \<or> \<not> still_mbarrier) then Some s
         else do {
           cassert (t \<in> {BARRIER_WAIT_BAR_SYNC, BARRIER_WAIT_CP_ASYNC_GROUP,
                         BARRIER_WAIT_MBARRIER, BARRIER_WAIT_BULK_GROUP});
           clear_warp_waiting w t s
         })"

fun release_scan :: "pending_warp_release list \<Rightarrow> barrier_set \<Rightarrow> (pending_warp_release list \<times> barrier_set) option"
where
  "release_scan [] s = Some ([], s)"
| "release_scan (e # es) s =
     (if pr_remaining e = 0
      then do { s1 \<leftarrow> release_entry e s; release_scan es s1 }
      else do { (kept, s1) \<leftarrow> release_scan es s; Some (e # kept, s1) })"

definition release_cycle :: "barrier_set \<Rightarrow> barrier_set option" where
  "release_cycle s = do {
     let counted = map (\<lambda>e. e\<lparr>pr_remaining := pr_remaining e - 1\<rparr>) (bs_m_pending_warp_releases s);
     (kept, s1) \<leftarrow> release_scan (rev counted) s;
     Some (s1\<lparr>bs_m_pending_warp_releases := rev kept\<rparr>)
   }"

subsection \<open>The invariant of full-CTA barriers\<close>

text \<open>
  \<open>parked b w\<close>: warp \<open>w\<close> is blocked at named barrier \<open>b\<close>. The shape says that the arrival
  set of a barrier is exactly the set of warps blocked at it and that blocked warps are
  active warps of an allocated CTA.
\<close>

definition parked :: "barrier_set \<Rightarrow> nat \<Rightarrow> nat \<Rightarrow> bool" where
  "parked s b w \<longleftrightarrow> w \<in> bs_m_warp_at_barrier s \<and>
     bs_m_warp_barrier_type s ! w = BARRIER_WAIT_BAR_SYNC \<and> bs_m_warp_named_barrier_id s ! w = Some b"

definition bs_static :: "barrier_set \<Rightarrow> bool" where
  "bs_static s \<longleftrightarrow>
     length (bs_m_warp_barrier_type s) = bs_m_max_warps_per_core s \<and>
     length (bs_m_warp_named_barrier_id s) = bs_m_max_warps_per_core s \<and>
     bs_barrier_release_latency s = 0 \<and> bs_m_pending_mbarrier_waits s = {} \<and>
     (\<forall>c ws. bs_m_cta_to_warps s c = Some ws \<longrightarrow>
        c < bs_m_max_cta_per_core s \<and> ws \<subseteq> {..<bs_m_max_warps_per_core s}) \<and>
     (\<forall>c d ws vs. bs_m_cta_to_warps s c = Some ws \<longrightarrow> bs_m_cta_to_warps s d = Some vs \<longrightarrow>
        c \<noteq> d \<longrightarrow> ws \<inter> vs = {})"

definition bs_shape :: "barrier_set \<Rightarrow> bool" where
  "bs_shape s \<longleftrightarrow> bs_static s \<and>
     bs_m_warp_at_barrier s \<subseteq> bs_m_warp_active s \<and>
     (\<forall>w \<in> bs_m_warp_active s. \<exists>c ws. bs_m_cta_to_warps s c = Some ws \<and> w \<in> ws) \<and>
     (\<forall>b < bs_m_max_barriers_per_cta s. \<forall>w. w \<in> bs_m_bar_id_to_warps s b \<longleftrightarrow> parked s b w)"

definition no_stuck :: "barrier_set \<Rightarrow> nat \<Rightarrow> nat \<Rightarrow> bool" where
  "no_stuck s c b \<longleftrightarrow> (case bs_m_cta_to_warps s c of None \<Rightarrow> True | Some ws \<Rightarrow>
     ws \<inter> bs_m_bar_id_to_warps s b \<noteq> {} \<longrightarrow>
     ws \<inter> bs_m_bar_id_to_warps s b \<noteq> ws \<inter> bs_m_warp_active s)"

definition bs_wf :: "barrier_set \<Rightarrow> bool" where
  "bs_wf s \<longleftrightarrow> bs_shape s \<and> (\<forall>c. \<forall>b < bs_m_max_barriers_per_cta s. no_stuck s c b)"

lemma no_stuck_cong:
  assumes "bs_m_cta_to_warps t = bs_m_cta_to_warps s" "bs_m_bar_id_to_warps t = bs_m_bar_id_to_warps s"
    and "bs_m_warp_active t = bs_m_warp_active s"
  shows "no_stuck t c b = no_stuck s c b"
  using assms by (simp add: no_stuck_def split: option.splits)

lemma bs_static_disjoint:
  assumes "bs_static s" "bs_m_cta_to_warps s c = Some ws" "bs_m_cta_to_warps s d = Some vs"
    and "w \<in> ws" "w \<in> vs"
  shows "c = d"
  using assms unfolding bs_static_def by blast

lemma bs_shape_cta:
  "bs_shape s \<Longrightarrow> w \<in> bs_m_warp_active s \<Longrightarrow> \<exists>c ws. bs_m_cta_to_warps s c = Some ws \<and> w \<in> ws"
  by (simp add: bs_shape_def)

lemma bs_shape_at_max:
  assumes "bs_shape s" "w \<in> bs_m_warp_at_barrier s"
  shows "w < bs_m_max_warps_per_core s"
proof -
  have "w \<in> bs_m_warp_active s" using assms unfolding bs_shape_def by blast
  then obtain c ws where "bs_m_cta_to_warps s c = Some ws" "w \<in> ws"
    using assms(1) unfolding bs_shape_def by blast
  moreover have "bs_static s" using assms(1) by (simp add: bs_shape_def)
  ultimately show ?thesis unfolding bs_static_def by blast
qed

lemma clear_waiters_ok:
  assumes "bs_barrier_release_latency s = 0" "distinct ws"
    and "length (bs_m_warp_named_barrier_id s) = bs_m_max_warps_per_core s"
    and "\<forall>w \<in> set ws \<inter> waiters. w < bs_m_max_warps_per_core s \<and> w \<in> bs_m_warp_at_barrier s \<and>
      bs_m_warp_barrier_type s ! w = BARRIER_WAIT_BAR_SYNC"
  shows "\<exists>nm. clear_waiters waiters ws s = Some (s
      \<lparr>bs_m_warp_at_barrier := bs_m_warp_at_barrier s - (set ws \<inter> waiters),
       bs_m_warp_named_barrier_id := nm\<rparr>) \<and>
    length nm = length (bs_m_warp_named_barrier_id s) \<and>
    (\<forall>w. w \<notin> set ws \<inter> waiters \<longrightarrow> nm ! w = bs_m_warp_named_barrier_id s ! w)"
  using assms
proof (induction ws arbitrary: s)
  case Nil
  then show ?case by (intro exI [of _ "bs_m_warp_named_barrier_id s"]) simp
next
  case (Cons w ws)
  show ?case
  proof (cases "w \<in> waiters")
    case False
    from Cons.IH [of s] Cons.prems False show ?thesis by auto
  next
    case True
    define s1 where "s1 = s\<lparr>bs_m_warp_at_barrier := bs_m_warp_at_barrier s - {w},
       bs_m_warp_named_barrier_id := (bs_m_warp_named_barrier_id s)[w := None]\<rparr>"
    have "clear_warp_waiting w BARRIER_WAIT_BAR_SYNC s = Some s1"
      using True Cons.prems by (simp add: clear_warp_waiting_def assert_warp_waiting_def s1_def)
    moreover have "\<exists>nm. clear_waiters waiters ws s1 = Some (s1
        \<lparr>bs_m_warp_at_barrier := bs_m_warp_at_barrier s1 - (set ws \<inter> waiters),
         bs_m_warp_named_barrier_id := nm\<rparr>) \<and>
      length nm = length (bs_m_warp_named_barrier_id s1) \<and>
      (\<forall>v. v \<notin> set ws \<inter> waiters \<longrightarrow> nm ! v = bs_m_warp_named_barrier_id s1 ! v)"
      using Cons.prems by (intro Cons.IH) (auto simp: s1_def)
    then obtain nm where nm: "clear_waiters waiters ws s1 = Some (s1
        \<lparr>bs_m_warp_at_barrier := bs_m_warp_at_barrier s1 - (set ws \<inter> waiters),
         bs_m_warp_named_barrier_id := nm\<rparr>)"
      "length nm = length (bs_m_warp_named_barrier_id s1)"
      "\<forall>v. v \<notin> set ws \<inter> waiters \<longrightarrow> nm ! v = bs_m_warp_named_barrier_id s1 ! v" by blast
    moreover have "bs_m_warp_at_barrier s1 - (set ws \<inter> waiters) =
        bs_m_warp_at_barrier s - (set (w # ws) \<inter> waiters)"
      using True by (auto simp: s1_def)
    ultimately show ?thesis
      using True Cons.prems(1)
      by (intro exI [of _ nm]) (auto simp: s1_def nth_list_update)
  qed
qed

text \<open>Releasing a barrier: the blocked arrivals go on, nothing else changes.\<close>

lemma release_barrier_ok:
  assumes shape: "bs_shape s" and ws: "bs_m_cta_to_warps s c = Some ws"
    and b: "b < bs_m_max_barriers_per_cta s"
  defines "at_bar \<equiv> ws \<inter> bs_m_bar_id_to_warps s b"
  shows "\<exists>s'. release_barrier c b at_bar s = Some s' \<and> bs_shape s' \<and>
    bs_m_bar_id_to_warps s' = (bs_m_bar_id_to_warps s)(b := bs_m_bar_id_to_warps s b - at_bar) \<and>
    bs_m_warp_at_barrier s' = bs_m_warp_at_barrier s - at_bar \<and>
    bs_m_warp_active s' = bs_m_warp_active s \<and> bs_m_cta_to_warps s' = bs_m_cta_to_warps s \<and>
    bs_m_max_barriers_per_cta s' = bs_m_max_barriers_per_cta s \<and>
    bs_m_max_cta_per_core s' = bs_m_max_cta_per_core s \<and>
    bs_m_max_warps_per_core s' = bs_m_max_warps_per_core s"
proof -
  have static: "bs_static s" and at: "bs_m_warp_at_barrier s \<subseteq> bs_m_warp_active s"
    and J: "\<And>b w. b < bs_m_max_barriers_per_cta s \<Longrightarrow> w \<in> bs_m_bar_id_to_warps s b \<longleftrightarrow> parked s b w"
    using shape by (simp_all add: bs_shape_def)
  have sub: "at_bar \<subseteq> {..<bs_m_max_warps_per_core s}"
    using static ws unfolding at_bar_def bs_static_def by blast
  have parked: "parked s b w" if "w \<in> at_bar" for w using that J [OF b] by (simp add: at_bar_def)
  define s0 where "s0 = s\<lparr>bs_m_bar_id_to_warps := (bs_m_bar_id_to_warps s)
      (b := bs_m_bar_id_to_warps s b - at_bar)\<rparr>"
  have waiters: "named_barrier_waiters b at_bar s = at_bar"
    using sub parked by (auto simp: named_barrier_waiters_def parked_def)
  have "\<exists>nm. clear_waiters at_bar [0..<bs_m_max_warps_per_core s0] s0 = Some (s0
      \<lparr>bs_m_warp_at_barrier := bs_m_warp_at_barrier s0 -
         (set [0..<bs_m_max_warps_per_core s0] \<inter> at_bar), bs_m_warp_named_barrier_id := nm\<rparr>) \<and>
    length nm = length (bs_m_warp_named_barrier_id s0) \<and>
    (\<forall>w. w \<notin> set [0..<bs_m_max_warps_per_core s0] \<inter> at_bar \<longrightarrow>
      nm ! w = bs_m_warp_named_barrier_id s0 ! w)"
    using static parked by (intro clear_waiters_ok) (auto simp: s0_def bs_static_def parked_def)
  moreover have "set [0..<bs_m_max_warps_per_core s0] \<inter> at_bar = at_bar"
    using sub by (auto simp: s0_def)
  ultimately obtain nm where nm: "clear_waiters at_bar [0..<bs_m_max_warps_per_core s0] s0 = Some (s0
      \<lparr>bs_m_warp_at_barrier := bs_m_warp_at_barrier s0 - at_bar, bs_m_warp_named_barrier_id := nm\<rparr>)"
    "length nm = length (bs_m_warp_named_barrier_id s)"
    "\<And>w. w \<notin> at_bar \<Longrightarrow> nm ! w = bs_m_warp_named_barrier_id s ! w"
    by (auto simp: s0_def)
  define s' where "s' = s0\<lparr>bs_m_warp_at_barrier := bs_m_warp_at_barrier s0 - at_bar,
      bs_m_warp_named_barrier_id := nm,
      bs_m_bar_id_to_count := (bs_m_bar_id_to_count s0)((c, b) := None)\<rparr>"
  have rel: "release_barrier c b at_bar s = Some s'"
    using waiters nm(1)
    by (simp add: release_barrier_def clear_named_barrier_waiters_def s0_def [symmetric] s'_def)
  have parked': "parked s' b' w \<longleftrightarrow> parked s b' w \<and> w \<notin> at_bar" for b' w
    using nm(3) [of w] by (auto simp: parked_def s'_def s0_def)
  have "bs_static s'" using static nm(2) by (simp add: bs_static_def s'_def s0_def)
  moreover have "w \<in> bs_m_bar_id_to_warps s' b' \<longleftrightarrow> parked s' b' w"
    if "b' < bs_m_max_barriers_per_cta s" for b' w
  proof (cases "b' = b")
    case True
    then show ?thesis using J [OF b] unfolding parked' by (simp add: s'_def s0_def)
  next
    case False
    then have "parked s b' w \<Longrightarrow> w \<notin> at_bar" using parked by (auto simp: parked_def)
    then show ?thesis using False J [OF that] unfolding parked' by (auto simp: s'_def s0_def)
  qed
  ultimately have "bs_shape s'"
    using shape by (auto simp: bs_shape_def s'_def s0_def)
  then show ?thesis using rel by (auto simp: s'_def s0_def)
qed

lemma release_no_stuck:
  assumes "bs_shape s" "bs_m_cta_to_warps s c = Some ws"
    and "bs_m_bar_id_to_warps s' =
      (bs_m_bar_id_to_warps s)(b := bs_m_bar_id_to_warps s b - (ws \<inter> bs_m_bar_id_to_warps s b))"
    and "bs_m_warp_active s' = bs_m_warp_active s" "bs_m_cta_to_warps s' = bs_m_cta_to_warps s"
  shows "no_stuck s' c b" and "(d, b') \<noteq> (c, b) \<Longrightarrow> no_stuck s d b' \<Longrightarrow> no_stuck s' d b'"
proof -
  show "no_stuck s' c b" using assms(2,3,5) by (auto simp: no_stuck_def)
  assume other: "(d, b') \<noteq> (c, b)" and ns: "no_stuck s d b'"
  show "no_stuck s' d b'"
  proof (cases "b' = b")
    case False
    with ns assms(3-5) show ?thesis by (simp add: no_stuck_def split: option.splits)
  next
    case True
    then have "d \<noteq> c" using other by simp
    then have disj: "vs \<inter> ws = {}" if "bs_m_cta_to_warps s d = Some vs" for vs
      using assms(1,2) that unfolding bs_shape_def bs_static_def by blast
    then have "vs \<inter> (bs_m_bar_id_to_warps s b - (ws \<inter> bs_m_bar_id_to_warps s b)) =
        vs \<inter> bs_m_bar_id_to_warps s b" if "bs_m_cta_to_warps s d = Some vs" for vs
      using that by blast
    with ns True assms(3-5) show ?thesis by (auto simp: no_stuck_def split: option.splits)
  qed
qed

text \<open>The arrival of a warp at a barrier of the whole CTA.\<close>

lemma mark_arrival_ok:
  assumes wf: "bs_wf s" and ws: "bs_m_cta_to_warps s c = Some ws" and w: "w \<in> ws"
    and active: "w \<in> bs_m_warp_active s" "w \<notin> bs_m_warp_at_barrier s"
    and b: "b < bs_m_max_barriers_per_cta s" and t: "t = BT_SYNC \<or> t = BT_RED"
  defines "s1 \<equiv> mark_arrival c w t b None s"
  shows "bs_shape s1 \<and> (\<forall>d b'. b' < bs_m_max_barriers_per_cta s \<longrightarrow> (d, b') \<noteq> (c, b) \<longrightarrow> no_stuck s1 d b') \<and>
    bs_m_bar_id_to_warps s1 = (bs_m_bar_id_to_warps s)(b := insert w (bs_m_bar_id_to_warps s b)) \<and>
    bs_m_warp_at_barrier s1 = insert w (bs_m_warp_at_barrier s) \<and>
    bs_m_warp_active s1 = bs_m_warp_active s \<and> bs_m_cta_to_warps s1 = bs_m_cta_to_warps s \<and>
    bs_m_max_barriers_per_cta s1 = bs_m_max_barriers_per_cta s \<and>
    bs_m_max_cta_per_core s1 = bs_m_max_cta_per_core s \<and>
    bs_m_max_warps_per_core s1 = bs_m_max_warps_per_core s"
proof -
  have shape: "bs_shape s" and ns: "\<And>d b. b < bs_m_max_barriers_per_cta s \<Longrightarrow> no_stuck s d b"
    using wf by (auto simp: bs_wf_def)
  have static: "bs_static s" using shape by (simp add: bs_shape_def)
  have wmax: "w < bs_m_max_warps_per_core s" using static ws w unfolding bs_static_def by blast
  have s1: "s1 = set_warp_waiting w BARRIER_WAIT_BAR_SYNC (Some b)
      (s\<lparr>bs_m_bar_id_to_warps := (bs_m_bar_id_to_warps s)(b := insert w (bs_m_bar_id_to_warps s b)),
         bs_m_mbar_partial_wait := (bs_m_mbar_partial_wait s)[w := False]\<rparr>)"
    using t by (simp add: s1_def mark_arrival_def Let_def)
  have len: "w < length (bs_m_warp_barrier_type s)" "w < length (bs_m_warp_named_barrier_id s)"
    using static wmax by (simp_all add: bs_static_def)
  have parked: "parked s1 b' v \<longleftrightarrow> (if v = w then b' = b else parked s b' v)" for b' v
    using len by (auto simp: s1 parked_def set_warp_waiting_def nth_list_update)
  have not_parked: "\<not> parked s b' w" for b' using active(2) by (simp add: parked_def)
  have J: "v \<in> bs_m_bar_id_to_warps s1 b' \<longleftrightarrow> parked s1 b' v"
    if "b' < bs_m_max_barriers_per_cta s" for b' v
  proof -
    have "v \<in> bs_m_bar_id_to_warps s b' \<longleftrightarrow> parked s b' v" using shape that by (simp add: bs_shape_def)
    then show ?thesis using not_parked [of b'] unfolding parked
      by (auto simp: s1 set_warp_waiting_def)
  qed
  have "bs_static s1" using static by (simp add: bs_static_def s1 set_warp_waiting_def)
  then have "bs_shape s1"
    using shape active(1) J by (simp add: bs_shape_def s1 set_warp_waiting_def)
  moreover have "no_stuck s1 d b'" if "b' < bs_m_max_barriers_per_cta s" "(d, b') \<noteq> (c, b)" for d b'
  proof (cases "b' = b")
    case False
    with ns [OF that(1), of d] show ?thesis
      by (simp add: no_stuck_def s1 set_warp_waiting_def split: option.splits)
  next
    case True
    then have "d \<noteq> c" using that(2) by simp
    then have disj: "w \<notin> vs" if "bs_m_cta_to_warps s d = Some vs" for vs
      using static ws w that unfolding bs_static_def by blast
    then have "vs \<inter> insert w (bs_m_bar_id_to_warps s b) = vs \<inter> bs_m_bar_id_to_warps s b"
      if "bs_m_cta_to_warps s d = Some vs" for vs
      using that by blast
    with ns [OF b, of d] True show ?thesis
      by (auto simp: no_stuck_def s1 set_warp_waiting_def split: option.splits)
  qed
  ultimately show ?thesis by (simp add: s1 set_warp_waiting_def)
qed

lemma warp_reaches_barrier_ok:
  assumes wf: "bs_wf s" and ws: "bs_m_cta_to_warps s c = Some ws" and w: "w \<in> ws"
    and active: "w \<in> bs_m_warp_active s" "w \<notin> bs_m_warp_at_barrier s"
    and b: "b < bs_m_max_barriers_per_cta s" and t: "t = BT_SYNC \<or> t = BT_RED"
  defines "arrived \<equiv> insert w (ws \<inter> bs_m_bar_id_to_warps s b)"
  shows "\<exists>red s'. warp_reaches_barrier c w t b None s = Some (red, s') \<and> bs_wf s' \<and>
    bs_m_max_barriers_per_cta s' = bs_m_max_barriers_per_cta s \<and>
    bs_m_warp_at_barrier s' = (if arrived = ws \<inter> bs_m_warp_active s
      then bs_m_warp_at_barrier s - arrived else insert w (bs_m_warp_at_barrier s)) \<and>
    red = (if arrived = ws \<inter> bs_m_warp_active s \<and> t = BT_RED then Some arrived else None)"
proof -
  define s1 where "s1 = mark_arrival c w t b None s"
  from mark_arrival_ok [OF wf ws w active b t] have s1: "bs_shape s1"
    "\<And>d b'. b' < bs_m_max_barriers_per_cta s \<Longrightarrow> (d, b') \<noteq> (c, b) \<Longrightarrow> no_stuck s1 d b'"
    "bs_m_bar_id_to_warps s1 = (bs_m_bar_id_to_warps s)(b := insert w (bs_m_bar_id_to_warps s b))"
    "bs_m_warp_at_barrier s1 = insert w (bs_m_warp_at_barrier s)"
    "bs_m_warp_active s1 = bs_m_warp_active s" "bs_m_cta_to_warps s1 = bs_m_cta_to_warps s"
    "bs_m_max_barriers_per_cta s1 = bs_m_max_barriers_per_cta s"
    by (simp_all add: s1_def)
  have at: "ws \<inter> bs_m_bar_id_to_warps s1 b = arrived" using w s1(3) by (auto simp: arrived_def)
  show ?thesis
  proof (cases "arrived = ws \<inter> bs_m_warp_active s")
    case False
    then have "no_stuck s1 c b" using at ws s1(5,6) by (simp add: no_stuck_def)
    then have "no_stuck s1 d b'" if "b' < bs_m_max_barriers_per_cta s" for d b'
      using s1(2) [OF that, of d] by (cases "(d, b') = (c, b)") auto
    then have "bs_wf s1" using s1(1,7) by (simp add: bs_wf_def)
    moreover have "warp_reaches_barrier c w t b None s = Some (None, s1)"
      using False ws w at s1(5) by (simp add: warp_reaches_barrier_def s1_def [symmetric] Let_def)
    ultimately show ?thesis using False s1(4,7) by simp
  next
    case True
    have b1: "b < bs_m_max_barriers_per_cta s1" and ws1: "bs_m_cta_to_warps s1 c = Some ws"
      using b ws s1(6,7) by simp_all
    from release_barrier_ok [OF s1(1) ws1 b1] obtain s' where
      s': "release_barrier c b arrived s1 = Some s'" "bs_shape s'"
      "bs_m_bar_id_to_warps s' = (bs_m_bar_id_to_warps s1)(b := bs_m_bar_id_to_warps s1 b - (ws \<inter> bs_m_bar_id_to_warps s1 b))"
      "bs_m_warp_at_barrier s' = bs_m_warp_at_barrier s1 - arrived"
      "bs_m_warp_active s' = bs_m_warp_active s1" "bs_m_cta_to_warps s' = bs_m_cta_to_warps s1"
      "bs_m_max_barriers_per_cta s' = bs_m_max_barriers_per_cta s1"
      unfolding at by blast
    note rel = release_no_stuck [OF s1(1) ws1 s'(3,5,6)]
    have "no_stuck s' d b'" if "b' < bs_m_max_barriers_per_cta s" for d b'
      using rel s1(2) [OF that] by (cases "(d, b') = (c, b)") auto
    then have "bs_wf s'" using s'(2,7) s1(7) by (simp add: bs_wf_def)
    moreover have "warp_reaches_barrier c w t b None s =
        Some (if t = BT_RED then Some arrived else None, s')"
      using True ws w at s1(5) s'(1)
      by (simp add: warp_reaches_barrier_def s1_def [symmetric] Let_def)
    moreover have "bs_m_warp_at_barrier s' = bs_m_warp_at_barrier s - arrived"
      using s'(4) s1(4) by (auto simp: arrived_def)
    ultimately show ?thesis using True s'(7) s1(7) by simp
  qed
qed

text \<open>The exit of a warp.\<close>

lemma exit_barriers_ok:
  assumes "bs_shape s" "bs_m_cta_to_warps s c = Some ws"
    and "\<forall>i \<in> set is. i < bs_m_max_barriers_per_cta s"
    and "\<forall>d b. b < bs_m_max_barriers_per_cta s \<longrightarrow> (d = c \<longrightarrow> b \<notin> set is) \<longrightarrow> no_stuck s d b"
  shows "\<exists>s'. exit_barriers c ws is s = Some s' \<and> bs_wf s' \<and>
    bs_m_max_barriers_per_cta s' = bs_m_max_barriers_per_cta s"
  using assms
proof (induction "is" arbitrary: s)
  case Nil
  then show ?case by (simp add: bs_wf_def)
next
  case (Cons i "is")
  let ?at = "ws \<inter> bs_m_bar_id_to_warps s i"
  have i: "i < bs_m_max_barriers_per_cta s" using Cons.prems(3) by simp
  show ?case
  proof (cases "?at = ws \<inter> bs_m_warp_active s")
    case False
    then have "no_stuck s c i" using Cons.prems(2) by (simp add: no_stuck_def)
    then have "\<forall>d b. b < bs_m_max_barriers_per_cta s \<longrightarrow> (d = c \<longrightarrow> b \<notin> set is) \<longrightarrow> no_stuck s d b"
      using Cons.prems(4) by (metis set_ConsD)
    with Cons.IH [of s] Cons.prems(1-3) False show ?thesis by simp
  next
    case True
    from release_barrier_ok [OF Cons.prems(1,2) i] obtain s1 where
      s1: "release_barrier c i ?at s = Some s1" "bs_shape s1"
      "bs_m_bar_id_to_warps s1 = (bs_m_bar_id_to_warps s)(i := bs_m_bar_id_to_warps s i - ?at)"
      "bs_m_warp_active s1 = bs_m_warp_active s" "bs_m_cta_to_warps s1 = bs_m_cta_to_warps s"
      "bs_m_max_barriers_per_cta s1 = bs_m_max_barriers_per_cta s" by blast
    note rel = release_no_stuck [OF Cons.prems(1,2) s1(3-5)]
    have "no_stuck s1 d b" if "b < bs_m_max_barriers_per_cta s" "d = c \<longrightarrow> b \<notin> set is" for d b
      using rel Cons.prems(4) that by (cases "(d, b) = (c, i)") auto
    then have "\<exists>s'. exit_barriers c ws is s1 = Some s' \<and> bs_wf s' \<and>
        bs_m_max_barriers_per_cta s' = bs_m_max_barriers_per_cta s1"
      using s1 Cons.prems(2,3) by (intro Cons.IH) auto
    with s1(1,6) True show ?thesis by auto
  qed
qed

lemma warp_exit_ok:
  assumes wf: "bs_wf s" and active: "w \<in> bs_m_warp_active s" "w \<notin> bs_m_warp_at_barrier s"
  shows "\<exists>s'. warp_exit w s = Some s' \<and> bs_wf s' \<and>
    bs_m_max_barriers_per_cta s' = bs_m_max_barriers_per_cta s"
proof -
  have shape: "bs_shape s" and static: "bs_static s" using wf by (simp_all add: bs_wf_def bs_shape_def)
  define s2 where "s2 = s\<lparr>bs_m_warp_active := bs_m_warp_active s - {w},
      bs_m_warp_named_barrier_id := (bs_m_warp_named_barrier_id s)[w := None]\<rparr>"
  obtain c ws where c: "bs_m_cta_to_warps s c = Some ws" "w \<in> ws"
    using shape active(1) by (auto simp: bs_shape_def)
  have cmax: "c < bs_m_max_cta_per_core s" using static c(1) by (simp add: bs_static_def)
  let ?has = "\<lambda>c. case bs_m_cta_to_warps s2 c of None \<Rightarrow> False | Some ws \<Rightarrow> w \<in> ws"
  have has: "?has d \<longleftrightarrow> d = c" for d
  proof (cases "bs_m_cta_to_warps s d")
    case None
    with c(1) show ?thesis by (auto simp: s2_def)
  next
    case (Some vs)
    with bs_static_disjoint [OF static c(1) Some c(2)] c show ?thesis by (auto simp: s2_def)
  qed
  have find: "find ?has [0..<bs_m_max_cta_per_core s2] = Some c"
  proof -
    have "find (\<lambda>d. d = c) [0..<bs_m_max_cta_per_core s] = Some c"
      unfolding find_Some_iff by (intro exI [of _ c]) (use cmax in simp)
    moreover have "?has = (\<lambda>d. d = c)" using has by (simp add: fun_eq_iff)
    moreover have "bs_m_max_cta_per_core s2 = bs_m_max_cta_per_core s" by (simp add: s2_def)
    ultimately show ?thesis by simp
  qed
  have parked: "parked s2 b v \<longleftrightarrow> parked s b v" for b v
  proof (cases "v = w")
    case True
    then show ?thesis using active(2) by (simp add: parked_def s2_def)
  next
    case False
    then show ?thesis by (simp add: parked_def s2_def nth_list_update)
  qed
  have "bs_static s2" using static by (simp add: bs_static_def s2_def)
  then have "bs_shape s2"
    using shape active(2) unfolding bs_shape_def parked by (auto simp: s2_def)
  moreover have "\<forall>d b. b < bs_m_max_barriers_per_cta s2 \<longrightarrow> (d = c \<longrightarrow> b \<notin> set [0..<bs_m_max_barriers_per_cta s2])
      \<longrightarrow> no_stuck s2 d b"
  proof (intro allI impI)
    fix d b
    assume b: "b < bs_m_max_barriers_per_cta s2" "d = c \<longrightarrow> b \<notin> set [0..<bs_m_max_barriers_per_cta s2]"
    then have "d \<noteq> c" by auto
    then have "w \<notin> vs" if "bs_m_cta_to_warps s d = Some vs" for vs
      using has [of d] that by (simp add: s2_def)
    then have "vs \<inter> (bs_m_warp_active s - {w}) = vs \<inter> bs_m_warp_active s"
      if "bs_m_cta_to_warps s d = Some vs" for vs using that by blast
    moreover have "no_stuck s d b" using wf b by (simp add: bs_wf_def s2_def)
    ultimately show "no_stuck s2 d b" by (auto simp: no_stuck_def s2_def split: option.splits)
  qed
  moreover have "bs_m_cta_to_warps s2 c = Some ws" using c(1) by (simp add: s2_def)
  ultimately obtain s' where s': "exit_barriers c ws [0..<bs_m_max_barriers_per_cta s2] s2 = Some s'"
    "bs_wf s'" "bs_m_max_barriers_per_cta s' = bs_m_max_barriers_per_cta s2"
    using exit_barriers_ok [of s2 c ws "[0..<bs_m_max_barriers_per_cta s2]"] by auto
  have "cancel_mbarrier_wait w s = Some s"
    using static by (simp add: cancel_mbarrier_wait_def bs_static_def)
  then have "warp_exit w s = Some s'"
    using find c(1) s'(1) by (simp add: warp_exit_def s2_def [symmetric] Let_def) (simp add: s2_def)
  with s' show ?thesis by (simp add: s2_def)
qed

text \<open>The other waits and the allocation of CTAs.\<close>

lemma other_wait_ok:
  assumes wf: "bs_wf s" and active: "w \<in> bs_m_warp_active s" "w \<notin> bs_m_warp_at_barrier s"
    and t: "t \<noteq> BARRIER_WAIT_BAR_SYNC"
  shows "bs_wf (set_warp_waiting w t None s)"
proof -
  have shape: "bs_shape s" and static: "bs_static s" using wf by (simp_all add: bs_wf_def bs_shape_def)
  obtain c ws where "bs_m_cta_to_warps s c = Some ws" "w \<in> ws"
    using shape active(1) by (auto simp: bs_shape_def)
  then have w: "w < bs_m_max_warps_per_core s" using static unfolding bs_static_def by blast
  let ?s = "set_warp_waiting w t None s"
  have parked: "parked ?s b v \<longleftrightarrow> parked s b v" for b v
    using w static t active(2)
    by (cases "v = w") (auto simp: parked_def set_warp_waiting_def bs_static_def)
  have "bs_shape ?s"
    using shape active(1) unfolding bs_shape_def parked
    by (simp add: set_warp_waiting_def bs_static_def)
  moreover have "no_stuck ?s c b = no_stuck s c b" for c b
    by (rule no_stuck_cong) (simp_all add: set_warp_waiting_def)
  ultimately show ?thesis using wf by (simp add: bs_wf_def set_warp_waiting_def)
qed

lemma other_release_ok:
  assumes wf: "bs_wf s" and w: "w \<in> bs_m_warp_at_barrier s" "bs_m_warp_barrier_type s ! w = t"
    and t: "t \<noteq> BARRIER_WAIT_BAR_SYNC"
  shows "\<exists>s'. clear_warp_waiting w t s = Some s' \<and> bs_wf s' \<and>
    bs_m_max_barriers_per_cta s' = bs_m_max_barriers_per_cta s"
proof -
  have shape: "bs_shape s" and static: "bs_static s" using wf by (simp_all add: bs_wf_def bs_shape_def)
  have wmax: "w < bs_m_max_warps_per_core s" using shape w(1) by (rule bs_shape_at_max)
  let ?s = "s\<lparr>bs_m_warp_at_barrier := bs_m_warp_at_barrier s - {w},
             bs_m_warp_named_barrier_id := (bs_m_warp_named_barrier_id s)[w := None]\<rparr>"
  have parked: "parked ?s b v \<longleftrightarrow> parked s b v" for b v
    using w(2) t by (cases "v = w") (auto simp: parked_def nth_list_update)
  have "bs_static ?s" using static by (simp add: bs_static_def)
  then have "bs_shape ?s"
    using shape unfolding bs_shape_def parked by auto
  moreover have "no_stuck ?s c b = no_stuck s c b" for c b by (rule no_stuck_cong) simp_all
  ultimately have "bs_wf ?s" using wf by (simp add: bs_wf_def)
  then show ?thesis
    using w wmax by (simp add: clear_warp_waiting_def assert_warp_waiting_def)
qed

lemma allocate_ok:
  assumes wf: "bs_wf s" and c: "c < bs_m_max_cta_per_core s" "bs_m_cta_to_warps s c = None"
    and ws: "ws \<subseteq> {..<bs_m_max_warps_per_core s}"
    and free: "\<forall>d vs. bs_m_cta_to_warps s d = Some vs \<longrightarrow> ws \<inter> vs = {}"
  shows "\<exists>s'. allocate_barrier c ws s = Some s' \<and> bs_wf s' \<and>
    bs_m_max_barriers_per_cta s' = bs_m_max_barriers_per_cta s"
proof -
  have shape: "bs_shape s" and static: "bs_static s" using wf by (simp_all add: bs_wf_def bs_shape_def)
  have idle: "w \<notin> bs_m_warp_active s" if "w \<in> ws" for w
  proof
    assume "w \<in> bs_m_warp_active s"
    then obtain d vs where "bs_m_cta_to_warps s d = Some vs" "w \<in> vs"
      using shape by (auto simp: bs_shape_def)
    with free that show False by blast
  qed
  define s' where "s' = erase_cta_counts c (erase_warps_from_barriers ws (clear_named_ids ws
       (s\<lparr>bs_m_cta_to_warps := (bs_m_cta_to_warps s)(c := Some ws),
          bs_m_warp_active := bs_m_warp_active s \<union> ws,
          bs_m_warp_at_barrier := bs_m_warp_at_barrier s - ws,
          bs_m_mbar_partial_wait := map (\<lambda>w. if w \<in> ws then False
            else bs_m_mbar_partial_wait s ! w) [0..<bs_m_max_warps_per_core s]\<rparr>)))"
  note s'_simps = s'_def erase_cta_counts_def erase_warps_from_barriers_def clear_named_ids_def
  have alloc: "allocate_barrier c ws s = Some s'" using c by (simp add: allocate_barrier_def s'_def)
  have at: "bs_m_warp_at_barrier s \<inter> ws = {}" using shape idle by (auto simp: bs_shape_def)
  note at_max = bs_shape_at_max [OF shape]
  have parked: "parked s' b v \<longleftrightarrow> parked s b v" for b v
    using at at_max [of v] by (cases "v \<in> bs_m_warp_at_barrier s") (auto simp: parked_def s'_simps)
  have bar: "bs_m_bar_id_to_warps s' b = bs_m_bar_id_to_warps s b" if "b < bs_m_max_barriers_per_cta s" for b
  proof -
    have "bs_m_bar_id_to_warps s b \<inter> ws = {}"
      using shape that at by (auto simp: bs_shape_def parked_def)
    then show ?thesis using that by (auto simp: s'_simps)
  qed
  have "bs_static s'"
    using static c ws free by (auto simp: bs_static_def s'_simps)
  moreover have "\<forall>w \<in> bs_m_warp_active s'. \<exists>d vs. bs_m_cta_to_warps s' d = Some vs \<and> w \<in> vs"
  proof
    fix w assume "w \<in> bs_m_warp_active s'"
    then have "w \<in> ws \<or> w \<in> bs_m_warp_active s" by (auto simp: s'_simps)
    then show "\<exists>d vs. bs_m_cta_to_warps s' d = Some vs \<and> w \<in> vs"
    proof
      assume "w \<in> ws"
      then show ?thesis by (intro exI [of _ c] exI [of _ ws]) (simp add: s'_simps)
    next
      assume "w \<in> bs_m_warp_active s"
      then obtain d vs where "bs_m_cta_to_warps s d = Some vs" "w \<in> vs"
        using shape by (auto simp: bs_shape_def)
      then show ?thesis using c(2) by (intro exI [of _ d] exI [of _ vs]) (auto simp: s'_simps)
    qed
  qed
  moreover have "bs_m_warp_at_barrier s' \<subseteq> bs_m_warp_active s'"
    using shape by (auto simp: bs_shape_def s'_simps)
  moreover have max: "bs_m_max_barriers_per_cta s' = bs_m_max_barriers_per_cta s" by (simp add: s'_simps)
  moreover have "\<forall>b < bs_m_max_barriers_per_cta s. \<forall>w. w \<in> bs_m_bar_id_to_warps s' b \<longleftrightarrow> parked s' b w"
    using shape bar unfolding parked by (simp add: bs_shape_def)
  ultimately have "bs_shape s'" by (simp add: bs_shape_def)
  moreover have "no_stuck s' d b" if b: "b < bs_m_max_barriers_per_cta s" for d b
  proof (cases "d = c")
    case True
    have "ws \<inter> bs_m_bar_id_to_warps s b = {}"
      using shape b at by (auto simp: bs_shape_def parked_def)
    then show ?thesis using True bar [OF b] by (simp add: no_stuck_def s'_simps split: option.splits)
  next
    case False
    have "vs \<inter> (bs_m_warp_active s \<union> ws) = vs \<inter> bs_m_warp_active s"
      if "bs_m_cta_to_warps s d = Some vs" for vs using free that by blast
    moreover have "no_stuck s d b" using wf b by (simp add: bs_wf_def)
    ultimately show ?thesis
      using False bar [OF b] by (auto simp: no_stuck_def s'_def erase_cta_counts_def
          erase_warps_from_barriers_def clear_named_ids_def split: option.splits)
  qed
  ultimately show ?thesis using alloc max by (simp add: bs_wf_def)
qed

lemma deallocate_ok:
  assumes wf: "bs_wf s" and c: "bs_m_cta_to_warps s c = Some ws"
    and idle: "ws \<inter> bs_m_warp_active s = {}"
  shows "\<exists>s'. deallocate_barrier c [] s = Some s' \<and> bs_wf s' \<and>
    bs_m_max_barriers_per_cta s' = bs_m_max_barriers_per_cta s"
proof -
  have shape: "bs_shape s" and static: "bs_static s" using wf by (simp_all add: bs_wf_def bs_shape_def)
  have at: "ws \<inter> bs_m_warp_at_barrier s = {}" using shape idle by (auto simp: bs_shape_def)
  define s2 where "s2 = erase_cta_counts c (erase_warps_from_barriers ws (clear_named_ids ws
       (s\<lparr>bs_m_warp_active := bs_m_warp_active s - ws,
          bs_m_warp_at_barrier := bs_m_warp_at_barrier s - ws\<rparr>)))"
  define s' where "s' = s2\<lparr>bs_m_cta_to_warps := (bs_m_cta_to_warps s2)(c := None)\<rparr>"
  note s'_simps = s'_def s2_def erase_cta_counts_def erase_warps_from_barriers_def clear_named_ids_def
  have dealloc: "deallocate_barrier c [] s = Some s'"
    using c at idle by (simp add: deallocate_barrier_def s2_def s'_def Let_def)
  note at_max = bs_shape_at_max [OF shape]
  have parked: "parked s' b v \<longleftrightarrow> parked s b v" for b v
    using at at_max [of v] by (cases "v \<in> bs_m_warp_at_barrier s") (auto simp: parked_def s'_simps)
  have bar: "bs_m_bar_id_to_warps s' b = bs_m_bar_id_to_warps s b" if "b < bs_m_max_barriers_per_cta s" for b
  proof -
    have "bs_m_bar_id_to_warps s b \<inter> ws = {}"
      using shape that at by (auto simp: bs_shape_def parked_def)
    then show ?thesis using that by (auto simp: s'_simps)
  qed
  have active: "bs_m_warp_active s' = bs_m_warp_active s" using idle by (auto simp: s'_simps)
  have at': "bs_m_warp_at_barrier s' = bs_m_warp_at_barrier s" using at by (auto simp: s'_simps)
  have ctas: "bs_m_cta_to_warps s' = (bs_m_cta_to_warps s)(c := None)" by (simp add: s'_simps)
  have max: "bs_m_max_barriers_per_cta s' = bs_m_max_barriers_per_cta s" by (simp add: s'_simps)
  have "bs_static s'" using static by (auto simp: bs_static_def s'_simps)
  moreover have "\<exists>d vs. bs_m_cta_to_warps s' d = Some vs \<and> w \<in> vs" if w: "w \<in> bs_m_warp_active s" for w
  proof -
    obtain d vs where d: "bs_m_cta_to_warps s d = Some vs" "w \<in> vs"
      using bs_shape_cta [OF shape w] by blast
    then have "d \<noteq> c" using c idle w by (metis disjoint_iff option.inject)
    with d show ?thesis unfolding ctas by auto
  qed
  ultimately have "bs_shape s'"
    using shape bar max unfolding bs_shape_def parked active at' by simp
  moreover have "no_stuck s' d b" if b: "b < bs_m_max_barriers_per_cta s" for d b
  proof (cases "d = c")
    case True
    then show ?thesis by (simp add: no_stuck_def ctas)
  next
    case False
    have "no_stuck s d b" using wf b by (simp add: bs_wf_def)
    with False show ?thesis by (simp add: no_stuck_def ctas active bar [OF b] split: option.splits)
  qed
  ultimately show ?thesis using dealloc max by (simp add: bs_wf_def)
qed

subsection \<open>Runs: no assertion fires and no warp is left behind\<close>

datatype barrier_op = BS_Alloc nat "nat set" | BS_Dealloc nat | BS_Reach nat nat barrier_type nat
  | BS_Exit nat | BS_Wait nat barrier_wait_type | BS_Release nat barrier_wait_type

fun barrier_step :: "barrier_set \<Rightarrow> barrier_op \<Rightarrow> barrier_set option" where
  "barrier_step s (BS_Alloc c ws) = allocate_barrier c ws s"
| "barrier_step s (BS_Dealloc c) = deallocate_barrier c [] s"
| "barrier_step s (BS_Reach c w t b) = map_option snd (warp_reaches_barrier c w t b None s)"
| "barrier_step s (BS_Exit w) = warp_exit w s"
| "barrier_step s (BS_Wait w t) =
     (if t = BARRIER_WAIT_TCGEN05 then wait_tcgen05_warp w s else wait_cluster_barrier w s)"
| "barrier_step s (BS_Release w t) =
     (if t = BARRIER_WAIT_TCGEN05 then release_tcgen05_warp w s else release_cluster_barrier w s)"

text \<open>
  The shader's duties: a CTA takes free warps of the core, gives them up when all of them
  have exited, and only a running warp (active and not blocked) arrives, waits or exits.
\<close>

definition running :: "barrier_set \<Rightarrow> nat \<Rightarrow> bool" where
  "running s w \<longleftrightarrow> w \<in> bs_m_warp_active s \<and> w \<notin> bs_m_warp_at_barrier s"

fun barrier_allowed :: "barrier_set \<Rightarrow> barrier_op \<Rightarrow> bool" where
  "barrier_allowed s (BS_Alloc c ws) \<longleftrightarrow>
     c < bs_m_max_cta_per_core s \<and> bs_m_cta_to_warps s c = None \<and>
     ws \<subseteq> set [0..<bs_m_max_warps_per_core s] \<and>
     (\<forall>d \<in> set [0..<bs_m_max_cta_per_core s].
        case bs_m_cta_to_warps s d of None \<Rightarrow> True | Some vs \<Rightarrow> ws \<inter> vs = {})"
| "barrier_allowed s (BS_Dealloc c) \<longleftrightarrow>
     (case bs_m_cta_to_warps s c of None \<Rightarrow> False | Some ws \<Rightarrow> ws \<inter> bs_m_warp_active s = {})"
| "barrier_allowed s (BS_Reach c w t b) \<longleftrightarrow>
     (case bs_m_cta_to_warps s c of None \<Rightarrow> False | Some ws \<Rightarrow> w \<in> ws) \<and> running s w \<and>
     b < bs_m_max_barriers_per_cta s \<and> (t = BT_SYNC \<or> t = BT_RED)"
| "barrier_allowed s (BS_Exit w) \<longleftrightarrow> running s w"
| "barrier_allowed s (BS_Wait w t) \<longleftrightarrow>
     running s w \<and> (t = BARRIER_WAIT_TCGEN05 \<or> t = BARRIER_WAIT_CLUSTER)"
| "barrier_allowed s (BS_Release w t) \<longleftrightarrow>
     (t = BARRIER_WAIT_TCGEN05 \<or> t = BARRIER_WAIT_CLUSTER) \<and>
     w \<in> bs_m_warp_at_barrier s \<and> bs_m_warp_barrier_type s ! w = t"

definition barrier_guarded_step :: "barrier_set \<Rightarrow> barrier_op \<Rightarrow> barrier_set option" where
  "barrier_guarded_step s x = (if barrier_allowed s x then barrier_step s x else None)"

lemma barrier_step_ok:
  assumes wf: "bs_wf s" and ok: "barrier_allowed s x"
  shows "\<exists>s'. barrier_step s x = Some s' \<and> bs_wf s' \<and>
    bs_m_max_barriers_per_cta s' = bs_m_max_barriers_per_cta s"
proof (cases x)
  case (BS_Alloc c ws)
  have range: "d < bs_m_max_cta_per_core s" if "bs_m_cta_to_warps s d = Some vs" for d vs
    using wf that unfolding bs_wf_def bs_shape_def bs_static_def by blast
  have free: "case bs_m_cta_to_warps s d of None \<Rightarrow> True | Some vs \<Rightarrow> ws \<inter> vs = {}"
    if "d < bs_m_max_cta_per_core s" for d using ok BS_Alloc that by simp
  have "ws \<inter> vs = {}" if "bs_m_cta_to_warps s d = Some vs" for d vs
    using free [OF range [OF that]] that by simp
  moreover have "ws \<subseteq> {..<bs_m_max_warps_per_core s}" using ok BS_Alloc by auto
  ultimately show ?thesis using allocate_ok [OF wf, of c ws] ok BS_Alloc by simp
next
  case (BS_Dealloc c)
  with ok deallocate_ok [OF wf, of c] show ?thesis by (auto split: option.splits)
next
  case (BS_Reach c w t b)
  with ok have "\<exists>ws. bs_m_cta_to_warps s c = Some ws \<and> w \<in> ws" "w \<in> bs_m_warp_active s"
    "w \<notin> bs_m_warp_at_barrier s" "b < bs_m_max_barriers_per_cta s" "t = BT_SYNC \<or> t = BT_RED"
    by (cases "bs_m_cta_to_warps s c"; simp add: running_def)+
  then obtain ws where "bs_m_cta_to_warps s c = Some ws" "w \<in> ws" "w \<in> bs_m_warp_active s"
    "w \<notin> bs_m_warp_at_barrier s" "b < bs_m_max_barriers_per_cta s" "t = BT_SYNC \<or> t = BT_RED"
    by blast
  from warp_reaches_barrier_ok [OF wf this] BS_Reach show ?thesis by auto
next
  case (BS_Exit w)
  with ok warp_exit_ok [OF wf, of w] show ?thesis by (simp add: running_def)
next
  case (BS_Wait w t)
  with ok have run: "w \<in> bs_m_warp_active s" "w \<notin> bs_m_warp_at_barrier s" by (simp_all add: running_def)
  from other_wait_ok [OF wf run, of BARRIER_WAIT_TCGEN05] other_wait_ok [OF wf run, of BARRIER_WAIT_CLUSTER]
    ok BS_Wait run show ?thesis
    by (auto simp: wait_tcgen05_warp_def wait_cluster_barrier_def set_warp_waiting_def)
next
  case (BS_Release w t)
  with ok have "w \<in> bs_m_warp_at_barrier s" "bs_m_warp_barrier_type s ! w = t"
    "t \<noteq> BARRIER_WAIT_BAR_SYNC" by auto
  from other_release_ok [OF wf this] ok BS_Release show ?thesis
    by (auto simp: release_tcgen05_warp_def release_cluster_barrier_def)
qed

interpretation barrier_run: step_safe barrier_guarded_step
  "\<lambda>s. bs_wf s \<and> bs_m_max_barriers_per_cta s = n" barrier_allowed for n
  by unfold_locales
    (auto simp: barrier_guarded_step_def dest: barrier_step_ok split: if_splits)

lemma barrier_set_new_wf: "bs_wf (barrier_set_new mw mc mb ws 0 cp)"
  by (auto simp: barrier_set_new_def bs_wf_def bs_shape_def bs_static_def no_stuck_def parked_def)

text \<open>
  C6. With an immediate release, no sequence of CTA allocations, full-CTA barrier arrivals,
  exits and other waits that respects the shader's duties trips an assertion, and in every
  state reached no barrier is overdue: whenever a warp of a CTA is blocked at a named
  barrier, some active warp of that CTA has not arrived at it yet.
\<close>

theorem barrier_no_lost_wakeup:
  assumes "allowed_run barrier_guarded_step barrier_allowed (barrier_set_new mw mc mb ws 0 cp) ops"
  shows "\<exists>s. run_ops barrier_guarded_step (barrier_set_new mw mc mb ws 0 cp) ops = Some s \<and>
    (\<forall>c warps b w. bs_m_cta_to_warps s c = Some warps \<longrightarrow> b < mb \<longrightarrow> w \<in> warps \<longrightarrow>
      w \<in> bs_m_warp_at_barrier s \<longrightarrow> bs_m_warp_barrier_type s ! w = BARRIER_WAIT_BAR_SYNC \<longrightarrow>
      bs_m_warp_named_barrier_id s ! w = Some b \<longrightarrow>
      (\<exists>v \<in> warps \<inter> bs_m_warp_active s. v \<notin> bs_m_bar_id_to_warps s b))"
proof -
  let ?s0 = "barrier_set_new mw mc mb ws 0 cp"
  have "bs_wf ?s0 \<and> bs_m_max_barriers_per_cta ?s0 = mb"
    using barrier_set_new_wf by (simp add: barrier_set_new_def)
  from barrier_run.run_safe [OF this assms] obtain s where
    s: "run_ops barrier_guarded_step ?s0 ops = Some s" "bs_wf s" "bs_m_max_barriers_per_cta s = mb"
    by blast
  have "\<exists>v \<in> warps \<inter> bs_m_warp_active s. v \<notin> bs_m_bar_id_to_warps s b"
    if "bs_m_cta_to_warps s c = Some warps" "b < mb" "w \<in> warps" "parked s b w" for c warps b w
  proof -
    have J: "v \<in> bs_m_bar_id_to_warps s b \<longleftrightarrow> parked s b v" for v
      using s(2,3) that(2) by (simp add: bs_wf_def bs_shape_def)
    have "no_stuck s c b" using s(2,3) that(2) by (simp add: bs_wf_def)
    moreover have "w \<in> warps \<inter> bs_m_bar_id_to_warps s b" using J that(3,4) by simp
    ultimately have "warps \<inter> bs_m_bar_id_to_warps s b \<noteq> warps \<inter> bs_m_warp_active s"
      using that(1) by (auto simp: no_stuck_def)
    moreover have "bs_m_bar_id_to_warps s b \<subseteq> bs_m_warp_active s"
      using J s(2) by (auto simp: bs_wf_def bs_shape_def parked_def)
    ultimately show ?thesis by blast
  qed
  with s(1) show ?thesis by (auto simp: parked_def)
qed

definition sample_barrier_ops :: "barrier_op list" where
  "sample_barrier_ops = [BS_Alloc 0 {0, 1, 2}, BS_Alloc 1 {3, 4}, BS_Reach 0 0 BT_SYNC 1,
     BS_Reach 1 3 BT_RED 1, BS_Reach 0 2 BT_SYNC 1, BS_Exit 1, BS_Reach 0 0 BT_SYNC 0]"

theorem barrier_no_lost_wakeup_witness:
  "\<exists>s. run_ops barrier_guarded_step (barrier_set_new 8 4 16 32 0 0) sample_barrier_ops = Some s \<and>
    (\<forall>c warps b w. bs_m_cta_to_warps s c = Some warps \<longrightarrow> b < 16 \<longrightarrow> w \<in> warps \<longrightarrow>
      w \<in> bs_m_warp_at_barrier s \<longrightarrow> bs_m_warp_barrier_type s ! w = BARRIER_WAIT_BAR_SYNC \<longrightarrow>
      bs_m_warp_named_barrier_id s ! w = Some b \<longrightarrow>
      (\<exists>v \<in> warps \<inter> bs_m_warp_active s. v \<notin> bs_m_bar_id_to_warps s b))"
  by (rule barrier_no_lost_wakeup) code_simp

lemma clear_waiters_delayed:
  "0 < bs_barrier_release_latency s \<Longrightarrow> clear_waiters waiters ws s = Some (s
     \<lparr>bs_m_pending_warp_releases := bs_m_pending_warp_releases s @
        map (\<lambda>v. \<lparr>pr_remaining = bs_barrier_release_latency s, pr_warp_id = v, pr_type = BARRIER_WAIT_BAR_SYNC\<rparr>)
          (filter (\<lambda>v. v \<in> waiters) ws)\<rparr>)"
  by (induction ws arbitrary: s) (simp_all add: push_release_def Let_def)

text \<open>The warps an arrival set lets go: those blocked at the barrier, and the one that arrives.\<close>

definition blocked_at :: "barrier_set \<Rightarrow> nat \<Rightarrow> nat \<Rightarrow> nat set \<Rightarrow> nat set" where
  "blocked_at s b w arrived = {v \<in> arrived. v = w \<or> parked s b v}"

lemma mark_arrival_waiters:
  assumes "length (bs_m_warp_barrier_type s) = bs_m_max_warps_per_core s"
    "length (bs_m_warp_named_barrier_id s) = bs_m_max_warps_per_core s"
    "arrived \<subseteq> {..<bs_m_max_warps_per_core s}" "w \<in> arrived" "t = BT_SYNC \<or> t = BT_RED"
  shows "named_barrier_waiters b arrived (mark_arrival c w t b None s) = blocked_at s b w arrived"
  using assms
  by (auto simp: named_barrier_waiters_def mark_arrival_def Let_def set_warp_waiting_def blocked_at_def parked_def
      nth_list_update)

text \<open>
  C22. A full-CTA barrier releases all or nothing, whatever the release latency. The arriving
  warp stays blocked, no other wait bit changes and no release is queued, unless the arrived
  warps are now all active warps of the CTA. Then a \<open>bar.red\<close> broadcasts to the arrived warps,
  and those of them that are blocked at the barrier go on: at once when the release latency is
  0, and otherwise each gets one entry of the release queue with the full latency, in the order
  of the warps, and stays blocked until then.
\<close>

theorem barrier_all_or_nothing:
  assumes "bs_m_cta_to_warps s c = Some ws" "w \<in> ws" "ws \<subseteq> {..<bs_m_max_warps_per_core s}"
    and "length (bs_m_warp_barrier_type s) = bs_m_max_warps_per_core s"
    and "length (bs_m_warp_named_barrier_id s) = bs_m_max_warps_per_core s"
    and "w \<notin> bs_m_warp_at_barrier s" "t = BT_SYNC \<or> t = BT_RED"
  shows "\<exists>red s'. warp_reaches_barrier c w t b None s = Some (red, s') \<and>
    (let arrived = insert w (ws \<inter> bs_m_bar_id_to_warps s b);
         last = (arrived = ws \<inter> bs_m_warp_active s);
         latency = bs_barrier_release_latency s;
         blocked = blocked_at s b w arrived
     in bs_m_warp_at_barrier s' =
          (if last \<and> latency = 0 then bs_m_warp_at_barrier s - blocked else insert w (bs_m_warp_at_barrier s)) \<and>
        bs_m_pending_warp_releases s' = bs_m_pending_warp_releases s @
          (if last \<and> latency > 0
           then map (\<lambda>v. \<lparr>pr_remaining = latency, pr_warp_id = v, pr_type = BARRIER_WAIT_BAR_SYNC\<rparr>)
                  (filter (\<lambda>v. v \<in> blocked) [0..<bs_m_max_warps_per_core s])
           else []) \<and>
        red = (if last \<and> t = BT_RED then Some arrived else None))"
proof -
  define s1 where "s1 = mark_arrival c w t b None s"
  define arrived where "arrived = insert w (ws \<inter> bs_m_bar_id_to_warps s b)"
  define blocked where "blocked = blocked_at s b w arrived"
  define s2 where "s2 = s1\<lparr>bs_m_bar_id_to_warps := (bs_m_bar_id_to_warps s1)(b := bs_m_bar_id_to_warps s1 b - arrived)\<rparr>"
  have s1: "s1 = set_warp_waiting w BARRIER_WAIT_BAR_SYNC (Some b)
      (s\<lparr>bs_m_bar_id_to_warps := (bs_m_bar_id_to_warps s)(b := insert w (bs_m_bar_id_to_warps s b)),
         bs_m_mbar_partial_wait := (bs_m_mbar_partial_wait s)[w := False]\<rparr>)"
    using assms(7) by (simp add: s1_def mark_arrival_def Let_def)
  have sub: "arrived \<subseteq> {..<bs_m_max_warps_per_core s}" "w \<in> arrived" using assms(2,3) by (auto simp: arrived_def)
  have waiters: "named_barrier_waiters b arrived s1 = blocked"
    unfolding s1_def blocked_def by (rule mark_arrival_waiters [OF assms(4,5) sub assms(7)])
  have small: "blocked \<subseteq> {..<bs_m_max_warps_per_core s}" using sub by (auto simp: blocked_def blocked_at_def)
  have step: "warp_reaches_barrier c w t b None s =
      (if arrived = ws \<inter> bs_m_warp_active s
       then map_option (\<lambda>s3. (if t = BT_RED then Some arrived else None, s3\<lparr>bs_m_bar_id_to_count := (bs_m_bar_id_to_count s3)((c, b) := None)\<rparr>))
              (clear_waiters blocked [0..<bs_m_max_warps_per_core s] s2)
       else Some (None, s1))"
  proof -
    have "ws \<inter> bs_m_bar_id_to_warps s1 b = arrived" "bs_m_warp_active s1 = bs_m_warp_active s"
      "bs_m_max_warps_per_core s2 = bs_m_max_warps_per_core s"
      using assms(2) by (auto simp: s1 s2_def arrived_def set_warp_waiting_def)
    then have "warp_reaches_barrier c w t b None s =
      (if arrived = ws \<inter> bs_m_warp_active s
       then Option.bind (release_barrier c b arrived s1) (\<lambda>s3. Some (if t = BT_RED then Some arrived else None, s3))
       else Some (None, s1))"
      using assms(1,2) by (simp add: warp_reaches_barrier_def s1_def [symmetric] Let_def)
    moreover have "release_barrier c b arrived s1 =
      map_option (\<lambda>s3. s3\<lparr>bs_m_bar_id_to_count := (bs_m_bar_id_to_count s3)((c, b) := None)\<rparr>)
        (clear_waiters blocked [0..<bs_m_max_warps_per_core s] s2)"
      using waiters \<open>bs_m_max_warps_per_core s2 = bs_m_max_warps_per_core s\<close>
      by (cases "clear_waiters blocked [0..<bs_m_max_warps_per_core s] s2")
        (simp_all add: release_barrier_def clear_named_barrier_waiters_def s2_def [symmetric])
    ultimately have "warp_reaches_barrier c w t b None s =
      (if arrived = ws \<inter> bs_m_warp_active s
       then Option.bind (map_option (\<lambda>s3. s3\<lparr>bs_m_bar_id_to_count := (bs_m_bar_id_to_count s3)((c, b) := None)\<rparr>)
         (clear_waiters blocked [0..<bs_m_max_warps_per_core s] s2)) (\<lambda>s3. Some (if t = BT_RED then Some arrived else None, s3))
       else Some (None, s1))" by (simp only:)
    then show ?thesis
      by (cases "clear_waiters blocked [0..<bs_m_max_warps_per_core s] s2") simp_all
  qed
  have fields: "bs_barrier_release_latency s2 = bs_barrier_release_latency s" "bs_m_warp_at_barrier s1 = insert w (bs_m_warp_at_barrier s)"
    "bs_m_pending_warp_releases s1 = bs_m_pending_warp_releases s" "bs_m_warp_at_barrier s2 = bs_m_warp_at_barrier s1"
    "bs_m_pending_warp_releases s2 = bs_m_pending_warp_releases s1"
    by (simp_all add: s1 s2_def set_warp_waiting_def)
  show ?thesis
  proof (cases "arrived = ws \<inter> bs_m_warp_active s \<and> bs_barrier_release_latency s = 0")
    case True
    have "\<forall>v \<in> set [0..<bs_m_max_warps_per_core s] \<inter> blocked. v < bs_m_max_warps_per_core s2 \<and> v \<in> bs_m_warp_at_barrier s2 \<and>
        bs_m_warp_barrier_type s2 ! v = BARRIER_WAIT_BAR_SYNC"
      using assms(2-4) small by (auto simp: s1 s2_def set_warp_waiting_def blocked_def blocked_at_def parked_def nth_list_update)
    then obtain nm where nm: "clear_waiters blocked [0..<bs_m_max_warps_per_core s] s2 = Some (s2
        \<lparr>bs_m_warp_at_barrier := bs_m_warp_at_barrier s2 - (set [0..<bs_m_max_warps_per_core s] \<inter> blocked), bs_m_warp_named_barrier_id := nm\<rparr>)"
      using clear_waiters_ok [of s2 "[0..<bs_m_max_warps_per_core s]" blocked] True fields(1) assms(5)
      by (auto simp: s2_def s1 set_warp_waiting_def)
    have "insert w (bs_m_warp_at_barrier s) - (set [0..<bs_m_max_warps_per_core s] \<inter> blocked) = bs_m_warp_at_barrier s - blocked"
      using small sub(2) assms(6) by (auto simp: blocked_def blocked_at_def)
    then show ?thesis unfolding Let_def arrived_def [symmetric] blocked_def [symmetric] using True step nm fields by simp
  next
    case False
    show ?thesis
    proof (cases "arrived = ws \<inter> bs_m_warp_active s")
      case True
      then have "0 < bs_barrier_release_latency s2" using False fields(1) by simp
      from clear_waiters_delayed [OF this] show ?thesis
        unfolding Let_def arrived_def [symmetric] blocked_def [symmetric] using True False step fields by simp
    next
      case False
      then show ?thesis unfolding Let_def arrived_def [symmetric] using step fields by simp
    qed
  qed
qed

definition sample_barrier :: "nat \<Rightarrow> barrier_set" where
  "sample_barrier latency = the (run_ops barrier_step (barrier_set_new 8 4 16 32 latency 0)
     [BS_Alloc 0 {0, 1, 2}, BS_Reach 0 0 BT_SYNC 1, BS_Exit 1])"

theorem barrier_all_or_nothing_witness:
  "(\<exists>s'. warp_reaches_barrier 0 2 BT_RED 1 None (sample_barrier 0) = Some (Some {0, 2}, s') \<and>
     bs_m_warp_at_barrier s' = {}) \<and>
   (\<exists>s'. warp_reaches_barrier 0 2 BT_RED 1 None (sample_barrier 20) = Some (Some {0, 2}, s') \<and>
     bs_m_warp_at_barrier s' = {0, 2} \<and> map pr_remaining (bs_m_pending_warp_releases s') = [20, 20])"
proof -
  have at0: "\<exists>red s'. warp_reaches_barrier 0 2 BT_RED 1 None (sample_barrier l) = Some (red, s') \<and> red = Some {0, 2} \<and>
      (if l = 0 then bs_m_warp_at_barrier s' = {}
       else bs_m_warp_at_barrier s' = {0, 2} \<and> map pr_remaining (bs_m_pending_warp_releases s') = [l, l])"
    if f: "bs_m_cta_to_warps (sample_barrier l) 0 = Some {0, 1, 2}"
      "bs_m_bar_id_to_warps (sample_barrier l) 1 = {0}" "bs_m_warp_active (sample_barrier l) = {0, 2}"
      "bs_m_warp_at_barrier (sample_barrier l) = {0}" "bs_m_max_warps_per_core (sample_barrier l) = 8"
      "length (bs_m_warp_barrier_type (sample_barrier l)) = 8" "length (bs_m_warp_named_barrier_id (sample_barrier l)) = 8"
      "bs_barrier_release_latency (sample_barrier l) = l" "bs_m_pending_warp_releases (sample_barrier l) = []"
      "parked (sample_barrier l) 1 0" for l
  proof -
    have "blocked_at (sample_barrier l) 1 2 {0, 2} = {0, 2}" using f(10) by (auto simp: blocked_at_def)
    moreover have "filter (\<lambda>v. v \<in> {0, 2}) [0..<8] = [0, 2 :: nat]" by (simp add: upt_rec)
    ultimately show ?thesis
      using barrier_all_or_nothing [of "sample_barrier l" 0 "{0, 1, 2}" 2 BT_RED 1] f
      by (auto simp: Let_def insert_commute)
  qed
  have "parked (sample_barrier 0) 1 0" "parked (sample_barrier 20) 1 0" unfolding parked_def by code_simp+
  moreover have "bs_m_cta_to_warps (sample_barrier 0) 0 = Some {0, 1, 2}" "bs_m_cta_to_warps (sample_barrier 20) 0 = Some {0, 1, 2}"
    "bs_m_bar_id_to_warps (sample_barrier 0) 1 = {0}" "bs_m_bar_id_to_warps (sample_barrier 20) 1 = {0}"
    "bs_m_warp_active (sample_barrier 0) = {0, 2}" "bs_m_warp_active (sample_barrier 20) = {0, 2}"
    "bs_m_warp_at_barrier (sample_barrier 0) = {0}" "bs_m_warp_at_barrier (sample_barrier 20) = {0}"
    "bs_m_max_warps_per_core (sample_barrier 0) = 8" "bs_m_max_warps_per_core (sample_barrier 20) = 8"
    "length (bs_m_warp_barrier_type (sample_barrier 0)) = 8" "length (bs_m_warp_barrier_type (sample_barrier 20)) = 8"
    "length (bs_m_warp_named_barrier_id (sample_barrier 0)) = 8" "length (bs_m_warp_named_barrier_id (sample_barrier 20)) = 8"
    "bs_barrier_release_latency (sample_barrier 0) = 0" "bs_barrier_release_latency (sample_barrier 20) = 20"
    "bs_m_pending_warp_releases (sample_barrier 0) = []" "bs_m_pending_warp_releases (sample_barrier 20) = []"
    by code_simp+
  ultimately show ?thesis using at0 [of 0] at0 [of 20] by simp
qed

subsection \<open>The queue of delayed releases\<close>

text \<open>
  The entries refer to different warps, each blocked with the type of its entry and none of
  them with a suspended \<open>try_wait\<close>.
\<close>

definition releases_ok :: "barrier_set \<Rightarrow> pending_warp_release list \<Rightarrow> bool" where
  "releases_ok s es \<longleftrightarrow> distinct (map pr_warp_id es) \<and>
     (\<forall>e \<in> set es. pr_warp_id e < bs_m_max_warps_per_core s \<and> pr_warp_id e \<in> bs_m_warp_at_barrier s \<and>
        bs_m_warp_barrier_type s ! pr_warp_id e = pr_type e \<and>
        pr_warp_id e \<notin> bs_m_pending_mbarrier_waits s \<and>
        pr_type e \<in> {BARRIER_WAIT_BAR_SYNC, BARRIER_WAIT_CP_ASYNC_GROUP,
                     BARRIER_WAIT_MBARRIER, BARRIER_WAIT_BULK_GROUP})"

lemma release_scan_ok:
  assumes "releases_ok s es"
  shows "\<exists>s'. release_scan es s = Some (filter (\<lambda>e. pr_remaining e \<noteq> 0) es, s') \<and>
    bs_m_warp_at_barrier s' = bs_m_warp_at_barrier s - pr_warp_id ` {e \<in> set es. pr_remaining e = 0}"
  using assms
proof (induction es arbitrary: s)
  case Nil
  then show ?case by simp
next
  case (Cons e es)
  show ?case
  proof (cases "pr_remaining e = 0")
    case False
    have "releases_ok s es" using Cons.prems by (simp add: releases_ok_def)
    from Cons.IH [OF this] False show ?thesis by (auto simp: Collect_conv_if image_def)
  next
    case True
    define s1 where "s1 = s\<lparr>bs_m_warp_at_barrier := bs_m_warp_at_barrier s - {pr_warp_id e},
       bs_m_warp_named_barrier_id := (bs_m_warp_named_barrier_id s)[pr_warp_id e := None]\<rparr>"
    have "release_entry e s = Some s1"
      using Cons.prems
      by (auto simp: releases_ok_def release_entry_def Let_def clear_warp_waiting_def
          assert_warp_waiting_def s1_def)
    moreover have "pr_warp_id e \<notin> pr_warp_id ` set es"
      using Cons.prems by (simp add: releases_ok_def)
    then have "\<forall>x \<in> set es. pr_warp_id x \<noteq> pr_warp_id e" by (metis imageI)
    then have "releases_ok s1 es"
      using Cons.prems by (simp add: releases_ok_def s1_def)
    ultimately obtain s' where "release_scan (e # es) s = Some (filter (\<lambda>e. pr_remaining e \<noteq> 0) es, s')"
      "bs_m_warp_at_barrier s' = bs_m_warp_at_barrier s1 - pr_warp_id ` {e \<in> set es. pr_remaining e = 0}"
      using Cons.IH [of s1] True by auto
    with True show ?thesis by (auto simp: s1_def)
  qed
qed

text \<open>
  One cycle of the release queue wakes exactly the warps whose countdown ends in this
  cycle and keeps the other entries in order, one cycle closer to their release.
\<close>

theorem release_cycle_exact:
  assumes "releases_ok s (bs_m_pending_warp_releases s)"
    and "\<forall>e \<in> set (bs_m_pending_warp_releases s). 0 < pr_remaining e"
  shows "\<exists>s'. release_cycle s = Some s' \<and>
    bs_m_warp_at_barrier s' = bs_m_warp_at_barrier s -
      pr_warp_id ` {e \<in> set (bs_m_pending_warp_releases s). pr_remaining e = 1} \<and>
    bs_m_pending_warp_releases s' =
      map (\<lambda>e. e\<lparr>pr_remaining := pr_remaining e - 1\<rparr>)
        (filter (\<lambda>e. 1 < pr_remaining e) (bs_m_pending_warp_releases s))"
proof -
  let ?es = "bs_m_pending_warp_releases s"
  let ?dec = "\<lambda>e :: pending_warp_release. e\<lparr>pr_remaining := pr_remaining e - 1\<rparr>"
  have "map pr_warp_id (rev (map ?dec ?es)) = rev (map pr_warp_id ?es)"
    by (simp add: rev_map o_def)
  then have ok: "releases_ok s (rev (map ?dec ?es))"
    using assms(1) unfolding releases_ok_def by (simp del: map_map) 
  obtain s' where s': "release_scan (rev (map ?dec ?es)) s =
      Some (filter (\<lambda>e. pr_remaining e \<noteq> 0) (rev (map ?dec ?es)), s')"
    "bs_m_warp_at_barrier s' =
      bs_m_warp_at_barrier s - pr_warp_id ` {e \<in> set (rev (map ?dec ?es)). pr_remaining e = 0}"
    using release_scan_ok [OF ok] by blast
  have "rev (filter (\<lambda>e. pr_remaining e \<noteq> 0) (rev (map ?dec ?es))) =
      map ?dec (filter (\<lambda>e. 1 < pr_remaining e) ?es)"
    by (simp add: rev_filter filter_map o_def not_le)
  moreover have "pr_warp_id ` {e \<in> set (rev (map ?dec ?es)). pr_remaining e = 0} =
      pr_warp_id ` {e \<in> set ?es. pr_remaining e = 1}"
  proof -
    have "{e \<in> set (rev (map ?dec ?es)). pr_remaining e = 0} = ?dec ` {e \<in> set ?es. pr_remaining e = 1}"
      using assms(2) by force
    then show ?thesis by (simp add: image_image)
  qed
  ultimately show ?thesis using s' by (simp add: release_cycle_def Let_def)
qed

definition sample_delayed :: barrier_set where
  "sample_delayed = hold_warp 5 1 BARRIER_WAIT_BULK_GROUP (hold_warp 3 4 BARRIER_WAIT_MBARRIER
     (hold_warp 2 1 BARRIER_WAIT_MBARRIER (barrier_set_new 8 4 16 32 0 0)))"

theorem release_cycle_exact_witness:
  "\<exists>s'. release_cycle sample_delayed = Some s' \<and> bs_m_warp_at_barrier s' = {3} \<and>
    bs_m_pending_warp_releases s' =
      [\<lparr>pr_remaining = 3, pr_warp_id = 3, pr_type = BARRIER_WAIT_MBARRIER\<rparr>]"
proof -
  have es: "bs_m_pending_warp_releases sample_delayed =
      [\<lparr>pr_remaining = 1, pr_warp_id = 2, pr_type = BARRIER_WAIT_MBARRIER\<rparr>,
       \<lparr>pr_remaining = 4, pr_warp_id = 3, pr_type = BARRIER_WAIT_MBARRIER\<rparr>,
       \<lparr>pr_remaining = 1, pr_warp_id = 5, pr_type = BARRIER_WAIT_BULK_GROUP\<rparr>]"
    and at: "bs_m_warp_at_barrier sample_delayed = {2, 3, 5}"
    and ty: "bs_m_max_warps_per_core sample_delayed = 8" "bs_m_pending_mbarrier_waits sample_delayed = {}"
      "bs_m_warp_barrier_type sample_delayed ! 2 = BARRIER_WAIT_MBARRIER"
      "bs_m_warp_barrier_type sample_delayed ! 3 = BARRIER_WAIT_MBARRIER"
      "bs_m_warp_barrier_type sample_delayed ! 5 = BARRIER_WAIT_BULK_GROUP"
    by code_simp+
  have "releases_ok sample_delayed (bs_m_pending_warp_releases sample_delayed)"
    by (simp add: releases_ok_def es at ty)
  moreover have "\<forall>e \<in> set (bs_m_pending_warp_releases sample_delayed). 0 < pr_remaining e"
    by (simp add: es)
  moreover have "pr_warp_id ` {e \<in> set (bs_m_pending_warp_releases sample_delayed). pr_remaining e = 1} = {2, 5}"
    unfolding es by (force simp: image_def)
  moreover have "{2, 3, 5} - {2, 5} = {3 :: nat}" by auto
  ultimately show ?thesis
    using release_cycle_exact [of sample_delayed] by (simp add: es at)
qed

end
