(* ===== verification/Mbarrier.thy ===== *)
theory Mbarrier
  imports Prelude
begin

section \<open>Asynchronous barriers\<close>

text \<open>
  Models \<^verbatim>\<open>src/gpgpu-sim/flash/mbarrier.h\<close> and \<^verbatim>\<open>mbarrier.cc\<close>: the manager of
  the mbarrier objects (initialisation, arrival, transaction counts, phase advance, local
  and remote waiters), the timing helpers, and the suspended \<open>try_wait\<close> of a warp with its
  lanes, deadlines and rechecks (\<open>barrier_set_t::warp_reaches_mbarrier\<close> and \<open>cycle\<close>).

  The map of barriers is a function of the software CTA and the address. The signed
  counters are unbounded integers, for counts within the 20 bits of the PTX object. The
  traces, the decoding of PTX operands and the injection of remote messages are left out.
\<close>

subsection \<open>Timing helpers\<close>

datatype mbarrier_recheck_action = KEEP_SLEEPING | RETURN_TRUE | RETURN_FALSE

text \<open>
  The product of two 32-bit values fits the 64-bit mantissa of a \<open>long double\<close>, and no
  quotient rounds to the integer below it: the ceiling is the exact one.
\<close>

definition mbarrier_hint_ns_to_cycles :: "nat \<Rightarrow> nat \<Rightarrow> u64" where
  "mbarrier_hint_ns_to_cycles hint_ns core_freq_hz =
     of_nat ((hint_ns * core_freq_hz + 1000000000 - 1) div 1000000000)"

definition mbarrier_classify_recheck :: "bool \<Rightarrow> u64 \<Rightarrow> u64 \<Rightarrow> mbarrier_recheck_action" where
  "mbarrier_classify_recheck phase_complete cycle deadline_cycle =
     (if phase_complete then RETURN_TRUE
      else if cycle \<ge> deadline_cycle then RETURN_FALSE else KEEP_SLEEPING)"

definition mbarrier_wake_on_phase_notification :: "u64 \<Rightarrow> u64 \<Rightarrow> u64" where
  "mbarrier_wake_on_phase_notification scheduled_wake_cycle notification_cycle =
     (if scheduled_wake_cycle < notification_cycle then scheduled_wake_cycle else notification_cycle)"

definition mbarrier_should_delay_phase_wakeup :: "bool \<Rightarrow> bool \<Rightarrow> bool \<Rightarrow> nat \<Rightarrow> bool" where
  "mbarrier_should_delay_phase_wakeup suspended phase_notification_pending all_true latency \<longleftrightarrow>
     suspended \<and> phase_notification_pending \<and> all_true \<and> latency > 0"

definition mbarrier_latches_initial_predicate :: "bool \<Rightarrow> nat \<Rightarrow> bool" where
  "mbarrier_latches_initial_predicate has_time_hint predicate_latency \<longleftrightarrow>
     \<not> has_time_hint \<and> predicate_latency > 0"

definition mbarrier_result_release_cycle :: "u64 \<Rightarrow> u64 \<Rightarrow> nat \<Rightarrow> nat \<Rightarrow> u64" where
  "mbarrier_result_release_cycle issue_cycle resolution_cycle predicate_latency phase_wakeup_latency =
     max (saturating_add issue_cycle (of_nat predicate_latency))
         (saturating_add resolution_cycle (of_nat phase_wakeup_latency))"

subsection \<open>The manager\<close>

record remote_waiter =
  rw_src_cid :: nat
  rw_src_hw_cta :: nat
  rw_src_warp_id :: nat
  rw_parity :: int

record mbarrier =
  mb_m_id :: int
  mb_m_hw_cta_id :: int
  mb_m_sw_cta_id :: int
  mb_m_addr :: u64
  mb_m_expected_count :: int
  mb_m_pending_arrival_count :: int
  mb_m_tx_count :: int
  mb_m_phase :: int
  mb_m_waiting_warps :: "int set"
  mb_m_remote_waiters :: "remote_waiter list"

definition mbarrier_new :: "int \<Rightarrow> int \<Rightarrow> int \<Rightarrow> u64 \<Rightarrow> int \<Rightarrow> mbarrier" where
  "mbarrier_new ident hw sw addr expected =
     \<lparr>mb_m_id = ident, mb_m_hw_cta_id = hw, mb_m_sw_cta_id = sw, mb_m_addr = addr,
      mb_m_expected_count = expected, mb_m_pending_arrival_count = expected,
      mb_m_tx_count = 0, mb_m_phase = 0, mb_m_waiting_warps = {}, mb_m_remote_waiters = []\<rparr>"

record thread_index =
  ti_hw_cta_id :: int
  ti_hw_warp_id :: int
  ti_sw_cta_id :: int
  ti_sw_warp_id :: int

record mbarrier_manager =
  mm_m_next_id :: int
  mm_addr_to_mbarrier_map :: "int \<times> u64 \<Rightarrow> mbarrier option"

definition mm_new :: mbarrier_manager where
  "mm_new = \<lparr>mm_m_next_id = 0, mm_addr_to_mbarrier_map = (\<lambda>_. None)\<rparr>"

definition mm_key :: "thread_index \<Rightarrow> u64 \<Rightarrow> int \<times> u64" where
  "mm_key ti addr = (ti_sw_cta_id ti, addr)"

definition get_mbarrier :: "mbarrier_manager \<Rightarrow> int \<times> u64 \<Rightarrow> mbarrier option" where
  "get_mbarrier m k = mm_addr_to_mbarrier_map m k"

definition put_mbarrier :: "int \<times> u64 \<Rightarrow> mbarrier \<Rightarrow> mbarrier_manager \<Rightarrow> mbarrier_manager" where
  "put_mbarrier k b m =
     m\<lparr>mm_addr_to_mbarrier_map := (mm_addr_to_mbarrier_map m)(k := Some b)\<rparr>"

definition mbar_init :: "thread_index \<Rightarrow> u64 \<Rightarrow> int \<Rightarrow> mbarrier_manager \<Rightarrow> mbarrier_manager" where
  "mbar_init ti addr expected_count m =
     (case get_mbarrier m (mm_key ti addr) of
        Some b \<Rightarrow> put_mbarrier (mm_key ti addr)
          (b\<lparr>mb_m_expected_count := expected_count, mb_m_pending_arrival_count := expected_count,
             mb_m_tx_count := 0, mb_m_phase := 0, mb_m_waiting_warps := {},
             mb_m_remote_waiters := []\<rparr>) m
      | None \<Rightarrow> put_mbarrier (mm_key ti addr)
          (mbarrier_new (mm_m_next_id m) (ti_hw_cta_id ti) (ti_sw_cta_id ti) addr expected_count)
          (m\<lparr>mm_m_next_id := mm_m_next_id m + 1\<rparr>))"

definition mbar_inval :: "thread_index \<Rightarrow> u64 \<Rightarrow> mbarrier_manager \<Rightarrow> mbarrier_manager option" where
  "mbar_inval ti addr m = do {
     cassert (get_mbarrier m (mm_key ti addr) \<noteq> None);
     Some (m\<lparr>mm_addr_to_mbarrier_map := (mm_addr_to_mbarrier_map m)(mm_key ti addr := None)\<rparr>)
   }"

definition cancel_wait_all :: "int \<Rightarrow> mbarrier_manager \<Rightarrow> mbarrier_manager" where
  "cancel_wait_all warp m =
     m\<lparr>mm_addr_to_mbarrier_map := (\<lambda>k. map_option
         (\<lambda>b. b\<lparr>mb_m_waiting_warps := mb_m_waiting_warps b - {warp}\<rparr>) (mm_addr_to_mbarrier_map m k))\<rparr>"

definition mbar_cleanup_cta :: "int \<Rightarrow> mbarrier_manager \<Rightarrow> mbarrier_manager" where
  "mbar_cleanup_cta hw_cta m =
     m\<lparr>mm_addr_to_mbarrier_map := (\<lambda>k. case mm_addr_to_mbarrier_map m k of None \<Rightarrow> None
         | Some b \<Rightarrow> if mb_m_hw_cta_id b = hw_cta then None else Some b)\<rparr>"

text \<open>\<open>m_phase & 1\<close>, for a phase that is never negative.\<close>

definition mb_parity :: "mbarrier \<Rightarrow> int" where
  "mb_parity b = mb_m_phase b mod 2"

definition test_wait :: "thread_index \<Rightarrow> u64 \<Rightarrow> int \<Rightarrow> mbarrier_manager \<Rightarrow> bool option" where
  "test_wait ti addr parity m = do {
     b \<leftarrow> get_mbarrier m (mm_key ti addr);
     Some (parity \<noteq> mb_parity b)
   }"

definition register_wait :: "thread_index \<Rightarrow> u64 \<Rightarrow> mbarrier_manager \<Rightarrow> mbarrier_manager option" where
  "register_wait ti addr m = do {
     b \<leftarrow> get_mbarrier m (mm_key ti addr);
     Some (put_mbarrier (mm_key ti addr)
       (b\<lparr>mb_m_waiting_warps := insert (ti_hw_warp_id ti) (mb_m_waiting_warps b)\<rparr>) m)
   }"

definition cancel_wait :: "int \<Rightarrow> u64 \<Rightarrow> int \<Rightarrow> mbarrier_manager \<Rightarrow> mbarrier_manager" where
  "cancel_wait sw_cta addr warp m =
     (case get_mbarrier m (sw_cta, addr) of None \<Rightarrow> m
      | Some b \<Rightarrow> put_mbarrier (sw_cta, addr)
          (b\<lparr>mb_m_waiting_warps := mb_m_waiting_warps b - {warp}\<rparr>) m)"

definition enqueue_wait :: "thread_index \<Rightarrow> u64 \<Rightarrow> mbarrier_manager \<Rightarrow> mbarrier_manager" where
  "enqueue_wait ti addr m =
     (case get_mbarrier m (mm_key ti addr) of None \<Rightarrow> m
      | Some b \<Rightarrow> put_mbarrier (mm_key ti addr)
          (b\<lparr>mb_m_waiting_warps := insert (ti_hw_warp_id ti) (mb_m_waiting_warps b)\<rparr>) m)"

text \<open>Advance the phase when nothing is pending: the warps released and the object.\<close>

definition try_advance :: "mbarrier \<Rightarrow> int set \<times> mbarrier" where
  "try_advance b =
     (if mb_m_pending_arrival_count b = 0 \<and> mb_m_tx_count b = 0
      then (mb_m_waiting_warps b,
            b\<lparr>mb_m_waiting_warps := {}, mb_m_pending_arrival_count := mb_m_expected_count b,
              mb_m_phase := mb_m_phase b + 1\<rparr>)
      else ({}, b))"

definition try_wait :: "thread_index \<Rightarrow> u64 \<Rightarrow> int \<Rightarrow> mbarrier_manager
    \<Rightarrow> (bool \<times> int set \<times> mbarrier_manager) option" where
  "try_wait ti addr parity m = do {
     passed \<leftarrow> test_wait ti addr parity m;
     if passed then Some (True, {}, m)
     else
       (case get_mbarrier m (mm_key ti addr) of None \<Rightarrow> Some (False, {}, m)
        | Some b \<Rightarrow>
          if mb_m_pending_arrival_count b = 0 \<and> mb_m_tx_count b = 0 \<and> mb_parity b = parity
          then (let (released, b') = try_advance b
                in Some (True, released, put_mbarrier (mm_key ti addr) b' m))
          else Some (False, {}, m))
   }"

definition register_remote_wait :: "thread_index \<Rightarrow> u64 \<Rightarrow> int \<Rightarrow> nat \<Rightarrow> nat \<Rightarrow> nat
    \<Rightarrow> mbarrier_manager \<Rightarrow> bool \<times> mbarrier_manager" where
  "register_remote_wait ti addr parity src_cid src_hw_cta src_warp m =
     (case get_mbarrier m (mm_key ti addr) of None \<Rightarrow> (True, m)
      | Some b \<Rightarrow>
        if parity \<noteq> mb_parity b then (True, m)
        else (False, put_mbarrier (mm_key ti addr)
          (b\<lparr>mb_m_remote_waiters := mb_m_remote_waiters b @
              [\<lparr>rw_src_cid = src_cid, rw_src_hw_cta = src_hw_cta, rw_src_warp_id = src_warp,
                rw_parity = parity\<rparr>]\<rparr>) m))"

definition take_satisfied_remote_waiters :: "int \<Rightarrow> u64 \<Rightarrow> mbarrier_manager
    \<Rightarrow> remote_waiter list \<times> mbarrier_manager" where
  "take_satisfied_remote_waiters sw_cta addr m =
     (case get_mbarrier m (sw_cta, addr) of None \<Rightarrow> ([], m)
      | Some b \<Rightarrow>
        (filter (\<lambda>w. rw_parity w \<noteq> mb_parity b) (mb_m_remote_waiters b),
         put_mbarrier (sw_cta, addr)
           (b\<lparr>mb_m_remote_waiters := filter (\<lambda>w. rw_parity w = mb_parity b) (mb_m_remote_waiters b)\<rparr>) m))"

definition arrive_count :: "int \<Rightarrow> mbarrier \<Rightarrow> mbarrier" where
  "arrive_count n b =
     b\<lparr>mb_m_pending_arrival_count := (if n \<ge> mb_m_pending_arrival_count b then 0
         else mb_m_pending_arrival_count b - n)\<rparr>"

definition mbar_arrive :: "thread_index \<Rightarrow> u64 \<Rightarrow> int \<Rightarrow> mbarrier_manager \<Rightarrow> int set \<times> mbarrier_manager" where
  "mbar_arrive ti addr n m =
     (case get_mbarrier m (mm_key ti addr) of None \<Rightarrow> ({}, m)
      | Some b \<Rightarrow> (let (released, b') = try_advance (arrive_count n b)
                   in (released, put_mbarrier (mm_key ti addr) b' m)))"

definition prepare_async_arrival :: "thread_index \<Rightarrow> u64 \<Rightarrow> bool \<Rightarrow> mbarrier_manager
    \<Rightarrow> mbarrier_manager option" where
  "prepare_async_arrival ti addr increment_pending m = do {
     b \<leftarrow> get_mbarrier m (mm_key ti addr);
     if increment_pending
     then do {
       cassert (mb_m_pending_arrival_count b < 2 ^ 20 - 1);
       Some (put_mbarrier (mm_key ti addr)
         (b\<lparr>mb_m_pending_arrival_count := mb_m_pending_arrival_count b + 1\<rparr>) m)
     }
     else Some m
   }"

definition mbar_complete_tx :: "thread_index \<Rightarrow> u64 \<Rightarrow> int \<Rightarrow> mbarrier_manager \<Rightarrow> int set \<times> mbarrier_manager" where
  "mbar_complete_tx ti addr n m =
     (case get_mbarrier m (mm_key ti addr) of None \<Rightarrow> ({}, m)
      | Some b \<Rightarrow> (let (released, b') = try_advance (b\<lparr>mb_m_tx_count := mb_m_tx_count b - n\<rparr>)
                   in (released, put_mbarrier (mm_key ti addr) b' m)))"

definition try_complete_tx_if_pending :: "thread_index \<Rightarrow> u64 \<Rightarrow> int \<Rightarrow> mbarrier_manager
    \<Rightarrow> int set \<times> mbarrier_manager" where
  "try_complete_tx_if_pending ti addr n m =
     (if get_mbarrier m (mm_key ti addr) = None then ({}, m) else mbar_complete_tx ti addr n m)"

definition mbar_expect_tx :: "thread_index \<Rightarrow> u64 \<Rightarrow> int \<Rightarrow> mbarrier_manager \<Rightarrow> mbarrier_manager option" where
  "mbar_expect_tx ti addr n m = do {
     b \<leftarrow> get_mbarrier m (mm_key ti addr);
     Some (put_mbarrier (mm_key ti addr) (b\<lparr>mb_m_tx_count := mb_m_tx_count b + n\<rparr>) m)
   }"

subsection \<open>A suspended \<open>try_wait\<close>\<close>

record lane_wait =
  lw_active :: bool
  lw_resolved :: bool
  lw_result :: bool
  lw_addr :: u64
  lw_parity :: int
  lw_has_time_hint :: bool
  lw_time_hint_ns :: nat
  lw_deadline_cycle :: u64

record pending_mbarrier_wait =
  pw_thread :: thread_index
  pw_issue_cycle :: u64
  pw_next_recheck_cycle :: u64
  pw_phase_notification_pending :: bool
  pw_result_ready_delay_pending :: bool
  pw_has_no_hint :: bool
  pw_suspended :: bool
  pw_lanes :: "lane_wait list"

record mbarrier_config =
  mc_predicate_latency :: nat
  mc_trywait_latency :: nat
  mc_phase_wakeup_latency :: nat
  mc_core_freq :: nat

text \<open>What the instruction gives for an active lane: address, parity, optional time hint.\<close>

record lane_operands =
  lo_addr :: u64
  lo_parity :: int
  lo_time_hint :: "nat option"

definition inactive_lane :: lane_wait where
  "inactive_lane = \<lparr>lw_active = False, lw_resolved = False, lw_result = False, lw_addr = 0,
     lw_parity = 0, lw_has_time_hint = False, lw_time_hint_ns = 0, lw_deadline_cycle = 0\<rparr>"

text \<open>
  One lane at issue. The lane is latched at once when the phase is complete, when the
  predicate has a fixed latency, or when it may not sleep; otherwise the warp registers.
\<close>

definition issue_lane :: "mbarrier_config \<Rightarrow> u64 \<Rightarrow> thread_index \<Rightarrow> lane_operands \<Rightarrow> mbarrier_manager
    \<Rightarrow> (lane_wait \<times> mbarrier_manager) option" where
  "issue_lane cfg now ti op m = do {
     let hint = lo_time_hint op;
     let lane = \<lparr>lw_active = True, lw_resolved = False, lw_result = False, lw_addr = lo_addr op,
       lw_parity = lo_parity op, lw_has_time_hint = (hint \<noteq> None),
       lw_time_hint_ns = (case hint of None \<Rightarrow> 0 | Some h \<Rightarrow> h), lw_deadline_cycle = 0\<rparr>;
     complete \<leftarrow> test_wait ti (lw_addr lane) (lw_parity lane) m;
     if complete \<or> mbarrier_latches_initial_predicate (lw_has_time_hint lane) (mc_predicate_latency cfg)
     then Some (lane\<lparr>lw_resolved := True, lw_result := complete, lw_deadline_cycle := now\<rparr>, m)
     else
       let suspension_cycles = (if lw_has_time_hint lane
             then mbarrier_hint_ns_to_cycles (lw_time_hint_ns lane) (mc_core_freq cfg)
             else of_nat (mc_trywait_latency cfg));
           lane1 = lane\<lparr>lw_deadline_cycle := saturating_add now suspension_cycles\<rparr>
       in if suspension_cycles = 0
          then Some (lane1\<lparr>lw_resolved := True, lw_result := False\<rparr>, m)
          else do { m1 \<leftarrow> register_wait ti (lw_addr lane1) m; Some (lane1, m1) }
   }"

fun issue_lanes :: "mbarrier_config \<Rightarrow> u64 \<Rightarrow> thread_index \<Rightarrow> lane_operands option list \<Rightarrow> mbarrier_manager
    \<Rightarrow> (lane_wait list \<times> mbarrier_manager) option" where
  "issue_lanes cfg now ti [] m = Some ([], m)"
| "issue_lanes cfg now ti (None # ops) m = do {
     (lanes, m1) \<leftarrow> issue_lanes cfg now ti ops m;
     Some (inactive_lane # lanes, m1)
   }"
| "issue_lanes cfg now ti (Some op # ops) m = do {
     (lane, m1) \<leftarrow> issue_lane cfg now ti op m;
     (lanes, m2) \<leftarrow> issue_lanes cfg now ti ops m1;
     Some (lane # lanes, m2)
   }"

text \<open>The lane was latched false because its phase was not complete at issue.\<close>

definition latched_false :: "mbarrier_config \<Rightarrow> lane_wait \<Rightarrow> bool" where
  "latched_false cfg l \<longleftrightarrow> lw_active l \<and> lw_resolved l \<and> \<not> lw_result l \<and>
     mbarrier_latches_initial_predicate (lw_has_time_hint l) (mc_predicate_latency cfg)"

definition unresolved :: "lane_wait \<Rightarrow> bool" where
  "unresolved l \<longleftrightarrow> lw_active l \<and> \<not> lw_resolved l"

definition min_deadline :: "lane_wait list \<Rightarrow> u64" where
  "min_deadline ls = fold (\<lambda>l acc. min acc (lw_deadline_cycle l)) ls (- 1)"

datatype recheck_outcome = Still_Waiting pending_mbarrier_wait | Finished "lane_wait list"

text \<open>The waiters are removed and the predicates written when the wait finishes.\<close>

definition finish_wait :: "pending_mbarrier_wait \<Rightarrow> mbarrier_manager
    \<Rightarrow> (recheck_outcome \<times> mbarrier_manager) option" where
  "finish_wait w m = do {
     cassert (list_all (\<lambda>l. lw_active l \<longrightarrow> lw_resolved l) (pw_lanes w));
     Some (Finished (pw_lanes w),
       fold (\<lambda>l m. if lw_active l
              then cancel_wait (ti_sw_cta_id (pw_thread w)) (lw_addr l) (ti_hw_warp_id (pw_thread w)) m
              else m) (pw_lanes w) m)
   }"

definition issue_try_wait :: "mbarrier_config \<Rightarrow> u64 \<Rightarrow> thread_index \<Rightarrow> lane_operands option list
    \<Rightarrow> mbarrier_manager \<Rightarrow> (recheck_outcome \<times> mbarrier_manager) option" where
  "issue_try_wait cfg now ti ops m = do {
     (lanes, m1) \<leftarrow> issue_lanes cfg now ti ops m;
     cassert (list_ex (\<lambda>op. op \<noteq> None) ops);
     let has_no_hint = list_ex (\<lambda>l. lw_active l \<and> \<not> lw_has_time_hint l) lanes;
     let has_unresolved_lane = list_ex unresolved lanes;
     let w = \<lparr>pw_thread = ti, pw_issue_cycle = now,
       pw_next_recheck_cycle = min_deadline (filter unresolved lanes),
       pw_phase_notification_pending = False, pw_result_ready_delay_pending = False,
       pw_has_no_hint = has_no_hint,
       pw_suspended = (has_unresolved_lane \<or> list_ex (latched_false cfg) lanes),
       pw_lanes = lanes\<rparr>;
     if has_unresolved_lane then Some (Still_Waiting w, m1)
     else
       let release_cycle = mbarrier_result_release_cycle now now
             (if has_no_hint then mc_predicate_latency cfg else 0) 0
       in if release_cycle = now then finish_wait w m1
          else Some (Still_Waiting (w\<lparr>pw_result_ready_delay_pending := True,
                 pw_next_recheck_cycle := release_cycle\<rparr>), m1)
   }"

definition notify_phase_change :: "u64 \<Rightarrow> pending_mbarrier_wait \<Rightarrow> pending_mbarrier_wait" where
  "notify_phase_change now w =
     (if pw_result_ready_delay_pending w then w
      else w\<lparr>pw_phase_notification_pending := True,
             pw_next_recheck_cycle :=
               mbarrier_wake_on_phase_notification (pw_next_recheck_cycle w) now\<rparr>)"

text \<open>One lane at a recheck.\<close>

definition recheck_lane :: "u64 \<Rightarrow> thread_index \<Rightarrow> lane_wait \<Rightarrow> mbarrier_manager
    \<Rightarrow> (lane_wait \<times> mbarrier_manager) option" where
  "recheck_lane now ti l m =
     (if \<not> unresolved l then Some (l, m)
      else do {
        complete \<leftarrow> test_wait ti (lw_addr l) (lw_parity l) m;
        (case mbarrier_classify_recheck complete now (lw_deadline_cycle l) of
           RETURN_TRUE \<Rightarrow> Some (l\<lparr>lw_resolved := True, lw_result := True\<rparr>, m)
         | RETURN_FALSE \<Rightarrow> Some (l\<lparr>lw_resolved := True, lw_result := False\<rparr>, m)
         | KEEP_SLEEPING \<Rightarrow> do { m1 \<leftarrow> register_wait ti (lw_addr l) m; Some (l, m1) })
      })"

fun recheck_lanes :: "u64 \<Rightarrow> thread_index \<Rightarrow> lane_wait list \<Rightarrow> mbarrier_manager
    \<Rightarrow> (lane_wait list \<times> mbarrier_manager) option" where
  "recheck_lanes now ti [] m = Some ([], m)"
| "recheck_lanes now ti (l # ls) m = do {
     (l', m1) \<leftarrow> recheck_lane now ti l m;
     (ls', m2) \<leftarrow> recheck_lanes now ti ls m1;
     Some (l' # ls', m2)
   }"

definition recheck_wait :: "mbarrier_config \<Rightarrow> u64 \<Rightarrow> pending_mbarrier_wait \<Rightarrow> mbarrier_manager
    \<Rightarrow> (recheck_outcome \<times> mbarrier_manager) option" where
  "recheck_wait cfg now w m =
     (if now < pw_next_recheck_cycle w then Some (Still_Waiting w, m)
      else if pw_result_ready_delay_pending w then finish_wait w m
      else do {
        (lanes, m1) \<leftarrow> recheck_lanes now (pw_thread w) (pw_lanes w) m;
        let w1 = w\<lparr>pw_lanes := lanes\<rparr>;
        if list_ex unresolved lanes
        then Some (Still_Waiting (w1\<lparr>pw_phase_notification_pending := False,
               pw_next_recheck_cycle := min_deadline (filter unresolved lanes)\<rparr>), m1)
        else
          let all_true = list_all (\<lambda>l. lw_active l \<longrightarrow> lw_result l) lanes;
              delay = mbarrier_should_delay_phase_wakeup (pw_suspended w)
                        (pw_phase_notification_pending w) all_true (mc_phase_wakeup_latency cfg);
              release_cycle = mbarrier_result_release_cycle (pw_issue_cycle w) now
                (if pw_has_no_hint w then mc_predicate_latency cfg else 0)
                (if delay then mc_phase_wakeup_latency cfg else 0)
          in if release_cycle > now
             then Some (Still_Waiting (w1\<lparr>pw_phase_notification_pending := False,
                    pw_result_ready_delay_pending := True,
                    pw_next_recheck_cycle := release_cycle\<rparr>), m1)
             else finish_wait w1 m1
      })"

text \<open>
  The body of the loop over the due waits: a wait whose warp slot was reused since (another
  dynamic warp or another CTA) is cancelled, which is \<open>None\<close> in the result.
\<close>

definition recheck_entry :: "bool \<Rightarrow> mbarrier_config \<Rightarrow> u64 \<Rightarrow> pending_mbarrier_wait \<Rightarrow> mbarrier_manager
    \<Rightarrow> (recheck_outcome option \<times> mbarrier_manager) option" where
  "recheck_entry same_generation cfg now w m =
     (if now < pw_next_recheck_cycle w then Some (Some (Still_Waiting w), m)
      else if \<not> same_generation then Some (None, m)
      else map_option (\<lambda>(out, m'). (Some out, m')) (recheck_wait cfg now w m))"

subsection \<open>When a phase completes\<close>

lemma get_put [simp]:
  "get_mbarrier (put_mbarrier k b m) j = (if j = k then Some b else get_mbarrier m j)"
  by (simp add: get_mbarrier_def put_mbarrier_def)

datatype phase_op = P_Arrive int | P_Expect int | P_Complete int

fun phase_step :: "thread_index \<Rightarrow> u64 \<Rightarrow> phase_op \<Rightarrow> mbarrier_manager \<Rightarrow> int set \<times> mbarrier_manager" where
  "phase_step ti addr (P_Arrive k) m = mbar_arrive ti addr k m"
| "phase_step ti addr (P_Complete n) m = mbar_complete_tx ti addr n m"
| "phase_step ti addr (P_Expect n) m =
     (case mbar_expect_tx ti addr n m of None \<Rightarrow> ({}, m) | Some m' \<Rightarrow> ({}, m'))"

text \<open>All warps released by a sequence of operations on one barrier, and the manager after it.\<close>

fun phase_run :: "thread_index \<Rightarrow> u64 \<Rightarrow> phase_op list \<Rightarrow> mbarrier_manager \<Rightarrow> int set \<times> mbarrier_manager" where
  "phase_run ti addr [] m = ({}, m)"
| "phase_run ti addr (x # xs) m =
     (let (r, m1) = phase_step ti addr x m; (rs, m2) = phase_run ti addr xs m1 in (r \<union> rs, m2))"

fun arrivals :: "phase_op list \<Rightarrow> int" where
  "arrivals [] = 0"
| "arrivals (P_Arrive k # xs) = k + arrivals xs"
| "arrivals (_ # xs) = arrivals xs"

fun net_tx :: "phase_op list \<Rightarrow> int" where
  "net_tx [] = 0"
| "net_tx (P_Expect n # xs) = n + net_tx xs"
| "net_tx (P_Complete n # xs) = net_tx xs - n"
| "net_tx (_ # xs) = net_tx xs"

definition is_expect :: "phase_op \<Rightarrow> bool" where
  "is_expect x = (case x of P_Expect _ \<Rightarrow> True | _ \<Rightarrow> False)"

text \<open>Everything expected has happened, and the last event was an arrival or a completion.\<close>

definition phase_complete :: "int \<Rightarrow> phase_op list \<Rightarrow> bool" where
  "phase_complete n xs \<longleftrightarrow> xs \<noteq> [] \<and> \<not> is_expect (last xs) \<and> n \<le> arrivals xs \<and> net_tx xs = 0"

lemma arrivals_append [simp]: "arrivals (xs @ ys) = arrivals xs + arrivals ys"
  by (induction xs rule: arrivals.induct) auto

lemma net_tx_append [simp]: "net_tx (xs @ ys) = net_tx xs + net_tx ys"
  by (induction xs rule: net_tx.induct) auto

lemma phase_run_append:
  "phase_run ti addr (xs @ ys) m =
     (let (r, m1) = phase_run ti addr xs m; (rs, m2) = phase_run ti addr ys m1 in (r \<union> rs, m2))"
  by (induction xs arbitrary: m) (auto simp: Let_def split: prod.splits)

text \<open>
  C8. A phase with \<open>n\<close> expected arrivals completes exactly at the first arrival or
  completion that finds all arrivals in and the expected and completed transactions
  balanced, whatever their order (completions may precede their \<open>expect_tx\<close>): then every
  waiting warp is released, none remains, and the next phase expects \<open>n\<close> arrivals again.
  Before it no warp is released and no count is lost.
\<close>

theorem phase_completes_exactly:
  assumes "get_mbarrier m (mm_key ti addr) = Some b"
    and "mb_m_expected_count b = n" "mb_m_pending_arrival_count b = n" "mb_m_tx_count b = 0" "0 < n"
    and "\<forall>k. P_Arrive k \<in> set xs \<longrightarrow> 0 < k"
    and "\<forall>ys zs. xs = ys @ zs \<longrightarrow> zs \<noteq> [] \<longrightarrow> \<not> phase_complete n ys"
  shows "\<exists>r m' b'. phase_run ti addr xs m = (r, m') \<and>
    get_mbarrier m' (mm_key ti addr) = Some b' \<and> mb_m_expected_count b' = n \<and>
    (if phase_complete n xs
     then r = mb_m_waiting_warps b \<and> mb_m_waiting_warps b' = {} \<and>
       mb_m_phase b' = mb_m_phase b + 1 \<and> mb_m_pending_arrival_count b' = n \<and> mb_m_tx_count b' = 0
     else r = {} \<and> mb_m_waiting_warps b' = mb_m_waiting_warps b \<and>
       mb_m_phase b' = mb_m_phase b \<and> mb_m_pending_arrival_count b' = max 0 (n - arrivals xs) \<and>
       mb_m_tx_count b' = net_tx xs)"
  using assms(6,7)
proof (induction xs rule: rev_induct)
  case Nil
  with assms(1-5) show ?case by (simp add: phase_complete_def)
next
  case (snoc x xs)
  have "\<not> phase_complete n xs" using snoc.prems(2) by blast
  moreover have "\<forall>ys zs. xs = ys @ zs \<longrightarrow> zs \<noteq> [] \<longrightarrow> \<not> phase_complete n ys"
    using snoc.prems(2) by auto
  moreover have "\<forall>k. P_Arrive k \<in> set xs \<longrightarrow> 0 < k" using snoc.prems(1) by auto
  ultimately obtain m1 b1 where ih: "phase_run ti addr xs m = ({}, m1)"
    "get_mbarrier m1 (mm_key ti addr) = Some b1" "mb_m_expected_count b1 = n"
    "mb_m_waiting_warps b1 = mb_m_waiting_warps b" "mb_m_phase b1 = mb_m_phase b"
    "mb_m_pending_arrival_count b1 = max 0 (n - arrivals xs)" "mb_m_tx_count b1 = net_tx xs"
    using snoc.IH by auto
  show ?case
  proof (cases x)
    case (P_Arrive k)
    then have "0 < k" using snoc.prems(1) by auto
    with ih P_Arrive show ?thesis
      by (auto simp: phase_run_append mbar_arrive_def try_advance_def arrive_count_def Let_def
          phase_complete_def is_expect_def split: if_splits)
  next
    case (P_Expect e)
    with ih show ?thesis
      by (auto simp: phase_run_append mbar_expect_tx_def phase_complete_def is_expect_def)
  next
    case (P_Complete c)
    with ih show ?thesis
      by (auto simp: phase_run_append mbar_complete_tx_def try_advance_def Let_def
          phase_complete_def is_expect_def split: if_splits)
  qed
qed

definition sample_thread :: thread_index where
  "sample_thread = \<lparr>ti_hw_cta_id = 0, ti_hw_warp_id = 2, ti_sw_cta_id = 7, ti_sw_warp_id = 2\<rparr>"

text \<open>A barrier at address 64 that expects two arrivals, with warps 2 and 5 waiting.\<close>

definition sample_manager :: mbarrier_manager where
  "sample_manager = enqueue_wait (sample_thread\<lparr>ti_hw_warp_id := 5\<rparr>) 64
     (enqueue_wait sample_thread 64 (mbar_init sample_thread 64 2 mm_new))"

theorem phase_completes_exactly_witness:
  "\<exists>m' b'. phase_run sample_thread 64
      [P_Complete 16, P_Arrive 1, P_Expect 48, P_Arrive 1, P_Complete 32] sample_manager = ({2, 5}, m') \<and>
    get_mbarrier m' (mm_key sample_thread 64) = Some b' \<and> mb_m_phase b' = 1"
proof -
  let ?xs = "[P_Complete 16, P_Arrive 1, P_Expect 48, P_Arrive 1, P_Complete 32]"
  obtain b where b: "get_mbarrier sample_manager (mm_key sample_thread 64) = Some b"
    "mb_m_expected_count b = 2" "mb_m_pending_arrival_count b = 2" "mb_m_tx_count b = 0"
    "mb_m_waiting_warps b = {2, 5}" "mb_m_phase b = 0"
    by (simp add: sample_manager_def enqueue_wait_def mbar_init_def mm_new_def get_mbarrier_def
        put_mbarrier_def mm_key_def sample_thread_def mbarrier_new_def insert_commute)
  have "\<forall>ys zs. ?xs = ys @ zs \<longrightarrow> zs \<noteq> [] \<longrightarrow> \<not> phase_complete 2 ys"
    by (auto simp: Cons_eq_append_conv phase_complete_def is_expect_def)
  moreover have "phase_complete 2 ?xs" by (simp add: phase_complete_def is_expect_def)
  ultimately show ?thesis
    using phase_completes_exactly [OF b(1-4), of ?xs] b(5,6) by auto
qed

text \<open>
  An \<open>expect_tx\<close> never completes a phase: after an early completion and the last arrival,
  the \<open>expect_tx\<close> that balances the count leaves a barrier with nothing pending in the old
  phase, where only \<open>try_wait\<close> (which the suspended waits do not use) would advance it.
\<close>

lemma expect_tx_leaves_complete_phase:
  "\<exists>m' b'. phase_run sample_thread 64 [P_Complete 16, P_Arrive 2, P_Expect 16] sample_manager = ({}, m') \<and>
    get_mbarrier m' (mm_key sample_thread 64) = Some b' \<and> mb_m_pending_arrival_count b' = 0 \<and>
    mb_m_tx_count b' = 0 \<and> mb_m_phase b' = 0 \<and> test_wait sample_thread 64 0 m' = Some False"
  by (simp add: sample_manager_def enqueue_wait_def mbar_init_def mm_new_def
      sample_thread_def mbarrier_new_def mbar_arrive_def mbar_complete_tx_def mbar_expect_tx_def
      try_advance_def arrive_count_def test_wait_def mb_parity_def get_mbarrier_def put_mbarrier_def
      mm_key_def)

subsection \<open>Suspended waits\<close>

text \<open>Registering a warp keeps the parity of every barrier and every registration.\<close>

definition mm_extends :: "mbarrier_manager \<Rightarrow> mbarrier_manager \<Rightarrow> bool" where
  "mm_extends m m' \<longleftrightarrow> (\<forall>k. case get_mbarrier m k of None \<Rightarrow> get_mbarrier m' k = None
     | Some b \<Rightarrow> (\<exists>b'. get_mbarrier m' k = Some b' \<and> mb_m_phase b' = mb_m_phase b \<and>
         mb_m_waiting_warps b \<subseteq> mb_m_waiting_warps b'))"

lemma mm_extends_refl: "mm_extends m m"
  by (simp add: mm_extends_def split: option.splits)

lemma mm_extends_trans: "mm_extends m m1 \<Longrightarrow> mm_extends m1 m2 \<Longrightarrow> mm_extends m m2"
  unfolding mm_extends_def
proof (intro allI)
  fix k
  assume a: "\<forall>k. case get_mbarrier m k of None \<Rightarrow> get_mbarrier m1 k = None
     | Some b \<Rightarrow> (\<exists>b'. get_mbarrier m1 k = Some b' \<and> mb_m_phase b' = mb_m_phase b \<and>
         mb_m_waiting_warps b \<subseteq> mb_m_waiting_warps b')"
    "\<forall>k. case get_mbarrier m1 k of None \<Rightarrow> get_mbarrier m2 k = None
     | Some b \<Rightarrow> (\<exists>b'. get_mbarrier m2 k = Some b' \<and> mb_m_phase b' = mb_m_phase b \<and>
         mb_m_waiting_warps b \<subseteq> mb_m_waiting_warps b')"
  from a(1) [rule_format, of k] a(2) [rule_format, of k]
  show "case get_mbarrier m k of None \<Rightarrow> get_mbarrier m2 k = None
     | Some b \<Rightarrow> (\<exists>b'. get_mbarrier m2 k = Some b' \<and> mb_m_phase b' = mb_m_phase b \<and>
         mb_m_waiting_warps b \<subseteq> mb_m_waiting_warps b')"
    by (cases "get_mbarrier m k") auto
qed

lemma mm_extendsD:
  assumes "mm_extends m m'"
  shows "get_mbarrier m k = None \<Longrightarrow> get_mbarrier m' k = None"
    and "get_mbarrier m k = Some b \<Longrightarrow> \<exists>b'. get_mbarrier m' k = Some b' \<and>
      mb_m_phase b' = mb_m_phase b \<and> mb_m_waiting_warps b \<subseteq> mb_m_waiting_warps b'"
  using assms [unfolded mm_extends_def, rule_format, of k] by simp_all

lemma mm_extends_test_wait:
  "mm_extends m m' \<Longrightarrow> test_wait ti addr p m' = test_wait ti addr p m"
  by (cases "get_mbarrier m (mm_key ti addr)")
    (auto simp: test_wait_def mb_parity_def dest: mm_extendsD)

definition registered :: "mbarrier_manager \<Rightarrow> thread_index \<Rightarrow> u64 \<Rightarrow> bool" where
  "registered m ti addr \<longleftrightarrow> (\<exists>b. get_mbarrier m (mm_key ti addr) = Some b \<and>
     ti_hw_warp_id ti \<in> mb_m_waiting_warps b)"

lemma mm_extends_registered:
  assumes "mm_extends m m'" "registered m ti addr"
  shows "registered m' ti addr"
proof -
  obtain b where "get_mbarrier m (mm_key ti addr) = Some b" "ti_hw_warp_id ti \<in> mb_m_waiting_warps b"
    using assms(2) by (auto simp: registered_def)
  with mm_extendsD(2) [OF assms(1), of "mm_key ti addr" b] show ?thesis
    by (auto simp: registered_def)
qed

lemma register_wait_extends:
  assumes "register_wait ti addr m = Some m'"
  shows "mm_extends m m'" "registered m' ti addr"
  using assms
  by (auto simp: register_wait_def bind_eq_Some_conv mm_extends_def registered_def split: option.splits)

text \<open>What a recheck decides for one lane.\<close>

definition lane_decided :: "u64 \<Rightarrow> thread_index \<Rightarrow> mbarrier_manager \<Rightarrow> mbarrier_manager \<Rightarrow> lane_wait \<Rightarrow> lane_wait \<Rightarrow> bool"
where
  "lane_decided now ti m m' l l' \<longleftrightarrow>
     (if \<not> unresolved l then l' = l
      else if test_wait ti (lw_addr l) (lw_parity l) m = Some True
      then l' = l\<lparr>lw_resolved := True, lw_result := True\<rparr>
      else test_wait ti (lw_addr l) (lw_parity l) m = Some False \<and>
        (if lw_deadline_cycle l \<le> now then l' = l\<lparr>lw_resolved := True, lw_result := False\<rparr>
         else l' = l \<and> registered m' ti (lw_addr l)))"

lemma lane_decided_extends:
  assumes "mm_extends m0 m" "mm_extends m1 m2" "lane_decided now ti m m1 l l'"
  shows "lane_decided now ti m0 m2 l l'"
  using assms(3) mm_extends_test_wait [OF assms(1)] mm_extends_registered [OF assms(2)]
  by (auto simp: lane_decided_def)

lemma recheck_lane_decided:
  assumes "recheck_lane now ti l m = Some (l', m')"
  shows "lane_decided now ti m m' l l' \<and> mm_extends m m'"
proof (cases "unresolved l")
  case False
  with assms show ?thesis by (auto simp: recheck_lane_def lane_decided_def mm_extends_refl)
next
  case True
  then obtain c where c: "test_wait ti (lw_addr l) (lw_parity l) m = Some c"
    using assms by (auto simp: recheck_lane_def bind_eq_Some_conv)
  show ?thesis
  proof (cases "c \<or> lw_deadline_cycle l \<le> now")
    case True
    with assms \<open>unresolved l\<close> c show ?thesis
      by (auto simp: recheck_lane_def lane_decided_def mbarrier_classify_recheck_def mm_extends_refl)
  next
    case False
    then have "register_wait ti (lw_addr l) m = Some m'" "l' = l"
      using assms \<open>unresolved l\<close> c
      by (auto simp: recheck_lane_def mbarrier_classify_recheck_def bind_eq_Some_conv)
    with register_wait_extends [OF this(1)] False c \<open>unresolved l\<close> show ?thesis
      by (simp add: lane_decided_def)
  qed
qed

lemma recheck_lanes_decided:
  assumes "recheck_lanes now ti ls m = Some (ls', m')"
  shows "list_all2 (lane_decided now ti m m') ls ls' \<and> mm_extends m m'"
  using assms
proof (induction ls arbitrary: m ls')
  case Nil
  then show ?case by (simp add: mm_extends_refl)
next
  case (Cons l ls)
  then obtain l1 m1 ls1 where l1: "recheck_lane now ti l m = Some (l1, m1)"
    "recheck_lanes now ti ls m1 = Some (ls1, m')" "ls' = l1 # ls1"
    by (auto simp: bind_eq_Some_conv)
  note one = recheck_lane_decided [OF l1(1)] and rest = Cons.IH [OF l1(2)]
  have "lane_decided now ti m m' l l1"
    using lane_decided_extends [OF mm_extends_refl] one rest by blast
  moreover have "list_all2 (lane_decided now ti m m') ls ls1"
    using rest one lane_decided_extends [OF _ mm_extends_refl] by (auto elim!: list_all2_mono)
  ultimately show ?case using l1(3) one rest mm_extends_trans by auto
qed

lemma min_deadline_greater:
  assumes "\<forall>l \<in> set ls. now < lw_deadline_cycle l" "ls \<noteq> []"
  shows "now < min_deadline ls"
proof -
  have "now < fold (\<lambda>l acc. min acc (lw_deadline_cycle l)) ls a"
    if "\<forall>l \<in> set ls. now < lw_deadline_cycle l" "now < a" for a ls
    using that by (induction ls arbitrary: a) auto
  moreover have "now < - 1"
    using assms by (metis last_in_set less_le_trans word_order.extremum)
  ultimately show ?thesis using assms(1) by (simp add: min_deadline_def)
qed

text \<open>
  C21. A recheck of a suspended \<open>try_wait\<close> decides every lane correctly: a lane ends true
  exactly when its phase is complete, ends false only at or after its deadline with the
  phase incomplete, and otherwise stays asleep with the warp registered for the next phase
  change of its barrier; an undecided wait is rescheduled strictly later, so the recheck
  loop makes progress.
\<close>

theorem recheck_decides_lanes:
  assumes "recheck_wait cfg now w m = Some (out, m')" "pw_next_recheck_cycle w \<le> now"
    and "\<not> pw_result_ready_delay_pending w"
  shows "\<exists>m1. list_all2 (lane_decided now (pw_thread w) m m1) (pw_lanes w)
      (case out of Still_Waiting w' \<Rightarrow> pw_lanes w' | Finished ls \<Rightarrow> ls) \<and>
    (case out of Still_Waiting w' \<Rightarrow> m1 = m' \<and> now < pw_next_recheck_cycle w'
     | Finished ls \<Rightarrow> list_all (\<lambda>l. lw_active l \<longrightarrow> lw_resolved l) ls)"
proof -
  note due = leD [OF assms(2)] assms(3)
  have "recheck_lanes now (pw_thread w) (pw_lanes w) m \<noteq> None"
    using assms(1) due
    by (cases "recheck_lanes now (pw_thread w) (pw_lanes w) m") (simp_all add: recheck_wait_def)
  then obtain ls m1 where ls: "recheck_lanes now (pw_thread w) (pw_lanes w) m = Some (ls, m1)"
    by auto
  note decided = recheck_lanes_decided [OF ls]
  show ?thesis
  proof (cases "list_ex unresolved ls")
    case True
    then have out: "out = Still_Waiting (w\<lparr>pw_lanes := ls, pw_phase_notification_pending := False,
        pw_next_recheck_cycle := min_deadline (filter unresolved ls)\<rparr>)" "m1 = m'"
      using assms(1) due ls by (simp_all add: recheck_wait_def)
    have "now < lw_deadline_cycle l" if l: "l \<in> set ls" "unresolved l" for l
    proof -
      obtain i where i: "i < length ls" "ls ! i = l" using l(1) by (auto simp: in_set_conv_nth)
      then have "lane_decided now (pw_thread w) m m1 (pw_lanes w ! i) l"
        using decided by (auto simp: list_all2_conv_all_nth)
      with l(2) show ?thesis by (auto simp: lane_decided_def unresolved_def split: if_splits)
    qed
    then have "now < min_deadline (filter unresolved ls)"
      using True by (intro min_deadline_greater) (auto simp: filter_empty_conv list_ex_iff)
    with decided out show ?thesis by (intro exI [of _ m1]) simp
  next
    case False
    with assms(1) due ls decided show ?thesis
      by (intro exI [of _ m1])
        (auto simp: recheck_wait_def Let_def finish_wait_def split: if_splits)
  qed
qed

definition sample_cfg :: mbarrier_config where
  "sample_cfg = \<lparr>mc_predicate_latency = 0, mc_trywait_latency = 20, mc_phase_wakeup_latency = 4,
     mc_core_freq = 1700000000\<rparr>"

text \<open>Two lanes wait on the barrier, one for the current phase and one for the previous one.\<close>

definition sample_wait :: pending_mbarrier_wait where
  "sample_wait = \<lparr>pw_thread = sample_thread, pw_issue_cycle = 100, pw_next_recheck_cycle = 110,
     pw_phase_notification_pending = True, pw_result_ready_delay_pending = False,
     pw_has_no_hint = True, pw_suspended = True,
     pw_lanes = [\<lparr>lw_active = True, lw_resolved = False, lw_result = False, lw_addr = 64, lw_parity = 0,
         lw_has_time_hint = False, lw_time_hint_ns = 0, lw_deadline_cycle = 120\<rparr>,
       \<lparr>lw_active = True, lw_resolved = False, lw_result = False, lw_addr = 64, lw_parity = 1,
         lw_has_time_hint = False, lw_time_hint_ns = 0, lw_deadline_cycle = 120\<rparr>]\<rparr>"

theorem recheck_decides_lanes_witness:
  "\<exists>out m' m1. recheck_wait sample_cfg 110 sample_wait sample_manager = Some (out, m') \<and>
    list_all2 (lane_decided 110 sample_thread sample_manager m1) (pw_lanes sample_wait)
      (case out of Still_Waiting w' \<Rightarrow> pw_lanes w' | Finished ls \<Rightarrow> ls) \<and>
    (case out of Still_Waiting w' \<Rightarrow> m1 = m' \<and> 110 < pw_next_recheck_cycle w'
     | Finished ls \<Rightarrow> list_all (\<lambda>l. lw_active l \<longrightarrow> lw_resolved l) ls)"
proof -
  have "recheck_wait sample_cfg 110 sample_wait sample_manager \<noteq> None"
    by (simp add: recheck_wait_def sample_wait_def recheck_lane_def unresolved_def test_wait_def
        sample_manager_def enqueue_wait_def mbar_init_def mm_new_def sample_thread_def mbarrier_new_def
        get_mbarrier_def put_mbarrier_def mm_key_def mb_parity_def mbarrier_classify_recheck_def
        register_wait_def)
  then obtain out m' where r: "recheck_wait sample_cfg 110 sample_wait sample_manager = Some (out, m')"
    by auto
  have "pw_next_recheck_cycle sample_wait \<le> 110" "\<not> pw_result_ready_delay_pending sample_wait"
    "pw_thread sample_wait = sample_thread"
    by (simp_all add: sample_wait_def)
  with recheck_decides_lanes [OF r] r show ?thesis by auto
qed

subsection \<open>Remote waiters and time hints\<close>

text \<open>
  A remote waiter is neither lost nor served early: when an arrival completes the
  phase, all remote waiters registered for it are handed out, in registration order, and
  none is kept; without the advance none is handed out.
\<close>

theorem remote_waiters_served:
  assumes "get_mbarrier m (mm_key ti addr) = Some b"
    and "\<forall>w \<in> set (mb_m_remote_waiters b). rw_parity w = mb_parity b"
  shows "\<exists>r m1 b1. mbar_arrive ti addr k m = (r, m1) \<and> get_mbarrier m1 (mm_key ti addr) = Some b1 \<and>
    fst (take_satisfied_remote_waiters (ti_sw_cta_id ti) addr m1) =
      (if mb_m_phase b1 \<noteq> mb_m_phase b then mb_m_remote_waiters b else []) \<and>
    map_option mb_m_remote_waiters (get_mbarrier
        (snd (take_satisfied_remote_waiters (ti_sw_cta_id ti) addr m1)) (mm_key ti addr)) =
      Some (if mb_m_phase b1 \<noteq> mb_m_phase b then [] else mb_m_remote_waiters b)"
proof -
  obtain r b1 where b1: "try_advance (arrive_count k b) = (r, b1)" by fastforce
  then have same: "mb_m_remote_waiters b1 = mb_m_remote_waiters b"
    and phase: "mb_m_phase b1 = mb_m_phase b \<or> mb_m_phase b1 = mb_m_phase b + 1"
    by (auto simp: try_advance_def arrive_count_def split: if_splits)
  let ?m1 = "put_mbarrier (mm_key ti addr) b1 m"
  have run: "mbar_arrive ti addr k m = (r, ?m1)"
    using assms(1) b1 by (simp add: mbar_arrive_def)
  have parity: "mb_parity b1 = mb_parity b \<longleftrightarrow> mb_m_phase b1 = mb_m_phase b"
    using phase by (auto simp: mb_parity_def) presburger
  have filters: "filter (\<lambda>w. rw_parity w = mb_parity b1) (mb_m_remote_waiters b) =
      (if mb_m_phase b1 \<noteq> mb_m_phase b then [] else mb_m_remote_waiters b)"
    "filter (\<lambda>w. rw_parity w \<noteq> mb_parity b1) (mb_m_remote_waiters b) =
      (if mb_m_phase b1 \<noteq> mb_m_phase b then mb_m_remote_waiters b else [])"
    using assms(2) parity by (auto simp: filter_empty_conv filter_id_conv)
  have key: "(ti_sw_cta_id ti, addr) = mm_key ti addr" by (simp add: mm_key_def)
  show ?thesis
    using run same filters
    by (intro exI [of _ r] exI [of _ ?m1] exI [of _ b1])
      (simp add: take_satisfied_remote_waiters_def key)
qed

theorem remote_waiters_served_witness:
  "\<exists>r m1 b1. mbar_arrive sample_thread 64 2
      (snd (register_remote_wait sample_thread 64 0 1 0 9 sample_manager)) = (r, m1) \<and>
    get_mbarrier m1 (mm_key sample_thread 64) = Some b1 \<and>
    fst (take_satisfied_remote_waiters 7 64 m1) =
      (if mb_m_phase b1 \<noteq> 0 then
        [\<lparr>rw_src_cid = 1, rw_src_hw_cta = 0, rw_src_warp_id = 9, rw_parity = 0\<rparr>] else [])"
proof -
  let ?m = "snd (register_remote_wait sample_thread 64 0 1 0 9 sample_manager)"
  obtain b where b: "get_mbarrier ?m (mm_key sample_thread 64) = Some b" "mb_m_phase b = 0"
    "mb_m_remote_waiters b =
      [\<lparr>rw_src_cid = 1, rw_src_hw_cta = 0, rw_src_warp_id = 9, rw_parity = 0\<rparr>]"
    by (simp add: sample_manager_def enqueue_wait_def mbar_init_def mm_new_def
        register_remote_wait_def mb_parity_def get_mbarrier_def put_mbarrier_def
        mm_key_def sample_thread_def mbarrier_new_def)
  then have "\<forall>w \<in> set (mb_m_remote_waiters b). rw_parity w = mb_parity b"
    by (simp add: mb_parity_def)
  from remote_waiters_served [OF b(1) this, of 2] b show ?thesis
    by (auto simp: sample_thread_def)
qed

lemma div_ceil:
  assumes "0 < (b :: nat)"
  shows "h \<le> (h + b - 1) div b * b" and "h \<le> c * b \<Longrightarrow> (h + b - 1) div b \<le> c"
proof -
  have "h + b - 1 < b + b * ((h + b - 1) div b)" using assms by (rule dividend_less_times_div)
  then show "h \<le> (h + b - 1) div b * b" using assms by (simp add: mult.commute)
  assume "h \<le> c * b"
  then have "h + b - 1 < (c + 1) * b" using assms by simp
  then have "(h + b - 1) div b < c + 1" using assms by (simp add: div_less_iff_less_mult)
  then show "(h + b - 1) div b \<le> c" by simp
qed

text \<open>
  The conversion of a time hint loses nothing: for 32-bit operands the cycle count is
  the least one that lasts at least as long as the hint, without overflow.
\<close>

theorem hint_cycles_exact:
  assumes "hint < 2 ^ 32" "freq < 2 ^ 32"
  shows "hint * freq \<le> unat (mbarrier_hint_ns_to_cycles hint freq) * 1000000000 \<and>
    (\<forall>c. hint * freq \<le> c * 1000000000 \<longrightarrow> unat (mbarrier_hint_ns_to_cycles hint freq) \<le> c)"
proof -
  let ?c = "(hint * freq + 1000000000 - 1) div 1000000000"
  have "hint * freq < 2 ^ 32 * 2 ^ 32"
    using assms by (intro mult_strict_mono) auto
  then have "?c < 2 ^ 64" by simp
  then have c: "unat (mbarrier_hint_ns_to_cycles hint freq) = ?c"
    by (simp add: mbarrier_hint_ns_to_cycles_def unat_of_nat take_bit_nat_eq_self)
  show ?thesis unfolding c using div_ceil [of 1000000000 "hint * freq"] by simp
qed

theorem hint_cycles_exact_witness: "unat (mbarrier_hint_ns_to_cycles 1001 1700000000) = 1702"
proof -
  have "(1001 :: nat) < 2 ^ 32" "(1700000000 :: nat) < 2 ^ 32" by simp_all
  from hint_cycles_exact [OF this]
  have "1001 * 1700000000 \<le> unat (mbarrier_hint_ns_to_cycles 1001 1700000000) * 1000000000"
    and "unat (mbarrier_hint_ns_to_cycles 1001 1700000000) \<le> 1702" by simp_all
  then show ?thesis by arith
qed

end
