(* ===== verification/Mshr.thy ===== *)
theory Mshr
  imports Prelude "HOL-Library.Finite_Map"
begin

section \<open>Miss status holding registers\<close>

text \<open>
  Models \<^verbatim>\<open>mshr_table\<close> (\<^verbatim>\<open>src/gpgpu-sim/mshr-table.cc\<close>, the class in \<^verbatim>\<open>gpu-cache.h\<close> and
  \<^verbatim>\<open>is_read_after_write_pending\<close> in \<^verbatim>\<open>gpu-cache.cc\<close>) and the forwarding rule of
  \<^verbatim>\<open>baseline_cache::ready_forward_eligible\<close>. The hash map is a finite map, a
  \<^verbatim>\<open>mem_fetch *\<close> a value of the type parameter. \<^verbatim>\<open>m_data[b]\<close> on a missing key
  inserts an empty entry, as in C++.
\<close>

subsection \<open>The table\<close>

record 'm mshr_entry =
  me_list :: "'m list"
  me_has_atomic :: bool
  me_ready :: bool

record 'm mshr_table =
  mt_num_entries :: nat
  mt_max_merged :: nat
  mt_data :: "(u64, 'm mshr_entry) fmap"
  mt_current_response :: "u64 list"

definition empty_entry :: "'m mshr_entry" where
  "empty_entry = \<lparr>me_list = [], me_has_atomic = False, me_ready = False\<rparr>"

definition mshr_init :: "nat \<Rightarrow> nat \<Rightarrow> 'm mshr_table" where
  "mshr_init num_entries max_merged =
     \<lparr>mt_num_entries = num_entries, mt_max_merged = max_merged, mt_data = fmempty,
      mt_current_response = []\<rparr>"

definition data_at :: "'m mshr_table \<Rightarrow> u64 \<Rightarrow> 'm mshr_entry" where
  "data_at t b = (case fmlookup (mt_data t) b of None \<Rightarrow> empty_entry | Some e \<Rightarrow> e)"

definition data_size :: "'m mshr_table \<Rightarrow> nat" where
  "data_size t = fcard (fmdom (mt_data t))"

definition probe :: "u64 \<Rightarrow> 'm mshr_table \<Rightarrow> bool" where
  "probe b t = (case fmlookup (mt_data t) b of None \<Rightarrow> False | Some e \<Rightarrow> \<not> me_ready e)"

definition probe_ready :: "u64 \<Rightarrow> 'm mshr_table \<Rightarrow> bool" where
  "probe_ready b t = (case fmlookup (mt_data t) b of None \<Rightarrow> False | Some e \<Rightarrow> me_ready e)"

definition ready_for_forward :: "u64 \<Rightarrow> 'm mshr_table \<Rightarrow> bool" where
  "ready_for_forward b t =
     (case fmlookup (mt_data t) b of None \<Rightarrow> False
      | Some e \<Rightarrow> me_ready e \<and> length (me_list e) < mt_max_merged t)"

definition full :: "u64 \<Rightarrow> 'm mshr_table \<Rightarrow> bool" where
  "full b t =
     (case fmlookup (mt_data t) b of
        Some e \<Rightarrow> if me_ready e then True else mt_max_merged t \<le> length (me_list e)
      | None \<Rightarrow> mt_num_entries t \<le> data_size t)"

definition add :: "u64 \<Rightarrow> 'm \<Rightarrow> bool \<Rightarrow> 'm mshr_table \<Rightarrow> 'm mshr_table option" where
  "add b mf is_atomic t = do {
     cassert (\<not> probe_ready b t);
     let e = data_at t b;
     let e1 = e\<lparr>me_list := me_list e @ [mf]\<rparr>;
     let t1 = t\<lparr>mt_data := fmupd b e1 (mt_data t)\<rparr>;
     cassert (data_size t1 \<le> mt_num_entries t1);
     cassert (length (me_list e1) \<le> mt_max_merged t1);
     Some (if is_atomic then t1\<lparr>mt_data := fmupd b (e1\<lparr>me_has_atomic := True\<rparr>) (mt_data t1)\<rparr> else t1)
   }"

definition add_ready :: "u64 \<Rightarrow> 'm \<Rightarrow> 'm mshr_table \<Rightarrow> 'm mshr_table option" where
  "add_ready b mf t = do {
     cassert (ready_for_forward b t);
     let e = data_at t b;
     Some (t\<lparr>mt_data := fmupd b (e\<lparr>me_list := me_list e @ [mf]\<rparr>) (mt_data t)\<rparr>)
   }"

text \<open>\<^verbatim>\<open>mshr_table::busy\<close> is the constant \<^verbatim>\<open>false\<close>. The result is the \<^verbatim>\<open>has_atomic\<close> flag.\<close>

definition busy :: "'m mshr_table \<Rightarrow> bool" where
  "busy t = False"

definition mark_ready :: "u64 \<Rightarrow> 'm mshr_table \<Rightarrow> (bool \<times> 'm mshr_table) option" where
  "mark_ready b t = do {
     cassert (\<not> busy t);
     e \<leftarrow> fmlookup (mt_data t) b;
     cassert (\<not> me_ready e);
     let t1 = t\<lparr>mt_data := fmupd b (e\<lparr>me_ready := True\<rparr>) (mt_data t),
                mt_current_response := mt_current_response t @ [b]\<rparr>;
     cassert (length (mt_current_response t1) \<le> data_size t1);
     Some (me_has_atomic e, t1)
   }"

definition access_ready :: "'m mshr_table \<Rightarrow> bool" where
  "access_ready t = (mt_current_response t \<noteq> [])"

definition peek_next_access :: "'m mshr_table \<Rightarrow> 'm option" where
  "peek_next_access t = do {
     cassert (access_ready t);
     e \<leftarrow> fmlookup (mt_data t) (hd (mt_current_response t));
     cassert (me_list e \<noteq> []);
     Some (hd (me_list e))
   }"

text \<open>The result names the block as well, which the code keeps inside the \<^verbatim>\<open>mem_fetch\<close>.\<close>

definition next_access :: "'m mshr_table \<Rightarrow> ((u64 \<times> 'm) \<times> 'm mshr_table) option" where
  "next_access t = do {
     cassert (access_ready t);
     let b = hd (mt_current_response t);
     let e = data_at t b;
     cassert (me_list e \<noteq> []);
     let rest = tl (me_list e);
     Some ((b, hd (me_list e)),
       if rest = []
       then t\<lparr>mt_data := fmdrop b (mt_data t), mt_current_response := tl (mt_current_response t)\<rparr>
       else t\<lparr>mt_data := fmupd b (e\<lparr>me_list := rest\<rparr>) (mt_data t)\<rparr>)
   }"

text \<open>
  \<^verbatim>\<open>is_read_after_write_pending\<close>, with \<^verbatim>\<open>mem_fetch::is_write\<close> as an argument; it reads the
  list through \<^verbatim>\<open>operator[]\<close>, so an absent block gets an empty entry.
\<close>

fun read_after_write :: "('m \<Rightarrow> bool) \<Rightarrow> bool \<Rightarrow> 'm list \<Rightarrow> bool" where
  "read_after_write is_write write_found [] = False"
| "read_after_write is_write write_found (mf # ms) =
     (if is_write mf then read_after_write is_write True ms
      else if write_found then True else read_after_write is_write write_found ms)"

definition is_read_after_write_pending ::
    "('m \<Rightarrow> bool) \<Rightarrow> u64 \<Rightarrow> 'm mshr_table \<Rightarrow> bool \<times> 'm mshr_table" where
  "is_read_after_write_pending is_write b t =
     (read_after_write is_write False (me_list (data_at t b)),
      t\<lparr>mt_data := fmupd b (data_at t b) (mt_data t)\<rparr>)"

definition ready_forward_eligible :: "'m mshr_table \<Rightarrow> u64 \<Rightarrow> bool \<Rightarrow> bool \<Rightarrow> bool" where
  "ready_forward_eligible t b write_allocate atomic =
     (ready_for_forward b t \<and> \<not> write_allocate \<and> \<not> atomic)"

subsection \<open>Runs\<close>

text \<open>
  The cache drives the table with these calls; the log keeps what \<^verbatim>\<open>next_access\<close> returned.
  \<open>mshr_allowed\<close> is what the cache has checked when it makes the call
  (\<^verbatim>\<open>baseline_cache::send_read_request\<close>, \<^verbatim>\<open>fill_cache_state\<close> and the drain loops).
\<close>

datatype 'm mshr_op =
  Add u64 'm bool
  | Add_Ready u64 'm
  | Mark_Ready u64
  | Next_Access

type_synonym 'm mshr_state = "(u64 \<times> 'm) list \<times> 'm mshr_table"

definition mshr_step :: "'m mshr_state \<Rightarrow> 'm mshr_op \<Rightarrow> 'm mshr_state option" where
  "mshr_step s x = (case s of (out, t) \<Rightarrow>
     (case x of
        Add b mf a \<Rightarrow> map_option (Pair out) (add b mf a t)
      | Add_Ready b mf \<Rightarrow> map_option (Pair out) (add_ready b mf t)
      | Mark_Ready b \<Rightarrow> map_option (\<lambda>(_, t'). (out, t')) (mark_ready b t)
      | Next_Access \<Rightarrow> map_option (\<lambda>(o1, t'). (out @ [o1], t')) (next_access t)))"

definition mshr_allowed :: "'m mshr_state \<Rightarrow> 'm mshr_op \<Rightarrow> bool" where
  "mshr_allowed s x = (case s of (out, t) \<Rightarrow>
     (case x of
        Add b mf a \<Rightarrow> \<not> full b t
      | Add_Ready b mf \<Rightarrow> ready_forward_eligible t b False False
      | Mark_Ready b \<Rightarrow> probe b t
      | Next_Access \<Rightarrow> access_ready t))"

text \<open>The accesses to a block, in the order the calls handed them over.\<close>

fun handed :: "u64 \<Rightarrow> 'm mshr_op list \<Rightarrow> 'm list" where
  "handed b [] = []"
| "handed b (Add b' mf a # xs) = (if b' = b then mf # handed b xs else handed b xs)"
| "handed b (Add_Ready b' mf # xs) = (if b' = b then mf # handed b xs else handed b xs)"
| "handed b (Mark_Ready _ # xs) = handed b xs"
| "handed b (Next_Access # xs) = handed b xs"

definition served :: "u64 \<Rightarrow> (u64 \<times> 'm) list \<Rightarrow> 'm list" where
  "served b out = map snd (filter (\<lambda>p. fst p = b) out)"

text \<open>\<open>n\<close> calls of \<^verbatim>\<open>next_access\<close> in a row.\<close>

fun drain :: "nat \<Rightarrow> 'm mshr_table \<Rightarrow> ((u64 \<times> 'm) list \<times> 'm mshr_table) option" where
  "drain 0 t = Some ([], t)"
| "drain (Suc n) t = do {
     (a, t1) \<leftarrow> next_access t;
     (as, t2) \<leftarrow> drain n t1;
     Some (a # as, t2)
   }"

subsection \<open>Well-formedness\<close>

definition entry_ok :: "nat \<Rightarrow> 'm mshr_entry \<Rightarrow> bool" where
  "entry_ok max_merged e \<longleftrightarrow> me_list e \<noteq> [] \<and> length (me_list e) \<le> max_merged"

definition mshr_wf :: "'m mshr_table \<Rightarrow> bool" where
  "mshr_wf t \<longleftrightarrow>
     data_size t \<le> mt_num_entries t \<and> 0 < mt_max_merged t \<and>
     (\<forall>b e. fmlookup (mt_data t) b = Some e \<longrightarrow> entry_ok (mt_max_merged t) e) \<and>
     distinct (mt_current_response t) \<and>
     (\<forall>b. b \<in> set (mt_current_response t) \<longleftrightarrow> probe_ready b t)"

lemma mshr_init_wf: "0 < m \<Longrightarrow> mshr_wf (mshr_init n m)"
  by (simp add: mshr_wf_def mshr_init_def data_size_def probe_ready_def fcard.rep_eq)

lemma probe_ready_iff:
  "probe_ready b t \<longleftrightarrow> (\<exists>e. fmlookup (mt_data t) b = Some e \<and> me_ready e)"
  by (simp add: probe_ready_def split: option.splits)

lemma finsert_fmdom [simp]: "fmlookup m b = Some e \<Longrightarrow> finsert b (fmdom m) = fmdom m"
  by (auto intro: fmdomI)

lemma data_at_lookup [simp]: "fmlookup (mt_data t) b = Some e \<Longrightarrow> data_at t b = e"
  by (simp add: data_at_def)

lemma data_at_absent [simp]: "fmlookup (mt_data t) b = None \<Longrightarrow> data_at t b = empty_entry"
  by (simp add: data_at_def)

lemma data_size_upd:
  "fcard (finsert b (fmdom m)) =
     (if fmlookup m b = None then Suc (fcard (fmdom m)) else fcard (fmdom m))"
proof (cases "fmlookup m b")
  case None
  then show ?thesis
    by (simp add: fmdom_notI fcard_finsert_disjoint)
next
  case (Some e')
  then show ?thesis by simp
qed

lemma responses_le_data_size:
  assumes "distinct bs" "\<forall>b \<in> set bs. fmlookup m b \<noteq> None"
  shows "length bs \<le> fcard (fmdom m)"
proof -
  have "fset_of_list bs |\<subseteq>| fmdom m"
    using assms(2) by (auto simp: fset_of_list_elem intro: fmdomI)
  then have "fcard (fset_of_list bs) \<le> fcard (fmdom m)"
    by (rule fcard_mono)
  moreover have "fcard (fset_of_list bs) = length bs"
    using assms(1) by (simp add: fcard.rep_eq fset_of_list.rep_eq distinct_card)
  ultimately show ?thesis by simp
qed

lemma probe_ready_cong:
  "mt_data t = mt_data t' \<Longrightarrow> probe_ready b t = probe_ready b t'"
  by (simp add: probe_ready_def)

lemma add_effect:
  "add b mf a t = Some t' \<Longrightarrow> mt_num_entries t' = mt_num_entries t \<and>
     mt_max_merged t' = mt_max_merged t \<and> mt_current_response t' = mt_current_response t \<and>
     \<not> probe_ready b t \<and>
     length (me_list (data_at t b)) < mt_max_merged t \<and> data_size t' \<le> mt_num_entries t \<and>
     mt_data t' = fmupd b \<lparr>me_list = me_list (data_at t b) @ [mf],
       me_has_atomic = (me_has_atomic (data_at t b) \<or> a), me_ready = me_ready (data_at t b)\<rparr> (mt_data t)"
  by (auto simp: add_def Let_def bind_eq_Some_conv data_size_def fmap_ext split: if_splits)

lemma add_keeps: "mshr_wf t \<Longrightarrow> add b mf a t = Some t' \<Longrightarrow> mshr_wf t'"
  by (drule add_effect)
    (auto simp: mshr_wf_def entry_ok_def probe_ready_iff empty_entry_def data_at_def
      split: option.splits if_splits)

lemma add_ready_effect:
  "add_ready b mf t = Some t' \<Longrightarrow> \<exists>e. fmlookup (mt_data t) b = Some e \<and> me_ready e \<and>
     length (me_list e) < mt_max_merged t \<and>
     t' = t\<lparr>mt_data := fmupd b (e\<lparr>me_list := me_list e @ [mf]\<rparr>) (mt_data t)\<rparr>"
  by (auto simp: add_ready_def Let_def ready_for_forward_def bind_eq_Some_conv
    split: option.splits if_splits)

lemma add_ready_keeps: "mshr_wf t \<Longrightarrow> add_ready b mf t = Some t' \<Longrightarrow> mshr_wf t'"
  by (drule add_ready_effect)
    (auto simp: mshr_wf_def entry_ok_def probe_ready_iff data_size_def data_size_upd
      split: if_splits)

lemma mark_ready_effect:
  "mark_ready b t = Some (a, t') \<Longrightarrow> \<exists>e. fmlookup (mt_data t) b = Some e \<and> \<not> me_ready e \<and>
     t' = t\<lparr>mt_data := fmupd b (e\<lparr>me_ready := True\<rparr>) (mt_data t),
            mt_current_response := mt_current_response t @ [b]\<rparr>"
  by (auto simp: mark_ready_def Let_def bind_eq_Some_conv)

lemma mark_ready_keeps: "mshr_wf t \<Longrightarrow> mark_ready b t = Some (a, t') \<Longrightarrow> mshr_wf t'"
  by (drule mark_ready_effect)
    (auto simp: mshr_wf_def entry_ok_def probe_ready_iff data_size_def data_size_upd
      split: if_splits)

lemma wf_entry: "mshr_wf t \<Longrightarrow> fmlookup (mt_data t) b = Some e \<Longrightarrow> entry_ok (mt_max_merged t) e"
  by (simp add: mshr_wf_def)

lemma wf_front:
  assumes "mshr_wf t" "access_ready t"
  obtains b bs e mf ms where "mt_current_response t = b # bs" "fmlookup (mt_data t) b = Some e"
    "me_ready e" "me_list e = mf # ms" "b \<notin> set bs"
proof -
  from assms(2) obtain b bs where b: "mt_current_response t = b # bs"
    by (cases "mt_current_response t") (auto simp: access_ready_def)
  then have "probe_ready b t" "b \<notin> set bs"
    using assms(1) by (auto simp: mshr_wf_def)
  then obtain e where e: "fmlookup (mt_data t) b = Some e" "me_ready e"
    by (auto simp: probe_ready_iff split: option.splits)
  then have "me_list e \<noteq> []"
    using assms(1) by (auto simp: mshr_wf_def entry_ok_def)
  then show thesis
    using that b e \<open>b \<notin> set bs\<close> by (cases "me_list e") auto
qed

lemma next_access_front:
  assumes "mt_current_response t = b # bs" "fmlookup (mt_data t) b = Some e" "me_list e = mf # ms"
  shows "next_access t = Some ((b, mf),
    if ms = [] then t\<lparr>mt_data := fmdrop b (mt_data t), mt_current_response := bs\<rparr>
    else t\<lparr>mt_data := fmupd b (e\<lparr>me_list := ms\<rparr>) (mt_data t)\<rparr>)"
  using assms by (simp add: next_access_def access_ready_def)

lemma next_access_keeps:
  assumes wf: "mshr_wf t" and next_eq: "next_access t = Some (a, t')"
  shows "mshr_wf t'"
proof -
  have "access_ready t"
    using next_eq by (auto simp: next_access_def cassert_def split: if_splits)
  with wf obtain b bs e mf ms where f: "mt_current_response t = b # bs"
    "fmlookup (mt_data t) b = Some e" "me_ready e" "me_list e = mf # ms" "b \<notin> set bs"
    by (rule wf_front)
  note t' = next_access_front [OF f(1,2,4)]
  show ?thesis
  proof (cases "ms = []")
    case True
    then have "t' = t\<lparr>mt_data := fmdrop b (mt_data t), mt_current_response := bs\<rparr>"
      using t' next_eq by simp
    moreover have "fcard (fmdom (mt_data t) |-| {|b|}) \<le> fcard (fmdom (mt_data t))"
      by (intro fcard_mono) auto
    ultimately show ?thesis
      using wf f(1,5) by (auto simp: mshr_wf_def data_size_def probe_ready_iff)
  next
    case False
    then have "t' = t\<lparr>mt_data := fmupd b (e\<lparr>me_list := ms\<rparr>) (mt_data t)\<rparr>"
      using t' next_eq by simp
    moreover have "length ms \<le> mt_max_merged t"
      using wf_entry [OF wf f(2)] f(4) by (simp add: entry_ok_def)
    ultimately show ?thesis
      using wf f(1,2,3) False
      by (auto simp: mshr_wf_def data_size_def data_size_upd probe_ready_iff entry_ok_def
          split: if_splits)
  qed
qed

definition mshr_state_wf :: "'m mshr_state \<Rightarrow> bool" where
  "mshr_state_wf s = mshr_wf (snd s)"

lemma mshr_step_keeps: "mshr_state_wf s \<Longrightarrow> mshr_step s x = Some s' \<Longrightarrow> mshr_state_wf s'"
  by (cases s; cases x)
    (auto simp: mshr_step_def mshr_state_wf_def
      intro: add_keeps add_ready_keeps mark_ready_keeps next_access_keeps)

lemma add_defined:
  assumes "mshr_wf t" "\<not> full b t"
  shows "add b mf a t \<noteq> None"
proof (cases "fmlookup (mt_data t) b")
  case None
  with assms show ?thesis
    by (simp add: add_def full_def mshr_wf_def probe_ready_iff data_size_def data_size_upd
        empty_entry_def Let_def)
next
  case (Some e)
  with assms have "\<not> me_ready e" "length (me_list e) < mt_max_merged t"
    "data_size t \<le> mt_num_entries t"
    by (auto simp: full_def mshr_wf_def split: if_splits)
  with Some show ?thesis
    by (simp add: add_def probe_ready_iff data_size_def data_size_upd Let_def)
qed

lemma mark_ready_defined:
  assumes wf: "mshr_wf t" and "probe b t"
  shows "mark_ready b t \<noteq> None"
proof -
  from assms(2) obtain e where e: "fmlookup (mt_data t) b = Some e" "\<not> me_ready e"
    by (auto simp: probe_def split: option.splits)
  let ?m = "fmupd b (e\<lparr>me_ready := True\<rparr>) (mt_data t)"
  have resp: "c \<in> set (mt_current_response t) \<Longrightarrow> fmlookup (mt_data t) c \<noteq> None" for c
    using wf by (auto simp: mshr_wf_def probe_ready_iff)
  have "b \<notin> set (mt_current_response t)" "distinct (mt_current_response t)"
    using wf e by (auto simp: mshr_wf_def probe_ready_iff)
  then have "length (mt_current_response t @ [b]) \<le> fcard (fmdom ?m)"
    by (intro responses_le_data_size) (auto dest: resp)
  with e show ?thesis
    by (simp add: mark_ready_def busy_def data_size_def)
qed

lemma mshr_step_defined:
  "mshr_state_wf s \<Longrightarrow> mshr_allowed s x \<Longrightarrow> mshr_step s x \<noteq> None"
proof (cases s; cases x)
  fix out t
  assume s: "s = (out, t)" "mshr_state_wf s" "mshr_allowed s x" and x: "x = Next_Access"
  then have "mshr_wf t" "access_ready t"
    by (simp_all add: mshr_state_wf_def mshr_allowed_def)
  then obtain b bs e mf ms where "mt_current_response t = b # bs" "fmlookup (mt_data t) b = Some e"
    "me_list e = mf # ms"
    by (rule wf_front)
  then show "mshr_step s x \<noteq> None"
    unfolding s(1) x by (simp add: mshr_step_def next_access_front)
qed (auto simp: mshr_state_wf_def mshr_allowed_def mshr_step_def ready_forward_eligible_def
      add_defined mark_ready_defined add_ready_def Let_def)

interpretation mshr_run: step_safe mshr_step mshr_state_wf mshr_allowed
  by unfold_locales (fact mshr_step_keeps mshr_step_defined)+

subsection \<open>Order and draining\<close>

lemma mshr_step_order:
  assumes "mshr_step (out, t) x = Some (out', t')"
  shows "served b out' @ me_list (data_at t' b) = served b out @ me_list (data_at t b) @ handed b [x]"
proof (cases x)
  case (Add c mf a)
  with assms have "out' = out" "add c mf a t = Some t'"
    by (auto simp: mshr_step_def)
  with Add show ?thesis
    by (auto dest!: add_effect simp: data_at_def)
next
  case (Add_Ready c mf)
  with assms have "out' = out" "add_ready c mf t = Some t'"
    by (auto simp: mshr_step_def)
  with Add_Ready show ?thesis
    by (auto dest!: add_ready_effect simp: data_at_def)
next
  case (Mark_Ready c)
  with assms obtain a where "out' = out" "mark_ready c t = Some (a, t')"
    by (auto simp: mshr_step_def)
  with Mark_Ready show ?thesis
    by (auto dest!: mark_ready_effect simp: data_at_def)
next
  case Next_Access
  with assms show ?thesis
    by (cases "mt_current_response t"; cases "me_list (data_at t (hd (mt_current_response t)))")
      (auto simp: mshr_step_def next_access_def access_ready_def served_def data_at_def
        empty_entry_def bind_eq_Some_conv split: if_splits option.splits)
qed

lemma handed_append: "handed b (xs @ ys) = handed b xs @ handed b ys"
  by (induction b xs rule: handed.induct) auto

lemma mshr_run_order:
  "run_ops mshr_step (out, t) xs = Some (out', t') \<Longrightarrow>
   served b out' @ me_list (data_at t' b) = served b out @ me_list (data_at t b) @ handed b xs"
proof (induction xs arbitrary: out t)
  case Nil
  then show ?case by simp
next
  case (Cons x xs)
  then obtain out1 t1 where "mshr_step (out, t) x = Some (out1, t1)"
    and "run_ops mshr_step (out1, t1) xs = Some (out', t')"
    by (auto simp: bind_eq_Some_conv)
  then show ?case
    using Cons.IH [of out1 t1] mshr_step_order [of out t x out1 t1 b]
      handed_append [of b "[x]" xs] by simp
qed

definition responses :: "'m mshr_table \<Rightarrow> (u64 \<times> 'm) list" where
  "responses t = concat (map (\<lambda>b. map (Pair b) (me_list (data_at t b))) (mt_current_response t))"

lemma next_access_responses:
  assumes wf: "mshr_wf t" and ready: "access_ready t"
  obtains a t' where "next_access t = Some (a, t')" "responses t = a # responses t'" "mshr_wf t'"
    "\<forall>b. (if probe_ready b t' then None else fmlookup (mt_data t') b)
       = (if probe_ready b t then None else fmlookup (mt_data t) b)"
proof -
  from wf ready obtain b bs e mf ms where f: "mt_current_response t = b # bs"
    "fmlookup (mt_data t) b = Some e" "me_ready e" "me_list e = mf # ms" "b \<notin> set bs"
    by (rule wf_front)
  define t' where "t' = (if ms = []
    then t\<lparr>mt_data := fmdrop b (mt_data t), mt_current_response := bs\<rparr>
    else t\<lparr>mt_data := fmupd b (e\<lparr>me_list := ms\<rparr>) (mt_data t)\<rparr>)"
  have na: "next_access t = Some ((b, mf), t')"
    unfolding t'_def by (rule next_access_front [OF f(1,2,4)])
  have rest: "map (\<lambda>c. map (Pair c) (me_list (data_at t' c))) bs =
      map (\<lambda>c. map (Pair c) (me_list (data_at t c))) bs"
    using f(5) by (auto simp: t'_def data_at_def)
  have "responses t = (b, mf) # responses t'"
  proof (cases "ms = []")
    case True
    then have "mt_current_response t' = bs" by (simp add: t'_def)
    with True f(1,2,4) rest show ?thesis by (simp add: responses_def del: map_eq_conv)
  next
    case False
    then have "mt_current_response t' = b # bs" "me_list (data_at t' b) = ms"
      using f(1) by (simp_all add: t'_def data_at_def)
    with f(1,2,4) rest show ?thesis by (simp add: responses_def del: map_eq_conv)
  qed
  moreover have "(if probe_ready c t' then None else fmlookup (mt_data t') c)
       = (if probe_ready c t then None else fmlookup (mt_data t) c)" for c
    using f(2,3) by (auto simp: t'_def probe_ready_iff)
  ultimately show thesis
    using that na next_access_keeps [OF wf na] by blast
qed

lemma drain_responses:
  "mshr_wf t \<Longrightarrow> \<exists>t'. drain (length (responses t)) t = Some (responses t, t') \<and> mshr_wf t' \<and>
     \<not> access_ready t' \<and>
     (\<forall>b. fmlookup (mt_data t') b = (if probe_ready b t then None else fmlookup (mt_data t) b))"
proof (induction "length (responses t)" arbitrary: t)
  case 0
  have "\<not> access_ready t"
  proof
    assume "access_ready t"
    with 0(2) obtain b bs e mf ms where "mt_current_response t = b # bs"
      "fmlookup (mt_data t) b = Some e" "me_list e = mf # ms"
      by (rule wf_front)
    with 0(1) show False by (simp add: responses_def)
  qed
  moreover from this 0(2) have "\<not> probe_ready b t" for b
    by (auto simp: mshr_wf_def access_ready_def)
  ultimately show ?case using 0 by simp
next
  case (Suc n)
  have "access_ready t"
    using Suc(2) by (auto simp: responses_def access_ready_def)
  with Suc(3) obtain a t1 where step: "next_access t = Some (a, t1)" "responses t = a # responses t1"
    "mshr_wf t1"
    "\<forall>b. (if probe_ready b t1 then None else fmlookup (mt_data t1) b)
       = (if probe_ready b t then None else fmlookup (mt_data t) b)"
    by (rule next_access_responses)
  with Suc(2) have "n = length (responses t1)" by simp
  from Suc(1) [OF this step(3)] step show ?case by auto
qed

subsection \<open>Properties\<close>

definition sample_mshr_calls :: "nat mshr_op list" where
  "sample_mshr_calls = [Add 128 1 False, Add 256 2 False, Add 128 3 True, Mark_Ready 256, Mark_Ready 128,
     Next_Access, Next_Access, Add_Ready 128 4]"

lemma sample_calls_allowed: "allowed_run mshr_step mshr_allowed ([], mshr_init 2 3) sample_mshr_calls"
  by code_simp

text \<open>
  C31. Under the checks the cache makes before each call, no assertion of the MSHR table ever
  fails, and the table never tracks more blocks than it has entries nor merges more accesses
  into one entry than configured.
\<close>

theorem mshr_never_aborts:
  assumes "0 < max_merged"
    and "allowed_run mshr_step mshr_allowed ([], mshr_init num_entries max_merged) calls"
  shows "\<exists>out t. run_ops mshr_step ([], mshr_init num_entries max_merged) calls = Some (out, t) \<and>
    mshr_wf t"
proof -
  have "mshr_state_wf ([], mshr_init num_entries max_merged)"
    using assms(1) by (simp add: mshr_state_wf_def mshr_init_wf)
  from mshr_run.run_safe [OF this assms(2)] show ?thesis
    by (auto simp: mshr_state_wf_def)
qed

theorem mshr_never_aborts_witness:
  "\<exists>out t. run_ops mshr_step ([], mshr_init 2 3) sample_mshr_calls = Some (out, t) \<and> mshr_wf t"
  by (rule mshr_never_aborts) (simp_all add: sample_calls_allowed)

text \<open>
  C10. Every access handed to the table is returned exactly once and per block in arrival
  order: what \<^verbatim>\<open>next_access\<close> has returned for a block, followed by what still waits in its
  entry, is what the cache handed over for the block, late reads of \<^verbatim>\<open>add_ready\<close> included.
\<close>

theorem mshr_served_in_order:
  assumes "run_ops mshr_step ([], mshr_init num_entries max_merged) calls = Some (out, t)"
  shows "served b out @ me_list (data_at t b) = handed b calls"
  using mshr_run_order [OF assms, of b]
  by (simp add: served_def mshr_init_def data_at_def empty_entry_def)

theorem mshr_served_in_order_witness:
  "\<exists>out t. run_ops mshr_step ([], mshr_init 2 3) sample_mshr_calls = Some (out, t) \<and>
     served 128 out @ me_list (data_at t 128) = handed 128 sample_mshr_calls"
proof -
  have "run_ops mshr_step ([], mshr_init 2 3) sample_mshr_calls \<noteq> None" by code_simp
  then obtain out t where r: "run_ops mshr_step ([], mshr_init 2 3) sample_mshr_calls = Some (out, t)"
    by (metis not_None_eq surj_pair)
  with mshr_served_in_order [OF r, of 128] show ?thesis by blast
qed

text \<open>
  C18. Draining is complete: in every reachable state, \<^verbatim>\<open>next_access\<close> called once per merged
  access of the blocks that have responded returns exactly those accesses, block by block in
  response order, empties the response list, frees the entries of those blocks and leaves
  the blocks still waiting for memory untouched.
\<close>

theorem mshr_drains_responses:
  assumes "0 < max_merged"
    and "allowed_run mshr_step mshr_allowed ([], mshr_init num_entries max_merged) calls"
    and "run_ops mshr_step ([], mshr_init num_entries max_merged) calls = Some (out, t)"
  shows "\<exists>t'. drain (length (responses t)) t = Some (responses t, t') \<and> \<not> access_ready t' \<and>
    (\<forall>b. fmlookup (mt_data t') b = (if probe_ready b t then None else fmlookup (mt_data t) b))"
proof -
  have "mshr_state_wf ([], mshr_init num_entries max_merged)"
    using assms(1) by (simp add: mshr_state_wf_def mshr_init_wf)
  from mshr_run.run_safe [OF this assms(2)] assms(3) have "mshr_wf t"
    by (simp add: mshr_state_wf_def)
  from drain_responses [OF this] show ?thesis by blast
qed

theorem mshr_drains_responses_witness:
  "\<exists>out t t'. run_ops mshr_step ([], mshr_init 2 3) sample_mshr_calls = Some (out, t) \<and>
     drain (length (responses t)) t = Some (responses t, t') \<and> \<not> access_ready t'"
proof -
  have "run_ops mshr_step ([], mshr_init 2 3) sample_mshr_calls \<noteq> None" by code_simp
  then obtain out t where r: "run_ops mshr_step ([], mshr_init 2 3) sample_mshr_calls = Some (out, t)"
    by (metis not_None_eq surj_pair)
  with mshr_drains_responses [OF _ sample_calls_allowed r] show ?thesis by auto
qed

end
