(* ===== verification/Scoreboard.thy ===== *)
theory Scoreboard
  imports Prelude "HOL-Library.Finite_Map"
begin

section \<open>The register scoreboard\<close>

text \<open>
  Models \<^verbatim>\<open>src/gpgpu-sim/scoreboard.h\<close> and \<^verbatim>\<open>scoreboard.cc\<close> and the ALU forwarding
  events of \<^verbatim>\<open>shader.cc\<close> (\<^verbatim>\<open>begin_alu_scoreboard_forwarding\<close>,
  \<^verbatim>\<open>process_alu_scoreboard_forwarding\<close>). The code has one vector of sets or maps per
  field, each indexed by the warp; here the fields of one warp form a record and the
  scoreboard is the list of these records. An index out of range is \<open>None\<close>. Registers and
  instruction uids are \<open>nat\<close>.
\<close>

subsection \<open>Data\<close>

datatype reg_producer_t =
  PROD_MEM_GLOBAL | PROD_MEM_SHARED | PROD_TENSOR_CORE | PROD_SP_INT | PROD_SFU | PROD_TMA
  | PROD_TENSOR_MAP | PROD_OTHER

text \<open>The \<^verbatim>\<open>SPECIALIZED_UNIT_n_OP\<close> values are one constructor with their number.\<close>

datatype uarch_op_t =
  NO_OP | ALU_OP | SFU_OP | TENSOR_CORE_OP | DP_OP | SP_OP | INTP_OP | ALU_SFU_OP | LOAD_OP
  | TENSOR_CORE_LOAD_OP | TENSOR_CORE_STORE_OP | TENSOR_MEMORY_ACCELERATOR_OP | ASYNC_COPY_OP
  | TENSOR_MAP_OP | STORE_OP | BRANCH_OP | BARRIER_OP | MBARRIER_OP | MEMORY_BARRIER_OP
  | CALL_OPS | RET_OPS | EXIT_OPS | SPECIALIZED_UNIT_OP nat

datatype memory_space =
  undefined_space | reg_space | local_space | shared_space | sstarr_space
  | param_space_unclassified | param_space_kernel | param_space_local | const_space | tex_space
  | surf_space | global_space | generic_space | instruction_space

datatype memory_op_t = no_memory_op | memory_load | memory_store

text \<open>The fields of \<^verbatim>\<open>inst_t\<close>/\<^verbatim>\<open>warp_inst_t\<close> that the scoreboard reads.\<close>

record inst =
  in_uid :: nat
  in_warp_id :: nat
  in_op :: uarch_op_t
  in_memory_op :: memory_op_t
  in_space :: memory_space
  in_out :: "nat list"
  in_outcount :: nat
  in_in :: "nat list"
  in_incount :: nat
  in_extra_out :: "nat list"
  in_extra_in :: "nat list"
  in_pred :: int
  in_ar1 :: int
  in_ar2 :: int

definition is_load :: "inst \<Rightarrow> bool" where
  "is_load i = (in_op i = LOAD_OP \<or> in_op i = TENSOR_CORE_LOAD_OP \<or> in_memory_op i = memory_load)"

record warp_sb =
  reg_table :: "nat fset"
  reg_owner :: "(nat, nat) fmap"
  ready_regs :: "nat fset"
  longopregs :: "nat fset"
  reg_producer :: "(nat, reg_producer_t) fmap"

type_synonym scoreboard = "warp_sb list"

definition warp_sb_init :: warp_sb where
  "warp_sb_init = \<lparr>reg_table = {||}, reg_owner = fmempty, ready_regs = {||}, longopregs = {||},
     reg_producer = fmempty\<rparr>"

definition scoreboard_init :: "nat \<Rightarrow> scoreboard" where
  "scoreboard_init n_warps = replicate n_warps warp_sb_init"

subsection \<open>Operations on one warp\<close>

definition reserveRegister :: "nat \<Rightarrow> nat \<Rightarrow> warp_sb \<Rightarrow> warp_sb option" where
  "reserveRegister regnum inst_uid w = do {
     cassert (\<not> (regnum |\<in>| reg_table w \<and> regnum |\<notin>| ready_regs w));
     Some (w\<lparr>reg_table := finsert regnum (reg_table w),
             reg_owner := fmupd regnum inst_uid (reg_owner w),
             ready_regs := ready_regs w |-| {|regnum|}\<rparr>)
   }"

definition releaseRegister :: "nat \<Rightarrow> warp_sb \<Rightarrow> warp_sb" where
  "releaseRegister regnum w =
     (if regnum |\<notin>| reg_table w then w
      else w\<lparr>reg_table := reg_table w |-| {|regnum|},
             reg_owner := fmdrop regnum (reg_owner w),
             ready_regs := ready_regs w |-| {|regnum|},
             longopregs := longopregs w |-| {|regnum|},
             reg_producer := fmdrop regnum (reg_producer w)\<rparr>)"

definition releaseRegisterIfOwner :: "nat \<Rightarrow> nat \<Rightarrow> warp_sb \<Rightarrow> warp_sb" where
  "releaseRegisterIfOwner regnum inst_uid w =
     (if fmlookup (reg_owner w) regnum \<noteq> Some inst_uid then w else releaseRegister regnum w)"

definition islongop :: "nat \<Rightarrow> warp_sb \<Rightarrow> bool" where
  "islongop regnum w = (regnum |\<in>| longopregs w)"

definition classify_producer :: "inst \<Rightarrow> reg_producer_t" where
  "classify_producer i =
     (if in_op i = TENSOR_CORE_OP then PROD_TENSOR_CORE
      else if in_op i = TENSOR_MEMORY_ACCELERATOR_OP then PROD_TMA
      else if in_op i = TENSOR_MAP_OP then PROD_TENSOR_MAP
      else if in_op i = SFU_OP \<or> in_op i = ALU_SFU_OP \<or> in_op i = DP_OP then PROD_SFU
      else if in_op i = LOAD_OP \<or> in_op i = STORE_OP \<or> in_op i = MEMORY_BARRIER_OP \<or>
              in_op i = TENSOR_CORE_LOAD_OP \<or> in_op i = TENSOR_CORE_STORE_OP \<or>
              in_op i = MBARRIER_OP
           then (if in_space i = shared_space then PROD_MEM_SHARED else PROD_MEM_GLOBAL)
      else if in_op i = SP_OP \<or> in_op i = INTP_OP \<or> in_op i = ALU_OP then PROD_SP_INT
      else PROD_OTHER)"

text \<open>
  The two reservation loops, over \<^verbatim>\<open>out\<close> and over \<^verbatim>\<open>extra_out\<close>, share the set
  \<^verbatim>\<open>reserved_outputs\<close>: they are one loop over the concatenation.
\<close>

fun reserve_outputs ::
    "nat \<Rightarrow> reg_producer_t \<Rightarrow> nat list \<Rightarrow> nat fset \<Rightarrow> warp_sb \<Rightarrow> warp_sb option" where
  "reserve_outputs uid producer [] reserved w = Some w"
| "reserve_outputs uid producer (r # rs) reserved w =
     (if 0 < r \<and> r |\<notin>| reserved
      then do {
        w1 \<leftarrow> reserveRegister r uid w;
        reserve_outputs uid producer rs (finsert r reserved)
          (w1\<lparr>reg_producer := fmupd r producer (reg_producer w1)\<rparr>)
      }
      else reserve_outputs uid producer rs reserved w)"

definition long_latency_load :: "inst \<Rightarrow> bool" where
  "long_latency_load i = (is_load i \<and> (in_space i = global_space \<or> in_space i = local_space \<or>
     in_space i = param_space_kernel \<or> in_space i = param_space_local \<or>
     in_space i = param_space_unclassified \<or> in_space i = tex_space))"

definition reserveRegistersForWarp :: "inst \<Rightarrow> warp_sb \<Rightarrow> warp_sb option" where
  "reserveRegistersForWarp i w = do {
     w1 \<leftarrow> reserve_outputs (in_uid i) (classify_producer i) (in_out i @ in_extra_out i) {||} w;
     Some (if long_latency_load i
           then w1\<lparr>longopregs := longopregs w1 |\<union>|
                    fset_of_list (filter (\<lambda>r. 0 < r) (in_out i @ in_extra_out i))\<rparr>
           else w1)
   }"

definition reclassify_register :: "nat \<Rightarrow> warp_sb \<Rightarrow> warp_sb" where
  "reclassify_register r w =
     (if 0 < r \<and> r |\<in>| reg_table w
      then w\<lparr>reg_producer := fmupd r PROD_MEM_SHARED (reg_producer w),
             longopregs := longopregs w |-| {|r|}\<rparr>
      else w)"

definition reclassifyShared :: "inst \<Rightarrow> warp_sb \<Rightarrow> warp_sb" where
  "reclassifyShared i w = fold reclassify_register (in_out i) w"

definition releaseRegistersForWarp :: "inst \<Rightarrow> warp_sb \<Rightarrow> warp_sb" where
  "releaseRegistersForWarp i w =
     fold (\<lambda>r w. if 0 < r then releaseRegisterIfOwner r (in_uid i) w else w)
       (in_out i @ in_extra_out i) w"

definition markRegistersReadyForWarp :: "nat \<Rightarrow> nat list \<Rightarrow> warp_sb \<Rightarrow> warp_sb" where
  "markRegistersReadyForWarp inst_uid outputs w =
     fold (\<lambda>r w. if r = 0 then w
                 else if fmlookup (reg_owner w) r = Some inst_uid
                 then w\<lparr>ready_regs := finsert r (ready_regs w)\<rparr> else w) outputs w"

fun producer_severity :: "reg_producer_t \<Rightarrow> nat" where
  "producer_severity PROD_MEM_GLOBAL = 6"
| "producer_severity PROD_TMA = 5"
| "producer_severity PROD_TENSOR_CORE = 4"
| "producer_severity PROD_SFU = 3"
| "producer_severity PROD_MEM_SHARED = 2"
| "producer_severity PROD_SP_INT = 1"
| "producer_severity _ = 0"

text \<open>The set \<^verbatim>\<open>inst_regs\<close> of the registers an instruction reads or writes.\<close>

definition inst_regs :: "inst \<Rightarrow> nat fset" where
  "inst_regs i =
     fset_of_list (take (in_outcount i) (in_out i) @ take (in_incount i) (in_in i) @
       in_extra_out i @ in_extra_in i @
       map nat (filter (\<lambda>r. 0 < r) [in_pred i, in_ar1 i, in_ar2 i]))"

definition blocking :: "warp_sb \<Rightarrow> nat \<Rightarrow> bool" where
  "blocking w r = (r |\<in>| reg_table w \<and> r |\<notin>| ready_regs w)"

definition producer_of :: "warp_sb \<Rightarrow> nat \<Rightarrow> reg_producer_t" where
  "producer_of w r = (case fmlookup (reg_producer w) r of None \<Rightarrow> PROD_OTHER | Some p \<Rightarrow> p)"

definition getCollisionType :: "inst \<Rightarrow> warp_sb \<Rightarrow> reg_producer_t" where
  "getCollisionType i w =
     fold (\<lambda>r worst. if blocking w r \<and> producer_severity worst < producer_severity (producer_of w r)
                     then producer_of w r else worst)
       (sorted_list_of_fset (inst_regs i)) PROD_OTHER"


definition pendingWrites :: "warp_sb \<Rightarrow> bool" where
  "pendingWrites w = (reg_table w \<noteq> {||})"

definition clearWarp :: "warp_sb \<Rightarrow> warp_sb" where
  "clearWarp w = w\<lparr>reg_table := {||}, reg_owner := fmempty, ready_regs := {||},
                   reg_producer := fmempty\<rparr>"

subsection \<open>Calls on the scoreboard\<close>

datatype sb_op =
  Reserve inst nat
  | Release_Insn inst nat
  | Release_Reg nat nat
  | Mark_Registers_Ready nat nat "nat list"
  | Reclassify inst
  | Clear nat

fun op_warp :: "sb_op \<Rightarrow> nat" where
  "op_warp (Reserve i wid) = wid"
| "op_warp (Release_Insn i wid) = wid"
| "op_warp (Release_Reg wid r) = wid"
| "op_warp (Mark_Registers_Ready wid uid outputs) = wid"
| "op_warp (Reclassify i) = in_warp_id i"
| "op_warp (Clear wid) = wid"

fun warp_op :: "sb_op \<Rightarrow> warp_sb \<Rightarrow> warp_sb option" where
  "warp_op (Reserve i wid) w = reserveRegistersForWarp i w"
| "warp_op (Release_Insn i wid) w = Some (releaseRegistersForWarp i w)"
| "warp_op (Release_Reg wid r) w = Some (releaseRegister r w)"
| "warp_op (Mark_Registers_Ready wid uid outputs) w = Some (markRegistersReadyForWarp uid outputs w)"
| "warp_op (Reclassify i) w = Some (reclassifyShared i w)"
| "warp_op (Clear wid) w = Some (clearWarp w)"

definition sb_step :: "scoreboard \<Rightarrow> sb_op \<Rightarrow> scoreboard option" where
  "sb_step s x = do {
     cassert (op_warp x < length s);
     w \<leftarrow> warp_op x (s ! op_warp x);
     Some (s[op_warp x := w])
   }"



subsection \<open>ALU forwarding\<close>

definition scoreboard_forward_ready_cycle :: "u64 \<Rightarrow> u64 \<Rightarrow> u32 \<Rightarrow> u64 option" where
  "scoreboard_forward_ready_cycle issue_cycle execute_cycle latency = do {
     cassert (issue_cycle \<le> execute_cycle);
     let kNominalIssueToExecuteCycles = (2 :: u64);
     let remaining = (if kNominalIssueToExecuteCycles < ucast latency
                      then ucast latency - kNominalIssueToExecuteCycles else 0);
     Some (max (issue_cycle + ucast latency) (execute_cycle + remaining))
   }"

record alu_forward_event =
  ev_warp_id :: nat
  ev_inst_uid :: nat
  ev_outputs :: "nat list"

text \<open>\<^verbatim>\<open>m_alu_forward_events\<close> is a multimap: \<^verbatim>\<open>emplace\<close> inserts after the equal keys.\<close>

type_synonym alu_events = "(u64 \<times> alu_forward_event) list"

fun emplace :: "u64 \<Rightarrow> alu_forward_event \<Rightarrow> alu_events \<Rightarrow> alu_events" where
  "emplace k e [] = [(k, e)]"
| "emplace k e ((k', e') # es) =
     (if k' \<le> k then (k', e') # emplace k e es else (k, e) # (k', e') # es)"

definition begin_alu_scoreboard_forwarding ::
    "bool \<Rightarrow> inst \<Rightarrow> u64 \<Rightarrow> u64 \<Rightarrow> u32 \<Rightarrow> alu_events \<Rightarrow> alu_events option" where
  "begin_alu_scoreboard_forwarding enabled i issue_cycle now latency evs =
     (if \<not> enabled then Some evs
      else if in_op i \<noteq> SP_OP \<and> in_op i \<noteq> INTP_OP \<and> in_op i \<noteq> ALU_OP \<and> in_op i \<noteq> SFU_OP \<and>
              in_op i \<noteq> ALU_SFU_OP \<and> in_op i \<noteq> DP_OP then Some evs
      else if \<not> list_ex (\<lambda>r. r \<noteq> 0) (in_out i) then Some evs
      else do {
        ready \<leftarrow> scoreboard_forward_ready_cycle issue_cycle now latency;
        Some (emplace ready
          \<lparr>ev_warp_id = in_warp_id i, ev_inst_uid = in_uid i, ev_outputs = in_out i\<rparr> evs)
      })"

fun process_alu_scoreboard_forwarding ::
    "u64 \<Rightarrow> alu_events \<Rightarrow> scoreboard \<Rightarrow> (alu_events \<times> scoreboard) option" where
  "process_alu_scoreboard_forwarding cycle [] s = Some ([], s)"
| "process_alu_scoreboard_forwarding cycle ((k, e) # es) s =
     (if k \<le> cycle
      then do {
        s1 \<leftarrow> sb_step s (Mark_Registers_Ready (ev_warp_id e) (ev_inst_uid e) (ev_outputs e));
        process_alu_scoreboard_forwarding cycle es s1
      }
      else Some ((k, e) # es, s))"

subsection \<open>Invariant\<close>











lemma length_scoreboard_init [simp]: "length (scoreboard_init n) = n"
  by (simp add: scoreboard_init_def)




















subsection \<open>Runs against the abstract scoreboard\<close>









subsection \<open>Lemmas on the reported producer and on forwarding\<close>

lemma severity_fold:
  defines "f \<equiv> \<lambda>P g r worst. if P r \<and> producer_severity worst < producer_severity (g r) then g r else worst"
  shows "fold (f P g) rs start = start \<or>
      (\<exists>r \<in> set rs. P r \<and> g r = fold (f P g) rs start \<and>
         producer_severity start < producer_severity (fold (f P g) rs start))"
    and "producer_severity start \<le> producer_severity (fold (f P g) rs start)"
    and "r \<in> set rs \<Longrightarrow> P r \<Longrightarrow> producer_severity (g r) \<le> producer_severity (fold (f P g) rs start)"
proof -
  show ge: "producer_severity start \<le> producer_severity (fold (f P g) rs start)" for rs start
  proof (induction rs arbitrary: start)
    case (Cons r rs)
    have "producer_severity start \<le> producer_severity (f P g r start)" by (simp add: f_def)
    with Cons [of "f P g r start"] show ?case by simp
  qed simp
  show "fold (f P g) rs start = start \<or>
      (\<exists>r \<in> set rs. P r \<and> g r = fold (f P g) rs start \<and>
         producer_severity start < producer_severity (fold (f P g) rs start))"
  proof (induction rs arbitrary: start)
    case (Cons r rs)
    show ?case
    proof (cases "P r \<and> producer_severity start < producer_severity (g r)")
      case True
      then have "f P g r start = g r" by (simp add: f_def)
      with Cons [of "g r"] ge [of "g r" rs] True show ?thesis by auto
    next
      case False
      then have "f P g r start = start" by (auto simp: f_def)
      with Cons [of start] show ?thesis by auto
    qed
  qed simp
  show "r \<in> set rs \<Longrightarrow> P r \<Longrightarrow> producer_severity (g r) \<le> producer_severity (fold (f P g) rs start)"
  proof (induction rs arbitrary: start)
    case (Cons q rs)
    show ?case
    proof (cases "r = q")
      case True
      with Cons.prems have "producer_severity (g r) \<le> producer_severity (f P g q start)"
        by (simp add: f_def)
      with ge [of "f P g q start" rs] show ?thesis by simp
    next
      case False
      with Cons show ?thesis by simp
    qed
  qed simp
qed

lemma emplace_set: "set (emplace k e es) = insert (k, e) (set es)"
  by (induction k e es rule: emplace.induct) auto

lemma emplace_sorted: "sorted (map fst es) \<Longrightarrow> sorted (map fst (emplace k e es))"
  by (induction k e es rule: emplace.induct) (auto simp: emplace_set)

lemma begin_forwarding_sorted:
  "begin_alu_scoreboard_forwarding enabled i issue now lat evs = Some evs' \<Longrightarrow>
   sorted (map fst evs) \<Longrightarrow> sorted (map fst evs')"
  by (auto simp: begin_alu_scoreboard_forwarding_def emplace_sorted bind_eq_Some_conv
      split: if_splits)

definition mark_op :: "u64 \<times> alu_forward_event \<Rightarrow> sb_op" where
  "mark_op ke = Mark_Registers_Ready (ev_warp_id (snd ke)) (ev_inst_uid (snd ke)) (ev_outputs (snd ke))"

lemma process_forwarding:
  "sorted (map fst evs) \<Longrightarrow> process_alu_scoreboard_forwarding cycle evs s = Some (evs', s') \<Longrightarrow>
   evs' = filter (\<lambda>ke. cycle < fst ke) evs \<and>
   run_ops sb_step s (map mark_op (filter (\<lambda>ke. fst ke \<le> cycle) evs)) = Some s'"
proof (induction cycle evs s rule: process_alu_scoreboard_forwarding.induct)
  case (1 cycle s)
  then show ?case by simp
next
  case (2 cycle k e es s)
  show ?case
  proof (cases "k \<le> cycle")
    case True
    with "2.prems" obtain s1 where "sb_step s (mark_op (k, e)) = Some s1"
      and "process_alu_scoreboard_forwarding cycle es s1 = Some (evs', s')"
      by (auto simp: bind_eq_Some_conv mark_op_def)
    with "2.IH" [OF True, of s1] "2.prems"(1) True show ?thesis
      by (simp add: mark_op_def)
  next
    case False
    then have "filter (\<lambda>ke. cycle < fst ke) es = es" "filter (\<lambda>ke. fst ke \<le> cycle) es = []"
      using "2.prems"(1) by (force simp: filter_id_conv filter_empty_conv)+
    moreover have "evs' = (k, e) # es" "s' = s"
      using False "2.prems"(2) by simp_all
    ultimately show ?thesis using False by simp
  qed
qed

subsection \<open>Properties\<close>

definition sample_load :: inst where
  "sample_load = \<lparr>in_uid = 10, in_warp_id = 1, in_op = LOAD_OP, in_memory_op = memory_load,
     in_space = global_space, in_out = [5, 0, 0, 0, 0, 0, 0, 0], in_outcount = 1, in_in = [2],
     in_incount = 1, in_extra_out = [9], in_extra_in = [], in_pred = 0, in_ar1 = 0, in_ar2 = 0\<rparr>"

definition sample_add :: inst where
  "sample_add = \<lparr>in_uid = 11, in_warp_id = 1, in_op = INTP_OP, in_memory_op = no_memory_op,
     in_space = undefined_space, in_out = [7, 0, 0, 0, 0, 0, 0, 0], in_outcount = 1, in_in = [3, 4],
     in_incount = 2, in_extra_out = [], in_extra_in = [], in_pred = 0, in_ar1 = 0, in_ar2 = 0\<rparr>"









text \<open>
  The stall classification: \<^verbatim>\<open>getCollisionType\<close> names the producer of a blocking
  register of the instruction, or \<^verbatim>\<open>PROD_OTHER\<close>, and no blocking register has a producer of
  higher severity. It never names \<^verbatim>\<open>PROD_TENSOR_MAP\<close>, whose severity is that of the initial
  value.
\<close>

theorem collision_type_most_severe:
  "(getCollisionType i w = PROD_OTHER \<or>
      (\<exists>r. r |\<in>| inst_regs i \<and> blocking w r \<and> producer_of w r = getCollisionType i w)) \<and>
   (\<forall>r. r |\<in>| inst_regs i \<longrightarrow> blocking w r \<longrightarrow>
      producer_severity (producer_of w r) \<le> producer_severity (getCollisionType i w)) \<and>
   getCollisionType i w \<noteq> PROD_TENSOR_MAP"
proof -
  note f = severity_fold [where P = "blocking w" and g = "producer_of w" and start = PROD_OTHER
      and rs = "sorted_list_of_fset (inst_regs i)", folded getCollisionType_def]
  show ?thesis
    using f(1) f(3) by auto
qed

theorem collision_type_most_severe_witness:
  "\<exists>w. reserveRegistersForWarp sample_load warp_sb_init = Some w \<and> blocking w 5 \<and>
     producer_of w 5 = PROD_MEM_GLOBAL \<and>
     producer_severity PROD_MEM_GLOBAL \<le>
       producer_severity (getCollisionType (sample_add\<lparr>in_in := [5, 4]\<rparr>) w)"
proof -
  have "case reserveRegistersForWarp sample_load warp_sb_init of None \<Rightarrow> False
    | Some w \<Rightarrow> blocking w 5 \<and> producer_of w 5 = PROD_MEM_GLOBAL"
    by code_simp
  then obtain w where w: "reserveRegistersForWarp sample_load warp_sb_init = Some w"
    "blocking w 5" "producer_of w 5 = PROD_MEM_GLOBAL"
    by (auto split: option.splits)
  have "5 |\<in>| inst_regs (sample_add\<lparr>in_in := [5, 4]\<rparr>)" by code_simp
  with collision_type_most_severe [of "sample_add\<lparr>in_in := [5, 4]\<rparr>" w] w show ?thesis
    by metis
qed

text \<open>
  A forwarded result becomes usable at \<open>max (issue + latency) (execute + (latency - 2))\<close>:
  the nominal latency, or later by exactly the delay beyond two cycles that the instruction
  spent before its functional unit; only an execution before the issue aborts.
\<close>

theorem forward_ready_cycle_exact:
  assumes "unat execute + unat latency < 2 ^ 64" and "issue \<le> execute"
  shows "\<exists>ready. scoreboard_forward_ready_cycle issue execute latency = Some ready \<and>
    unat ready = max (unat issue + unat latency) (unat execute + (unat latency - 2))"
proof -
  have lat: "unat (ucast latency :: u64) = unat latency"
    using unsigned_less [of latency, where 'a = nat] by (simp add: unsigned_ucast_eq take_bit_nat_eq_self)
  have le: "unat issue \<le> unat execute"
    using assms(2) by (simp add: word_le_nat_alt)
  define rest :: u64 where "rest = (if 2 < (ucast latency :: u64) then ucast latency - 2 else 0)"
  have rest: "unat rest = unat latency - 2"
  proof (cases "2 < (ucast latency :: u64)")
    case True
    then have "(2 :: u64) \<le> ucast latency" by simp
    from unat_sub [OF this] True show ?thesis by (simp add: rest_def lat)
  next
    case False
    then have "unat latency \<le> 2" by (simp add: word_less_nat_alt lat)
    with False show ?thesis by (simp add: rest_def)
  qed
  have "unat (issue + ucast latency) = unat issue + unat latency"
    "unat (execute + rest) = unat execute + (unat latency - 2)"
    using assms(1) le by (simp_all add: unat_word_ariths lat rest)
  then show ?thesis
    using assms(2)
    by (simp add: scoreboard_forward_ready_cycle_def rest_def [symmetric] max_def word_le_nat_alt)
qed

theorem forward_ready_cycle_exact_witness:
  "\<exists>ready. scoreboard_forward_ready_cycle 100 105 6 = Some ready \<and> unat ready = 109"
  using forward_ready_cycle_exact [of 105 6 100] by simp

text \<open>
  Forwarding events fire exactly when due: when an instruction enters the event queue and
  the queue is then processed at \<open>cycle\<close>, the scoreboard receives, in order of their ready
  cycles, exactly the events whose cycle has come, and exactly the others stay queued.
\<close>

theorem forwarding_fires_exactly_due:
  assumes "sorted (map fst evs)"
    and "begin_alu_scoreboard_forwarding enabled i issue now latency evs = Some evs1"
    and "process_alu_scoreboard_forwarding cycle evs1 s = Some (evs2, s')"
  shows "evs2 = filter (\<lambda>ke. cycle < fst ke) evs1 \<and>
    run_ops sb_step s (map mark_op (filter (\<lambda>ke. fst ke \<le> cycle) evs1)) = Some s' \<and>
    sorted (map fst evs1) \<and> sorted (map fst evs2)"
  using process_forwarding [OF begin_forwarding_sorted [OF assms(2,1)] assms(3)]
    begin_forwarding_sorted [OF assms(2,1)]
  by (simp add: sorted_filter)

theorem forwarding_fires_exactly_due_witness:
  "\<exists>evs1 evs2 s'. begin_alu_scoreboard_forwarding True sample_add 100 102 4
       [(103, \<lparr>ev_warp_id = 0, ev_inst_uid = 3, ev_outputs = [1]\<rparr>)] = Some evs1 \<and>
     process_alu_scoreboard_forwarding 103 evs1 (scoreboard_init 2) = Some (evs2, s') \<and>
     evs2 = filter (\<lambda>ke. 103 < fst ke) evs1"
proof -
  let ?evs = "[(103 :: u64, \<lparr>ev_warp_id = 0, ev_inst_uid = 3, ev_outputs = [1]\<rparr>)]"
  let ?evs1 = "?evs @ [(104, \<lparr>ev_warp_id = 1, ev_inst_uid = 11, ev_outputs = [7, 0, 0, 0, 0, 0, 0, 0]\<rparr>)]"
  have b: "begin_alu_scoreboard_forwarding True sample_add 100 102 4 ?evs = Some ?evs1"
    by (simp add: begin_alu_scoreboard_forwarding_def sample_add_def
        scoreboard_forward_ready_cycle_def max_def)
  moreover have "process_alu_scoreboard_forwarding 103 ?evs1 (scoreboard_init 2) \<noteq> None"
    by code_simp
  then obtain evs2 s' where
    p: "process_alu_scoreboard_forwarding 103 ?evs1 (scoreboard_init 2) = Some (evs2, s')"
    by (metis not_None_eq surj_pair)
  ultimately show ?thesis
    using forwarding_fires_exactly_due [OF _ b p] by fastforce
qed

text \<open>
  \<^verbatim>\<open>clearWarp\<close> forgets the pending writes but not the long-latency marks: after an abandoned
  warp was cleared, the two-level scheduler still sees its registers as waiting on memory.
\<close>

lemma clear_leaves_long_latency_marks:
  "case run_ops sb_step (scoreboard_init 2) [Reserve sample_load 1, Clear 1] of
     Some t \<Rightarrow> \<not> pendingWrites (t ! 1) \<and> islongop 5 (t ! 1) | None \<Rightarrow> False"
  by code_simp

end
