(* ===== verification/Stream_Buffer.thy ===== *)
theory Stream_Buffer
  imports Prelude "HOL-Library.Finite_Map"
begin

section \<open>The instruction stream buffer\<close>

text \<open>
  Models \<^verbatim>\<open>src/gpgpu-sim/flash/instruction_cache/stream_buffer.h\<close> and
  \<^verbatim>\<open>stream_buffer.cc\<close>: the sequential prefetch streams of the instruction cache. Addresses
  and contexts are 64-bit words; generations, the LRU clock and the statistics are \<open>nat\<close>,
  for fewer than \<open>2^64\<close> calls; \<^verbatim>\<open>unsigned\<close> configuration values are \<open>nat\<close>.
  \<^verbatim>\<open>retry\<close>, \<^verbatim>\<open>mark_resident\<close> and \<^verbatim>\<open>fill\<close> share their lookup, as in the code.
\<close>

subsection \<open>Data\<close>

datatype prefetch_state = Queued | Inflight | Ready

datatype demand_state = Untracked | D_Queued | D_Inflight | D_Ready

record prefetch_request =
  rq_address :: u64
  rq_context :: u64
  rq_generation :: nat
  rq_stream :: nat

record stream_config =
  sc_line_size :: u64
  sc_streams :: nat
  sc_depth :: nat
  sc_issue_width :: nat
  sc_gcc_preload_lines :: nat

record stream_stats =
  streams_started :: nat
  streams_replaced :: nat
  requests_issued :: nat
  useful :: nat
  late :: nat
  resident :: nat
  retries :: nat
  stale_fills :: nat
  canceled_entries :: nat
  gcc_preload_hits :: nat
  gcc_preload_misses :: nat

definition stats_zero :: stream_stats where
  "stats_zero = \<lparr>streams_started = 0, streams_replaced = 0, requests_issued = 0, useful = 0,
     late = 0, resident = 0, retries = 0, stale_fills = 0, canceled_entries = 0,
     gcc_preload_hits = 0, gcc_preload_misses = 0\<rparr>"

definition stats_add :: "stream_stats \<Rightarrow> stream_stats \<Rightarrow> stream_stats" where
  "stats_add a b = \<lparr>streams_started = streams_started a + streams_started b,
     streams_replaced = streams_replaced a + streams_replaced b,
     requests_issued = requests_issued a + requests_issued b, useful = useful a + useful b,
     late = late a + late b, resident = resident a + resident b, retries = retries a + retries b,
     stale_fills = stale_fills a + stale_fills b,
     canceled_entries = canceled_entries a + canceled_entries b,
     gcc_preload_hits = gcc_preload_hits a + gcc_preload_hits b,
     gcc_preload_misses = gcc_preload_misses a + gcc_preload_misses b\<rparr>"

record entry =
  se_address :: u64
  se_state :: prefetch_state

record stream_state =
  ss_valid :: bool
  ss_context :: u64
  ss_generation :: nat
  ss_demand_line :: u64
  ss_last_use :: nat
  ss_entries :: "entry list"

record stream_buffer =
  sb_config :: stream_config
  sb_streams :: "stream_state list"
  sb_issue_cursor :: nat
  sb_clock :: nat
  sb_preload_base_lines :: "(u64, u64) fmap"
  sb_stats :: stream_stats

definition stream_init :: stream_state where
  "stream_init = \<lparr>ss_valid = False, ss_context = 0, ss_generation = 0, ss_demand_line = 0,
     ss_last_use = 0, ss_entries = []\<rparr>"

definition config_ok :: "stream_config \<Rightarrow> bool" where
  "config_ok c = (sc_line_size c \<noteq> 0 \<and> sc_line_size c AND (sc_line_size c - 1) = 0 \<and>
     sc_streams c \<noteq> 0 \<and> sc_depth c \<noteq> 0 \<and> sc_issue_width c \<noteq> 0)"

definition stream_buffer_new :: "stream_config \<Rightarrow> stream_buffer option" where
  "stream_buffer_new c = do {
     cassert (config_ok c);
     Some \<lparr>sb_config = c, sb_streams = replicate (sc_streams c) stream_init, sb_issue_cursor = 0,
       sb_clock = 0, sb_preload_base_lines = fmempty, sb_stats = stats_zero\<rparr>
   }"

subsection \<open>The window of a stream\<close>

definition line_address :: "stream_config \<Rightarrow> u64 \<Rightarrow> u64" where
  "line_address c address = address AND NOT (sc_line_size c - 1)"

text \<open>\<^verbatim>\<open>find_entry\<close> returns a pointer into the deque: here the index of the first match.\<close>

fun find_entry :: "u64 \<Rightarrow> entry list \<Rightarrow> nat option" where
  "find_entry address [] = None"
| "find_entry address (e # es) =
     (if se_address e = address then Some 0 else map_option Suc (find_entry address es))"

definition invalidate :: "stream_state \<Rightarrow> stream_state" where
  "invalidate s = s\<lparr>ss_entries := [], ss_valid := False, ss_context := 0, ss_demand_line := 0,
     ss_last_use := 0, ss_generation := Suc (ss_generation s)\<rparr>"

text \<open>
  The loop over \<^verbatim>\<open>distance\<close>, with the number of iterations left, for depths below \<open>2^32 - 1\<close>
  (the 32-bit counter never exceeds that last one).
\<close>

fun fill_window :: "u64 \<Rightarrow> u64 \<Rightarrow> nat \<Rightarrow> nat \<Rightarrow> entry list \<Rightarrow> entry list" where
  "fill_window line_size demand_line distance 0 es = es"
| "fill_window line_size demand_line distance (Suc left) es =
     (if unat ((- 1 - demand_line) div line_size) < distance then es
      else let address = demand_line + of_nat distance * line_size
           in fill_window line_size demand_line (Suc distance) left
                (if find_entry address es = None
                 then es @ [\<lparr>se_address = address, se_state = Queued\<rparr>] else es))"

definition refill_window :: "stream_config \<Rightarrow> stream_state \<Rightarrow> stream_state option" where
  "refill_window c s = do {
     let kept = filter (\<lambda>e. \<not> se_address e \<le> ss_demand_line s) (ss_entries s);
     let filled = fill_window (sc_line_size c) (ss_demand_line s) 1 (sc_depth c) kept;
     let sorted = sort_key se_address filled;
     cassert (length sorted \<le> sc_depth c);
     Some (s\<lparr>ss_entries := sorted\<rparr>)
   }"

subsection \<open>Demands\<close>

text \<open>\<^verbatim>\<open>std::min_element\<close> returns the first of the least recently used streams.\<close>

fun min_last_use :: "stream_state list \<Rightarrow> nat" where
  "min_last_use [] = 0"
| "min_last_use [s] = 0"
| "min_last_use (s # ss) =
     (let j = min_last_use ss
      in if ss_last_use s \<le> ss_last_use (ss ! j) then 0 else Suc j)"

definition find_index :: "('a \<Rightarrow> bool) \<Rightarrow> 'a list \<Rightarrow> nat option" where
  "find_index P xs = List.find (\<lambda>i. P (xs ! i)) [0..<length xs]"

text \<open>The stream to start: a free one, else the least recently used one, which is invalidated.\<close>

definition choose_stream :: "stream_buffer \<Rightarrow> nat \<times> stream_state list \<times> stream_stats" where
  "choose_stream b =
     (case find_index (\<lambda>s. \<not> ss_valid s) (sb_streams b) of
        Some i \<Rightarrow> (i, sb_streams b, sb_stats b)
      | None \<Rightarrow>
          (let i = min_last_use (sb_streams b); s = sb_streams b ! i
           in (i, (sb_streams b)[i := invalidate s],
               (sb_stats b)\<lparr>streams_replaced := Suc (streams_replaced (sb_stats b)),
                 canceled_entries := canceled_entries (sb_stats b) + length (ss_entries s)\<rparr>)))"

definition start_stream :: "u64 \<Rightarrow> u64 \<Rightarrow> stream_buffer \<Rightarrow> stream_buffer option" where
  "start_stream ctx line b =
     (case choose_stream b of (i, streams, stats) \<Rightarrow> do {
        let target = (streams ! i)\<lparr>ss_valid := True, ss_context := ctx, ss_demand_line := line,
          ss_last_use := Suc (sb_clock b), ss_generation := Suc (ss_generation (streams ! i))\<rparr>;
        target' \<leftarrow> refill_window (sb_config b) target;
        Some (b\<lparr>sb_streams := streams[i := target'], sb_clock := Suc (sb_clock b),
          sb_stats := stats\<lparr>streams_started := Suc (streams_started stats)\<rparr>\<rparr>)
      })"

definition tracks :: "u64 \<Rightarrow> u64 \<Rightarrow> stream_state \<Rightarrow> bool" where
  "tracks ctx line s =
     (ss_valid s \<and> ss_context s = ctx \<and> find_entry line (ss_entries s) \<noteq> None)"

text \<open>\<^verbatim>\<open>map::emplace\<close> keeps an existing base line.\<close>

definition note_base_line :: "u64 \<Rightarrow> u64 \<Rightarrow> (u64, u64) fmap \<Rightarrow> (u64, u64) fmap" where
  "note_base_line ctx line m = (if fmlookup m ctx = None then fmupd ctx line m else m)"

fun demand_result :: "prefetch_state \<Rightarrow> demand_state" where
  "demand_result Queued = D_Queued"
| "demand_result Inflight = D_Inflight"
| "demand_result Ready = D_Ready"

text \<open>The demand finds its line in the window of stream \<open>i\<close>.\<close>

definition demand_hit :: "nat \<Rightarrow> u64 \<Rightarrow> stream_buffer \<Rightarrow> (demand_state \<times> stream_buffer) option" where
  "demand_hit i line b = do {
     let s = sb_streams b ! i;
     j \<leftarrow> find_entry line (ss_entries s);
     let st = se_state (ss_entries s ! j);
     let stats = (if st = Ready
       then (sb_stats b)\<lparr>useful := Suc (useful (sb_stats b))\<rparr>
       else (sb_stats b)\<lparr>late := Suc (late (sb_stats b))\<rparr>);
     s' \<leftarrow> refill_window (sb_config b)
        (s\<lparr>ss_demand_line := line, ss_last_use := Suc (sb_clock b)\<rparr>);
     Some (demand_result st,
       b\<lparr>sb_streams := (sb_streams b)[i := s'], sb_clock := Suc (sb_clock b), sb_stats := stats\<rparr>)
   }"

definition observe_demand ::
    "u64 \<Rightarrow> u64 \<Rightarrow> bool \<Rightarrow> stream_buffer \<Rightarrow> (demand_state \<times> stream_buffer) option" where
  "observe_demand ctx address demand_miss b0 =
     (let line = line_address (sb_config b0) address;
          b = b0\<lparr>sb_preload_base_lines := note_base_line ctx line (sb_preload_base_lines b0)\<rparr>
      in case find_index (tracks ctx line) (sb_streams b) of
           Some i \<Rightarrow> demand_hit i line b
         | None \<Rightarrow>
             if demand_miss then map_option (Pair Untracked) (start_stream ctx line b)
             else Some (Untracked, b))"

subsection \<open>Issue\<close>

definition first_queued :: "stream_state \<Rightarrow> nat option" where
  "first_queued s =
     (if ss_valid s then find_index (\<lambda>e. se_state e = Queued) (ss_entries s) else None)"

definition set_entry_state :: "nat \<Rightarrow> nat \<Rightarrow> prefetch_state \<Rightarrow> stream_buffer \<Rightarrow> stream_buffer" where
  "set_entry_state i j st b =
     (let s = sb_streams b ! i
      in b\<lparr>sb_streams := (sb_streams b)[i := s\<lparr>ss_entries :=
             (ss_entries s)[j := (ss_entries s ! j)\<lparr>se_state := st\<rparr>]\<rparr>]\<rparr>)"

definition count_issued :: "stream_buffer \<Rightarrow> stream_buffer" where
  "count_issued b = b\<lparr>sb_stats := (sb_stats b)\<lparr>requests_issued := Suc (requests_issued (sb_stats b))\<rparr>\<rparr>"

function issue_loop ::
    "nat \<Rightarrow> prefetch_request list \<Rightarrow> stream_buffer \<Rightarrow> prefetch_request list \<times> stream_buffer" where
  "issue_loop visited requests b =
     (if length requests < sc_issue_width (sb_config b) \<and> visited < length (sb_streams b)
      then let i = sb_issue_cursor b;
               b1 = b\<lparr>sb_issue_cursor := (i + 1) mod length (sb_streams b)\<rparr>;
               s = sb_streams b ! i
           in case first_queued s of
                None \<Rightarrow> issue_loop (Suc visited) requests b1
              | Some j \<Rightarrow>
                  issue_loop 0
                    (requests @ [\<lparr>rq_address = se_address (ss_entries s ! j), rq_context = ss_context s,
                       rq_generation = ss_generation s, rq_stream = i\<rparr>])
                    (count_issued (set_entry_state i j Inflight b1))
      else (requests, b))"
  by pat_completeness auto
termination
  by (relation "measures [\<lambda>(visited, requests, b). sc_issue_width (sb_config b) - length requests,
      \<lambda>(visited, requests, b). length (sb_streams b) - visited]")
    (auto simp: set_entry_state_def count_issued_def Let_def)

declare issue_loop.simps [simp del]

definition issue :: "stream_buffer \<Rightarrow> prefetch_request list \<times> stream_buffer" where
  "issue b = issue_loop 0 [] b"

subsection \<open>Responses\<close>

definition request_stream :: "stream_buffer \<Rightarrow> prefetch_request \<Rightarrow> stream_state option" where
  "request_stream b r =
     (if length (sb_streams b) \<le> rq_stream r then None
      else let s = sb_streams b ! rq_stream r
           in if \<not> ss_valid s \<or> ss_context s \<noteq> rq_context r \<or> ss_generation s \<noteq> rq_generation r
              then None else Some s)"

definition current :: "stream_buffer \<Rightarrow> prefetch_request \<Rightarrow> bool" where
  "current b r =
     (case request_stream b r of None \<Rightarrow> False
      | Some s \<Rightarrow> find_entry (rq_address r) (ss_entries s) \<noteq> None)"

definition gcc_preload_contains :: "stream_buffer \<Rightarrow> prefetch_request \<Rightarrow> bool" where
  "gcc_preload_contains b r =
     (if sc_gcc_preload_lines (sb_config b) = 0 then False
      else case fmlookup (sb_preload_base_lines b) (rq_context r) of
             None \<Rightarrow> False
           | Some base \<Rightarrow>
               if rq_address r < base then False
               else unat ((rq_address r - base) div sc_line_size (sb_config b))
                      < sc_gcc_preload_lines (sb_config b))"

text \<open>The entry an answer is for, if the request is current and the entry in flight.\<close>

definition inflight_entry :: "stream_buffer \<Rightarrow> prefetch_request \<Rightarrow> nat option" where
  "inflight_entry b r =
     (case request_stream b r of None \<Rightarrow> None
      | Some s \<Rightarrow>
          (case find_entry (rq_address r) (ss_entries s) of None \<Rightarrow> None
           | Some j \<Rightarrow> if se_state (ss_entries s ! j) = Inflight then Some j else None))"

definition count_stale :: "stream_buffer \<Rightarrow> stream_buffer" where
  "count_stale b = b\<lparr>sb_stats := (sb_stats b)\<lparr>stale_fills := Suc (stale_fills (sb_stats b))\<rparr>\<rparr>"

definition retry :: "prefetch_request \<Rightarrow> stream_buffer \<Rightarrow> stream_buffer" where
  "retry r b =
     (case inflight_entry b r of
        None \<Rightarrow> count_stale b
      | Some j \<Rightarrow>
          (let b1 = set_entry_state (rq_stream r) j Queued b
           in b1\<lparr>sb_stats := (sb_stats b1)\<lparr>retries := Suc (retries (sb_stats b1))\<rparr>\<rparr>))"

definition mark_resident :: "prefetch_request \<Rightarrow> stream_buffer \<Rightarrow> stream_buffer" where
  "mark_resident r b =
     (case inflight_entry b r of
        None \<Rightarrow> count_stale b
      | Some j \<Rightarrow>
          (let b1 = set_entry_state (rq_stream r) j Ready b
           in b1\<lparr>sb_stats := (sb_stats b1)\<lparr>resident := Suc (resident (sb_stats b1))\<rparr>\<rparr>))"

definition fill :: "prefetch_request \<Rightarrow> stream_buffer \<Rightarrow> stream_buffer" where
  "fill r b =
     (case inflight_entry b r of
        None \<Rightarrow> count_stale b
      | Some j \<Rightarrow>
          (let b1 = set_entry_state (rq_stream r) j Ready b
           in b1\<lparr>sb_stats := (sb_stats b1)\<lparr>resident := Suc (resident (sb_stats b1))\<rparr>\<rparr>))"

definition invalidate_if :: "(stream_state \<Rightarrow> bool) \<Rightarrow> stream_buffer \<Rightarrow> stream_buffer" where
  "invalidate_if P b =
     b\<lparr>sb_streams := map (\<lambda>s. if P s then invalidate s else s) (sb_streams b),
       sb_stats := (sb_stats b)\<lparr>canceled_entries := canceled_entries (sb_stats b) +
         sum_list (map (\<lambda>s. length (ss_entries s)) (filter P (sb_streams b)))\<rparr>\<rparr>"

definition cancel_context :: "u64 \<Rightarrow> stream_buffer \<Rightarrow> stream_buffer" where
  "cancel_context ctx b =
     (let b1 = invalidate_if (\<lambda>s. ss_valid s \<and> ss_context s = ctx) b
      in b1\<lparr>sb_preload_base_lines := fmdrop ctx (sb_preload_base_lines b1)\<rparr>)"

definition reset :: "stream_buffer \<Rightarrow> stream_buffer" where
  "reset b =
     (let b1 = invalidate_if (\<lambda>_. True) b
      in b1\<lparr>sb_issue_cursor := 0, sb_preload_base_lines := fmempty\<rparr>)"

definition record_gcc_preload_hit :: "stream_buffer \<Rightarrow> stream_buffer" where
  "record_gcc_preload_hit b =
     b\<lparr>sb_stats := (sb_stats b)\<lparr>gcc_preload_hits := Suc (gcc_preload_hits (sb_stats b))\<rparr>\<rparr>"

definition record_gcc_preload_miss :: "stream_buffer \<Rightarrow> stream_buffer" where
  "record_gcc_preload_miss b =
     b\<lparr>sb_stats := (sb_stats b)\<lparr>gcc_preload_misses := Suc (gcc_preload_misses (sb_stats b))\<rparr>\<rparr>"

definition pending_entries :: "stream_buffer \<Rightarrow> nat" where
  "pending_entries b = sum_list (map (\<lambda>s. length (ss_entries s)) (sb_streams b))"

definition pending_entries_of :: "nat \<Rightarrow> stream_buffer \<Rightarrow> nat option" where
  "pending_entries_of i b = do {
     cassert (i < length (sb_streams b));
     Some (length (ss_entries (sb_streams b ! i)))
   }"

subsection \<open>Calls\<close>

datatype sbuf_op =
  Demand u64 u64 bool
  | Issue
  | Retry prefetch_request
  | Mark_Resident prefetch_request
  | Fill prefetch_request
  | Cancel_Context u64
  | Reset
  | Record_Preload_Hit
  | Record_Preload_Miss

fun sbuf_step :: "stream_buffer \<Rightarrow> sbuf_op \<Rightarrow> stream_buffer option" where
  "sbuf_step b (Demand ctx address miss) = map_option snd (observe_demand ctx address miss b)"
| "sbuf_step b Issue = Some (snd (issue b))"
| "sbuf_step b (Retry r) = Some (retry r b)"
| "sbuf_step b (Mark_Resident r) = Some (mark_resident r b)"
| "sbuf_step b (Fill r) = Some (fill r b)"
| "sbuf_step b (Cancel_Context ctx) = Some (cancel_context ctx b)"
| "sbuf_step b Reset = Some (reset b)"
| "sbuf_step b Record_Preload_Hit = Some (record_gcc_preload_hit b)"
| "sbuf_step b Record_Preload_Miss = Some (record_gcc_preload_miss b)"

subsection \<open>The exact window\<close>

text \<open>The lines after \<open>demand\<close>, at most \<open>depth\<close> and none beyond the last address.\<close>

definition reach_lines :: "u64 \<Rightarrow> u64 \<Rightarrow> nat" where
  "reach_lines line_size demand = unat ((- 1 - demand) div line_size)"

definition nth_line :: "u64 \<Rightarrow> u64 \<Rightarrow> nat \<Rightarrow> u64" where
  "nth_line line_size demand d = demand + of_nat d * line_size"

definition window :: "stream_config \<Rightarrow> u64 \<Rightarrow> u64 list" where
  "window c demand = map (nth_line (sc_line_size c) demand)
     [1..<Suc (min (sc_depth c) (reach_lines (sc_line_size c) demand))]"

lemma reach_lines_nat:
  "reach_lines ls demand = (2 ^ 64 - 1 - unat demand) div unat ls"
proof -
  have "unat (- 1 - demand) = 2 ^ 64 - 1 - unat demand"
    using unat_sub [of demand "- 1"] by (simp add: unat_max_u64 word_order.extremum)
  then show ?thesis by (simp add: reach_lines_def unat_div)
qed

lemma reach_iff:
  assumes "ls \<noteq> 0"
  shows "d \<le> reach_lines ls demand \<longleftrightarrow> unat demand + d * unat ls < 2 ^ 64"
proof -
  have "0 < unat ls" using assms by (simp add: unat_gt_0)
  then show ?thesis
    using unat_u64_lt [of demand] by (auto simp: reach_lines_nat less_eq_div_iff_mult_less_eq)
qed

lemma unat_nth_line:
  assumes "ls \<noteq> 0" "d \<le> reach_lines ls demand"
  shows "unat (nth_line ls demand d) = unat demand + d * unat ls"
proof -
  have lt: "unat demand + d * unat ls < 2 ^ 64"
    using assms by (simp add: reach_iff)
  have "1 \<le> unat ls"
    using assms(1) by (simp add: Suc_le_eq unat_gt_0)
  then have "d \<le> d * unat ls" by (cases "unat ls") auto
  moreover have "d * unat ls < 2 ^ 64" using lt by simp
  ultimately have "d < 2 ^ 64" by (rule le_less_trans)
  note bounds = this \<open>d * unat ls < 2 ^ 64\<close>
  with lt bounds show ?thesis by (simp add: nth_line_def unat_word_ariths unat_of_nat)
qed

lemma nth_line_less:
  assumes "ls \<noteq> 0" "d \<le> reach_lines ls demand" "k < d"
  shows "nth_line ls demand k < nth_line ls demand d"
  using assms by (simp add: word_less_nat_alt unat_nth_line unat_gt_0)

lemma nth_line_shift: "nth_line ls (nth_line ls demand k) d = nth_line ls demand (k + d)"
  by (simp add: nth_line_def ring_distribs)

lemma reach_shift:
  assumes "ls \<noteq> 0" "k \<le> reach_lines ls demand"
  shows "d \<le> reach_lines ls (nth_line ls demand k) \<longleftrightarrow> k + d \<le> reach_lines ls demand"
  using assms by (simp add: reach_iff unat_nth_line algebra_simps)

lemma in_window_iff:
  "a \<in> set (window c demand) \<longleftrightarrow> (\<exists>d. 1 \<le> d \<and> d \<le> sc_depth c \<and>
     d \<le> reach_lines (sc_line_size c) demand \<and> a = nth_line (sc_line_size c) demand d)"
  by (auto simp: window_def less_Suc_eq_le simp del: upt_Suc)

lemma window_sorted:
  assumes "sc_line_size c \<noteq> 0"
  shows "sorted_wrt (<) (window c demand)"
  by (auto simp: window_def sorted_wrt_map sorted_wrt_iff_nth_less simp del: upt_Suc
      intro!: nth_line_less assms)

lemma strict_sorted_distinct: "sorted_wrt (<) (xs :: u64 list) \<Longrightarrow> sorted xs \<and> distinct xs"
  by (simp add: strict_sorted_iff)

lemma find_entry_None: "find_entry a es = None \<longleftrightarrow> a \<notin> set (map se_address es)"
  by (induction es) auto

lemma find_entry_Some:
  "find_entry a es = Some j \<Longrightarrow> j < length es \<and> se_address (es ! j) = a"
  by (induction es arbitrary: j) (auto split: if_splits)

lemma find_entry_nth:
  "distinct (map se_address es) \<Longrightarrow> j < length es \<Longrightarrow> find_entry (se_address (es ! j)) es = Some j"
proof (induction es arbitrary: j)
  case (Cons e es)
  show ?case
  proof (cases j)
    case 0
    then show ?thesis by simp
  next
    case (Suc n)
    with Cons.prems have "se_address (es ! n) \<in> set (map se_address es)"
      by (metis length_Cons length_map Suc_less_eq nth_map nth_mem)
    with Suc Cons show ?thesis by auto
  qed
qed simp

lemma fill_window_addresses:
  "distinct (map se_address es) \<Longrightarrow>
   distinct (map se_address (fill_window ls demand distance left es)) \<and>
   set (map se_address (fill_window ls demand distance left es)) =
     set (map se_address es) \<union>
     {nth_line ls demand d | d. distance \<le> d \<and> d < distance + left \<and> d \<le> reach_lines ls demand}"
proof (induction left arbitrary: distance es)
  case 0
  then show ?case by auto
next
  case (Suc left)
  show ?case
  proof (cases "reach_lines ls demand < distance")
    case True
    with Suc.prems show ?thesis by (auto simp: reach_lines_def)
  next
    case False
    define es' where "es' = (if find_entry (nth_line ls demand distance) es = None
      then es @ [\<lparr>se_address = nth_line ls demand distance, se_state = Queued\<rparr>] else es)"
    have es': "distinct (map se_address es')"
      "set (map se_address es') = insert (nth_line ls demand distance) (set (map se_address es))"
      using Suc.prems by (auto simp: es'_def find_entry_None)
    have step: "fill_window ls demand distance (Suc left) es =
        fill_window ls demand (Suc distance) left es'"
      using False by (simp add: es'_def nth_line_def reach_lines_def Let_def)
    have split_d: "{nth_line ls demand d | d. distance \<le> d \<and> d < distance + Suc left \<and> d \<le> reach_lines ls demand}
      = insert (nth_line ls demand distance)
        {nth_line ls demand d | d. Suc distance \<le> d \<and> d < Suc distance + left \<and> d \<le> reach_lines ls demand}"
      using False by (auto simp: Suc_le_eq le_less)
    show ?thesis
      unfolding step split_d using Suc.IH [OF es'(1), of "Suc distance"] es'(2) by simp
  qed
qed

lemma refill_window_exact:
  assumes "sc_line_size c \<noteq> 0" "distinct (map se_address (ss_entries s))"
    and "\<And>e. e \<in> set (ss_entries s) \<Longrightarrow> ss_demand_line s < se_address e \<Longrightarrow>
      se_address e \<in> set (window c (ss_demand_line s))"
  obtains es where "refill_window c s = Some (s\<lparr>ss_entries := es\<rparr>)"
    "map se_address es = window c (ss_demand_line s)"
proof -
  define kept where "kept = filter (\<lambda>e. \<not> se_address e \<le> ss_demand_line s) (ss_entries s)"
  define es where "es = sort_key se_address
    (fill_window (sc_line_size c) (ss_demand_line s) 1 (sc_depth c) kept)"
  note w = strict_sorted_distinct [OF window_sorted [OF assms(1), of "ss_demand_line s"]]
  have "distinct (map se_address kept)"
    using assms(2) by (simp add: kept_def distinct_map_filter)
  from fill_window_addresses [OF this, of "sc_line_size c" "ss_demand_line s" 1 "sc_depth c"]
  have d: "distinct (map se_address es)"
    and set: "set (map se_address es) = set (map se_address kept) \<union> set (window c (ss_demand_line s))"
    by (auto simp: es_def in_window_iff distinct_map less_Suc_eq_le)
  have "set (map se_address kept) \<subseteq> set (window c (ss_demand_line s))"
    using assms(3) by (auto simp: kept_def)
  with set have "set (map se_address es) = set (window c (ss_demand_line s))" by blast
  then have eq: "map se_address es = window c (ss_demand_line s)"
    using d w by (intro sorted_distinct_set_unique) (simp_all add: es_def)
  have "length es \<le> sc_depth c"
    using arg_cong [OF eq, of length] by (simp add: window_def)
  then have "refill_window c s = Some (s\<lparr>ss_entries := es\<rparr>)"
    by (simp add: refill_window_def es_def kept_def Let_def)
  with eq that show thesis by blast
qed

subsection \<open>The invariant\<close>

definition stream_wf :: "stream_config \<Rightarrow> stream_state \<Rightarrow> bool" where
  "stream_wf c s \<longleftrightarrow>
     (if ss_valid s then map se_address (ss_entries s) = window c (ss_demand_line s)
      else ss_entries s = [])"

definition sbuf_wf :: "stream_buffer \<Rightarrow> bool" where
  "sbuf_wf b \<longleftrightarrow> config_ok (sb_config b) \<and> length (sb_streams b) = sc_streams (sb_config b) \<and>
     sb_issue_cursor b < length (sb_streams b) \<and> list_all (stream_wf (sb_config b)) (sb_streams b)"

lemma new_wf: "stream_buffer_new c = Some b \<Longrightarrow> sbuf_wf b"
  by (auto simp: stream_buffer_new_def sbuf_wf_def config_ok_def list_all_iff stream_wf_def
      stream_init_def)

lemma find_index_Some:
  "find_index P xs = Some i \<Longrightarrow> i < length xs \<and> P (xs ! i)"
  by (auto simp: find_index_def find_Some_iff)

lemma find_index_None: "find_index P xs = None \<longleftrightarrow> (\<forall>x \<in> set xs. \<not> P x)"
  unfolding find_index_def find_None_iff by (auto simp: all_set_conv_all_nth)

lemma min_last_use_less: "xs \<noteq> [] \<Longrightarrow> min_last_use xs < length xs"
  by (induction xs rule: min_last_use.induct) (auto simp: Let_def)

lemma min_last_use_least:
  "s \<in> set xs \<Longrightarrow> ss_last_use (xs ! min_last_use xs) \<le> ss_last_use s"
proof (induction xs rule: min_last_use.induct)
  case (3 t u us)
  then show ?case by (cases "s = t") (auto simp: Let_def)
qed auto

lemma wf_line_size: "sbuf_wf b \<Longrightarrow> sc_line_size (sb_config b) \<noteq> 0"
  by (simp add: sbuf_wf_def config_ok_def)

lemma wf_stream: "sbuf_wf b \<Longrightarrow> i < length (sb_streams b) \<Longrightarrow> stream_wf (sb_config b) (sb_streams b ! i)"
  by (simp add: sbuf_wf_def list_all_length)

lemma stream_wf_distinct:
  "sc_line_size c \<noteq> 0 \<Longrightarrow> stream_wf c s \<Longrightarrow> distinct (map se_address (ss_entries s))"
  using strict_sorted_distinct [OF window_sorted] by (auto simp: stream_wf_def split: if_splits)

lemma invalidate_wf: "stream_wf c (invalidate s)"
  by (simp add: stream_wf_def invalidate_def)

text \<open>A demand that hits the window slides it: nothing kept falls outside the new window.\<close>

lemma window_slides:
  assumes "sc_line_size c \<noteq> 0" "line \<in> set (window c demand)" "a \<in> set (window c demand)" "line < a"
  shows "a \<in> set (window c line)"
proof -
  let ?ls = "sc_line_size c"
  from assms(2) obtain k where k: "1 \<le> k" "k \<le> reach_lines ?ls demand" "line = nth_line ?ls demand k"
    by (auto simp: in_window_iff)
  from assms(3) obtain d where d: "d \<le> sc_depth c" "d \<le> reach_lines ?ls demand"
      "a = nth_line ?ls demand d"
    by (auto simp: in_window_iff)
  have "k < d"
    using assms(1,4) k(2,3) d(3) nth_line_less [OF assms(1) k(2), of d]
    by (metis linorder_neqE_nat order_less_asym order_less_irrefl)
  with k d assms(1) show ?thesis
    by (auto simp: in_window_iff nth_line_shift reach_shift intro!: exI [of _ "d - k"])
qed

subsection \<open>Every call keeps the windows exact\<close>

lemma choose_stream_wf:
  assumes wf: "sbuf_wf b" and "choose_stream b = (i, streams, stats)"
  shows "i < length streams" "length streams = length (sb_streams b)"
    "list_all (stream_wf (sb_config b)) streams" "ss_entries (streams ! i) = []"
proof -
  have "i < length streams \<and> length streams = length (sb_streams b) \<and>
      list_all (stream_wf (sb_config b)) streams \<and> ss_entries (streams ! i) = []"
  proof (cases "find_index (\<lambda>s. \<not> ss_valid s) (sb_streams b)")
    case None
    let ?k = "min_last_use (sb_streams b)"
    have k: "?k < length (sb_streams b)"
      using wf by (intro min_last_use_less) (auto simp: sbuf_wf_def)
    have "i = ?k" "streams = (sb_streams b)[?k := invalidate (sb_streams b ! ?k)]"
      using None assms(2) by (auto simp add: choose_stream_def Let_def)
    moreover have "ss_entries (invalidate t) = []" for t by (simp add: invalidate_def)
    ultimately show ?thesis
      using wf k by (simp add: sbuf_wf_def list_all_length nth_list_update invalidate_wf)
  next
    case (Some j)
    with assms(2) have "i = j" "streams = sb_streams b" by (simp_all add: choose_stream_def)
    with wf find_index_Some [OF Some] wf_stream [OF wf, of j] show ?thesis
      by (auto simp: sbuf_wf_def stream_wf_def)
  qed
  then show "i < length streams" "length streams = length (sb_streams b)"
    "list_all (stream_wf (sb_config b)) streams" "ss_entries (streams ! i) = []" by blast+
qed

lemma start_stream_wf:
  assumes wf: "sbuf_wf b"
  shows "\<exists>b'. start_stream ctx line b = Some b' \<and> sbuf_wf b'"
proof -
  obtain i streams stats where choice: "choose_stream b = (i, streams, stats)"
    by (metis surj_pair)
  note s = choose_stream_wf [OF wf choice]
  define target where "target = (streams ! i)\<lparr>ss_valid := True, ss_context := ctx,
    ss_demand_line := line, ss_last_use := Suc (sb_clock b),
    ss_generation := Suc (ss_generation (streams ! i))\<rparr>"
  have "ss_entries target = []" "ss_demand_line target = line" "ss_valid target"
    using s(4) by (simp_all add: target_def)
  then obtain es where es: "refill_window (sb_config b) target = Some (target\<lparr>ss_entries := es\<rparr>)"
    "map se_address es = window (sb_config b) line"
    using refill_window_exact [OF wf_line_size [OF wf], of target] by auto
  then have "stream_wf (sb_config b) (target\<lparr>ss_entries := es\<rparr>)"
    by (simp add: stream_wf_def target_def)
  with s es(1) wf show ?thesis
    by (simp add: start_stream_def choice target_def [symmetric] sbuf_wf_def list_all_length
        nth_list_update)
qed

lemma demand_hit_wf:
  assumes wf: "sbuf_wf b" and i: "i < length (sb_streams b)" "tracks ctx line (sb_streams b ! i)"
  shows "\<exists>r b'. demand_hit i line b = Some (r, b') \<and> sbuf_wf b'"
proof -
  define s where "s = sb_streams b ! i"
  from i obtain j where valid: "ss_valid s" and j: "find_entry line (ss_entries s) = Some j"
    by (auto simp: tracks_def s_def)
  have win: "map se_address (ss_entries s) = window (sb_config b) (ss_demand_line s)"
    using wf_stream [OF wf i(1)] valid by (simp add: s_def stream_wf_def)
  have "line \<in> set (map se_address (ss_entries s))"
    using find_entry_None [of line "ss_entries s"] j by simp
  then have line: "line \<in> set (window (sb_config b) (ss_demand_line s))"
    unfolding win .
  define s1 where "s1 = s\<lparr>ss_demand_line := line, ss_last_use := Suc (sb_clock b)\<rparr>"
  have "distinct (map se_address (ss_entries s1))"
    using stream_wf_distinct [OF wf_line_size [OF wf] wf_stream [OF wf i(1)]]
    by (simp add: s1_def s_def)
  moreover have "se_address e \<in> set (window (sb_config b) (ss_demand_line s1))"
    if e: "e \<in> set (ss_entries s1)" "ss_demand_line s1 < se_address e" for e
  proof -
    have "se_address e \<in> set (map se_address (ss_entries s))"
      using e(1) by (simp add: s1_def)
    then have "se_address e \<in> set (window (sb_config b) (ss_demand_line s))"
      unfolding win .
    from window_slides [OF wf_line_size [OF wf] line this] e(2) show ?thesis
      by (simp add: s1_def)
  qed
  ultimately obtain es where es: "refill_window (sb_config b) s1 = Some (s1\<lparr>ss_entries := es\<rparr>)"
    "map se_address es = window (sb_config b) (ss_demand_line s1)"
    using refill_window_exact [OF wf_line_size [OF wf], of s1] by blast
  have "stream_wf (sb_config b) (s1\<lparr>ss_entries := es\<rparr>)"
    using es(2) valid by (simp add: stream_wf_def s1_def)
  with wf i have "sbuf_wf (b\<lparr>sb_streams := (sb_streams b)[i := s1\<lparr>ss_entries := es\<rparr>],
      sb_clock := Suc (sb_clock b), sb_stats := st\<rparr>)" for st
    by (simp add: sbuf_wf_def list_all_length nth_list_update)
  with j es(1) show ?thesis
    by (simp add: demand_hit_def Let_def s_def [symmetric] s1_def [symmetric])
qed

definition noted :: "u64 \<Rightarrow> u64 \<Rightarrow> stream_buffer \<Rightarrow> stream_buffer" where
  "noted ctx line b = b\<lparr>sb_preload_base_lines := note_base_line ctx line (sb_preload_base_lines b)\<rparr>"

lemma observe_demand_cases:
  assumes "line = line_address (sb_config b) address"
  shows "observe_demand ctx address miss b =
    (case find_index (tracks ctx line) (sb_streams (noted ctx line b)) of
       Some i \<Rightarrow> demand_hit i line (noted ctx line b)
     | None \<Rightarrow> if miss then map_option (Pair Untracked) (start_stream ctx line (noted ctx line b))
              else Some (Untracked, noted ctx line b))"
  by (simp only: observe_demand_def Let_def noted_def assms)

lemma observe_demand_wf:
  assumes wf: "sbuf_wf b"
  shows "\<exists>r b'. observe_demand ctx address miss b = Some (r, b') \<and> sbuf_wf b'"
proof -
  define line where "line = line_address (sb_config b) address"
  note eq = observe_demand_cases [OF line_def, of ctx miss]
  have wf1: "sbuf_wf (noted ctx line b)" using wf by (simp add: noted_def sbuf_wf_def)
  show ?thesis
  proof (cases "find_index (tracks ctx line) (sb_streams (noted ctx line b))")
    case None
    with start_stream_wf [OF wf1, of ctx line] wf1 show ?thesis by (auto simp: eq)
  next
    case (Some i)
    with demand_hit_wf [OF wf1, of i ctx line] find_index_Some [OF Some] show ?thesis
      by (simp add: eq)
  qed
qed

text \<open>A change of the state of one entry.\<close>

lemma set_state_addresses:
  "j < length es \<Longrightarrow> map se_address (es[j := (es ! j)\<lparr>se_state := st\<rparr>]) = map se_address es"
  by (simp add: list_eq_iff_nth_eq nth_list_update)

lemma set_entry_state_wf:
  assumes "sbuf_wf b" "i < length (sb_streams b)"
  shows "sbuf_wf (set_entry_state i j st b)"
proof -
  let ?s = "sb_streams b ! i"
  have "stream_wf (sb_config b) (?s\<lparr>ss_entries := (ss_entries ?s)[j := (ss_entries ?s ! j)\<lparr>se_state := st\<rparr>]\<rparr>)"
    using wf_stream [OF assms]
    by (cases "j < length (ss_entries ?s)")
      (simp_all add: stream_wf_def set_state_addresses list_update_beyond split: if_splits)
  with assms show ?thesis
    by (simp add: set_entry_state_def Let_def sbuf_wf_def list_all_length nth_list_update)
qed

lemma set_entry_state_simps [simp]:
  "sb_config (set_entry_state i j st b) = sb_config b"
  "sb_issue_cursor (set_entry_state i j st b) = sb_issue_cursor b"
  "sb_stats (set_entry_state i j st b) = sb_stats b"
  "length (sb_streams (set_entry_state i j st b)) = length (sb_streams b)"
  by (simp_all add: set_entry_state_def Let_def)

lemma count_issued_simps [simp]:
  "sb_config (count_issued b) = sb_config b" "sb_streams (count_issued b) = sb_streams b"
  "sb_issue_cursor (count_issued b) = sb_issue_cursor b"
  by (simp_all add: count_issued_def)

lemma wf_cong:
  "sb_config b' = sb_config b \<Longrightarrow> sb_streams b' = sb_streams b \<Longrightarrow>
   sb_issue_cursor b' < length (sb_streams b) \<Longrightarrow> sbuf_wf b \<Longrightarrow> sbuf_wf b'"
  by (simp add: sbuf_wf_def)

lemma first_queued_Some:
  "first_queued s = Some j \<Longrightarrow> ss_valid s \<and> j < length (ss_entries s) \<and> se_state (ss_entries s ! j) = Queued"
  by (auto simp: first_queued_def dest!: find_index_Some split: if_splits)

text \<open>What the buffer holds for a request: the state of its entry, if the request is current.\<close>

definition entry_state :: "stream_buffer \<Rightarrow> prefetch_request \<Rightarrow> prefetch_state option" where
  "entry_state b r =
     (case request_stream b r of None \<Rightarrow> None
      | Some s \<Rightarrow> map_option (\<lambda>j. se_state (ss_entries s ! j)) (find_entry (rq_address r) (ss_entries s)))"

definition request_of :: "stream_buffer \<Rightarrow> nat \<Rightarrow> nat \<Rightarrow> prefetch_request" where
  "request_of b i j =
     (let s = sb_streams b ! i
      in \<lparr>rq_address = se_address (ss_entries s ! j), rq_context = ss_context s,
          rq_generation = ss_generation s, rq_stream = i\<rparr>)"

lemma find_entry_cong:
  "map se_address es = map se_address es' \<Longrightarrow> find_entry a es = find_entry a es'"
proof (induction es arbitrary: es')
  case (Cons e es)
  then show ?case by (cases es') auto
qed simp

lemma entry_state_cong: "sb_streams b = sb_streams b' \<Longrightarrow> entry_state b r = entry_state b' r"
  by (simp add: entry_state_def request_stream_def)

lemma entry_state_request_of:
  assumes "sbuf_wf b" "i < length (sb_streams b)" "ss_valid (sb_streams b ! i)"
    and "j < length (ss_entries (sb_streams b ! i))"
  shows "entry_state b (request_of b i j) = Some (se_state (ss_entries (sb_streams b ! i) ! j))"
  using assms find_entry_nth [OF stream_wf_distinct [OF wf_line_size wf_stream], OF assms(1,1,2,4)]
  by (simp add: entry_state_def request_of_def request_stream_def Let_def)

lemma entry_state_set:
  assumes "sbuf_wf b" "i < length (sb_streams b)" "ss_valid (sb_streams b ! i)"
    and j: "j < length (ss_entries (sb_streams b ! i))"
  shows "entry_state (set_entry_state i j st b) r =
    (if r = request_of b i j then Some st else entry_state b r)"
proof -
  let ?s = "sb_streams b ! i" and ?b = "set_entry_state i j st b"
  let ?s' = "?s\<lparr>ss_entries := (ss_entries ?s)[j := (ss_entries ?s ! j)\<lparr>se_state := st\<rparr>]\<rparr>"
  have streams: "sb_streams ?b = (sb_streams b)[i := ?s']"
    by (simp add: set_entry_state_def Let_def)
  have addr: "find_entry a (ss_entries ?s') = find_entry a (ss_entries ?s)" for a
    using j by (intro find_entry_cong) (simp add: set_state_addresses)
  have dist: "distinct (map se_address (ss_entries ?s))"
    using stream_wf_distinct [OF wf_line_size wf_stream] assms(1,2) by blast
  show ?thesis
  proof (cases "rq_stream r = i \<and> rq_context r = ss_context ?s \<and> rq_generation r = ss_generation ?s")
    case False
    then have "r \<noteq> request_of b i j" by (auto simp: request_of_def Let_def)
    moreover have "request_stream ?b r = request_stream b r"
      using False assms(2) by (auto simp: request_stream_def streams nth_list_update Let_def)
    ultimately show ?thesis by (simp add: entry_state_def)
  next
    case True
    then have rs: "request_stream ?b r = Some ?s'" "request_stream b r = Some ?s"
      using assms(2,3) by (auto simp: request_stream_def streams Let_def)
    show ?thesis
    proof (cases "find_entry (rq_address r) (ss_entries ?s)")
      case None
      then have "r \<noteq> request_of b i j"
        using j by (auto simp: find_entry_None request_of_def Let_def)
      with None show ?thesis using addr by (simp add: entry_state_def rs)
    next
      case (Some k)
      note k = find_entry_Some [OF Some]
      have "r = request_of b i j \<longleftrightarrow> k = j"
        using True k j dist nth_eq_iff_index_eq [OF dist, of k j]
        by (cases r) (auto simp: request_of_def Let_def)
      with Some k addr show ?thesis
        by (auto simp: entry_state_def rs nth_list_update)
    qed
  qed
qed

subsection \<open>The issue loop\<close>

definition quiet_behind :: "nat \<Rightarrow> stream_buffer \<Rightarrow> bool" where
  "quiet_behind visited b \<longleftrightarrow>
     (let n = length (sb_streams b)
      in \<forall>k < visited. first_queued (sb_streams b ! ((sb_issue_cursor b + n - 1 - k) mod n)) = None)"

lemma quiet_all:
  assumes "sb_issue_cursor b < length (sb_streams b)" "quiet_behind (length (sb_streams b)) b"
  shows "\<forall>s \<in> set (sb_streams b). first_queued s = None"
proof -
  let ?n = "length (sb_streams b)" and ?c = "sb_issue_cursor b"
  have "first_queued (sb_streams b ! m) = None" if m: "m < ?n" for m
  proof -
    define k where "k = (if m < ?c then ?c - 1 - m else ?c + ?n - 1 - m)"
    have "k < ?n" "(?c + ?n - 1 - k) mod ?n = m"
      using m assms(1) by (auto simp: k_def)
    with assms(2) show ?thesis by (auto simp: quiet_behind_def Let_def)
  qed
  then show ?thesis by (auto simp: in_set_conv_nth)
qed

lemma quiet_next:
  assumes "quiet_behind visited b" "sb_issue_cursor b < length (sb_streams b)"
    and "first_queued (sb_streams b ! sb_issue_cursor b) = None"
    and "visited < length (sb_streams b)"
    and "b' = b\<lparr>sb_issue_cursor := (sb_issue_cursor b + 1) mod length (sb_streams b)\<rparr>"
  shows "quiet_behind (Suc visited) b'"
proof -
  let ?n = "length (sb_streams b)" and ?c = "sb_issue_cursor b"
  have "first_queued (sb_streams b ! (((?c + 1) mod ?n + ?n - 1 - k) mod ?n)) = None"
    if k: "k < Suc visited" for k
  proof (cases k)
    case 0
    have "((?c + 1) mod ?n + ?n - 1) mod ?n = ?c"
      using assms(2) by (cases "?c + 1 = ?n") auto
    with 0 assms(3) show ?thesis by simp
  next
    case (Suc l)
    then have l: "l < visited" "l < ?n" using k assms(4) by simp_all
    have "((?c + 1) mod ?n + ?n - 1 - k) mod ?n = (?c + ?n - 1 - l) mod ?n"
    proof (cases "?c + 1 = ?n")
      case True
      then have "?c + ?n - 1 - l = (?n - 1 - k) + ?n"
        using Suc k assms(4) by auto
      then have "(?c + ?n - 1 - l) mod ?n = (?n - 1 - k) mod ?n"
        by (simp only: mod_add_self2)
      with True show ?thesis by simp
    next
      case False
      with assms(2) have "(?c + 1) mod ?n + ?n - 1 - k = ?c + ?n - 1 - l"
        using Suc by simp
      then show ?thesis by simp
    qed
    with assms(1) l show ?thesis by (auto simp: quiet_behind_def Let_def)
  qed
  then show ?thesis by (simp add: quiet_behind_def Let_def assms(5))
qed

definition issue_inv :: "stream_buffer \<Rightarrow> nat \<Rightarrow> prefetch_request list \<Rightarrow> stream_buffer \<Rightarrow> bool" where
  "issue_inv b0 visited rs b \<longleftrightarrow>
     sbuf_wf b \<and> sb_config b = sb_config b0 \<and> length rs \<le> sc_issue_width (sb_config b) \<and>
     visited \<le> length (sb_streams b) \<and> distinct rs \<and> quiet_behind visited b \<and>
     (\<forall>r \<in> set rs. entry_state b0 r = Some Queued) \<and>
     (\<forall>r. entry_state b r = (if r \<in> set rs then Some Inflight else entry_state b0 r))"

lemma issue_loop_end:
  "\<not> (length rs < sc_issue_width (sb_config b) \<and> visited < length (sb_streams b)) \<Longrightarrow>
   issue_loop visited rs b = (rs, b)"
  by (subst issue_loop.simps) (rule if_not_P)

lemma issue_loop_inv:
  "issue_inv b0 visited rs b \<Longrightarrow> issue_loop visited rs b = (rs', b') \<Longrightarrow>
   \<exists>visited'. issue_inv b0 visited' rs' b' \<and>
     (length rs' < sc_issue_width (sb_config b') \<longrightarrow> visited' = length (sb_streams b'))"
proof (induction visited rs b rule: issue_loop.induct)
  case (1 visited rs b)
  let ?i = "sb_issue_cursor b" and ?n = "length (sb_streams b)"
  let ?b1 = "b\<lparr>sb_issue_cursor := (?i + 1) mod ?n\<rparr>" and ?s = "sb_streams b ! ?i"
  note inv = "1.prems"(1) [unfolded issue_inv_def]
  have i: "?i < ?n" using inv unfolding sbuf_wf_def by blast
  have lt: "(?i + 1) mod ?n < ?n" using i by (intro mod_less_divisor) linarith
  then have wf1: "sbuf_wf ?b1"
    using inv by (intro wf_cong [of ?b1 b]) simp_all
  have es1: "entry_state (b\<lparr>sb_issue_cursor := c\<rparr>) r = entry_state b r" for c r
    by (rule entry_state_cong) simp
  show ?case
  proof (cases "length rs < sc_issue_width (sb_config b) \<and> visited < ?n")
    case False
    then have "rs' = rs" "b' = b"
      using "1.prems"(2) by (simp_all add: issue_loop_end [OF False])
    with False "1.prems"(1) inv show ?thesis
      by (intro exI [of _ visited]) auto
  next
    case True
    show ?thesis
    proof (cases "first_queued ?s")
      case None
      have "quiet_behind (Suc visited) ?b1"
        using quiet_next [OF _ i None _ refl] inv True by blast
      with inv True wf1 have "issue_inv b0 (Suc visited) rs ?b1"
        by (simp add: issue_inv_def es1)
      from "1.IH"(1) [OF True refl refl refl None this] show ?thesis
        using "1.prems"(2) True None
        by (simp add: issue_loop.simps [of visited rs b] Let_def)
    next
      case (Some j)
      note q = first_queued_Some [OF Some]
      let ?r = "request_of b ?i j" and ?b2 = "count_issued (set_entry_state ?i j Inflight ?b1)"
      have queued: "entry_state b ?r = Some Queued"
        using entry_state_request_of [of b ?i j] inv i q by simp
      then have new: "?r \<notin> set rs" "entry_state b0 ?r = Some Queued"
        using inv by (auto split: if_splits)
      have "entry_state ?b2 r = (if r = ?r then Some Inflight else entry_state b r)" for r
        using entry_state_set [OF wf1, of ?i j Inflight r] i q
          entry_state_cong [of ?b2 "set_entry_state ?i j Inflight ?b1" r] es1
        by (simp add: request_of_def)
      moreover have "sbuf_wf ?b2"
        using set_entry_state_wf [OF wf1, of ?i j Inflight] i lt
        by (intro wf_cong [of ?b2 "set_entry_state ?i j Inflight ?b1"]) simp_all
      ultimately have "issue_inv b0 0 (rs @ [?r]) ?b2"
        using inv True new by (simp add: issue_inv_def quiet_behind_def)
      from "1.IH"(2) [OF True refl refl refl Some, unfolded request_of_def [symmetric], OF _]
      have "issue_inv b0 0 (rs @ [?r]) ?b2 \<Longrightarrow> ?thesis"
        using "1.prems"(2) True Some
        by (simp add: issue_loop.simps [of visited rs b] Let_def request_of_def)
      then show ?thesis
        using \<open>issue_inv b0 0 (rs @ [?r]) ?b2\<close> by blast
    qed
  qed
qed

lemma issue_effect:
  assumes "sbuf_wf b" "issue b = (rs, b')"
  shows "sbuf_wf b'" "length rs \<le> sc_issue_width (sb_config b)" "distinct rs"
    "\<forall>r \<in> set rs. entry_state b r = Some Queued"
    "\<forall>r. entry_state b' r = (if r \<in> set rs then Some Inflight else entry_state b r)"
    "length rs < sc_issue_width (sb_config b) \<Longrightarrow> \<forall>s \<in> set (sb_streams b'). first_queued s = None"
proof -
  have "issue_inv b 0 [] b" using assms(1) by (simp add: issue_inv_def quiet_behind_def)
  from issue_loop_inv [OF this assms(2) [unfolded issue_def]] obtain v where
    v: "issue_inv b v rs b'"
      "length rs < sc_issue_width (sb_config b') \<longrightarrow> v = length (sb_streams b')"
    by blast
  then show "sbuf_wf b'" "length rs \<le> sc_issue_width (sb_config b)" "distinct rs"
    "\<forall>r \<in> set rs. entry_state b r = Some Queued"
    "\<forall>r. entry_state b' r = (if r \<in> set rs then Some Inflight else entry_state b r)"
    by (auto simp: issue_inv_def)
  show "length rs < sc_issue_width (sb_config b) \<Longrightarrow> \<forall>s \<in> set (sb_streams b'). first_queued s = None"
    using v quiet_all [of b'] by (auto simp: issue_inv_def sbuf_wf_def)
qed

subsection \<open>Responses, cancellation and runs\<close>

lemma wf_bookkeeping [simp]:
  "sbuf_wf (b\<lparr>sb_stats := x\<rparr>) = sbuf_wf b"
  "sbuf_wf (b\<lparr>sb_preload_base_lines := m\<rparr>) = sbuf_wf b"
  by (simp_all add: sbuf_wf_def)

lemma count_stale_wf: "sbuf_wf b \<Longrightarrow> sbuf_wf (count_stale b)"
  by (simp add: count_stale_def)

lemma inflight_entry_Some:
  "inflight_entry b r = Some j \<Longrightarrow> rq_stream r < length (sb_streams b)"
  by (auto simp: inflight_entry_def request_stream_def split: option.splits if_splits)

lemma responses_wf:
  assumes "sbuf_wf b"
  shows "sbuf_wf (retry r b)" "sbuf_wf (mark_resident r b)" "sbuf_wf (fill r b)"
proof -
  have set: "sbuf_wf (set_entry_state (rq_stream r) j st b)" if "inflight_entry b r = Some j" for j st
    using set_entry_state_wf [OF assms inflight_entry_Some [OF that]] by simp
  show "sbuf_wf (retry r b)" "sbuf_wf (mark_resident r b)" "sbuf_wf (fill r b)"
    using assms
    by (auto simp: retry_def mark_resident_def fill_def Let_def set count_stale_wf
        split: option.splits)
qed

lemma invalidate_if_wf: "sbuf_wf b \<Longrightarrow> sbuf_wf (invalidate_if P b)"
  unfolding sbuf_wf_def by (auto simp: invalidate_if_def list_all_iff invalidate_wf)

lemma cancel_context_wf: "sbuf_wf b \<Longrightarrow> sbuf_wf (cancel_context ctx b)"
  by (simp add: cancel_context_def Let_def invalidate_if_wf)

lemma reset_wf: "sbuf_wf b \<Longrightarrow> sbuf_wf (reset b)"
proof -
  assume "sbuf_wf b"
  then have i: "sbuf_wf (invalidate_if (\<lambda>_. True) b)" by (rule invalidate_if_wf)
  then have "0 < length (sb_streams (invalidate_if (\<lambda>_. True) b))"
    unfolding sbuf_wf_def by linarith
  with i show ?thesis
    by (auto simp: reset_def Let_def intro!: wf_cong [of _ "invalidate_if (\<lambda>_. True) b"])
qed

lemma record_preload_wf:
  "sbuf_wf b \<Longrightarrow> sbuf_wf (record_gcc_preload_hit b)"
  "sbuf_wf b \<Longrightarrow> sbuf_wf (record_gcc_preload_miss b)"
  by (simp_all add: sbuf_wf_def record_gcc_preload_hit_def record_gcc_preload_miss_def)

lemma sbuf_step_defined: "sbuf_wf b \<Longrightarrow> sbuf_step b x \<noteq> None"
proof (cases x)
  case (Demand ctx address miss)
  assume "sbuf_wf b"
  with observe_demand_wf [of b ctx address miss] Demand show ?thesis by auto
qed simp_all

lemma sbuf_step_keeps:
  assumes "sbuf_wf b" "sbuf_step b x = Some b'"
  shows "sbuf_wf b'"
proof (cases x)
  case (Demand ctx address miss)
  with observe_demand_wf [OF assms(1), of ctx address miss] assms(2) show ?thesis by auto
next
  case Issue
  with issue_effect(1) [OF assms(1), of "fst (issue b)" "snd (issue b)"] assms(2) show ?thesis by simp
qed (use assms in \<open>auto intro: responses_wf cancel_context_wf reset_wf record_preload_wf\<close>)

interpretation sbuf_run: step_safe sbuf_step sbuf_wf "\<lambda>_ _. True"
  by unfold_locales (fact sbuf_step_keeps, rule sbuf_step_defined)

text \<open>
  Streams only move forward: a stream keeps its identity (valid bit and context) as long as
  its generation stays, and its generation never decreases.
\<close>

definition stream_adv :: "stream_state \<Rightarrow> stream_state \<Rightarrow> bool" where
  "stream_adv s t \<longleftrightarrow> ss_generation s < ss_generation t \<or>
     (ss_generation t = ss_generation s \<and> ss_valid t = ss_valid s \<and> ss_context t = ss_context s)"

definition buffer_adv :: "stream_buffer \<Rightarrow> stream_buffer \<Rightarrow> bool" where
  "buffer_adv b c \<longleftrightarrow> list_all2 stream_adv (sb_streams b) (sb_streams c)"

lemma stream_adv_refl [simp]: "stream_adv s s"
  by (simp add: stream_adv_def)

lemma stream_adv_trans: "stream_adv s t \<Longrightarrow> stream_adv t u \<Longrightarrow> stream_adv s u"
  by (auto simp: stream_adv_def)

lemma buffer_adv_refl: "sb_streams b = sb_streams c \<Longrightarrow> buffer_adv b c"
  by (simp add: buffer_adv_def list_all2_refl)

lemma buffer_adv_trans: "buffer_adv b c \<Longrightarrow> buffer_adv c d \<Longrightarrow> buffer_adv b d"
  unfolding buffer_adv_def by (rule list_all2_trans [OF stream_adv_trans])

lemma buffer_adv_update:
  "sb_streams c = (sb_streams b)[i := t] \<Longrightarrow> stream_adv (sb_streams b ! i) t \<Longrightarrow> buffer_adv b c"
  by (auto simp: buffer_adv_def list_all2_conv_all_nth nth_list_update_at)

lemma set_entry_state_adv: "buffer_adv b (set_entry_state i j st b)"
  by (rule buffer_adv_update [where i = i], simp add: set_entry_state_def Let_def)
    (simp add: stream_adv_def)

lemma issue_loop_adv: "buffer_adv b (snd (issue_loop visited rs b))"
proof (induction visited rs b rule: issue_loop.induct)
  case (1 visited rs b)
  let ?i = "sb_issue_cursor b" and ?n = "length (sb_streams b)"
  let ?b1 = "b\<lparr>sb_issue_cursor := (?i + 1) mod ?n\<rparr>" and ?s = "sb_streams b ! ?i"
  show ?case
  proof (cases "length rs < sc_issue_width (sb_config b) \<and> visited < ?n")
    case False
    then show ?thesis by (simp add: issue_loop_end [OF False] buffer_adv_refl)
  next
    case True
    have b1: "buffer_adv b ?b1" by (rule buffer_adv_refl) simp
    show ?thesis
    proof (cases "first_queued ?s")
      case None
      with "1.IH"(1) [OF True refl refl refl None] buffer_adv_trans [OF b1] True show ?thesis
        by (simp add: issue_loop.simps [of visited rs b] Let_def)
    next
      case (Some j)
      have "buffer_adv b (count_issued (set_entry_state ?i j Inflight ?b1))"
        using buffer_adv_trans [OF b1 set_entry_state_adv [of ?b1 ?i j Inflight]]
        by (simp add: buffer_adv_def)
      from buffer_adv_trans [OF this] "1.IH"(2) [OF True refl refl refl Some] True Some
      show ?thesis by (simp add: issue_loop.simps [of visited rs b] Let_def)
    qed
  qed
qed

lemma refill_window_shape:
  "refill_window c s = Some t \<Longrightarrow> ss_generation t = ss_generation s \<and> ss_valid t = ss_valid s \<and>
     ss_context t = ss_context s"
  by (auto simp: refill_window_def Let_def bind_eq_Some_conv)

lemma choose_stream_adv:
  "choose_stream b = (i, streams, stats) \<Longrightarrow> list_all2 stream_adv (sb_streams b) streams"
  by (auto simp: choose_stream_def Let_def list_all2_conv_all_nth nth_list_update_at stream_adv_def
      invalidate_def split: option.splits if_splits)

lemma start_stream_adv: "start_stream ctx line b = Some c \<Longrightarrow> buffer_adv b c"
proof -
  assume start: "start_stream ctx line b = Some c"
  obtain i streams stats where choice: "choose_stream b = (i, streams, stats)"
    by (metis surj_pair)
  with start obtain t where t: "sb_streams c = streams[i := t]"
    "ss_generation t = Suc (ss_generation (streams ! i))"
    by (auto simp: start_stream_def Let_def bind_eq_Some_conv dest!: refill_window_shape)
  then have "list_all2 stream_adv streams (sb_streams c)"
    by (auto simp: list_all2_conv_all_nth nth_list_update_at stream_adv_def)
  from list_all2_trans [OF stream_adv_trans choose_stream_adv [OF choice] this]
  show ?thesis by (simp add: buffer_adv_def)
qed

lemma demand_hit_adv: "demand_hit i line b = Some (r, c) \<Longrightarrow> buffer_adv b c"
  by (auto simp: demand_hit_def Let_def bind_eq_Some_conv stream_adv_def dest!: refill_window_shape
      intro!: buffer_adv_update [where i = i])

lemma noted_streams: "sb_streams (noted ctx line b) = sb_streams b"
  by (simp add: noted_def)

lemma observe_demand_adv:
  assumes "observe_demand ctx address miss b = Some (r, c)"
  shows "buffer_adv b c"
proof -
  define line where "line = line_address (sb_config b) address"
  note eq = observe_demand_cases [OF line_def, of ctx miss]
  have "buffer_adv (noted ctx line b) c"
    using assms
    by (auto simp: eq buffer_adv_refl split: option.splits if_splits
        intro: demand_hit_adv start_stream_adv)
  then show ?thesis by (simp add: buffer_adv_def noted_streams)
qed

lemma invalidate_if_adv: "buffer_adv b (invalidate_if P b)"
  by (auto simp: buffer_adv_def invalidate_if_def list_all2_conv_all_nth stream_adv_def invalidate_def)

lemma responses_adv: "buffer_adv b (retry r b)" "buffer_adv b (mark_resident r b)" "buffer_adv b (fill r b)"
proof -
  have "buffer_adv b ((set_entry_state i j st b)\<lparr>sb_stats := x\<rparr>)" for i j st x
    using set_entry_state_adv [of b i j st] by (simp add: buffer_adv_def)
  moreover have "buffer_adv b (count_stale b)" by (simp add: buffer_adv_refl count_stale_def)
  ultimately show "buffer_adv b (retry r b)" "buffer_adv b (mark_resident r b)" "buffer_adv b (fill r b)"
    by (auto simp: retry_def mark_resident_def fill_def Let_def split: option.splits)
qed

lemma sbuf_step_adv:
  assumes "sbuf_step b x = Some c"
  shows "buffer_adv b c"
proof (cases x)
  case (Demand ctx address miss)
  with assms show ?thesis by (auto intro: observe_demand_adv)
next
  case (Cancel_Context ctx)
  with assms invalidate_if_adv [of b "\<lambda>s. ss_valid s \<and> ss_context s = ctx"] show ?thesis
    by (auto simp: cancel_context_def Let_def buffer_adv_def)
next
  case Reset
  with assms invalidate_if_adv [of b "\<lambda>_. True"] show ?thesis
    by (auto simp: reset_def Let_def buffer_adv_def)
next
  case Issue
  with assms issue_loop_adv [of b 0 "[]"] show ?thesis by (auto simp: issue_def)
qed (use assms in \<open>auto intro: responses_adv simp: buffer_adv_refl record_gcc_preload_hit_def
    record_gcc_preload_miss_def\<close>)

lemma sbuf_run_adv: "run_ops sbuf_step b xs = Some c \<Longrightarrow> buffer_adv b c"
  by (induction xs arbitrary: b)
    (auto simp: bind_eq_Some_conv buffer_adv_refl intro: buffer_adv_trans sbuf_step_adv)

text \<open>A request whose stream has moved on is dead for ever.\<close>

definition dead :: "stream_buffer \<Rightarrow> prefetch_request \<Rightarrow> bool" where
  "dead b r \<longleftrightarrow> rq_stream r < length (sb_streams b) \<and>
     rq_generation r < ss_generation (sb_streams b ! rq_stream r)"

lemma dead_adv: "buffer_adv b c \<Longrightarrow> dead b r \<Longrightarrow> dead c r"
  by (auto simp: buffer_adv_def dead_def list_all2_conv_all_nth stream_adv_def)

lemma dead_ignored:
  assumes "dead b r"
  shows "\<not> current b r" "retry r b = count_stale b" "mark_resident r b = count_stale b"
    "fill r b = count_stale b"
proof -
  have "request_stream b r = None"
    using assms by (auto simp: dead_def request_stream_def Let_def)
  then show "\<not> current b r" "retry r b = count_stale b" "mark_resident r b = count_stale b"
    "fill r b = count_stale b"
    by (simp_all add: current_def retry_def mark_resident_def fill_def inflight_entry_def)
qed

lemma request_stream_adv:
  assumes "request_stream b r = Some s" "buffer_adv b c"
  shows "dead c r \<or> (\<exists>t. request_stream c r = Some t)"
proof -
  have r: "rq_stream r < length (sb_streams b)" "ss_valid (sb_streams b ! rq_stream r)"
    "ss_context (sb_streams b ! rq_stream r) = rq_context r"
    "ss_generation (sb_streams b ! rq_stream r) = rq_generation r"
    using assms(1) by (auto simp: request_stream_def Let_def split: if_splits)
  have "stream_adv (sb_streams b ! rq_stream r) (sb_streams c ! rq_stream r)"
    "length (sb_streams c) = length (sb_streams b)"
    using assms(2) r(1) by (auto simp: buffer_adv_def list_all2_conv_all_nth)
  with r show ?thesis by (auto simp: request_stream_def dead_def Let_def stream_adv_def)
qed

lemma cancel_kills:
  assumes "request_stream b r = Some s"
  shows "dead (cancel_context (rq_context r) b) r"
  using assms
  by (auto simp: request_stream_def dead_def Let_def cancel_context_def invalidate_if_def
      invalidate_def split: if_splits)

lemma observe_demand_config:
  assumes "observe_demand ctx address miss b = Some (r, c)"
  shows "sb_config c = sb_config b"
proof -
  define line where "line = line_address (sb_config b) address"
  note eq = observe_demand_cases [OF line_def, of ctx miss]
  have n: "sb_config (noted ctx line b) = sb_config b" by (simp add: noted_def)
  show ?thesis
  proof (cases "find_index (tracks ctx line) (sb_streams (noted ctx line b))")
    case (Some i)
    with assms have "demand_hit i line (noted ctx line b) = Some (r, c)" by (simp add: eq)
    then have "sb_config c = sb_config (noted ctx line b)"
      by (auto simp: demand_hit_def Let_def bind_eq_Some_conv)
    with n show ?thesis by simp
  next
    case None
    show ?thesis
    proof (cases miss)
      case True
      with None assms eq have "start_stream ctx line (noted ctx line b) = Some c"
        by (cases "start_stream ctx line (noted ctx line b)") auto
      then have "sb_config c = sb_config (noted ctx line b)"
        by (auto simp: start_stream_def Let_def bind_eq_Some_conv split: prod.splits)
      with n show ?thesis by simp
    next
      case False
      with None assms eq n show ?thesis by auto
    qed
  qed
qed

lemma sbuf_step_config:
  assumes "sbuf_wf b" "sbuf_step b x = Some c"
  shows "sb_config c = sb_config b"
proof (cases x)
  case (Demand ctx address miss)
  with assms(2) show ?thesis by (auto dest: observe_demand_config)
next
  case Issue
  have "issue_inv b 0 [] b" using assms(1) by (simp add: issue_inv_def quiet_behind_def)
  from issue_loop_inv [OF this prod.collapse [symmetric]] show ?thesis
    using assms(2) Issue by (auto simp: issue_inv_def issue_def)
next
  case (Retry r)
  with assms(2) show ?thesis
    by (auto simp: retry_def count_stale_def Let_def split: option.splits)
next
  case (Mark_Resident r)
  with assms(2) show ?thesis
    by (auto simp: mark_resident_def count_stale_def Let_def split: option.splits)
next
  case (Fill r)
  with assms(2) show ?thesis
    by (auto simp: fill_def count_stale_def Let_def split: option.splits)
next
  case (Cancel_Context ctx)
  with assms(2) show ?thesis by (auto simp: cancel_context_def invalidate_if_def Let_def)
next
  case Reset
  with assms(2) show ?thesis by (auto simp: reset_def invalidate_if_def Let_def)
qed (use assms(2) in \<open>auto simp: record_gcc_preload_hit_def record_gcc_preload_miss_def\<close>)

lemma sbuf_run_config:
  "sbuf_wf b \<Longrightarrow> run_ops sbuf_step b xs = Some c \<Longrightarrow> sb_config c = sb_config b"
proof (induction xs arbitrary: b)
  case (Cons x xs)
  then obtain d where d: "sbuf_step b x = Some d" "run_ops sbuf_step d xs = Some c"
    by (auto simp: bind_eq_Some_conv)
  with Cons.IH [OF sbuf_step_keeps [OF Cons.prems(1) d(1)] d(2)] sbuf_step_config [OF Cons.prems(1) d(1)]
  show ?case by simp
qed simp

lemma allowed_run_True: "allowed_run step (\<lambda>_ _. True) s xs"
  by (induction xs arbitrary: s) (auto split: option.splits)

lemma reachable_wf:
  "stream_buffer_new c = Some b0 \<Longrightarrow> run_ops sbuf_step b0 xs = Some b \<Longrightarrow> sbuf_wf b"
  by (rule sbuf_run.run_keeps [OF new_wf])

subsection \<open>Properties\<close>

definition sample_config :: stream_config where
  "sample_config = \<lparr>sc_line_size = 128, sc_streams = 2, sc_depth = 3, sc_issue_width = 2,
     sc_gcc_preload_lines = 0\<rparr>"

definition sample_buffer :: stream_buffer where
  "sample_buffer = \<lparr>sb_config = sample_config, sb_streams = replicate 2 stream_init,
     sb_issue_cursor = 0, sb_clock = 0, sb_preload_base_lines = fmempty, sb_stats = stats_zero\<rparr>"

lemma sample_new: "stream_buffer_new sample_config = Some sample_buffer"
  by (simp add: stream_buffer_new_def config_ok_def sample_config_def sample_buffer_def)

definition sample_calls :: "sbuf_op list" where
  "sample_calls = [Demand 7 4100 True, Issue, Demand 7 4250 False]"

text \<open>
  C13. The prefetch window is exact: after any sequence of calls on a new stream buffer, no
  assertion has failed and every valid stream holds exactly the lines that follow its last
  demanded line, in order: as many as the configured depth, or fewer where the address
  space ends; an invalid stream holds none.
\<close>

theorem stream_windows_exact:
  assumes "stream_buffer_new c = Some b0"
  shows "\<exists>b. run_ops sbuf_step b0 calls = Some b \<and> length (sb_streams b) = sc_streams c \<and>
    list_all (\<lambda>s. if ss_valid s then map se_address (ss_entries s) = window c (ss_demand_line s)
      else ss_entries s = []) (sb_streams b)"
proof -
  from sbuf_run.run_safe [OF new_wf [OF assms] allowed_run_True]
  obtain b where b: "run_ops sbuf_step b0 calls = Some b" "sbuf_wf b" by blast
  have "sb_config b0 = c" using assms by (auto simp: stream_buffer_new_def)
  with sbuf_run_config [OF new_wf [OF assms] b(1)] b show ?thesis
    by (auto simp: sbuf_wf_def stream_wf_def [abs_def])
qed

theorem stream_windows_exact_witness:
  "\<exists>b. run_ops sbuf_step sample_buffer sample_calls = Some b \<and> length (sb_streams b) = 2"
  using stream_windows_exact [OF sample_new, of sample_calls] by (auto simp: sample_config_def)

text \<open>
  Issuing is exact and work-conserving: \<^verbatim>\<open>issue\<close> hands out at most the issue width of
  distinct requests, each for a queued line of a current stream; these lines and no others
  become in flight, and a result shorter than the issue width means that no stream has a
  queued line left, so no line is requested twice before it is retried.
\<close>

theorem issue_exact:
  assumes "stream_buffer_new c = Some b0" and "run_ops sbuf_step b0 calls = Some b"
    and "issue b = (rs, b')"
  shows "length rs \<le> sc_issue_width (sb_config b) \<and> distinct rs \<and>
    (\<forall>r \<in> set rs. entry_state b r = Some Queued) \<and>
    (\<forall>r. entry_state b' r = (if r \<in> set rs then Some Inflight else entry_state b r)) \<and>
    (length rs < sc_issue_width (sb_config b) \<longrightarrow> (\<forall>s \<in> set (sb_streams b'). first_queued s = None))"
  using issue_effect [OF reachable_wf [OF assms(1,2)] assms(3)] by blast

theorem issue_exact_witness:
  "\<exists>b rs b'. run_ops sbuf_step sample_buffer sample_calls = Some b \<and> issue b = (rs, b') \<and>
     length rs \<le> sc_issue_width (sb_config b) \<and> distinct rs \<and>
     (\<forall>r \<in> set rs. entry_state b r = Some Queued)"
proof -
  from sbuf_run.run_safe [OF new_wf [OF sample_new] allowed_run_True]
  obtain b where b: "run_ops sbuf_step sample_buffer sample_calls = Some b" by blast
  obtain rs b' where "issue b = (rs, b')" by (metis surj_pair)
  with issue_exact [OF sample_new b this] b show ?thesis by blast
qed

text \<open>
  C19. Answers to cancelled prefetches are ignored: once the context of an issued request has
  been cancelled, the request is never current again, however the streams are reused
  afterwards, and a late fill, retry or resident answer for it only counts as stale.
\<close>

theorem stale_response_ignored:
  assumes "stream_buffer_new c = Some b0" and "run_ops sbuf_step b0 calls = Some b"
    and "r \<in> set (fst (issue b))"
    and "run_ops sbuf_step (snd (issue b)) before = Some b1"
    and "run_ops sbuf_step (cancel_context (rq_context r) b1) after = Some b2"
  shows "\<not> current b2 r \<and> fill r b2 = count_stale b2 \<and> retry r b2 = count_stale b2 \<and>
    mark_resident r b2 = count_stale b2"
proof -
  note e = issue_effect [OF reachable_wf [OF assms(1,2)] prod.collapse [symmetric]]
  have "entry_state (snd (issue b)) r = Some Inflight"
    using e(5) assms(3) by simp
  then obtain s where "request_stream (snd (issue b)) r = Some s"
    by (auto simp: entry_state_def split: option.splits)
  from request_stream_adv [OF this sbuf_run_adv [OF assms(4)]]
  have "dead (cancel_context (rq_context r) b1) r"
  proof
    assume "dead b1 r"
    moreover have "buffer_adv b1 (cancel_context (rq_context r) b1)"
      by (rule sbuf_step_adv [of b1 "Cancel_Context (rq_context r)"]) simp
    ultimately show ?thesis by (blast intro: dead_adv)
  qed (auto intro: cancel_kills)
  from dead_adv [OF sbuf_run_adv [OF assms(5)] this] show ?thesis
    using dead_ignored by blast
qed

definition sample_request :: prefetch_request where
  "sample_request = \<lparr>rq_address = 4224, rq_context = 7, rq_generation = 1, rq_stream = 0\<rparr>"

definition sample_started :: stream_buffer where
  "sample_started = sample_buffer\<lparr>
     sb_streams := [\<lparr>ss_valid = True, ss_context = 7, ss_generation = 1, ss_demand_line = 4096,
       ss_last_use = 1, ss_entries = [\<lparr>se_address = 4224, se_state = Queued\<rparr>,
         \<lparr>se_address = 4352, se_state = Queued\<rparr>, \<lparr>se_address = 4480, se_state = Queued\<rparr>]\<rparr>, stream_init],
     sb_clock := 1, sb_preload_base_lines := fmupd 7 4096 fmempty,
     sb_stats := stats_zero\<lparr>streams_started := 1\<rparr>\<rparr>"

lemma sample_demand:
  "run_ops sbuf_step sample_buffer [Demand 7 4100 True] = Some sample_started"
proof -
  have line: "line_address sample_config 4100 = 4096"
    by (simp add: line_address_def sample_config_def)
  have refill: "refill_window sample_config \<lparr>ss_valid = True, ss_context = 7, ss_generation = 1,
      ss_demand_line = 4096, ss_last_use = 1, ss_entries = []\<rparr> = Some (sb_streams sample_started ! 0)"
    by (simp add: refill_window_def sample_config_def sample_started_def numeral_3_eq_3 Let_def)
  show ?thesis
    using refill
    by (simp add: observe_demand_def Let_def line sample_buffer_def start_stream_def choose_stream_def
        find_index_def numeral_2_eq_2 tracks_def stream_init_def note_base_line_def sample_started_def
        stats_zero_def)
qed

lemma sample_issued: "sample_request \<in> set (fst (issue sample_started))"
  by code_simp

theorem stale_response_ignored_witness:
  "\<exists>b b1 b2. run_ops sbuf_step sample_buffer [Demand 7 4100 True] = Some b \<and>
     sample_request \<in> set (fst (issue b)) \<and>
     run_ops sbuf_step (snd (issue b)) [Demand 8 256 True] = Some b1 \<and>
     run_ops sbuf_step (cancel_context 7 b1) [Demand 7 4100 True] = Some b2 \<and>
     fill sample_request b2 = count_stale b2"
proof -
  obtain b where b: "run_ops sbuf_step sample_buffer [Demand 7 4100 True] = Some b"
    "sample_request \<in> set (fst (issue b))"
    using sample_demand sample_issued by blast
  note wf = reachable_wf [OF sample_new b(1)]
  have "sbuf_wf (snd (issue b))"
    using issue_effect(1) [OF wf prod.collapse [symmetric]] .
  from sbuf_run.run_safe [OF this allowed_run_True] obtain b1 where
    b1: "run_ops sbuf_step (snd (issue b)) [Demand 8 256 True] = Some b1" "sbuf_wf b1" by blast
  from sbuf_run.run_safe [OF cancel_context_wf [OF b1(2)] allowed_run_True] obtain b2 where
    b2: "run_ops sbuf_step (cancel_context 7 b1) [Demand 7 4100 True] = Some b2" by blast
  have ctx: "rq_context sample_request = 7" by (simp add: sample_request_def)
  have "fill sample_request b2 = count_stale b2"
    using stale_response_ignored [OF sample_new b b1(1), unfolded ctx, OF b2] by blast
  with b b1(1) b2 show ?thesis by blast
qed

end
