(* ===== verification/Tcgen05_Timing.thy ===== *)
theory Tcgen05_Timing
  imports Prelude "HOL-Library.Finite_Map"
begin

section \<open>Asynchronous timing of tcgen05 operations\<close>

text \<open>
  Models \<^verbatim>\<open>src/gpgpu-sim/flash/tcgen05/timing.h\<close> and \<^verbatim>\<open>timing.cc\<close>: the per-SM unit that
  decides when the asynchronous tensor operations of a thread or warp complete, when the
  \<^verbatim>\<open>commit\<close> of a thread arrives at its mbarrier and when a \<^verbatim>\<open>wait::ld\<close> or
  \<^verbatim>\<open>wait::st\<close> of a warp is released. Cycles, work and sequence numbers are \<open>nat\<close>, for runs
  of fewer than \<open>2^64 - 1\<close> cycles; the two \<^verbatim>\<open>m_last\<close> fields start at the largest 64-bit
  value, which no cycle of such a run equals: here \<open>None\<close>. The vectors and maps are lists and finite maps; the stream keys are
  ordered as by the \<^verbatim>\<open>operator<\<close> of the code.
\<close>

subsection \<open>Keys\<close>

datatype thread_stream_key = Thread_Key (tk_hw_cta_id: nat) (tk_warp_id: nat) (tk_lane_id: nat)
  (tk_cta_group: nat)

datatype warp_stream_key = Warp_Key (wk_hw_cta_id: nat) (wk_warp_id: nat)

instantiation thread_stream_key :: linorder
begin

definition less_thread_stream_key :: "thread_stream_key \<Rightarrow> thread_stream_key \<Rightarrow> bool" where
  "less_thread_stream_key a b \<longleftrightarrow>
     tk_hw_cta_id a < tk_hw_cta_id b \<or> tk_hw_cta_id a = tk_hw_cta_id b \<and>
      (tk_warp_id a < tk_warp_id b \<or> tk_warp_id a = tk_warp_id b \<and>
       (tk_lane_id a < tk_lane_id b \<or> tk_lane_id a = tk_lane_id b \<and>
         tk_cta_group a < tk_cta_group b))"

definition less_eq_thread_stream_key :: "thread_stream_key \<Rightarrow> thread_stream_key \<Rightarrow> bool" where
  "less_eq_thread_stream_key a b \<longleftrightarrow> a < b \<or> a = b"

instance
proof
  fix a b c :: thread_stream_key
  show "a < b \<longleftrightarrow> a \<le> b \<and> \<not> b \<le> a"
    by (auto simp: less_eq_thread_stream_key_def less_thread_stream_key_def)
  show "a \<le> a" by (simp add: less_eq_thread_stream_key_def)
  show "a \<le> b \<Longrightarrow> b \<le> c \<Longrightarrow> a \<le> c"
    by (auto simp: less_eq_thread_stream_key_def less_thread_stream_key_def)
  show "a \<le> b \<Longrightarrow> b \<le> a \<Longrightarrow> a = b"
    by (auto simp: less_eq_thread_stream_key_def less_thread_stream_key_def)
  show "a \<le> b \<or> b \<le> a"
    by (cases a; cases b) (auto simp: less_eq_thread_stream_key_def less_thread_stream_key_def)
qed

end

instantiation warp_stream_key :: linorder
begin

definition less_warp_stream_key :: "warp_stream_key \<Rightarrow> warp_stream_key \<Rightarrow> bool" where
  "less_warp_stream_key a b \<longleftrightarrow> wk_hw_cta_id a < wk_hw_cta_id b \<or>
     wk_hw_cta_id a = wk_hw_cta_id b \<and> wk_warp_id a < wk_warp_id b"

definition less_eq_warp_stream_key :: "warp_stream_key \<Rightarrow> warp_stream_key \<Rightarrow> bool" where
  "less_eq_warp_stream_key a b \<longleftrightarrow> a < b \<or> a = b"

instance
proof
  fix a b c :: warp_stream_key
  show "a < b \<longleftrightarrow> a \<le> b \<and> \<not> b \<le> a"
    by (auto simp: less_eq_warp_stream_key_def less_warp_stream_key_def)
  show "a \<le> a" by (simp add: less_eq_warp_stream_key_def)
  show "a \<le> b \<Longrightarrow> b \<le> c \<Longrightarrow> a \<le> c"
    by (auto simp: less_eq_warp_stream_key_def less_warp_stream_key_def)
  show "a \<le> b \<Longrightarrow> b \<le> a \<Longrightarrow> a = b"
    by (auto simp: less_eq_warp_stream_key_def less_warp_stream_key_def)
  show "a \<le> b \<or> b \<le> a"
    by (cases a; cases b) (auto simp: less_eq_warp_stream_key_def less_warp_stream_key_def)
qed

end

subsection \<open>Data\<close>

datatype tcgen05_op_kind = TIMING_MMA | TIMING_CP | TIMING_SHIFT | TIMING_LD | TIMING_ST

record timing_config =
  tc_mma_issue_interval :: nat
  tc_mma_completion_tail_latency :: nat
  tc_mma_f16_flops_per_cycle :: nat
  tc_async_queue_depth :: nat

record tcgen05_op =
  to_kind :: tcgen05_op_kind
  to_work :: nat
  to_completion_latency :: nat
  to_initiation_interval :: nat

datatype event_kind = MBARRIER_ARRIVAL | RELEASE_LD_WAIT | RELEASE_ST_WAIT

record completion_event =
  ce_kind :: event_kind
  ce_hw_cta_id :: nat
  ce_warp_id :: nat
  ce_mbarrier_addr :: nat

record timing_stats =
  ts_issued :: "tcgen05_op_kind \<Rightarrow> nat"
  ts_completed :: "tcgen05_op_kind \<Rightarrow> nat"
  ts_backend_busy_cycles :: nat
  ts_queue_full_stall_cycles :: nat
  ts_issue_interval_stall_cycles :: nat
  ts_commit_wait_cycles :: nat
  ts_ld_wait_cycles :: nat
  ts_st_wait_cycles :: nat
  ts_max_queue_occupancy :: nat

record pending_op =
  po_thread_scoped :: bool
  po_thread_stream :: thread_stream_key
  po_warp_stream :: warp_stream_key
  po_kind :: tcgen05_op_kind
  po_sequence :: nat
  po_backend_done_cycle :: nat
  po_completion_cycle :: nat

record pending_commit =
  pc_stream :: thread_stream_key
  pc_cutoff :: nat
  pc_mbarrier_addr :: nat

record pending_wait =
  pw_stream :: warp_stream_key
  pw_kind :: tcgen05_op_kind
  pw_cutoff :: nat

record tcgen05_unit =
  tu_config :: timing_config
  tu_pending_ops :: "pending_op list"
  tu_pending_commits :: "pending_commit list"
  tu_pending_waits :: "pending_wait list"
  tu_completion_events :: "completion_event list"
  tu_thread_next_sequence :: "(thread_stream_key, nat) fmap"
  tu_ld_next_sequence :: "(warp_stream_key, nat) fmap"
  tu_st_next_sequence :: "(warp_stream_key, nat) fmap"
  tu_next_issue_cycle :: "tcgen05_op_kind \<Rightarrow> nat"
  tu_mma_backend_available_cycle :: nat
  tu_mma_busy_period_start_cycle :: nat
  tu_mma_busy_period_work :: nat
  tu_last_queue_full_stall_cycle :: "nat option"
  tu_last_issue_interval_stall_cycle :: "nat option"
  tu_stats :: timing_stats

definition timing_stats_init :: timing_stats where
  "timing_stats_init = \<lparr>ts_issued = (\<lambda>_. 0), ts_completed = (\<lambda>_. 0), ts_backend_busy_cycles = 0,
     ts_queue_full_stall_cycles = 0, ts_issue_interval_stall_cycles = 0, ts_commit_wait_cycles = 0,
     ts_ld_wait_cycles = 0, ts_st_wait_cycles = 0, ts_max_queue_occupancy = 0\<rparr>"

definition unit_new :: "timing_config \<Rightarrow> tcgen05_unit option" where
  "unit_new cfg = do {
     cassert (0 < tc_mma_issue_interval cfg);
     cassert (0 < tc_mma_f16_flops_per_cycle cfg);
     Some \<lparr>tu_config = cfg, tu_pending_ops = [], tu_pending_commits = [], tu_pending_waits = [],
       tu_completion_events = [], tu_thread_next_sequence = fmempty,
       tu_ld_next_sequence = fmempty, tu_st_next_sequence = fmempty,
       tu_next_issue_cycle = (\<lambda>_. 0), tu_mma_backend_available_cycle = 0,
       tu_mma_busy_period_start_cycle = 0, tu_mma_busy_period_work = 0,
       tu_last_queue_full_stall_cycle = None,
       tu_last_issue_interval_stall_cycle = None, tu_stats = timing_stats_init\<rparr>
   }"

subsection \<open>Issue\<close>

definition can_enqueue :: "tcgen05_op_kind \<Rightarrow> nat \<Rightarrow> tcgen05_unit \<Rightarrow> bool \<times> tcgen05_unit" where
  "can_enqueue kind cycle u =
     (if tc_async_queue_depth (tu_config u) \<noteq> 0 \<and>
         tc_async_queue_depth (tu_config u) \<le> length (tu_pending_ops u)
      then (False,
        if Some cycle \<noteq> tu_last_queue_full_stall_cycle u
        then u\<lparr>tu_stats := (tu_stats u)\<lparr>ts_queue_full_stall_cycles :=
                 ts_queue_full_stall_cycles (tu_stats u) + 1\<rparr>,
               tu_last_queue_full_stall_cycle := Some cycle\<rparr>
        else u)
      else if cycle < tu_next_issue_cycle u kind
      then (False,
        if Some cycle \<noteq> tu_last_issue_interval_stall_cycle u
        then u\<lparr>tu_stats := (tu_stats u)\<lparr>ts_issue_interval_stall_cycles :=
                 ts_issue_interval_stall_cycles (tu_stats u) + 1\<rparr>,
               tu_last_issue_interval_stall_cycle := Some cycle\<rparr>
        else u)
      else (True, u))"

text \<open>\<^verbatim>\<open>++m[key]\<close> on a map whose missing keys count as 0.\<close>

definition sequence_of :: "('k, nat) fmap \<Rightarrow> 'k \<Rightarrow> nat" where
  "sequence_of m k = (case fmlookup m k of None \<Rightarrow> 0 | Some n \<Rightarrow> n)"

text \<open>
  The backend of the MMA operations: a busy period is a fluid server of
  \<^verbatim>\<open>mma_f16_flops_per_cycle\<close>. The results are the backend-done and completion cycles.
\<close>

definition begin_mma :: "nat \<Rightarrow> nat \<Rightarrow> tcgen05_unit \<Rightarrow> nat \<times> nat \<times> tcgen05_unit" where
  "begin_mma work cycle u =
     (let u1 = (if tu_mma_backend_available_cycle u \<le> cycle
                then u\<lparr>tu_mma_busy_period_start_cycle := cycle, tu_mma_busy_period_work := 0,
                       tu_stats := (tu_stats u)\<lparr>ts_backend_busy_cycles :=
                         ts_backend_busy_cycles (tu_stats u) + 1\<rparr>\<rparr>
                else u);
          total = tu_mma_busy_period_work u1 + work;
          rate = tc_mma_f16_flops_per_cycle (tu_config u1);
          compute_cycles = max 1 ((total + rate - 1) div rate);
          done = tu_mma_busy_period_start_cycle u1 + compute_cycles
      in (done, done + tc_mma_completion_tail_latency (tu_config u1),
          u1\<lparr>tu_mma_busy_period_work := total, tu_mma_backend_available_cycle := done,
             tu_next_issue_cycle := (tu_next_issue_cycle u1)
               (TIMING_MMA := cycle + tc_mma_issue_interval (tu_config u1))\<rparr>))"

definition begin_fixed :: "tcgen05_op \<Rightarrow> nat \<Rightarrow> tcgen05_unit \<Rightarrow> nat \<times> nat \<times> tcgen05_unit" where
  "begin_fixed op cycle u =
     (cycle + to_completion_latency op, cycle + to_completion_latency op,
      u\<lparr>tu_next_issue_cycle := (tu_next_issue_cycle u)
           (to_kind op := cycle + to_initiation_interval op)\<rparr>)"

definition push_op :: "pending_op \<Rightarrow> tcgen05_unit \<Rightarrow> tcgen05_unit" where
  "push_op p u =
     (let ops = tu_pending_ops u @ [p]; st = tu_stats u
      in u\<lparr>tu_pending_ops := ops,
           tu_stats := st\<lparr>ts_issued := (ts_issued st)(po_kind p := ts_issued st (po_kind p) + 1),
             ts_max_queue_occupancy := max (ts_max_queue_occupancy st) (length ops)\<rparr>\<rparr>)"

definition enqueue_thread_op ::
    "thread_stream_key \<Rightarrow> tcgen05_op \<Rightarrow> nat \<Rightarrow> tcgen05_unit \<Rightarrow> (nat \<times> tcgen05_unit) option" where
  "enqueue_thread_op stream op cycle u = do {
     cassert (to_kind op = TIMING_MMA \<or> to_kind op = TIMING_CP \<or> to_kind op = TIMING_SHIFT);
     let (ok, u0) = can_enqueue (to_kind op) cycle u;
     cassert ok;
     let seq = sequence_of (tu_thread_next_sequence u0) stream + 1;
     let u1 = u0\<lparr>tu_thread_next_sequence := fmupd stream seq (tu_thread_next_sequence u0)\<rparr>;
     cassert (if to_kind op = TIMING_MMA then 0 < to_work op
              else 0 < to_completion_latency op \<and> 0 < to_initiation_interval op);
     let (done, completion, u2) = (if to_kind op = TIMING_MMA then begin_mma (to_work op) cycle u1
       else begin_fixed op cycle u1);
     Some (seq, push_op \<lparr>po_thread_scoped = True, po_thread_stream = stream,
       po_warp_stream = Warp_Key 0 0, po_kind = to_kind op, po_sequence = seq,
       po_backend_done_cycle = done, po_completion_cycle = completion\<rparr> u2)
   }"

definition enqueue_warp_mem_op ::
    "warp_stream_key \<Rightarrow> tcgen05_op \<Rightarrow> nat \<Rightarrow> tcgen05_unit \<Rightarrow> (nat \<times> tcgen05_unit) option" where
  "enqueue_warp_mem_op stream op cycle u = do {
     cassert (to_kind op = TIMING_LD \<or> to_kind op = TIMING_ST);
     cassert (0 < to_completion_latency op \<and> 0 < to_initiation_interval op);
     let (ok, u0) = can_enqueue (to_kind op) cycle u;
     cassert ok;
     let seq = sequence_of (if to_kind op = TIMING_LD then tu_ld_next_sequence u0
                            else tu_st_next_sequence u0) stream + 1;
     let u1 = (if to_kind op = TIMING_LD
               then u0\<lparr>tu_ld_next_sequence := fmupd stream seq (tu_ld_next_sequence u0)\<rparr>
               else u0\<lparr>tu_st_next_sequence := fmupd stream seq (tu_st_next_sequence u0)\<rparr>);
     let (done, completion, u2) = begin_fixed op cycle u1;
     Some (seq, push_op \<lparr>po_thread_scoped = False, po_thread_stream = Thread_Key 0 0 0 1,
       po_warp_stream = stream, po_kind = to_kind op, po_sequence = seq,
       po_backend_done_cycle = done, po_completion_cycle = completion\<rparr> u2)
   }"

subsection \<open>Commits and waits\<close>

definition thread_cutoff_satisfied :: "thread_stream_key \<Rightarrow> nat \<Rightarrow> tcgen05_unit \<Rightarrow> bool" where
  "thread_cutoff_satisfied stream cutoff u \<longleftrightarrow>
     list_all (\<lambda>p. \<not> (po_thread_scoped p \<and> \<not> po_thread_stream p < stream \<and>
       \<not> stream < po_thread_stream p \<and> po_sequence p \<le> cutoff)) (tu_pending_ops u)"

definition warp_cutoff_satisfied ::
    "warp_stream_key \<Rightarrow> tcgen05_op_kind \<Rightarrow> nat \<Rightarrow> tcgen05_unit \<Rightarrow> bool" where
  "warp_cutoff_satisfied stream kind cutoff u \<longleftrightarrow>
     list_all (\<lambda>p. \<not> (\<not> po_thread_scoped p \<and> po_kind p = kind \<and> \<not> po_warp_stream p < stream \<and>
       \<not> stream < po_warp_stream p \<and> po_sequence p \<le> cutoff)) (tu_pending_ops u)"

definition last_warp_sequence :: "warp_stream_key \<Rightarrow> tcgen05_op_kind \<Rightarrow> tcgen05_unit \<Rightarrow> nat" where
  "last_warp_sequence stream kind u =
     sequence_of (if kind = TIMING_LD then tu_ld_next_sequence u else tu_st_next_sequence u) stream"

definition commit_event :: "pending_commit \<Rightarrow> completion_event" where
  "commit_event c = \<lparr>ce_kind = MBARRIER_ARRIVAL, ce_hw_cta_id = tk_hw_cta_id (pc_stream c),
     ce_warp_id = tk_warp_id (pc_stream c), ce_mbarrier_addr = pc_mbarrier_addr c\<rparr>"

definition wait_event :: "pending_wait \<Rightarrow> completion_event" where
  "wait_event w =
     \<lparr>ce_kind = (if pw_kind w = TIMING_LD then RELEASE_LD_WAIT else RELEASE_ST_WAIT),
      ce_hw_cta_id = wk_hw_cta_id (pw_stream w), ce_warp_id = wk_warp_id (pw_stream w),
      ce_mbarrier_addr = 0\<rparr>"

definition commit_ready :: "tcgen05_unit \<Rightarrow> pending_commit \<Rightarrow> bool" where
  "commit_ready u c \<longleftrightarrow> thread_cutoff_satisfied (pc_stream c) (pc_cutoff c) u"

definition wait_ready :: "tcgen05_unit \<Rightarrow> pending_wait \<Rightarrow> bool" where
  "wait_ready u w \<longleftrightarrow> warp_cutoff_satisfied (pw_stream w) (pw_kind w) (pw_cutoff w) u"

text \<open>The two loops of \<^verbatim>\<open>resolve_controls\<close> erase the satisfied entries in place.\<close>

definition resolve_controls :: "tcgen05_unit \<Rightarrow> tcgen05_unit" where
  "resolve_controls u =
     u\<lparr>tu_completion_events := tu_completion_events u @
         map commit_event (filter (commit_ready u) (tu_pending_commits u)) @
         map wait_event (filter (wait_ready u) (tu_pending_waits u)),
       tu_pending_commits := filter (\<lambda>c. \<not> commit_ready u c) (tu_pending_commits u),
       tu_pending_waits := filter (\<lambda>w. \<not> wait_ready u w) (tu_pending_waits u)\<rparr>"

definition commit :: "thread_stream_key \<Rightarrow> nat \<Rightarrow> tcgen05_unit \<Rightarrow> tcgen05_unit" where
  "commit stream mbarrier_addr u =
     (let cutoff = sequence_of (tu_thread_next_sequence u) stream
      in resolve_controls (u\<lparr>
           tu_thread_next_sequence := fmupd stream cutoff (tu_thread_next_sequence u),
           tu_pending_commits := tu_pending_commits u @
             [\<lparr>pc_stream = stream, pc_cutoff = cutoff, pc_mbarrier_addr = mbarrier_addr\<rparr>]\<rparr>))"

text \<open>\<^verbatim>\<open>wait_ld\<close> and \<^verbatim>\<open>wait_st\<close> differ in the kind only.\<close>

definition wait_on :: "tcgen05_op_kind \<Rightarrow> warp_stream_key \<Rightarrow> tcgen05_unit \<Rightarrow> bool \<times> tcgen05_unit" where
  "wait_on kind stream u =
     (let cutoff = last_warp_sequence stream kind u
      in if warp_cutoff_satisfied stream kind cutoff u then (True, u)
         else (False, u\<lparr>tu_pending_waits := tu_pending_waits u @
                 [\<lparr>pw_stream = stream, pw_kind = kind, pw_cutoff = cutoff\<rparr>]\<rparr>))"

definition wait_ld :: "warp_stream_key \<Rightarrow> tcgen05_unit \<Rightarrow> bool \<times> tcgen05_unit" where
  "wait_ld stream u = wait_on TIMING_LD stream u"

definition wait_st :: "warp_stream_key \<Rightarrow> tcgen05_unit \<Rightarrow> bool \<times> tcgen05_unit" where
  "wait_st stream u = wait_on TIMING_ST stream u"

subsection \<open>Time and clean-up\<close>

definition count_cycle :: "nat \<Rightarrow> tcgen05_unit \<Rightarrow> timing_stats" where
  "count_cycle cycle u =
     (let st = tu_stats u; waits = tu_pending_waits u;
          lds = length (filter (\<lambda>w. pw_kind w = TIMING_LD) waits)
      in st\<lparr>ts_backend_busy_cycles := ts_backend_busy_cycles st +
              (if cycle < tu_mma_backend_available_cycle u then 1 else 0),
            ts_commit_wait_cycles := ts_commit_wait_cycles st + length (tu_pending_commits u),
            ts_ld_wait_cycles := ts_ld_wait_cycles st + lds,
            ts_st_wait_cycles := ts_st_wait_cycles st + (length waits - lds)\<rparr>)"

definition count_completed :: "pending_op list \<Rightarrow> timing_stats \<Rightarrow> timing_stats" where
  "count_completed ops st = st\<lparr>ts_completed := (\<lambda>k. ts_completed st k +
     length (filter (\<lambda>p. po_kind p = k) ops))\<rparr>"

definition unit_cycle :: "nat \<Rightarrow> tcgen05_unit \<Rightarrow> tcgen05_unit" where
  "unit_cycle cycle u =
     resolve_controls (u\<lparr>
       tu_stats := count_completed (filter (\<lambda>p. po_completion_cycle p \<le> cycle) (tu_pending_ops u))
         (count_cycle cycle u),
       tu_pending_ops := filter (\<lambda>p. cycle < po_completion_cycle p) (tu_pending_ops u)\<rparr>)"

definition take_completion_events :: "tcgen05_unit \<Rightarrow> completion_event list \<times> tcgen05_unit" where
  "take_completion_events u = (tu_completion_events u, u\<lparr>tu_completion_events := []\<rparr>)"

definition op_cta :: "pending_op \<Rightarrow> nat" where
  "op_cta p = (if po_thread_scoped p then tk_hw_cta_id (po_thread_stream p)
     else wk_hw_cta_id (po_warp_stream p))"

definition unit_cleanup_cta :: "nat \<Rightarrow> tcgen05_unit \<Rightarrow> tcgen05_unit" where
  "unit_cleanup_cta cta u = u\<lparr>
     tu_pending_ops := filter (\<lambda>p. op_cta p \<noteq> cta) (tu_pending_ops u),
     tu_pending_commits := filter (\<lambda>c. tk_hw_cta_id (pc_stream c) \<noteq> cta) (tu_pending_commits u),
     tu_pending_waits := filter (\<lambda>w. wk_hw_cta_id (pw_stream w) \<noteq> cta) (tu_pending_waits u),
     tu_thread_next_sequence := fmfilter (\<lambda>k. tk_hw_cta_id k \<noteq> cta) (tu_thread_next_sequence u),
     tu_ld_next_sequence := fmfilter (\<lambda>k. wk_hw_cta_id k \<noteq> cta) (tu_ld_next_sequence u),
     tu_st_next_sequence := fmfilter (\<lambda>k. wk_hw_cta_id k \<noteq> cta) (tu_st_next_sequence u)\<rparr>"

definition queue_occupancy :: "tcgen05_unit \<Rightarrow> nat" where
  "queue_occupancy u = length (tu_pending_ops u)"

end
