(* ===== verification/Tcgen05_Refinement.thy ===== *)
theory Tcgen05_Refinement
  imports Tcgen05_Timing
begin

section \<open>What the tcgen05 unit promises\<close>

text \<open>
  The calls of the unit as an observable step function, the specification they implement (a
  commit or wait remembers the set of operations it waits for, instead of a sequence number),
  the simulation between the two, and the closed form of the completion cycles of the MMA
  operations.
\<close>

subsection \<open>Calls\<close>

datatype unit_op =
  Can_Enqueue tcgen05_op_kind nat
  | Enqueue_Thread thread_stream_key tcgen05_op nat
  | Enqueue_Warp warp_stream_key tcgen05_op nat
  | Commit thread_stream_key nat
  | Wait_Ld warp_stream_key
  | Wait_St warp_stream_key
  | Cycle nat
  | Take_Events
  | Cleanup_Cta nat

text \<open>The result of a call; an enqueue also shows the completion cycle it was given.\<close>

datatype unit_result =
  Answer bool
  | Issued nat nat
  | Events "completion_event list"
  | Quiet

definition issued :: "nat \<times> tcgen05_unit \<Rightarrow> unit_result \<times> tcgen05_unit" where
  "issued r = (Issued (fst r) (po_completion_cycle (last (tu_pending_ops (snd r)))), snd r)"

fun unit_step :: "tcgen05_unit \<Rightarrow> unit_op \<Rightarrow> (unit_result \<times> tcgen05_unit) option" where
  "unit_step u (Can_Enqueue k c) = Some (map_prod Answer id (can_enqueue k c u))"
| "unit_step u (Enqueue_Thread s op c) = map_option issued (enqueue_thread_op s op c u)"
| "unit_step u (Enqueue_Warp s op c) = map_option issued (enqueue_warp_mem_op s op c u)"
| "unit_step u (Commit s addr) = Some (Quiet, commit s addr u)"
| "unit_step u (Wait_Ld s) = Some (map_prod Answer id (wait_ld s u))"
| "unit_step u (Wait_St s) = Some (map_prod Answer id (wait_st s u))"
| "unit_step u (Cycle c) = Some (Quiet, unit_cycle c u)"
| "unit_step u Take_Events = Some (map_prod Events id (take_completion_events u))"
| "unit_step u (Cleanup_Cta cta) = Some (Quiet, unit_cleanup_cta cta u)"

subsection \<open>Specification\<close>

datatype owner = Thread thread_stream_key | Ld warp_stream_key | St warp_stream_key

fun owner_cta :: "owner \<Rightarrow> nat" where
  "owner_cta (Thread s) = tk_hw_cta_id s"
| "owner_cta (Ld s) = wk_hw_cta_id s"
| "owner_cta (St s) = wk_hw_cta_id s"

record spec_op =
  sp_id :: nat
  sp_owner :: owner
  sp_done :: nat

record spec_control =
  sc_for :: "nat set"
  sc_owner :: owner
  sc_event :: completion_event

record spec_state =
  ss_fresh :: nat
  ss_ops :: "spec_op list"
  ss_commits :: "spec_control list"
  ss_waits :: "spec_control list"
  ss_events :: "completion_event list"

definition spec_init :: spec_state where
  "spec_init = \<lparr>ss_fresh = 0, ss_ops = [], ss_commits = [], ss_waits = [], ss_events = []\<rparr>"

definition outstanding :: "owner \<Rightarrow> spec_state \<Rightarrow> nat set" where
  "outstanding w a = sp_id ` {p \<in> set (ss_ops a). sp_owner p = w}"

definition unfinished :: "spec_state \<Rightarrow> spec_control \<Rightarrow> bool" where
  "unfinished a c \<longleftrightarrow> sc_for c \<inter> sp_id ` set (ss_ops a) \<noteq> {}"

definition deliver :: "spec_state \<Rightarrow> spec_state" where
  "deliver a = a\<lparr>ss_events := ss_events a @
       map sc_event (filter (\<lambda>c. \<not> unfinished a c) (ss_commits a)) @
       map sc_event (filter (\<lambda>c. \<not> unfinished a c) (ss_waits a)),
     ss_commits := filter (unfinished a) (ss_commits a),
     ss_waits := filter (unfinished a) (ss_waits a)\<rparr>"

definition spec_issue :: "owner \<Rightarrow> nat \<Rightarrow> spec_state \<Rightarrow> spec_state" where
  "spec_issue w done a = a\<lparr>ss_fresh := Suc (ss_fresh a),
     ss_ops := ss_ops a @ [\<lparr>sp_id = ss_fresh a, sp_owner = w, sp_done = done\<rparr>]\<rparr>"

definition spec_wait :: "owner \<Rightarrow> completion_event \<Rightarrow> spec_state \<Rightarrow> spec_state" where
  "spec_wait w e a = a\<lparr>ss_waits := ss_waits a @
     [\<lparr>sc_for = outstanding w a, sc_owner = w, sc_event = e\<rparr>]\<rparr>"

definition release_event :: "event_kind \<Rightarrow> warp_stream_key \<Rightarrow> completion_event" where
  "release_event k s = \<lparr>ce_kind = k, ce_hw_cta_id = wk_hw_cta_id s, ce_warp_id = wk_warp_id s,
     ce_mbarrier_addr = 0\<rparr>"

definition spec_commit :: "thread_stream_key \<Rightarrow> nat \<Rightarrow> spec_state \<Rightarrow> spec_state" where
  "spec_commit s addr a = deliver (a\<lparr>ss_commits := ss_commits a @
     [\<lparr>sc_for = outstanding (Thread s) a, sc_owner = Thread s,
       sc_event = \<lparr>ce_kind = MBARRIER_ARRIVAL, ce_hw_cta_id = tk_hw_cta_id s,
         ce_warp_id = tk_warp_id s, ce_mbarrier_addr = addr\<rparr>\<rparr>]\<rparr>)"

definition spec_cycle :: "nat \<Rightarrow> spec_state \<Rightarrow> spec_state" where
  "spec_cycle c a = deliver (a\<lparr>ss_ops := filter (\<lambda>p. c < sp_done p) (ss_ops a)\<rparr>)"

definition spec_cleanup :: "nat \<Rightarrow> spec_state \<Rightarrow> spec_state" where
  "spec_cleanup cta a = a\<lparr>ss_ops := filter (\<lambda>p. owner_cta (sp_owner p) \<noteq> cta) (ss_ops a),
     ss_commits := filter (\<lambda>c. owner_cta (sc_owner c) \<noteq> cta) (ss_commits a),
     ss_waits := filter (\<lambda>c. owner_cta (sc_owner c) \<noteq> cta) (ss_waits a)\<rparr>"

text \<open>
  Sequence numbers and completion cycles are the implementation's choice. A wait answers true
  exactly when nothing of its kind is outstanding for its warp.
\<close>

inductive spec_step :: "spec_state \<Rightarrow> unit_op \<Rightarrow> unit_result \<Rightarrow> spec_state \<Rightarrow> bool" where
  spec_Can: "spec_step a (Can_Enqueue k c) (Answer b) a"
| spec_Thread: "spec_step a (Enqueue_Thread s op c) (Issued n done) (spec_issue (Thread s) done a)"
| spec_Ld: "to_kind op = TIMING_LD \<Longrightarrow>
    spec_step a (Enqueue_Warp s op c) (Issued n done) (spec_issue (Ld s) done a)"
| spec_St: "to_kind op = TIMING_ST \<Longrightarrow>
    spec_step a (Enqueue_Warp s op c) (Issued n done) (spec_issue (St s) done a)"
| spec_Commit: "spec_step a (Commit s addr) Quiet (spec_commit s addr a)"
| spec_Ld_free: "outstanding (Ld s) a = {} \<Longrightarrow> spec_step a (Wait_Ld s) (Answer True) a"
| spec_Ld_wait: "outstanding (Ld s) a \<noteq> {} \<Longrightarrow>
    spec_step a (Wait_Ld s) (Answer False) (spec_wait (Ld s) (release_event RELEASE_LD_WAIT s) a)"
| spec_St_free: "outstanding (St s) a = {} \<Longrightarrow> spec_step a (Wait_St s) (Answer True) a"
| spec_St_wait: "outstanding (St s) a \<noteq> {} \<Longrightarrow>
    spec_step a (Wait_St s) (Answer False) (spec_wait (St s) (release_event RELEASE_ST_WAIT s) a)"
| spec_Cycle: "spec_step a (Cycle c) Quiet (spec_cycle c a)"
| spec_Take: "spec_step a Take_Events (Events (ss_events a)) (a\<lparr>ss_events := []\<rparr>)"
| spec_Cleanup: "spec_step a (Cleanup_Cta cta) Quiet (spec_cleanup cta a)"

subsection \<open>Simulation\<close>

definition owner_of :: "pending_op \<Rightarrow> owner" where
  "owner_of p = (if po_thread_scoped p then Thread (po_thread_stream p)
     else if po_kind p = TIMING_LD then Ld (po_warp_stream p) else St (po_warp_stream p))"

fun next_sequence :: "tcgen05_unit \<Rightarrow> owner \<Rightarrow> nat" where
  "next_sequence u (Thread s) = sequence_of (tu_thread_next_sequence u) s"
| "next_sequence u (Ld s) = sequence_of (tu_ld_next_sequence u) s"
| "next_sequence u (St s) = sequence_of (tu_st_next_sequence u) s"

definition spec_op_of :: "pending_op \<times> nat \<Rightarrow> spec_op" where
  "spec_op_of pi = \<lparr>sp_id = snd pi, sp_owner = owner_of (fst pi), sp_done = po_completion_cycle (fst pi)\<rparr>"

text \<open>
  A control of owner \<open>w\<close> with cutoff \<open>n\<close> waits for the operations of \<open>w\<close> numbered up to \<open>n\<close>,
  among the operations \<open>ps\<close> paired with their identities.
\<close>

definition control_rel ::
    "(pending_op \<times> nat) list \<Rightarrow> nat \<Rightarrow> tcgen05_unit \<Rightarrow> owner \<Rightarrow> nat \<Rightarrow> spec_control \<Rightarrow> bool" where
  "control_rel ps fresh u w n c \<longleftrightarrow> sc_owner c = w \<and> n \<le> next_sequence u w \<and>
     sc_for c \<subseteq> {..<fresh} \<and>
     (\<forall>(p, i) \<in> set ps. i \<in> sc_for c \<longleftrightarrow> owner_of p = w \<and> po_sequence p \<le> n)"

definition commit_rel ::
    "(pending_op \<times> nat) list \<Rightarrow> nat \<Rightarrow> tcgen05_unit \<Rightarrow> pending_commit \<Rightarrow> spec_control \<Rightarrow> bool" where
  "commit_rel ps fresh u c s \<longleftrightarrow>
     control_rel ps fresh u (Thread (pc_stream c)) (pc_cutoff c) s \<and> sc_event s = commit_event c"

definition wait_owner :: "pending_wait \<Rightarrow> owner" where
  "wait_owner w = (if pw_kind w = TIMING_LD then Ld (pw_stream w) else St (pw_stream w))"

definition wait_rel ::
    "(pending_op \<times> nat) list \<Rightarrow> nat \<Rightarrow> tcgen05_unit \<Rightarrow> pending_wait \<Rightarrow> spec_control \<Rightarrow> bool" where
  "wait_rel ps fresh u w s \<longleftrightarrow> (pw_kind w = TIMING_LD \<or> pw_kind w = TIMING_ST) \<and>
     control_rel ps fresh u (wait_owner w) (pw_cutoff w) s \<and> sc_event s = wait_event w"

definition pairs_ok :: "(pending_op \<times> nat) list \<Rightarrow> nat \<Rightarrow> tcgen05_unit \<Rightarrow> bool" where
  "pairs_ok ps fresh u \<longleftrightarrow> distinct (map snd ps) \<and> (\<forall>(p, i) \<in> set ps. i < fresh \<and>
     po_sequence p \<le> next_sequence u (owner_of p) \<and>
     (\<not> po_thread_scoped p \<longrightarrow> po_kind p = TIMING_LD \<or> po_kind p = TIMING_ST))"

definition implements_via :: "(pending_op \<times> nat) list \<Rightarrow> tcgen05_unit \<Rightarrow> spec_state \<Rightarrow> bool" where
  "implements_via ps u a \<longleftrightarrow> tu_pending_ops u = map fst ps \<and> ss_ops a = map spec_op_of ps \<and>
     pairs_ok ps (ss_fresh a) u \<and>
     list_all2 (commit_rel ps (ss_fresh a) u) (tu_pending_commits u) (ss_commits a) \<and>
     list_all2 (wait_rel ps (ss_fresh a) u) (tu_pending_waits u) (ss_waits a) \<and>
     tu_completion_events u = ss_events a"

definition implements :: "tcgen05_unit \<Rightarrow> spec_state \<Rightarrow> bool" where
  "implements u a \<longleftrightarrow> (\<exists>ps. implements_via ps u a)"

lemma thread_blocked:
  "thread_cutoff_satisfied s n u \<longleftrightarrow>
     (\<forall>p \<in> set (tu_pending_ops u). \<not> (owner_of p = Thread s \<and> po_sequence p \<le> n))"
  by (auto simp: thread_cutoff_satisfied_def list_all_iff owner_of_def not_less)

lemma warp_blocked:
  assumes ok: "\<forall>p \<in> set (tu_pending_ops u).
      \<not> po_thread_scoped p \<longrightarrow> po_kind p = TIMING_LD \<or> po_kind p = TIMING_ST"
    and w: "k = TIMING_LD \<and> w = Ld s \<or> k = TIMING_ST \<and> w = St s"
  shows "warp_cutoff_satisfied s k n u \<longleftrightarrow>
     (\<forall>p \<in> set (tu_pending_ops u). \<not> (owner_of p = w \<and> po_sequence p \<le> n))"
proof -
  have same: "owner_of p = w \<longleftrightarrow> \<not> po_thread_scoped p \<and> po_kind p = k \<and> po_warp_stream p = s"
    if "p \<in> set (tu_pending_ops u)" for p
  proof (cases "po_thread_scoped p")
    case False
    with ok that consider "po_kind p = TIMING_LD" | "po_kind p = TIMING_ST" by blast
    then show ?thesis using w False by cases (auto simp: owner_of_def)
  qed (use w in \<open>auto simp: owner_of_def\<close>)
  have eq: "\<not> po_warp_stream p < s \<and> \<not> s < po_warp_stream p \<longleftrightarrow> po_warp_stream p = s" for p
    by (metis less_irrefl not_less_iff_gr_or_eq)
  show ?thesis
    unfolding warp_cutoff_satisfied_def list_all_iff
    by (rule ball_cong [OF refl]) (use same eq in blast)
qed

text \<open>A control is finished exactly when no pending operation blocks it.\<close>

lemma spec_ids: "ss_ops a = map spec_op_of ps \<Longrightarrow> sp_id ` set (ss_ops a) = snd ` set ps"
  by (simp add: spec_op_of_def image_image)

lemma control_relD:
  "control_rel ps fresh u w n c \<Longrightarrow> (p, i) \<in> set ps \<Longrightarrow>
     i \<in> sc_for c \<longleftrightarrow> owner_of p = w \<and> po_sequence p \<le> n"
  unfolding control_rel_def by blast

lemma control_unfinished:
  assumes "ss_ops a = map spec_op_of ps" "control_rel ps fresh u w n c"
  shows "unfinished a c \<longleftrightarrow> (\<exists>p \<in> fst ` set ps. owner_of p = w \<and> po_sequence p \<le> n)"
proof
  assume "unfinished a c"
  then obtain i where "i \<in> sc_for c" "i \<in> snd ` set ps"
    by (auto simp: unfinished_def spec_ids [OF assms(1)])
  then obtain p where "(p, i) \<in> set ps" by auto
  with control_relD [OF assms(2) this] \<open>i \<in> sc_for c\<close>
  show "\<exists>p \<in> fst ` set ps. owner_of p = w \<and> po_sequence p \<le> n" by force
next
  assume "\<exists>p \<in> fst ` set ps. owner_of p = w \<and> po_sequence p \<le> n"
  then obtain p i where "(p, i) \<in> set ps" "owner_of p = w" "po_sequence p \<le> n" by auto
  with control_relD [OF assms(2) this(1)] have "i \<in> sc_for c" "i \<in> snd ` set ps" by force+
  then show "unfinished a c" by (auto simp: unfinished_def spec_ids [OF assms(1)])
qed

text \<open>Delivering the finished controls preserves the relation.\<close>

lemma filter_list_all2:
  assumes "list_all2 R xs ys" "\<And>x y. x \<in> set xs \<Longrightarrow> R x y \<Longrightarrow> P x = Q y"
  shows "list_all2 R (filter P xs) (filter Q ys)"
  using assms by (induction rule: list_all2_induct) auto

lemma map_filter_list_all2:
  assumes "list_all2 R xs ys" "\<And>x y. x \<in> set xs \<Longrightarrow> R x y \<Longrightarrow> P x = Q y \<and> f x = g y"
  shows "map f (filter P xs) = map g (filter Q ys)"
  using assms by (induction rule: list_all2_induct) auto

lemma commit_ready_iff:
  assumes "implements_via ps u a" "commit_rel ps (ss_fresh a) u c s"
  shows "commit_ready u c \<longleftrightarrow> \<not> unfinished a s"
  using assms control_unfinished [of a ps "ss_fresh a" u "Thread (pc_stream c)" "pc_cutoff c" s]
  by (simp add: commit_ready_def thread_blocked implements_via_def commit_rel_def)

lemma wait_ready_iff:
  assumes "implements_via ps u a" "wait_rel ps (ss_fresh a) u w s"
  shows "wait_ready u w \<longleftrightarrow> \<not> unfinished a s"
proof -
  have ops: "tu_pending_ops u = map fst ps" "ss_ops a = map spec_op_of ps"
    and ok: "pairs_ok ps (ss_fresh a) u"
    using assms(1) by (simp_all add: implements_via_def)
  have kinds: "\<forall>p \<in> set (tu_pending_ops u).
      \<not> po_thread_scoped p \<longrightarrow> po_kind p = TIMING_LD \<or> po_kind p = TIMING_ST"
    using ok by (auto simp: ops pairs_ok_def)
  have w: "pw_kind w = TIMING_LD \<and> wait_owner w = Ld (pw_stream w) \<or>
      pw_kind w = TIMING_ST \<and> wait_owner w = St (pw_stream w)"
    and rel: "control_rel ps (ss_fresh a) u (wait_owner w) (pw_cutoff w) s"
    using assms(2) by (auto simp: wait_rel_def wait_owner_def)
  show ?thesis
    using control_unfinished [OF ops(2) rel]
    by (simp add: wait_ready_def warp_blocked [OF kinds w] ops)
qed

lemma control_rel_weaken:
  assumes "control_rel ps fresh u w n c" "set ps' \<subseteq> set ps" "fresh \<le> fresh'"
    and "next_sequence u w \<le> next_sequence u' w"
  shows "control_rel ps' fresh' u' w n c"
  using assms unfolding control_rel_def
  by (auto 0 3 dest: lessThan_subset_iff [THEN iffD2])

lemma commit_rel_weaken:
  assumes "commit_rel ps fresh u c s" "set ps' \<subseteq> set ps" "fresh \<le> fresh'"
    and "next_sequence u (Thread (pc_stream c)) \<le> next_sequence u' (Thread (pc_stream c))"
  shows "commit_rel ps' fresh' u' c s"
  using assms unfolding commit_rel_def by (blast intro: control_rel_weaken)

lemma wait_rel_weaken:
  assumes "wait_rel ps fresh u w s" "set ps' \<subseteq> set ps" "fresh \<le> fresh'"
    and "next_sequence u (wait_owner w) \<le> next_sequence u' (wait_owner w)"
  shows "wait_rel ps' fresh' u' w s"
  using assms unfolding wait_rel_def by (blast intro: control_rel_weaken)

lemma resolve_fields [simp]:
  "tu_pending_ops (resolve_controls u) = tu_pending_ops u"
  "next_sequence (resolve_controls u) w = next_sequence u w"
  by (simp_all add: resolve_controls_def) (cases w, simp_all)

lemma pairs_ok_cong:
  "(\<And>w. next_sequence u' w = next_sequence u w) \<Longrightarrow> pairs_ok ps fresh u' = pairs_ok ps fresh u"
  by (simp add: pairs_ok_def)

lemma deliver_implements:
  assumes "implements_via ps u a"
  shows "implements_via ps (resolve_controls u) (deliver a)"
proof -
  note f = assms [unfolded implements_via_def]
  have c: "list_all2 (commit_rel ps (ss_fresh a) u) (tu_pending_commits u) (ss_commits a)"
    and w: "list_all2 (wait_rel ps (ss_fresh a) u) (tu_pending_waits u) (ss_waits a)"
    using f by blast+
  have "list_all2 (commit_rel ps (ss_fresh a) u)
      (filter (\<lambda>c. \<not> commit_ready u c) (tu_pending_commits u)) (filter (unfinished a) (ss_commits a))"
    by (rule filter_list_all2 [OF c]) (simp add: commit_ready_iff [OF assms])
  then have c': "list_all2 (commit_rel ps (ss_fresh a) (resolve_controls u))
      (filter (\<lambda>c. \<not> commit_ready u c) (tu_pending_commits u)) (filter (unfinished a) (ss_commits a))"
    by (rule list_all2_mono) (erule commit_rel_weaken; simp del: next_sequence.simps)
  have "list_all2 (wait_rel ps (ss_fresh a) u)
      (filter (\<lambda>w. \<not> wait_ready u w) (tu_pending_waits u)) (filter (unfinished a) (ss_waits a))"
    by (rule filter_list_all2 [OF w]) (simp add: wait_ready_iff [OF assms])
  then have w': "list_all2 (wait_rel ps (ss_fresh a) (resolve_controls u))
      (filter (\<lambda>w. \<not> wait_ready u w) (tu_pending_waits u)) (filter (unfinished a) (ss_waits a))"
    by (rule list_all2_mono) (erule wait_rel_weaken; simp)
  have ec: "map commit_event (filter (commit_ready u) (tu_pending_commits u)) =
      map sc_event (filter (\<lambda>c. \<not> unfinished a c) (ss_commits a))"
    by (rule map_filter_list_all2 [OF c]) (simp add: commit_ready_iff [OF assms] commit_rel_def)
  have ew: "map wait_event (filter (wait_ready u) (tu_pending_waits u)) =
      map sc_event (filter (\<lambda>c. \<not> unfinished a c) (ss_waits a))"
    by (rule map_filter_list_all2 [OF w]) (simp add: wait_ready_iff [OF assms] wait_rel_def)
  have fields: "tu_pending_commits (resolve_controls u) = filter (\<lambda>c. \<not> commit_ready u c) (tu_pending_commits u)"
    "tu_pending_waits (resolve_controls u) = filter (\<lambda>w. \<not> wait_ready u w) (tu_pending_waits u)"
    "tu_completion_events (resolve_controls u) = tu_completion_events u @
       map commit_event (filter (commit_ready u) (tu_pending_commits u)) @
       map wait_event (filter (wait_ready u) (tu_pending_waits u))"
    by (simp_all add: resolve_controls_def)
  show ?thesis
    using f c' w' pairs_ok_cong [of "resolve_controls u" u]
    by (simp add: implements_via_def deliver_def fields ec ew)
qed

text \<open>One operation more, of owner \<open>w\<close>.\<close>

lemma issue_implements:
  assumes R: "implements_via ps u a"
    and "owner_of p = w" "po_sequence p = next_sequence u w + 1"
    and "\<not> po_thread_scoped p \<longrightarrow> po_kind p = TIMING_LD \<or> po_kind p = TIMING_ST"
    and ops: "tu_pending_ops u' = tu_pending_ops u @ [p]"
    and seq: "\<And>v. next_sequence u' v = (if v = w then next_sequence u w + 1 else next_sequence u v)"
    and same: "tu_pending_commits u' = tu_pending_commits u" "tu_pending_waits u' = tu_pending_waits u"
      "tu_completion_events u' = tu_completion_events u"
  shows "implements_via (ps @ [(p, ss_fresh a)]) u' (spec_issue w (po_completion_cycle p) a)"
proof -
  note f = R [unfolded implements_via_def]
  have mono: "next_sequence u v \<le> next_sequence u' v" for v by (simp add: seq)
  have control: "control_rel (ps @ [(p, ss_fresh a)]) (Suc (ss_fresh a)) u' v n c"
    if "control_rel ps (ss_fresh a) u v n c" for v n c
  proof -
    have c: "sc_owner c = v" "n \<le> next_sequence u v" "sc_for c \<subseteq> {..<ss_fresh a}"
      using that unfolding control_rel_def by blast+
    have "ss_fresh a \<notin> sc_for c" using c(3) by auto
    moreover have "\<not> (owner_of p = v \<and> po_sequence p \<le> n)" using assms(2,3) c(2) by auto
    ultimately show ?thesis
      using that mono [of v] c unfolding control_rel_def by fastforce
  qed
  have "pairs_ok ps (ss_fresh a) u" using f by blast
  then have "pairs_ok (ps @ [(p, ss_fresh a)]) (Suc (ss_fresh a)) u'"
    using assms(2,3,4) mono unfolding pairs_ok_def
    by (fastforce simp: seq intro: less_SucI le_trans)
  moreover have "list_all2 (commit_rel (ps @ [(p, ss_fresh a)]) (Suc (ss_fresh a)) u')
      (tu_pending_commits u) (ss_commits a)"
    using f by (auto simp: commit_rel_def control elim!: list_all2_mono)
  moreover have "list_all2 (wait_rel (ps @ [(p, ss_fresh a)]) (Suc (ss_fresh a)) u')
      (tu_pending_waits u) (ss_waits a)"
    using f by (auto simp: wait_rel_def control elim!: list_all2_mono)
  ultimately show ?thesis
    using f assms(2) by (simp add: implements_via_def ops same spec_issue_def spec_op_of_def)
qed

text \<open>The set a new control waits for is what is outstanding for its owner.\<close>

lemma outstanding_iff:
  assumes "ss_ops a = map spec_op_of ps" "pairs_ok ps fresh u" "(p, i) \<in> set ps"
  shows "i \<in> outstanding w a \<longleftrightarrow> owner_of p = w"
proof
  assume "i \<in> outstanding w a"
  then obtain q where q: "(q, i) \<in> set ps" "owner_of q = w"
    using assms(1) by (auto simp: outstanding_def spec_op_of_def)
  from assms(2) have "distinct (map snd ps)" unfolding pairs_ok_def by blast
  with q(1) assms(3) have "q = p" by (metis Pair_inject distinct_map inj_onD snd_conv)
  with q(2) show "owner_of p = w" by simp
next
  assume "owner_of p = w"
  with assms(3) show "i \<in> outstanding w a"
    by (force simp: outstanding_def assms(1) spec_op_of_def image_iff)
qed

lemma new_control:
  assumes "implements_via ps u a" "sc_owner c = w" "sc_for c = outstanding w a"
    and "\<And>v. next_sequence u' v = next_sequence u v"
  shows "control_rel ps (ss_fresh a) u' w (next_sequence u w) c"
proof -
  have ops: "ss_ops a = map spec_op_of ps" and ok: "pairs_ok ps (ss_fresh a) u"
    using assms(1) unfolding implements_via_def by blast+
  have "outstanding w a \<subseteq> {..<ss_fresh a}"
    using ok by (auto simp: outstanding_def ops spec_op_of_def pairs_ok_def)
  moreover have "po_sequence p \<le> next_sequence u w" if "(p, i) \<in> set ps" "owner_of p = w" for p i
    using ok that unfolding pairs_ok_def by blast
  ultimately show ?thesis
    using assms(2-4) outstanding_iff [OF ops ok] unfolding control_rel_def by auto
qed

lemma outstanding_empty:
  assumes "implements_via ps u a"
  shows "outstanding w a = {} \<longleftrightarrow>
    (\<forall>p \<in> set (tu_pending_ops u). \<not> (owner_of p = w \<and> po_sequence p \<le> next_sequence u w))"
proof -
  have ops: "tu_pending_ops u = map fst ps" "ss_ops a = map spec_op_of ps"
    and ok: "pairs_ok ps (ss_fresh a) u"
    using assms unfolding implements_via_def by blast+
  have "outstanding w a = {} \<longleftrightarrow> (\<forall>p \<in> set (tu_pending_ops u). owner_of p \<noteq> w)"
    by (auto simp: outstanding_def ops spec_op_of_def)
  moreover have "po_sequence p \<le> next_sequence u (owner_of p)" if "p \<in> set (tu_pending_ops u)" for p
    using ok that by (auto simp: ops pairs_ok_def)
  ultimately show ?thesis by auto
qed

text \<open>Operations leave: by completion, or with their CTA.\<close>

lemma leave_implements:
  assumes R: "implements_via ps u a"
    and ops: "tu_pending_ops u' = filter P (tu_pending_ops u)"
    and sops: "ss_ops a' = filter Q (ss_ops a)" "\<And>p i. P p = Q (spec_op_of (p, i))"
    and ok: "pairs_ok (filter (P \<circ> fst) ps) (ss_fresh a) u'" and fresh: "ss_fresh a' = ss_fresh a"
    and cs: "list_all2 (commit_rel ps (ss_fresh a) u') (tu_pending_commits u') (ss_commits a')"
    and ws: "list_all2 (wait_rel ps (ss_fresh a) u') (tu_pending_waits u') (ss_waits a')"
    and ev: "tu_completion_events u' = ss_events a'"
  shows "implements_via (filter (P \<circ> fst) ps) u' a'"
proof -
  note f = R [unfolded implements_via_def]
  have sub: "set (filter (P \<circ> fst) ps) \<subseteq> set ps" by auto
  have "list_all2 (commit_rel (filter (P \<circ> fst) ps) (ss_fresh a) u') (tu_pending_commits u') (ss_commits a')"
    using cs by (rule list_all2_mono) (erule commit_rel_weaken [OF _ sub]; simp)
  moreover have "list_all2 (wait_rel (filter (P \<circ> fst) ps) (ss_fresh a) u') (tu_pending_waits u') (ss_waits a')"
    using ws by (rule list_all2_mono) (erule wait_rel_weaken [OF _ sub]; simp)
  moreover have "filter (Q \<circ> spec_op_of) ps = filter (P \<circ> fst) ps"
    by (rule filter_cong) (auto simp: sops(2) [symmetric])
  ultimately show ?thesis
    using f ok by (simp add: implements_via_def ops sops(1) fresh ev filter_map)
qed

subsection \<open>Every call is simulated\<close>

lemma rels_cong:
  assumes "\<And>v. next_sequence u' v = next_sequence u v"
  shows "commit_rel ps fresh u' = commit_rel ps fresh u" "wait_rel ps fresh u' = wait_rel ps fresh u"
  by (intro ext, simp add: commit_rel_def wait_rel_def control_rel_def assms del: next_sequence.simps)+

lemma implements_cong:
  assumes "implements_via ps u a" "tu_pending_ops u' = tu_pending_ops u"
    "tu_pending_commits u' = tu_pending_commits u" "tu_pending_waits u' = tu_pending_waits u"
    "tu_completion_events u' = tu_completion_events u"
    "\<And>v. next_sequence u' v = next_sequence u v"
  shows "implements_via ps u' a"
  using assms pairs_ok_cong [of u' u]
  by (simp add: implements_via_def rels_cong [OF assms(6)] del: next_sequence.simps)

lemma sequence_of_upd: "sequence_of (fmupd k n m) j = (if j = k then n else sequence_of m j)"
  by (simp add: sequence_of_def)

lemma can_enqueue_fields:
  "tu_pending_ops (snd (can_enqueue k c u)) = tu_pending_ops u"
  "tu_pending_commits (snd (can_enqueue k c u)) = tu_pending_commits u"
  "tu_pending_waits (snd (can_enqueue k c u)) = tu_pending_waits u"
  "tu_completion_events (snd (can_enqueue k c u)) = tu_completion_events u"
  "next_sequence (snd (can_enqueue k c u)) w = next_sequence u w"
  by (simp_all add: can_enqueue_def) (cases w, simp_all)

lemma begin_fields:
  assumes "begin_mma work c u = (d, e, u') \<or> begin_fixed op c u = (d, e, u')"
  shows "tu_pending_ops u' = tu_pending_ops u" "tu_pending_commits u' = tu_pending_commits u"
    "tu_pending_waits u' = tu_pending_waits u" "tu_completion_events u' = tu_completion_events u"
    "tu_thread_next_sequence u' = tu_thread_next_sequence u"
    "tu_ld_next_sequence u' = tu_ld_next_sequence u" "tu_st_next_sequence u' = tu_st_next_sequence u"
  using assms by (auto simp: begin_mma_def begin_fixed_def Let_def)

lemma push_fields:
  "tu_pending_ops (push_op p u) = tu_pending_ops u @ [p]"
  "tu_pending_commits (push_op p u) = tu_pending_commits u"
  "tu_pending_waits (push_op p u) = tu_pending_waits u"
  "tu_completion_events (push_op p u) = tu_completion_events u"
  "next_sequence (push_op p u) w = next_sequence u w"
  by (simp_all add: push_op_def Let_def) (cases w, simp_all)

text \<open>What an accepted operation adds to the queue.\<close>

lemma enqueue_thread_effect:
  assumes "enqueue_thread_op s op c u = Some (n, u')"
  shows "\<exists>p. tu_pending_ops u' = tu_pending_ops u @ [p] \<and> owner_of p = Thread s \<and>
    po_sequence p = next_sequence u (Thread s) + 1 \<and> po_thread_scoped p \<and>
    (\<forall>v. next_sequence u' v = (if v = Thread s then next_sequence u v + 1 else next_sequence u v)) \<and>
    tu_pending_commits u' = tu_pending_commits u \<and> tu_pending_waits u' = tu_pending_waits u \<and>
    tu_completion_events u' = tu_completion_events u"
proof -
  obtain ok u0 where c: "can_enqueue (to_kind op) c u = (ok, u0)" by fastforce
  define m where "m = sequence_of (tu_thread_next_sequence u0) s + 1"
  define u1 where "u1 = u0\<lparr>tu_thread_next_sequence := fmupd s m (tu_thread_next_sequence u0)\<rparr>"
  obtain d e u2 where b: "(if to_kind op = TIMING_MMA then begin_mma (to_work op) c u1
      else begin_fixed op c u1) = (d, e, u2)" by (metis prod_cases3)
  have u0: "tu_pending_ops u0 = tu_pending_ops u" "tu_pending_commits u0 = tu_pending_commits u"
    "tu_pending_waits u0 = tu_pending_waits u" "tu_completion_events u0 = tu_completion_events u"
    "next_sequence u0 w = next_sequence u w" for w
    using can_enqueue_fields [of "to_kind op" c u] by (simp_all add: c del: next_sequence.simps)
  from b have "begin_mma (to_work op) c u1 = (d, e, u2) \<or> begin_fixed op c u1 = (d, e, u2)"
    by (auto split: if_splits)
  note u2 = begin_fields [OF this]
  define p where "p = \<lparr>po_thread_scoped = True, po_thread_stream = s,
       po_warp_stream = Warp_Key 0 0, po_kind = to_kind op, po_sequence = m,
       po_backend_done_cycle = d, po_completion_cycle = e\<rparr>"
  have "u' = push_op p u2"
    using assms c b by (auto simp: enqueue_thread_op_def Let_def m_def u1_def p_def bind_eq_Some_conv)
  moreover have "next_sequence u2 v = (if v = Thread s then next_sequence u v + 1 else next_sequence u v)" for v
    using u0(5) [of v] by (cases v) (auto simp: u2 u1_def m_def sequence_of_upd)
  moreover have "m = next_sequence u (Thread s) + 1"
    using u0(5) [of "Thread s"] by (simp add: m_def)
  moreover have "owner_of p = Thread s" "po_sequence p = m" "po_thread_scoped p"
    by (simp_all add: p_def owner_of_def)
  moreover have "tu_pending_ops u1 = tu_pending_ops u" "tu_pending_commits u1 = tu_pending_commits u"
    "tu_pending_waits u1 = tu_pending_waits u" "tu_completion_events u1 = tu_completion_events u"
    by (simp_all add: u1_def u0)
  ultimately show ?thesis
    by (intro exI [of _ p]) (simp add: push_fields u2 del: next_sequence.simps)
qed

fun warp_owner :: "tcgen05_op_kind \<Rightarrow> warp_stream_key \<Rightarrow> owner" where
  "warp_owner TIMING_LD s = Ld s"
| "warp_owner _ s = St s"

lemma enqueue_warp_effect:
  assumes "enqueue_warp_mem_op s op c u = Some (n, u')"
  shows "(to_kind op = TIMING_LD \<or> to_kind op = TIMING_ST) \<and>
   (\<exists>p. tu_pending_ops u' = tu_pending_ops u @ [p] \<and> owner_of p = warp_owner (to_kind op) s \<and>
    po_sequence p = next_sequence u (warp_owner (to_kind op) s) + 1 \<and>
    (po_kind p = TIMING_LD \<or> po_kind p = TIMING_ST) \<and>
    (\<forall>v. next_sequence u' v = (if v = warp_owner (to_kind op) s then next_sequence u v + 1
      else next_sequence u v)) \<and>
    tu_pending_commits u' = tu_pending_commits u \<and> tu_pending_waits u' = tu_pending_waits u \<and>
    tu_completion_events u' = tu_completion_events u)"
proof -
  let ?w = "warp_owner (to_kind op) s"
  have kind: "to_kind op = TIMING_LD \<or> to_kind op = TIMING_ST"
    using assms by (simp add: enqueue_warp_mem_op_def)
  obtain ok u0 where c: "can_enqueue (to_kind op) c u = (ok, u0)" by fastforce
  define m where "m = next_sequence u0 ?w + 1"
  define u1 where "u1 = (if to_kind op = TIMING_LD
     then u0\<lparr>tu_ld_next_sequence := fmupd s m (tu_ld_next_sequence u0)\<rparr>
     else u0\<lparr>tu_st_next_sequence := fmupd s m (tu_st_next_sequence u0)\<rparr>)"
  obtain d e u2 where b: "begin_fixed op c u1 = (d, e, u2)" by (metis prod_cases3)
  have u0: "tu_pending_ops u0 = tu_pending_ops u" "tu_pending_commits u0 = tu_pending_commits u"
    "tu_pending_waits u0 = tu_pending_waits u" "tu_completion_events u0 = tu_completion_events u"
    "next_sequence u0 w = next_sequence u w" for w
    using can_enqueue_fields [of "to_kind op" c u] by (simp_all add: c del: next_sequence.simps)
  note u2 = begin_fields [OF disjI2, OF b]
  define p where "p = \<lparr>po_thread_scoped = False, po_thread_stream = Thread_Key 0 0 0 1,
       po_warp_stream = s, po_kind = to_kind op, po_sequence = m,
       po_backend_done_cycle = d, po_completion_cycle = e\<rparr>"
  have "u' = push_op p u2"
    using kind
  proof
    assume "to_kind op = TIMING_LD"
    with assms c b show ?thesis
      by (clarsimp simp: enqueue_warp_mem_op_def Let_def m_def u1_def p_def bind_eq_Some_conv)
  next
    assume "to_kind op = TIMING_ST"
    with assms c b show ?thesis
      by (clarsimp simp: enqueue_warp_mem_op_def Let_def m_def u1_def p_def bind_eq_Some_conv)
  qed
  moreover have "next_sequence u2 v = (if v = ?w then next_sequence u v + 1 else next_sequence u v)" for v
    using kind u0(5) [of v]
    by (elim disjE; cases v; simp add: u2 u1_def m_def sequence_of_upd) auto
  moreover have "m = next_sequence u ?w + 1"
    using u0(5) [of ?w] by (simp add: m_def del: next_sequence.simps)
  moreover have "owner_of p = ?w" "po_sequence p = m" "po_kind p = TIMING_LD \<or> po_kind p = TIMING_ST"
    using kind by (elim disjE; simp add: p_def owner_of_def)+
  moreover have "tu_pending_ops u1 = tu_pending_ops u" "tu_pending_commits u1 = tu_pending_commits u"
    "tu_pending_waits u1 = tu_pending_waits u" "tu_completion_events u1 = tu_completion_events u"
    by (simp_all add: u1_def u0)
  ultimately show ?thesis
    by (intro conjI kind exI [of _ p]) (simp_all add: push_fields u2 del: next_sequence.simps)
qed

lemma thread_simulated:
  assumes "implements_via ps u a" "enqueue_thread_op s op c u = Some (n, u')"
  shows "\<exists>ps' done. po_completion_cycle (last (tu_pending_ops u')) = done \<and>
    implements_via ps' u' (spec_issue (Thread s) done a)"
proof -
  from enqueue_thread_effect [OF assms(2)] obtain p where
    p: "tu_pending_ops u' = tu_pending_ops u @ [p]" "owner_of p = Thread s"
      "po_sequence p = next_sequence u (Thread s) + 1" "po_thread_scoped p"
      "\<And>v. next_sequence u' v = (if v = Thread s then next_sequence u (Thread s) + 1 else next_sequence u v)"
      "tu_pending_commits u' = tu_pending_commits u" "tu_pending_waits u' = tu_pending_waits u"
      "tu_completion_events u' = tu_completion_events u" by auto
  have "implements_via (ps @ [(p, ss_fresh a)]) u' (spec_issue (Thread s) (po_completion_cycle p) a)"
    using issue_implements [OF assms(1) p(2,3) _ p(1,5,6,7,8)] p(4) by simp
  with p(1) show ?thesis by auto
qed

lemma warp_simulated:
  assumes "implements_via ps u a" "enqueue_warp_mem_op s op c u = Some (n, u')"
  shows "(to_kind op = TIMING_LD \<or> to_kind op = TIMING_ST) \<and>
    (\<exists>ps' done. po_completion_cycle (last (tu_pending_ops u')) = done \<and>
      implements_via ps' u' (spec_issue (warp_owner (to_kind op) s) done a))"
proof -
  let ?w = "warp_owner (to_kind op) s"
  from enqueue_warp_effect [OF assms(2)] obtain p where kind: "to_kind op = TIMING_LD \<or> to_kind op = TIMING_ST"
    and p: "tu_pending_ops u' = tu_pending_ops u @ [p]" "owner_of p = ?w"
      "po_sequence p = next_sequence u ?w + 1" "po_kind p = TIMING_LD \<or> po_kind p = TIMING_ST"
      "\<And>v. next_sequence u' v = (if v = ?w then next_sequence u ?w + 1 else next_sequence u v)"
      "tu_pending_commits u' = tu_pending_commits u" "tu_pending_waits u' = tu_pending_waits u"
      "tu_completion_events u' = tu_completion_events u" by auto
  have "implements_via (ps @ [(p, ss_fresh a)]) u' (spec_issue ?w (po_completion_cycle p) a)"
    using issue_implements [OF assms(1) p(2,3) _ p(1,5,6,7,8)] p(4) by simp
  with p(1) kind show ?thesis by auto
qed

lemma commit_simulated:
  assumes "implements_via ps u a"
  shows "implements_via ps (commit s addr u) (spec_commit s addr a)"
proof -
  let ?n = "sequence_of (tu_thread_next_sequence u) s"
  let ?c = "\<lparr>pc_stream = s, pc_cutoff = ?n, pc_mbarrier_addr = addr\<rparr>"
  let ?u = "u\<lparr>tu_thread_next_sequence := fmupd s ?n (tu_thread_next_sequence u),
    tu_pending_commits := tu_pending_commits u @ [?c]\<rparr>"
  let ?d = "\<lparr>sc_for = outstanding (Thread s) a, sc_owner = Thread s,
       sc_event = \<lparr>ce_kind = MBARRIER_ARRIVAL, ce_hw_cta_id = tk_hw_cta_id s,
         ce_warp_id = tk_warp_id s, ce_mbarrier_addr = addr\<rparr>\<rparr>"
  let ?a = "a\<lparr>ss_commits := ss_commits a @ [?d]\<rparr>"
  note f = assms [unfolded implements_via_def]
  have seq: "next_sequence ?u v = next_sequence u v" for v
    by (cases v) (simp_all add: sequence_of_upd)
  have "control_rel ps (ss_fresh a) ?u (Thread s) (next_sequence u (Thread s)) ?d"
    by (rule new_control [OF assms _ _ seq]) simp_all
  then have "commit_rel ps (ss_fresh a) ?u ?c ?d"
    by (simp add: commit_rel_def commit_event_def)
  moreover have "list_all2 (commit_rel ps (ss_fresh a) ?u) (tu_pending_commits u) (ss_commits a)"
    using f by (auto elim!: list_all2_mono commit_rel_weaken simp: seq simp del: next_sequence.simps)
  moreover have "list_all2 (wait_rel ps (ss_fresh a) ?u) (tu_pending_waits u) (ss_waits a)"
    using f by (auto elim!: list_all2_mono wait_rel_weaken simp: seq simp del: next_sequence.simps)
  ultimately have "implements_via ps ?u ?a"
    using f pairs_ok_cong [OF seq] by (simp add: implements_via_def list_all2_appendI)
  then show ?thesis
    unfolding commit_def spec_commit_def Let_def by (rule deliver_implements)
qed

lemma wait_simulated:
  assumes R: "implements_via ps u a"
    and k: "k = TIMING_LD \<and> w = Ld s \<and> ek = RELEASE_LD_WAIT \<or>
      k = TIMING_ST \<and> w = St s \<and> ek = RELEASE_ST_WAIT"
  shows "if outstanding w a = {} then wait_on k s u = (True, u)
    else \<exists>u'. wait_on k s u = (False, u') \<and> implements_via ps u' (spec_wait w (release_event ek s) a)"
proof -
  note f = R [unfolded implements_via_def]
  have kinds: "\<forall>p \<in> set (tu_pending_ops u).
      \<not> po_thread_scoped p \<longrightarrow> po_kind p = TIMING_LD \<or> po_kind p = TIMING_ST"
    using f by (auto simp: pairs_ok_def)
  have last: "last_warp_sequence s k u = next_sequence u w"
    using k by (auto simp: last_warp_sequence_def)
  have kw: "k = TIMING_LD \<and> w = Ld s \<or> k = TIMING_ST \<and> w = St s" using k by blast
  have free: "warp_cutoff_satisfied s k (next_sequence u w) u \<longleftrightarrow> outstanding w a = {}"
    by (simp add: warp_blocked [OF kinds kw] outstanding_empty [OF R])
  show ?thesis
  proof (cases "outstanding w a = {}")
    case True
    then show ?thesis by (simp add: wait_on_def last free)
  next
    case False
    let ?x = "\<lparr>pw_stream = s, pw_kind = k, pw_cutoff = next_sequence u w\<rparr>"
    let ?d = "\<lparr>sc_for = outstanding w a, sc_owner = w, sc_event = release_event ek s\<rparr>"
    let ?u = "u\<lparr>tu_pending_waits := tu_pending_waits u @ [?x]\<rparr>"
    let ?a = "spec_wait w (release_event ek s) a"
    have seq: "next_sequence ?u v = next_sequence u v" for v by (cases v) simp_all
    have "control_rel ps (ss_fresh a) ?u w (next_sequence u w) ?d"
      by (rule new_control [OF R _ _ seq]) simp_all
    moreover have "wait_owner ?x = w" "wait_event ?x = release_event ek s" "k = TIMING_LD \<or> k = TIMING_ST"
      using k by (auto simp: wait_owner_def wait_event_def release_event_def)
    ultimately have "wait_rel ps (ss_fresh a) ?u ?x ?d"
      by (simp add: wait_rel_def)
    moreover have "list_all2 (wait_rel ps (ss_fresh a) ?u) (tu_pending_waits u) (ss_waits a)"
      using f by (auto elim!: list_all2_mono wait_rel_weaken simp: seq simp del: next_sequence.simps)
    moreover have "list_all2 (commit_rel ps (ss_fresh a) ?u) (tu_pending_commits u) (ss_commits a)"
      using f by (auto elim!: list_all2_mono commit_rel_weaken simp: seq simp del: next_sequence.simps)
    ultimately have "implements_via ps ?u ?a"
      using f pairs_ok_cong [OF seq] by (simp add: implements_via_def spec_wait_def list_all2_appendI)
    with False show ?thesis by (simp add: wait_on_def last free Let_def)
  qed
qed

lemma pairs_ok_filter:
  assumes "pairs_ok ps fresh u" "\<And>p i. (p, i) \<in> set ps \<Longrightarrow> P p \<Longrightarrow>
    next_sequence u' (owner_of p) = next_sequence u (owner_of p)"
  shows "pairs_ok (filter (P \<circ> fst) ps) fresh u'"
  using assms unfolding pairs_ok_def by (auto simp: distinct_map_filter)

lemma cycle_simulated:
  assumes "implements_via ps u a"
  shows "\<exists>ps'. implements_via ps' (unit_cycle c u) (spec_cycle c a)"
proof -
  let ?u = "u\<lparr>tu_stats := count_completed (filter (\<lambda>p. po_completion_cycle p \<le> c) (tu_pending_ops u))
        (count_cycle c u),
      tu_pending_ops := filter (\<lambda>p. c < po_completion_cycle p) (tu_pending_ops u)\<rparr>"
  let ?a = "a\<lparr>ss_ops := filter (\<lambda>p. c < sp_done p) (ss_ops a)\<rparr>"
  let ?ps = "filter ((\<lambda>p. c < po_completion_cycle p) \<circ> fst) ps"
  note f = assms [unfolded implements_via_def]
  have seq: "next_sequence ?u v = next_sequence u v" for v by (cases v) simp_all
  have "implements_via ?ps ?u ?a"
  proof (rule leave_implements [OF assms, where Q = "\<lambda>p. c < sp_done p"])
    show "pairs_ok ?ps (ss_fresh a) ?u"
      using f by (blast intro: pairs_ok_filter seq)
    show "list_all2 (commit_rel ps (ss_fresh a) ?u) (tu_pending_commits ?u) (ss_commits ?a)"
      unfolding rels_cong [OF seq] using f by simp
    show "list_all2 (wait_rel ps (ss_fresh a) ?u) (tu_pending_waits ?u) (ss_waits ?a)"
      unfolding rels_cong [OF seq] using f by simp
  qed (use f in \<open>simp_all add: spec_op_of_def\<close>)
  from deliver_implements [OF this] show ?thesis
    unfolding unit_cycle_def spec_cycle_def by blast
qed

lemma sequence_of_filter: "P k \<Longrightarrow> sequence_of (fmfilter P m) k = sequence_of m k"
  by (simp add: sequence_of_def)

lemma cleanup_simulated:
  assumes "implements_via ps u a"
  shows "\<exists>ps'. implements_via ps' (unit_cleanup_cta cta u) (spec_cleanup cta a)"
proof -
  let ?u = "unit_cleanup_cta cta u" and ?a = "spec_cleanup cta a"
  let ?ps = "filter ((\<lambda>p. op_cta p \<noteq> cta) \<circ> fst) ps"
  note f = assms [unfolded implements_via_def]
  have cta: "owner_cta (owner_of p) = op_cta p" for p by (simp add: owner_of_def op_cta_def)
  have seq: "next_sequence ?u v = next_sequence u v" if "owner_cta v \<noteq> cta" for v
    using that by (cases v) (simp_all add: unit_cleanup_cta_def sequence_of_filter)
  have kept: "c \<in> set (tu_pending_commits ?u) \<Longrightarrow> tk_hw_cta_id (pc_stream c) \<noteq> cta"
    "w \<in> set (tu_pending_waits ?u) \<Longrightarrow> owner_cta (wait_owner w) \<noteq> cta" for c w
    by (simp_all add: unit_cleanup_cta_def wait_owner_def split: if_splits)
  have "implements_via ?ps ?u ?a"
  proof (rule leave_implements [OF assms, where Q = "\<lambda>p. owner_cta (sp_owner p) \<noteq> cta"])
    show "pairs_ok ?ps (ss_fresh a) ?u"
      using f by (auto intro!: pairs_ok_filter seq simp: cta)
    have "list_all2 (commit_rel ps (ss_fresh a) u) (tu_pending_commits ?u) (ss_commits ?a)"
      using f unfolding unit_cleanup_cta_def spec_cleanup_def
      by (auto intro!: filter_list_all2 simp: commit_rel_def control_rel_def)
    then show "list_all2 (commit_rel ps (ss_fresh a) ?u) (tu_pending_commits ?u) (ss_commits ?a)"
      by (rule list.rel_mono_strong)
        (auto elim!: commit_rel_weaken simp: seq kept simp del: next_sequence.simps)
    have "list_all2 (wait_rel ps (ss_fresh a) u) (tu_pending_waits ?u) (ss_waits ?a)"
      using f unfolding unit_cleanup_cta_def spec_cleanup_def
      by (auto intro!: filter_list_all2 simp: wait_rel_def control_rel_def wait_owner_def)
    then show "list_all2 (wait_rel ps (ss_fresh a) ?u) (tu_pending_waits ?u) (ss_waits ?a)"
      by (rule list.rel_mono_strong)
        (auto elim!: wait_rel_weaken simp: seq kept simp del: next_sequence.simps)
  qed (use f in \<open>simp_all add: spec_op_of_def unit_cleanup_cta_def spec_cleanup_def cta\<close>)
  then show ?thesis by blast
qed

lemma unit_step_simulated:
  assumes "implements u a" "unit_step u x = Some (r, u')"
  shows "\<exists>b. spec_step a x r b \<and> implements u' b"
proof -
  from assms(1) obtain ps where ps: "implements_via ps u a" unfolding implements_def by blast
  show ?thesis
  proof (cases x)
    case (Can_Enqueue k c)
    with assms(2) have r: "r = Answer (fst (can_enqueue k c u))" and u': "u' = snd (can_enqueue k c u)"
      by (simp_all add: prod_eq_iff)
    have "implements_via ps u' a"
      unfolding u' by (rule implements_cong [OF ps]) (simp_all only: can_enqueue_fields)
    then show ?thesis by (auto simp: Can_Enqueue r implements_def intro: spec_step.intros)
  next
    case (Enqueue_Thread s op c)
    with assms(2) obtain n where e: "enqueue_thread_op s op c u = Some (n, u')"
      and r: "r = Issued n (po_completion_cycle (last (tu_pending_ops u')))"
      by (auto simp: issued_def)
    from thread_simulated [OF ps e] show ?thesis
      by (auto simp: Enqueue_Thread r implements_def intro: spec_step.intros)
  next
    case (Enqueue_Warp s op c)
    with assms(2) obtain n where e: "enqueue_warp_mem_op s op c u = Some (n, u')"
      and r: "r = Issued n (po_completion_cycle (last (tu_pending_ops u')))"
      by (auto simp: issued_def)
    from warp_simulated [OF ps e] obtain ps' where
      kind: "to_kind op = TIMING_LD \<or> to_kind op = TIMING_ST"
      and R: "implements_via ps' u' (spec_issue (warp_owner (to_kind op) s)
        (po_completion_cycle (last (tu_pending_ops u'))) a)" by blast
    have "spec_step a (Enqueue_Warp s op c) r (spec_issue (warp_owner (to_kind op) s)
        (po_completion_cycle (last (tu_pending_ops u'))) a)"
      using kind unfolding r by (elim disjE) (simp_all add: spec_Ld spec_St)
    with R show ?thesis unfolding Enqueue_Warp implements_def by blast
  next
    case (Commit s addr)
    with assms(2) commit_simulated [OF ps, of s addr] show ?thesis
      by (auto simp: implements_def intro: spec_step.intros)
  next
    case (Wait_Ld s)
    with assms(2) have r: "r = Answer (fst (wait_on TIMING_LD s u))" "u' = snd (wait_on TIMING_LD s u)"
      by (simp_all add: wait_ld_def prod_eq_iff)
    note w = wait_simulated [OF ps, of TIMING_LD "Ld s" s RELEASE_LD_WAIT]
    show ?thesis
    proof (cases "outstanding (Ld s) a = {}")
      case True
      with w r ps spec_Ld_free [OF True] show ?thesis by (auto simp: Wait_Ld implements_def)
    next
      case False
      with w r spec_Ld_wait [OF False] show ?thesis by (auto simp: Wait_Ld implements_def)
    qed
  next
    case (Wait_St s)
    with assms(2) have r: "r = Answer (fst (wait_on TIMING_ST s u))" "u' = snd (wait_on TIMING_ST s u)"
      by (simp_all add: wait_st_def prod_eq_iff)
    note w = wait_simulated [OF ps, of TIMING_ST "St s" s RELEASE_ST_WAIT]
    show ?thesis
    proof (cases "outstanding (St s) a = {}")
      case True
      with w r ps spec_St_free [OF True] show ?thesis by (auto simp: Wait_St implements_def)
    next
      case False
      with w r spec_St_wait [OF False] show ?thesis by (auto simp: Wait_St implements_def)
    qed
  next
    case (Cycle c)
    with assms(2) cycle_simulated [OF ps, of c] show ?thesis
      by (auto simp: implements_def intro: spec_step.intros)
  next
    case Take_Events
    with assms(2) have r: "r = Events (tu_completion_events u)"
      and u': "u' = u\<lparr>tu_completion_events := []\<rparr>" by (simp_all add: take_completion_events_def)
    have seq: "next_sequence u' v = next_sequence u v" for v by (cases v) (simp_all add: u')
    have ev: "tu_completion_events u = ss_events a" using ps unfolding implements_via_def by blast
    have "implements_via ps u' (a\<lparr>ss_events := []\<rparr>)"
      using ps pairs_ok_cong [OF seq] rels_cong [OF seq]
      by (simp add: implements_via_def) (simp add: u')
    then show ?thesis by (auto simp: Take_Events r ev implements_def intro: spec_step.intros)
  next
    case (Cleanup_Cta cta)
    with assms(2) cleanup_simulated [OF ps, of cta] show ?thesis
      by (auto simp: implements_def intro: spec_step.intros)
  qed
qed

interpretation tcgen05_run: simulation unit_step spec_step implements
  by unfold_locales (rule unit_step_simulated)

lemma unit_new_implements:
  assumes "unit_new cfg = Some u0"
  shows "implements u0 spec_init"
proof -
  have "implements_via [] u0 spec_init"
    using assms by (auto simp: unit_new_def implements_via_def spec_init_def pairs_ok_def)
  then show ?thesis by (auto simp: implements_def)
qed

subsection \<open>Property\<close>

definition sample_timing :: timing_config where
  "sample_timing = \<lparr>tc_mma_issue_interval = 2, tc_mma_completion_tail_latency = 5,
     tc_mma_f16_flops_per_cycle = 10, tc_async_queue_depth = 4\<rparr>"

definition sample_mma :: tcgen05_op where
  "sample_mma = \<lparr>to_kind = TIMING_MMA, to_work = 25, to_completion_latency = 1,
     to_initiation_interval = 1\<rparr>"

definition sample_ld :: tcgen05_op where
  "sample_ld = \<lparr>to_kind = TIMING_LD, to_work = 0, to_completion_latency = 8,
     to_initiation_interval = 1\<rparr>"

definition sample_unit_calls :: "unit_op list" where
  "sample_unit_calls = [Enqueue_Thread (Thread_Key 0 1 0 1) sample_mma 10,
     Commit (Thread_Key 0 1 0 1) 64, Enqueue_Warp (Warp_Key 0 2) sample_ld 11,
     Wait_Ld (Warp_Key 0 2), Enqueue_Thread (Thread_Key 0 1 0 1) sample_mma 12]"

text \<open>The commit does not wait for the second operation.\<close>

definition sample_commit_calls :: "unit_op list" where
  "sample_commit_calls = [Enqueue_Thread (Thread_Key 0 1 0 1) sample_mma 10,
     Commit (Thread_Key 0 1 0 1) 64, Enqueue_Thread (Thread_Key 0 1 0 1) sample_mma 12,
     Cycle 18, Take_Events]"

lemmas unit_eval = unit_new_def sample_timing_def sample_mma_def sample_ld_def sample_unit_calls_def
  sample_commit_calls_def
  timing_stats_init_def enqueue_thread_op_def enqueue_warp_mem_op_def can_enqueue_def begin_mma_def
  begin_fixed_def push_op_def issued_def commit_def resolve_controls_def commit_ready_def
  wait_ready_def thread_cutoff_satisfied_def warp_cutoff_satisfied_def sequence_of_def
  less_thread_stream_key_def less_warp_stream_key_def unit_cycle_def count_cycle_def
  count_completed_def wait_ld_def wait_st_def wait_on_def last_warp_sequence_def
  take_completion_events_def commit_event_def wait_event_def unit_cleanup_cta_def op_cta_def Let_def

text \<open>
  C9. The unit implements the specification in which every commit and wait remembers the set
  of operations outstanding for its thread or warp: in any sequence of calls, a commit arrives
  at its mbarrier and a blocked wait is released as soon as exactly those operations have
  completed, in the order of their requests, later operations of the same stream
  notwithstanding; a wait answers true exactly when nothing is outstanding; the teardown of a
  CTA drops its operations and requests and no others.
\<close>

theorem tcgen05_refines_outstanding_sets:
  assumes "unit_new cfg = Some u0" and "run_out unit_step u0 calls = Some (results, u)"
  shows "\<exists>a. trace spec_step spec_init calls results a \<and> ss_events a = tu_completion_events u \<and>
    length (ss_ops a) = queue_occupancy u"
proof -
  from tcgen05_run.run_simulated [OF unit_new_implements [OF assms(1)] assms(2)]
  obtain a where "trace spec_step spec_init calls results a" "implements u a" by blast
  then show ?thesis
    by (auto simp: implements_def implements_via_def queue_occupancy_def)
qed

theorem tcgen05_refines_outstanding_sets_witness:
  "\<exists>u0 results u a. unit_new sample_timing = Some u0 \<and>
    run_out unit_step u0 sample_commit_calls = Some (results, u) \<and>
    results ! 4 = Events [\<lparr>ce_kind = MBARRIER_ARRIVAL, ce_hw_cta_id = 0, ce_warp_id = 1,
      ce_mbarrier_addr = 64\<rparr>] \<and> trace spec_step spec_init sample_commit_calls results a"
proof -
  have "\<exists>u0 results u. unit_new sample_timing = Some u0 \<and>
     run_out unit_step u0 sample_commit_calls = Some (results, u) \<and>
       results ! 4 = Events [\<lparr>ce_kind = MBARRIER_ARRIVAL, ce_hw_cta_id = 0, ce_warp_id = 1,
         ce_mbarrier_addr = 64\<rparr>]"
    by (simp add: unit_eval)
  then obtain u0 results u where "unit_new sample_timing = Some u0"
    "run_out unit_step u0 sample_commit_calls = Some (results, u)"
    "results ! 4 = Events [\<lparr>ce_kind = MBARRIER_ARRIVAL, ce_hw_cta_id = 0, ce_warp_id = 1,
      ce_mbarrier_addr = 64\<rparr>]" by blast
  with tcgen05_refines_outstanding_sets [OF this(1,2)] show ?thesis by blast
qed

end
