(* ===== verification/Tcgen05_Backend.thy ===== *)
theory Tcgen05_Backend
  imports Tcgen05_Refinement
begin

section \<open>Timing of the tcgen05 unit\<close>

text \<open>
  The closed form of the completion cycles of the MMA operations, the bound on the operation
  queue and the absence of stuck commits and waits, for every run of the unit of
  \<^verbatim>\<open>src/gpgpu-sim/flash/tcgen05/timing.cc\<close>.
\<close>

subsection \<open>The MMA backend\<close>

text \<open>Work that arrives in cycle \<open>c\<close> cannot be done before \<open>c\<close> plus its share of the rate.\<close>

definition ceil_div :: "nat \<Rightarrow> nat \<Rightarrow> nat" where
  "ceil_div n d = (n + d - 1) div d"

definition work_of :: "(nat \<times> nat) list \<Rightarrow> nat" where
  "work_of xs = sum_list (map snd xs)"

text \<open>
  The completion cycle of the last of the MMA operations \<open>xs\<close>, given as issue cycle and work:
  the latest of the bounds that each suffix of the issues imposes.
\<close>

definition fluid_finish :: "nat \<Rightarrow> (nat \<times> nat) list \<Rightarrow> nat" where
  "fluid_finish rate xs =
     Max ((\<lambda>i. fst (xs ! i) + ceil_div (work_of (drop i xs)) rate) ` {..<length xs})"

lemma ceil_div_mono: "m \<le> n \<Longrightarrow> ceil_div m d \<le> ceil_div n d"
  by (simp add: ceil_div_def div_le_mono)

lemma ceil_div_le_iff: "0 < d \<Longrightarrow> ceil_div n d \<le> k \<longleftrightarrow> n \<le> k * d"
proof -
  assume d: "0 < d"
  have "ceil_div n d \<le> k \<longleftrightarrow> n + d - 1 < (k + 1) * d"
    using d by (simp add: ceil_div_def less_eq_Suc_le [symmetric] div_less_iff_less_mult less_Suc_eq_le
        flip: less_Suc_eq_le)
  also have "\<dots> \<longleftrightarrow> n \<le> k * d" using d by auto
  finally show ?thesis .
qed

lemma ceil_div_ge: "0 < d \<Longrightarrow> n \<le> ceil_div n d * d"
  using ceil_div_le_iff [of d n "ceil_div n d"] by simp

lemma ceil_div_add_le: "0 < d \<Longrightarrow> ceil_div (m + n) d \<le> ceil_div m d + ceil_div n d"
  by (simp add: ceil_div_le_iff add_mult_distrib add_mono ceil_div_ge)

lemma ceil_div_add_ge:
  assumes "0 < d"
  shows "ceil_div m d + ceil_div n d \<le> ceil_div (m + n) d + 1"
proof -
  define k where "k = ceil_div (m + n) d"
  have mn: "m + n \<le> k * d" unfolding k_def by (rule ceil_div_ge [OF assms])
  define a where "a = m div d"
  have a: "a * d \<le> m" "ceil_div m d \<le> a + 1"
    using assms by (simp_all add: a_def ceil_div_le_iff) (metis add.commute dividend_less_div_times less_imp_le)
  have "n \<le> (k - a) * d"
    using mn a(1) by (simp add: diff_mult_distrib)
  then have "ceil_div n d \<le> k - a" using assms by (simp add: ceil_div_le_iff)
  moreover have "a \<le> k"
  proof -
    have "a * d \<le> k * d" using a(1) mn by linarith
    then show ?thesis using assms by simp
  qed
  ultimately show ?thesis using a(2) unfolding k_def by linarith
qed

lemma ceil_div_pos: "0 < d \<Longrightarrow> 0 < n \<Longrightarrow> 1 \<le> ceil_div n d"
  using ceil_div_ge [of d n] by (cases "ceil_div n d") auto

lemma work_split: "i \<le> j \<Longrightarrow> j \<le> length xs \<Longrightarrow>
    work_of (drop i xs) = work_of (drop i (take j xs)) + work_of (drop j xs)"
proof -
  assume "i \<le> j" "j \<le> length xs"
  then have "drop i xs = drop i (take j xs) @ drop j xs"
    by (metis append_take_drop_id diff_is_0_eq drop0 drop_append length_take min.absorb2)
  then show ?thesis by (simp add: work_of_def)
qed

text \<open>
  The busy period of the code starts at issue \<open>k\<close>: everything before is done by its start, and
  every later issue came while the backend was busy.
\<close>

definition busy_period :: "nat \<Rightarrow> (nat \<times> nat) list \<Rightarrow> tcgen05_unit \<Rightarrow> nat \<Rightarrow> bool" where
  "busy_period rate xs u k \<longleftrightarrow> k < length xs \<and>
     tu_mma_busy_period_start_cycle u = fst (xs ! k) \<and>
     tu_mma_busy_period_work u = work_of (drop k xs) \<and>
     tu_mma_backend_available_cycle u = fst (xs ! k) + ceil_div (work_of (drop k xs)) rate \<and>
     (\<forall>i < k. fst (xs ! i) + ceil_div (work_of (drop i (take k xs))) rate \<le> fst (xs ! k)) \<and>
     (\<forall>i < length xs. k < i \<longrightarrow>
        fst (xs ! i) < fst (xs ! k) + ceil_div (work_of (drop k (take i xs))) rate)"

definition backend_ok :: "nat \<Rightarrow> (nat \<times> nat) list \<Rightarrow> tcgen05_unit \<Rightarrow> bool" where
  "backend_ok rate xs u \<longleftrightarrow> (if xs = [] then tu_mma_backend_available_cycle u = 0
     else \<exists>k. busy_period rate xs u k)"

lemma busy_period_finish:
  assumes "0 < rate" "busy_period rate xs u k"
  shows "fluid_finish rate xs = tu_mma_backend_available_cycle u"
    and "\<And>i. i < length xs \<Longrightarrow>
      fst (xs ! i) + ceil_div (work_of (drop i xs)) rate \<le> tu_mma_backend_available_cycle u"
proof -
  note b = assms(2) [unfolded busy_period_def]
  have avail: "tu_mma_backend_available_cycle u = fst (xs ! k) + ceil_div (work_of (drop k xs)) rate"
    using b by blast
  show bound: "fst (xs ! i) + ceil_div (work_of (drop i xs)) rate \<le> tu_mma_backend_available_cycle u"
    if "i < length xs" for i
  proof (cases i k rule: linorder_cases)
    case less
    then have "fst (xs ! i) + ceil_div (work_of (drop i (take k xs))) rate \<le> fst (xs ! k)"
      using b by blast
    moreover have w: "work_of (drop i xs) = work_of (drop i (take k xs)) + work_of (drop k xs)"
      using less b by (intro work_split) auto
    ultimately show ?thesis
      using ceil_div_add_le [OF assms(1), of "work_of (drop i (take k xs))" "work_of (drop k xs)"]
      unfolding w avail by linarith
  next
    case equal
    then show ?thesis using b by simp
  next
    case greater
    then have "fst (xs ! i) < fst (xs ! k) + ceil_div (work_of (drop k (take i xs))) rate"
      using b that by blast
    moreover have w: "work_of (drop k xs) = work_of (drop k (take i xs)) + work_of (drop i xs)"
      using greater that by (intro work_split) auto
    ultimately show ?thesis
      using ceil_div_add_ge [OF assms(1), of "work_of (drop k (take i xs))" "work_of (drop i xs)"]
      unfolding avail w by linarith
  qed
  show "fluid_finish rate xs = tu_mma_backend_available_cycle u"
    unfolding fluid_finish_def
  proof (rule Max_eqI)
    show "tu_mma_backend_available_cycle u
        \<in> (\<lambda>i. fst (xs ! i) + ceil_div (work_of (drop i xs)) rate) ` {..<length xs}"
      using b by (intro image_eqI [of _ _ k]) auto
  qed (auto intro: bound)
qed

lemma begin_mma_period:
  assumes rate: "0 < rate" "tc_mma_f16_flops_per_cycle (tu_config u) = rate" and "0 < work"
    and ok: "backend_ok rate xs u" and b: "begin_mma work c u = (d, e, u')"
  shows "(\<exists>k. busy_period rate (xs @ [(c, work)]) u' k) \<and>
    e = tu_mma_backend_available_cycle u' + tc_mma_completion_tail_latency (tu_config u) \<and>
    tu_config u' = tu_config u"
proof (cases "tu_mma_backend_available_cycle u \<le> c")
  case True
  then have u': "tu_mma_busy_period_start_cycle u' = c" "tu_mma_busy_period_work u' = work"
    "tu_mma_backend_available_cycle u' = c + ceil_div work rate"
    "e = tu_mma_backend_available_cycle u' + tc_mma_completion_tail_latency (tu_config u)"
    "tu_config u' = tu_config u"
    using b rate ceil_div_pos [OF rate(1) \<open>0 < work\<close>]
    by (auto simp: begin_mma_def Let_def ceil_div_def max_def)
  have "fst (xs ! i) + ceil_div (work_of (drop i xs)) rate \<le> c" if "i < length xs" for i
  proof -
    from that have "xs \<noteq> []" by auto
    with ok obtain k where "busy_period rate xs u k" unfolding backend_ok_def by auto
    from busy_period_finish(2) [OF rate(1) this that] True show ?thesis by linarith
  qed
  then have "busy_period rate (xs @ [(c, work)]) u' (length xs)"
    using u' by (simp add: busy_period_def work_of_def nth_append)
  with u' show ?thesis by blast
next
  case False
  then obtain k where k: "busy_period rate xs u k"
    using ok by (auto simp: backend_ok_def split: if_splits)
  note f = k [unfolded busy_period_def]
  have total: "work_of (drop k (xs @ [(c, work)])) = tu_mma_busy_period_work u + work"
    using f by (simp add: work_of_def)
  then have "1 \<le> ceil_div (tu_mma_busy_period_work u + work) rate"
    using ceil_div_pos [OF rate(1)] \<open>0 < work\<close> by simp
  then have u': "tu_mma_busy_period_start_cycle u' = tu_mma_busy_period_start_cycle u"
    "tu_mma_busy_period_work u' = tu_mma_busy_period_work u + work"
    "tu_mma_backend_available_cycle u' = tu_mma_busy_period_start_cycle u +
       ceil_div (tu_mma_busy_period_work u + work) rate"
    "e = tu_mma_backend_available_cycle u' + tc_mma_completion_tail_latency (tu_config u)"
    "tu_config u' = tu_config u"
    using b rate False by (auto simp: begin_mma_def Let_def ceil_div_def max_def)
  have late: "c < fst (xs ! k) + ceil_div (work_of (drop k xs)) rate"
    using f False by linarith
  have "busy_period rate (xs @ [(c, work)]) u' k"
    using f u' total late
    by (auto simp: busy_period_def nth_append less_Suc_eq)
  with u' show ?thesis by blast
qed

fun mma_of :: "unit_op \<Rightarrow> (nat \<times> nat) list" where
  "mma_of (Enqueue_Thread s op c) = (if to_kind op = TIMING_MMA then [(c, to_work op)] else [])"
| "mma_of _ = []"

definition mma_log :: "unit_op list \<Rightarrow> (nat \<times> nat) list" where
  "mma_log calls = concat (map mma_of calls)"

definition same_backend :: "tcgen05_unit \<Rightarrow> tcgen05_unit \<Rightarrow> bool" where
  "same_backend u u' \<longleftrightarrow>
     tu_mma_busy_period_start_cycle u' = tu_mma_busy_period_start_cycle u \<and>
     tu_mma_busy_period_work u' = tu_mma_busy_period_work u \<and>
     tu_mma_backend_available_cycle u' = tu_mma_backend_available_cycle u \<and>
     tu_config u' = tu_config u"

lemma same_backend_ok: "same_backend u u' \<Longrightarrow> backend_ok rate xs u' = backend_ok rate xs u"
  by (simp add: same_backend_def backend_ok_def busy_period_def [abs_def])

lemma same_backend_ops:
  "same_backend u (snd (can_enqueue k c u))"
  "same_backend u (commit s addr u)"
  "same_backend u (snd (wait_on k ws u))"
  "same_backend u (unit_cycle c u)"
  "same_backend u (snd (take_completion_events u))"
  "same_backend u (unit_cleanup_cta cta u)"
  by (simp_all add: same_backend_def can_enqueue_def commit_def resolve_controls_def wait_on_def
      unit_cycle_def take_completion_events_def unit_cleanup_cta_def Let_def)

lemma same_backend_warp:
  "enqueue_warp_mem_op s op c u = Some (n, u') \<Longrightarrow> same_backend u u'"
  using same_backend_ops(1) [of u "to_kind op" c]
  by (auto simp: same_backend_def enqueue_warp_mem_op_def begin_fixed_def push_op_def Let_def
      bind_eq_Some_conv split: prod.splits if_splits)

lemma same_backend_thread:
  "enqueue_thread_op s op c u = Some (n, u') \<Longrightarrow> to_kind op \<noteq> TIMING_MMA \<Longrightarrow> same_backend u u'"
  using same_backend_ops(1) [of u "to_kind op" c]
  by (auto simp: same_backend_def enqueue_thread_op_def begin_fixed_def push_op_def Let_def
      bind_eq_Some_conv split: prod.splits if_splits)

lemma enqueue_mma:
  assumes e: "enqueue_thread_op s op c u = Some (n, u')" and mma: "to_kind op = TIMING_MMA"
    and rate: "0 < rate" "tc_mma_f16_flops_per_cycle (tu_config u) = rate"
    and ok: "backend_ok rate xs u"
  shows "(\<exists>k. busy_period rate (xs @ [(c, to_work op)]) u' k) \<and> tu_config u' = tu_config u \<and>
    po_completion_cycle (last (tu_pending_ops u')) =
      tu_mma_backend_available_cycle u' + tc_mma_completion_tail_latency (tu_config u)"
proof -
  obtain ok' u0 where c: "can_enqueue TIMING_MMA c u = (ok', u0)" by fastforce
  have sb: "same_backend u u0" using same_backend_ops(1) [of u TIMING_MMA c] by (simp add: c)
  define u1 where "u1 = u0\<lparr>tu_thread_next_sequence :=
    fmupd s (sequence_of (tu_thread_next_sequence u0) s + 1) (tu_thread_next_sequence u0)\<rparr>"
  have sb1: "same_backend u u1" using sb by (simp add: same_backend_def u1_def)
  obtain d e u2 where b: "begin_mma (to_work op) c u1 = (d, e, u2)" by (metis prod_cases3)
  from e mma c b obtain p where p: "u' = push_op p u2" "po_completion_cycle p = e" "0 < to_work op"
    by (auto simp: enqueue_thread_op_def Let_def u1_def)
  have r1: "tc_mma_f16_flops_per_cycle (tu_config u1) = rate" and ok1: "backend_ok rate xs u1"
    using rate ok sb1 same_backend_ok [OF sb1] by (simp_all add: same_backend_def)
  from begin_mma_period [OF rate(1) r1 p(3) ok1 b] obtain k where
    "busy_period rate (xs @ [(c, to_work op)]) u2 k" "tu_config u2 = tu_config u1"
    "e = tu_mma_backend_available_cycle u2 + tc_mma_completion_tail_latency (tu_config u1)" by blast
  moreover have "same_backend u2 u'" by (simp add: p same_backend_def push_op_def Let_def)
  ultimately show ?thesis
    using sb1 p by (auto simp: busy_period_def same_backend_def push_fields)
qed

lemma unit_step_backend:
  assumes "unit_step u x = Some (r, u')" "0 < rate"
    and "tc_mma_f16_flops_per_cycle (tu_config u) = rate" "backend_ok rate xs u"
  shows "backend_ok rate (xs @ mma_of x) u' \<and> tu_config u' = tu_config u"
proof (cases "\<exists>s op c. x = Enqueue_Thread s op c \<and> to_kind op = TIMING_MMA")
  case True
  then obtain s op c where x: "x = Enqueue_Thread s op c" "to_kind op = TIMING_MMA" by blast
  with assms(1) obtain n where "enqueue_thread_op s op c u = Some (n, u')" by (auto simp: issued_def)
  from enqueue_mma [OF this x(2) assms(2-4)] x show ?thesis by (auto simp: backend_ok_def)
next
  case False
  have sb: "same_backend u u'"
  proof (cases x)
    case (Enqueue_Thread s op c)
    with assms(1) False show ?thesis by (auto simp: issued_def intro: same_backend_thread)
  next
    case (Enqueue_Warp s op c)
    with assms(1) show ?thesis by (auto simp: issued_def intro: same_backend_warp)
  qed (use assms(1) in \<open>auto simp: wait_ld_def wait_st_def prod_eq_iff intro: same_backend_ops\<close>)
  moreover have "mma_of x = []" using False by (cases x) auto
  ultimately show ?thesis using same_backend_ok [OF sb] assms(4) by (simp add: same_backend_def)
qed

lemma run_backend:
  assumes "run_out unit_step u calls = Some (rs, v)" "0 < rate"
    and "tc_mma_f16_flops_per_cycle (tu_config u) = rate" "backend_ok rate xs u"
  shows "backend_ok rate (xs @ mma_log calls) v \<and> tu_config v = tu_config u"
  using assms
proof (induction calls arbitrary: u xs rs)
  case Nil
  then show ?case by (simp add: mma_log_def)
next
  case (Cons x calls)
  from Cons.prems(1) obtain r u1 rs' where s: "unit_step u x = Some (r, u1)"
    "run_out unit_step u1 calls = Some (rs', v)" by (auto simp: bind_eq_Some_conv)
  from unit_step_backend [OF s(1) Cons.prems(2-4)] Cons.IH [OF s(2) Cons.prems(2), of "xs @ mma_of x"] Cons.prems(3)
  show ?case by (auto simp: mma_log_def)
qed

subsection \<open>Nothing waits for nothing\<close>

definition op_blocks_wait :: "pending_wait \<Rightarrow> pending_op \<Rightarrow> bool" where
  "op_blocks_wait w p \<longleftrightarrow> \<not> po_thread_scoped p \<and> po_kind p = pw_kind w \<and>
     po_warp_stream p = pw_stream w \<and> po_sequence p \<le> pw_cutoff w"

definition op_blocks_commit :: "pending_commit \<Rightarrow> pending_op \<Rightarrow> bool" where
  "op_blocks_commit c p \<longleftrightarrow> po_thread_scoped p \<and> po_thread_stream p = pc_stream c \<and>
     po_sequence p \<le> pc_cutoff c"

lemma ready_iff:
  "commit_ready u c \<longleftrightarrow> (\<forall>p \<in> set (tu_pending_ops u). \<not> op_blocks_commit c p)"
  "wait_ready u w \<longleftrightarrow> (\<forall>p \<in> set (tu_pending_ops u). \<not> op_blocks_wait w p)"
  by (auto simp: commit_ready_def thread_cutoff_satisfied_def op_blocks_commit_def wait_ready_def
      warp_cutoff_satisfied_def op_blocks_wait_def list_all_iff not_less)

definition all_blocked :: "tcgen05_unit \<Rightarrow> bool" where
  "all_blocked u \<longleftrightarrow> (\<forall>c \<in> set (tu_pending_commits u). \<not> commit_ready u c) \<and>
     (\<forall>w \<in> set (tu_pending_waits u). \<not> wait_ready u w)"

definition queue_ok :: "tcgen05_unit \<Rightarrow> bool" where
  "queue_ok u \<longleftrightarrow> tc_async_queue_depth (tu_config u) \<noteq> 0 \<longrightarrow>
     length (tu_pending_ops u) \<le> tc_async_queue_depth (tu_config u)"

lemma resolve_blocked: "all_blocked (resolve_controls u)"
  by (simp add: all_blocked_def ready_iff) (simp add: resolve_controls_def ready_iff)

lemma blocked_mono:
  assumes "all_blocked u" "set (tu_pending_ops u) \<subseteq> set (tu_pending_ops u')"
    "tu_pending_commits u' = tu_pending_commits u" "tu_pending_waits u' = tu_pending_waits u"
  shows "all_blocked u'"
  using assms unfolding all_blocked_def ready_iff by (metis subset_iff)

lemma cleanup_blocked:
  assumes "all_blocked u"
  shows "all_blocked (unit_cleanup_cta cta u)"
  using assms unfolding all_blocked_def ready_iff unit_cleanup_cta_def
  by (auto simp: op_blocks_commit_def op_blocks_wait_def op_cta_def) (metis)+

lemma wait_on_blocked:
  assumes "all_blocked u" "wait_on k s u = (b, u')"
  shows "all_blocked u'"
proof (cases b)
  case True
  with assms show ?thesis by (auto simp: wait_on_def Let_def split: if_splits)
next
  case False
  let ?w = "\<lparr>pw_stream = s, pw_kind = k, pw_cutoff = last_warp_sequence s k u\<rparr>"
  from False assms(2) have u': "u' = u\<lparr>tu_pending_waits := tu_pending_waits u @ [?w]\<rparr>"
    and "\<not> wait_ready u ?w"
    by (auto simp: wait_on_def wait_ready_def Let_def split: if_splits)
  with assms(1) show ?thesis unfolding all_blocked_def ready_iff u' by simp
qed

lemma unit_step_blocked:
  assumes "all_blocked u" "queue_ok u" "unit_step u x = Some (r, u')"
  shows "all_blocked u' \<and> queue_ok u'"
proof (cases x)
  case (Can_Enqueue k c)
  with assms(3) have u': "u' = snd (can_enqueue k c u)" by (simp add: prod_eq_iff)
  with assms blocked_mono [of u u'] same_backend_ops(1) [of u k c] show ?thesis
    by (simp add: can_enqueue_fields queue_ok_def same_backend_def)
next
  case (Enqueue_Thread s op c)
  with assms(3) obtain n where e: "enqueue_thread_op s op c u = Some (n, u')" by (auto simp: issued_def)
  then have "fst (can_enqueue (to_kind op) c u)" "tu_config u' = tu_config u"
    using same_backend_ops(1) [of u "to_kind op" c]
    by (auto simp: enqueue_thread_op_def Let_def bind_eq_Some_conv same_backend_def begin_mma_def
        begin_fixed_def push_op_def split: prod.splits if_splits)
  with enqueue_thread_effect [OF e] assms(1,2) blocked_mono [of u u'] show ?thesis
    by (auto simp: queue_ok_def can_enqueue_def split: if_splits)
next
  case (Enqueue_Warp s op c)
  with assms(3) obtain n where e: "enqueue_warp_mem_op s op c u = Some (n, u')" by (auto simp: issued_def)
  then have "fst (can_enqueue (to_kind op) c u)"
    by (auto simp: enqueue_warp_mem_op_def Let_def bind_eq_Some_conv split: prod.splits)
  moreover have "tu_config u' = tu_config u"
    using same_backend_warp [OF e] by (simp add: same_backend_def)
  ultimately show ?thesis
    using enqueue_warp_effect [OF e] assms(1,2) blocked_mono [of u u']
    by (auto simp: queue_ok_def can_enqueue_def split: if_splits)
next
  case (Commit s addr)
  with assms(3) have u': "u' = commit s addr u" by simp
  have "all_blocked u'" by (simp add: u' commit_def Let_def resolve_blocked)
  moreover have "tu_pending_ops u' = tu_pending_ops u" "tu_config u' = tu_config u"
    using same_backend_ops(2) [of u s addr] by (simp_all add: u' commit_def Let_def same_backend_def)
  ultimately show ?thesis using assms(2) by (simp add: queue_ok_def)
next
  case (Wait_Ld s)
  with assms(3) have w: "wait_on TIMING_LD s u = (fst (wait_on TIMING_LD s u), u')"
    by (simp add: wait_ld_def prod_eq_iff)
  from wait_on_blocked [OF assms(1) w] assms(2) w show ?thesis
    by (auto simp: queue_ok_def wait_on_def Let_def split: if_splits)
next
  case (Wait_St s)
  with assms(3) have w: "wait_on TIMING_ST s u = (fst (wait_on TIMING_ST s u), u')"
    by (simp add: wait_st_def prod_eq_iff)
  from wait_on_blocked [OF assms(1) w] assms(2) w show ?thesis
    by (auto simp: queue_ok_def wait_on_def Let_def split: if_splits)
next
  case (Cycle c)
  with assms(3) have u': "u' = unit_cycle c u" by simp
  have "all_blocked u'" by (simp add: u' unit_cycle_def resolve_blocked)
  moreover have "length (tu_pending_ops u') \<le> length (tu_pending_ops u)" "tu_config u' = tu_config u"
    using same_backend_ops(4) [of u c] by (simp_all add: u' unit_cycle_def same_backend_def)
  ultimately show ?thesis using assms(2) by (auto simp: queue_ok_def)
next
  case Take_Events
  with assms blocked_mono [of u u'] show ?thesis
    by (auto simp: take_completion_events_def queue_ok_def)
next
  case (Cleanup_Cta cta)
  with assms cleanup_blocked [OF assms(1), of cta] show ?thesis
    by (auto simp: queue_ok_def unit_cleanup_cta_def intro: le_trans [OF length_filter_le])
qed

lemma unit_step_config:
  assumes "unit_step u x = Some (r, u')"
  shows "tu_config u' = tu_config u"
proof (cases x)
  case (Enqueue_Thread s op c)
  with assms same_backend_ops(1) [of u "to_kind op" c] show ?thesis
    by (auto simp: issued_def enqueue_thread_op_def Let_def bind_eq_Some_conv same_backend_def
        begin_mma_def begin_fixed_def push_op_def split: prod.splits if_splits)
next
  case (Enqueue_Warp s op c)
  with assms same_backend_warp show ?thesis by (auto simp: issued_def same_backend_def)
qed (use assms in \<open>auto simp: wait_ld_def wait_st_def prod_eq_iff
    intro: same_backend_ops [unfolded same_backend_def, THEN conjunct2, THEN conjunct2, THEN conjunct2]\<close>)

lemma run_blocked:
  assumes "all_blocked u" "queue_ok u" "run_out unit_step u calls = Some (rs, v)"
  shows "all_blocked v \<and> queue_ok v \<and> tu_config v = tu_config u"
  using assms
proof (induction calls arbitrary: u rs)
  case (Cons x calls)
  from Cons.prems(3) obtain r u1 rs' where s: "unit_step u x = Some (r, u1)"
    "run_out unit_step u1 calls = Some (rs', v)" by (auto simp: bind_eq_Some_conv)
  from unit_step_blocked [OF Cons.prems(1,2) s(1)] Cons.IH [OF _ _ s(2)]
    unit_step_config [OF s(1)] show ?case by simp
qed simp

subsection \<open>Properties\<close>

text \<open>
  C15. The MMA backend is an ideal fluid server: the operation issued in cycle \<open>c\<close> completes,
  before the fixed tail latency, at the maximum over the operations up to it of the cycle in
  which that one was issued plus the time the rate needs for the work issued from it on. No
  cycle is lost to rounding between back-to-back operations, and none of the bandwidth
  is used twice.
\<close>

theorem mma_backend_is_fluid_server:
  assumes "unit_new cfg = Some u0" and "run_out unit_step u0 calls = Some (results, u)"
    and "unit_step u (Enqueue_Thread s op c) = Some (Issued n completion, u')"
    and "to_kind op = TIMING_MMA"
  shows "completion = fluid_finish (tc_mma_f16_flops_per_cycle cfg) (mma_log calls @ [(c, to_work op)]) +
    tc_mma_completion_tail_latency cfg"
proof -
  let ?rate = "tc_mma_f16_flops_per_cycle cfg"
  have init: "0 < ?rate" "tu_config u0 = cfg" "backend_ok ?rate [] u0"
    using assms(1) by (auto simp: unit_new_def backend_ok_def)
  with run_backend [OF assms(2) init(1), of "[]"] have u: "backend_ok ?rate (mma_log calls) u"
    "tu_config u = cfg" by simp_all
  from assms(3) have e: "enqueue_thread_op s op c u = Some (n, u')"
    and completion: "completion = po_completion_cycle (last (tu_pending_ops u'))"
    by (auto simp: issued_def)
  from enqueue_mma [OF e assms(4) init(1) _ u(1)] u(2) busy_period_finish(1) [OF init(1)]
  show ?thesis by (auto simp: completion)
qed

theorem mma_backend_is_fluid_server_witness:
  "\<exists>u0 u u'. unit_new sample_timing = Some u0 \<and>
    run_out unit_step u0 (sample_unit_calls) = Some ([Issued 1 18, Quiet, Issued 1 19,
      Answer False, Issued 2 20], u) \<and>
    unit_step u (Enqueue_Thread (Thread_Key 1 3 0 1) sample_mma 14) = Some (Issued 1 23, u') \<and>
    23 = fluid_finish 10 [(10, 25), (12, 25), (14, 25)] + 5"
proof -
  have "\<exists>u0 u u'. unit_new sample_timing = Some u0 \<and>
     run_out unit_step u0 (sample_unit_calls) = Some ([Issued 1 18, Quiet, Issued 1 19,
       Answer False, Issued 2 20], u) \<and>
     unit_step u (Enqueue_Thread (Thread_Key 1 3 0 1) sample_mma 14) = Some (Issued 1 23, u')"
    by (simp add: unit_eval)
  then obtain u0 u u' where u: "unit_new sample_timing = Some u0"
    "run_out unit_step u0 (sample_unit_calls) =
       Some ([Issued 1 18, Quiet, Issued 1 19, Answer False, Issued 2 20], u)"
    "unit_step u (Enqueue_Thread (Thread_Key 1 3 0 1) sample_mma 14) = Some (Issued 1 23, u')" by blast
  have "to_kind sample_mma = TIMING_MMA" by (simp add: sample_mma_def)
  from mma_backend_is_fluid_server [OF u this] u show ?thesis
    by (simp add: sample_timing_def mma_log_def sample_unit_calls_def sample_mma_def sample_ld_def
        del: unit_step.simps)
qed

text \<open>
  C34. Nothing waits for nothing: in every reachable state each pending commit and wait is
  blocked by an operation still in the queue, the queue respects its configured depth, and the
  first cycle by which all its operations have completed empties the queue and delivers one
  event for every pending commit and wait, in order.
\<close>

theorem tcgen05_controls_drain:
  assumes "unit_new cfg = Some u0" and "run_out unit_step u0 calls = Some (results, u)"
  shows "(\<forall>c \<in> set (tu_pending_commits u). \<exists>p \<in> set (tu_pending_ops u). op_blocks_commit c p) \<and>
    (\<forall>w \<in> set (tu_pending_waits u). \<exists>p \<in> set (tu_pending_ops u). op_blocks_wait w p) \<and>
    (tc_async_queue_depth cfg \<noteq> 0 \<longrightarrow> queue_occupancy u \<le> tc_async_queue_depth cfg) \<and>
    ((\<forall>p \<in> set (tu_pending_ops u). po_completion_cycle p \<le> t) \<longrightarrow>
      tu_pending_ops (unit_cycle t u) = [] \<and> tu_pending_commits (unit_cycle t u) = [] \<and>
      tu_pending_waits (unit_cycle t u) = [] \<and>
      tu_completion_events (unit_cycle t u) = tu_completion_events u @
        map commit_event (tu_pending_commits u) @ map wait_event (tu_pending_waits u))"
proof -
  have "all_blocked u0" "queue_ok u0" "tu_config u0 = cfg"
    using assms(1) by (auto simp: unit_new_def all_blocked_def queue_ok_def)
  with run_blocked [OF _ _ assms(2)] have u: "all_blocked u" "queue_ok u" "tu_config u = cfg"
    by simp_all
  have drain: "unit_cycle t u = u\<lparr>tu_stats := count_completed (tu_pending_ops u) (count_cycle t u),
      tu_pending_ops := [], tu_completion_events := tu_completion_events u @
        map commit_event (tu_pending_commits u) @ map wait_event (tu_pending_waits u),
      tu_pending_commits := [], tu_pending_waits := []\<rparr>"
    if finished: "\<forall>p \<in> set (tu_pending_ops u). po_completion_cycle p \<le> t"
  proof -
    have f: "filter (\<lambda>p. t < po_completion_cycle p) (tu_pending_ops u) = []"
      "filter (\<lambda>p. po_completion_cycle p \<le> t) (tu_pending_ops u) = tu_pending_ops u"
      using finished by (auto simp: filter_empty_conv not_less)
    show ?thesis
      unfolding unit_cycle_def f resolve_controls_def by (simp add: ready_iff)
  qed
  show ?thesis
    using u drain unfolding all_blocked_def ready_iff queue_ok_def queue_occupancy_def by simp
qed

theorem tcgen05_controls_drain_witness:
  "\<exists>u0 results u. unit_new sample_timing = Some u0 \<and>
    run_out unit_step u0 (sample_unit_calls) = Some (results, u) \<and>
    length (tu_pending_commits u) = 1 \<and> length (tu_pending_waits u) = 1 \<and>
    tu_pending_commits (unit_cycle 20 u) = [] \<and> tu_pending_waits (unit_cycle 20 u) = [] \<and>
    length (tu_completion_events (unit_cycle 20 u)) = 2"
proof -
  have "\<exists>u0 results u. unit_new sample_timing = Some u0 \<and>
     run_out unit_step u0 (sample_unit_calls) = Some (results, u) \<and>
       length (tu_pending_commits u) = 1 \<and> length (tu_pending_waits u) = 1 \<and>
       tu_completion_events u = [] \<and> (\<forall>p \<in> set (tu_pending_ops u). po_completion_cycle p \<le> 20)"
    by (simp add: unit_eval)
  then obtain u0 results u where u: "unit_new sample_timing = Some u0"
    "run_out unit_step u0 (sample_unit_calls) = Some (results, u)"
    "length (tu_pending_commits u) = 1" "length (tu_pending_waits u) = 1"
    "tu_completion_events u = []" "\<forall>p \<in> set (tu_pending_ops u). po_completion_cycle p \<le> 20" by blast
  from tcgen05_controls_drain [OF u(1,2), of 20] u show ?thesis by auto
qed

end
