(* ===== verification/Tmem.thy ===== *)
theory Tmem
  imports Prelude "HOL-Library.Finite_Map"
begin

section \<open>Tensor memory\<close>

text \<open>
  Models \<^verbatim>\<open>src/gpgpu-sim/flash/tcgen05/tmem.h\<close> and \<^verbatim>\<open>tmem.cc\<close>: the tensor memory of each
  scope (SM, CTA, CTA group), its column allocator and the word and matrix accesses. Addresses
  and words are 32-bit words; the numbers of words, rows and columns of an access are \<open>nat\<close>,
  for accesses of fewer than \<open>2^32\<close> words. The spin lock makes every operation atomic. The
  two \<^verbatim>\<open>find\<close> functions return a pointer which their callers only test: here a truth value.
\<close>

subsection \<open>Addresses\<close>

record tmem_address =
  ta_lane :: u32
  ta_column :: u32

definition kTmemColumnMask :: u32 where "kTmemColumnMask = 0xffff"
definition kTmemColumnCount :: u32 where "kTmemColumnCount = kTmemColumnMask + 1"
definition kTmemMinAllocColumns :: u32 where "kTmemMinAllocColumns = 32"
definition kTmemMaxAllocColumns :: u32 where "kTmemMaxAllocColumns = 512"
definition kTmemLaneMask :: u32 where "kTmemLaneMask = 0xffff"
definition kTmemLaneShift :: nat where "kTmemLaneShift = 16"

definition is_power_of_two :: "u32 \<Rightarrow> bool" where
  "is_power_of_two v \<longleftrightarrow> v \<noteq> 0 \<and> v AND (v - 1) = 0"

definition decode_tmem_address :: "u32 \<Rightarrow> tmem_address" where
  "decode_tmem_address a =
     \<lparr>ta_lane = drop_bit kTmemLaneShift a, ta_column = a AND kTmemColumnMask\<rparr>"

definition encode_tmem_address :: "u32 \<Rightarrow> u32 \<Rightarrow> u32 option" where
  "encode_tmem_address lane column = do {
     cassert (lane \<le> kTmemLaneMask);
     cassert (column \<le> kTmemColumnMask);
     Some (push_bit kTmemLaneShift lane OR column)
   }"

subsection \<open>State\<close>

record tmem_scope =
  tsc_sm_id :: nat
  tsc_cta_id :: nat
  tsc_cta_group :: nat

record allocation =
  al_base :: u32
  al_ncols :: u32

record scope_state =
  tss_next_base :: u32
  tss_last_allocation_ncols :: u32
  tss_permit_relinquished :: bool
  tss_allocations :: "(u32, allocation) fmap"
  tss_retired_allocations :: "(u32, allocation) fmap"
  tss_words :: "(u32, u32) fmap"

type_synonym tmem = "(tmem_scope, scope_state) fmap"

definition scope_state_init :: scope_state where
  "scope_state_init = \<lparr>tss_next_base = 0, tss_last_allocation_ncols = 0,
     tss_permit_relinquished = False, tss_allocations = fmempty,
     tss_retired_allocations = fmempty, tss_words = fmempty\<rparr>"

definition get_or_create_scope :: "tmem_scope \<Rightarrow> tmem \<Rightarrow> scope_state" where
  "get_or_create_scope sc m = (case fmlookup m sc of None \<Rightarrow> scope_state_init | Some s \<Rightarrow> s)"

definition find_scope :: "tmem_scope \<Rightarrow> tmem \<Rightarrow> scope_state option" where
  "find_scope sc m = fmlookup m sc"

subsection \<open>Allocation\<close>

definition alloc :: "tmem_scope \<Rightarrow> u32 \<Rightarrow> tmem \<Rightarrow> (u32 \<times> tmem) option" where
  "alloc sc ncols m = do {
     let s = get_or_create_scope sc m;
     cassert (\<not> tss_permit_relinquished s);
     cassert (kTmemMinAllocColumns \<le> ncols \<and> ncols \<le> kTmemMaxAllocColumns);
     cassert (is_power_of_two ncols);
     cassert (tss_last_allocation_ncols s = 0 \<or> ncols \<le> tss_last_allocation_ncols s);
     cassert (tss_next_base s \<le> kTmemColumnCount - ncols);
     let base = tss_next_base s;
     cassert (fmlookup (tss_allocations s) base = None);
     Some (base, fmupd sc (s\<lparr>tss_next_base := base + ncols, tss_last_allocation_ncols := ncols,
       tss_allocations := fmupd base \<lparr>al_base = base, al_ncols = ncols\<rparr> (tss_allocations s)\<rparr>) m)
   }"

definition dealloc :: "tmem_scope \<Rightarrow> u32 \<Rightarrow> u32 \<Rightarrow> tmem \<Rightarrow> tmem option" where
  "dealloc sc base ncols m = do {
     let s = get_or_create_scope sc m;
     cassert (kTmemMinAllocColumns \<le> ncols \<and> ncols \<le> kTmemMaxAllocColumns);
     cassert (is_power_of_two ncols);
     let base_column = ta_column (decode_tmem_address base);
     a \<leftarrow> fmlookup (tss_allocations s) base_column;
     cassert (al_ncols a = ncols);
     Some (fmupd sc (s\<lparr>
       tss_retired_allocations := fmupd base_column a (tss_retired_allocations s),
       tss_allocations := fmdrop base_column (tss_allocations s)\<rparr>) m)
   }"

definition relinquish_alloc_permit :: "tmem_scope \<Rightarrow> tmem \<Rightarrow> tmem" where
  "relinquish_alloc_permit sc m =
     fmupd sc ((get_or_create_scope sc m)\<lparr>tss_permit_relinquished := True\<rparr>) m"

definition permit_relinquished :: "tmem_scope \<Rightarrow> tmem \<Rightarrow> bool" where
  "permit_relinquished sc m =
     (case find_scope sc m of None \<Rightarrow> False | Some s \<Rightarrow> tss_permit_relinquished s)"

definition has_allocation :: "tmem_scope \<Rightarrow> u32 \<Rightarrow> tmem \<Rightarrow> bool" where
  "has_allocation sc base m = (case find_scope sc m of None \<Rightarrow> False
     | Some s \<Rightarrow> fmlookup (tss_allocations s) (ta_column (decode_tmem_address base)) \<noteq> None)"

definition allocation_count :: "tmem_scope \<Rightarrow> tmem \<Rightarrow> nat" where
  "allocation_count sc m = (case find_scope sc m of None \<Rightarrow> 0
     | Some s \<Rightarrow> fcard (fmdom (tss_allocations s)))"

text \<open>The columns of an access lie in one allocation of the table.\<close>

definition covers :: "allocation \<Rightarrow> nat \<Rightarrow> nat \<Rightarrow> bool" where
  "covers a lo hi \<longleftrightarrow> unat (al_base a) \<le> lo \<and> hi \<le> unat (al_base a) + unat (al_ncols a)"

definition range_in :: "(u32, allocation) fmap \<Rightarrow> u32 \<Rightarrow> nat \<Rightarrow> bool" where
  "range_in table address nwords =
     (if nwords = 0 then False
      else let lo = unat (ta_column (decode_tmem_address address)); hi = lo + nwords
           in if unat kTmemColumnCount < hi then False
              else fBex (fmdom table) (\<lambda>k. case fmlookup table k of None \<Rightarrow> False
                     | Some a \<Rightarrow> covers a lo hi))"

definition find_allocation_containing :: "scope_state \<Rightarrow> u32 \<Rightarrow> nat \<Rightarrow> bool" where
  "find_allocation_containing s address nwords = range_in (tss_allocations s) address nwords"

definition find_accessible_allocation_containing :: "scope_state \<Rightarrow> u32 \<Rightarrow> nat \<Rightarrow> bool" where
  "find_accessible_allocation_containing s address nwords =
     (if find_allocation_containing s address nwords then True
      else range_in (tss_retired_allocations s) address nwords)"

definition contains_range :: "tmem_scope \<Rightarrow> u32 \<Rightarrow> nat \<Rightarrow> tmem \<Rightarrow> bool" where
  "contains_range sc address nwords m = (case find_scope sc m of None \<Rightarrow> False
     | Some s \<Rightarrow> find_allocation_containing s address nwords)"

subsection \<open>Accesses\<close>

text \<open>One row of an access: the loop over its columns.\<close>

fun write_row :: "u32 \<Rightarrow> u32 \<Rightarrow> u32 list \<Rightarrow> (u32, u32) fmap \<Rightarrow> (u32, u32) fmap option" where
  "write_row lane column [] ws = Some ws"
| "write_row lane column (v # vs) ws = do {
     a \<leftarrow> encode_tmem_address lane column;
     write_row lane (column + 1) vs (fmupd a v ws)
   }"

fun write_rows :: "u32 \<Rightarrow> u32 \<Rightarrow> nat \<Rightarrow> nat \<Rightarrow> u32 list \<Rightarrow> (u32, u32) fmap \<Rightarrow> (u32, u32) fmap option" where
  "write_rows lane column columns 0 values ws = Some ws"
| "write_rows lane column columns (Suc rows) values ws = do {
     ws1 \<leftarrow> write_row lane column (take columns values) ws;
     write_rows (lane + 1) column columns rows (drop columns values) ws1
   }"

definition word_at :: "(u32, u32) fmap \<Rightarrow> u32 \<Rightarrow> u32" where
  "word_at ws a = (case fmlookup ws a of None \<Rightarrow> 0 | Some v \<Rightarrow> v)"

fun read_row :: "u32 \<Rightarrow> u32 \<Rightarrow> nat \<Rightarrow> (u32, u32) fmap \<Rightarrow> u32 list option" where
  "read_row lane column 0 ws = Some []"
| "read_row lane column (Suc n) ws = do {
     a \<leftarrow> encode_tmem_address lane column;
     vs \<leftarrow> read_row lane (column + 1) n ws;
     Some (word_at ws a # vs)
   }"

fun read_rows :: "u32 \<Rightarrow> u32 \<Rightarrow> nat \<Rightarrow> nat \<Rightarrow> (u32, u32) fmap \<Rightarrow> u32 list option" where
  "read_rows lane column columns 0 ws = Some []"
| "read_rows lane column columns (Suc rows) ws = do {
     r \<leftarrow> read_row lane column columns ws;
     rs \<leftarrow> read_rows (lane + 1) column columns rows ws;
     Some (r @ rs)
   }"

definition write_words :: "tmem_scope \<Rightarrow> u32 \<Rightarrow> u32 list \<Rightarrow> tmem \<Rightarrow> tmem option" where
  "write_words sc address values m = do {
     cassert (values \<noteq> []);
     let s = get_or_create_scope sc m;
     cassert (find_accessible_allocation_containing s address (length values));
     let d = decode_tmem_address address;
     ws \<leftarrow> write_row (ta_lane d) (ta_column d) values (tss_words s);
     Some (fmupd sc (s\<lparr>tss_words := ws\<rparr>) m)
   }"

definition read_words :: "tmem_scope \<Rightarrow> u32 \<Rightarrow> nat \<Rightarrow> tmem \<Rightarrow> u32 list option" where
  "read_words sc address nwords m = do {
     cassert (0 < nwords);
     s \<leftarrow> find_scope sc m;
     cassert (find_accessible_allocation_containing s address nwords);
     let d = decode_tmem_address address;
     read_row (ta_lane d) (ta_column d) nwords (tss_words s)
   }"

definition write_matrix_words ::
    "tmem_scope \<Rightarrow> u32 \<Rightarrow> u32 list \<Rightarrow> nat \<Rightarrow> nat \<Rightarrow> tmem \<Rightarrow> tmem option" where
  "write_matrix_words sc address values rows columns m = do {
     cassert (0 < rows \<and> 0 < columns);
     cassert (length values = rows * columns);
     let s = get_or_create_scope sc m;
     cassert (find_accessible_allocation_containing s address columns);
     let d = decode_tmem_address address;
     ws \<leftarrow> write_rows (ta_lane d) (ta_column d) columns rows values (tss_words s);
     Some (fmupd sc (s\<lparr>tss_words := ws\<rparr>) m)
   }"

definition read_matrix_words :: "tmem_scope \<Rightarrow> u32 \<Rightarrow> nat \<Rightarrow> nat \<Rightarrow> tmem \<Rightarrow> u32 list option" where
  "read_matrix_words sc address rows columns m = do {
     cassert (0 < rows \<and> 0 < columns);
     s \<leftarrow> find_scope sc m;
     cassert (find_accessible_allocation_containing s address columns);
     let d = decode_tmem_address address;
     read_rows (ta_lane d) (ta_column d) columns rows (tss_words s)
   }"

definition unpack_half :: "nat \<Rightarrow> u32 \<Rightarrow> u16" where
  "unpack_half column word = (if odd column then ucast (drop_bit 16 word) else ucast (word AND 0xffff))"

definition read_matrix_packed_u16 ::
    "tmem_scope \<Rightarrow> u32 \<Rightarrow> nat \<Rightarrow> nat \<Rightarrow> tmem \<Rightarrow> u16 list option" where
  "read_matrix_packed_u16 sc address rows columns m = do {
     cassert (0 < rows \<and> 0 < columns);
     let word_columns = (columns + 1) div 2;
     s \<leftarrow> find_scope sc m;
     cassert (find_accessible_allocation_containing s address word_columns);
     let d = decode_tmem_address address;
     words \<leftarrow> read_rows (ta_lane d) (ta_column d) word_columns rows (tss_words s);
     Some (concat (map (\<lambda>row. map (\<lambda>column.
       unpack_half column (words ! (row * word_columns + column div 2))) [0..<columns]) [0..<rows]))
   }"

subsection \<open>Teardown\<close>

definition clear_cta :: "nat \<Rightarrow> nat \<Rightarrow> tmem \<Rightarrow> tmem" where
  "clear_cta sm_id cta_id m = fmfilter (\<lambda>sc. \<not> (tsc_sm_id sc = sm_id \<and> tsc_cta_id sc = cta_id)) m"

definition tmem_reset :: "tmem \<Rightarrow> tmem" where
  "tmem_reset m = fmempty"

subsection \<open>Addresses are a bijection\<close>

lemma encode_eq:
  "encode_tmem_address lane column = Some a \<longleftrightarrow>
     unat lane < 65536 \<and> unat column < 65536 \<and> a = push_bit 16 lane OR column"
  by (auto simp: encode_tmem_address_def kTmemLaneMask_def kTmemColumnMask_def kTmemLaneShift_def
      word_le_nat_alt)

lemma encode_decode:
  assumes "encode_tmem_address lane column = Some a"
  shows "decode_tmem_address a = \<lparr>ta_lane = lane, ta_column = column\<rparr>"
proof -
  have l: "take_bit 16 lane = lane" and c: "take_bit 16 column = column"
    using assms by (simp_all add: encode_eq word_unat_eq_iff unsigned_take_bit_eq take_bit_nat_eq_self)
  have "drop_bit 16 (push_bit 16 lane OR column) = lane"
  proof (rule bit_word_eqI)
    fix n
    assume n: "n < LENGTH(32)"
    have "bit lane n \<Longrightarrow> n < 16" "\<not> bit column (16 + n)"
      using l c by (metis bit_take_bit_iff) (metis bit_take_bit_iff c not_add_less1)
    then show "bit (drop_bit 16 (push_bit 16 lane OR column)) n = bit lane n"
      using n by (auto simp: bit_drop_bit_eq bit_or_iff bit_push_bit_iff)
  qed
  moreover have "(push_bit 16 lane OR column) AND 0xffff = column"
  proof (rule bit_word_eqI)
    fix n
    assume n: "n < LENGTH(32)"
    have m: "(0xffff :: u32) = mask 16" by (simp add: mask_eq_exp_minus_1)
    have "bit column n \<Longrightarrow> n < 16" using c by (metis bit_take_bit_iff)
    then show "bit ((push_bit 16 lane OR column) AND 0xffff) n = bit column n"
      using n by (auto simp: m bit_and_iff bit_or_iff bit_push_bit_iff bit_mask_iff)
  qed
  ultimately show ?thesis
    using assms by (simp add: decode_tmem_address_def encode_eq kTmemLaneShift_def kTmemColumnMask_def)
qed

lemma encode_inject:
  assumes "encode_tmem_address l c = Some a" "encode_tmem_address l' c' = Some a"
  shows "l = l' \<and> c = c'"
  using encode_decode [OF assms(1)] encode_decode [OF assms(2)] by simp

lemma decode_range:
  "unat (ta_lane (decode_tmem_address a)) < 65536" "unat (ta_column (decode_tmem_address a)) < 65536"
proof -
  have "unat a div 65536 < 65536"
    using unsigned_less [of a, where 'a = nat] by (simp add: less_mult_imp_div_less)
  then show "unat (ta_lane (decode_tmem_address a)) < 65536"
    by (simp add: decode_tmem_address_def kTmemLaneShift_def drop_bit_eq_div unat_div)
  have "a AND 0xffff \<le> 0xffff" by (rule word_and_le1)
  then show "unat (ta_column (decode_tmem_address a)) < 65536"
    by (simp add: decode_tmem_address_def kTmemColumnMask_def word_le_nat_alt)
qed

text \<open>The lane and column of an address as numbers.\<close>

definition lane_of :: "u32 \<Rightarrow> nat" where "lane_of a = unat (ta_lane (decode_tmem_address a))"
definition column_of :: "u32 \<Rightarrow> nat" where "column_of a = unat (ta_column (decode_tmem_address a))"

definition tmem_addr :: "nat \<Rightarrow> nat \<Rightarrow> u32" where
  "tmem_addr l c = push_bit 16 (of_nat l) OR of_nat c"

lemma unat_of_nat_small: "n < 65536 \<Longrightarrow> unat (of_nat n :: u32) = n"
  by (simp add: unat_of_nat take_bit_nat_eq_self)

lemma tmem_addr_coords:
  assumes "l < 65536" "c < 65536"
  shows "lane_of (tmem_addr l c) = l" "column_of (tmem_addr l c) = c"
proof -
  have "encode_tmem_address (of_nat l) (of_nat c) = Some (tmem_addr l c)"
    using assms by (simp add: encode_eq tmem_addr_def unat_of_nat_small)
  from encode_decode [OF this] assms
  show "lane_of (tmem_addr l c) = l" "column_of (tmem_addr l c) = c"
    by (simp_all add: lane_of_def column_of_def unat_of_nat_small)
qed

lemma addr_of_coords: "tmem_addr (lane_of a) (column_of a) = a"
proof (rule bit_word_eqI)
  fix n
  assume n: "n < LENGTH(32)"
  have m: "(0xffff :: u32) = mask 16" by (simp add: mask_eq_exp_minus_1)
  show "bit (tmem_addr (lane_of a) (column_of a)) n = bit a n"
    using n by (auto simp: tmem_addr_def lane_of_def column_of_def decode_tmem_address_def m
        kTmemLaneShift_def kTmemColumnMask_def bit_or_iff bit_push_bit_iff bit_drop_bit_eq
        bit_and_iff bit_mask_iff)
qed

lemma coords_inject: "lane_of a = lane_of b \<Longrightarrow> column_of a = column_of b \<Longrightarrow> a = b"
  by (metis addr_of_coords)

subsection \<open>Rows\<close>

lemma encode_ok:
  "encode_tmem_address lane column =
     (if unat lane < 65536 \<and> unat column < 65536 then Some (tmem_addr (unat lane) (unat column)) else None)"
  by (cases "encode_tmem_address lane column")
    (auto simp: encode_eq tmem_addr_def, auto simp: encode_tmem_address_def kTmemLaneMask_def
      kTmemColumnMask_def word_le_nat_alt)

lemma unat_Suc_small: "unat (w :: u32) < 65536 \<Longrightarrow> unat (w + 1) = unat w + 1"
  by (simp add: unat_word_ariths take_bit_nat_eq_self)

lemma write_row_Cons:
  "write_row lane column (v # vs) ws =
     (if unat lane < 65536 \<and> unat column < 65536
      then write_row lane (column + 1) vs (fmupd (tmem_addr (unat lane) (unat column)) v ws) else None)"
  by (simp add: encode_ok)

lemma read_row_Suc:
  "read_row lane column (Suc n) ws =
     (if unat lane < 65536 \<and> unat column < 65536
      then Option.bind (read_row lane (column + 1) n ws)
             (\<lambda>vs. Some (word_at ws (tmem_addr (unat lane) (unat column)) # vs)) else None)"
  by (simp add: encode_ok)

lemma write_row_None_iff:
  "write_row lane column vs ws = None \<longleftrightarrow>
     vs \<noteq> [] \<and> \<not> (unat lane < 65536 \<and> unat column + length vs \<le> 65536)"
proof (induction vs arbitrary: column ws)
  case (Cons v vs)
  show ?case
  proof (cases "unat lane < 65536 \<and> unat column < 65536")
    case True
    have "vs \<noteq> [] \<or> unat column + length (v # vs) \<le> 65536" using True by (cases vs) simp_all
    with True have "(write_row lane (column + 1) vs ws1 = None) =
        (\<not> unat column + length (v # vs) \<le> 65536)" for ws1
      using Cons.IH [of "column + 1" ws1] by (auto simp: unat_Suc_small)
    with True show ?thesis unfolding write_row_Cons by simp
  next
    case False
    then show ?thesis unfolding write_row_Cons by auto
  qed
qed simp

lemma write_row_lookup:
  "write_row lane column vs ws = Some ws' \<Longrightarrow>
   fmlookup ws' a =
     (if lane_of a = unat lane \<and> unat column \<le> column_of a \<and> column_of a < unat column + length vs
      then Some (vs ! (column_of a - unat column)) else fmlookup ws a)"
proof (induction vs arbitrary: column ws)
  case (Cons v vs)
  define b where "b = tmem_addr (unat lane) (unat column)"
  from Cons.prems have ok: "unat lane < 65536" "unat column < 65536"
    and tail: "write_row lane (column + 1) vs (fmupd b v ws) = Some ws'"
    by (simp_all add: write_row_Cons b_def split: if_splits del: write_row.simps)
  have b: "lane_of b = unat lane" "column_of b = unat column"
    using tmem_addr_coords [OF ok] by (simp_all add: b_def)
  note ih = Cons.IH [OF tail, unfolded unat_Suc_small [OF ok(2)]]
  show ?case
  proof (cases "a = b")
    case True
    then show ?thesis using ih by (simp add: b)
  next
    case False
    then have "\<not> (lane_of a = unat lane \<and> column_of a = unat column)"
      using coords_inject [of a b] by (auto simp: b)
    with ih False show ?thesis by (auto simp: nth_Cons')
  qed
qed auto

lemma map_upt_Suc: "map f [0..<Suc n] = f 0 # map (\<lambda>i. f (Suc i)) [0..<n]"
  by (simp add: upt_conv_Cons map_Suc_upt [symmetric] del: upt_Suc)

lemma read_row_eq:
  "read_row lane column n ws =
     (if n \<noteq> 0 \<and> \<not> (unat lane < 65536 \<and> unat column + n \<le> 65536) then None
      else Some (map (\<lambda>i. word_at ws (tmem_addr (unat lane) (unat column + i))) [0..<n]))"
proof (induction n arbitrary: column)
  case (Suc n)
  show ?case
  proof (cases "unat lane < 65536 \<and> unat column < 65536")
    case True
    have "n \<noteq> 0 \<or> unat column + Suc n \<le> 65536" using True by (cases n) simp_all
    with True show ?thesis
      unfolding read_row_Suc Suc.IH [of "column + 1"] map_upt_Suc by (auto simp: unat_Suc_small)
  next
    case False
    then show ?thesis unfolding read_row_Suc by auto
  qed
qed simp

subsection \<open>Rectangles\<close>

lemma unat_Suc_le: "unat (w :: u32) < 65536 \<Longrightarrow> unat (w + 1) = Suc (unat w)"
  by (simp add: unat_Suc_small)

lemma write_rows_lookup:
  assumes "write_rows lane column columns rows vs ws = Some ws'"
    and "length vs = rows * columns" "0 < columns"
  shows "fmlookup ws' a =
     (if unat lane \<le> lane_of a \<and> lane_of a < unat lane + rows
       \<and> unat column \<le> column_of a \<and> column_of a < unat column + columns
      then Some (vs ! ((lane_of a - unat lane) * columns + (column_of a - unat column)))
      else fmlookup ws a)"
  using assms
proof (induction rows arbitrary: lane vs ws)
  case (Suc rows)
  from Suc.prems(1) obtain ws1 where w1: "write_row lane column (take columns vs) ws = Some ws1"
    and w2: "write_rows (lane + 1) column columns rows (drop columns vs) ws1 = Some ws'"
    by (auto simp: bind_eq_Some_conv)
  have len: "length (take columns vs) = columns" using Suc.prems(2) by simp
  have lane: "unat lane < 65536"
    using w1 write_row_None_iff [of lane column "take columns vs" ws] len Suc.prems(3) by auto
  have ih: "fmlookup ws' a =
     (if unat lane < lane_of a \<and> lane_of a < unat lane + Suc rows
       \<and> unat column \<le> column_of a \<and> column_of a < unat column + columns
      then Some (vs ! (columns + ((lane_of a - Suc (unat lane)) * columns + (column_of a - unat column))))
      else fmlookup ws1 a)"
    using Suc.IH [OF w2 _ Suc.prems(3)] Suc.prems(2)
    by (simp add: unat_Suc_le [OF lane] Suc_le_eq)
  have shift: "columns + ((l - Suc k) * columns + c) = (l - k) * columns + c" if "k < l" for l k c
  proof -
    from that have "l - k = Suc (l - Suc k)" by simp
    then show ?thesis by simp
  qed
  from write_row_lookup [OF w1, of a, unfolded len] have row: "fmlookup ws1 a =
     (if lane_of a = unat lane \<and> unat column \<le> column_of a \<and> column_of a < unat column + columns
      then Some (vs ! (column_of a - unat column)) else fmlookup ws a)"
    by auto
  consider "lane_of a < unat lane" | "lane_of a = unat lane" | "unat lane < lane_of a" by linarith
  then show ?case
    by cases (simp_all add: ih row shift)
qed auto

lemma write_rows_bounds:
  assumes "write_rows lane column columns rows vs ws = Some ws'"
    and "length vs = rows * columns" "0 < columns" "unat lane < 65536"
  shows "unat lane + rows \<le> 65536 \<and> (0 < rows \<longrightarrow> unat column + columns \<le> 65536)"
  using assms
proof (induction rows arbitrary: lane vs ws)
  case (Suc rows)
  from Suc.prems(1) obtain ws1 where w1: "write_row lane column (take columns vs) ws = Some ws1"
    and w2: "write_rows (lane + 1) column columns rows (drop columns vs) ws1 = Some ws'"
    by (auto simp: bind_eq_Some_conv)
  have len: "length (take columns vs) = columns" using Suc.prems(2) by simp
  have col: "unat column + columns \<le> 65536"
    using w1 write_row_None_iff [of lane column "take columns vs" ws] len Suc.prems(3) by auto
  show ?case
  proof (cases "rows = 0")
    case True
    with col Suc.prems(4) show ?thesis by simp
  next
    case False
    then obtain r where r: "rows = Suc r" by (cases rows) auto
    have "unat (lane + 1) < 65536"
    proof (rule ccontr)
      assume "\<not> ?thesis"
      moreover have "write_row (lane + 1) column (take columns (drop columns vs)) ws1 \<noteq> None"
        using w2 by (auto simp: r bind_eq_Some_conv)
      ultimately show False
        using Suc.prems(2,3) by (auto simp: write_row_None_iff r)
    qed
    with Suc.IH [OF w2 _ Suc.prems(3)] Suc.prems(2) col show ?thesis
      by (simp add: unat_Suc_le [OF Suc.prems(4)])
  qed
qed simp

lemma map_upt_add: "map f [0..<m + n] = map f [0..<m] @ map (\<lambda>i. f (m + i)) [0..<n]"
  by (rule nth_equalityI) (auto simp: nth_append)

lemma read_rows_eq:
  assumes "unat lane + rows \<le> 65536" "unat column + columns \<le> 65536" "0 < columns"
  shows "read_rows lane column columns rows ws =
     Some (map (\<lambda>i. word_at ws (tmem_addr (unat lane + i div columns) (unat column + i mod columns)))
       [0..<rows * columns])"
  using assms
proof (induction rows arbitrary: lane)
  case (Suc rows)
  have lane: "unat lane < 65536" using Suc.prems(1) by simp
  have "read_rows (lane + 1) column columns rows ws = Some (map (\<lambda>i. word_at ws
      (tmem_addr (Suc (unat lane) + i div columns) (unat column + i mod columns))) [0..<rows * columns])"
    using Suc.IH [of "lane + 1"] Suc.prems by (simp add: unat_Suc_le [OF lane])
  moreover have "read_row lane column columns ws =
      Some (map (\<lambda>i. word_at ws (tmem_addr (unat lane + i div columns) (unat column + i mod columns)))
        [0..<columns])"
    using Suc.prems lane by (simp add: read_row_eq)
  ultimately show ?case
    using Suc.prems(3) by (simp add: map_upt_add div_add_self1)
qed simp

lemma read_row_cong:
  "(\<And>a. lane_of a = unat lane \<Longrightarrow> unat column \<le> column_of a \<Longrightarrow> column_of a < unat column + n
      \<Longrightarrow> word_at ws a = word_at ws' a) \<Longrightarrow>
   read_row lane column n ws = read_row lane column n ws'"
  by (auto simp: read_row_eq tmem_addr_coords)

lemma read_rows_cong:
  "unat lane < 65536 \<or> rows = 0 \<Longrightarrow>
   (\<And>a. unat lane \<le> lane_of a \<Longrightarrow> lane_of a < unat lane + rows \<Longrightarrow> unat column \<le> column_of a
      \<Longrightarrow> column_of a < unat column + columns \<Longrightarrow> word_at ws a = word_at ws' a) \<Longrightarrow>
   0 < columns \<Longrightarrow>
   read_rows lane column columns rows ws = read_rows lane column columns rows ws'"
proof (induction rows arbitrary: lane)
  case (Suc rows)
  from Suc.prems(1) have lane: "unat lane < 65536" by simp
  have "read_row lane column columns ws = read_row lane column columns ws'"
    by (rule read_row_cong) (use Suc.prems(2) in simp)
  moreover have "read_rows (lane + 1) column columns rows ws = read_rows (lane + 1) column columns rows ws'"
  proof (cases "unat (lane + 1) < 65536 \<or> rows = 0")
    case True
    then show ?thesis
      by (rule Suc.IH) (use Suc.prems(2,3) in \<open>simp_all add: unat_Suc_le [OF lane]\<close>)
  next
    case False
    then obtain r where "rows = Suc r" by (cases rows) auto
    with False Suc.prems(3) show ?thesis by (simp add: read_row_eq)
  qed
  ultimately show ?case by simp
qed simp

subsection \<open>Reads return the last write\<close>

text \<open>The rectangle of words that a matrix access at an address touches.\<close>

definition in_rect :: "u32 \<Rightarrow> nat \<Rightarrow> nat \<Rightarrow> u32 \<Rightarrow> bool" where
  "in_rect address rows columns a \<longleftrightarrow>
     lane_of address \<le> lane_of a \<and> lane_of a < lane_of address + rows \<and>
     column_of address \<le> column_of a \<and> column_of a < column_of address + columns"

lemma get_or_create_find: "fmlookup m sc = Some s \<Longrightarrow> get_or_create_scope sc m = s"
  by (simp add: get_or_create_scope_def)

lemma range_in_empty [simp]: "\<not> range_in fmempty address n"
  by (simp add: range_in_def)

lemma write_matrix_SomeD:
  assumes "write_matrix_words sc address vs rows columns m = Some m'"
  obtains s ws where "fmlookup m sc = Some s" "0 < rows" "0 < columns" "length vs = rows * columns"
    "find_accessible_allocation_containing s address columns"
    "write_rows (ta_lane (decode_tmem_address address)) (ta_column (decode_tmem_address address))
       columns rows vs (tss_words s) = Some ws"
    "m' = fmupd sc (s\<lparr>tss_words := ws\<rparr>) m"
proof -
  from assms have "find_accessible_allocation_containing (get_or_create_scope sc m) address columns"
    by (simp add: write_matrix_words_def Let_def)
  then have "fmlookup m sc \<noteq> None"
    by (auto simp: get_or_create_scope_def scope_state_init_def find_allocation_containing_def
        find_accessible_allocation_containing_def split: option.splits if_splits)
  then obtain s where s: "fmlookup m sc = Some s" by blast
  with assms that show ?thesis
    by (auto simp: write_matrix_words_def Let_def get_or_create_find bind_eq_Some_conv)
qed

lemma find_accessible_words [simp]:
  "find_accessible_allocation_containing (s\<lparr>tss_words := ws\<rparr>) address n =
     find_accessible_allocation_containing s address n"
  by (simp add: find_accessible_allocation_containing_def find_allocation_containing_def)

text \<open>
  C33. A matrix write to tensor memory is read back by a matrix read of the same shape at the
  same address, element by element, and it changes nothing else: a read of another scope, or
  of a rectangle of the same scope that shares no word with the one written, returns what it
  returned before, abort included.
\<close>

theorem tmem_read_after_write:
  assumes w: "write_matrix_words sc address vs rows columns m = Some m'"
  shows "read_matrix_words sc address rows columns m' = Some vs \<and>
    (\<forall>sc' address' rows' columns'.
       sc' \<noteq> sc \<or> (\<nexists>a. in_rect address rows columns a \<and> in_rect address' rows' columns' a) \<longrightarrow>
       read_matrix_words sc' address' rows' columns' m' = read_matrix_words sc' address' rows' columns' m)"
proof (intro conjI allI impI)
  from w obtain s ws where s: "fmlookup m sc = Some s" and pos: "0 < rows" "0 < columns"
    and len: "length vs = rows * columns"
    and acc: "find_accessible_allocation_containing s address columns"
    and ws: "write_rows (ta_lane (decode_tmem_address address)) (ta_column (decode_tmem_address address))
       columns rows vs (tss_words s) = Some ws"
    and m': "m' = fmupd sc (s\<lparr>tss_words := ws\<rparr>) m"
    by (rule write_matrix_SomeD)
  note lk = write_rows_lookup [OF ws len pos(2), folded lane_of_def column_of_def]
  from write_rows_bounds [OF ws len pos(2) decode_range(1), folded lane_of_def column_of_def] pos(1)
  have b: "lane_of address + rows \<le> 65536" "column_of address + columns \<le> 65536" by simp_all
  have at: "word_at ws (tmem_addr (lane_of address + i div columns) (column_of address + i mod columns)) = vs ! i"
    if i: "i < rows * columns" for i
  proof -
    have d: "i div columns < rows" "i mod columns < columns"
      using i pos(2) by (simp_all add: less_mult_imp_div_less)
    with b show ?thesis by (simp add: word_at_def lk tmem_addr_coords)
  qed
  have "map (\<lambda>i. word_at ws (tmem_addr (lane_of address + i div columns)
      (column_of address + i mod columns))) [0..<rows * columns] = vs"
    by (rule nth_equalityI) (simp_all add: len at)
  with b pos acc show "read_matrix_words sc address rows columns m' = Some vs"
    by (simp add: read_matrix_words_def find_scope_def m' Let_def read_rows_eq lane_of_def column_of_def)
  fix sc' address' rows' columns'
  assume other: "sc' \<noteq> sc \<or> (\<nexists>a. in_rect address rows columns a \<and> in_rect address' rows' columns' a)"
  show "read_matrix_words sc' address' rows' columns' m' = read_matrix_words sc' address' rows' columns' m"
  proof (cases "sc' = sc")
    case False
    then show ?thesis by (simp add: read_matrix_words_def find_scope_def m')
  next
    case True
    have "read_rows (ta_lane (decode_tmem_address address')) (ta_column (decode_tmem_address address'))
        columns' rows' ws =
      read_rows (ta_lane (decode_tmem_address address')) (ta_column (decode_tmem_address address'))
        columns' rows' (tss_words s)" if "0 < columns'"
    proof (rule read_rows_cong [where lane = "ta_lane (decode_tmem_address address')"
          and column = "ta_column (decode_tmem_address address')", folded lane_of_def column_of_def, OF _ _ that])
      fix a
      assume "lane_of address' \<le> lane_of a" "lane_of a < lane_of address' + rows'"
        "column_of address' \<le> column_of a" "column_of a < column_of address' + columns'"
      then have "\<not> in_rect address rows columns a" using other True by (auto simp: in_rect_def)
      then show "word_at ws a = word_at (tss_words s) a"
        by (auto simp: word_at_def lk in_rect_def)
    qed (simp add: lane_of_def decode_range)
    with True show ?thesis
      by (cases "0 < columns'") (simp_all add: read_matrix_words_def find_scope_def m' s Let_def cassert_def)
  qed
qed

subsection \<open>Allocations never overlap\<close>

datatype tmem_op =
    Alloc tmem_scope u32
  | Dealloc tmem_scope u32 u32
  | Relinquish tmem_scope
  | Write_Words tmem_scope u32 "u32 list"
  | Write_Matrix tmem_scope u32 "u32 list" nat nat
  | Clear_Cta nat nat
  | Reset

fun tmem_step :: "tmem \<Rightarrow> tmem_op \<Rightarrow> tmem option" where
  "tmem_step m (Alloc sc n) = map_option snd (alloc sc n m)"
| "tmem_step m (Dealloc sc b n) = dealloc sc b n m"
| "tmem_step m (Relinquish sc) = Some (relinquish_alloc_permit sc m)"
| "tmem_step m (Write_Words sc a vs) = write_words sc a vs m"
| "tmem_step m (Write_Matrix sc a vs r c) = write_matrix_words sc a vs r c m"
| "tmem_step m (Clear_Cta sm cta) = Some (clear_cta sm cta m)"
| "tmem_step m Reset = Some (tmem_reset m)"

text \<open>All column ranges a scope has handed out since its creation, live or retired.\<close>

definition handed_out :: "scope_state \<Rightarrow> u32 \<Rightarrow> allocation option" where
  "handed_out s k = (case fmlookup (tss_allocations s) k of
     Some a \<Rightarrow> Some a | None \<Rightarrow> fmlookup (tss_retired_allocations s) k)"

definition columns_of :: "allocation \<Rightarrow> nat set" where
  "columns_of a = {unat (al_base a) ..< unat (al_base a) + unat (al_ncols a)}"

definition scope_ok :: "scope_state \<Rightarrow> bool" where
  "scope_ok s \<longleftrightarrow>
     unat (tss_next_base s) \<le> 65536 \<and>
     (\<forall>k. fmlookup (tss_allocations s) k = None \<or> fmlookup (tss_retired_allocations s) k = None) \<and>
     (\<forall>k a. handed_out s k = Some a \<longrightarrow> al_base a = k \<and> 32 \<le> unat (al_ncols a)
        \<and> unat (al_ncols a) \<le> 512 \<and> unat k + unat (al_ncols a) \<le> unat (tss_next_base s)) \<and>
     (\<forall>k1 k2 a1 a2. handed_out s k1 = Some a1 \<longrightarrow> handed_out s k2 = Some a2 \<longrightarrow> k1 \<noteq> k2 \<longrightarrow>
        columns_of a1 \<inter> columns_of a2 = {}) \<and>
     (\<forall>w. fmlookup (tss_words s) w \<noteq> None \<longrightarrow>
        (\<exists>k a. handed_out s k = Some a \<and> column_of w \<in> columns_of a))"

definition tmem_ok :: "tmem \<Rightarrow> bool" where
  "tmem_ok m \<longleftrightarrow> (\<forall>sc s. fmlookup m sc = Some s \<longrightarrow> scope_ok s)"

lemma scope_ok_init: "scope_ok scope_state_init"
  by (simp add: scope_ok_def scope_state_init_def handed_out_def)

lemma tmem_ok_scope: "tmem_ok m \<Longrightarrow> scope_ok (get_or_create_scope sc m)"
  by (auto simp: tmem_ok_def get_or_create_scope_def scope_ok_init split: option.splits)

lemma tmem_ok_update: "tmem_ok m \<Longrightarrow> scope_ok s \<Longrightarrow> tmem_ok (fmupd sc s m)"
  by (simp add: tmem_ok_def)

lemma scope_ok_cong:
  "tss_next_base s = tss_next_base t \<Longrightarrow> handed_out s = handed_out t \<Longrightarrow> tss_words s = tss_words t \<Longrightarrow>
   (\<forall>k. fmlookup (tss_allocations s) k = None \<or> fmlookup (tss_retired_allocations s) k = None) \<Longrightarrow>
   scope_ok t \<Longrightarrow> scope_ok s"
  by (simp add: scope_ok_def)

lemma scope_ok_alloc:
  assumes ok: "scope_ok s" and n: "32 \<le> unat n" "unat n \<le> 512"
    and fits: "unat (tss_next_base s) \<le> 65536 - unat n"
  shows "scope_ok (s\<lparr>tss_next_base := tss_next_base s + n, tss_last_allocation_ncols := l,
    tss_allocations := fmupd (tss_next_base s) \<lparr>al_base = tss_next_base s, al_ncols = n\<rparr> (tss_allocations s)\<rparr>)"
    (is "scope_ok ?t")
proof -
  let ?k = "tss_next_base s" and ?a = "\<lparr>al_base = tss_next_base s, al_ncols = n\<rparr>"
  have next': "unat (tss_next_base s + n) = unat (tss_next_base s) + unat n"
    using n fits by (simp add: unat_word_ariths take_bit_nat_eq_self)
  have old: "al_base a = k \<and> 32 \<le> unat (al_ncols a) \<and> unat (al_ncols a) \<le> 512
      \<and> unat k + unat (al_ncols a) \<le> unat ?k" if "handed_out s k = Some a" for k a
    using ok that by (simp add: scope_ok_def)
  have fresh: "handed_out s ?k = None"
    using old [of ?k] by (cases "handed_out s ?k") auto
  then have ho: "handed_out ?t k = (if k = ?k then Some ?a else handed_out s k)" for k
    by (simp add: handed_out_def split: option.split)
  have below: "columns_of a \<inter> columns_of ?a = {}" if "handed_out s k = Some a" for k a
    using old [OF that] by (auto simp: columns_of_def)
  have disj: "columns_of a1 \<inter> columns_of a2 = {}"
    if "handed_out s k1 = Some a1" "handed_out s k2 = Some a2" "k1 \<noteq> k2" for k1 k2 a1 a2
    using ok that by (simp add: scope_ok_def)
  show ?thesis
    unfolding scope_ok_def
  proof (intro conjI allI impI)
    show "unat (tss_next_base ?t) \<le> 65536" using n fits by (simp add: next')
    fix k k1 k2 a1 a2 w
    show "fmlookup (tss_allocations ?t) k = None \<or> fmlookup (tss_retired_allocations ?t) k = None"
      using ok fresh by (auto simp: scope_ok_def handed_out_def split: option.splits)
    assume h1: "handed_out ?t k1 = Some a1"
    show "al_base a1 = k1" "32 \<le> unat (al_ncols a1)" "unat (al_ncols a1) \<le> 512"
      "unat k1 + unat (al_ncols a1) \<le> unat (tss_next_base ?t)"
      using h1 old [of k1 a1] n by (auto simp: ho next' split: if_splits)
    assume "handed_out ?t k2 = Some a2" "k1 \<noteq> k2"
    with h1 show "columns_of a1 \<inter> columns_of a2 = {}"
      using below disj by (auto simp: ho Int_commute split: if_splits)
  next
    fix w
    assume "fmlookup (tss_words ?t) w \<noteq> None"
    then obtain k a where "handed_out s k = Some a" "column_of w \<in> columns_of a"
      using ok by (auto simp: scope_ok_def)
    then show "\<exists>k a. handed_out ?t k = Some a \<and> column_of w \<in> columns_of a"
      using fresh by (intro exI [of _ k] exI [of _ a]) (auto simp: ho)
  qed
qed

lemma scope_ok_retire:
  assumes ok: "scope_ok s" and b: "fmlookup (tss_allocations s) b = Some a"
  shows "scope_ok (s\<lparr>tss_retired_allocations := fmupd b a (tss_retired_allocations s),
     tss_allocations := fmdrop b (tss_allocations s)\<rparr>)" (is "scope_ok ?t")
proof (rule scope_ok_cong [OF _ _ _ _ ok])
  have one: "fmlookup (tss_allocations s) k = None \<or> fmlookup (tss_retired_allocations s) k = None" for k
    using ok by (simp add: scope_ok_def)
  then show "\<forall>k. fmlookup (tss_allocations ?t) k = None \<or> fmlookup (tss_retired_allocations ?t) k = None"
    by simp
  show "handed_out ?t = handed_out s"
    using b by (auto simp: handed_out_def fun_eq_iff split: option.split)
qed simp_all

lemma accessible_columns:
  assumes "find_accessible_allocation_containing s address n" "scope_ok s"
    and "column_of address \<le> c" "c < column_of address + n"
  shows "\<exists>k a. handed_out s k = Some a \<and> c \<in> columns_of a"
proof -
  have table: "\<exists>k a. fmlookup t k = Some a \<and> c \<in> columns_of a" if "range_in t address n" for t
    using that assms(3,4)
    by (force simp: range_in_def covers_def columns_of_def column_of_def Let_def
        split: if_splits option.splits)
  from assms(1) have "range_in (tss_allocations s) address n \<or> range_in (tss_retired_allocations s) address n"
    by (auto simp: find_accessible_allocation_containing_def find_allocation_containing_def split: if_splits)
  with table obtain k a where
    "fmlookup (tss_allocations s) k = Some a \<or> fmlookup (tss_retired_allocations s) k = Some a"
    and c: "c \<in> columns_of a" by blast
  moreover have "fmlookup (tss_allocations s) k = None \<or> fmlookup (tss_retired_allocations s) k = None"
    using assms(2) by (simp add: scope_ok_def)
  ultimately have "handed_out s k = Some a" by (auto simp: handed_out_def)
  with c show ?thesis by blast
qed

lemma scope_ok_words:
  assumes ok: "scope_ok s" and acc: "find_accessible_allocation_containing s address n"
    and new: "\<And>w. fmlookup ws w \<noteq> fmlookup (tss_words s) w \<Longrightarrow>
      column_of address \<le> column_of w \<and> column_of w < column_of address + n"
  shows "scope_ok (s\<lparr>tss_words := ws\<rparr>)"
proof -
  have ho: "handed_out (s\<lparr>tss_words := ws\<rparr>) = handed_out s"
    by (simp add: handed_out_def fun_eq_iff split: option.split)
  have "\<exists>k a. handed_out s k = Some a \<and> column_of w \<in> columns_of a" if w: "fmlookup ws w \<noteq> None" for w
  proof (cases "fmlookup ws w = fmlookup (tss_words s) w")
    case True
    with w ok show ?thesis by (auto simp: scope_ok_def)
  next
    case False
    from new [OF this] show ?thesis by (intro accessible_columns [OF acc ok]) auto
  qed
  with ok show ?thesis by (simp add: scope_ok_def ho)
qed

lemma write_row_in_columns:
  "write_row (ta_lane (decode_tmem_address a)) (ta_column (decode_tmem_address a)) vs ws = Some ws' \<Longrightarrow>
   fmlookup ws' w \<noteq> fmlookup ws w \<Longrightarrow>
   column_of a \<le> column_of w \<and> column_of w < column_of a + length vs"
  by (drule write_row_lookup [of _ _ _ _ _ w]) (auto simp: column_of_def split: if_splits)

lemma write_rows_in_columns:
  "write_rows (ta_lane (decode_tmem_address a)) (ta_column (decode_tmem_address a)) c r vs ws = Some ws' \<Longrightarrow>
   length vs = r * c \<Longrightarrow> 0 < c \<Longrightarrow> fmlookup ws' w \<noteq> fmlookup ws w \<Longrightarrow>
   column_of a \<le> column_of w \<and> column_of w < column_of a + c"
  by (drule write_rows_lookup [of _ _ _ _ _ _ _ w]) (auto simp: column_of_def split: if_splits)

lemma alloc_SomeD:
  assumes "alloc sc n m = Some (base, m')"
  defines "s \<equiv> get_or_create_scope sc m"
  shows "\<not> tss_permit_relinquished s" "32 \<le> unat n" "unat n \<le> 512" "base = tss_next_base s"
    "unat (tss_next_base s) \<le> 65536 - unat n"
    "m' = fmupd sc (s\<lparr>tss_next_base := base + n, tss_last_allocation_ncols := n,
       tss_allocations := fmupd base \<lparr>al_base = base, al_ncols = n\<rparr> (tss_allocations s)\<rparr>) m"
proof -
  have n: "kTmemMinAllocColumns \<le> n" "n \<le> kTmemMaxAllocColumns"
    and f: "tss_next_base s \<le> kTmemColumnCount - n"
    using assms(1) by (auto simp: alloc_def Let_def s_def)
  from n show lim: "32 \<le> unat n" "unat n \<le> 512"
    by (simp_all add: kTmemMinAllocColumns_def kTmemMaxAllocColumns_def word_le_nat_alt)
  then have "unat (kTmemColumnCount - n) = 65536 - unat n"
    by (subst unat_sub) (simp_all add: kTmemColumnCount_def kTmemColumnMask_def word_le_nat_alt)
  with f show "unat (tss_next_base s) \<le> 65536 - unat n" by (simp add: word_le_nat_alt)
qed (use assms(1) in \<open>auto simp: alloc_def Let_def s_def\<close>)

lemma alloc_keeps_ok: "tmem_ok m \<Longrightarrow> alloc sc n m = Some (base, m') \<Longrightarrow> tmem_ok m'"
  using scope_ok_alloc [OF tmem_ok_scope, of m n sc n] alloc_SomeD [of sc n m base m']
  by (simp add: tmem_ok_update)

lemma write_words_keeps_ok:
  assumes ok: "tmem_ok m" and w: "write_words sc a vs m = Some m'"
  shows "tmem_ok m'"
proof -
  from w obtain ws where
    acc: "find_accessible_allocation_containing (get_or_create_scope sc m) a (length vs)"
    and r: "write_row (ta_lane (decode_tmem_address a)) (ta_column (decode_tmem_address a)) vs
        (tss_words (get_or_create_scope sc m)) = Some ws"
    and m': "m' = fmupd sc ((get_or_create_scope sc m)\<lparr>tss_words := ws\<rparr>) m"
    by (auto simp: write_words_def Let_def bind_eq_Some_conv)
  show ?thesis unfolding m'
    by (intro tmem_ok_update ok scope_ok_words [OF tmem_ok_scope [OF ok] acc] write_row_in_columns [OF r])
qed

lemma write_matrix_keeps_ok:
  assumes ok: "tmem_ok m" and w: "write_matrix_words sc a vs rows columns m = Some m'"
  shows "tmem_ok m'"
  using w
proof (rule write_matrix_SomeD)
  fix s ws
  assume s: "fmlookup m sc = Some s" and pos: "0 < columns" and len: "length vs = rows * columns"
    and acc: "find_accessible_allocation_containing s a columns"
    and r: "write_rows (ta_lane (decode_tmem_address a)) (ta_column (decode_tmem_address a))
       columns rows vs (tss_words s) = Some ws"
    and m': "m' = fmupd sc (s\<lparr>tss_words := ws\<rparr>) m"
  from ok s have "scope_ok s" by (simp add: tmem_ok_def)
  from scope_ok_words [OF this acc write_rows_in_columns [OF r len pos]]
  have "scope_ok (s\<lparr>tss_words := ws\<rparr>)" .
  with ok m' show ?thesis by (simp add: tmem_ok_update)
qed

lemma dealloc_keeps_ok: "tmem_ok m \<Longrightarrow> dealloc sc b n m = Some m' \<Longrightarrow> tmem_ok m'"
  using scope_ok_retire [OF tmem_ok_scope]
  by (auto simp: dealloc_def Let_def bind_eq_Some_conv tmem_ok_update)

lemma scope_ok_relinquish: "scope_ok s \<Longrightarrow> scope_ok (s\<lparr>tss_permit_relinquished := True\<rparr>)"
proof (rule scope_ok_cong [where t = s])
  show "handed_out (s\<lparr>tss_permit_relinquished := True\<rparr>) = handed_out s"
    by (simp add: handed_out_def fun_eq_iff split: option.split)
qed (simp_all add: scope_ok_def)

lemma relinquish_keeps_ok: "tmem_ok m \<Longrightarrow> tmem_ok (relinquish_alloc_permit sc m)"
  by (simp add: relinquish_alloc_permit_def tmem_ok_update scope_ok_relinquish tmem_ok_scope)

lemma teardown_keeps_ok: "tmem_ok m \<Longrightarrow> tmem_ok (clear_cta sm cta m)" "tmem_ok (tmem_reset m)"
  by (simp_all add: tmem_ok_def clear_cta_def tmem_reset_def)

interpretation tmem_run: step_invariant tmem_step tmem_ok
proof
  fix m x m'
  assume "tmem_ok m" "tmem_step m x = Some m'"
  then show "tmem_ok m'"
    by (cases x) (auto intro: alloc_keeps_ok dealloc_keeps_ok relinquish_keeps_ok write_words_keeps_ok
        write_matrix_keeps_ok teardown_keeps_ok)
qed

text \<open>
  C14. In every state of the tensor memory that calls reach from the empty one, the column ranges
  a scope has handed out, live or retired, are pairwise disjoint and lie within the 65536
  columns of an address, every word ever written lies in one of them, and a further allocation
  that succeeds returns a range disjoint from all of them, which is accessible at once.
\<close>

theorem tmem_allocations_disjoint:
  assumes run: "run_ops tmem_step fmempty calls = Some m"
  shows "(\<forall>k1 k2 a1 a2. handed_out (get_or_create_scope sc m) k1 = Some a1 \<and> k1 \<noteq> k2 \<and>
        handed_out (get_or_create_scope sc m) k2 = Some a2 \<longrightarrow> columns_of a1 \<inter> columns_of a2 = {}) \<and>
    (\<forall>k a. handed_out (get_or_create_scope sc m) k = Some a \<longrightarrow>
        k = al_base a \<and> 32 \<le> unat (al_ncols a) \<and> columns_of a \<subseteq> {..<65536}) \<and>
    (\<forall>w. fmlookup (tss_words (get_or_create_scope sc m)) w \<noteq> None \<longrightarrow>
        (\<exists>k a. handed_out (get_or_create_scope sc m) k = Some a \<and> column_of w \<in> columns_of a)) \<and>
    (\<forall>n base m'. alloc sc n m = Some (base, m') \<longrightarrow>
        contains_range sc base (unat n) m' \<and>
        (\<forall>k a. handed_out (get_or_create_scope sc m) k = Some a \<longrightarrow>
           columns_of a \<inter> {unat base ..< unat base + unat n} = {}))"
proof -
  define s where "s = get_or_create_scope sc m"
  have "tmem_ok m" by (rule tmem_run.run_keeps [OF _ run]) (simp add: tmem_ok_def)
  then have ok: "scope_ok s" unfolding s_def by (rule tmem_ok_scope)
  have within: "k = al_base a \<and> 32 \<le> unat (al_ncols a) \<and> columns_of a \<subseteq> {..<unat (tss_next_base s)}"
    if "handed_out s k = Some a" for k a
  proof -
    have "\<forall>k a. handed_out s k = Some a \<longrightarrow> al_base a = k \<and> 32 \<le> unat (al_ncols a)
        \<and> unat (al_ncols a) \<le> 512 \<and> unat k + unat (al_ncols a) \<le> unat (tss_next_base s)"
      using ok unfolding scope_ok_def by blast
    with that show ?thesis by (fastforce simp: columns_of_def)
  qed
  have next': "unat (tss_next_base s) \<le> 65536" using ok by (simp add: scope_ok_def)
  have apart: "columns_of a \<inter> {unat base ..< unat base + unat n} = {}"
    if al: "alloc sc n m = Some (base, m')" and h: "handed_out s k = Some a" for n base m' k a
  proof -
    have "columns_of a \<subseteq> {..<unat base}"
      using within [OF h] alloc_SomeD(4) [OF al, folded s_def] by simp
    then show ?thesis by fastforce
  qed
  have accessible: "contains_range sc base (unat n) m'" if al: "alloc sc n m = Some (base, m')" for n base m'
  proof -
    note d = alloc_SomeD [OF al, folded s_def]
    have "unat base < 65536" using d by simp
    then have col: "unat (ta_column (decode_tmem_address base)) = unat base"
      using encode_decode [of 0 base base] by (simp add: encode_eq)
    show ?thesis
      using d(2,3,5) unfolding contains_range_def find_scope_def d(6)
      by (simp add: find_allocation_containing_def range_in_def col [unfolded d(4)] Let_def covers_def d(4)
          kTmemColumnCount_def kTmemColumnMask_def)
  qed
  show ?thesis
    unfolding s_def [symmetric]
  proof (intro conjI allI impI)
    show "columns_of a1 \<inter> columns_of a2 = {}"
      if "handed_out s k1 = Some a1 \<and> k1 \<noteq> k2 \<and> handed_out s k2 = Some a2" for k1 k2 a1 a2
      using ok that unfolding scope_ok_def by blast
    show "\<exists>k a. handed_out s k = Some a \<and> column_of w \<in> columns_of a"
      if "fmlookup (tss_words s) w \<noteq> None" for w
      using ok that by (simp add: scope_ok_def)
    show "columns_of a \<subseteq> {..<65536}" "k = al_base a" "32 \<le> unat (al_ncols a)"
      if "handed_out s k = Some a" for k a
      using within [OF that] next' by (auto simp: subset_iff)
  qed (fact accessible apart)+
qed

definition tmem_scope0 :: tmem_scope where
  "tmem_scope0 = \<lparr>tsc_sm_id = 0, tsc_cta_id = 1, tsc_cta_group = 1\<rparr>"

text \<open>Two allocations, a write to the second, and the first one freed again.\<close>

definition tmem_sample :: "tmem_op list" where
  "tmem_sample = [Alloc tmem_scope0 64, Alloc tmem_scope0 32,
     Write_Matrix tmem_scope0 0x20050 [7, 8, 9, 10] 2 2, Dealloc tmem_scope0 0 64]"

lemma write_rows_numeral: "write_rows lane column columns (numeral k) vs ws = do {
     ws1 \<leftarrow> write_row lane column (take columns vs) ws;
     write_rows (lane + 1) column columns (pred_numeral k) (drop columns vs) ws1
   }"
  by (simp add: numeral_eq_Suc)

lemmas tmem_eval = alloc_def dealloc_def write_matrix_words_def get_or_create_scope_def
  scope_state_init_def find_accessible_allocation_containing_def find_allocation_containing_def
  range_in_def covers_def decode_tmem_address_def encode_tmem_address_def kTmemColumnMask_def
  kTmemColumnCount_def kTmemLaneShift_def kTmemMinAllocColumns_def kTmemMaxAllocColumns_def
  kTmemLaneMask_def is_power_of_two_def write_rows_numeral Let_def cassert_def tmem_sample_def

lemma tmem_read_after_write_witness:
  "\<exists>m m'. write_matrix_words tmem_scope0 0x20050 [7, 8, 9, 10] 2 2 m = Some m' \<and>
     read_matrix_words tmem_scope0 0x20050 2 2 m' = Some [7, 8, 9, 10]"
proof -
  have "\<exists>m m'. run_ops tmem_step fmempty (take 2 tmem_sample) = Some m \<and>
      write_matrix_words tmem_scope0 0x20050 [7, 8, 9, 10] 2 2 m = Some m'"
    by (simp add: tmem_eval)
  then obtain m m' where "write_matrix_words tmem_scope0 0x20050 [7, 8, 9, 10] 2 2 m = Some m'" by blast
  with tmem_read_after_write [OF this] show ?thesis by blast
qed

lemma tmem_allocations_disjoint_witness:
  "\<exists>m. run_ops tmem_step fmempty tmem_sample = Some m \<and>
     (\<forall>k a. handed_out (get_or_create_scope tmem_scope0 m) k = Some a \<longrightarrow> columns_of a \<subseteq> {..<65536})"
proof -
  have "\<exists>m. run_ops tmem_step fmempty tmem_sample = Some m"
    by (simp add: tmem_eval)
  then obtain m where m: "run_ops tmem_step fmempty tmem_sample = Some m" by blast
  show ?thesis
    using m tmem_allocations_disjoint [OF m, of tmem_scope0] by (intro exI [of _ m]) simp
qed

end
