(* ===== verification/Simt_Stack.thy ===== *)
theory Simt_Stack
  imports Prelude
begin

section \<open>SIMT stack\<close>

text \<open>
  Models \<^verbatim>\<open>simt_stack\<close> of \<^verbatim>\<open>src/abstract_hardware_model.h\<close> and \<^verbatim>\<open>.cc\<close>: the
  post-dominator reconvergence stack of a warp, and \<^verbatim>\<open>core_t::updateSIMTStack\<close>, which feeds it.
  A mask (\<^verbatim>\<open>std::bitset<32>\<close>) is the set of its lanes, program counters are 64-bit words and
  the deque is a list whose head is the top of the stack. The statistics call at the end of
  \<^verbatim>\<open>update\<close> and the checkpoint files are left out.
\<close>

subsection \<open>Data\<close>

datatype uarch_op =
    NO_OP | ALU_OP | SFU_OP | TENSOR_CORE_OP | DP_OP | SP_OP | INTP_OP | ALU_SFU_OP | LOAD_OP
  | TENSOR_CORE_LOAD_OP | TENSOR_CORE_STORE_OP | TENSOR_MEMORY_ACCELERATOR_OP | ASYNC_COPY_OP
  | TENSOR_MAP_OP | STORE_OP | BRANCH_OP | BARRIER_OP | MBARRIER_OP | MEMORY_BARRIER_OP
  | CALL_OPS | RET_OPS | EXIT_OPS | SPECIALIZED_UNIT_OP nat

datatype stack_entry_type = STACK_ENTRY_TYPE_NORMAL | STACK_ENTRY_TYPE_CALL

type_synonym simt_mask = "nat set"

record simt_entry =
  sn_pc :: u64
  sn_calldepth :: nat
  sn_mask :: simt_mask
  sn_recvg :: u64
  sn_div_cycle :: nat
  sn_type :: stack_entry_type

type_synonym simt_stack = "simt_entry list"

definition null_pc :: u64 where "null_pc = - 1"
definition RECONVERGE_RETURN_PC :: u64 where "RECONVERGE_RETURN_PC = - 2"

definition new_entry :: simt_entry where
  "new_entry = \<lparr>sn_pc = - 1, sn_calldepth = 0, sn_mask = {}, sn_recvg = - 1, sn_div_cycle = 0,
     sn_type = STACK_ENTRY_TYPE_NORMAL\<rparr>"

text \<open>What \<^verbatim>\<open>update\<close> is told of the instruction just executed.\<close>

record simt_inst =
  si_op :: uarch_op
  si_size :: nat
  si_pc :: u64
  si_recvg :: u64

subsection \<open>Operations\<close>

definition simt_launch :: "u64 \<Rightarrow> simt_mask \<Rightarrow> simt_stack" where
  "simt_launch start_pc active_mask =
     [new_entry\<lparr>sn_pc := start_pc, sn_calldepth := 1, sn_mask := active_mask\<rparr>]"

fun get_active_mask :: "simt_stack \<Rightarrow> simt_mask option" where
  "get_active_mask [] = None"
| "get_active_mask (e # es) = Some (sn_mask e)"

text \<open>The two results are stored in \<^verbatim>\<open>unsigned\<close> variables.\<close>

fun get_pdom_stack_top_info :: "simt_stack \<Rightarrow> (u32 \<times> u32) option" where
  "get_pdom_stack_top_info [] = None"
| "get_pdom_stack_top_info (e # es) = Some (ucast (sn_pc e), ucast (sn_recvg e))"

fun get_rp :: "simt_stack \<Rightarrow> u32 option" where
  "get_rp [] = None"
| "get_rp (e # es) = Some (ucast (sn_recvg e))"

text \<open>
  One pass over the lanes of the warp, from the highest: completed threads leave the active
  mask, and the threads with the next PC of the first live one leave it as a group.
\<close>

fun scan_lanes ::
    "nat \<Rightarrow> simt_mask \<Rightarrow> u64 list \<Rightarrow> simt_mask \<Rightarrow> u64 \<Rightarrow> simt_mask \<Rightarrow> simt_mask \<times> u64 \<times> simt_mask"
  where
  "scan_lanes 0 finished next_pc act pc grp = (act, pc, grp)"
| "scan_lanes (Suc i) finished next_pc act pc grp =
     (if i \<in> act then
        if i \<in> finished then scan_lanes i finished next_pc (act - {i}) pc grp
        else if pc = null_pc
        then scan_lanes i finished next_pc (act - {i}) (next_pc ! i) (insert i grp)
        else if pc = next_pc ! i
        then scan_lanes i finished next_pc (act - {i}) pc (insert i grp)
        else scan_lanes i finished next_pc act pc grp
      else scan_lanes i finished next_pc act pc grp)"

text \<open>The map from next PC to mask, sorted by its key.\<close>

fun put_path :: "u64 \<Rightarrow> simt_mask \<Rightarrow> (u64 \<times> simt_mask) list \<Rightarrow> (u64 \<times> simt_mask) list" where
  "put_path k m [] = [(k, m)]"
| "put_path k m ((k', m') # ps) =
     (if k < k' then (k, m) # (k', m') # ps
      else if k = k' then (k, m) # ps
      else (k', m') # put_path k m ps)"

lemma scan_lanes_top: "scan_lanes i f np act pc g = (act', pc', g') \<Longrightarrow> act' \<subseteq> act"
  by (induction i arbitrary: act pc g) (auto split: if_splits)

lemma scan_lanes_smaller:
  "scan_lanes i f np act null_pc g = (act', pc', g') \<Longrightarrow> pc' \<noteq> null_pc \<Longrightarrow>
   act' \<inter> {..<i} \<subset> act \<inter> {..<i}"
proof (induction i arbitrary: act g)
  case (Suc i)
  have sub: "act' \<subseteq> act" by (rule scan_lanes_top [OF Suc.prems(1)])
  show ?case
  proof (cases "i \<in> act")
    case True
    then have "act' \<subseteq> act - {i}"
      using Suc.prems(1) scan_lanes_top by (fastforce split: if_splits)
    with True show ?thesis by auto
  next
    case False
    with Suc.prems have "act' \<inter> {..<i} \<subset> act \<inter> {..<i}" by (intro Suc.IH) simp_all
    with sub False show ?thesis by (auto simp: lessThan_Suc)
  qed
qed simp

lemma scan_lanes_card:
  "(act', pc, grp) = scan_lanes n f np act null_pc {} \<Longrightarrow> pc \<noteq> null_pc \<Longrightarrow>
   card (act' \<inter> {..<n}) < card (act \<inter> {..<n})"
  by (rule psubset_card_mono) (auto dest!: sym [of "(act', pc, grp)"] scan_lanes_smaller)

text \<open>The loop that splits the active threads into the divergent paths.\<close>

function gather_paths ::
    "nat \<Rightarrow> simt_mask \<Rightarrow> u64 list \<Rightarrow> simt_mask \<Rightarrow> (u64 \<times> simt_mask) list \<Rightarrow> nat \<Rightarrow>
     ((u64 \<times> simt_mask) list \<times> nat) option" where
  "gather_paths n finished next_pc act paths num =
     (if act = {} then Some (paths, num)
      else case scan_lanes n finished next_pc act null_pc {} of (act', pc, grp) \<Rightarrow>
        if pc = null_pc then (if act' = {} then Some (paths, num) else None)
        else gather_paths n finished next_pc act' (put_path pc grp paths) (num + 1))"
  by pat_completeness auto
termination
  by (relation "measure (\<lambda>(n, _, _, act, _, _). card (act \<inter> {..<n}))")
    (simp_all, metis scan_lanes_card)

declare gather_paths.simps [simp del]

text \<open>The fall-through path goes first; otherwise the map is taken from its smallest key.\<close>

definition pick_path ::
    "u64 \<Rightarrow> nat \<Rightarrow> (u64 \<times> simt_mask) list \<Rightarrow> ((u64 \<times> simt_mask) \<times> (u64 \<times> simt_mask) list) option"
  where
  "pick_path not_taken_pc i paths =
     (case map_of paths not_taken_pc of
        Some m \<Rightarrow> do {
          cassert (i = 0);
          Some ((not_taken_pc, m), filter (\<lambda>p. fst p \<noteq> not_taken_pc) paths)
        }
      | None \<Rightarrow> (case paths of [] \<Rightarrow> None | p # ps \<Rightarrow> Some (p, ps)))"

text \<open>The values of \<^verbatim>\<open>update\<close> that its loop over the paths reads.\<close>

record simt_ctx =
  cx_inst :: simt_inst
  cx_num :: nat
  cx_top_recvg :: u64
  cx_top_type :: stack_entry_type
  cx_cycle :: nat

definition not_taken_pc :: "simt_inst \<Rightarrow> u64" where
  "not_taken_pc inst = si_pc inst + of_nat (si_size inst)"

fun upd_top :: "(simt_entry \<Rightarrow> simt_entry) \<Rightarrow> simt_stack \<Rightarrow> simt_stack" where
  "upd_top f [] = []"
| "upd_top f (e # es) = f e # es"

definition call_entry :: "u64 \<Rightarrow> simt_mask \<Rightarrow> nat \<Rightarrow> simt_entry" where
  "call_entry pc lanes cycle = new_entry\<lparr>sn_pc := pc, sn_mask := lanes, sn_div_cycle := cycle,
     sn_type := STACK_ENTRY_TYPE_CALL\<rparr>"

text \<open>A return pops the call entry, and the caller's entry too when it reconverges there.\<close>

fun pop_call :: "u64 \<Rightarrow> simt_stack \<Rightarrow> simt_stack option" where
  "pop_call pc (c # e # es) =
     (if pc = sn_recvg e \<and> sn_type e \<noteq> STACK_ENTRY_TYPE_CALL then Some es
      else Some (e\<lparr>sn_pc := pc\<rparr> # es))"
| "pop_call pc _ = None"

datatype placed = Returned simt_stack | Finished simt_stack

fun place_paths ::
    "simt_ctx \<Rightarrow> nat \<Rightarrow> nat \<Rightarrow> (u64 \<times> simt_mask) list \<Rightarrow> bool \<Rightarrow> u64 \<Rightarrow> simt_stack \<Rightarrow> placed option"
  where
  "place_paths c 0 i paths diverged new_recvg st = Some (Finished st)"
| "place_paths c (Suc k) i paths diverged new_recvg st = do {
     ((pc, lanes), rest) \<leftarrow> pick_path (not_taken_pc (cx_inst c)) i paths;
     if si_op (cx_inst c) = CALL_OPS then do {
       cassert (cx_num c = 1);
       Some (Returned (call_entry pc lanes (cx_cycle c) # st))
     }
     else if si_op (cx_inst c) = RET_OPS \<and> cx_top_type c = STACK_ENTRY_TYPE_CALL then do {
       cassert (cx_num c = 1);
       st1 \<leftarrow> pop_call pc st;
       Some (Returned st1)
     }
     else if pc = cx_top_recvg c \<and> cx_top_type c \<noteq> STACK_ENTRY_TYPE_CALL
     then place_paths c k (i + 1) rest diverged new_recvg st
     else
       let diverges = (1 < cx_num c \<and> \<not> diverged);
           diverged1 = (diverged \<or> diverges);
           recvg1 = (if diverges then si_recvg (cx_inst c) else new_recvg);
           st1 = (if diverges \<and> recvg1 \<noteq> cx_top_recvg c
                  then new_entry # upd_top (\<lambda>e. e\<lparr>sn_pc := recvg1, sn_div_cycle := cx_cycle c\<rparr>) st
                  else st)
       in if diverged1 \<and> pc = recvg1 then place_paths c k (i + 1) rest diverged1 recvg1 st1
          else place_paths c k (i + 1) rest diverged1 recvg1
                 (new_entry # upd_top (\<lambda>e. if diverged1
                    then e\<lparr>sn_pc := pc, sn_mask := lanes, sn_calldepth := 0, sn_recvg := recvg1\<rparr>
                    else e\<lparr>sn_pc := pc, sn_mask := lanes, sn_recvg := cx_top_recvg c\<rparr>) st1)
   }"

definition simt_update ::
    "nat \<Rightarrow> nat \<Rightarrow> simt_mask \<Rightarrow> u64 list \<Rightarrow> simt_inst \<Rightarrow> simt_stack \<Rightarrow> simt_stack option" where
  "simt_update warp_size cycle finished next_pc inst st = (case st of [] \<Rightarrow> None | e # es \<Rightarrow> do {
     cassert (length next_pc = warp_size);
     cassert (sn_pc e = si_pc inst);
     cassert (sn_mask e \<noteq> {});
     (paths, num) \<leftarrow> gather_paths warp_size finished next_pc (sn_mask e) [] 0;
     cassert (num \<le> 2);
     r \<leftarrow> place_paths \<lparr>cx_inst = inst, cx_num = num, cx_top_recvg = sn_recvg e,
            cx_top_type = sn_type e, cx_cycle = cycle\<rparr> num 0 paths False null_pc st;
     (case r of Returned st1 \<Rightarrow> Some st1
      | Finished st1 \<Rightarrow> (case st1 of [] \<Rightarrow> None | _ # st2 \<Rightarrow> Some st2))
   })"

text \<open>
  \<^verbatim>\<open>core_t::updateSIMTStack\<close>: the contexts of the warp's threads give the completion mask and
  the next PCs; a branch that reconverges at the return of its function takes the return
  address of the first live thread of the warp.
\<close>

record thread_ctx =
  th_done :: bool
  th_pc :: u64
  th_return_pc :: u64

definition ptx_thread_done :: "thread_ctx option \<Rightarrow> bool" where
  "ptx_thread_done t = (case t of None \<Rightarrow> True | Some th \<Rightarrow> th_done th)"

fun resolve_recvg :: "thread_ctx option list \<Rightarrow> u64 \<Rightarrow> u64" where
  "resolve_recvg [] r = r"
| "resolve_recvg (t # ts) r =
     (case t of None \<Rightarrow> resolve_recvg ts r
      | Some th \<Rightarrow> resolve_recvg ts
          (if \<not> th_done th \<and> r = RECONVERGE_RETURN_PC then th_return_pc th else r))"

definition next_pc_of :: "thread_ctx option \<Rightarrow> u64" where
  "next_pc_of t = (case t of None \<Rightarrow> - 1 | Some th \<Rightarrow> if th_done th then - 1 else th_pc th)"

definition updateSIMTStack ::
    "nat \<Rightarrow> nat \<Rightarrow> thread_ctx option list \<Rightarrow> simt_inst \<Rightarrow> simt_stack \<Rightarrow> simt_stack option" where
  "updateSIMTStack warp_size cycle threads inst st =
     simt_update warp_size cycle {i. i < warp_size \<and> ptx_thread_done (threads ! i)}
       (map next_pc_of threads)
       (inst\<lparr>si_recvg := resolve_recvg threads (si_recvg inst)\<rparr>) st"

subsection \<open>The divergent paths\<close>

definition lanes_to :: "u64 list \<Rightarrow> nat set \<Rightarrow> u64 \<Rightarrow> nat set" where
  "lanes_to np L p = {i \<in> L. np ! i = p}"

lemma scan_lanes_locked:
  "pc \<noteq> null_pc \<Longrightarrow> scan_lanes i f np act pc grp =
     (act - {j. j < i \<and> (j \<in> f \<or> np ! j = pc)}, pc, grp \<union> {j. j < i \<and> j \<in> act \<and> j \<notin> f \<and> np ! j = pc})"
proof (induction i arbitrary: act grp)
  case (Suc i)
  note ih = Suc.IH [OF Suc.prems]
  consider "i \<notin> act" | "i \<in> act" "i \<in> f" | "i \<in> act" "i \<notin> f" "pc = np ! i"
    | "i \<in> act" "i \<notin> f" "pc \<noteq> np ! i" by blast
  then show ?case
  proof cases
    case 1
    then show ?thesis by (auto simp: ih less_Suc_eq)
  next
    case 2
    then show ?thesis using Suc.prems by (auto simp: ih less_Suc_eq)
  next
    case 3
    then have "scan_lanes (Suc i) f np act pc grp = scan_lanes i f np (act - {i}) pc (insert i grp)"
      using Suc.prems by simp
    then show ?thesis unfolding ih using 3 by (auto simp: less_Suc_eq)
  next
    case 4
    then have "scan_lanes (Suc i) f np act pc grp = scan_lanes i f np act pc grp"
      using Suc.prems by simp
    then show ?thesis unfolding ih using 4 by (auto simp: less_Suc_eq)
  qed
qed simp

lemma scan_lanes_all_done:
  "(\<And>j. j < i \<Longrightarrow> j \<in> act \<Longrightarrow> j \<in> f) \<Longrightarrow>
   scan_lanes i f np act null_pc {} = (act - {j. j < i \<and> j \<in> f}, null_pc, {})"
proof (induction i arbitrary: act)
  case (Suc i)
  have "scan_lanes (Suc i) f np act null_pc {} = scan_lanes i f np (act - {i}) null_pc {}"
    using Suc.prems by (cases "i \<in> act") auto
  then show ?case
    using Suc.IH [of "act - {i}"] Suc.prems by (auto simp: less_Suc_eq)
qed simp

lemma scan_lanes_first_live:
  assumes "k < i" "k \<in> act" "k \<notin> f" "np ! k \<noteq> null_pc"
    and "\<And>j. k < j \<Longrightarrow> j < i \<Longrightarrow> j \<in> act \<Longrightarrow> j \<in> f"
  shows "scan_lanes i f np act null_pc {} =
    (act - {j. j < i \<and> (j \<in> f \<or> np ! j = np ! k)}, np ! k,
     {j. j < i \<and> j \<in> act \<and> j \<notin> f \<and> np ! j = np ! k})"
  using assms
proof (induction i arbitrary: act)
  case (Suc i)
  show ?case
  proof (cases "i = k")
    case True
    then have "scan_lanes (Suc i) f np act null_pc {} = scan_lanes i f np (act - {i}) (np ! i) {i}"
      using Suc.prems by simp
    then show ?thesis
      using Suc.prems unfolding scan_lanes_locked [OF Suc.prems(4), folded True]
      by (auto simp: less_Suc_eq True)
  next
    case False
    then have "scan_lanes (Suc i) f np act null_pc {} = scan_lanes i f np (act - {i}) null_pc {}"
      using Suc.prems by (cases "i \<in> act") auto
    moreover have "i \<in> act \<Longrightarrow> i \<in> f" using Suc.prems False by auto
    ultimately show ?thesis
      using Suc.IH [of "act - {i}"] Suc.prems False by (auto simp: less_Suc_eq)
  qed
qed simp

lemma scan_lanes_fresh:
  assumes "act \<subseteq> {..<i}" "\<And>j. j \<in> act - f \<Longrightarrow> np ! j \<noteq> null_pc"
  obtains "act - f = {}" "scan_lanes i f np act null_pc {} = ({}, null_pc, {})"
  | k where "k \<in> act - f" "scan_lanes i f np act null_pc {} =
      (act - {j. j < i \<and> (j \<in> f \<or> np ! j = np ! k)}, np ! k,
       {j. j < i \<and> j \<in> act \<and> j \<notin> f \<and> np ! j = np ! k})"
proof (cases "act - f = {}")
  case True
  then have "scan_lanes i f np act null_pc {} = (act - {j. j < i \<and> j \<in> f}, null_pc, {})"
    by (intro scan_lanes_all_done) auto
  moreover have "act - {j. j < i \<and> j \<in> f} = {}" using True assms(1) by auto
  ultimately show ?thesis using True by (intro that(1)) simp_all
next
  case False
  have fin: "finite (act - f)" using assms(1) finite_subset by blast
  define k where "k = Max (act - f)"
  have k: "k \<in> act - f" unfolding k_def by (rule Max_in [OF fin False])
  have later: "j \<in> f" if "k < j" "j \<in> act" for j
    using that Max_ge [OF fin, of j] unfolding k_def by auto
  show ?thesis
    by (rule that(2) [OF k], rule scan_lanes_first_live) (use k assms later in auto)
qed

definition strictly_sorted :: "(u64 \<times> simt_mask) list \<Rightarrow> bool" where
  "strictly_sorted ps \<longleftrightarrow> sorted_wrt (<) (map fst ps)"

lemma put_path_set: "k \<notin> fst ` set ps \<Longrightarrow> set (put_path k m ps) = insert (k, m) (set ps)"
proof (induction ps)
  case (Cons p ps)
  then show ?case by (cases p) (simp split: if_splits, blast)
qed simp

lemma put_path_sorted:
  "strictly_sorted ps \<Longrightarrow> k \<notin> fst ` set ps \<Longrightarrow> strictly_sorted (put_path k m ps)"
proof (induction ps)
  case (Cons p ps)
  obtain k' m' where p: "p = (k', m')" by (cases p)
  from Cons have ih: "strictly_sorted (put_path k m ps)" by (simp add: strictly_sorted_def)
  have "set (put_path k m ps) = insert (k, m) (set ps)"
    using Cons.prems(2) by (intro put_path_set) simp
  then have keys: "set (map fst (put_path k m ps)) = insert k (fst ` set ps)" by simp
  from Cons.prems ih keys show ?case
    by (auto simp: strictly_sorted_def p)
qed (simp add: strictly_sorted_def)

lemma gather_paths_spec:
  assumes "act \<subseteq> {..<n}" "\<And>j. j \<in> act - f \<Longrightarrow> np ! j \<noteq> null_pc"
    and "strictly_sorted ps" "\<And>j. j \<in> act - f \<Longrightarrow> np ! j \<notin> fst ` set ps"
  shows "\<exists>ps'. gather_paths n f np act ps num = Some (ps', num + card ((!) np ` (act - f))) \<and>
    strictly_sorted ps' \<and>
    set ps' = set ps \<union> (\<lambda>p. (p, lanes_to np (act - f) p)) ` (!) np ` (act - f)"
  using assms
proof (induction n f np act ps num rule: gather_paths.induct)
  case (1 n f np act ps num)
  have fin: "finite act" using 1(2) finite_subset by blast
  show ?case
  proof (cases "act = {}")
    case True
    then show ?thesis using 1 by (simp add: gather_paths.simps)
  next
    case False
    consider (done') "act - f = {}" "scan_lanes n f np act null_pc {} = ({}, null_pc, {})"
      | (grp) k where "k \<in> act - f" "scan_lanes n f np act null_pc {} =
          (act - {j. j < n \<and> (j \<in> f \<or> np ! j = np ! k)}, np ! k,
           {j. j < n \<and> j \<in> act \<and> j \<notin> f \<and> np ! j = np ! k})"
      by (rule scan_lanes_fresh [OF 1(2,3)])
    then show ?thesis
    proof cases
      case done'
      then have "gather_paths n f np act ps num = Some (ps, num)"
        using False by (simp add: gather_paths.simps [of n f np act])
      then show ?thesis using 1(4) unfolding done'(1) by simp
    next
      case grp
      let ?act' = "act - {j. j < n \<and> (j \<in> f \<or> np ! j = np ! k)}"
      let ?g = "{j. j < n \<and> j \<in> act \<and> j \<notin> f \<and> np ! j = np ! k}"
      have g: "?g = lanes_to np (act - f) (np ! k)" using 1(2) by (auto simp: lanes_to_def)
      have nn: "np ! k \<noteq> null_pc" using grp(1) 1(3) by blast
      have rest: "?act' - f = {j \<in> act - f. np ! j \<noteq> np ! k}" using 1(2) by auto
      have fresh: "np ! k \<notin> fst ` set ps" using grp(1) 1(5) by blast
      have img: "(!) np ` (act - f) = insert (np ! k) ((!) np ` (?act' - f))"
        using grp(1) unfolding rest by auto
      have notin: "np ! k \<notin> (!) np ` (?act' - f)" unfolding rest by auto
      have same: "lanes_to np (?act' - f) p = lanes_to np (act - f) p" if "p \<noteq> np ! k" for p
        using that unfolding rest by (auto simp: lanes_to_def)
      have step: "gather_paths n f np act ps num =
          gather_paths n f np ?act' (put_path (np ! k) ?g ps) (num + 1)"
        using False nn grp(2) by (simp add: gather_paths.simps [of n f np act])
      have "\<exists>ps'. gather_paths n f np ?act' (put_path (np ! k) ?g ps) (num + 1)
            = Some (ps', num + 1 + card ((!) np ` (?act' - f))) \<and> strictly_sorted ps' \<and>
          set ps' = set (put_path (np ! k) ?g ps) \<union>
            (\<lambda>p. (p, lanes_to np (?act' - f) p)) ` (!) np ` (?act' - f)"
      proof (rule 1(1) [OF False grp(2) [symmetric] refl nn])
        show "?act' \<subseteq> {..<n}" using 1(2) by blast
        show "np ! j \<noteq> null_pc" if "j \<in> ?act' - f" for j using that 1(3) by blast
        show "strictly_sorted (put_path (np ! k) ?g ps)" by (rule put_path_sorted [OF 1(4) fresh])
        show "np ! j \<notin> fst ` set (put_path (np ! k) ?g ps)" if j: "j \<in> ?act' - f" for j
        proof -
          have "np ! j \<noteq> np ! k" using j 1(2) by auto
          moreover have "np ! j \<notin> fst ` set ps" using j 1(5) by blast
          ultimately show ?thesis unfolding put_path_set [OF fresh] by simp
        qed
      qed
      then obtain ps' where ps': "gather_paths n f np act ps num = Some (ps', num + 1 + card ((!) np ` (?act' - f)))"
        "strictly_sorted ps'" and set': "set ps' = set (put_path (np ! k) ?g ps) \<union>
            (\<lambda>p. (p, lanes_to np (?act' - f) p)) ` (!) np ` (?act' - f)"
        unfolding step by blast
      have "card ((!) np ` (act - f)) = Suc (card ((!) np ` (?act' - f)))"
        unfolding img using notin fin by simp
      moreover have "set ps' = set ps \<union> (\<lambda>p. (p, lanes_to np (act - f) p)) ` (!) np ` (act - f)"
      proof -
        define K where "K = (!) np ` (?act' - f)"
        have "(p, lanes_to np (?act' - f) p) = (p, lanes_to np (act - f) p)" if "p \<in> K" for p
        proof -
          from that notin have "p \<noteq> np ! k" unfolding K_def by metis
          with same show ?thesis by simp
        qed
        then have "(\<lambda>p. (p, lanes_to np (?act' - f) p)) ` K = (\<lambda>p. (p, lanes_to np (act - f) p)) ` K"
          by (intro image_cong refl)
        then show ?thesis
          unfolding set' put_path_set [OF fresh] img g K_def [symmetric] by simp
      qed
      ultimately show ?thesis using ps' by (intro exI [of _ ps']) simp
    qed
  qed
qed

subsection \<open>One, two or no paths\<close>

lemma strictly_sorted_two:
  "strictly_sorted ps \<Longrightarrow> set ps = {(p, P), (q, Q)} \<Longrightarrow> p \<noteq> q \<Longrightarrow> ps = [(p, P), (q, Q)] \<or> ps = [(q, Q), (p, P)]"
proof -
  assume s: "strictly_sorted ps" and st: "set ps = {(p, P), (q, Q)}" and ne: "p \<noteq> q"
  have "distinct (map fst ps)"
    using s by (simp add: strictly_sorted_def strict_sorted_iff)
  then have "distinct ps" by (simp add: distinct_map)
  with st ne have "length ps = 2" by (metis card_2_iff distinct_card prod.inject)
  then obtain x y where ps: "ps = [x, y]" by (auto simp: length_Suc_conv numeral_2_eq_2)
  with st ne show ?thesis by (auto simp: doubleton_eq_iff)
qed

lemma gather_none:
  assumes "act \<subseteq> {..<n}" "act - f = {}"
  shows "gather_paths n f np act [] 0 = Some ([], 0)"
  using gather_paths_spec [OF assms(1), of f np "[]" 0] assms(2) by (auto simp: strictly_sorted_def)

lemma gather_one:
  assumes "act \<subseteq> {..<n}" "p \<noteq> null_pc" "(!) np ` (act - f) = {p}"
  shows "gather_paths n f np act [] 0 = Some ([(p, act - f)], 1)"
proof -
  have "lanes_to np (act - f) p = act - f" using assms(3) by (auto simp: lanes_to_def)
  moreover have "np ! j \<noteq> null_pc" if "j \<in> act - f" for j
    using imageI [OF that, of "(!) np"] assms(2,3) by auto
  ultimately obtain ps where g: "gather_paths n f np act [] 0 = Some (ps, 1)" and "strictly_sorted ps"
    and set': "set ps = {(p, act - f)}"
    using gather_paths_spec [OF assms(1), of f np "[]" 0] assms(3) by (auto simp: strictly_sorted_def)
  then have "distinct ps" by (simp add: strictly_sorted_def strict_sorted_iff distinct_map)
  with set' have "ps = [(p, act - f)]"
    by (metis distinct_card card.insert card.empty finite.emptyI empty_iff One_nat_def length_0_conv
        length_Suc_conv list.set_intros(1) singletonD)
  with g show ?thesis by simp
qed

lemma gather_two:
  assumes "act \<subseteq> {..<n}" "p \<noteq> null_pc" "q \<noteq> null_pc" "p \<noteq> q" "(!) np ` (act - f) = {p, q}"
  defines "P \<equiv> lanes_to np (act - f) p" and "Q \<equiv> lanes_to np (act - f) q"
  shows "gather_paths n f np act [] 0 = Some ([(p, P), (q, Q)], 2) \<or>
    gather_paths n f np act [] 0 = Some ([(q, Q), (p, P)], 2)"
proof -
  have "np ! j \<noteq> null_pc" if "j \<in> act - f" for j
    using imageI [OF that, of "(!) np"] assms(2,3,5) by auto
  then obtain ps where "gather_paths n f np act [] 0 = Some (ps, 2)" "strictly_sorted ps"
    "set ps = {(p, P), (q, Q)}"
    using gather_paths_spec [OF assms(1), of f np "[]" 0] assms(4,5)
    by (auto simp: strictly_sorted_def P_def Q_def)
  with strictly_sorted_two [OF this(2,3) assms(4)] show ?thesis by auto
qed

lemma pick_two:
  assumes "p \<noteq> q"
  shows "pick_path nt 0 [(p, P), (q, Q)] = Some ((p, P), [(q, Q)]) \<or>
    pick_path nt 0 [(p, P), (q, Q)] = Some ((q, Q), [(p, P)])"
  using assms by (auto simp: pick_path_def)

lemma pick_last:
  "pick_path nt 0 [(p, P)] = Some ((p, P), [])"
  "p \<noteq> nt \<Longrightarrow> pick_path nt i [(p, P)] = Some ((p, P), [])"
  by (auto simp: pick_path_def)

text \<open>The fall-through path is never left for the second turn.\<close>

lemma pick_two_then_last:
  assumes "p \<noteq> q" "pick_path nt 0 ps = Some (x, [(q, Q)])" "ps = [(p, P), (q, Q)] \<or> ps = [(q, Q), (p, P)]"
  shows "x = (p, P) \<and> pick_path nt i [(q, Q)] = Some ((q, Q), [])"
  using assms by (auto simp: pick_path_def split: if_splits)

subsection \<open>What a step makes of the stack\<close>

text \<open>
  The stack after a step, case by case: \<open>step_one\<close> when the live threads have one next PC,
  \<open>step_two\<close> when they have two, the path \<open>(p, P)\<close> placed first.
\<close>

definition step_one :: "simt_ctx \<Rightarrow> u64 \<Rightarrow> simt_mask \<Rightarrow> simt_entry \<Rightarrow> simt_stack \<Rightarrow> simt_stack option" where
  "step_one c p P e es =
     (if si_op (cx_inst c) = CALL_OPS then Some (call_entry p P (cx_cycle c) # e # es)
      else if si_op (cx_inst c) = RET_OPS \<and> sn_type e = STACK_ENTRY_TYPE_CALL then pop_call p (e # es)
      else if p = sn_recvg e \<and> sn_type e \<noteq> STACK_ENTRY_TYPE_CALL then Some es
      else Some (e\<lparr>sn_pc := p, sn_mask := P\<rparr> # es))"

definition path_entry :: "u64 \<Rightarrow> simt_mask \<Rightarrow> u64 \<Rightarrow> simt_entry" where
  "path_entry p P r = new_entry\<lparr>sn_pc := p, sn_mask := P, sn_recvg := r\<rparr>"

definition over_entry :: "u64 \<Rightarrow> simt_mask \<Rightarrow> u64 \<Rightarrow> simt_entry \<Rightarrow> simt_entry" where
  "over_entry p P r e = e\<lparr>sn_pc := p, sn_mask := P, sn_calldepth := 0, sn_recvg := r\<rparr>"

definition step_two ::
    "simt_ctx \<Rightarrow> u64 \<Rightarrow> simt_mask \<Rightarrow> u64 \<Rightarrow> simt_mask \<Rightarrow> simt_entry \<Rightarrow> simt_stack \<Rightarrow> simt_stack" where
  "step_two c p P q Q e es =
     (let r = si_recvg (cx_inst c); rc = e\<lparr>sn_pc := r, sn_div_cycle := cx_cycle c\<rparr>
      in if sn_type e \<noteq> STACK_ENTRY_TYPE_CALL \<and> p = sn_recvg e then over_entry q Q r e # es
         else if sn_type e \<noteq> STACK_ENTRY_TYPE_CALL \<and> q = sn_recvg e then over_entry p P r e # es
         else if r = sn_recvg e then path_entry q Q r # over_entry p P r e # es
         else if p = r then path_entry q Q r # rc # es
         else if q = r then path_entry p P r # rc # es
         else path_entry q Q r # path_entry p P r # rc # es)"

lemma place_one:
  assumes "cx_num c = 1" "cx_top_recvg c = sn_recvg e" "cx_top_type c = sn_type e"
  shows "place_paths c 1 0 [(p, P)] False null_pc (e # es) =
    (if si_op (cx_inst c) = CALL_OPS \<or> si_op (cx_inst c) = RET_OPS \<and> sn_type e = STACK_ENTRY_TYPE_CALL
     then map_option Returned (step_one c p P e es)
     else map_option (\<lambda>s. Finished ((if p = sn_recvg e \<and> sn_type e \<noteq> STACK_ENTRY_TYPE_CALL then e else new_entry) # s))
       (step_one c p P e es))"
  using assms by (auto simp: step_one_def pick_last Let_def map_option_case bind_map_option split: option.split)

lemma new_entry_path [simp]:
  "new_entry\<lparr>sn_pc := p, sn_mask := P, sn_calldepth := 0, sn_recvg := r\<rparr> = path_entry p P r"
  by (simp add: path_entry_def new_entry_def)

lemma place_two:
  assumes c: "cx_num c = 2" "cx_top_recvg c = sn_recvg e" "cx_top_type c = sn_type e"
    and plain: "si_op (cx_inst c) \<noteq> CALL_OPS"
      "\<not> (si_op (cx_inst c) = RET_OPS \<and> sn_type e = STACK_ENTRY_TYPE_CALL)"
    and pq: "p \<noteq> q"
    and first: "pick_path (not_taken_pc (cx_inst c)) 0 ps = Some ((p, P), [(q, Q)])"
      "pick_path (not_taken_pc (cx_inst c)) 1 [(q, Q)] = Some ((q, Q), [])"
    and recvg: "sn_type e \<noteq> STACK_ENTRY_TYPE_CALL \<Longrightarrow> sn_recvg e \<in> {p, q} \<Longrightarrow> si_recvg (cx_inst c) = sn_recvg e"
      "sn_type e = STACK_ENTRY_TYPE_CALL \<Longrightarrow> sn_recvg e \<notin> {p, q}"
  shows "\<exists>d. place_paths c 2 0 ps False null_pc (e # es) = Some (Finished (d # step_two c p P q Q e es))"
proof -
  have two: "place_paths c 2 = place_paths c (Suc (Suc 0))" by (simp add: numeral_2_eq_2)
  note simps = two first [unfolded One_nat_def] c plain step_two_def over_entry_def Let_def
  consider "sn_type e \<noteq> STACK_ENTRY_TYPE_CALL" "sn_recvg e = p"
    | "sn_type e \<noteq> STACK_ENTRY_TYPE_CALL" "sn_recvg e = q"
    | "sn_recvg e \<noteq> p" "sn_recvg e \<noteq> q" using recvg(2) by auto
  then show ?thesis
  proof cases
    case 1
    then show ?thesis using pq recvg(1) plain by (simp add: simps)
  next
    case 2
    then show ?thesis using pq recvg(1) plain by (simp add: simps)
  next
    case 3
    consider "si_recvg (cx_inst c) = sn_recvg e"
      | "si_recvg (cx_inst c) \<noteq> sn_recvg e" "si_recvg (cx_inst c) = p"
      | "si_recvg (cx_inst c) \<noteq> sn_recvg e" "si_recvg (cx_inst c) = q"
      | "si_recvg (cx_inst c) \<noteq> sn_recvg e" "p \<noteq> si_recvg (cx_inst c)"
        "q \<noteq> si_recvg (cx_inst c)" by blast
    then show ?thesis using pq plain 3 by cases (simp_all add: simps)
  qed
qed

lemma simt_update_none:
  assumes "sn_mask e \<subseteq> {..<n}" "sn_mask e \<noteq> {}" "length np = n" "sn_pc e = si_pc inst"
    and "sn_mask e - f = {}"
  shows "simt_update n cycle f np inst (e # es) = Some es"
  using assms gather_none [OF assms(1,5), of np] by (simp add: simt_update_def)

definition ctx_of :: "nat \<Rightarrow> simt_inst \<Rightarrow> nat \<Rightarrow> simt_entry \<Rightarrow> simt_ctx" where
  "ctx_of cycle inst num e = \<lparr>cx_inst = inst, cx_num = num, cx_top_recvg = sn_recvg e,
     cx_top_type = sn_type e, cx_cycle = cycle\<rparr>"

lemma simt_update_one:
  assumes "sn_mask e \<subseteq> {..<n}" "sn_mask e \<noteq> {}" "length np = n" "sn_pc e = si_pc inst"
    and "(!) np ` (sn_mask e - f) = {p}" "p \<noteq> null_pc"
  shows "simt_update n cycle f np inst (e # es) =
    step_one (ctx_of cycle inst 1 e) p (sn_mask e - f) e es"
proof -
  have g: "gather_paths n f np (sn_mask e) [] 0 = Some ([(p, sn_mask e - f)], 1)"
    by (rule gather_one [OF assms(1,6,5)])
  note pl = place_one [of "ctx_of cycle inst 1 e" e p "sn_mask e - f" es]
  show ?thesis
    using assms(2,3,4) pl
    by (cases "step_one (ctx_of cycle inst 1 e) p (sn_mask e - f) e es")
      (auto simp: simt_update_def g ctx_of_def split: if_splits)
qed

lemma simt_update_ordered:
  assumes "sn_mask e \<noteq> {}" "length np = n" "sn_pc e = si_pc inst"
    and g: "gather_paths n f np (sn_mask e) [] 0 = Some (ps, 2)"
    and pk: "pick_path (not_taken_pc inst) 0 ps = Some ((p, P), [(q, Q)])"
      "pick_path (not_taken_pc inst) 1 [(q, Q)] = Some ((q, Q), [])"
    and pq: "p \<noteq> q"
    and plain: "si_op inst \<noteq> CALL_OPS" "\<not> (si_op inst = RET_OPS \<and> sn_type e = STACK_ENTRY_TYPE_CALL)"
    and recvg: "sn_type e \<noteq> STACK_ENTRY_TYPE_CALL \<Longrightarrow> sn_recvg e \<in> {p, q} \<Longrightarrow> si_recvg inst = sn_recvg e"
      "sn_type e = STACK_ENTRY_TYPE_CALL \<Longrightarrow> sn_recvg e \<notin> {p, q}"
  shows "simt_update n cycle f np inst (e # es) = Some (step_two (ctx_of cycle inst 2 e) p P q Q e es)"
proof -
  obtain d where "place_paths (ctx_of cycle inst 2 e) 2 0 ps False null_pc (e # es) =
      Some (Finished (d # step_two (ctx_of cycle inst 2 e) p P q Q e es))"
    using place_two [of "ctx_of cycle inst 2 e" e p q ps P Q es] pk plain pq recvg
    by (auto simp: ctx_of_def)
  with assms(1-3) g show ?thesis by (simp add: simt_update_def ctx_of_def)
qed

lemma simt_update_two:
  assumes "sn_mask e \<subseteq> {..<n}" "sn_mask e \<noteq> {}" "length np = n" "sn_pc e = si_pc inst"
    and img: "(!) np ` (sn_mask e - f) = {p, q}" "p \<noteq> null_pc" "q \<noteq> null_pc" "p \<noteq> q"
    and plain: "si_op inst \<noteq> CALL_OPS" "\<not> (si_op inst = RET_OPS \<and> sn_type e = STACK_ENTRY_TYPE_CALL)"
    and recvg: "sn_type e \<noteq> STACK_ENTRY_TYPE_CALL \<Longrightarrow> sn_recvg e \<in> {p, q} \<Longrightarrow> si_recvg inst = sn_recvg e"
      "sn_type e = STACK_ENTRY_TYPE_CALL \<Longrightarrow> sn_recvg e \<notin> {p, q}"
  defines "P \<equiv> lanes_to np (sn_mask e - f) p" and "Q \<equiv> lanes_to np (sn_mask e - f) q"
  shows "simt_update n cycle f np inst (e # es) = Some (step_two (ctx_of cycle inst 2 e) p P q Q e es) \<or>
    simt_update n cycle f np inst (e # es) = Some (step_two (ctx_of cycle inst 2 e) q Q p P e es)"
    and "p = not_taken_pc inst \<Longrightarrow>
    simt_update n cycle f np inst (e # es) = Some (step_two (ctx_of cycle inst 2 e) p P q Q e es)"
proof -
  obtain ps where g: "gather_paths n f np (sn_mask e) [] 0 = Some (ps, 2)"
    and ps: "ps = [(p, P), (q, Q)] \<or> ps = [(q, Q), (p, P)]"
    using gather_two [OF assms(1) img(2,3,4,1)] unfolding P_def Q_def by auto
  let ?nt = "not_taken_pc inst"
  have pfirst: "simt_update n cycle f np inst (e # es) = Some (step_two (ctx_of cycle inst 2 e) p P q Q e es)"
    if "pick_path ?nt 0 ps = Some ((p, P), [(q, Q)])" "pick_path ?nt 1 [(q, Q)] = Some ((q, Q), [])"
    by (rule simt_update_ordered [OF assms(2-4) g that img(4) plain recvg])
  have qfirst: "simt_update n cycle f np inst (e # es) = Some (step_two (ctx_of cycle inst 2 e) q Q p P e es)"
    if "pick_path ?nt 0 ps = Some ((q, Q), [(p, P)])" "pick_path ?nt 1 [(p, P)] = Some ((p, P), [])"
    by (rule simt_update_ordered [OF assms(2-4) g that img(4) [symmetric] plain]) (use recvg in auto)
  consider "pick_path ?nt 0 ps = Some ((p, P), [(q, Q)])" "pick_path ?nt 1 [(q, Q)] = Some ((q, Q), [])"
    | "pick_path ?nt 0 ps = Some ((q, Q), [(p, P)])" "pick_path ?nt 1 [(p, P)] = Some ((p, P), [])"
    using ps pick_two [of p q ?nt P Q] pick_two [of q p ?nt Q P] img(4)
      pick_two_then_last [OF img(4), of ?nt ps _ Q P 1] pick_two_then_last [OF img(4) [symmetric], of ?nt ps _ P Q 1]
    by metis
  then show "simt_update n cycle f np inst (e # es) = Some (step_two (ctx_of cycle inst 2 e) p P q Q e es) \<or>
    simt_update n cycle f np inst (e # es) = Some (step_two (ctx_of cycle inst 2 e) q Q p P e es)"
    by cases (use pfirst qfirst in blast)+
  show "simt_update n cycle f np inst (e # es) = Some (step_two (ctx_of cycle inst 2 e) p P q Q e es)"
    if "p = ?nt"
    by (rule pfirst) (use ps img(4) that in \<open>auto simp: pick_path_def\<close>)
qed

subsection \<open>Every thread runs at its own program counter\<close>

text \<open>
  Below an entry, thread \<open>t\<close> would next run at \<open>r\<close>: the first entry below that holds it is at
  \<open>r\<close>, with no call entry in between.
\<close>

fun lands :: "simt_stack \<Rightarrow> nat \<Rightarrow> u64 \<Rightarrow> bool" where
  "lands [] t r \<longleftrightarrow> False"
| "lands (e # es) t r \<longleftrightarrow>
     (if t \<in> sn_mask e then sn_pc e = r else sn_type e = STACK_ENTRY_TYPE_NORMAL \<and> lands es t r)"

text \<open>
  \<open>simt_entry_ok n D np U e es\<close>: the entry \<open>e\<close> above the entries \<open>es\<close> is well formed when the
  threads \<open>D\<close> are done, the PCs are \<open>np\<close> and the entries above \<open>e\<close> hold the threads \<open>U\<close>.
\<close>

definition simt_entry_ok :: "nat \<Rightarrow> nat set \<Rightarrow> u64 list \<Rightarrow> nat set \<Rightarrow> simt_entry \<Rightarrow> simt_stack \<Rightarrow> bool" where
  "simt_entry_ok n D np U e es \<longleftrightarrow>
     sn_mask e \<noteq> {} \<and> sn_mask e \<subseteq> {..<n} \<and>
     (sn_type e = STACK_ENTRY_TYPE_CALL \<longrightarrow> sn_recvg e = null_pc \<and> es \<noteq> [] \<and>
        sn_mask e \<subseteq> sn_mask (hd es) \<and> sn_mask (hd es) - D \<subseteq> U \<union> sn_mask e) \<and>
     (es = [] \<longrightarrow> sn_recvg e = null_pc) \<and>
     (sn_type e = STACK_ENTRY_TYPE_NORMAL \<longrightarrow> sn_recvg e \<noteq> null_pc \<longrightarrow>
        (\<forall>t \<in> sn_mask e - D. lands es t (sn_recvg e))) \<and>
     (\<forall>t \<in> sn_mask e - D - U. np ! t = sn_pc e)"

fun stack_ok :: "nat \<Rightarrow> nat set \<Rightarrow> u64 list \<Rightarrow> nat set \<Rightarrow> simt_stack \<Rightarrow> bool" where
  "stack_ok n D np U [] \<longleftrightarrow> True"
| "stack_ok n D np U (e # es) \<longleftrightarrow> simt_entry_ok n D np U e es \<and> stack_ok n D np (U \<union> sn_mask e) es"

lemma stack_ok_lower:
  assumes "stack_ok n D np U es" "D \<subseteq> D'"
    and "\<And>t. t \<in> U \<Longrightarrow> t \<notin> U' \<Longrightarrow> t \<notin> D' \<Longrightarrow> lands es t (np' ! t)"
    and "\<And>t. t < n \<Longrightarrow> t \<notin> U \<Longrightarrow> t \<notin> U' \<Longrightarrow> t \<notin> D' \<Longrightarrow> np' ! t = np ! t"
  shows "stack_ok n D' np' U' es"
  using assms
proof (induction es arbitrary: U U')
  case (Cons e es)
  from Cons.prems(1) have ok: "simt_entry_ok n D np U e es" and rest: "stack_ok n D np (U \<union> sn_mask e) es"
    by simp_all
  have "simt_entry_ok n D' np' U' e es"
    unfolding simt_entry_ok_def
  proof (intro conjI impI ballI)
    show "sn_mask e \<noteq> {}" "sn_mask e \<subseteq> {..<n}" using ok by (simp_all add: simt_entry_ok_def)
    show "sn_recvg e = null_pc" if "es = []" using ok that by (simp add: simt_entry_ok_def)
    show "lands es t (sn_recvg e)"
      if "sn_type e = STACK_ENTRY_TYPE_NORMAL" "sn_recvg e \<noteq> null_pc" "t \<in> sn_mask e - D'" for t
      using ok that Cons.prems(2) unfolding simt_entry_ok_def by blast
    show "np' ! t = sn_pc e" if t: "t \<in> sn_mask e - D' - U'" for t
    proof (cases "t \<in> U")
      case True
      with Cons.prems(3) [of t] t show ?thesis by simp
    next
      case False
      have "t < n" using ok t unfolding simt_entry_ok_def by blast
      with False Cons.prems(4) t have "np' ! t = np ! t" by blast
      also have "np ! t = sn_pc e" using ok t False Cons.prems(2) unfolding simt_entry_ok_def by blast
      finally show ?thesis .
    qed
    assume call: "sn_type e = STACK_ENTRY_TYPE_CALL"
    show "sn_recvg e = null_pc" "es \<noteq> []" "sn_mask e \<subseteq> sn_mask (hd es)"
      using ok call by (simp_all add: simt_entry_ok_def)
    show "sn_mask (hd es) - D' \<subseteq> U' \<union> sn_mask e"
    proof
      fix t
      assume t: "t \<in> sn_mask (hd es) - D'"
      then have "t \<in> U \<union> sn_mask e"
        using ok call Cons.prems(2) unfolding simt_entry_ok_def by blast
      then show "t \<in> U' \<union> sn_mask e" using Cons.prems(3) [of t] t call
        by (cases "t \<in> U'"; cases "t \<in> sn_mask e") simp_all
    qed
  qed
  moreover have "stack_ok n D' np' (U' \<union> sn_mask e) es"
    using Cons.prems(2,3,4)
    by (intro Cons.IH [OF rest]) (auto split: if_splits)
  ultimately show ?case by simp
qed simp

text \<open>A thread keeps being held by the stack after it has been dropped from the top.\<close>

lemma lands_held: "lands es t r \<Longrightarrow> \<exists>e \<in> set es. t \<in> sn_mask e"
  by (induction es) (auto split: if_splits)

definition held :: "simt_stack \<Rightarrow> nat set" where
  "held st = (\<Union>e \<in> set st. sn_mask e)"

lemma held_simps [simp]: "held [] = {}" "held (e # es) = sn_mask e \<union> held es"
  by (simp_all add: held_def)

lemma lands_in_held: "lands es t r \<Longrightarrow> t \<in> held es"
  using lands_held by (auto simp: held_def)

text \<open>The frame of a step: \<open>e\<close> is the top, \<open>L\<close> its threads that go on, at \<open>np'\<close>.\<close>

lemma stack_ok_keep:
  assumes "stack_ok n D np {} (e # es)" "D \<subseteq> D'" "sn_mask e - D' \<subseteq> U'"
    and "\<And>t. t < n \<Longrightarrow> t \<notin> sn_mask e \<Longrightarrow> t \<notin> D' \<Longrightarrow> np' ! t = np ! t"
  shows "stack_ok n D' np' U' (e # es)"
  by (rule stack_ok_lower [OF assms(1,2)]) (use assms(3,4) in blast)+

lemma stack_ok_rest:
  assumes "stack_ok n D np {} (e # es)" "D \<subseteq> D'"
    and "\<And>t. t < n \<Longrightarrow> t \<notin> sn_mask e \<Longrightarrow> t \<notin> D' \<Longrightarrow> np' ! t = np ! t"
    and "\<And>t. t \<in> sn_mask e - D' - U' \<Longrightarrow> lands es t (np' ! t)"
  shows "stack_ok n D' np' U' es"
proof (rule stack_ok_lower [where U = "sn_mask e"])
  show "stack_ok n D np (sn_mask e) es" using assms(1) by simp
qed (use assms(2-) in auto)

lemma lands_recvg:
  assumes "stack_ok n D np {} (e # es)" "D \<subseteq> D'" "sn_type e = STACK_ENTRY_TYPE_NORMAL"
    and "sn_recvg e \<noteq> null_pc" "t \<in> sn_mask e - D'"
  shows "lands es t (sn_recvg e)"
  using assms by (auto simp: simt_entry_ok_def)

lemma not_call [simp]: "(y \<noteq> STACK_ENTRY_TYPE_CALL) = (y = STACK_ENTRY_TYPE_NORMAL)"
  by (cases y) simp_all

text \<open>The frame of all cases of a step: the old stack is in order, and only the threads of the
  top entry move.\<close>

definition step_frame ::
    "nat \<Rightarrow> nat set \<Rightarrow> u64 list \<Rightarrow> nat set \<Rightarrow> u64 list \<Rightarrow> simt_entry \<Rightarrow> simt_stack \<Rightarrow> bool" where
  "step_frame n D np D' np' e es \<longleftrightarrow> stack_ok n D np {} (e # es) \<and> D \<subseteq> D' \<and>
     (\<forall>t < n. t \<notin> sn_mask e \<longrightarrow> t \<notin> D' \<longrightarrow> np' ! t = np ! t)"

lemma step_frameD:
  assumes "step_frame n D np D' np' e es"
  shows "stack_ok n D np {} (e # es)" "D \<subseteq> D'"
    "\<And>t. t < n \<Longrightarrow> t \<notin> sn_mask e \<Longrightarrow> t \<notin> D' \<Longrightarrow> np' ! t = np ! t"
    "simt_entry_ok n D np {} e es" "sn_mask e \<subseteq> {..<n}"
  using assms by (simp_all add: step_frame_def simt_entry_ok_def)

lemma frame_rest:
  assumes "step_frame n D np D' np' e es"
    and "\<And>t. t \<in> sn_mask e - D' - U' \<Longrightarrow> lands es t (np' ! t)"
  shows "stack_ok n D' np' U' es"
  by (rule stack_ok_rest [OF step_frameD(1-3) [OF assms(1)] assms(2)])

lemma frame_lands:
  assumes "step_frame n D np D' np' e es" "sn_type e = STACK_ENTRY_TYPE_NORMAL"
    and "sn_recvg e \<noteq> null_pc" "t \<in> sn_mask e" "t \<notin> D'"
  shows "lands es t (sn_recvg e)"
  using lands_recvg [OF step_frameD(1,2) [OF assms(1)] assms(2,3)] assms(4,5) by blast

lemma frame_call:
  assumes "step_frame n D np D' np' e es" "sn_type e = STACK_ENTRY_TYPE_CALL"
  obtains e2 es2 where "es = e2 # es2" "sn_recvg e = null_pc" "sn_mask e \<subseteq> sn_mask e2"
    "sn_mask e2 - D' \<subseteq> sn_mask e"
proof -
  from step_frameD(4) [OF assms(1)] assms(2)
  have "sn_recvg e = null_pc" "es \<noteq> []" "sn_mask e \<subseteq> sn_mask (hd es)" "sn_mask (hd es) - D \<subseteq> sn_mask e"
    by (simp_all add: simt_entry_ok_def)
  with step_frameD(2) [OF assms(1)] that [of "hd es" "tl es"] show ?thesis by (cases es) auto
qed

text \<open>The top entry continues with the threads \<open>P\<close> at \<open>p\<close>, below the entries that hold \<open>U\<close>.\<close>

lemma simt_entry_ok_over:
  assumes fr: "step_frame n D np D' np' e es"
    and P: "P \<noteq> {}" "P \<subseteq> sn_mask e - D'" "\<And>t. t \<in> P - U \<Longrightarrow> np' ! t = p"
    and e': "sn_pc e' = p" "sn_mask e' = P" "sn_type e' = sn_type e" "sn_recvg e' = sn_recvg e"
    and all: "sn_type e = STACK_ENTRY_TYPE_CALL \<Longrightarrow> sn_mask e - D' \<subseteq> U \<union> P"
  shows "simt_entry_ok n D' np' U e' es"
proof (cases "sn_type e")
  case STACK_ENTRY_TYPE_CALL
  from frame_call [OF fr this] obtain e2 es2 where "es = e2 # es2" "sn_recvg e = null_pc"
    "sn_mask e \<subseteq> sn_mask e2" "sn_mask e2 - D' \<subseteq> sn_mask e" .
  with P e' all STACK_ENTRY_TYPE_CALL step_frameD(5) [OF fr] show ?thesis
    unfolding simt_entry_ok_def by (simp add: e') blast
next
  case STACK_ENTRY_TYPE_NORMAL
  have "es = [] \<Longrightarrow> sn_recvg e = null_pc"
    using step_frameD(4) [OF fr] by (simp add: simt_entry_ok_def)
  with P e' STACK_ENTRY_TYPE_NORMAL step_frameD(5) [OF fr] frame_lands [OF fr] show ?thesis
    unfolding simt_entry_ok_def by (simp add: e') blast
qed

text \<open>The top entry turned into a reconvergence entry at \<open>r\<close>, below entries that hold \<open>U\<close>.\<close>

lemma simt_entry_ok_reconverge:
  assumes fr: "step_frame n D np D' np' e es"
    and r: "\<And>t. t \<in> sn_mask e - D' - U \<Longrightarrow> np' ! t = r"
  shows "simt_entry_ok n D' np' U (e\<lparr>sn_pc := r, sn_div_cycle := cy\<rparr>) es"
  using step_frameD(4) [OF fr] step_frameD(2) [OF fr] r unfolding simt_entry_ok_def by simp blast

lemma simt_entry_ok_path:
  assumes "Q \<noteq> {}" "Q \<subseteq> {..<n}" "\<And>t. t \<in> Q - U \<Longrightarrow> np' ! t = q" "st \<noteq> []"
    and "r \<noteq> null_pc \<Longrightarrow> \<forall>t \<in> Q - D'. lands st t r"
  shows "simt_entry_ok n D' np' U (path_entry q Q r) st"
  using assms by (simp add: simt_entry_ok_def path_entry_def new_entry_def)

lemma stack_ok_none:
  assumes fr: "step_frame n D np D' np' e es" and L: "sn_mask e - D' = {}"
  shows "stack_ok n D' np' {} es"
  using frame_rest [OF fr, of "{}"] L by auto

lemma stack_ok_one:
  assumes fr: "step_frame n D np D' np' e es"
    and L: "L = sn_mask e - D'" "L \<noteq> {}" "\<And>t. t \<in> L \<Longrightarrow> np' ! t = p" "p \<noteq> null_pc"
  shows "\<exists>st. step_one c p L e es = Some st \<and> stack_ok n D' np' {} st \<and> L \<subseteq> held st
    \<and> held es - D' \<subseteq> held st"
proof -
  consider (call) "si_op (cx_inst c) = CALL_OPS"
    | (ret) "si_op (cx_inst c) = RET_OPS" "sn_type e = STACK_ENTRY_TYPE_CALL"
    | (drop) "si_op (cx_inst c) \<noteq> CALL_OPS" "sn_type e = STACK_ENTRY_TYPE_NORMAL" "p = sn_recvg e"
    | (go) "si_op (cx_inst c) \<noteq> CALL_OPS"
        "\<not> (si_op (cx_inst c) = RET_OPS \<and> sn_type e = STACK_ENTRY_TYPE_CALL)"
        "\<not> (p = sn_recvg e \<and> sn_type e = STACK_ENTRY_TYPE_NORMAL)"
    by (cases "sn_type e") auto
  then show ?thesis
  proof cases
    case call
    let ?c = "call_entry p L (cx_cycle c)"
    have "stack_ok n D' np' L (e # es)"
      by (rule stack_ok_keep [OF step_frameD(1,2) [OF fr]]) (use L(1) step_frameD(3) [OF fr] in auto)
    moreover have "simt_entry_ok n D' np' {} ?c (e # es)"
      using L step_frameD(5) [OF fr]
      by (auto simp: simt_entry_ok_def call_entry_def new_entry_def null_pc_def)
    ultimately show ?thesis
      using call by (auto simp: step_one_def call_entry_def new_entry_def)
  next
    case ret
    obtain e2 es2 where es: "es = e2 # es2" and m: "sn_mask e \<subseteq> sn_mask e2" "sn_mask e2 - D' \<subseteq> sn_mask e"
      by (rule frame_call [OF fr ret(2)])
    have L2: "t \<in> L" if "t \<in> sn_mask e2" "t \<notin> D'" for t using that m L(1) by blast
    have low: "stack_ok n D' np (sn_mask e) (e2 # es2)"
      using stack_ok_lower [OF _ step_frameD(2) [OF fr], of n np "sn_mask e" es "sn_mask e" np]
        step_frameD(1) [OF fr] by (simp add: es)
    then have ok2: "simt_entry_ok n D' np (sn_mask e) e2 es2" and rest2: "stack_ok n D' np (sn_mask e2) es2"
      using m(1) by (simp_all add: Un_absorb1)
    show ?thesis
    proof (cases "p = sn_recvg e2 \<and> sn_type e2 = STACK_ENTRY_TYPE_NORMAL")
      case True
      have lands2: "lands es2 t p" if "t \<in> sn_mask e2 - D'" for t
        using ok2 True that L(4) unfolding simt_entry_ok_def by auto
      have "stack_ok n D' np' {} es2"
      proof (rule stack_ok_lower [OF rest2])
        show "lands es2 t (np' ! t)" if "t \<in> sn_mask e2" "t \<notin> {}" "t \<notin> D'" for t
          using lands2 [of t] L(3) [OF L2] that by simp
        show "np' ! t = np ! t" if "t < n" "t \<notin> sn_mask e2" "t \<notin> {}" "t \<notin> D'" for t
          using step_frameD(3) [OF fr] m(1) that by blast
      qed simp
      moreover have "sn_mask e2 - D' \<subseteq> held es2" using lands2 lands_in_held by blast
      ultimately show ?thesis
        using True ret L(1) m by (auto simp: step_one_def es)
    next
      case False
      let ?e2 = "e2\<lparr>sn_pc := p\<rparr>"
      have "simt_entry_ok n D' np' {} ?e2 es2"
        using ok2 L(3) L2 m by (simp add: simt_entry_ok_def) blast
      moreover have "stack_ok n D' np' (sn_mask e2) es2"
        by (rule stack_ok_lower [OF rest2]) (use step_frameD(3) [OF fr] m(1) in auto)
      moreover have "step_one c p L e es = Some (?e2 # es2)"
        using False ret by (auto simp: step_one_def es)
      ultimately show ?thesis using L(1) m by (auto simp: es)
    qed
  next
    case drop
    have ld: "lands es t (np' ! t)" if "t \<in> L" for t
      using frame_lands [OF fr drop(2), of t] that L drop(3) by auto
    have "stack_ok n D' np' {} es"
      by (rule frame_rest [OF fr]) (use ld L(1) in simp)
    moreover have "L \<subseteq> held es" using ld lands_in_held by blast
    ultimately show ?thesis using drop by (auto simp: step_one_def)
  next
    case go
    have "simt_entry_ok n D' np' {} (e\<lparr>sn_pc := p, sn_mask := L\<rparr>) es"
      by (rule simt_entry_ok_over [OF fr, of L _ p]) (use L in auto)
    moreover have "stack_ok n D' np' L es"
      by (rule frame_rest [OF fr]) (use L(1) in simp)
    ultimately show ?thesis using go by (auto simp: step_one_def)
  qed
qed

lemma stack_ok_two:
  assumes fr: "step_frame n D np D' np' e es"
    and L: "P \<union> Q = sn_mask e - D'" "P \<inter> Q = {}" "P \<noteq> {}" "Q \<noteq> {}"
    and pc: "\<And>t. t \<in> P \<Longrightarrow> np' ! t = p" "\<And>t. t \<in> Q \<Longrightarrow> np' ! t = q"
    and ne: "p \<noteq> null_pc" "q \<noteq> null_pc"
    and recvg: "sn_type e = STACK_ENTRY_TYPE_NORMAL \<Longrightarrow> sn_recvg e \<in> {p, q} \<Longrightarrow> si_recvg (cx_inst c) = sn_recvg e"
  shows "stack_ok n D' np' {} (step_two c p P q Q e es) \<and> P \<union> Q \<subseteq> held (step_two c p P q Q e es)
    \<and> held es \<subseteq> held (step_two c p P q Q e es)"
proof -
  define r where "r = si_recvg (cx_inst c)"
  define rc where "rc = e\<lparr>sn_pc := r, sn_div_cycle := cx_cycle c\<rparr>"
  have rcm: "sn_mask rc = sn_mask e" "sn_pc rc = r" by (simp_all add: rc_def)
  have sub: "P \<subseteq> sn_mask e - D'" "Q \<subseteq> sn_mask e - D'" using L(1) by blast+
  have lt: "P \<subseteq> {..<n}" "Q \<subseteq> {..<n}" using sub step_frameD(5) [OF fr] by blast+
  have over: "simt_entry_ok n D' np' U (over_entry x X r e) es"
    if "r = sn_recvg e" "X \<noteq> {}" "X \<subseteq> sn_mask e - D'" "\<And>t. t \<in> X \<Longrightarrow> np' ! t = x"
      "sn_type e = STACK_ENTRY_TYPE_CALL \<Longrightarrow> sn_mask e - D' \<subseteq> U \<union> X" for x X U
    by (rule simt_entry_ok_over [OF fr that(2,3), where p = x]) (use that in \<open>auto simp: over_entry_def\<close>)
  have rec: "simt_entry_ok n D' np' U rc es" if "\<And>t. t \<in> sn_mask e - D' - U \<Longrightarrow> np' ! t = r" for U
    unfolding rc_def by (rule simt_entry_ok_reconverge [OF fr that])
  have rest: "stack_ok n D' np' U es" if "\<And>t. t \<in> sn_mask e - D' - U \<Longrightarrow> lands es t (np' ! t)" for U
    by (rule frame_rest [OF fr that])
  have overm: "sn_mask (over_entry x X r e) = X" for x X by (simp add: over_entry_def)
  have pathm: "sn_mask (path_entry x X r) = X" "sn_type (path_entry x X r) = STACK_ENTRY_TYPE_NORMAL"
    for x X by (simp_all add: path_entry_def new_entry_def)
  have on_rc: "lands (rc # st) t r" if "t \<in> sn_mask e" for t st using that by (simp add: rcm)
  have drop: "stack_ok n D' np' {} (over_entry y Y r e # es) \<and> X \<subseteq> held es"
    if X: "sn_type e = STACK_ENTRY_TYPE_NORMAL" "x = sn_recvg e" "x \<noteq> null_pc" "r = sn_recvg e"
      "X \<union> Y = sn_mask e - D'" "Y \<noteq> {}"
      "\<And>t. t \<in> X \<Longrightarrow> np' ! t = x" "\<And>t. t \<in> Y \<Longrightarrow> np' ! t = y" for x X y Y
  proof -
    have ld: "lands es t (np' ! t)" if "t \<in> X" for t
      using frame_lands [OF fr X(1), of t] that X(2,3,5,7) by auto
    have "simt_entry_ok n D' np' {} (over_entry y Y r e) es"
      by (rule over) (use X in auto)
    moreover have "stack_ok n D' np' Y es"
      by (rule rest) (use X(5) ld in blast)
    moreover have "X \<subseteq> held es" using ld lands_in_held by blast
    ultimately show ?thesis by (simp add: overm)
  qed
  consider (c1) "sn_type e = STACK_ENTRY_TYPE_NORMAL" "p = sn_recvg e"
    | (c2) "sn_type e = STACK_ENTRY_TYPE_NORMAL" "p \<noteq> sn_recvg e" "q = sn_recvg e"
    | (c3) "\<not> (sn_type e = STACK_ENTRY_TYPE_NORMAL \<and> sn_recvg e \<in> {p, q})" "r = sn_recvg e"
    | (c4) "\<not> (sn_type e = STACK_ENTRY_TYPE_NORMAL \<and> sn_recvg e \<in> {p, q})" "r \<noteq> sn_recvg e" "p = r"
    | (c5) "\<not> (sn_type e = STACK_ENTRY_TYPE_NORMAL \<and> sn_recvg e \<in> {p, q})" "r \<noteq> sn_recvg e" "p \<noteq> r" "q = r"
    | (c6) "\<not> (sn_type e = STACK_ENTRY_TYPE_NORMAL \<and> sn_recvg e \<in> {p, q})" "r \<noteq> sn_recvg e" "p \<noteq> r" "q \<noteq> r"
    by (cases "sn_type e") auto
  then show ?thesis
  proof cases
    case c1
    have e1: "step_two c p P q Q e es = over_entry q Q r e # es"
      using c1 by (simp add: step_two_def Let_def r_def)
    have "r = sn_recvg e" using recvg c1 by (simp add: r_def)
    from drop [OF c1 ne(1) this L(1,4) pc] show ?thesis unfolding e1 by (auto simp: overm)
  next
    case c2
    have e1: "step_two c p P q Q e es = over_entry p P r e # es"
      using c2 by (simp add: step_two_def Let_def r_def)
    have "r = sn_recvg e" using recvg c2 by (simp add: r_def)
    from drop [OF c2(1,3) ne(2) this _ L(3) pc(2,1)] L(1) show ?thesis
      unfolding e1 by (auto simp: overm)
  next
    case c3
    have e1: "step_two c p P q Q e es = path_entry q Q r # over_entry p P r e # es"
      using c3 by (auto simp: step_two_def Let_def r_def)
    have "simt_entry_ok n D' np' Q (over_entry p P r e) es"
      by (rule over) (use c3 L sub pc in auto)
    moreover have "stack_ok n D' np' (Q \<union> P) es" by (rule rest) (use L(1) in blast)
    moreover have "simt_entry_ok n D' np' {} (path_entry q Q r) (over_entry p P r e # es)"
    proof (rule simt_entry_ok_path [OF L(4) lt(2)])
      show "\<forall>t \<in> Q - D'. lands (over_entry p P r e # es) t r" if "r \<noteq> null_pc"
      proof
        fix t
        assume t: "t \<in> Q - D'"
        have n: "sn_type e = STACK_ENTRY_TYPE_NORMAL"
          using that c3(2) frame_call [OF fr] by (cases "sn_type e") auto
        have "lands es t (sn_recvg e)"
          by (rule frame_lands [OF fr n]) (use that c3(2) t sub in auto)
        with t n c3(2) L(2) show "lands (over_entry p P r e # es) t r"
          by (auto simp: overm over_entry_def)
      qed
    qed (use pc in auto)
    ultimately show ?thesis unfolding e1 by (auto simp: overm pathm)
  next
    case c4
    have e1: "step_two c p P q Q e es = path_entry q Q r # rc # es"
      using c4 by (auto simp: step_two_def Let_def r_def rc_def)
    have "simt_entry_ok n D' np' Q rc es" by (rule rec) (use c4 pc L(1) in blast)
    moreover have "stack_ok n D' np' (Q \<union> sn_mask e) es" by (rule rest) blast
    moreover have "simt_entry_ok n D' np' {} (path_entry q Q r) (rc # es)"
      by (rule simt_entry_ok_path [OF L(4) lt(2)]) (use pc on_rc sub in auto)
    ultimately show ?thesis unfolding e1 using sub by (auto simp: pathm rcm)
  next
    case c5
    have e1: "step_two c p P q Q e es = path_entry p P r # rc # es"
      using c5 by (auto simp: step_two_def Let_def r_def rc_def)
    have "simt_entry_ok n D' np' P rc es" by (rule rec) (use c5 pc L(1) in blast)
    moreover have "stack_ok n D' np' (P \<union> sn_mask e) es" by (rule rest) blast
    moreover have "simt_entry_ok n D' np' {} (path_entry p P r) (rc # es)"
      by (rule simt_entry_ok_path [OF L(3) lt(1)]) (use pc on_rc sub in auto)
    ultimately show ?thesis unfolding e1 using sub by (auto simp: pathm rcm)
  next
    case c6
    have e1: "step_two c p P q Q e es = path_entry q Q r # path_entry p P r # rc # es"
      using c6 by (auto simp: step_two_def Let_def r_def rc_def)
    have "simt_entry_ok n D' np' (Q \<union> P) rc es" by (rule rec) (use L(1) in blast)
    moreover have "stack_ok n D' np' (Q \<union> P \<union> sn_mask e) es" by (rule rest) blast
    moreover have "simt_entry_ok n D' np' Q (path_entry p P r) (rc # es)"
      by (rule simt_entry_ok_path [OF L(3) lt(1)]) (use pc on_rc sub in auto)
    moreover have "simt_entry_ok n D' np' {} (path_entry q Q r) (path_entry p P r # rc # es)"
      by (rule simt_entry_ok_path [OF L(4) lt(2)]) (use pc on_rc sub L(2) in \<open>auto simp: pathm\<close>)
    ultimately show ?thesis unfolding e1 using sub by (auto simp: pathm rcm)
  qed
qed

subsection \<open>Runs of a warp\<close>

text \<open>
  A warp executes a sequence of instructions. Each gives the threads that are done after it, the
  next PC of every thread, and what \<^verbatim>\<open>update\<close> is told of the instruction.
\<close>

record warp =
  wp_stack :: simt_stack
  wp_done :: "nat set"
  wp_pcs :: "u64 list"

record warp_exec =
  we_done :: "nat set"
  we_next :: "u64 list"
  we_inst :: simt_inst
  we_cycle :: nat

definition warp_step :: "nat \<Rightarrow> warp \<Rightarrow> warp_exec \<Rightarrow> warp option" where
  "warp_step n w x = do {
     st \<leftarrow> simt_update n (we_cycle x) (we_done x) (we_next x) (we_inst x) (wp_stack w);
     Some \<lparr>wp_stack = st, wp_done = we_done x, wp_pcs = we_next x\<rparr>
   }"

text \<open>
  What the execution of one instruction and the reconvergence analysis guarantee: the
  instruction is the one at the PC of the top entry; only active threads move; finished threads
  stay finished; a live thread has a PC; an instruction has at most two successors, a call or
  the return from a call one; and a branch that can go straight to the current reconvergence
  point reconverges there.
\<close>

definition exec_ok :: "nat \<Rightarrow> warp \<Rightarrow> warp_exec \<Rightarrow> bool" where
  "exec_ok n w x = (case wp_stack w of [] \<Rightarrow> False | e # es \<Rightarrow>
     let live = sn_mask e - we_done x; targets = (!) (we_next x) ` live; inst = we_inst x
     in si_pc inst = sn_pc e \<and> length (we_next x) = n \<and> wp_done w \<subseteq> we_done x \<and>
        (\<forall>t < n. t \<notin> sn_mask e \<longrightarrow> t \<notin> we_done x \<longrightarrow> we_next x ! t = wp_pcs w ! t) \<and>
        null_pc \<notin> targets \<and> card targets \<le> 2 \<and>
        (si_op inst = CALL_OPS \<or> si_op inst = RET_OPS \<and> sn_type e = STACK_ENTRY_TYPE_CALL \<longrightarrow>
           card targets \<le> 1) \<and>
        (card targets = 2 \<longrightarrow> sn_type e = STACK_ENTRY_TYPE_NORMAL \<longrightarrow> sn_recvg e \<in> targets \<longrightarrow>
           si_recvg inst = sn_recvg e))"

definition warp_ok :: "nat \<Rightarrow> nat set \<Rightarrow> warp \<Rightarrow> bool" where
  "warp_ok n lanes w \<longleftrightarrow> stack_ok n (wp_done w) (wp_pcs w) {} (wp_stack w) \<and>
     lanes - wp_done w \<subseteq> held (wp_stack w)"

lemma warp_step_ok:
  assumes inv: "warp_ok n lanes w" and x: "exec_ok n w x"
  shows "\<exists>w'. warp_step n w x = Some w' \<and> warp_ok n lanes w'"
proof -
  define D where "D = wp_done w"
  define D' where "D' = we_done x"
  define np' where "np' = we_next x"
  define inst where "inst = we_inst x"
  from x obtain e es where st: "wp_stack w = e # es" by (auto simp: exec_ok_def split: list.splits)
  define L where "L = sn_mask e - D'"
  define T where "T = (!) np' ` L"
  from x have a: "si_pc inst = sn_pc e" "length np' = n" "D \<subseteq> D'"
    "\<forall>t < n. t \<notin> sn_mask e \<longrightarrow> t \<notin> D' \<longrightarrow> np' ! t = wp_pcs w ! t" "null_pc \<notin> T" "card T \<le> 2"
    and call: "si_op inst = CALL_OPS \<or> si_op inst = RET_OPS \<and> sn_type e = STACK_ENTRY_TYPE_CALL \<Longrightarrow> card T \<le> 1"
    and recvg: "card T = 2 \<Longrightarrow> sn_type e = STACK_ENTRY_TYPE_NORMAL \<Longrightarrow> sn_recvg e \<in> T \<Longrightarrow> si_recvg inst = sn_recvg e"
    unfolding exec_ok_def by (simp_all add: st Let_def L_def T_def D_def D'_def np'_def inst_def) blast
  from inv st have fr: "step_frame n D (wp_pcs w) D' np' e es"
    using a(3,4) by (simp add: warp_ok_def step_frame_def D_def)
  note ok = step_frameD [OF fr]
  have m: "sn_mask e \<subseteq> {..<n}" "sn_mask e \<noteq> {}" "sn_pc e = si_pc inst"
    using ok(4) a(1) by (simp_all add: simt_entry_ok_def)
  have fin: "finite T" unfolding T_def L_def using m(1) finite_subset by blast
  have cover: "lanes - D' \<subseteq> L \<union> held es"
    using inv st a(3) by (auto simp: warp_ok_def L_def D_def)
  have result: "\<exists>w'. warp_step n w x = Some w' \<and> warp_ok n lanes w'"
    if "simt_update n (we_cycle x) D' np' inst (e # es) = Some s" "stack_ok n D' np' {} s"
      "L \<subseteq> held s" "held es - D' \<subseteq> held s" for s
    using that cover
    by (intro exI [of _ "\<lparr>wp_stack = s, wp_done = D', wp_pcs = np'\<rparr>"])
      (auto simp: warp_step_def st D'_def np'_def inst_def warp_ok_def)
  consider (none) "T = {}" | (one) p where "T = {p}" | (two) p q where "T = {p, q}" "p \<noteq> q"
    using a(6) fin
    by (metis card_0_eq card_1_singletonE card_2_iff le_Suc_eq le_zero_eq numeral_2_eq_2 One_nat_def)
  then show ?thesis
  proof cases
    case none
    then have L: "sn_mask e - D' = {}" by (simp add: T_def L_def)
    show ?thesis
      by (rule result [OF simt_update_none [OF m(1,2) a(2) m(3) L] stack_ok_none [OF fr L]])
        (use L in \<open>auto simp: L_def\<close>)
  next
    case one
    have p: "p \<noteq> null_pc" "L \<noteq> {}" "\<And>t. t \<in> L \<Longrightarrow> np' ! t = p"
      using one a(5) by (auto simp: T_def)
    have img: "(!) np' ` (sn_mask e - D') = {p}" using one by (simp add: T_def L_def)
    from stack_ok_one [OF fr L_def p(2,3,1), of "ctx_of (we_cycle x) inst 1 e"]
    obtain s where s: "step_one (ctx_of (we_cycle x) inst 1 e) p L e es = Some s"
      "stack_ok n D' np' {} s" "L \<subseteq> held s" "held es - D' \<subseteq> held s" by blast
    show ?thesis
      by (rule result [OF _ s(2-4)])
        (use s(1) simt_update_one [OF m(1,2) a(2) m(3) img p(1)] in \<open>simp add: L_def\<close>)
  next
    case two
    let ?P = "lanes_to np' L p" and ?Q = "lanes_to np' L q"
    have T: "(!) np' ` (sn_mask e - D') = {p, q}" using two by (simp add: T_def L_def)
    have ne: "p \<noteq> null_pc" "q \<noteq> null_pc" using a(5) two by auto
    have card: "card T = 2" using two by simp
    have plain: "si_op inst \<noteq> CALL_OPS" "\<not> (si_op inst = RET_OPS \<and> sn_type e = STACK_ENTRY_TYPE_CALL)"
      using call card by (auto simp del: not_call)
    have normal: "sn_type e = STACK_ENTRY_TYPE_NORMAL \<Longrightarrow> sn_recvg e \<in> {p, q} \<Longrightarrow> si_recvg inst = sn_recvg e"
      using recvg card two by auto
    have nocall: "sn_type e = STACK_ENTRY_TYPE_CALL \<Longrightarrow> sn_recvg e \<notin> {p, q}"
      using ok(4) ne by (auto simp: simt_entry_ok_def)
    have parts: "?P \<union> ?Q = sn_mask e - D'" "?P \<inter> ?Q = {}" "?P \<noteq> {}" "?Q \<noteq> {}"
      using T two(2) unfolding lanes_to_def L_def by (auto simp: image_iff) blast+
    have pcs: "\<And>t. t \<in> ?P \<Longrightarrow> np' ! t = p" "\<And>t. t \<in> ?Q \<Longrightarrow> np' ! t = q"
      by (simp_all add: lanes_to_def)
    let ?c = "ctx_of (we_cycle x) inst 2 e"
    have c: "si_recvg (cx_inst ?c) = si_recvg inst" by (simp add: ctx_of_def)
    have parts': "?Q \<union> ?P = sn_mask e - D'" "?Q \<inter> ?P = {}" using parts by blast+
    have s1: "stack_ok n D' np' {} (step_two ?c p ?P q ?Q e es) \<and> ?P \<union> ?Q \<subseteq> held (step_two ?c p ?P q ?Q e es)
        \<and> held es \<subseteq> held (step_two ?c p ?P q ?Q e es)"
      by (rule stack_ok_two [OF fr parts pcs ne]) (use normal c in auto)
    have s2: "stack_ok n D' np' {} (step_two ?c q ?Q p ?P e es) \<and> ?Q \<union> ?P \<subseteq> held (step_two ?c q ?Q p ?P e es)
        \<and> held es \<subseteq> held (step_two ?c q ?Q p ?P e es)"
      by (rule stack_ok_two [OF fr parts' parts(4,3) pcs(2,1) ne(2,1)]) (use normal c in auto)
    have L: "L = ?P \<union> ?Q" using parts(1) by (simp add: L_def)
    have "simt_update n (we_cycle x) D' np' inst (e # es) = Some (step_two ?c p ?P q ?Q e es) \<or>
        simt_update n (we_cycle x) D' np' inst (e # es) = Some (step_two ?c q ?Q p ?P e es)"
      unfolding L_def
      by (rule simt_update_two(1) [OF m(1,2) a(2) m(3) T ne two(2) plain _ nocall]) (use normal in simp_all)
    then show ?thesis
    proof
      assume u: "simt_update n (we_cycle x) D' np' inst (e # es) = Some (step_two ?c p ?P q ?Q e es)"
      show ?thesis by (rule result [OF u]) (use s1 L in auto)
    next
      assume u: "simt_update n (we_cycle x) D' np' inst (e # es) = Some (step_two ?c q ?Q p ?P e es)"
      show ?thesis by (rule result [OF u]) (use s2 L in auto)
    qed
  qed
qed

interpretation simt_run: guarded_step "warp_step n" "warp_ok n lanes" "exec_ok n"
  by unfold_locales (rule warp_step_ok)

definition warp_launch :: "nat \<Rightarrow> u64 \<Rightarrow> nat set \<Rightarrow> warp" where
  "warp_launch n start_pc lanes =
     \<lparr>wp_stack = simt_launch start_pc lanes, wp_done = {}, wp_pcs = replicate n start_pc\<rparr>"

lemma warp_launch_ok:
  "lanes \<noteq> {} \<Longrightarrow> lanes \<subseteq> {..<n} \<Longrightarrow> warp_ok n lanes (warp_launch n pc lanes)"
  by (auto simp: warp_ok_def warp_launch_def simt_launch_def simt_entry_ok_def new_entry_def null_pc_def)

lemma stack_ok_top: "stack_ok n D np {} (e # es) \<Longrightarrow> t \<in> sn_mask e \<Longrightarrow> t \<notin> D \<Longrightarrow> np ! t = sn_pc e"
  by (auto simp: simt_entry_ok_def)

lemma stack_ok_find:
  "stack_ok n D np U st \<Longrightarrow> t \<in> held st \<Longrightarrow> t \<notin> U \<Longrightarrow> t \<notin> D \<Longrightarrow>
   \<exists>e. find (\<lambda>e. t \<in> sn_mask e) st = Some e \<and> sn_pc e = np ! t"
  by (induction st arbitrary: U) (auto simp: simt_entry_ok_def)

text \<open>
  C4. The SIMT stack lets every thread run its own program. From the launch of a warp, any
  sequence of instructions that meets \<open>exec_ok\<close> is executed without an abort (all the
  assertions of \<^verbatim>\<open>update\<close> hold and its loops end), and in the state it reaches: the threads
  of the top entry that are not done are all at the PC of that entry, every launched thread
  that is not done is still on the stack, and the topmost entry that holds it waits at exactly
  the PC of that thread. In particular the stack is empty only when every launched thread is
  done.
\<close>

theorem simt_threads_keep_their_pc:
  assumes "lanes \<noteq> {}" "lanes \<subseteq> {..<n}"
    and "allowed_run (warp_step n) (exec_ok n) (warp_launch n start_pc lanes) xs"
  shows "\<exists>w. run_ops (warp_step n) (warp_launch n start_pc lanes) xs = Some w \<and>
    (\<forall>e es t. wp_stack w = e # es \<longrightarrow> t \<in> sn_mask e - wp_done w \<longrightarrow> wp_pcs w ! t = sn_pc e) \<and>
    (\<forall>t \<in> lanes - wp_done w. \<exists>e. find (\<lambda>e. t \<in> sn_mask e) (wp_stack w) = Some e
       \<and> sn_pc e = wp_pcs w ! t)"
proof -
  from simt_run.run_ok [OF warp_launch_ok [OF assms(1,2)] assms(3)]
  obtain w where run: "run_ops (warp_step n) (warp_launch n start_pc lanes) xs = Some w"
    and ok: "stack_ok n (wp_done w) (wp_pcs w) {} (wp_stack w)"
    and cover: "lanes - wp_done w \<subseteq> held (wp_stack w)"
    unfolding warp_ok_def by blast
  show ?thesis
  proof (intro exI [of _ w] conjI allI impI ballI)
    show "run_ops (warp_step n) (warp_launch n start_pc lanes) xs = Some w" by (rule run)
    show "wp_pcs w ! t = sn_pc e" if "wp_stack w = e # es" "t \<in> sn_mask e - wp_done w" for e es t
      using stack_ok_top ok that by auto
    show "\<exists>e. find (\<lambda>e. t \<in> sn_mask e) (wp_stack w) = Some e \<and> sn_pc e = wp_pcs w ! t"
      if "t \<in> lanes - wp_done w" for t
      using stack_ok_find [OF ok] that cover by blast
  qed
qed



subsection \<open>Examples\<close>

definition sample_exec :: "uarch_op \<Rightarrow> u64 \<Rightarrow> u64 \<Rightarrow> u64 list \<Rightarrow> warp_exec" where
  "sample_exec op pc recvg np = \<lparr>we_done = {}, we_next = np,
     we_inst = \<lparr>si_op = op, si_size = 8, si_pc = pc, si_recvg = recvg\<rparr>, we_cycle = 7\<rparr>"

text \<open>A branch that diverges, the target path up to the reconvergence point, a call on the other path.\<close>

definition sample_warp_run :: "warp_exec list" where
  "sample_warp_run =
    [sample_exec BRANCH_OP 0x100 0x300 [0x200, 0x108],
     sample_exec ALU_OP 0x200 (- 1) [0x300, 0x108],
     sample_exec CALL_OPS 0x108 (- 1) [0x300, 0x400]]"

lemma scan_lanes_2: "scan_lanes 2 f np act pc grp = scan_lanes (Suc (Suc 0)) f np act pc grp"
  by (simp add: numeral_2_eq_2)

lemma place_paths_2: "place_paths c 2 = place_paths c (Suc (Suc 0))"
  by (simp add: numeral_2_eq_2)

lemma all_less_two: "(\<forall>t < (2 :: nat). P t) \<longleftrightarrow> P 0 \<and> P (Suc 0)"
  by (auto simp: less_Suc_eq numeral_2_eq_2)

lemmas simt_eval = simt_update_def gather_paths.simps pick_path_def not_taken_pc_def Let_def
  cassert_def null_pc_def new_entry_def call_entry_def warp_step_def exec_ok_def sample_exec_def
  place_paths_2 scan_lanes_2 simt_launch_def warp_launch_def all_less_two insert_Diff_if

lemma simt_threads_keep_their_pc_witness:
  "\<exists>w. run_ops (warp_step 2) (warp_launch 2 0x100 {0, 1}) sample_warp_run = Some w \<and>
    (\<forall>t \<in> {0, 1} - wp_done w. \<exists>e. find (\<lambda>e. t \<in> sn_mask e) (wp_stack w) = Some e
       \<and> sn_pc e = wp_pcs w ! t)"
proof -
  have "allowed_run (warp_step 2) (exec_ok 2) (warp_launch 2 0x100 {0, 1}) sample_warp_run"
    by (simp add: simt_eval sample_warp_run_def)
  from simt_threads_keep_their_pc [OF _ _ this] show ?thesis by auto
qed


end
