(* ===== verification/Hashing.thy ===== *)
theory Hashing
  imports Prelude
begin

section \<open>Set and bank hashing\<close>

text \<open>
  Models \<^verbatim>\<open>src/gpgpu-sim/hashing.cc\<close>: the IPOLY, bitwise and PAE hashes that spread addresses
  over memory partitions and cache sets. An equation \<^verbatim>\<open>new_index[i] = a[..] ^ .. ^ b[i]\<close> is the
  list of the positions it takes from \<^verbatim>\<open>a\<close>; a table lists the equations from bit 0 on.
  \<^verbatim>\<open>std::bitset<64>\<close> of the higher bits is a 64-bit word.
\<close>

subsection \<open>The equations\<close>

definition ipoly_16 :: "nat list list" where
  "ipoly_16 = [[11, 10, 9, 8, 6, 4, 3, 0],
     [12, 8, 7, 6, 5, 3, 1, 0],
     [9, 8, 7, 6, 4, 2, 1],
     [10, 9, 8, 7, 5, 3, 2]]"

definition ipoly_32 :: "nat list list" where
  "ipoly_32 = [[13, 12, 11, 10, 9, 6, 5, 3, 0],
     [14, 13, 12, 11, 10, 7, 6, 4, 1],
     [14, 10, 9, 8, 7, 6, 3, 2, 0],
     [11, 10, 9, 8, 7, 4, 3, 1],
     [12, 11, 10, 9, 8, 5, 4, 2]]"

definition ipoly_64 :: "nat list list" where
  "ipoly_64 = [[18, 17, 16, 15, 12, 10, 6, 5, 0],
     [15, 13, 12, 11, 10, 7, 5, 1, 0],
     [16, 14, 13, 12, 11, 8, 6, 2, 1],
     [17, 15, 14, 13, 12, 9, 7, 3, 2],
     [18, 16, 15, 14, 13, 10, 8, 4, 3],
     [17, 16, 15, 14, 11, 9, 5, 4]]"

definition ipoly_128 :: "nat list list" where
  "ipoly_128 = [[12, 11, 10, 9, 8, 7, 6, 3, 0],
     [13, 12, 11, 10, 9, 8, 7, 4, 1],
     [14, 13, 12, 11, 10, 9, 8, 5, 2],
     [15, 14, 13, 12, 11, 10, 9, 6, 3, 0],
     [16, 15, 14, 13, 12, 11, 10, 7, 4, 1],
     [17, 16, 15, 14, 13, 12, 11, 8, 5, 2],
     [18, 17, 16, 15, 14, 13, 12, 9, 6, 3]]"

definition ipoly_256 :: "nat list list" where
  "ipoly_256 = [[19, 18, 17, 15, 13, 12, 10, 7, 4, 3, 2, 0],
     [20, 19, 18, 16, 14, 13, 11, 8, 5, 4, 3, 1],
     [21, 20, 19, 17, 15, 14, 12, 9, 6, 5, 4, 2],
     [22, 21, 20, 18, 16, 15, 13, 10, 7, 6, 5, 3],
     [23, 22, 21, 19, 17, 16, 14, 11, 8, 7, 6, 4, 0],
     [24, 23, 22, 20, 18, 17, 15, 12, 9, 8, 7, 5, 1],
     [25, 24, 23, 21, 19, 18, 16, 13, 10, 9, 8, 6, 2],
     [26, 25, 24, 22, 20, 19, 17, 14, 11, 10, 9, 7, 3]]"

definition ipoly_512 :: "nat list list" where
  "ipoly_512 = [[25, 23, 22, 21, 19, 17, 15, 12, 8, 4, 0],
     [26, 24, 23, 22, 20, 18, 16, 13, 9, 5, 1],
     [27, 25, 24, 23, 21, 19, 17, 14, 10, 6, 2],
     [28, 26, 25, 24, 22, 20, 18, 15, 11, 7, 3],
     [29, 27, 26, 25, 23, 21, 19, 16, 12, 8, 4, 0],
     [30, 28, 27, 26, 24, 22, 20, 17, 13, 9, 5, 1],
     [31, 29, 28, 27, 25, 23, 21, 18, 14, 10, 6, 2],
     [32, 30, 29, 28, 26, 24, 22, 19, 15, 11, 7, 3],
     [33, 31, 30, 29, 27, 25, 23, 20, 16, 12, 8, 4]]"

definition ipoly_1024 :: "nat list list" where
  "ipoly_1024 = [[30, 28, 27, 26, 24, 22, 20, 18, 16, 12, 9, 3, 0],
     [31, 29, 28, 27, 25, 23, 21, 19, 17, 13, 10, 4, 1],
     [32, 30, 29, 28, 26, 24, 22, 20, 18, 14, 11, 5, 2],
     [33, 31, 30, 29, 27, 25, 23, 21, 19, 15, 12, 6, 3, 0],
     [34, 32, 31, 30, 28, 26, 24, 22, 20, 16, 13, 7, 4, 1],
     [35, 33, 32, 31, 29, 27, 25, 23, 21, 17, 14, 8, 5, 2],
     [36, 34, 33, 32, 30, 28, 26, 24, 22, 18, 15, 9, 6, 3],
     [37, 35, 34, 33, 31, 29, 27, 25, 23, 19, 16, 10, 7, 4],
     [38, 36, 35, 34, 32, 30, 28, 26, 24, 20, 17, 11, 8, 5],
     [39, 37, 36, 35, 33, 31, 29, 27, 25, 21, 18, 12, 9, 6]]"

subsection \<open>The hashes\<close>

text \<open>The exclusive or of an equation, the index bit last.\<close>

definition xor_taps :: "u64 \<Rightarrow> nat list \<Rightarrow> bool \<Rightarrow> bool" where
  "xor_taps a taps b = foldr (\<lambda>k x. bit a k \<noteq> x) taps b"

definition ipoly_rows :: "nat list list \<Rightarrow> u64 \<Rightarrow> u32 \<Rightarrow> u32" where
  "ipoly_rows rows a b =
     horner_sum of_bool 2 (map (\<lambda>i. xor_taps a (rows ! i) (bit b i)) [0..<length rows])"

definition ipoly_hash_function :: "u64 \<Rightarrow> u32 \<Rightarrow> nat \<Rightarrow> u32 option" where
  "ipoly_hash_function higher_bits index bank_set_num =
     (if bank_set_num = 16 then Some (ipoly_rows ipoly_16 higher_bits index)
      else if bank_set_num = 32 then Some (ipoly_rows ipoly_32 higher_bits index)
      else if bank_set_num = 64 then Some (ipoly_rows ipoly_64 higher_bits index)
      else if bank_set_num = 128 then Some (ipoly_rows ipoly_128 higher_bits index)
      else if bank_set_num = 256 then Some (ipoly_rows ipoly_256 higher_bits index)
      else if bank_set_num = 512 then Some (ipoly_rows ipoly_512 higher_bits index)
      else if bank_set_num = 1024 then Some (ipoly_rows ipoly_1024 higher_bits index)
      else None)"

definition bitwise_hash_function :: "u64 \<Rightarrow> u32 \<Rightarrow> u32 \<Rightarrow> u32" where
  "bitwise_hash_function higher_bits index bank_set_num =
     ucast (ucast index XOR (higher_bits AND ucast (bank_set_num - 1)))"

definition PAE_hash_function :: "u64 \<Rightarrow> u32 \<Rightarrow> nat \<Rightarrow> u32 option" where
  "PAE_hash_function higher_bits index bank_set_num =
     (if bank_set_num = 32 then
        let a = xor_taps higher_bits; b = bit index
        in Some (horner_sum of_bool 2
          [a [13, 10, 9, 5, 0] (b 3 \<noteq> (b 0 \<noteq> b 0)),
           a [12, 11, 6, 1] (b 3 \<noteq> (b 2 \<noteq> (b 1 \<noteq> b 1))),
           a [14, 9, 8, 7, 2] (b 1 \<noteq> b 2),
           a [11, 10, 8, 3] (b 2 \<noteq> (b 3 \<noteq> b 3)),
           a [12, 9, 8, 5, 4] (b 1 \<noteq> (b 0 \<noteq> b 4))])
      else None)"

subsection \<open>Linearity\<close>

lemma xor_taps_linear:
  "xor_taps (a XOR a') taps (b \<noteq> b') = (xor_taps a taps b \<noteq> xor_taps a' taps b')"
  by (induction taps) (auto simp: xor_taps_def bit_xor_iff)

lemma bit_ipoly_rows:
  "length rows \<le> 32 \<Longrightarrow>
   bit (ipoly_rows rows a b) n \<longleftrightarrow> n < length rows \<and> xor_taps a (rows ! n) (bit b n)"
  by (auto simp: ipoly_rows_def bit_horner_sum_bit_word_iff)

lemma ipoly_linear:
  assumes "length rows \<le> 32"
  shows "ipoly_rows rows (a XOR a') (b XOR b') = ipoly_rows rows a b XOR ipoly_rows rows a' b'"
proof (rule bit_word_eqI)
  fix n
  show "bit (ipoly_rows rows (a XOR a') (b XOR b')) n = bit (ipoly_rows rows a b XOR ipoly_rows rows a' b') n"
    using assms xor_taps_linear [of a a' "rows ! n" "bit b n" "bit b' n"]
    by (simp add: bit_ipoly_rows bit_xor_iff) blast
qed

text \<open>The bank of an address: its low bits are the index, the rest the higher bits.\<close>

definition ipoly_bank :: "nat list list \<Rightarrow> u64 \<Rightarrow> u32" where
  "ipoly_bank rows x = ipoly_rows rows (drop_bit (length rows) x) (ucast x)"

lemma ipoly_bank_linear:
  "length rows \<le> 32 \<Longrightarrow> ipoly_bank rows (x XOR y) = ipoly_bank rows x XOR ipoly_bank rows y"
proof -
  have "drop_bit n (x XOR y) = drop_bit n x XOR drop_bit n y" for n
    by (rule bit_word_eqI) (simp add: bit_drop_bit_eq bit_xor_iff)
  moreover have "ucast (x XOR y) = (ucast x XOR ucast y :: u32)"
    by (rule bit_word_eqI) (simp add: bit_ucast_iff bit_xor_iff)
  ultimately show "length rows \<le> 32 \<Longrightarrow> ?thesis"
    by (simp add: ipoly_bank_def ipoly_linear)
qed

subsection \<open>Independent columns\<close>

text \<open>Gaussian elimination over the words of a list, as bit vectors.\<close>

function independent :: "u32 list \<Rightarrow> bool" where
  "independent [] = True"
| "independent (c # cs) = (case find (bit c) [0..<32] of None \<Rightarrow> False
     | Some p \<Rightarrow> independent (map (\<lambda>d. if bit d p then d XOR c else d) cs))"
  by pat_completeness auto
termination by (relation "measure length") simp_all

fun combine :: "bool list \<Rightarrow> u32 list \<Rightarrow> u32" where
  "combine (b # bs) (c # cs) = (if b then c else 0) XOR combine bs cs"
| "combine _ _ = 0"

lemma xor_eq_zero: "x XOR y = 0 \<longleftrightarrow> x = (y :: 'a :: len word)"
  by (auto simp: bit_eq_iff bit_xor_iff)

lemma xor_left_cancel: "x XOR y = x XOR z \<longleftrightarrow> y = (z :: 'a :: len word)"
  by (auto simp: bit_eq_iff bit_xor_iff)

lemma combine_reduce:
  "\<exists>q. combine bs (map (\<lambda>d. if bit d p then d XOR c else d) cs) = combine bs cs XOR (if q then c else 0)"
proof (induction bs cs rule: combine.induct)
  case (1 b bs d cs)
  then obtain q where q: "combine bs (map (\<lambda>d. if bit d p then d XOR c else d) cs)
      = combine bs cs XOR (if q then c else 0)" by blast
  show ?case
    by (rule exI [of _ "q \<noteq> (b \<and> bit d p)"], cases b; cases "bit d p"; cases q)
      (simp_all add: q ac_simps xor.left_commute)
qed (auto intro: exI [of _ False])

lemma combine_no_bit:
  "(\<And>d. d \<in> set cs \<Longrightarrow> \<not> bit d p) \<Longrightarrow> \<not> bit (combine bs cs) p"
  by (induction bs cs rule: combine.induct) (auto simp: bit_xor_iff)

lemma combine_all_False: "(\<And>b. b \<in> set bs \<Longrightarrow> \<not> b) \<Longrightarrow> combine bs cs = 0"
  by (induction bs cs rule: combine.induct) auto

lemma independent_combine:
  "independent cs \<Longrightarrow> length bs = length cs \<Longrightarrow> combine bs cs = 0 \<Longrightarrow> b \<in> set bs \<Longrightarrow> \<not> b"
proof (induction cs arbitrary: bs b rule: independent.induct)
  case (2 c cs)
  obtain b0 bs0 where bs: "bs = b0 # bs0" using 2(3) by (cases bs) auto
  from 2(2) obtain p where p: "find (bit c) [0..<32] = Some p"
    and ind: "independent (map (\<lambda>d. if bit d p then d XOR c else d) cs)" by (auto split: option.splits)
  let ?f = "\<lambda>d. if bit d p then d XOR c else d"
  have c: "bit c p" using p by (auto simp: find_Some_iff)
  obtain q where q: "combine bs0 (map ?f cs) = combine bs0 cs XOR (if q then c else 0)"
    using combine_reduce by blast
  have zero: "(if b0 then c else 0) = combine bs0 cs"
    using 2(4) by (simp add: bs xor_eq_zero split: if_splits)
  have "\<not> bit (combine bs0 (map ?f cs)) p"
    by (rule combine_no_bit) (auto simp: bit_xor_iff c)
  then have "b0 = q"
    using c unfolding q zero [symmetric] by (auto simp: bit_xor_iff split: if_splits)
  then have "combine bs0 (map ?f cs) = 0" unfolding q zero [symmetric] by simp
  with 2(1) [OF p ind, of bs0] 2(3) bs have rest: "\<not> b" if "b \<in> set bs0" for b using that by simp
  have "combine bs0 cs = 0" by (rule combine_all_False) (rule rest)
  with zero have "(if b0 then c else 0) = 0" by simp
  with c have "\<not> b0" by (auto split: if_splits)
  with rest 2(5) bs show ?case by auto
qed simp

text \<open>The bank of the address \<open>2 ^ n\<close>: a column of the hash matrix.\<close>

definition column :: "nat list list \<Rightarrow> nat \<Rightarrow> u32" where
  "column rows n = ipoly_bank rows (push_bit n 1)"

definition columns :: "nat list list \<Rightarrow> nat \<Rightarrow> u32 list" where
  "columns rows s = map (\<lambda>j. column rows (s + j)) [0..<length rows]"

lemma ipoly_bank_zero: "length rows \<le> 32 \<Longrightarrow> ipoly_bank rows 0 = 0"
  using ipoly_bank_linear [of rows 0 0] by simp

lemma combine_append:
  "length bs = length cs \<Longrightarrow> combine (bs @ [b]) (cs @ [c]) = combine bs cs XOR (if b then c else 0)"
  by (induction bs cs rule: list_induct2) (simp_all add: ac_simps xor.left_commute)

lemma ipoly_bank_columns:
  assumes "length rows \<le> 32"
  shows "ipoly_bank rows (push_bit s (take_bit n z)) =
    combine (map (bit z) [0..<n]) (map (\<lambda>j. column rows (s + j)) [0..<n])"
proof (induction n)
  case (Suc n)
  have split: "push_bit s (take_bit (Suc n) z) =
      push_bit s (take_bit n z) XOR (if bit z n then push_bit (s + n) 1 else 0)"
    by (rule bit_word_eqI)
      (auto simp: bit_push_bit_iff bit_take_bit_iff bit_xor_iff bit_1_iff less_Suc_eq simp del: push_bit_of_1)
  show ?case
    by (simp add: split ipoly_bank_linear [OF assms] Suc.IH combine_append column_def
        ipoly_bank_zero [OF assms] del: take_bit_Suc)
qed (use assms in \<open>simp add: ipoly_bank_zero\<close>)

lemma conflict_free_if_independent:
  assumes len: "length rows \<le> 32" and ind: "independent (columns rows s)"
  shows "inj_on (\<lambda>i. ipoly_bank rows (base XOR push_bit s (of_nat i))) {..<2 ^ length rows}"
proof (rule inj_onI)
  let ?k = "length rows"
  fix i j :: nat
  assume i: "i \<in> {..<2 ^ ?k}" and j: "j \<in> {..<2 ^ ?k}"
    and eq: "ipoly_bank rows (base XOR push_bit s (of_nat i)) = ipoly_bank rows (base XOR push_bit s (of_nat j))"
  define z :: u64 where "z = of_nat i XOR of_nat j"
  have small: "take_bit ?k (of_nat x :: u64) = of_nat x" if "x < 2 ^ ?k" for x
    using that len
    by (simp add: word_unat_eq_iff unsigned_take_bit_eq unat_of_nat take_bit_nat_eq_self
        take_bit_take_bit)
  have tz: "take_bit ?k z = z" using i j small by (simp add: z_def take_bit_xor)
  have push: "push_bit s z = push_bit s (of_nat i) XOR push_bit s (of_nat j)"
    by (rule bit_word_eqI) (auto simp: z_def bit_push_bit_iff bit_xor_iff)
  have same: "ipoly_bank rows (push_bit s (of_nat i)) = ipoly_bank rows (push_bit s (of_nat j))"
    using eq by (simp add: ipoly_bank_linear [OF len] xor_left_cancel)
  have "ipoly_bank rows (push_bit s z) = 0"
    unfolding push ipoly_bank_linear [OF len] same by simp
  then have comb: "combine (map (bit z) [0..<?k]) (columns rows s) = 0"
    using ipoly_bank_columns [OF len, of s ?k z] by (simp add: tz columns_def)
  have "\<not> bit z n" if "n < ?k" for n
    by (rule independent_combine [OF ind _ comb]) (use that in \<open>auto simp: columns_def\<close>)
  moreover have "bit z n \<Longrightarrow> n < ?k" for n using tz by (metis bit_take_bit_iff)
  ultimately have "z = 0" by (auto simp: bit_eq_iff)
  then have "(of_nat i :: u64) = of_nat j" by (simp add: z_def xor_eq_zero)
  moreover have "i < 2 ^ 64" "j < 2 ^ 64"
  proof -
    have "(2 :: nat) ^ ?k \<le> 2 ^ 64" using len by (intro power_increasing) simp_all
    then show "i < 2 ^ 64" "j < 2 ^ 64" using i j by simp_all
  qed
  ultimately show "i = j" by (simp add: word_unat_eq_iff unat_of_nat take_bit_nat_eq_self)
qed

subsection \<open>Strides that are powers of two\<close>

lemmas column_eval = column_def ipoly_bank_def ipoly_rows_def xor_taps_def ipoly_16_def
  ipoly_32_def ipoly_64_def upt_rec

lemma columns_16: "map (column ipoly_16) [0..<17] = [1, 2, 4, 8, 3, 6, 12, 11, 5, 10, 7, 14, 15,
    13, 9, 1, 2]"
  by (simp add: column_eval)

lemma columns_32: "map (column ipoly_32) [0..<20] = [1, 2, 4, 8, 16, 5, 10, 20, 13, 26, 17, 7, 14,
    28, 29, 31, 27, 19, 3, 6]"
  by (simp add: column_eval)

lemma columns_64: "map (column ipoly_64) [0..<25] = [1, 2, 4, 8, 16, 32, 3, 6, 12, 24, 48, 35, 5,
    10, 20, 40, 19, 38, 15, 30, 60, 59, 53, 41, 17]"
  by (simp add: column_eval)

lemma columns_take:
  "s + length rows \<le> n \<Longrightarrow> columns rows s = take (length rows) (drop s (map (column rows) [0..<n]))"
  by (rule nth_equalityI) (simp_all add: columns_def)

lemma ipoly_lengths [simp]: "length ipoly_16 = 4" "length ipoly_32 = 5" "length ipoly_64 = 6"
  by (simp_all add: ipoly_16_def ipoly_32_def ipoly_64_def)

lemma columns_independent:
  "s < 14 \<Longrightarrow> independent (columns ipoly_16 s)"
  "s < 16 \<Longrightarrow> independent (columns ipoly_32 s)"
  "s < 20 \<Longrightarrow> independent (columns ipoly_64 s)"
proof -
  have "list_all (\<lambda>s. independent (take 4 (drop s (map (column ipoly_16) [0..<17])))) [0..<14]"
    unfolding columns_16 by (simp add: upt_rec)
  then show "s < 14 \<Longrightarrow> independent (columns ipoly_16 s)"
    using columns_take [of s ipoly_16 17] by (auto simp: list_all_iff)
  have "list_all (\<lambda>s. independent (take 5 (drop s (map (column ipoly_32) [0..<20])))) [0..<16]"
    unfolding columns_32 by (simp add: upt_rec)
  then show "s < 16 \<Longrightarrow> independent (columns ipoly_32 s)"
    using columns_take [of s ipoly_32 20] by (auto simp: list_all_iff)
  have "list_all (\<lambda>s. independent (take 6 (drop s (map (column ipoly_64) [0..<25])))) [0..<20]"
    unfolding columns_64 by (simp add: upt_rec)
  then show "s < 20 \<Longrightarrow> independent (columns ipoly_64 s)"
    using columns_take [of s ipoly_64 25] by (auto simp: list_all_iff)
qed

lemma add_as_xor: "a AND b = 0 \<Longrightarrow> a + b = a XOR (b :: 'a :: len word)"
  by (simp add: disjunctive_xor_eq_or disjunctive_add_eq_or)

lemma bank_of_hash:
  "ipoly_hash_function (drop_bit 4 x) (ucast x) 16 = Some (ipoly_bank ipoly_16 x)"
  "ipoly_hash_function (drop_bit 5 x) (ucast x) 32 = Some (ipoly_bank ipoly_32 x)"
  "ipoly_hash_function (drop_bit 6 x) (ucast x) 64 = Some (ipoly_bank ipoly_64 x)"
  by (simp_all add: ipoly_hash_function_def ipoly_bank_def)

lemma aligned_run_and:
  assumes "base AND push_bit s (mask k) = 0" "i < 2 ^ k"
  shows "base AND push_bit s (of_nat i) = (0 :: u64)"
proof (rule bit_word_eqI)
  fix n
  assume "n < LENGTH(64)"
  have "bit (of_nat i :: u64) m \<Longrightarrow> m < k" for m
  proof -
    assume "bit (of_nat i :: u64) m"
    then have "bit i m" by (simp add: bit_of_nat_iff)
    with assms(2) show "m < k" by (metis bit_take_bit_iff take_bit_nat_eq_self)
  qed
  moreover have "\<not> (bit base n \<and> s \<le> n \<and> n - s < k)" if "n < 64"
    using assms(1) that by (auto simp: bit_eq_iff bit_and_iff bit_push_bit_iff bit_mask_iff)
  ultimately show "bit (base AND push_bit s (of_nat i)) n = bit (0 :: u64) n"
    using \<open>n < LENGTH(64)\<close> by (auto simp: bit_and_iff bit_push_bit_iff)
qed

text \<open>
  C23. The IPOLY tables for 16, 32 and 64 banks are conflict free on power-of-two strides: of an
  aligned run of \<open>2 ^ k\<close> addresses \<open>2 ^ s\<close> apart, for every stride that the table covers (the
  number of banks is \<open>2 ^ k\<close>, the low \<open>k\<close> bits of an address are its bank index and the
  rest the higher bits), no two fall into the same bank, so each bank gets exactly one.
\<close>

theorem ipoly_conflict_free:
  assumes "(k, m) \<in> {(4, 14), (5, 16), (6, 20)}" "s < m" "base AND push_bit s (mask k) = 0"
  shows "inj_on (\<lambda>i. ipoly_hash_function (drop_bit k (base + push_bit s (of_nat i)))
    (ucast (base + push_bit s (of_nat i))) (2 ^ k)) {..<2 ^ k}"
proof -
  have add: "base + push_bit s (of_nat i) = base XOR push_bit s (of_nat i)" if "i < 2 ^ k" for i
    by (rule add_as_xor [OF aligned_run_and [OF assms(3) that]])
  have "inj_on (\<lambda>i. ipoly_hash_function (drop_bit k (base XOR push_bit s (of_nat i)))
    (ucast (base XOR push_bit s (of_nat i))) (2 ^ k)) {..<2 ^ k}"
    using assms(1,2)
      conflict_free_if_independent [OF _ columns_independent(1), of s base]
      conflict_free_if_independent [OF _ columns_independent(2), of s base]
      conflict_free_if_independent [OF _ columns_independent(3), of s base]
    by (elim insertE) (simp_all add: inj_on_def bank_of_hash del: drop_bit_xor)
  then show ?thesis by (simp add: inj_on_def add)
qed

lemma ipoly_conflict_free_witness:
  "inj_on (\<lambda>i. ipoly_hash_function (drop_bit 6 (0x100000000 + push_bit 7 (of_nat i)))
    (ucast (0x100000000 + push_bit 7 (of_nat i) :: u64)) (2 ^ 6)) {..<2 ^ 6}"
  by (rule ipoly_conflict_free [where m = 20]) (simp_all add: mask_eq_exp_minus_1)

text \<open>
  The tables for 128, 256, 512 and 1024 banks are not: at the stride shown, an address other
  than 0 of the first run shares the bank of address 0.
\<close>

lemma ipoly_large_tables_conflict:
  "ipoly_hash_function (drop_bit 7 (76 * 2 ^ 4)) (ucast (76 * 2 ^ 4 :: u64)) 128 = ipoly_hash_function 0 0 128 \<and> 76 < (128 :: nat) \<and>
   ipoly_hash_function (drop_bit 8 (176 * 2 ^ 9)) (ucast (176 * 2 ^ 9 :: u64)) 256 = ipoly_hash_function 0 0 256 \<and> 176 < (256 :: nat) \<and>
   ipoly_hash_function (drop_bit 9 (280 * 2 ^ 5)) (ucast (280 * 2 ^ 5 :: u64)) 512 = ipoly_hash_function 0 0 512 \<and> 280 < (512 :: nat) \<and>
   ipoly_hash_function (drop_bit 10 (580 * 2 ^ 4)) (ucast (580 * 2 ^ 4 :: u64)) 1024 = ipoly_hash_function 0 0 1024 \<and> 580 < (1024 :: nat)"
  by (simp add: ipoly_hash_function_def ipoly_rows_def xor_taps_def ipoly_128_def ipoly_256_def
      ipoly_512_def ipoly_1024_def upt_rec)

end
