(* ===== verification/Address_Bits.thy ===== *)
theory Address_Bits
  imports Prelude
begin

section \<open>Bit utilities of the address decoder\<close>

text \<open>
  Models the helpers at the end of \<^verbatim>\<open>src/gpgpu-sim/addrdec.cc\<close>: the test for powers of two, the
  integer logarithm, the rounding to powers of two, the packing of masked bits and the limits of
  a mask; and proves each against its specification.
\<close>

subsection \<open>Integer and bit utilities\<close>

definition l2_is_power_of_two :: "u32 \<Rightarrow> bool" where
  "l2_is_power_of_two value = (value \<noteq> 0 \<and> value AND (value - 1) = 0)"

primrec powli :: "int \<Rightarrow> nat \<Rightarrow> int" where
  "powli x 0 = 1"
| "powli x (Suc y) = powli x y * x"

definition log2_step :: "u32 \<Rightarrow> nat \<Rightarrow> u32 \<times> u32 \<Rightarrow> u32 \<times> u32" where
  "log2_step m k = (\<lambda>(v, r).
     let shift = push_bit k (of_bool (v AND m \<noteq> 0))
     in (drop_bit (unat shift) v, r OR shift))"

definition LOGB2_32 :: "u32 \<Rightarrow> u32" where
  "LOGB2_32 v = snd (log2_step 0x2 0 (log2_step 0xC 1 (log2_step 0xF0 2
     (log2_step 0xFF00 3 (log2_step 0xFFFF0000 4 (v, 0))))))"

lemma clear_lowest_less: "n AND (n - 1) \<noteq> 0 \<Longrightarrow> unat (n AND (n - 1)) < unat (n :: u32)"
proof -
  assume "n AND (n - 1) \<noteq> 0"
  then have "n \<noteq> 0" by auto
  then have "n - 1 < n" by (simp add: measure_unat word_less_nat_alt)
  moreover have "n AND (n - 1) \<le> n - 1" by (rule word_and_le1)
  ultimately show ?thesis by (simp add: word_less_nat_alt word_le_nat_alt)
qed

function clear_to_top :: "u32 \<Rightarrow> u32" where
  "clear_to_top n = (if n AND (n - 1) \<noteq> 0 then clear_to_top (n AND (n - 1)) else n)"
  by auto
termination by (relation "measure unat") (simp_all add: clear_lowest_less)

declare clear_to_top.simps [simp del]

definition next_powerOf2 :: "u32 \<Rightarrow> u32" where
  "next_powerOf2 n = push_bit 1 (clear_to_top (n - 1))"

fun packbits_loop :: "u64 \<Rightarrow> u64 \<Rightarrow> nat list \<Rightarrow> nat \<Rightarrow> u64 \<Rightarrow> u64" where
  "packbits_loop m val [] pos result = result"
| "packbits_loop m val (i # is) pos result =
     (if m AND push_bit i 1 \<noteq> 0
      then packbits_loop m val is (pos + 1)
             (result OR push_bit pos (drop_bit i (val AND push_bit i 1)))
      else packbits_loop m val is pos result)"

definition addrdec_packbits :: "u64 \<Rightarrow> u64 \<Rightarrow> nat \<Rightarrow> nat \<Rightarrow> u64" where
  "addrdec_packbits m val high low = packbits_loop m val [low..<high] 0 0"

fun masklimit_loop :: "u64 \<Rightarrow> nat list \<Rightarrow> nat \<times> nat \<times> bool \<Rightarrow> nat \<times> nat \<times> bool" where
  "masklimit_loop m [] acc = acc"
| "masklimit_loop m (i # is) (high, low, low_found) =
     (if m AND push_bit i 1 \<noteq> 0
      then (if low_found then masklimit_loop m is (i + 1, low, True)
            else masklimit_loop m is (i + 1, i, True))
      else masklimit_loop m is (high, low, low_found))"

definition addrdec_getmasklimit :: "u64 \<Rightarrow> nat \<times> nat" where
  "addrdec_getmasklimit m =
     (let (high, low, _) = masklimit_loop m [0..<64] (64, 0, False) in (high, low))"

subsection \<open>Powers of two\<close>

lemma and_single_bit: "(m :: 'a :: len word) AND push_bit i 1 \<noteq> 0 \<longleftrightarrow> bit m i"
  by (simp only: bit_iff_and_push_bit_not_eq_0)

lemma unat_widen: "unat (ucast (x :: u32) :: u64) = unat x"
proof -
  have "unat x < 2 ^ LENGTH(32)" by (rule unsigned_less)
  then have "unat x < 2 ^ 64" by simp
  then show ?thesis by (simp add: unsigned_ucast_eq take_bit_nat_eq_self)
qed

lemma top_bit: "2 ^ j \<le> x \<Longrightarrow> x < 2 ^ Suc j \<Longrightarrow> bit (x :: nat) j"
proof -
  assume "2 ^ j \<le> x" "x < 2 ^ Suc j"
  then have "x div 2 ^ j = 1" by (intro div_nat_eqI) simp_all
  then show ?thesis by (simp add: bit_iff_odd)
qed

lemma ex_log2: "0 < (x :: nat) \<Longrightarrow> \<exists>j. 2 ^ j \<le> x \<and> x < 2 ^ Suc j"
  using ex_power_ivl1 [of 2 x] by auto

lemma clear_lowest_top:
  fixes n :: u32
  assumes "2 ^ j \<le> unat n" "unat n < 2 ^ Suc j" "n AND (n - 1) \<noteq> 0"
  shows "2 ^ j \<le> unat (n AND (n - 1))"
proof -
  have ge: "unat n - 1 < 2 ^ Suc j" "2 ^ j \<le> unat n - 1"
  proof -
    show "unat n - 1 < 2 ^ Suc j" using assms(2) by simp
    show "2 ^ j \<le> unat n - 1"
    proof (rule ccontr)
      assume "\<not> ?thesis"
      then have eq: "unat n = 2 ^ j" using assms(1) by simp
      moreover have "unat n < 2 ^ LENGTH(32)" by (rule unsigned_less)
      ultimately have "(2 :: nat) ^ j < 2 ^ 32" by simp
      then have j: "j < 32" by (metis nat_power_less_imp_less zero_less_numeral)
      have "n = of_nat (2 ^ j)" by (simp flip: eq)
      then have n: "n = push_bit j 1" by simp
      then have "n - 1 = mask j" by (simp add: n mask_eq_exp_minus_1)
      with n have "n AND (n - 1) = 0"
        by (intro bit_word_eqI) (auto simp: bit_and_iff bit_push_bit_iff bit_1_iff bit_mask_iff simp del: push_bit_of_1)
      with assms(3) show False by simp
    qed
  qed
  have "n \<noteq> 0" using assms(3) by auto
  then have "unat (n - 1) = unat n - 1" by (simp add: unat_minus_one)
  then have "bit (unat n) j" "bit (unat (n - 1)) j" using top_bit ge assms by simp_all
  then have "bit (unat (n AND (n - 1))) j" by (simp add: unsigned_and_eq bit_and_iff)
  then show ?thesis by (metis bit_nat_iff not_less bit_take_bit_iff nat_less_le take_bit_nat_eq_self)
qed

lemma l2_is_power_of_two_iff:
  assumes "2 ^ j \<le> unat v" "unat v < 2 ^ Suc j"
  shows "l2_is_power_of_two v \<longleftrightarrow> unat v = 2 ^ j"
proof
  assume p: "unat v = 2 ^ j"
  show "l2_is_power_of_two v"
  proof (rule ccontr)
    have "v \<noteq> 0" using p by auto
    moreover assume "\<not> l2_is_power_of_two v"
    ultimately have "v AND (v - 1) \<noteq> 0" by (simp add: l2_is_power_of_two_def)
    with clear_lowest_top [OF assms] clear_lowest_less [of v] p show False by simp
  qed
next
  assume "l2_is_power_of_two v"
  then have z: "v \<noteq> 0" "v AND (v - 1) = 0" by (simp_all add: l2_is_power_of_two_def)
  show "unat v = 2 ^ j"
  proof (rule ccontr)
    assume "unat v \<noteq> 2 ^ j"
    then have "2 ^ j \<le> unat v - 1" "unat v - 1 < 2 ^ Suc j" using assms by simp_all
    moreover have "unat (v - 1) = unat v - 1" using z(1) by (simp add: unat_minus_one)
    ultimately have "bit (unat v) j" "bit (unat (v - 1)) j" using top_bit assms by simp_all
    then have "bit (unat (v AND (v - 1))) j" by (simp add: unsigned_and_eq bit_and_iff)
    with z show False by simp
  qed
qed

lemma clear_to_top_power:
  "2 ^ j \<le> unat n \<Longrightarrow> unat n < 2 ^ Suc j \<Longrightarrow> unat (clear_to_top n) = 2 ^ j"
proof (induction n rule: clear_to_top.induct)
  case (1 n)
  show ?case
  proof (cases "n AND (n - 1) = 0")
    case True
    have "n \<noteq> 0" using 1(2) by auto
    with True have "l2_is_power_of_two n" by (simp add: l2_is_power_of_two_def)
    with True l2_is_power_of_two_iff [OF 1(2,3)] show ?thesis by (subst clear_to_top.simps) simp
  next
    case False
    have "unat (n AND (n - 1)) < 2 ^ Suc j" using clear_lowest_less [OF False] 1(3) by simp
    with False 1 clear_lowest_top [OF 1(2,3) False] show ?thesis by (subst clear_to_top.simps) simp
  qed
qed

text \<open>
  C29. Rounding up to a power of two terminates and is exact: for every channel count from 2 to
  \<open>2 ^ 31\<close> the result is the least power of two that is not below it.
\<close>

theorem next_powerOf2_least:
  assumes "1 < n" "unat n \<le> 2 ^ 31"
  shows "\<exists>j. unat (next_powerOf2 n) = 2 ^ j \<and> unat n \<le> 2 ^ j \<and> (\<forall>i. unat n \<le> 2 ^ i \<longrightarrow> j \<le> i)"
proof -
  have gt: "1 < unat n" using assms(1) by (simp add: word_less_nat_alt)
  then have "n \<noteq> 0" by auto
  then have n1: "unat (n - 1) = unat n - 1" by (simp add: unat_minus_one)
  with gt obtain j where j: "2 ^ j \<le> unat (n - 1)" "unat (n - 1) < 2 ^ Suc j" using ex_log2 [of "unat (n - 1)"] by auto
  have "(2 :: nat) ^ j < 2 ^ 31" using j n1 gt assms(2) by linarith
  then have "j < 31" by (metis nat_power_less_imp_less zero_less_numeral)
  then have small: "(2 :: nat) ^ Suc j < 2 ^ 32" by (intro power_strict_increasing) simp_all
  have "unat (next_powerOf2 n) = 2 ^ Suc j"
    using clear_to_top_power [OF j] small
    by (simp add: next_powerOf2_def unat_word_ariths)
  moreover have "Suc j \<le> i" if "unat n \<le> 2 ^ i" for i
  proof (rule ccontr)
    assume "\<not> ?thesis"
    then have "(2 :: nat) ^ i \<le> 2 ^ j" by (intro power_increasing) simp_all
    with that j n1 gt show False by linarith
  qed
  moreover have "unat n \<le> 2 ^ Suc j" using j(2) n1 gt by linarith
  ultimately show ?thesis by blast
qed

lemma next_powerOf2_least_witness:
  "\<exists>j. unat (next_powerOf2 94) = 2 ^ j \<and> unat (94 :: u32) \<le> 2 ^ j \<and> (\<forall>i. unat (94 :: u32) \<le> 2 ^ i \<longrightarrow> j \<le> i)"
  by (rule next_powerOf2_least) simp_all

text \<open>A single channel is rounded to 0, although 1 is a power of two.\<close>

lemma next_powerOf2_one: "next_powerOf2 1 = 0"
  by (simp add: next_powerOf2_def clear_to_top.simps)

subsection \<open>The integer logarithm\<close>

lemma small_no_bit: "unat v < 2 ^ k \<Longrightarrow> bit v i \<Longrightarrow> i < k"
proof -
  assume "unat v < 2 ^ k" "bit v i"
  then have "take_bit k (unat v) = unat v" "bit (unat v) i"
    by (simp_all add: take_bit_nat_eq_self bit_unsigned_iff)
  then show ?thesis by (metis bit_take_bit_iff)
qed

lemma high_part:
  fixes v :: u32
  assumes "unat v < 2 ^ (2 * k)"
  shows "v AND push_bit k (mask k) \<noteq> 0 \<longleftrightarrow> 2 ^ k \<le> unat v"
proof -
  have "v AND push_bit k (mask k) = 0 \<longleftrightarrow> (\<forall>i. bit v i \<longrightarrow> i < k)"
    using small_no_bit [OF assms] bit_imp_le_length [of v]
    by (simp add: bit_eq_iff [of _ 0] bit_and_iff bit_push_bit_iff bit_mask_iff) force
  also have "\<dots> \<longleftrightarrow> unat v < 2 ^ k"
  proof
    assume "\<forall>i. bit v i \<longrightarrow> i < k"
    then have "take_bit k (unat v) = unat v"
      by (intro bit_eqI) (auto simp: bit_take_bit_iff bit_unsigned_iff)
    then show "unat v < 2 ^ k" by (metis take_bit_nat_less_exp)
  qed (use small_no_bit in blast)
  finally show ?thesis by auto
qed

lemma or_disjoint_multiple:
  assumes "2 ^ Suc k dvd j"
  shows "(of_nat j :: u32) OR push_bit k 1 = of_nat (j + 2 ^ k)"
proof -
  have "\<not> bit j k" using assms by (auto simp: bit_iff_odd elim!: dvdE)
  then have "j AND 2 ^ k = 0"
    using bit_iff_and_push_bit_not_eq_0 [of j k] by simp
  then have "j OR 2 ^ k = j + 2 ^ k" by (simp add: disjunctive_add_eq_or)
  then have "of_nat (j OR 2 ^ k) = (of_nat (j + 2 ^ k) :: u32)" by simp
  then show ?thesis by (simp add: of_nat_or_eq)
qed

text \<open>One halving step keeps \<open>v\<close> the quotient of \<open>n\<close> by two to the result so far.\<close>

definition log2_inv :: "nat \<Rightarrow> nat \<Rightarrow> u32 \<times> u32 \<Rightarrow> bool" where
  "log2_inv n k vr = (\<exists>j. snd vr = of_nat j \<and> j < 32 \<and> 2 ^ k dvd j \<and>
     unat (fst vr) = n div 2 ^ j \<and> 0 < unat (fst vr) \<and> unat (fst vr) < 2 ^ 2 ^ k)"

lemma log2_step_inv:
  assumes "log2_inv n (Suc k) vr" "k < 5" "m = push_bit (2 ^ k) (mask (2 ^ k))"
  shows "log2_inv n k (log2_step m k vr)"
proof -
  obtain v r where vr: "vr = (v, r)" by force
  from assms(1) obtain j where j: "r = of_nat j" "j < 32" "2 ^ Suc k dvd j" "unat v = n div 2 ^ j"
    "0 < unat v" "unat v < 2 ^ (2 * 2 ^ k)" by (auto simp: log2_inv_def vr)
  have test: "v AND m \<noteq> 0 \<longleftrightarrow> 2 ^ 2 ^ k \<le> unat v"
    unfolding assms(3) by (rule high_part) (fact j(6))
  show ?thesis
  proof (cases "2 ^ 2 ^ k \<le> unat v")
    case False
    then have "log2_step m k vr = (v, r)" using test by (auto simp: vr log2_step_def)
    moreover have "2 ^ k dvd j" using j(3) by (auto elim: dvd_trans [rotated] simp: le_imp_power_dvd)
    ultimately show ?thesis using False j by (auto simp: log2_inv_def)
  next
    case True
    have "(2 :: nat) ^ k < 2 ^ 5" using assms(2) by (intro power_strict_increasing) simp_all
    then have k: "unat (push_bit k (1 :: u32)) = 2 ^ k"
      using unat_of_nat [of "2 ^ k", where ?'a = 32] by (simp add: take_bit_nat_eq_self)
    have step: "log2_step m k vr = (drop_bit (2 ^ k) v, of_nat (j + 2 ^ k))"
      using True test k or_disjoint_multiple [OF j(3)]
      by (auto simp: vr log2_step_def j(1) simp del: push_bit_of_1)
    have "unat (drop_bit (2 ^ k) v) = drop_bit (2 ^ k) (unat v)"
      by (rule bit_eqI) (auto simp: bit_unsigned_iff bit_drop_bit_eq dest: bit_imp_le_length)
    then have q: "unat (drop_bit (2 ^ k) v) = unat v div 2 ^ 2 ^ k" by (simp only: drop_bit_eq_div)
    have "j + 2 ^ k < 32"
    proof -
      obtain a where a: "j = 2 ^ Suc k * a" using j(3) by blast
      have "(32 :: nat) = 2 ^ Suc k * 2 ^ (4 - k)"
        using assms(2) by (simp flip: power_add power_Suc)
      then have "2 ^ Suc k * a < 2 ^ Suc k * 2 ^ (4 - k)" using j(2) a by linarith
      then have "a < 2 ^ (4 - k)" by (simp only: mult_less_cancel1)
      then have "Suc a \<le> 2 ^ (4 - k)" by simp
      then have "2 ^ Suc k * Suc a \<le> (32 :: nat)" using \<open>32 = _\<close> by (metis mult_le_mono2)
      moreover have "0 < (2 :: nat) ^ k" by simp
      ultimately show ?thesis unfolding a power_Suc mult_Suc_right by linarith
    qed
    moreover have "2 ^ k dvd j + 2 ^ k" using j(3) by (auto elim: dvd_trans [rotated] simp: le_imp_power_dvd)
    moreover have "unat v div 2 ^ 2 ^ k < 2 ^ 2 ^ k"
      using j(6) by (simp add: less_mult_imp_div_less power_add mult_2)
    moreover have "0 < unat v div 2 ^ 2 ^ k" using True by (simp add: div_greater_zero_iff)
    moreover have "unat v div 2 ^ 2 ^ k = n div 2 ^ (j + 2 ^ k)"
      by (simp add: j(4) div_mult2_eq power_add)
    ultimately show ?thesis unfolding step log2_inv_def by (intro exI [of _ "j + 2 ^ k"]) (simp add: q)
  qed
qed

lemma LOGB2_32_floor:
  assumes "v \<noteq> 0"
  shows "2 ^ unat (LOGB2_32 v) \<le> unat v \<and> unat v < 2 ^ Suc (unat (LOGB2_32 v))"
proof -
  have "unat v < 2 ^ LENGTH(32)" by (rule unsigned_less)
  then have i5: "log2_inv (unat v) (Suc 4) (v, 0)" using assms
    by (auto simp: log2_inv_def unat_gt_0 intro!: exI [of _ 0])
  define x4 x3 x2 x1 where x: "x4 = log2_step 0xFFFF0000 4 (v, 0)" "x3 = log2_step 0xFF00 3 x4"
    "x2 = log2_step 0xF0 2 x3" "x1 = log2_step 0xC 1 x2"
  have "log2_inv (unat v) (Suc 3) x4"
    unfolding x using log2_step_inv [OF i5, where m = "0xFFFF0000"] by (simp add: mask_eq_exp_minus_1)
  then have "log2_inv (unat v) (Suc 2) x3"
    unfolding x(2) using log2_step_inv [where k = 3 and vr = x4 and m = "0xFF00"] by (simp add: mask_eq_exp_minus_1)
  then have "log2_inv (unat v) (Suc 1) x2"
    unfolding x(3) using log2_step_inv [where k = 2 and vr = x3 and m = "0xF0"] by (simp add: mask_eq_exp_minus_1 numeral_2_eq_2)
  then have "log2_inv (unat v) (Suc 0) x1"
    unfolding x(4) using log2_step_inv [where k = 1 and vr = x2 and m = "0xC"] by (simp add: mask_eq_exp_minus_1)
  then have "log2_inv (unat v) 0 (log2_step 0x2 0 x1)"
    using log2_step_inv [where k = 0 and vr = x1 and m = "0x2"] by simp
  then obtain j where j: "LOGB2_32 v = of_nat j" "j < 32" "unat v div 2 ^ j = 1"
    by (fastforce simp: log2_inv_def LOGB2_32_def x)
  have "unat (of_nat j :: u32) = j" using j(2) by (simp add: unat_of_nat take_bit_nat_eq_self)
  moreover have "2 ^ j \<le> unat v" using j(3) by (metis div_less less_numeral_extra(1) not_less zero_neq_one)
  moreover have "unat v < 2 ^ Suc j"
    using j(3) dividend_less_div_times [of "2 ^ j" "unat v"] by simp
  ultimately show ?thesis using j(1) by simp
qed

subsection \<open>Packing bits\<close>

definition mask_positions :: "u64 \<Rightarrow> nat list" where
  "mask_positions m = filter (bit m) [0..<64]"

lemma packbits_loop_eq:
  "packbits_loop m v is pos res =
   res OR push_bit pos (horner_sum of_bool 2 (map (bit v) (filter (bit m) is)))"
proof (induction "is" arbitrary: pos res)
  case (Cons i "is")
  have one: "push_bit pos (drop_bit i (v AND push_bit i 1)) = push_bit pos (of_bool (bit v i))"
    if "bit m i"
    using bit_imp_le_length [OF that]
    by (intro bit_word_eqI) (auto simp: bit_push_bit_iff bit_drop_bit_eq bit_and_iff bit_1_iff simp del: push_bit_of_1)
  have two: "push_bit pos (of_bool b + 2 * x) = push_bit pos (of_bool b) OR push_bit (Suc pos) (x :: u64)" for b x
  proof -
    have "of_bool b AND (2 * x) = 0" by (cases b) (simp_all add: one_and_eq mod_2_eq_odd)
    then have "of_bool b + 2 * x = of_bool b OR push_bit 1 x"
      by (simp add: disjunctive_add_eq_or mult.commute)
    then show ?thesis by (simp only: push_bit_or push_bit_push_bit) simp
  qed
  show ?case
  proof (cases "bit m i")
    case True
    have "packbits_loop m v (i # is) pos res =
        packbits_loop m v is (pos + 1) (res OR push_bit pos (of_bool (bit v i)))"
      using True by (simp only: packbits_loop.simps and_single_bit if_True one [OF True] simp_thms)
    then show ?thesis
      using True by (simp only: Cons.IH filter.simps if_True list.map horner_sum_simps two or.assoc Suc_eq_plus1)
  next
    case False
    then show ?thesis
      by (simp only: packbits_loop.simps and_single_bit if_False Cons.IH filter.simps simp_thms)
  qed
qed simp

lemma packbits_collects_masked_bits:
  "addrdec_packbits m v high low = horner_sum of_bool 2 (map (bit v) (filter (bit m) [low..<high]))"
  by (simp add: addrdec_packbits_def packbits_loop_eq)

lemma mask_positions_distinct [simp]: "distinct (mask_positions m)" "sorted (mask_positions m)"
  by (simp_all add: mask_positions_def sorted_wrt_filter)

lemma set_mask_positions [simp]: "set (mask_positions m) = {i. bit m i}"
  by (auto simp: mask_positions_def dest: bit_imp_le_length)

lemma length_mask_positions: "length (mask_positions m) \<le> 64"
  using length_filter_le [of "bit m" "[0..<64]"] by (simp add: mask_positions_def)

lemma packbits_full: "addrdec_packbits m v 64 0 = horner_sum of_bool 2 (map (bit v) (mask_positions m))"
  by (simp add: packbits_collects_masked_bits mask_positions_def)

lemma masklimit_found:
  "masklimit_loop m is (h, l, True) =
    (if filter (bit m) is = [] then h else last (filter (bit m) is) + 1, l, True)"
  by (induction "is" arbitrary: h) (auto simp: and_single_bit simp del: push_bit_of_1)

lemma masklimit_start:
  "masklimit_loop m is (h, l, False) =
    (case filter (bit m) is of [] \<Rightarrow> (h, l, False) | p # ps \<Rightarrow> (last (p # ps) + 1, p, True))"
  by (induction "is") (auto simp: and_single_bit masklimit_found simp del: push_bit_of_1)

lemma getmasklimit_eq:
  "addrdec_getmasklimit m =
    (if m = 0 then (64, 0) else (last (mask_positions m) + 1, hd (mask_positions m)))"
proof -
  have "mask_positions m = [] \<longleftrightarrow> m = 0"
    by (metis (mono_tags) bit_0_eq bit_eqI bot_apply bot_bool_def empty_Collect_eq set_empty set_mask_positions)
  then show ?thesis
    by (auto simp: addrdec_getmasklimit_def masklimit_start mask_positions_def [symmetric] split: list.split)
qed

lemma getmasklimit_le: "addrdec_getmasklimit m = (high, low) \<Longrightarrow> high \<le> 64"
proof -
  assume eq: "addrdec_getmasklimit m = (high, low)"
  show ?thesis
  proof (cases "mask_positions m = []")
    case False
    then have "last (mask_positions m) \<in> set (mask_positions m)" by (rule last_in_set)
    then have "last (mask_positions m) < 64" by (auto dest: bit_imp_le_length)
    with eq show ?thesis by (auto simp: getmasklimit_eq split: if_splits)
  next
    case True
    then have "m = 0"
      by (metis (mono_tags) bit_0_eq bit_eqI bot_apply bot_bool_def empty_Collect_eq set_empty set_mask_positions)
    with eq show ?thesis by (simp add: getmasklimit_eq)
  qed
qed

lemma filter_within_limits:
  assumes "addrdec_getmasklimit m = (high, low)"
  shows "filter (bit m) [low..<high] = mask_positions m"
proof -
  let ?P = "mask_positions m"
  have bound: "low \<le> i \<and> i < high \<and> high \<le> 64" if "i \<in> set ?P" for i
  proof -
    from that have m: "m \<noteq> 0" by auto
    from that have m2: "?P \<noteq> []" by (metis length_pos_if_in_set less_numeral_extra(3) list.size(3))
    have lo: "hd ?P \<le> i" using that m2 mask_positions_distinct(2) [of m]
      by (cases ?P) auto
    obtain xs y where P: "?P = xs @ [y]" using m2 by (cases ?P rule: rev_cases) auto
    have "i \<in> set (xs @ [y])" using that unfolding P .
    then have hi: "i \<le> last ?P" using mask_positions_distinct(2) [of m]
      unfolding P by (auto simp: sorted_append)
    have "bit m (last ?P)" using m2 last_in_set by fastforce
    then have "last ?P < 64" by (auto dest: bit_imp_le_length)
    with lo hi assms m m2 show ?thesis by (auto simp: getmasklimit_eq)
  qed
  show ?thesis
  proof (cases "m = 0")
    case True
    then show ?thesis by (simp add: mask_positions_def)
  next
    case False
    then obtain i where "i \<in> set ?P" by (auto simp: bit_eq_iff)
    then have "high \<le> 64" using bound by blast
    have "set (filter (bit m) [low..<high]) = set ?P" using bound by auto
    then show ?thesis
      by (intro sorted_distinct_set_unique) (simp_all add: sorted_wrt_filter)
  qed
qed

lemma limits_lose_no_bit:
  assumes "addrdec_getmasklimit m = (high, low)"
  shows "addrdec_packbits m v high low = addrdec_packbits m v 64 0"
  by (simp add: packbits_collects_masked_bits filter_within_limits [OF assms] mask_positions_def)

lemma bit_horner_bools:
  "bit (horner_sum of_bool 2 bs :: 'a :: len word) n \<longleftrightarrow> n < LENGTH('a) \<and> n < length bs \<and> bs ! n"
  by (auto simp: bit_horner_sum_bit_word_iff)

lemma packed_bits_determined:
  assumes "(ucast (addrdec_packbits m v 64 0) :: u32) AND w = ucast (addrdec_packbits m v' 64 0) AND w"
    "n < length (mask_positions m)" "bit w n"
  shows "bit v (mask_positions m ! n) = bit v' (mask_positions m ! n)"
proof -
  have n: "n < 32" using assms(3) by (auto dest: bit_imp_le_length)
  have "bit (ucast (addrdec_packbits m x 64 0) AND w) n = bit x (mask_positions m ! n)" for x
    using assms(2,3) n by (simp add: packbits_full bit_and_iff bit_ucast_iff bit_horner_bools)
  with assms(1) show ?thesis by metis
qed

lemma packbits_determines:
  assumes "addrdec_packbits m v 64 0 = addrdec_packbits m v' 64 0" "bit m i"
  shows "bit v i = bit v' i"
proof -
  from assms(2) obtain n where n: "n < length (mask_positions m)" "mask_positions m ! n = i"
    by (metis in_set_conv_nth mem_Collect_eq set_mask_positions)
  then have "bit (addrdec_packbits m x 64 0) n = bit x i" for x
    using length_mask_positions [of m] by (simp add: packbits_full bit_horner_bools)
  with assms(1) show ?thesis by metis
qed

end
