(* ===== verification/Address_Decode.thy ===== *)
theory Address_Decode
  imports Hashing Address_Bits
begin

section \<open>Address decoding\<close>

text \<open>
  Models \<^verbatim>\<open>src/gpgpu-sim/addrdec.cc\<close> and \<^verbatim>\<open>addrdec.h\<close>: the translation of a linear address into
  a DRAM channel, bank, row, column and burst, the L2 slice (sub partition) it is served by, and
  the address within that slice. \<^verbatim>\<open>linear_to_raw_address_translation\<close> is the record
  \<open>atrans\<close>; \<open>CHIP\<close>, \<open>BK\<close> and so on index its mask arrays. Channel and slice counts keep their
  32 bits, addresses their 64. A shift by \<^verbatim>\<open>ADDR_CHIP_S\<close> is a shift by \<open>nat\<close> of it; the theorems
  keep it within \<open>0..30\<close>, where C defines \<^verbatim>\<open>1 << ADDR_CHIP_S\<close>.
\<close>

subsection \<open>Slices of a channel whose number is no power of two\<close>

definition stable_mix :: "u64 \<Rightarrow> u64" where
  "stable_mix value =
     (let v = value XOR drop_bit 30 value;
          v = v * 0xbf58476d1ce4e5b9;
          v = v XOR drop_bit 27 v;
          v = v * 0x94d049bb133111eb
      in v XOR drop_bit 31 v)"

definition MAX_MEMORY_ACCESS_SIZE :: u64 where "MAX_MEMORY_ACCESS_SIZE = 128"

definition slice_index :: "u64 \<Rightarrow> u32 \<Rightarrow> bool \<Rightarrow> u32 option" where
  "slice_index channel_address slice_count balanced = do {
     cassert (slice_count > 0);
     let line = channel_address div MAX_MEMORY_ACCESS_SIZE;
     let remainder = (ucast (line mod ucast slice_count) :: u32);
     if \<not> balanced \<or> slice_count = 1 then Some remainder
     else do {
       let quotient = line div ucast slice_count;
       let rotation = (ucast (stable_mix quotient mod ucast slice_count) :: u32);
       Some ((remainder + rotation) mod slice_count)
     }
   }"

definition slice_partition_address :: "u64 \<Rightarrow> u32 \<Rightarrow> u64 option" where
  "slice_partition_address channel_address slice_count = do {
     cassert (slice_count > 0);
     let line = channel_address div MAX_MEMORY_ACCESS_SIZE;
     let line_offset = channel_address mod MAX_MEMORY_ACCESS_SIZE;
     Some ((line div ucast slice_count) * MAX_MEMORY_ACCESS_SIZE + line_offset)
   }"

subsection \<open>State\<close>

datatype partition_index_function = CONSECUTIVE | BITWISE_PERMUTATION | IPOLY | PAE | RANDOM | CUSTOM

datatype addr_field = CHIP | BK | ROW | COL | BURST

record addrdec =
  chip :: u32
  bk :: u32
  row :: u32
  col :: u32
  burst :: u32
  sub_partition :: u32

record atrans =
  addrdec_option :: "string option"
  gpgpu_mem_address_mask :: int
  memory_partition_indexing :: partition_index_function
  run_test :: bool
  ADDR_CHIP_S :: int
  addrdec_mklow :: "addr_field \<Rightarrow> nat"
  addrdec_mkhigh :: "addr_field \<Rightarrow> nat"
  addrdec_mask :: "addr_field \<Rightarrow> u64"
  sub_partition_id_mask :: u64
  gap :: u32
  m_n_channel :: u32
  m_n_sub_partition_in_channel :: u32
  log2channel :: nat
  log2sub_partition :: nat
  nextPowerOf2_m_n_channel :: u32
  ipoly_non_power2_balanced :: u32
  ipoly_channel_stable_l2slice :: u32
  non_power2_l2_channel_indexing :: u32
  non_power2_l2_slice_mapping :: u32

text \<open>The software table of the RANDOM indexing and the number of calls of \<^verbatim>\<open>rand()\<close> so far.\<close>

type_synonym interleaving = "(u64 \<rightharpoonup> u32) \<times> nat"

text \<open>
  The object with its options set (the first arguments) before \<^verbatim>\<open>init\<close>; the fields that only
  \<^verbatim>\<open>init\<close> sets start at 0.
\<close>

definition new_atrans ::
  "string option \<Rightarrow> int \<Rightarrow> partition_index_function \<Rightarrow> bool \<Rightarrow> u32 \<Rightarrow> u32 \<Rightarrow> u32 \<Rightarrow> u32 \<Rightarrow> atrans" where
  "new_atrans opt amask indexing test balanced channel_stable channel_ix slice_map =
     \<lparr>addrdec_option = opt, gpgpu_mem_address_mask = amask, memory_partition_indexing = indexing,
      run_test = test, ADDR_CHIP_S = 10, addrdec_mklow = (\<lambda>_. 0), addrdec_mkhigh = (\<lambda>_. 64),
      addrdec_mask = (\<lambda>f. case f of CHIP \<Rightarrow> 0x1C00 | BK \<Rightarrow> 0x300 | ROW \<Rightarrow> 0xFFF0000
        | COL \<Rightarrow> 0xE0FF | BURST \<Rightarrow> 0xF),
      sub_partition_id_mask = 0, gap = 0, m_n_channel = 0, m_n_sub_partition_in_channel = 0,
      log2channel = 0, log2sub_partition = 0, nextPowerOf2_m_n_channel = 0,
      ipoly_non_power2_balanced = balanced, ipoly_channel_stable_l2slice = channel_stable,
      non_power2_l2_channel_indexing = channel_ix, non_power2_l2_slice_mapping = slice_map\<rparr>"

subsection \<open>Local addresses\<close>

text \<open>The high part divided by the channel count, stitched to the bits below \<^verbatim>\<open>ADDR_CHIP_S\<close>.\<close>

definition gap_local :: "atrans \<Rightarrow> u64 \<Rightarrow> u64" where
  "gap_local t addr =
     (let s = nat (ADDR_CHIP_S t)
      in push_bit s (drop_bit s addr div ucast (m_n_channel t)) OR (addr AND (push_bit s 1 - 1)))"

definition channel_address :: "atrans \<Rightarrow> u64 \<Rightarrow> u64" where
  "channel_address t addr =
     (if gap t = 0 then addrdec_packbits (NOT (addrdec_mask t CHIP)) addr 64 0 else gap_local t addr)"

definition partition_address :: "atrans \<Rightarrow> u64 \<Rightarrow> u64 option" where
  "partition_address t addr =
     (if \<not> l2_is_power_of_two (m_n_sub_partition_in_channel t)
      then slice_partition_address (channel_address t addr) (m_n_sub_partition_in_channel t)
      else if gap t = 0
      then Some (addrdec_packbits (NOT (addrdec_mask t CHIP OR sub_partition_id_mask t)) addr 64 0)
      else Some (addrdec_packbits (NOT (sub_partition_id_mask t)) (gap_local t addr) 64 0))"

subsection \<open>The decoder\<close>

definition decode_field :: "atrans \<Rightarrow> u64 \<Rightarrow> addr_field \<Rightarrow> u32" where
  "decode_field t val f =
     ucast (addrdec_packbits (addrdec_mask t f) val (addrdec_mkhigh t f) (addrdec_mklow t f))"

definition raw_fields :: "atrans \<Rightarrow> u64 \<Rightarrow> addrdec" where
  "raw_fields t addr =
     (let val = (if gap t = 0 then addr else gap_local t addr)
      in \<lparr>chip = (if gap t = 0 then decode_field t addr CHIP
                 else ucast (drop_bit (nat (ADDR_CHIP_S t)) addr mod ucast (m_n_channel t))),
          bk = decode_field t val BK, row = decode_field t val ROW, col = decode_field t val COL,
          burst = decode_field t val BURST, sub_partition = 0\<rparr>)"

definition rest_high_bits :: "atrans \<Rightarrow> u64 \<Rightarrow> u64" where
  "rest_high_bits t addr =
     (if gap t = 0
      then drop_bit (nat (ADDR_CHIP_S t + int (log2channel t + log2sub_partition t))) addr
      else drop_bit (nat (ADDR_CHIP_S t)) addr div ucast (m_n_channel t))"

definition tlx_non_power2 :: "atrans \<Rightarrow> u64 \<Rightarrow> addrdec \<Rightarrow> addrdec option" where
  "tlx_non_power2 t addr tlx = do {
     cassert (memory_partition_indexing t = CONSECUTIVE);
     let local_address = channel_address t addr;
     c \<leftarrow> (if non_power2_l2_channel_indexing t = 2
          then ipoly_hash_function (drop_bit (nat (ADDR_CHIP_S t)) local_address) (chip tlx)
                 (unat (m_n_channel t))
          else Some (chip tlx));
     cassert (c < m_n_channel t);
     sub \<leftarrow> slice_index local_address (m_n_sub_partition_in_channel t)
             (non_power2_l2_slice_mapping t = 1);
     let sp = c * m_n_sub_partition_in_channel t + sub;
     cassert (sp < m_n_channel t * m_n_sub_partition_in_channel t);
     Some (tlx\<lparr>chip := c, sub_partition := sp\<rparr>)
   }"

definition ipoly_sub_partition :: "atrans \<Rightarrow> u64 \<Rightarrow> u32 \<Rightarrow> u32 \<Rightarrow> u32 option" where
  "ipoly_sub_partition t addr decoded_channel decoded_sub =
     (let n = m_n_channel t; k = m_n_sub_partition_in_channel t;
          sp = decoded_channel * k + decoded_sub;
          ipoly_high_bits = (if gap t \<noteq> 0 then rest_high_bits t addr else drop_bit 8 addr)
      in if gap t \<noteq> 0 \<and> ipoly_channel_stable_l2slice t \<noteq> 0 then do {
           slice_hash \<leftarrow> ipoly_hash_function (drop_bit 8 addr) ((decoded_channel AND 0xf) XOR decoded_sub) 16;
           Some (decoded_channel * k + slice_hash mod k)
         }
         else if gap t \<noteq> 0 \<and> ipoly_non_power2_balanced t = 3 then do {
           offset \<leftarrow> ipoly_hash_function ipoly_high_bits 0 1024;
           Some ((sp + offset) mod (n * k))
         }
         else do {
           let virtual = (if gap t \<noteq> 0 \<and> ipoly_non_power2_balanced t = 2 then 1024
                          else nextPowerOf2_m_n_channel t * k);
           h \<leftarrow> ipoly_hash_function ipoly_high_bits sp (unat virtual);
           Some (if gap t = 0 then h
                 else if ipoly_non_power2_balanced t = 1 then (h mod n) * k + (h div n) mod k
                 else if ipoly_non_power2_balanced t = 2
                 then ucast ((ucast h * ucast (n * k) :: u64) div ucast virtual)
                 else h mod (n * k))
         })"

definition tlx_of_sub_partition :: "atrans \<Rightarrow> u32 \<Rightarrow> addrdec \<Rightarrow> addrdec option" where
  "tlx_of_sub_partition t sp tlx = do {
     let c = sp div m_n_sub_partition_in_channel t;
     cassert (c < m_n_channel t);
     cassert (sp < m_n_channel t * m_n_sub_partition_in_channel t);
     Some (tlx\<lparr>chip := c, sub_partition := sp\<rparr>)
   }"

definition random_sub_partition ::
  "atrans \<Rightarrow> (nat \<Rightarrow> u32) \<Rightarrow> interleaving \<Rightarrow> u64 \<Rightarrow> u32 \<times> interleaving" where
  "random_sub_partition t rand st addr =
     (let chip_address = drop_bit (nat (ADDR_CHIP_S t) - log2sub_partition t) addr
      in case fst st chip_address of
           Some new_chip_id \<Rightarrow> (new_chip_id, st)
         | None \<Rightarrow>
             (let new_chip_id = rand (snd st) mod (m_n_channel t * m_n_sub_partition_in_channel t)
              in (new_chip_id, ((fst st)(chip_address \<mapsto> new_chip_id), Suc (snd st)))))"

definition tlx_plain :: "atrans \<Rightarrow> addrdec \<Rightarrow> addrdec" where
  "tlx_plain t tlx = tlx\<lparr>sub_partition := chip tlx * m_n_sub_partition_in_channel t +
     (bk tlx AND (m_n_sub_partition_in_channel t - 1))\<rparr>"

definition addrdec_tlx ::
  "atrans \<Rightarrow> (nat \<Rightarrow> u32) \<Rightarrow> interleaving \<Rightarrow> u64 \<Rightarrow> (addrdec \<times> interleaving) option" where
  "addrdec_tlx t rand st addr =
     (let tlx = raw_fields t addr
      in if \<not> l2_is_power_of_two (m_n_sub_partition_in_channel t)
         then map_option (\<lambda>x. (x, st)) (tlx_non_power2 t addr tlx)
         else case memory_partition_indexing t of
           CONSECUTIVE \<Rightarrow> Some (tlx_plain t tlx, st)
         | BITWISE_PERMUTATION \<Rightarrow> do {
             cassert (gap t = 0);
             let c = bitwise_hash_function (rest_high_bits t addr) (chip tlx) (m_n_channel t);
             cassert (c < m_n_channel t);
             Some (tlx_plain t (tlx\<lparr>chip := c\<rparr>), st)
           }
         | IPOLY \<Rightarrow> do {
             sp \<leftarrow> ipoly_sub_partition t addr (chip tlx) (bk tlx AND (m_n_sub_partition_in_channel t - 1));
             x \<leftarrow> tlx_of_sub_partition t sp tlx;
             Some (x, st)
           }
         | RANDOM \<Rightarrow> do {
             let (sp, st') = random_sub_partition t rand st addr;
             x \<leftarrow> tlx_of_sub_partition t sp tlx;
             Some (x, st')
           }
         | CUSTOM \<Rightarrow> Some (tlx_plain t tlx, st)
         | PAE \<Rightarrow> None)"

subsection \<open>Parsing the address map\<close>

text \<open>\<^verbatim>\<open>sscanf(option, "dramid@%d", ..)\<close>: white space, a sign and at least one digit.\<close>

definition is_digit :: "char \<Rightarrow> bool" where
  "is_digit c = (48 \<le> (of_char c :: nat) \<and> (of_char c :: nat) \<le> 57)"

definition is_space :: "char \<Rightarrow> bool" where
  "is_space c = (c \<in> {CHR '' '', CHR 0x09, CHR 0x0A, CHR 0x0B, CHR 0x0C, CHR 0x0D})"

definition digits_value :: "string \<Rightarrow> int" where
  "digits_value = foldl (\<lambda>n c. 10 * n + (int (of_char c) - 48)) 0"

definition scan_int :: "string \<Rightarrow> int option" where
  "scan_int s =
     (let s = dropWhile is_space s;
          (neg, s) = (case s of [] \<Rightarrow> (False, s)
            | c # cs \<Rightarrow> if c = CHR ''-'' then (True, cs) else if c = CHR ''+'' then (False, cs) else (False, s));
          ds = takeWhile is_digit s
      in if ds = [] then None else Some (if neg then - digits_value ds else digits_value ds))"

definition scan_dramid :: "string \<Rightarrow> int option" where
  "scan_dramid option =
     (if take 7 option = ''dramid@'' then scan_int (drop 7 option) else None)"

text \<open>
  The loop over the map, bit 63 first. A map of more than 64 bits would shift by a negative
  offset; the assertion after the loop rejects it, so it is rejected here.
\<close>

definition set_mask_bit :: "addr_field list \<Rightarrow> int \<Rightarrow> (addr_field \<Rightarrow> u64) \<Rightarrow> addr_field \<Rightarrow> u64" where
  "set_mask_bit fs ofs ms = (\<lambda>f. if f \<in> set fs then ms f OR push_bit (nat ofs) 1 else ms f)"

datatype map_item = Field "addr_field list" | Skip_Bit | Ignore

definition map_char :: "char \<Rightarrow> map_item" where
  "map_char c =
     (if c \<in> {CHR ''D'', CHR ''d''} then Field [CHIP]
      else if c \<in> {CHR ''B'', CHR ''b''} then Field [BK]
      else if c \<in> {CHR ''R'', CHR ''r''} then Field [ROW]
      else if c \<in> {CHR ''C'', CHR ''c''} then Field [COL]
      else if c \<in> {CHR ''S'', CHR ''s''} then Field [BURST, COL]
      else if c = CHR ''0'' then Skip_Bit
      else Ignore)"

fun parse_map :: "bool \<Rightarrow> string \<Rightarrow> int \<Rightarrow> (addr_field \<Rightarrow> u64) \<Rightarrow> (int \<times> (addr_field \<Rightarrow> u64)) option" where
  "parse_map dramid_parsed [] ofs ms = Some (ofs, ms)"
| "parse_map dramid_parsed (c # cs) ofs ms =
     (case map_char c of
        Field fs \<Rightarrow> do {
          cassert (\<not> (dramid_parsed \<and> CHIP \<in> set fs));
          cassert (0 \<le> ofs);
          parse_map dramid_parsed cs (ofs - 1) (set_mask_bit fs ofs ms)
        }
      | Skip_Bit \<Rightarrow> parse_map dramid_parsed cs (ofs - 1) ms
      | Ignore \<Rightarrow> parse_map dramid_parsed cs ofs ms)"

definition map_part :: "string \<Rightarrow> string" where
  "map_part option = (case dropWhile (\<lambda>c. c \<noteq> CHR '';'') option of [] \<Rightarrow> option | _ # rest \<Rightarrow> rest)"

definition addrdec_parseoption :: "atrans \<Rightarrow> string \<Rightarrow> atrans option" where
  "addrdec_parseoption t option = do {
     let start = scan_dramid option;
     (ofs, ms) \<leftarrow> parse_map (start \<noteq> None) (map_part option) 63 (\<lambda>_. 0);
     cassert (ofs = - 1);
     Some (t\<lparr>ADDR_CHIP_S := (case start of Some s \<Rightarrow> s | None \<Rightarrow> - 1), addrdec_mask := ms\<rparr>)
   }"

subsection \<open>Initialisation\<close>

definition mask_case :: "int \<Rightarrow> u64 \<Rightarrow> u64 \<Rightarrow> u64 \<Rightarrow> atrans \<Rightarrow> atrans" where
  "mask_case s b r c t = t\<lparr>ADDR_CHIP_S := s,
     addrdec_mask := (addrdec_mask t)(CHIP := 0, BK := b, ROW := r, COL := c)\<rparr>"

definition address_masks :: "atrans \<Rightarrow> atrans" where
  "address_masks t =
     (let a = gpgpu_mem_address_mask t
      in if a = 0 then mask_case 10 0x300 0x7FFE000 0x1CFF t
         else if a = 1 then mask_case 13 0x1800 0x7FFE000 0x7FF t
         else if a = 2 then mask_case 11 0x1800 0x7FFE000 0x7FF t
         else if a = 3 then mask_case 11 0x1800 0xFFFE000 0x7FF t
         else if a = 14 then mask_case 14 0x1800 0x7FFE000 0x7FF t
         else if a = 15 then mask_case 15 0x1800 0x7FFE000 0x7FF t
         else if a = 16 then mask_case 16 0x1800 0x7FFE000 0x7FF t
         else if a = 6 then mask_case 6 0x1800 0x7FFE000 0x7FF t
         else if a = 5 then mask_case 5 0x1800 0x7FFE000 0x7FF t
         else if a = 100 then mask_case 1 0x3 0x7FFE000 0x1FFC t
         else if a = 103 then mask_case 3 0x3 0x7FFE000 0x1FFC t
         else if a = 106 then mask_case 6 0x1800 0x7FFE000 0x7FF t
         else if a = 160 then mask_case 6 0x300 0x7FFE000 0x1CFF t
         else t)"

definition init_checks :: "atrans \<Rightarrow> u32 \<Rightarrow> u32 \<Rightarrow> bool" where
  "init_checks t n_channel n_sub =
     (n_channel > 0 \<and> n_sub > 0 \<and> non_power2_l2_slice_mapping t \<le> 1 \<and>
      (non_power2_l2_channel_indexing t = 0 \<or> non_power2_l2_channel_indexing t = 2) \<and>
      (non_power2_l2_channel_indexing t = 0 \<or> l2_is_power_of_two n_channel) \<and>
      (non_power2_l2_channel_indexing t \<noteq> 2 \<or> n_channel \<ge> 16 \<and> n_channel \<le> 1024) \<and>
      (l2_is_power_of_two n_sub \<or> memory_partition_indexing t = CONSECUTIVE))"

definition set_counts :: "atrans \<Rightarrow> u32 \<Rightarrow> u32 \<Rightarrow> atrans" where
  "set_counts t n_channel n_sub =
     (let nchipbits = unat (LOGB2_32 n_channel)
      in t\<lparr>log2channel := nchipbits,
           log2sub_partition := unat (LOGB2_32 n_sub) + (if l2_is_power_of_two n_sub then 0 else 1),
           m_n_channel := n_channel, m_n_sub_partition_in_channel := n_sub,
           nextPowerOf2_m_n_channel := next_powerOf2 n_channel,
           gap := word_of_int (uint n_channel - powli 2 nchipbits)\<rparr>)"

text \<open>A power of two of channels: the chip bits are inserted at \<^verbatim>\<open>ADDR_CHIP_S\<close>.\<close>

definition open_gap :: "nat \<Rightarrow> nat \<Rightarrow> u64 \<Rightarrow> u64" where
  "open_gap s n m = push_bit n (m AND NOT (push_bit s 1 - 1)) OR (m AND (push_bit s 1 - 1))"

definition chip_bits :: "nat \<Rightarrow> nat \<Rightarrow> u64 \<Rightarrow> u64" where
  "chip_bits s n m = foldl (\<lambda>m i. m OR push_bit i 1) m [s..<s + n]"

definition insert_chip :: "nat \<Rightarrow> atrans \<Rightarrow> atrans" where
  "insert_chip nchipbits t =
     (let s = nat (ADDR_CHIP_S t); ms = addrdec_mask t
      in t\<lparr>addrdec_mask := ms(BK := open_gap s nchipbits (ms BK), ROW := open_gap s nchipbits (ms ROW),
           COL := open_gap s nchipbits (ms COL), CHIP := chip_bits s nchipbits (ms CHIP))\<rparr>)"

definition set_limits :: "atrans \<Rightarrow> atrans" where
  "set_limits t = t\<lparr>addrdec_mkhigh := (\<lambda>f. fst (addrdec_getmasklimit (addrdec_mask t f))),
     addrdec_mklow := (\<lambda>f. snd (addrdec_getmasklimit (addrdec_mask t f)))\<rparr>"

fun sub_mask_loop :: "u64 \<Rightarrow> nat \<Rightarrow> nat list \<Rightarrow> nat \<Rightarrow> u64 \<Rightarrow> u64" where
  "sub_mask_loop m limit [] pos acc = acc"
| "sub_mask_loop m limit (i # is) pos acc =
     (if m AND push_bit i 1 \<noteq> 0
      then (if limit \<le> pos + 1 then acc OR push_bit i 1
            else sub_mask_loop m limit is (pos + 1) (acc OR push_bit i 1))
      else sub_mask_loop m limit is pos acc)"

definition set_sub_mask :: "atrans \<Rightarrow> atrans" where
  "set_sub_mask t = t\<lparr>sub_partition_id_mask :=
     (if m_n_sub_partition_in_channel t > 1 \<and> l2_is_power_of_two (m_n_sub_partition_in_channel t)
      then sub_mask_loop (addrdec_mask t BK) (log2sub_partition t)
             [addrdec_mklow t BK..<addrdec_mkhigh t BK] 0 0
      else 0)\<rparr>"

text \<open>
  The sweep test looks every fourth address below \<^verbatim>\<open>sweep_range\<close> up in the table of the raw
  addresses seen so far. \<open>None\<close> is its \<^verbatim>\<open>abort()\<close>.
\<close>

fun sweep :: "atrans \<Rightarrow> (nat \<Rightarrow> u32) \<Rightarrow> u64 list \<Rightarrow> (addrdec \<rightharpoonup> u64) \<Rightarrow> interleaving \<Rightarrow> interleaving option" where
  "sweep t rand [] history st = Some st"
| "sweep t rand (raw_addr # rest) history st = do {
     (tlx, st') \<leftarrow> addrdec_tlx t rand st raw_addr;
     cassert (history tlx = None);
     cassert (chip tlx < m_n_channel t);
     let above = (if ADDR_CHIP_S t \<noteq> - 1 then push_bit (nat (ADDR_CHIP_S t)) 1 \<le> raw_addr
                  else push_bit (addrdec_mklow t CHIP) 1 \<le> raw_addr);
     pa \<leftarrow> (if above then partition_address t raw_addr else Some 0);
     cassert (\<not> above \<or> raw_addr \<noteq> pa);
     sweep t rand rest (history(tlx \<mapsto> raw_addr)) st'
   }"

definition sweep_test :: "atrans \<Rightarrow> (nat \<Rightarrow> u32) \<Rightarrow> interleaving \<Rightarrow> interleaving option" where
  "sweep_test t rand st = sweep t rand (map (\<lambda>i. of_nat (4 * i)) [1..<4194304]) Map.empty st"

definition init_masks :: "atrans \<Rightarrow> u32 \<Rightarrow> u32 \<Rightarrow> atrans option" where
  "init_masks t0 n_channel n_sub = do {
     cassert (init_checks t0 n_channel n_sub);
     let t1 = address_masks (set_counts t0 n_channel n_sub);
     t2 \<leftarrow> (case addrdec_option t1 of None \<Rightarrow> Some t1 | Some opt \<Rightarrow> addrdec_parseoption t1 opt);
     t3 \<leftarrow> (if ADDR_CHIP_S t2 \<noteq> - 1
           then Some (if gap t2 = 0 then insert_chip (log2channel t2) t2 else t2)
           else do { cassert (n_channel AND (n_channel - 1) = 0); Some t2 });
     Some (set_sub_mask (set_limits t3))
   }"

text \<open>The generator is seeded again after the sweep; its stream is \<open>rand\<close> from the start.\<close>

definition init :: "atrans \<Rightarrow> (nat \<Rightarrow> u32) \<Rightarrow> interleaving \<Rightarrow> u32 \<Rightarrow> u32 \<Rightarrow> (atrans \<times> interleaving) option" where
  "init t0 rand st n_channel n_sub = do {
     t \<leftarrow> init_masks t0 n_channel n_sub;
     st1 \<leftarrow> (if run_test t then sweep_test t rand st else Some st);
     Some (t, if memory_partition_indexing t = RANDOM then (fst st1, 0) else st1)
   }"

end
