(* ===== verification/Address_Decode_Safety.thy ===== *)
theory Address_Decode_Safety
  imports Address_Decode
begin

section \<open>Addresses are not aliased\<close>

text \<open>
  What \<open>init\<close> establishes for a translation, and that the modes which permute the slices of an
  address block keep slice and partition address a faithful name of the address.
\<close>

subsection \<open>Initialised translations\<close>

text \<open>
  What \<open>init\<close> establishes for a map given as \<^verbatim>\<open>dramid@s;..\<close>: the limits are those of the masks,
  a channel count without gap is a power of two whose bits sit at \<^verbatim>\<open>ADDR_CHIP_S\<close>, and the slice
  bits are the lowest bits of the bank mask. The total number of slices is an \<^verbatim>\<open>int\<close>.
\<close>

definition atrans_ok :: "atrans \<Rightarrow> bool" where
  "atrans_ok t \<longleftrightarrow>
     0 < m_n_channel t \<and> 0 < m_n_sub_partition_in_channel t \<and>
     unat (m_n_channel t) * unat (m_n_sub_partition_in_channel t) < 2 ^ 31 \<and>
     (\<forall>f. addrdec_getmasklimit (addrdec_mask t f) = (addrdec_mkhigh t f, addrdec_mklow t f)) \<and>
     0 \<le> ADDR_CHIP_S t \<and> ADDR_CHIP_S t \<le> 30 \<and>
     (gap t = 0 \<longrightarrow> log2channel t < 31 \<and> unat (m_n_channel t) = 2 ^ log2channel t \<and>
        (\<forall>i. bit (addrdec_mask t CHIP) i \<longleftrightarrow>
          nat (ADDR_CHIP_S t) \<le> i \<and> i < nat (ADDR_CHIP_S t) + log2channel t)) \<and>
     (l2_is_power_of_two (m_n_sub_partition_in_channel t) \<longrightarrow> log2sub_partition t < 31 \<and>
        unat (m_n_sub_partition_in_channel t) = 2 ^ log2sub_partition t \<and>
        (\<forall>i. bit (sub_partition_id_mask t) i \<longleftrightarrow>
          i \<in> set (take (log2sub_partition t) (mask_positions (addrdec_mask t BK))))) \<and>
     (non_power2_l2_channel_indexing t = 2 \<longrightarrow>
        gap t = 0 \<and> 16 \<le> m_n_channel t \<and> m_n_channel t \<le> 1024)"

lemma powli_power: "powli x y = x ^ y"
  by (induction y) simp_all

lemma bit_chip_bits:
  "s + n \<le> 64 \<Longrightarrow> bit (chip_bits s n m) i \<longleftrightarrow> bit m i \<or> s \<le> i \<and> i < s + n"
proof (induction n)
  case (Suc n)
  have "bit (push_bit (s + n) 1 :: u64) i \<longleftrightarrow> i = s + n"
    using Suc.prems by (auto simp: bit_push_bit_iff bit_1_iff simp del: push_bit_of_1)
  moreover have "chip_bits s (Suc n) m = chip_bits s n m OR push_bit (s + n) 1"
    by (simp add: chip_bits_def del: push_bit_of_1)
  ultimately show ?case using Suc by (auto simp: bit_or_iff)
qed (auto simp: chip_bits_def)

lemma parse_map_keeps_chip:
  "parse_map True cs ofs ms = Some (ofs', ms') \<Longrightarrow> ms' CHIP = ms CHIP"
  by (induction cs arbitrary: ofs ms)
    (auto simp: set_mask_bit_def split: map_item.splits)

lemma bit_sub_mask_loop:
  assumes "pos < limit" "set is \<subseteq> {..<64}"
  shows "bit (sub_mask_loop m limit is pos acc) i \<longleftrightarrow>
    bit acc i \<or> i \<in> set (take (limit - pos) (filter (bit m) is))"
  using assms
proof (induction "is" arbitrary: pos acc)
  case (Cons j "is")
  obtain d where d: "limit - pos = Suc d" using Cons.prems(1) by (cases "limit - pos") auto
  have d': "limit - Suc pos = d" using d by simp
  have bit1: "bit (push_bit j 1 :: u64) i \<longleftrightarrow> i = j"
    using Cons.prems(2) by (auto simp: bit_push_bit_iff bit_1_iff simp del: push_bit_of_1)
  have last: "limit \<le> Suc pos \<Longrightarrow> d = 0" using d by simp
  show ?case
    using Cons d d' last bit1
    by (auto simp: and_single_bit bit_or_iff simp del: push_bit_of_1)
qed simp

lemma set_counts_gap:
  assumes "0 < n" "gap (set_counts t n k) = 0"
  shows "unat n = 2 ^ log2channel (set_counts t n k)"
proof -
  let ?j = "unat (LOGB2_32 n)"
  have fl: "2 ^ ?j \<le> unat n \<and> unat n < 2 ^ Suc ?j"
    using assms(1) by (intro LOGB2_32_floor) auto
  have "gap (set_counts t n k) = n - 2 ^ ?j"
    by (simp add: set_counts_def Let_def powli_power of_int_diff)
  then have n: "n = 2 ^ ?j" using assms(2) by simp
  have "unat n < 2 ^ LENGTH(32)" by (rule unsigned_less)
  then have "(2 :: nat) ^ ?j < 2 ^ 32" using fl by simp
  then have "unat (2 ^ ?j :: u32) = 2 ^ ?j"
    using unat_of_nat [of "2 ^ ?j", where ?'a = 32] by (simp add: take_bit_nat_eq_self)
  with n have "unat n = 2 ^ ?j" by metis
  then show ?thesis by (simp add: set_counts_def Let_def)
qed

lemma slice_log2:
  assumes "l2_is_power_of_two k"
  shows "unat k = 2 ^ unat (LOGB2_32 k)"
proof -
  have "k \<noteq> 0" using assms by (simp add: l2_is_power_of_two_def)
  then have "2 ^ unat (LOGB2_32 k) \<le> unat k" "unat k < 2 ^ Suc (unat (LOGB2_32 k))"
    using LOGB2_32_floor [of k] by blast+
  with assms show ?thesis using l2_is_power_of_two_iff by blast
qed

lemma take_less_power: "2 ^ j < (2 ^ 31 :: nat) \<Longrightarrow> j < 31"
  by (metis nat_power_less_imp_less zero_less_numeral)

lemma init_masks_ok:
  assumes init: "init_masks t0 n k = Some t" and opt: "addrdec_option t0 = Some opt"
    and dram: "scan_dramid opt = Some s" "0 \<le> s" "s \<le> 30"
    and count: "unat n * unat k < 2 ^ 31"
  shows "atrans_ok t \<and> m_n_channel t = n \<and> m_n_sub_partition_in_channel t = k \<and>
    memory_partition_indexing t = memory_partition_indexing t0 \<and>
    non_power2_l2_slice_mapping t = non_power2_l2_slice_mapping t0"
proof -
  define c where "c = set_counts t0 n k"
  define t1 where "t1 = address_masks c"
  have t1: "t1 = c\<lparr>ADDR_CHIP_S := ADDR_CHIP_S t1, addrdec_mask := addrdec_mask t1\<rparr>"
    by (simp add: t1_def address_masks_def mask_case_def Let_def)
  have checks: "init_checks t0 n k" using init by (simp add: init_masks_def)
  have "addrdec_option t1 = Some opt"
    by (subst t1) (simp add: c_def set_counts_def Let_def opt)
  with init dram obtain ms where ms: "parse_map True (map_part opt) 63 (\<lambda>_. 0) = Some (- 1, ms)"
    and t: "t = set_sub_mask (set_limits (let t2 = t1\<lparr>ADDR_CHIP_S := s, addrdec_mask := ms\<rparr>
      in if gap t2 = 0 then insert_chip (log2channel t2) t2 else t2))"
    by (auto simp: init_masks_def t1_def c_def addrdec_parseoption_def bind_eq_Some_conv Let_def)
  define t2 where "t2 = c\<lparr>ADDR_CHIP_S := s, addrdec_mask := ms\<rparr>"
  have t: "t = set_sub_mask (set_limits (if gap c = 0 then insert_chip (log2channel c) t2 else t2))"
    unfolding t t2_def Let_def by (subst (1 2 3 4) t1) simp
  define t3 where "t3 = (if gap c = 0 then insert_chip (log2channel c) t2 else t2)"
  have keep: "gap t = gap c" "log2channel t = log2channel c" "log2sub_partition t = log2sub_partition c"
    "m_n_channel t = n" "m_n_sub_partition_in_channel t = k" "ADDR_CHIP_S t = s"
    "memory_partition_indexing t = memory_partition_indexing t0"
    "non_power2_l2_slice_mapping t = non_power2_l2_slice_mapping t0"
    "non_power2_l2_channel_indexing t = non_power2_l2_channel_indexing t0"
    "addrdec_mask t = addrdec_mask t3"
    by (simp_all add: t t3_def t2_def c_def set_counts_def Let_def set_sub_mask_def set_limits_def insert_chip_def)
  have limits: "addrdec_mkhigh t = (\<lambda>f. fst (addrdec_getmasklimit (addrdec_mask t3 f)))"
    "addrdec_mklow t = (\<lambda>f. snd (addrdec_getmasklimit (addrdec_mask t3 f)))"
    by (simp_all add: t t3_def set_sub_mask_def set_limits_def)
  have pos: "0 < n" "0 < k" using checks by (simp_all add: init_checks_def)
  then have upos: "0 < unat n" "0 < unat k" by (simp_all add: word_less_nat_alt)
  have "unat n \<le> unat n * unat k" "unat k \<le> unat n * unat k" using upos by simp_all
  with count have small: "unat n < 2 ^ 31" "unat k < 2 ^ 31" by linarith+
  have chip: "log2channel t < 31 \<and> unat n = 2 ^ log2channel t \<and>
      (\<forall>i. bit (addrdec_mask t CHIP) i \<longleftrightarrow> nat s \<le> i \<and> i < nat s + log2channel t)"
    if "gap t = 0"
  proof -
    have n: "unat n = 2 ^ log2channel c"
      using set_counts_gap [OF pos(1), of t0 k] that keep(1) unfolding c_def by simp
    with small(1) have l: "log2channel c < 31" by (intro take_less_power) simp
    have "nat s + log2channel c \<le> 64" using l dram by linarith
    then have "bit (addrdec_mask t3 CHIP) i \<longleftrightarrow> nat s \<le> i \<and> i < nat s + log2channel c" for i
      using that keep(1) parse_map_keeps_chip [OF ms]
      by (simp add: t3_def t2_def insert_chip_def Let_def bit_chip_bits)
    with n l show ?thesis by (simp add: keep)
  qed
  have slice: "log2sub_partition t < 31 \<and> unat k = 2 ^ log2sub_partition t \<and>
      (\<forall>i. bit (sub_partition_id_mask t) i \<longleftrightarrow>
        i \<in> set (take (log2sub_partition t) (mask_positions (addrdec_mask t BK))))"
    if p: "l2_is_power_of_two k"
  proof -
    have j: "log2sub_partition t = unat (LOGB2_32 k)"
      using p by (simp add: keep c_def set_counts_def Let_def)
    then have k: "unat k = 2 ^ log2sub_partition t" using slice_log2 [OF p] by simp
    with small(2) have l: "log2sub_partition t < 31" by (intro take_less_power) simp
    let ?m = "addrdec_mask t BK"
    obtain hi lo where hl: "addrdec_getmasklimit ?m = (hi, lo)" by force
    have mask: "sub_partition_id_mask t =
        (if 1 < k then sub_mask_loop ?m (log2sub_partition t) [lo..<hi] 0 0 else 0)"
      using p hl keep(10)
      by (simp add: t t3_def [symmetric] set_sub_mask_def set_limits_def keep(4,5)
          t2_def c_def set_counts_def Let_def insert_chip_def split: if_splits)
    have "bit (sub_partition_id_mask t) i \<longleftrightarrow>
        i \<in> set (take (log2sub_partition t) (mask_positions ?m))" for i
    proof (cases "1 < k")
      case True
      then have "1 < unat k" by (simp add: word_less_nat_alt)
      with k have "0 < log2sub_partition t" by (cases "log2sub_partition t") auto
      moreover have "set [lo..<hi] \<subseteq> {..<64}" using getmasklimit_le [OF hl] by auto
      ultimately show ?thesis
        using True bit_sub_mask_loop [of 0 "log2sub_partition t" "[lo..<hi]"]
        by (simp add: mask filter_within_limits [OF hl])
    next
      case False
      with upos(2) have "unat k = 1" by (simp add: word_less_nat_alt)
      with k have "log2sub_partition t = 0" by (cases "log2sub_partition t") auto
      with False show ?thesis by (simp add: mask)
    qed
    with k l show ?thesis by blast
  qed
  have channel: "gap t = 0 \<and> 16 \<le> n \<and> n \<le> 1024" if "non_power2_l2_channel_indexing t = 2"
  proof -
    have "l2_is_power_of_two n" "16 \<le> n" "n \<le> 1024"
      using checks that by (auto simp: init_checks_def keep)
    moreover have "gap c = 0"
      using slice_log2 [OF \<open>l2_is_power_of_two n\<close>]
      by (simp add: c_def set_counts_def Let_def powli_power uint_nat)
    ultimately show ?thesis by (simp add: keep)
  qed
  have "\<forall>f. addrdec_getmasklimit (addrdec_mask t f) = (addrdec_mkhigh t f, addrdec_mklow t f)"
    by (simp add: keep limits)
  then show ?thesis
    unfolding atrans_ok_def using pos count dram chip slice channel by (simp add: keep(4-9))
qed

subsection \<open>What the fields determine\<close>

lemma decode_field_full:
  "atrans_ok t \<Longrightarrow> decode_field t v f = ucast (addrdec_packbits (addrdec_mask t f) v 64 0)"
  by (simp add: atrans_ok_def decode_field_def packbits_collects_masked_bits
      filter_within_limits mask_positions_def [symmetric])

lemma atrans_okD:
  assumes "atrans_ok t"
  shows "0 < unat (m_n_channel t)" "0 < unat (m_n_sub_partition_in_channel t)"
    "unat (m_n_channel t) * unat (m_n_sub_partition_in_channel t) < 2 ^ 31"
    "unat (m_n_channel t) < 2 ^ 31" "unat (m_n_sub_partition_in_channel t) < 2 ^ 31"
    "0 \<le> ADDR_CHIP_S t" "ADDR_CHIP_S t \<le> 30"
proof -
  let ?n = "unat (m_n_channel t)" and ?k = "unat (m_n_sub_partition_in_channel t)"
  show pos: "0 < ?n" "0 < ?k" using assms by (simp_all add: atrans_ok_def word_less_nat_alt)
  show b: "?n * ?k < 2 ^ 31" "0 \<le> ADDR_CHIP_S t" "ADDR_CHIP_S t \<le> 30"
    using assms by (simp_all add: atrans_ok_def)
  have "?n \<le> ?n * ?k" "?k \<le> ?n * ?k" using pos by simp_all
  with b(1) show "?n < 2 ^ 31" "?k < 2 ^ 31" by linarith+
qed

lemma chip_positions:
  assumes "atrans_ok t" "gap t = 0"
  shows "mask_positions (addrdec_mask t CHIP) =
    [nat (ADDR_CHIP_S t)..<nat (ADDR_CHIP_S t) + log2channel t]"
proof (rule sorted_distinct_set_unique)
  show "set (mask_positions (addrdec_mask t CHIP)) =
      set [nat (ADDR_CHIP_S t)..<nat (ADDR_CHIP_S t) + log2channel t]"
    using assms by (auto simp: atrans_ok_def)
qed simp_all

lemma bit_chip:
  assumes "atrans_ok t" "gap t = 0"
  shows "bit (chip (raw_fields t addr)) i \<longleftrightarrow>
    i < log2channel t \<and> bit addr (nat (ADDR_CHIP_S t) + i)"
proof -
  have "log2channel t < 31" using assms by (simp add: atrans_ok_def)
  then show ?thesis
    using assms(2)
    by (auto simp: raw_fields_def Let_def decode_field_full [OF assms(1)] packbits_full chip_positions [OF assms]
        bit_ucast_iff bit_horner_bools nth_append)
qed

lemma less_exp_if_bits:
  assumes "\<And>i. bit (x :: 'a :: len word) i \<Longrightarrow> i < l"
  shows "unat x < 2 ^ l"
proof -
  have "take_bit l (unat x) = unat x"
    using assms by (intro bit_eqI) (auto simp: bit_take_bit_iff bit_unsigned_iff)
  then show ?thesis by (metis take_bit_nat_less_exp)
qed

lemma chip_less:
  assumes "atrans_ok t"
  shows "chip (raw_fields t addr) < m_n_channel t"
proof (cases "gap t = 0")
  case True
  then have "unat (m_n_channel t) = 2 ^ log2channel t" using assms by (simp add: atrans_ok_def)
  moreover have "unat (chip (raw_fields t addr)) < 2 ^ log2channel t"
    by (rule less_exp_if_bits) (simp add: bit_chip [OF assms True])
  ultimately show ?thesis by (simp add: word_less_nat_alt)
next
  case False
  let ?n = "m_n_channel t"
  have un: "unat (ucast ?n :: u64) = unat ?n" by (rule unat_widen)
  have "unat (drop_bit (nat (ADDR_CHIP_S t)) addr mod ucast ?n) < unat ?n"
    using atrans_okD(1) [OF assms] by (simp add: unat_mod_distrib un)
  moreover have "unat ?n < 2 ^ 32" using atrans_okD(4) [OF assms] by simp
  ultimately show ?thesis using False
    by (simp add: raw_fields_def Let_def word_less_nat_alt unsigned_ucast_eq take_bit_nat_eq_self)
qed

text \<open>Without a gap the chip bits and the others make up the address.\<close>

lemma no_gap_determined:
  assumes "atrans_ok t" "gap t = 0" "chip (raw_fields t a) = chip (raw_fields t b)"
    "\<And>i. \<not> bit (addrdec_mask t CHIP) i \<Longrightarrow> bit a i = bit b i"
  shows "a = b"
proof (rule bit_word_eqI)
  fix i
  let ?s = "nat (ADDR_CHIP_S t)"
  show "bit a i = bit b i"
  proof (cases "bit (addrdec_mask t CHIP) i")
    case True
    then have i: "?s \<le> i" "i - ?s < log2channel t" using assms(1,2) by (auto simp: atrans_ok_def)
    then show ?thesis
      using bit_chip [OF assms(1,2), of a "i - ?s"] bit_chip [OF assms(1,2), of b "i - ?s"] assms(3)
      by simp
  qed (rule assms(4))
qed

lemma gap_local_parts:
  assumes "atrans_ok t"
  shows "drop_bit (nat (ADDR_CHIP_S t)) (gap_local t a) =
      drop_bit (nat (ADDR_CHIP_S t)) a div ucast (m_n_channel t) \<and>
    take_bit (nat (ADDR_CHIP_S t)) (gap_local t a) = take_bit (nat (ADDR_CHIP_S t)) a"
proof -
  let ?s = "nat (ADDR_CHIP_S t)"
  define q where "q = drop_bit ?s a div ucast (m_n_channel t)"
  have s: "?s < 64" using atrans_okD(7) [OF assms] by linarith
  have "unat q \<le> unat (drop_bit ?s a)" by (simp add: q_def unat_div_distrib)
  moreover have "unat (drop_bit ?s a) < 2 ^ (64 - ?s)"
    by (rule less_exp_if_bits) (auto simp: bit_drop_bit_eq dest: bit_imp_le_length)
  ultimately have "unat q < 2 ^ (64 - ?s)" by linarith
  then have q: "i + ?s < 64" if "bit q i" for i
  proof -
    have "bit (unat q) i" using that by (simp add: bit_unsigned_iff)
    moreover have "take_bit (64 - ?s) (unat q) = unat q" using \<open>unat q < _\<close> by (rule take_bit_nat_eq_self)
    ultimately have "i < 64 - ?s" by (metis bit_take_bit_iff)
    then show ?thesis by simp
  qed
  have mask: "push_bit ?s 1 - 1 = (mask ?s :: u64)" by (simp add: mask_eq_exp_minus_1)
  have loc: "gap_local t a = push_bit ?s q OR take_bit ?s a"
    by (simp only: gap_local_def Let_def mask q_def take_bit_eq_mask [symmetric])
  have "drop_bit ?s (gap_local t a) = q"
    by (rule bit_word_eqI)
      (auto simp: loc bit_drop_bit_eq bit_or_iff bit_push_bit_iff bit_take_bit_iff add.commute dest: q)
  moreover have "take_bit ?s (gap_local t a) = take_bit ?s a"
    by (rule bit_word_eqI) (auto simp: loc bit_or_iff bit_push_bit_iff bit_take_bit_iff)
  ultimately show ?thesis by (simp add: q_def)
qed

lemma split_at: "drop_bit s a = drop_bit s b \<Longrightarrow> take_bit s a = take_bit s b \<Longrightarrow> a = (b :: 'a :: len word)"
  by (metis bits_ident)

lemma gap_determined:
  assumes "atrans_ok t" "gap t \<noteq> 0" "chip (raw_fields t a) = chip (raw_fields t b)"
    "gap_local t a = gap_local t b"
  shows "a = b"
proof (rule split_at)
  let ?s = "nat (ADDR_CHIP_S t)" and ?n = "ucast (m_n_channel t) :: u64"
  show "take_bit ?s a = take_bit ?s b" using gap_local_parts [OF assms(1)] assms(4) by metis
  have q: "drop_bit ?s a div ?n = drop_bit ?s b div ?n" using gap_local_parts [OF assms(1)] assms(4) by metis
  have small: "unat (drop_bit ?s x mod ?n) < 2 ^ 32" for x
  proof -
    have "unat (drop_bit ?s x mod ?n) < unat ?n"
      using atrans_okD(1) [OF assms(1)] by (simp add: unat_mod_distrib unat_widen)
    also have "\<dots> < 2 ^ 32" using atrans_okD(4) [OF assms(1)] by (simp add: unat_widen)
    finally show ?thesis .
  qed
  have "unat (chip (raw_fields t x)) = unat (drop_bit ?s x mod ?n)" for x
    using assms(2) small [of x]
    by (simp add: raw_fields_def Let_def unsigned_ucast_eq take_bit_nat_eq_self)
  with assms(3) have "drop_bit ?s a mod ?n = drop_bit ?s b mod ?n" by (metis word_unat_eq_iff)
  with q show "drop_bit ?s a = drop_bit ?s b" by (metis div_mult_mod_eq)
qed

text \<open>The channel and the address within the channel make up the address.\<close>

lemma channel_address_determines:
  assumes "atrans_ok t" "chip (raw_fields t a) = chip (raw_fields t b)"
    "channel_address t a = channel_address t b"
  shows "a = b"
proof (cases "gap t = 0")
  case True
  show ?thesis
  proof (rule no_gap_determined [OF assms(1) True assms(2)])
    fix i
    assume i: "\<not> bit (addrdec_mask t CHIP) i"
    show "bit a i = bit b i"
    proof (cases "i < 64")
      case True
      with i assms(3) \<open>gap t = 0\<close> packbits_determines [of "NOT (addrdec_mask t CHIP)" a b i]
      show ?thesis by (simp add: channel_address_def bit_not_iff)
    qed (auto dest: bit_imp_le_length)
  qed
next
  case False
  then show ?thesis using gap_determined assms by (simp add: channel_address_def)
qed

subsection \<open>Slices that are no power of two\<close>

definition slice_rotation :: "u64 \<Rightarrow> u32 \<Rightarrow> bool \<Rightarrow> nat" where
  "slice_rotation q k balanced =
     (if balanced \<and> k \<noteq> 1 then unat (stable_mix q) mod unat k else 0)"

lemma unat_narrow_mod:
  "0 < k \<Longrightarrow> unat (ucast (x mod ucast k :: u64) :: u32) = unat x mod unat (k :: u32)"
proof -
  assume "0 < k"
  then have "unat x mod unat k < unat k" by (simp add: word_less_nat_alt)
  moreover have "unat k < 2 ^ LENGTH(32)" by (rule unsigned_less)
  ultimately have "unat x mod unat k < 2 ^ 32" by simp
  moreover have "unat (x mod ucast k) = unat x mod unat k" by (simp add: unat_mod_distrib unat_widen)
  ultimately show ?thesis by (simp add: unsigned_ucast_eq take_bit_nat_eq_self del: unat_mod_distrib)
qed

lemma slice_index_unat:
  assumes "0 < unat k" "unat k < 2 ^ 31"
  shows "\<exists>sub. slice_index la k balanced = Some sub \<and> unat sub < unat k \<and>
    unat sub = (unat la div 128 mod unat k +
      slice_rotation (la div MAX_MEMORY_ACCESS_SIZE div ucast k) k balanced) mod unat k"
proof -
  have k: "0 < k" using assms(1) by (simp add: word_less_nat_alt)
  define line where "line = la div MAX_MEMORY_ACCESS_SIZE"
  have line: "unat line = unat la div 128"
    by (simp add: line_def MAX_MEMORY_ACCESS_SIZE_def unat_div_distrib)
  define r where "r = (ucast (line mod ucast k) :: u32)"
  define rot where "rot = (ucast (stable_mix (line div ucast k) mod ucast k) :: u32)"
  have r: "unat r = unat la div 128 mod unat k" by (simp add: r_def unat_narrow_mod [OF k] line)
  have rot: "unat rot = unat (stable_mix (line div ucast k)) mod unat k"
    by (simp add: rot_def unat_narrow_mod [OF k])
  have lt: "unat r < unat k" "unat rot < unat k" using assms(1) by (simp_all add: r rot)
  with assms(2) have "unat r + unat rot < 2 ^ 32" by simp
  then have sum: "unat ((r + rot) mod k) = (unat r + unat rot) mod unat k"
    by (simp add: unat_mod_distrib unat_word_ariths)
  show ?thesis
  proof (cases "balanced \<and> k \<noteq> 1")
    case True
    then have "slice_index la k balanced = Some ((r + rot) mod k)"
      using k by (simp add: slice_index_def r_def rot_def line_def Let_def)
    with True show ?thesis using sum r rot assms(1) by (simp add: slice_rotation_def line_def)
  next
    case False
    then have "slice_index la k balanced = Some r"
      using k by (auto simp: slice_index_def r_def line_def Let_def)
    with False lt(1) show ?thesis using r by (simp add: slice_rotation_def)
  qed
qed

lemma slice_partition_address_unat:
  assumes "0 < unat k"
  shows "\<exists>pa. slice_partition_address la k = Some pa \<and>
    unat pa = unat la div 128 div unat k * 128 + unat la mod 128"
proof -
  have k: "0 < k" using assms(1) by (simp add: word_less_nat_alt)
  let ?q = "la div MAX_MEMORY_ACCESS_SIZE div ucast k"
  have q: "unat ?q = unat la div 128 div unat k"
    by (simp add: MAX_MEMORY_ACCESS_SIZE_def unat_div_distrib unat_widen)
  have o: "unat (la mod MAX_MEMORY_ACCESS_SIZE) = unat la mod 128"
    by (simp add: MAX_MEMORY_ACCESS_SIZE_def unat_mod_distrib)
  have "unat la div 128 div unat k * 128 + unat la mod 128 \<le> unat la div 128 * 128 + unat la mod 128"
    by (intro add_le_mono1 mult_le_mono1) simp
  also have "\<dots> = unat la" by simp
  also have "unat la < 2 ^ LENGTH(64)" by (rule unsigned_less)
  finally have "unat la div 128 div unat k * 128 + unat la mod 128 < 2 ^ 64" by simp
  moreover have "unat MAX_MEMORY_ACCESS_SIZE = 128" by (simp add: MAX_MEMORY_ACCESS_SIZE_def)
  ultimately have "unat (?q * MAX_MEMORY_ACCESS_SIZE + la mod MAX_MEMORY_ACCESS_SIZE) =
      unat la div 128 div unat k * 128 + unat la mod 128"
    by (simp only: unat_word_ariths(1,2) q o mod_add_left_eq) simp
  with k show ?thesis by (simp add: slice_partition_address_def Let_def)
qed

lemma mod_add_cancel: "(x + r) mod k = (y + r) mod k \<Longrightarrow> x < k \<Longrightarrow> y < k \<Longrightarrow> x = (y :: nat)"
proof -
  assume eq: "(x + r) mod k = (y + r) mod k" and lt: "x < k" "y < k"
  from eq have "int (x + r) mod int k = int (y + r) mod int k" by (metis zmod_int)
  then have "int k dvd int x - int y" by (simp add: mod_eq_dvd_iff)
  with lt show "x = y" using dvd_imp_le_int [of "int x - int y" "int k"] by force
qed

text \<open>The rotation only depends on the quotient, so slice and quotient keep the line apart.\<close>

lemma slice_mapping_determines:
  assumes k: "0 < unat k" "unat k < 2 ^ 31"
    and slice: "slice_index a k balanced = slice_index b k balanced"
    and pa: "slice_partition_address a k = slice_partition_address b k"
  shows "a = b"
proof -
  let ?L = "\<lambda>x. unat x div 128" and ?q = "\<lambda>x. x div MAX_MEMORY_ACCESS_SIZE div ucast k"
  have "?L a div unat k * 128 + unat a mod 128 = ?L b div unat k * 128 + unat b mod 128"
    using slice_partition_address_unat [OF k(1), of a] slice_partition_address_unat [OF k(1), of b] pa
    by auto
  then have "(?L a div unat k * 128 + unat a mod 128) div 128 = (?L b div unat k * 128 + unat b mod 128) div 128"
    "(?L a div unat k * 128 + unat a mod 128) mod 128 = (?L b div unat k * 128 + unat b mod 128) mod 128"
    by simp_all
  then have q: "?L a div unat k = ?L b div unat k" and o: "unat a mod 128 = unat b mod 128"
    by simp_all
  have "unat (?q x) = ?L x div unat k" for x
    by (simp add: MAX_MEMORY_ACCESS_SIZE_def unat_div_distrib unat_widen)
  with q have qq: "?q a = ?q b" by (simp add: word_unat_eq_iff)
  have "(?L a mod unat k + slice_rotation (?q a) k balanced) mod unat k =
      (?L b mod unat k + slice_rotation (?q a) k balanced) mod unat k"
    using slice_index_unat [OF k, of a balanced] slice_index_unat [OF k, of b balanced] slice qq
    by auto
  then have "?L a mod unat k = ?L b mod unat k"
    by (rule mod_add_cancel) (use k in simp_all)
  with q have "?L a = ?L b" by (metis div_mult_mod_eq)
  with o have "unat a = unat b" by (metis div_mult_mod_eq)
  then show ?thesis by (simp add: word_unat_eq_iff)
qed

subsection \<open>Numbering the slices\<close>

lemma slice_number:
  assumes "unat n * unat k < 2 ^ 31" "c < n" "s < (k :: u32)"
  shows "unat (c * k + s) = unat c * unat k + unat s \<and> c * k + s < n * k \<and>
    (c * k + s) div k = c"
proof -
  have "unat c < unat n" "unat s < unat k" using assms(2,3) by (simp_all add: word_less_nat_alt)
  then have "unat c * unat k + unat s < Suc (unat c) * unat k" "Suc (unat c) * unat k \<le> unat n * unat k"
    by (simp, intro mult_le_mono1) simp
  then have lt: "unat c * unat k + unat s < unat n * unat k" by linarith
  with assms(1) have u: "unat (c * k + s) = unat c * unat k + unat s" "unat (n * k) = unat n * unat k"
    by (simp_all add: unat_word_ariths mod_add_left_eq)
  moreover have "unat ((c * k + s) div k) = unat c"
    using \<open>unat s < unat k\<close> by (simp add: unat_div_distrib u(1))
  ultimately show ?thesis using lt by (simp add: word_less_nat_alt word_unat_eq_iff)
qed

lemma slice_number_inj:
  assumes "unat n * unat k < 2 ^ 31" "c < n" "s < (k :: u32)" "c' < n" "s' < k"
    "c * k + s = c' * k + s'"
  shows "c = c' \<and> s = s'"
proof -
  have "c = c'" using slice_number [OF assms(1-3)] slice_number [OF assms(1,4,5)] assms(6) by metis
  with assms(6) show ?thesis by simp
qed

subsection \<open>Channel hashing\<close>

lemma ipoly_hash_pow:
  assumes "4 \<le> j" "j \<le> 10"
  shows "\<exists>rows. length rows = j \<and> (\<forall>h c. ipoly_hash_function h c (2 ^ j) = Some (ipoly_rows rows h c))"
proof -
  have "j \<in> {4, 5, 6, 7, 8, 9, 10}" using assms by auto
  moreover have "length ipoly_128 = 7" "length ipoly_256 = 8" "length ipoly_512 = 9" "length ipoly_1024 = 10"
    by (simp_all add: ipoly_128_def ipoly_256_def ipoly_512_def ipoly_1024_def)
  ultimately show ?thesis
    by (elim insertE emptyE)
      (fastforce simp: ipoly_hash_function_def intro: exI [of _ ipoly_16] exI [of _ ipoly_32] exI [of _ ipoly_64])+
qed

lemma ipoly_rows_split:
  assumes "length rows \<le> 32" "unat c < 2 ^ length rows"
  shows "ipoly_rows rows h c = ipoly_rows rows h 0 XOR c"
proof -
  have no_tap: "xor_taps 0 taps b = b" for taps b
    by (induction taps) (simp_all add: xor_taps_def)
  have "ipoly_rows rows 0 c = c"
    using assms by (intro bit_word_eqI) (auto simp: bit_ipoly_rows no_tap dest: small_no_bit)
  then show ?thesis using ipoly_linear [OF assms(1), of h 0 0 c] by simp
qed

lemma ipoly_rows_less: "length rows \<le> 32 \<Longrightarrow> unat (ipoly_rows rows h c) < 2 ^ length rows"
  by (rule less_exp_if_bits) (simp add: bit_ipoly_rows)

text \<open>The channel hash permutes the channels, whatever the address within the channel.\<close>

lemma channel_hash_permutes:
  assumes "atrans_ok t" "non_power2_l2_channel_indexing t = 2"
  shows "\<exists>f. (\<forall>h c. ipoly_hash_function h c (unat (m_n_channel t)) = Some (f h c)) \<and>
    (\<forall>h c. f h c < m_n_channel t) \<and>
    (\<forall>h c c'. c < m_n_channel t \<longrightarrow> c' < m_n_channel t \<longrightarrow> f h c = f h c' \<longrightarrow> c = c')"
proof -
  let ?j = "log2channel t"
  have n: "unat (m_n_channel t) = 2 ^ ?j" using assms by (simp add: atrans_ok_def)
  have "16 \<le> m_n_channel t" "m_n_channel t \<le> 1024" using assms unfolding atrans_ok_def by blast+
  then have "16 \<le> unat (m_n_channel t)" "unat (m_n_channel t) \<le> 1024"
    by (simp_all add: word_le_nat_alt)
  then have "(2 :: nat) ^ 4 \<le> 2 ^ ?j" "(2 :: nat) ^ ?j \<le> 2 ^ 10" by (simp_all flip: n)
  then have "4 \<le> ?j" "?j \<le> 10" by (metis power_le_imp_le_exp numeral_less_iff one_less_numeral_iff semiring_norm(76))+
  then obtain rows where rows: "length rows = ?j"
    "\<And>h c. ipoly_hash_function h c (2 ^ ?j) = Some (ipoly_rows rows h c)"
    using ipoly_hash_pow by blast
  have len: "length rows \<le> 32" using rows(1) \<open>?j \<le> 10\<close> by simp
  show ?thesis
  proof (intro exI [of _ "ipoly_rows rows"] conjI allI impI)
    fix h c c'
    show "ipoly_hash_function h c (unat (m_n_channel t)) = Some (ipoly_rows rows h c)"
      using rows(2) n by simp
    show "ipoly_rows rows h c < m_n_channel t"
      using ipoly_rows_less [OF len] rows(1) n by (simp add: word_less_nat_alt)
    assume "c < m_n_channel t" "c' < m_n_channel t" "ipoly_rows rows h c = ipoly_rows rows h c'"
    then show "c = c'"
      using ipoly_rows_split [OF len, of c h] ipoly_rows_split [OF len, of c' h] rows(1) n
      by (simp add: word_less_nat_alt xor_left_cancel)
  qed
qed

subsection \<open>The modes that alias no two addresses\<close>

definition alias_free :: "atrans \<Rightarrow> bool" where
  "alias_free t =
     (if \<not> l2_is_power_of_two (m_n_sub_partition_in_channel t)
      then memory_partition_indexing t = CONSECUTIVE
      else case memory_partition_indexing t of
        CONSECUTIVE \<Rightarrow> True
      | CUSTOM \<Rightarrow> True
      | BITWISE_PERMUTATION \<Rightarrow> gap t = 0
      | IPOLY \<Rightarrow> gap t \<noteq> 0 \<and> ipoly_channel_stable_l2slice t = 0 \<and> ipoly_non_power2_balanced t = 3 \<and>
          sub_partition_id_mask t < push_bit (nat (ADDR_CHIP_S t)) 1
      | _ \<Rightarrow> False)"

lemma plural_slices:
  assumes "atrans_ok t" "alias_free t" "\<not> l2_is_power_of_two (m_n_sub_partition_in_channel t)"
  shows "\<exists>c sub. addrdec_tlx t rand st a = Some ((raw_fields t a)\<lparr>chip := c,
      sub_partition := c * m_n_sub_partition_in_channel t + sub\<rparr>, st) \<and>
    c < m_n_channel t \<and> sub < m_n_sub_partition_in_channel t \<and>
    (if non_power2_l2_channel_indexing t = 2
     then ipoly_hash_function (drop_bit (nat (ADDR_CHIP_S t)) (channel_address t a))
       (chip (raw_fields t a)) (unat (m_n_channel t)) = Some c
     else c = chip (raw_fields t a)) \<and>
    slice_index (channel_address t a) (m_n_sub_partition_in_channel t)
      (non_power2_l2_slice_mapping t = 1) = Some sub"
proof -
  let ?n = "m_n_channel t" and ?k = "m_n_sub_partition_in_channel t" and ?la = "channel_address t a"
  obtain sub where sub: "slice_index ?la ?k (non_power2_l2_slice_mapping t = 1) = Some sub" "sub < ?k"
    using slice_index_unat [OF atrans_okD(2,5) [OF assms(1)], of ?la] by (metis word_less_nat_alt)
  obtain c where c: "c < ?n" "(if non_power2_l2_channel_indexing t = 2
      then ipoly_hash_function (drop_bit (nat (ADDR_CHIP_S t)) ?la) (chip (raw_fields t a)) (unat ?n)
      else Some (chip (raw_fields t a))) = Some c"
    using channel_hash_permutes [OF assms(1)] chip_less [OF assms(1)] by (metis (full_types))
  have "c * ?k + sub < ?n * ?k"
    using slice_number [OF atrans_okD(3) [OF assms(1)] c(1) sub(2)] by blast
  then have "addrdec_tlx t rand st a = Some ((raw_fields t a)\<lparr>chip := c, sub_partition := c * ?k + sub\<rparr>, st)"
    using assms(2,3) c sub by (simp add: addrdec_tlx_def Let_def alias_free_def tlx_non_power2_def)
  with c sub show ?thesis by (intro exI [of _ c] exI [of _ sub]) (simp split: if_splits)
qed

lemma plural_slices_determine:
  assumes ok: "atrans_ok t" "alias_free t" "\<not> l2_is_power_of_two (m_n_sub_partition_in_channel t)"
    and tlx: "addrdec_tlx t rand st a = Some (x, sx)" "addrdec_tlx t rand' st' b = Some (y, sy)"
    and same: "sub_partition x = sub_partition y" "partition_address t a = partition_address t b"
  shows "a = b"
proof -
  let ?n = "m_n_channel t" and ?k = "m_n_sub_partition_in_channel t" and ?la = "channel_address t"
  note p = plural_slices [OF ok]
  obtain c sub c' sub' where
    a: "x = (raw_fields t a)\<lparr>chip := c, sub_partition := c * ?k + sub\<rparr>" "c < ?n" "sub < ?k"
      "if non_power2_l2_channel_indexing t = 2
       then ipoly_hash_function (drop_bit (nat (ADDR_CHIP_S t)) (?la a)) (chip (raw_fields t a)) (unat ?n) = Some c
       else c = chip (raw_fields t a)"
      "slice_index (?la a) ?k (non_power2_l2_slice_mapping t = 1) = Some sub"
    and b: "y = (raw_fields t b)\<lparr>chip := c', sub_partition := c' * ?k + sub'\<rparr>" "c' < ?n" "sub' < ?k"
      "if non_power2_l2_channel_indexing t = 2
       then ipoly_hash_function (drop_bit (nat (ADDR_CHIP_S t)) (?la b)) (chip (raw_fields t b)) (unat ?n) = Some c'
       else c' = chip (raw_fields t b)"
      "slice_index (?la b) ?k (non_power2_l2_slice_mapping t = 1) = Some sub'"
    using p [of rand st a] p [of rand' st' b] tlx by (metis option.inject prod.inject)
  have "c = c' \<and> sub = sub'"
    using slice_number_inj [OF atrans_okD(3) [OF ok(1)] a(2,3) b(2,3)] same(1) a(1) b(1) by simp
  then have eq: "c = c'" "sub = sub'" by simp_all
  have la: "?la a = ?la b"
    by (rule slice_mapping_determines [OF atrans_okD(2,5) [OF ok(1)],
          where balanced = "non_power2_l2_slice_mapping t = 1"])
      (use a(5) b(5) eq same(2) ok(3) in \<open>simp_all add: partition_address_def\<close>)
  have "chip (raw_fields t a) = chip (raw_fields t b)"
    using a(4) b(4) eq la channel_hash_permutes [OF ok(1)] chip_less [OF ok(1)]
    by (metis (full_types) option.inject)
  then show ?thesis using channel_address_determines [OF ok(1)] la by blast
qed

text \<open>The low bits of the bank are the slice of the channel.\<close>

definition low_slice :: "atrans \<Rightarrow> u64 \<Rightarrow> u32" where
  "low_slice t a = bk (raw_fields t a) AND (m_n_sub_partition_in_channel t - 1)"

lemma low_slice_less:
  assumes "atrans_ok t"
  shows "low_slice t a < m_n_sub_partition_in_channel t"
proof -
  let ?k = "m_n_sub_partition_in_channel t"
  have pos: "0 < unat ?k" by (rule atrans_okD(2) [OF assms])
  then have "?k \<noteq> 0" by auto
  then have "unat (?k - 1) < unat ?k" by (rule measure_unat)
  moreover have "low_slice t a \<le> ?k - 1" unfolding low_slice_def by (rule word_and_le1)
  ultimately show ?thesis by (simp add: word_less_nat_alt word_le_nat_alt)
qed

text \<open>The address whose bank, row and column are decoded.\<close>

definition decoded_part :: "atrans \<Rightarrow> u64 \<Rightarrow> u64" where
  "decoded_part t a = (if gap t = 0 then a else gap_local t a)"

lemma low_slice_determines:
  assumes ok: "atrans_ok t" "l2_is_power_of_two (m_n_sub_partition_in_channel t)"
    and low: "low_slice t a = low_slice t b" and i: "bit (sub_partition_id_mask t) i"
  shows "bit (decoded_part t a) i = bit (decoded_part t b) i"
proof -
  let ?k = "m_n_sub_partition_in_channel t" and ?j = "log2sub_partition t"
    and ?P = "mask_positions (addrdec_mask t BK)"
  have k: "unat ?k = 2 ^ ?j" "?j < 31" "i \<in> set (take ?j ?P)"
    using ok i by (simp_all add: atrans_ok_def)
  from k(3) obtain m where m: "m < ?j" "m < length ?P" "?P ! m = i"
    by (auto simp: in_set_conv_nth)
  have "?k = of_nat (2 ^ ?j)" by (simp flip: k(1))
  then have mask: "?k - 1 = mask ?j" by (simp add: mask_eq_exp_minus_1)
  have bk: "low_slice t x =
      (ucast (addrdec_packbits (addrdec_mask t BK) (decoded_part t x) 64 0) :: u32) AND (?k - 1)" for x
    by (simp add: low_slice_def raw_fields_def Let_def decoded_part_def decode_field_full [OF ok(1)])
  have "bit (?k - 1) m" using m(1) k(2) by (simp add: mask bit_mask_iff)
  then show ?thesis
    using packed_bits_determined [of "addrdec_mask t BK" "decoded_part t a" "?k - 1" "decoded_part t b" m]
      low m by (simp add: bk)
qed

text \<open>The partition address keeps all bits but those of the chip and of the slice.\<close>

lemma partition_address_determines:
  assumes ok: "atrans_ok t" "l2_is_power_of_two (m_n_sub_partition_in_channel t)"
    and low: "low_slice t a = low_slice t b" and pa: "partition_address t a = partition_address t b"
    and i: "gap t = 0 \<longrightarrow> \<not> bit (addrdec_mask t CHIP) i"
  shows "bit (decoded_part t a) i = bit (decoded_part t b) i"
proof (cases "bit (sub_partition_id_mask t) i \<or> 64 \<le> i")
  case True
  then show ?thesis using low_slice_determines [OF ok low] by (auto dest: bit_imp_le_length)
next
  case False
  then have i64: "i < 64" "\<not> bit (sub_partition_id_mask t) i" by simp_all
  show ?thesis
  proof (cases "gap t = 0")
    case True
    then have "addrdec_packbits (NOT (addrdec_mask t CHIP OR sub_partition_id_mask t)) a 64 0 =
        addrdec_packbits (NOT (addrdec_mask t CHIP OR sub_partition_id_mask t)) b 64 0"
      using pa ok(2) by (simp add: partition_address_def)
    from packbits_determines [OF this, of i] show ?thesis using True i i64
      by (simp add: decoded_part_def bit_and_iff bit_not_iff)
  next
    case False
    then have "addrdec_packbits (NOT (sub_partition_id_mask t)) (gap_local t a) 64 0 =
        addrdec_packbits (NOT (sub_partition_id_mask t)) (gap_local t b) 64 0"
      using pa ok(2) by (simp add: partition_address_def)
    from packbits_determines [OF this, of i] show ?thesis using False i64
      by (simp add: decoded_part_def bit_not_iff)
  qed
qed

lemma power_slices_determine:
  assumes ok: "atrans_ok t" "l2_is_power_of_two (m_n_sub_partition_in_channel t)"
    and low: "low_slice t a = low_slice t b" and pa: "partition_address t a = partition_address t b"
    and chip: "chip (raw_fields t a) = chip (raw_fields t b)"
  shows "a = b"
proof (cases "gap t = 0")
  case True
  then show ?thesis
    using no_gap_determined [OF ok(1) True chip] partition_address_determines [OF ok low pa]
    by (simp add: decoded_part_def)
next
  case False
  have "gap_local t a = gap_local t b"
    using partition_address_determines [OF ok low pa] False
    by (intro bit_word_eqI) (simp add: decoded_part_def)
  with gap_determined [OF ok(1) False chip] show ?thesis by blast
qed

lemma high_bits_determined:
  assumes ok: "atrans_ok t" "l2_is_power_of_two (m_n_sub_partition_in_channel t)" "gap t = 0"
    and low: "low_slice t a = low_slice t b" and pa: "partition_address t a = partition_address t b"
  shows "rest_high_bits t a = rest_high_bits t b"
proof (rule bit_word_eqI)
  fix i
  let ?m = "nat (ADDR_CHIP_S t + int (log2channel t + log2sub_partition t))"
  have "\<not> bit (addrdec_mask t CHIP) (?m + i)" using ok atrans_okD(6) [OF ok(1)] by (auto simp: atrans_ok_def)
  then show "bit (rest_high_bits t a) i = bit (rest_high_bits t b) i"
    using partition_address_determines [OF ok(1,2) low pa, of "?m + i"] ok(3)
    by (simp add: rest_high_bits_def bit_drop_bit_eq decoded_part_def)
qed

lemma bitwise_hash: "bitwise_hash_function h c n = c XOR (ucast h AND (n - 1))"
  by (rule bit_word_eqI) (auto simp: bitwise_hash_function_def bit_ucast_iff bit_xor_iff bit_and_iff)

lemma bitwise_hash_less:
  assumes ok: "atrans_ok t" "gap t = 0" and c: "c < m_n_channel t"
  shows "bitwise_hash_function h c (m_n_channel t) < m_n_channel t"
proof -
  let ?l = "log2channel t"
  have n: "unat (m_n_channel t) = 2 ^ ?l" using ok by (simp add: atrans_ok_def)
  have "m_n_channel t = of_nat (2 ^ ?l)" by (simp flip: n)
  then have mask: "m_n_channel t - 1 = mask ?l" by (simp add: mask_eq_exp_minus_1)
  have "unat c < 2 ^ ?l" using c n by (simp add: word_less_nat_alt)
  then have "unat (bitwise_hash_function h c (m_n_channel t)) < 2 ^ ?l"
    by (intro less_exp_if_bits)
      (auto simp: bitwise_hash mask bit_xor_iff bit_and_iff bit_mask_iff dest: small_no_bit)
  then show ?thesis by (simp add: word_less_nat_alt n)
qed

text \<open>The rotation of the slices by the hash of the quotient.\<close>

lemma slice_rotation_inj:
  assumes "unat slices < 2 ^ 31" "unat rot \<le> 1024" "x < slices" "y < slices"
    "(x + rot) mod slices = (y + rot) mod (slices :: u32)"
  shows "x = y"
proof -
  have lt: "unat x < unat slices" "unat y < unat slices" using assms(3,4) by (simp_all add: word_less_nat_alt)
  have "unat ((z + rot) mod slices) = (unat z + unat rot) mod unat slices" if "unat z < unat slices" for z
    using that assms(1,2) by (simp add: unat_mod_distrib unat_word_ariths)
  with assms(5) lt have "(unat x + unat rot) mod unat slices = (unat y + unat rot) mod unat slices" by metis
  then have "unat x = unat y" by (rule mod_add_cancel) (fact lt)+
  then show ?thesis by (simp add: word_unat_eq_iff)
qed

definition hashed_chip :: "atrans \<Rightarrow> u64 \<Rightarrow> u32" where
  "hashed_chip t a =
     (if memory_partition_indexing t = BITWISE_PERMUTATION
      then bitwise_hash_function (rest_high_bits t a) (chip (raw_fields t a)) (m_n_channel t)
      else chip (raw_fields t a))"

lemma plain_modes:
  assumes ok: "atrans_ok t" "alias_free t" "l2_is_power_of_two (m_n_sub_partition_in_channel t)"
    and mode: "memory_partition_indexing t \<noteq> IPOLY"
  shows "addrdec_tlx t rand st a = Some ((raw_fields t a)\<lparr>chip := hashed_chip t a,
      sub_partition := hashed_chip t a * m_n_sub_partition_in_channel t + low_slice t a\<rparr>, st) \<and>
    hashed_chip t a < m_n_channel t"
proof -
  have "hashed_chip t a < m_n_channel t"
    using bitwise_hash_less [OF ok(1) _ chip_less [OF ok(1)]] chip_less [OF ok(1)] ok(2,3)
    by (auto simp: hashed_chip_def alias_free_def)
  with ok(2,3) mode show ?thesis
    by (auto simp: addrdec_tlx_def Let_def alias_free_def tlx_plain_def hashed_chip_def low_slice_def
        split: partition_index_function.splits)
qed

definition rotation_of :: "u64 \<Rightarrow> u32" where
  "rotation_of q = the (ipoly_hash_function q 0 1024)"

lemma rotation_of_hash:
  "ipoly_hash_function q 0 1024 = Some (rotation_of q)" "unat (rotation_of q) \<le> 1024"
proof -
  have "length ipoly_1024 = 10" by (simp add: ipoly_1024_def)
  then have "unat (ipoly_rows ipoly_1024 q 0) < 2 ^ 10" using ipoly_rows_less [of ipoly_1024 q 0] by simp
  then show "ipoly_hash_function q 0 1024 = Some (rotation_of q)" "unat (rotation_of q) \<le> 1024"
    by (simp_all add: rotation_of_def ipoly_hash_function_def)
qed

definition rotated_slice :: "atrans \<Rightarrow> u64 \<Rightarrow> u32" where
  "rotated_slice t a = (chip (raw_fields t a) * m_n_sub_partition_in_channel t + low_slice t a +
     rotation_of (rest_high_bits t a)) mod (m_n_channel t * m_n_sub_partition_in_channel t)"

lemma rotation_mode:
  assumes ok: "atrans_ok t" "alias_free t" "l2_is_power_of_two (m_n_sub_partition_in_channel t)"
    and mode: "memory_partition_indexing t = IPOLY"
  shows "addrdec_tlx t rand st a = Some ((raw_fields t a)\<lparr>chip := rotated_slice t a div m_n_sub_partition_in_channel t,
      sub_partition := rotated_slice t a\<rparr>, st) \<and>
    rotated_slice t a < m_n_channel t * m_n_sub_partition_in_channel t \<and>
    rotated_slice t a div m_n_sub_partition_in_channel t < m_n_channel t"
proof -
  let ?n = "m_n_channel t" and ?k = "m_n_sub_partition_in_channel t"
  have nk: "unat (?n * ?k) = unat ?n * unat ?k"
    using atrans_okD(3) [OF ok(1)] by (simp add: unat_word_ariths)
  have "0 < unat (?n * ?k)" using atrans_okD(1,2) [OF ok(1)] by (simp add: nk)
  then have lt: "unat (rotated_slice t a) < unat ?n * unat ?k"
    by (simp add: rotated_slice_def unat_mod_distrib nk [symmetric])
  then have "unat (rotated_slice t a div ?k) < unat ?n"
    by (simp add: unat_div_distrib less_mult_imp_div_less)
  with lt have less: "rotated_slice t a < ?n * ?k" "rotated_slice t a div ?k < ?n"
    by (simp_all add: word_less_nat_alt nk)
  with ok(2,3) mode rotation_of_hash(1) show ?thesis
    by (simp add: addrdec_tlx_def Let_def alias_free_def ipoly_sub_partition_def tlx_of_sub_partition_def
        rotated_slice_def low_slice_def)
qed

text \<open>The slice bits lie below the chip bits, so the partition address fixes the quotient.\<close>

lemma rotation_determined:
  assumes ok: "atrans_ok t" "alias_free t" "l2_is_power_of_two (m_n_sub_partition_in_channel t)"
    and mode: "memory_partition_indexing t = IPOLY"
    and pa: "partition_address t a = partition_address t b"
  shows "rest_high_bits t a = rest_high_bits t b"
proof -
  let ?s = "nat (ADDR_CHIP_S t)"
  have g: "gap t \<noteq> 0" and q: "sub_partition_id_mask t < push_bit ?s 1"
    using ok(2,3) mode by (simp_all add: alias_free_def)
  have s: "?s < 64" using atrans_okD(7) [OF ok(1)] by linarith
  then have one: "unat (push_bit ?s 1 :: u64) = 2 ^ ?s"
    using unat_of_nat [of "2 ^ ?s", where ?'a = 64] power_strict_increasing [OF s, of "2 :: nat"]
    by (simp add: take_bit_nat_eq_self)
  have "unat (sub_partition_id_mask t) < 2 ^ ?s" using q unfolding word_less_nat_alt one .
  from small_no_bit [OF this] have low: "bit (sub_partition_id_mask t) i \<Longrightarrow> i < ?s" for i .
  have "drop_bit ?s (gap_local t a) = drop_bit ?s (gap_local t b)"
  proof (rule bit_word_eqI)
    fix i
    show "bit (drop_bit ?s (gap_local t a)) i = bit (drop_bit ?s (gap_local t b)) i"
    proof (cases "?s + i < 64")
      case True
      have "addrdec_packbits (NOT (sub_partition_id_mask t)) (gap_local t a) 64 0 =
          addrdec_packbits (NOT (sub_partition_id_mask t)) (gap_local t b) 64 0"
        using pa ok(3) g by (simp add: partition_address_def)
      from packbits_determines [OF this, of "?s + i"] True show ?thesis
        using low [of "?s + i"] by (auto simp: bit_drop_bit_eq bit_not_iff)
    qed (auto simp: bit_drop_bit_eq dest: bit_imp_le_length)
  qed
  then show ?thesis using gap_local_parts [OF ok(1)] g by (simp add: rest_high_bits_def)
qed

lemma power_modes_determine:
  assumes ok: "atrans_ok t" "alias_free t" "l2_is_power_of_two (m_n_sub_partition_in_channel t)"
    and tlx: "addrdec_tlx t rand st a = Some (x, sx)" "addrdec_tlx t rand' st' b = Some (y, sy)"
    and same: "sub_partition x = sub_partition y" and pa: "partition_address t a = partition_address t b"
  shows "a = b"
proof (cases "memory_partition_indexing t = IPOLY")
  case False
  note p = plain_modes [OF ok False]
  note low = low_slice_less [OF ok(1)]
  have "hashed_chip t a * m_n_sub_partition_in_channel t + low_slice t a =
      hashed_chip t b * m_n_sub_partition_in_channel t + low_slice t b"
    using p [of rand st a] p [of rand' st' b] tlx same by auto
  then have eq: "hashed_chip t a = hashed_chip t b" "low_slice t a = low_slice t b"
    using slice_number_inj [OF atrans_okD(3) [OF ok(1)]] p low by blast+
  have "chip (raw_fields t a) = chip (raw_fields t b)"
  proof (cases "memory_partition_indexing t = BITWISE_PERMUTATION")
    case True
    then have "gap t = 0" using ok(2,3) by (simp add: alias_free_def)
    from high_bits_determined [OF ok(1,3) this eq(2) pa] eq(1) True show ?thesis
      by (simp add: hashed_chip_def bitwise_hash) (metis xor_left_cancel xor.commute)
  qed (use eq(1) in \<open>simp add: hashed_chip_def\<close>)
  then show ?thesis by (rule power_slices_determine [OF ok(1,3) eq(2) pa])
next
  case True
  note p = rotation_mode [OF ok True]
  let ?n = "m_n_channel t" and ?k = "m_n_sub_partition_in_channel t"
  let ?sp = "\<lambda>a. chip (raw_fields t a) * ?k + low_slice t a"
  note num = slice_number [OF atrans_okD(3) [OF ok(1)] chip_less [OF ok(1)] low_slice_less [OF ok(1)]]
  have "rotated_slice t a = rotated_slice t b"
    using p [of rand st a] p [of rand' st' b] tlx same by auto
  then have rot: "(?sp a + rotation_of (rest_high_bits t a)) mod (?n * ?k) =
      (?sp b + rotation_of (rest_high_bits t a)) mod (?n * ?k)"
    using rotation_determined [OF ok True pa] by (simp add: rotated_slice_def)
  have "unat (?n * ?k) < 2 ^ 31"
    using atrans_okD(3) [OF ok(1)] by (simp add: unat_word_ariths)
  then have "?sp a = ?sp b"
    by (rule slice_rotation_inj [OF _ rotation_of_hash(2) _ _ rot]) (use num in blast)+
  then have eq: "chip (raw_fields t a) = chip (raw_fields t b)" "low_slice t a = low_slice t b"
    using slice_number_inj [OF atrans_okD(3) [OF ok(1)]] chip_less [OF ok(1)] low_slice_less [OF ok(1)]
    by blast+
  show ?thesis by (rule power_slices_determine [OF ok(1,3) eq(2) pa eq(1)])
qed

lemma tlx_defined:
  assumes ok: "atrans_ok t" and mode: "alias_free t"
  shows "\<exists>x. addrdec_tlx t rand st a = Some (x, st) \<and> chip x < m_n_channel t \<and>
    sub_partition x < m_n_channel t * m_n_sub_partition_in_channel t \<and>
    sub_partition x div m_n_sub_partition_in_channel t = chip x"
proof -
  let ?k = "m_n_sub_partition_in_channel t"
  note num = slice_number [OF atrans_okD(3) [OF ok]]
  show ?thesis
  proof (cases "l2_is_power_of_two ?k \<and> memory_partition_indexing t = IPOLY")
    case True
    then show ?thesis using rotation_mode [OF ok mode] by simp
  next
    case False
    show ?thesis
    proof (cases "l2_is_power_of_two ?k")
      case True
      then show ?thesis
        using plain_modes [OF ok mode, of rand st a] num low_slice_less [OF ok] False
        by fastforce
    next
      case no: False
      from plural_slices [OF ok mode, of rand st a] no num show ?thesis by fastforce
    qed
  qed
qed

end
