(* ===== verification/Address_Maps.thy ===== *)
theory Address_Maps
  imports Address_Decode_Safety
begin

section \<open>Address maps\<close>

text \<open>
  The properties of the address decoder, and the maps of two shipped configurations.
\<close>

subsection \<open>Shipped address maps\<close>

text \<open>
  The maps of \<^verbatim>\<open>configs/tested-cfgs/SM86_RTX3070\<close> (16 channels of two slices, IPOLY) and
  \<^verbatim>\<open>configs/SM120_RTX5090\<close> (16 channels of three slices, channel hash and rotation), which are
  the same string.
\<close>

definition rtx_map :: string where
  "rtx_map = ''dramid@8;00000000.00000000.00000000.00000000.0000RRRR.RRRRRRRR.RBBBCCCC.BCCSSSSS''"

definition rtx3070 :: atrans where "rtx3070 = new_atrans (Some rtx_map) 1 IPOLY False 0 0 0 0"

definition rtx5090 :: atrans where "rtx5090 = new_atrans (Some rtx_map) 1 CONSECUTIVE False 0 0 2 1"

lemma scan_rtx: "scan_dramid rtx_map = Some 8"
  by (simp add: scan_dramid_def rtx_map_def scan_int_def is_digit_def is_space_def digits_value_def)

lemma map_part_rtx:
  "map_part rtx_map = ''00000000.00000000.00000000.00000000.0000RRRR.RRRRRRRR.RBBBCCCC.BCCSSSSS''"
  by (simp add: map_part_def rtx_map_def)

lemma set_mask_bit_apply:
  "set_mask_bit fs ofs ms f = (if f \<in> set fs then ms f OR push_bit (nat ofs) 1 else ms f)"
  by (simp add: set_mask_bit_def)

lemma map_char_simps:
  "map_char CHR ''R'' = Field [ROW]" "map_char CHR ''B'' = Field [BK]" "map_char CHR ''C'' = Field [COL]"
  "map_char CHR ''S'' = Field [BURST, COL]" "map_char CHR ''0'' = Skip_Bit" "map_char CHR ''.'' = Ignore"
  by (simp_all add: map_char_def)

lemma parse_rtx:
  obtains ms where "parse_map True (map_part rtx_map) 63 (\<lambda>_. 0) = Some (- 1, ms)" "ms BK = 0x7080"
  unfolding map_part_rtx by (simp add: map_char_simps set_mask_bit_apply)

lemma init_masks_dramid:
  assumes "init_checks t0 n k" "addrdec_option t0 = Some opt" "scan_dramid opt = Some s" "0 \<le> s"
    "parse_map True (map_part opt) 63 (\<lambda>_. 0) = Some (- 1, ms)"
  shows "init_masks t0 n k = Some (set_sub_mask (set_limits
    (let t = (address_masks (set_counts t0 n k))\<lparr>ADDR_CHIP_S := s, addrdec_mask := ms\<rparr>
     in if gap t = 0 then insert_chip (log2channel t) t else t)))"
proof -
  have "addrdec_option (address_masks (set_counts t0 n k)) = Some opt"
    by (simp add: address_masks_def mask_case_def Let_def set_counts_def assms(2))
  with assms show ?thesis by (simp add: init_masks_def addrdec_parseoption_def Let_def)
qed

lemma rtx5090_option: "addrdec_option rtx5090 = Some rtx_map"
  by (simp add: rtx5090_def new_atrans_def)

lemma counts_16: "LOGB2_32 16 = 4" "next_powerOf2 16 = 16"
  by (simp_all add: LOGB2_32_def log2_step_def next_powerOf2_def clear_to_top.simps)

lemma rtx5090_init: "\<exists>t. init_masks rtx5090 16 3 = Some t \<and> alias_free t"
proof -
  obtain ms where ms: "parse_map True (map_part rtx_map) 63 (\<lambda>_. 0) = Some (- 1, ms)" by (rule parse_rtx)
  have checks: "init_checks rtx5090 16 3"
    by (simp add: init_checks_def rtx5090_def new_atrans_def l2_is_power_of_two_def)
  have opt: "addrdec_option rtx5090 = Some rtx_map" by (simp add: rtx5090_def new_atrans_def)
  obtain t where t: "init_masks rtx5090 16 3 = Some t"
    using init_masks_dramid [OF checks opt scan_rtx _ ms] by simp
  then have "m_n_sub_partition_in_channel t = 3 \<and> memory_partition_indexing t = memory_partition_indexing rtx5090"
    using init_masks_ok [OF t opt scan_rtx] by simp
  then have "alias_free t"
    by (simp add: alias_free_def l2_is_power_of_two_def rtx5090_def new_atrans_def)
  with t show ?thesis by blast
qed

lemma rtx3070_init:
  obtains t where "init_masks rtx3070 16 2 = Some t" "atrans_ok t" "gap t = 0" "ADDR_CHIP_S t = 8"
    "log2channel t = 4" "log2sub_partition t = 1" "mask_positions (addrdec_mask t BK) = [7, 16, 17, 18]"
    "m_n_channel t = 16" "m_n_sub_partition_in_channel t = 2" "memory_partition_indexing t = IPOLY"
    "nextPowerOf2_m_n_channel t = 16"
proof -
  obtain ms where ms: "parse_map True (map_part rtx_map) 63 (\<lambda>_. 0) = Some (- 1, ms)" "ms BK = 0x7080"
    by (rule parse_rtx)
  have p2: "l2_is_power_of_two 2" by (simp add: l2_is_power_of_two_def)
  have log: "LOGB2_32 2 = 1" by (simp add: LOGB2_32_def log2_step_def)
  have checks: "init_checks rtx3070 16 2"
    by (simp add: init_checks_def rtx3070_def new_atrans_def p2)
  have opt: "addrdec_option rtx3070 = Some rtx_map" by (simp add: rtx3070_def new_atrans_def)
  define c where "c = set_counts rtx3070 16 2"
  have c: "gap c = 0" "log2channel c = 4" "log2sub_partition c = 1" "nextPowerOf2_m_n_channel c = 16"
    "memory_partition_indexing c = IPOLY"
    by (simp_all add: c_def set_counts_def Let_def counts_16 log p2 powli_power rtx3070_def new_atrans_def)
  define u where "u = (address_masks c)\<lparr>ADDR_CHIP_S := 8, addrdec_mask := ms\<rparr>"
  have u: "u = c\<lparr>ADDR_CHIP_S := 8, addrdec_mask := ms\<rparr>"
    by (simp add: u_def address_masks_def mask_case_def Let_def)
  define t where "t = set_sub_mask (set_limits (insert_chip 4 u))"
  have t: "init_masks rtx3070 16 2 = Some t"
    using init_masks_dramid [OF checks opt scan_rtx _ ms(1)] c by (simp add: t_def u c_def [symmetric] u_def [symmetric] Let_def)
  have fields: "gap t = 0" "ADDR_CHIP_S t = 8" "log2channel t = 4" "log2sub_partition t = 1"
    "nextPowerOf2_m_n_channel t = 16" "memory_partition_indexing t = IPOLY"
    "addrdec_mask t BK = open_gap 8 4 0x7080"
    using c ms(2) by (simp_all add: t_def u set_sub_mask_def set_limits_def insert_chip_def Let_def)
  have "mask_positions (addrdec_mask t BK) = [7, 16, 17, 18]"
    unfolding fields by (simp add: open_gap_def mask_positions_def upt_rec)
  moreover have "atrans_ok t \<and> m_n_channel t = 16 \<and> m_n_sub_partition_in_channel t = 2"
    using init_masks_ok [OF t opt scan_rtx] by simp
  ultimately show ?thesis using that t fields by blast
qed

subsection \<open>Results\<close>



text \<open>
  C25. For an accepted map of the form \<^verbatim>\<open>dramid@s;...\<close> with \<open>s\<close> from 0 to 30, fewer than
  \<open>2^31\<close> slices and a mode that \<open>alias_free\<close> names, every address is decoded: no assertion
  fails, the channel is one of the channels and the slice one of its slices. A map that lists its
  chip bits one by one as \<^verbatim>\<open>D\<close> is outside the claim: with more of them than the channels need,
  consecutive indexing returns a channel that does not exist.
\<close>

theorem address_decode_in_range:
  assumes "init_masks t0 n k = Some t" "addrdec_option t0 = Some opt" "scan_dramid opt = Some s"
    "0 \<le> s" "s \<le> 30" "unat n * unat k < 2 ^ 31" "alias_free t"
  shows "\<exists>x. addrdec_tlx t rand st a = Some (x, st) \<and> chip x < n \<and> sub_partition x < n * k \<and>
    sub_partition x div k = chip x"
  using tlx_defined [OF _ assms(7)] init_masks_ok [OF assms(1-6)] by metis

lemma address_decode_in_range_witness:
  "\<exists>t x. init_masks rtx5090 16 3 = Some t \<and>
    addrdec_tlx t (\<lambda>_. 0) (Map.empty, 0) 0x12345678 = Some (x, (Map.empty, 0)) \<and> sub_partition x < 48"
proof -
  obtain t where t: "init_masks rtx5090 16 3 = Some t" "alias_free t" using rtx5090_init by blast
  show ?thesis
    using address_decode_in_range [OF t(1) rtx5090_option scan_rtx _ _ _ t(2), where
        rand = "\<lambda>_. 0" and st = "(Map.empty, 0)" and a = "0x12345678"]
      t(1) by auto
qed

text \<open>On the RTX 3070 map the IPOLY hash is the table for 32 banks applied to the address.\<close>

definition folded_slice :: "u64 \<Rightarrow> u32" where
  "folded_slice a = ipoly_rows ipoly_32 (drop_bit 8 a) (ucast (take_bit 5 (drop_bit 7 a)))"

lemma folded_slice_linear: "folded_slice (a XOR b) = folded_slice a XOR folded_slice b"
proof -
  have "ucast (take_bit 5 (drop_bit 7 (a XOR b))) =
      (ucast (take_bit 5 (drop_bit 7 a)) XOR ucast (take_bit 5 (drop_bit 7 b)) :: u32)"
    by (rule bit_word_eqI) (auto simp: bit_ucast_iff bit_xor_iff bit_take_bit_iff bit_drop_bit_eq)
  then show ?thesis by (simp add: folded_slice_def ipoly_linear drop_bit_xor)
qed

lemma rtx3070_slice:
  assumes ok: "atrans_ok t" and f: "gap t = 0" "ADDR_CHIP_S t = 8" "log2channel t = 4" "log2sub_partition t = 1"
    "mask_positions (addrdec_mask t BK) = [7, 16, 17, 18]" "m_n_channel t = 16"
    "m_n_sub_partition_in_channel t = 2" "memory_partition_indexing t = IPOLY"
    "nextPowerOf2_m_n_channel t = 16"
  shows "map_option (sub_partition \<circ> fst) (addrdec_tlx t rand st a) = Some (folded_slice a)"
proof -
  let ?c = "chip (raw_fields t a)" and ?b = "low_slice t a"
  have c: "bit ?c i \<longleftrightarrow> i < 4 \<and> bit a (8 + i)" for i using bit_chip [OF ok f(1), of a i] f(2,3) by simp
  have b: "bit ?b i \<longleftrightarrow> i = 0 \<and> bit a 7" for i
  proof -
    have eq: "?b = (ucast (addrdec_packbits (addrdec_mask t BK) a 64 0) :: u32) AND 1"
      by (simp add: low_slice_def raw_fields_def Let_def f decode_field_full [OF ok])
    show ?thesis unfolding eq
      by (simp only: bit_and_iff bit_ucast_iff packbits_full bit_horner_bools f(5)) (auto simp: bit_1_iff)
  qed
  have idx: "?c * 2 + ?b = ucast (take_bit 5 (drop_bit 7 a))"
  proof -
    have dbl: "bit (?c * 2) i \<longleftrightarrow> 0 < i \<and> i < 32 \<and> bit ?c (i - 1)" for i
      using bit_push_bit_iff [of 1 ?c i] by (auto simp: mult.commute bit_0)
    have "?c * 2 AND ?b = 0" by (rule bit_word_eqI) (auto simp: bit_and_iff dbl b)
    then have "?c * 2 + ?b = ?c * 2 OR ?b" by (simp add: disjunctive_add_eq_or)
    also have "\<dots> = ucast (take_bit 5 (drop_bit 7 a))"
    proof (rule bit_word_eqI)
      fix i assume "i < LENGTH(32)"
      then show "bit (?c * 2 OR ?b) i = bit (ucast (take_bit 5 (drop_bit 7 a)) :: u32) i"
        by (cases i) (auto simp: bit_or_iff dbl b c bit_ucast_iff bit_take_bit_iff bit_drop_bit_eq)
    qed
    finally show ?thesis .
  qed
  have p2: "l2_is_power_of_two 2" by (simp add: l2_is_power_of_two_def)
  let ?sp = "folded_slice a"
  have sub: "ipoly_sub_partition t a ?c ?b = Some ?sp"
    by (simp add: ipoly_sub_partition_def Let_def f idx folded_slice_def ipoly_hash_function_def)
  have "unat ?sp < 32"
    using ipoly_rows_less [of ipoly_32] by (simp add: folded_slice_def)
  then have "?sp div 2 < 16" "?sp < 16 * 2"
    by (simp_all add: word_less_nat_alt unat_div_distrib less_mult_imp_div_less)
  then show ?thesis using sub
    by (simp add: addrdec_tlx_def Let_def f p2 tlx_of_sub_partition_def low_slice_def)
qed

text \<open>
  C26. Feeding the IPOLY hash the address from bit 8 on, channel bits included, folds the slices
  of the RTX 3070 map: every address has a partner in the same 4 KB block (bits 7, 10 and 11
  flipped) that is served by the same slice and has the same partition address, so a block
  reaches at most half of the 32 slices.
\<close>

theorem ipoly_shift_folds_slices:
  "\<exists>t. init_masks rtx3070 16 2 = Some t \<and>
     (\<forall>a. map_option (sub_partition \<circ> fst) (addrdec_tlx t rand st (a XOR 0xC80)) =
            map_option (sub_partition \<circ> fst) (addrdec_tlx t rand st a) \<and>
          partition_address t (a XOR 0xC80) = partition_address t a)"
proof -
  obtain t where t: "init_masks rtx3070 16 2 = Some t" "atrans_ok t"
    and f: "gap t = 0" "ADDR_CHIP_S t = 8" "log2channel t = 4" "log2sub_partition t = 1"
      "mask_positions (addrdec_mask t BK) = [7, 16, 17, 18]" "m_n_channel t = 16"
      "m_n_sub_partition_in_channel t = 2" "memory_partition_indexing t = IPOLY"
      "nextPowerOf2_m_n_channel t = 16"
    by (rule rtx3070_init)
  have "folded_slice 0xC80 = 0"
    by (simp add: folded_slice_def ipoly_rows_def xor_taps_def ipoly_32_def upt_rec)
  then have same: "folded_slice (a XOR 0xC80) = folded_slice a" for a
    by (simp add: folded_slice_linear)
  have p2: "l2_is_power_of_two 2" by (simp add: l2_is_power_of_two_def)
  let ?m = "NOT (addrdec_mask t CHIP OR sub_partition_id_mask t)"
  have low: "bit (0xC80 :: u64) i \<Longrightarrow> i = 7 \<or> i = 10 \<or> i = 11" for i
  proof -
    have "(0xC80 :: u64) = push_bit 7 1 OR push_bit 10 1 OR push_bit 11 1" by simp
    then show "bit (0xC80 :: u64) i \<Longrightarrow> i = 7 \<or> i = 10 \<or> i = 11"
      by (auto simp: bit_or_iff bit_push_bit_iff bit_1_iff simp del: push_bit_of_1)
  qed
  have "bit (addrdec_mask t CHIP) i \<longleftrightarrow> 8 \<le> i \<and> i < 12" "bit (sub_partition_id_mask t) i \<longleftrightarrow> i = 7" for i
    using t(2) f p2 by (simp_all add: atrans_ok_def)
  then have "bit (a XOR 0xC80) i = bit a i" if "bit ?m i" for a :: u64 and i
    using that low [of i] by (auto simp: bit_and_iff bit_not_iff bit_xor_iff)
  then have "addrdec_packbits ?m (a XOR 0xC80) 64 0 = addrdec_packbits ?m a 64 0" for a
    unfolding packbits_full by (intro arg_cong [where f = "horner_sum of_bool 2"] map_cong) simp_all
  then have "partition_address t (a XOR 0xC80) = partition_address t a" for a
    by (simp add: partition_address_def f p2)
  then show ?thesis using t(1) rtx3070_slice [OF t(2) f] same by (metis (no_types, lifting))
qed

end
