(* ===== verification/Coalescing.thy ===== *)
theory Coalescing
  imports Simt_Stack
begin

section \<open>Memory accesses of a warp instruction\<close>

text \<open>
  Models \<^verbatim>\<open>warp_inst_t::generate_mem_accesses\<close> and the coalescing functions of
  \<^verbatim>\<open>src/abstract_hardware_model.cc\<close>: the shared-memory bank conflicts of a warp, and the memory
  requests its lanes are merged into. A \<^verbatim>\<open>std::bitset\<close> is the set of its bits, setting a bit beyond
  its size (an exception) is \<open>None\<close>; a \<^verbatim>\<open>std::map\<close> is an association list with ascending
  keys. Sizes and counts are \<open>nat\<close>, addresses 64-bit words. Statistics calls are left out.
\<close>

subsection \<open>Ordered maps\<close>

text \<open>\<^verbatim>\<open>m[k]\<close> creates the entry with the default value; \<open>f\<close> is the update of the reference.\<close>

fun smap_upd :: "'k :: linorder \<Rightarrow> 'v \<Rightarrow> ('v \<Rightarrow> 'v) \<Rightarrow> ('k \<times> 'v) list \<Rightarrow> ('k \<times> 'v) list" where
  "smap_upd k d f [] = [(k, f d)]"
| "smap_upd k d f ((x, v) # xs) =
     (if k < x then (k, f d) # (x, v) # xs
      else if k = x then (k, f v) # xs
      else (x, v) # smap_upd k d f xs)"

subsection \<open>Data\<close>

datatype memory_op = no_memory_op | memory_load | memory_store

datatype memory_space_type =
    undefined_space | reg_space | local_space | shared_space | sstarr_space
  | param_space_unclassified | param_space_kernel | param_space_local | const_space | tex_space
  | surf_space | global_space | generic_space | instruction_space

datatype cache_operator_type =
    CACHE_UNDEFINED | CACHE_ALL | CACHE_LAST_USE | CACHE_VOLATILE | CACHE_L1 | CACHE_STREAMING
  | CACHE_GLOBAL | CACHE_WRITE_BACK | CACHE_WRITE_THROUGH

datatype mem_access_type =
    GLOBAL_ACC_R | LOCAL_ACC_R | CONST_ACC_R | TEXTURE_ACC_R | GLOBAL_ACC_W | LOCAL_ACC_W
  | L1_WRBK_ACC | L2_WRBK_ACC | INST_ACC_R | L1_WR_ALLOC_R | L2_WR_ALLOC_R | TMA_ACC_R
  | TMA_ACC_W | CP_ASYNC_ACC_R | NUM_MEM_ACCESS_TYPE

record mem_access =
  ma_type :: mem_access_type
  ma_addr :: u64
  ma_req_size :: nat
  ma_write :: bool
  ma_warp_mask :: "nat set"
  ma_byte_mask :: "nat set"
  ma_sector_mask :: "nat set"

record per_thread_info =
  memory_access_size :: nat
  memory_access_size_valid :: bool
  memreqaddr :: "u64 list"

record mem_config =
  warp_size :: nat
  mem_warp_parts :: nat
  gpgpu_coalesce_arch :: int
  gmem_skip_L1D :: bool
  num_shmem_bank :: u32
  shmem_limited_broadcast :: bool
  shmem_load_min_dispatch_cycles :: nat
  shmem_store_min_dispatch_cycles :: nat
  ldmatrix_min_dispatch_cycles :: nat
  gpgpu_cache_texl1_linesize :: nat
  gpgpu_cache_constl1_linesize :: nat

record mem_inst =
  mi_empty :: bool
  mi_op :: uarch_op
  mi_memory_op :: memory_op
  mi_space :: memory_space_type
  mi_cache_op :: cache_operator_type
  mi_data_size :: nat
  mi_vector_elements :: nat
  mi_isatomic :: bool
  mi_active :: "nat set"
  mi_shared_dispatch :: nat
  mi_threads_valid :: bool
  mi_threads :: "per_thread_info list"
  mi_created :: bool
  mi_cycles :: nat
  mi_accessq :: "mem_access list"

definition MAX_ACCESSES_PER_INSN_PER_THREAD :: nat where "MAX_ACCESSES_PER_INSN_PER_THREAD = 8"

definition line_size_based_tag_func :: "u64 \<Rightarrow> u64 \<Rightarrow> u64" where
  "line_size_based_tag_func address line_size = address AND NOT (line_size - 1)"

definition inst_is_load :: "mem_inst \<Rightarrow> bool" where
  "inst_is_load i = (mi_op i = LOAD_OP \<or> mi_op i = TENSOR_CORE_LOAD_OP \<or> mi_memory_op i = memory_load)"

definition inst_is_store :: "mem_inst \<Rightarrow> bool" where
  "inst_is_store i = (mi_op i = STORE_OP \<or> mi_op i = TENSOR_CORE_STORE_OP \<or> mi_memory_op i = memory_store)"

subsection \<open>Merging the lanes of global and local accesses\<close>

record transaction_info =
  chunks :: "nat set"
  bytes :: "nat set"
  active :: "nat set"

definition new_transaction :: transaction_info where
  "new_transaction = \<lparr>chunks = {}, bytes = {}, active = {}\<rparr>"

definition test_bytes :: "transaction_info \<Rightarrow> nat \<Rightarrow> nat \<Rightarrow> bool" where
  "test_bytes info start_bit end_bit = list_ex (\<lambda>i. i \<in> bytes info) [start_bit..<Suc end_bit]"

text \<open>The byte of an address within its 128-byte line.\<close>

definition line_idx :: "u64 \<Rightarrow> nat" where
  "line_idx addr = unat (addr AND 127)"

definition mark :: "nat \<Rightarrow> u64 \<Rightarrow> nat \<Rightarrow> transaction_info \<Rightarrow> transaction_info" where
  "mark thread addr sz info =
     \<lparr>chunks = insert (line_idx addr div 32) (chunks info),
      bytes = bytes info \<union> set (filter (\<lambda>b. b < 128) [line_idx addr..<line_idx addr + sz]),
      active = insert thread (active info)\<rparr>"

type_synonym transactions = "(u64 \<times> transaction_info) list"

definition sector_segment_size :: "mem_config \<Rightarrow> cache_operator_type \<Rightarrow> bool" where
  "sector_segment_size cfg cache_op =
     (if 20 \<le> gpgpu_coalesce_arch cfg \<and> gpgpu_coalesce_arch cfg < 39
      then gmem_skip_L1D cfg \<or> cache_op = CACHE_GLOBAL
      else 40 \<le> gpgpu_coalesce_arch cfg)"

definition segment_size :: "mem_config \<Rightarrow> mem_inst \<Rightarrow> nat" where
  "segment_size cfg i =
     (let sector = sector_segment_size cfg (mi_cache_op i)
      in if mi_data_size i = 1 then 32
         else if mi_data_size i = 2 then (if sector then 32 else 64)
         else if mi_data_size i \<in> {4, 8, 16} then (if sector then 32 else 128)
         else 0)"

definition coalesce_access :: "nat \<Rightarrow> nat \<Rightarrow> nat \<Rightarrow> u64 \<Rightarrow> transactions \<Rightarrow> transactions" where
  "coalesce_access seg thread sz addr txs =
     (let block_address = line_size_based_tag_func addr (of_nat seg);
          txs = smap_upd block_address new_transaction (mark thread addr sz) txs;
          last_addr = addr + of_nat sz - 1;
          last_block = line_size_based_tag_func last_addr (of_nat seg)
      in if block_address \<noteq> last_block
         then smap_upd last_block new_transaction (mark thread last_addr sz) txs
         else txs)"

definition thread_accesses :: "per_thread_info \<Rightarrow> u64 list" where
  "thread_accesses info =
     takeWhile (\<lambda>a. a \<noteq> 0) (take MAX_ACCESSES_PER_INSN_PER_THREAD (memreqaddr info))"

definition coalesce_size :: "mem_inst \<Rightarrow> per_thread_info \<Rightarrow> nat \<times> nat" where
  "coalesce_size i info =
     (let sz = (if memory_access_size_valid info then memory_access_size info else mi_data_size i)
      in if sz \<noteq> 0 \<and> mi_space i \<in> {local_space, param_space_local} \<and> 4 \<le> mi_data_size i
         then (4, mi_data_size i div 4) else (sz, 1))"

definition coalesce_thread :: "mem_inst \<Rightarrow> nat \<Rightarrow> transactions \<Rightarrow> nat \<Rightarrow> transactions option" where
  "coalesce_thread i seg txs thread =
     (if thread \<notin> mi_active i then Some txs
      else do {
        let info = mi_threads i ! thread;
        let (sz, num_accesses) = coalesce_size i info;
        if sz = 0 then Some txs
        else do {
          cassert (num_accesses \<le> MAX_ACCESSES_PER_INSN_PER_THREAD);
          Some (fold (coalesce_access seg thread sz) (thread_accesses info) txs)
        }
      })"

text \<open>An access shrinks to the half, then to the quarter of its segment that is used.\<close>

definition reduce_size :: "nat set \<Rightarrow> u64 \<Rightarrow> nat \<Rightarrow> (u64 \<times> nat) option" where
  "reduce_size q addr seg = do {
     let lower = (0 \<in> q \<or> 1 \<in> q);
     let upper = (2 \<in> q \<or> 3 \<in> q);
     (addr, sz, h0, h1) \<leftarrow>
       (if seg = 128 then
          (if lower \<and> \<not> upper then Some (addr, 64, 0 \<in> q, 1 \<in> q)
           else if \<not> lower \<and> upper then Some (addr + 64, 64, 2 \<in> q, 3 \<in> q)
           else do { cassert (lower \<and> upper); Some (addr, seg, False, False) })
        else if seg = 64 then
          (if addr mod 128 = 0 then Some (addr, seg, 0 \<in> q, 1 \<in> q)
           else do { cassert (addr mod 128 = 64); Some (addr, seg, 2 \<in> q, 3 \<in> q) })
        else Some (addr, seg, False, False));
     if sz = 64 then
       (if h0 \<and> \<not> h1 then Some (addr, 32)
        else if \<not> h0 \<and> h1 then Some (addr + 32, 32)
        else do { cassert (h0 \<and> h1); Some (addr, sz) })
     else Some (addr, sz)
   }"

definition reduce_and_send ::
  "bool \<Rightarrow> mem_access_type \<Rightarrow> nat \<Rightarrow> mem_access list \<Rightarrow> u64 \<times> transaction_info \<Rightarrow> mem_access list option" where
  "reduce_and_send is_write access_type seg queue tx = do {
     let (addr, info) = tx;
     cassert (addr AND ucast (of_nat seg - 1 :: u32) = 0);
     cassert (chunks info \<noteq> {});
     (addr', sz) \<leftarrow> reduce_size (chunks info) addr seg;
     Some (queue @ [\<lparr>ma_type = access_type, ma_addr = addr', ma_req_size = sz, ma_write = is_write,
       ma_warp_mask = active info, ma_byte_mask = bytes info, ma_sector_mask = chunks info\<rparr>])
   }"

definition subwarp_threads :: "mem_config \<Rightarrow> nat \<Rightarrow> nat list" where
  "subwarp_threads cfg subwarp =
     (let n = warp_size cfg div mem_warp_parts cfg in [subwarp * n..<(subwarp + 1) * n])"

definition coalesce_subwarp ::
  "mem_config \<Rightarrow> mem_inst \<Rightarrow> bool \<Rightarrow> mem_access_type \<Rightarrow> mem_access list \<Rightarrow> nat \<Rightarrow> mem_access list option" where
  "coalesce_subwarp cfg i is_write access_type queue subwarp = do {
     let seg = segment_size cfg i;
     txs \<leftarrow> run_ops (coalesce_thread i seg) [] (subwarp_threads cfg subwarp);
     run_ops (reduce_and_send is_write access_type seg) queue txs
   }"

text \<open>A division by zero parts ends the simulation.\<close>

definition memory_coalescing_arch ::
  "mem_config \<Rightarrow> mem_inst \<Rightarrow> bool \<Rightarrow> mem_access_type \<Rightarrow> mem_access list option" where
  "memory_coalescing_arch cfg i is_write access_type = do {
     cassert (mem_warp_parts cfg \<noteq> 0);
     run_ops (coalesce_subwarp cfg i is_write access_type) (mi_accessq i) [0..<mem_warp_parts cfg]
   }"

subsection \<open>Atomics\<close>

text \<open>The first transaction of the block that has none of the bytes takes the lane.\<close>

fun place_atomic :: "nat \<Rightarrow> u64 \<Rightarrow> nat \<Rightarrow> transaction_info list \<Rightarrow> transaction_info list" where
  "place_atomic thread addr sz [] = [mark thread addr sz new_transaction]"
| "place_atomic thread addr sz (t # ts) =
     (if \<not> test_bytes t (line_idx addr) (line_idx addr + sz - 1) then mark thread addr sz t # ts
      else t # place_atomic thread addr sz ts)"

type_synonym atomic_transactions = "(u64 \<times> transaction_info list) list"

definition coalesce_atomic_thread ::
  "mem_inst \<Rightarrow> nat \<Rightarrow> atomic_transactions \<Rightarrow> nat \<Rightarrow> atomic_transactions option" where
  "coalesce_atomic_thread i seg txs thread =
     (if thread \<notin> mi_active i then Some txs
      else do {
        addr \<leftarrow> (case memreqaddr (mi_threads i ! thread) of [] \<Rightarrow> None | a # _ \<Rightarrow> Some a);
        let block_address = line_size_based_tag_func addr (of_nat seg);
        cassert (block_address =
          line_size_based_tag_func (addr + of_nat (mi_data_size i) - 1) (of_nat seg));
        cassert (line_idx addr + mi_data_size i \<le> 128);
        Some (smap_upd block_address [] (place_atomic thread addr (mi_data_size i)) txs)
      })"

definition coalesce_atomic_subwarp ::
  "mem_config \<Rightarrow> mem_inst \<Rightarrow> bool \<Rightarrow> mem_access_type \<Rightarrow> mem_access list \<Rightarrow> nat \<Rightarrow> mem_access list option" where
  "coalesce_atomic_subwarp cfg i is_write access_type queue subwarp = do {
     let seg = segment_size cfg i;
     txs \<leftarrow> run_ops (coalesce_atomic_thread i seg) [] (subwarp_threads cfg subwarp);
     run_ops (reduce_and_send is_write access_type seg) queue
       (concat (map (\<lambda>(addr, infos). map (Pair addr) infos) txs))
   }"

definition memory_coalescing_arch_atomic ::
  "mem_config \<Rightarrow> mem_inst \<Rightarrow> bool \<Rightarrow> mem_access_type \<Rightarrow> mem_access list option" where
  "memory_coalescing_arch_atomic cfg i is_write access_type = do {
     cassert (mi_space i = global_space);
     cassert (mem_warp_parts cfg \<noteq> 0);
     run_ops (coalesce_atomic_subwarp cfg i is_write access_type) (mi_accessq i) [0..<mem_warp_parts cfg]
   }"

subsection \<open>Bank conflicts of shared memory\<close>

definition shmem_bank_func :: "mem_config \<Rightarrow> u64 \<Rightarrow> u32" where
  "shmem_bank_func cfg addr = ucast ((addr div 4) mod ucast (num_shmem_bank cfg))"

type_synonym bank_accs = "(u32 \<times> (u64 \<times> nat) list) list"

definition count_element :: "mem_config \<Rightarrow> u64 \<Rightarrow> bank_accs \<Rightarrow> bank_accs" where
  "count_element cfg addr =
     smap_upd (shmem_bank_func cfg addr) []
       (smap_upd (line_size_based_tag_func addr 4) 0 Suc)"

text \<open>The word accesses of a lane.\<close>

definition lane_words :: "mem_inst \<Rightarrow> nat \<Rightarrow> u64 list" where
  "lane_words i thread =
     (if thread \<in> mi_active i
      then map (\<lambda>e. hd (memreqaddr (mi_threads i ! thread)) + of_nat (e * mi_data_size i))
             [0..<mi_vector_elements i]
      else [])"

definition bank_accesses_of :: "mem_config \<Rightarrow> mem_inst \<Rightarrow> nat \<Rightarrow> bank_accs" where
  "bank_accesses_of cfg i subwarp =
     fold (count_element cfg) (concat (map (lane_words i) (subwarp_threads cfg subwarp))) []"

text \<open>The first word that is accessed more than once, in the lowest such bank.\<close>

definition find_broadcast :: "bank_accs \<Rightarrow> (u32 \<times> u64) option" where
  "find_broadcast accs =
     (case concat (map (\<lambda>(b, ws). map (\<lambda>(w, n). (b, w)) (filter (\<lambda>(w, n). n > 1) ws)) accs) of
        [] \<Rightarrow> None | x # _ \<Rightarrow> Some x)"

definition limited_bank_accesses :: "(u32 \<times> u64) option \<Rightarrow> u32 \<times> (u64 \<times> nat) list \<Rightarrow> nat" where
  "limited_bank_accesses broadcast bws =
     (let (b, ws) = bws; total_n = sum_list (map snd ws)
      in case broadcast of
           None \<Rightarrow> total_n
         | Some (bb, bw) \<Rightarrow>
             (if bb = b then (case map_of ws bw of None \<Rightarrow> total_n | Some n \<Rightarrow> total_n - (n - 1))
              else total_n))"

definition subwarp_shared_accesses :: "mem_config \<Rightarrow> mem_inst \<Rightarrow> nat \<Rightarrow> nat" where
  "subwarp_shared_accesses cfg i subwarp =
     (let accs = bank_accesses_of cfg i subwarp
      in if shmem_limited_broadcast cfg
         then fold max (map (limited_bank_accesses (find_broadcast accs)) accs) 0
         else fold max (map (\<lambda>(b, ws). length ws) accs) 0)"

definition min_dispatch :: "mem_config \<Rightarrow> mem_inst \<Rightarrow> nat \<Rightarrow> nat" where
  "min_dispatch cfg i n =
     (if inst_is_load i then max n (shmem_load_min_dispatch_cycles cfg)
      else if mi_op i = STORE_OP then max n (shmem_store_min_dispatch_cycles cfg)
      else n)"

definition shared_cycles :: "mem_config \<Rightarrow> mem_inst \<Rightarrow> nat option" where
  "shared_cycles cfg i =
     (if mi_shared_dispatch i \<noteq> 0
      then Some (min_dispatch cfg i
        (if inst_is_load i \<and> mi_op i = TENSOR_CORE_LOAD_OP
         then max (mi_shared_dispatch i) (ldmatrix_min_dispatch_cycles cfg)
         else mi_shared_dispatch i))
      else do {
        cassert (mem_warp_parts cfg \<noteq> 0 \<and> num_shmem_bank cfg \<noteq> 0);
        let total_accesses = sum_list (map (subwarp_shared_accesses cfg i) [0..<mem_warp_parts cfg]);
        cassert (total_accesses > 0 \<and> total_accesses \<le> warp_size cfg * mi_vector_elements i);
        Some (min_dispatch cfg i total_accesses)
      })"

subsection \<open>Constant and texture accesses\<close>

definition cached_thread ::
  "mem_inst \<Rightarrow> u64 \<Rightarrow> (u64 \<times> nat set) list \<times> nat set \<Rightarrow> nat \<Rightarrow> ((u64 \<times> nat set) list \<times> nat set) option" where
  "cached_thread i block_size acc thread =
     (if thread \<notin> mi_active i then Some acc
      else do {
        addr \<leftarrow> (case memreqaddr (mi_threads i ! thread) of [] \<Rightarrow> None | a # _ \<Rightarrow> Some a);
        let block_address = line_size_based_tag_func addr block_size;
        let idx = unat (ucast (addr - block_address) :: u32);
        cassert (mi_data_size i = 0 \<or> idx + mi_data_size i \<le> 128);
        Some (smap_upd block_address {} (insert thread) (fst acc), snd acc \<union> set [idx..<idx + mi_data_size i])
      })"

definition cached_accesses ::
  "mem_config \<Rightarrow> mem_inst \<Rightarrow> bool \<Rightarrow> mem_access_type \<Rightarrow> nat \<Rightarrow> mem_access list option" where
  "cached_accesses cfg i is_write access_type block_size = do {
     cassert (mi_accessq i = []);
     (accesses, byte_mask) \<leftarrow> run_ops (cached_thread i (of_nat block_size)) ([], {}) [0..<warp_size cfg];
     Some (map (\<lambda>(addr, lanes). \<lparr>ma_type = access_type, ma_addr = addr, ma_req_size = block_size,
       ma_write = is_write, ma_warp_mask = lanes, ma_byte_mask = byte_mask, ma_sector_mask = {}\<rparr>) accesses)
   }"

subsection \<open>The accesses of an instruction\<close>

definition access_type_of :: "memory_space_type \<Rightarrow> bool \<Rightarrow> mem_access_type" where
  "access_type_of space is_write =
     (if space \<in> {const_space, param_space_kernel} then CONST_ACC_R
      else if space = tex_space then TEXTURE_ACC_R
      else if space = global_space then (if is_write then GLOBAL_ACC_W else GLOBAL_ACC_R)
      else (if is_write then LOCAL_ACC_W else LOCAL_ACC_R))"

definition generate_mem_accesses :: "mem_config \<Rightarrow> mem_inst \<Rightarrow> mem_inst option" where
  "generate_mem_accesses cfg i =
     (if mi_empty i \<or> mi_op i = MEMORY_BARRIER_OP \<or> mi_created i \<or>
         mi_op i \<notin> {LOAD_OP, TENSOR_CORE_LOAD_OP, STORE_OP, TENSOR_CORE_STORE_OP} \<or> mi_active i = {}
      then Some i
      else do {
        let shared = (mi_space i = shared_space \<or> mi_space i = sstarr_space);
        cassert (inst_is_load i \<or> inst_is_store i);
        cassert (shared \<and> mi_shared_dispatch i \<noteq> 0 \<or> mi_threads_valid i);
        let is_write = inst_is_store i;
        let access_type = access_type_of (mi_space i) is_write;
        i' \<leftarrow>
          (if shared then map_option (\<lambda>c. i\<lparr>mi_cycles := c\<rparr>) (shared_cycles cfg i)
           else if mi_space i \<in> {tex_space, const_space, param_space_kernel} then do {
             let block_size = (if mi_space i = tex_space then gpgpu_cache_texl1_linesize cfg
                               else gpgpu_cache_constl1_linesize cfg);
             if block_size = 0 then Some i
             else map_option (\<lambda>q. i\<lparr>mi_accessq := q\<rparr>) (cached_accesses cfg i is_write access_type block_size)
           }
           else if mi_space i \<in> {global_space, local_space, param_space_local} then do {
             cassert (13 \<le> gpgpu_coalesce_arch cfg);
             map_option (\<lambda>q. i\<lparr>mi_accessq := q\<rparr>)
               (if mi_isatomic i then memory_coalescing_arch_atomic cfg i is_write access_type
                else memory_coalescing_arch cfg i is_write access_type)
           }
           else None);
        Some (i'\<lparr>mi_created := True\<rparr>)
      })"

end
