(* ===== verification/Coalescing_Props.thy ===== *)
theory Coalescing_Props
  imports Coalescing
begin

section \<open>Coalescing is exact\<close>

text \<open>
  Which requests of the lanes a coalesced access serves: one access per segment touched, as small
  as the used halves allow.
\<close>

subsection \<open>Ordered maps\<close>

lemma smap_keys [simp]: "fst ` set (smap_upd k d f xs) = insert k (fst ` set xs)"
  by (induction k d f xs rule: smap_upd.induct) auto

lemma smap_sorted [intro]:
  "sorted_wrt (<) (map fst xs) \<Longrightarrow> sorted_wrt (<) (map fst (smap_upd k d f xs))"
proof (induction k d f xs rule: smap_upd.induct)
  case (2 k d f x v xs)
  have "set (map fst (smap_upd k d f xs)) = insert k (set (map fst xs))" by (simp only: set_map smap_keys)
  then have keys: "y \<in> set (map fst (smap_upd k d f xs)) \<longleftrightarrow> y = k \<or> y \<in> set (map fst xs)" for y by blast
  consider "k < x" | "k = x" | "\<not> k < x" "k \<noteq> x" by blast
  then show ?case
  proof cases
    case 1
    with 2(2) show ?thesis by (auto dest: less_trans)
  next
    case 2
    with \<open>sorted_wrt (<) (map fst ((x, v) # xs))\<close> show ?thesis by simp
  next
    case 3
    with 2 have "sorted_wrt (<) (map fst (smap_upd k d f xs))" by simp
    moreover have "\<forall>y \<in> set (map fst (smap_upd k d f xs)). x < y"
      unfolding Ball_def keys using \<open>sorted_wrt (<) (map fst ((x, v) # xs))\<close> 3 by auto
    ultimately show ?thesis using 3 by simp
  qed
qed simp

lemma smap_lookup:
  "sorted_wrt (<) (map fst xs) \<Longrightarrow>
   map_of (smap_upd k d f xs) = (map_of xs)(k \<mapsto> f (case map_of xs k of None \<Rightarrow> d | Some v \<Rightarrow> v))"
proof (induction k d f xs rule: smap_upd.induct)
  case (2 k d f x v xs)
  have "k < x \<Longrightarrow> map_of xs k = None"
    using 2(2) by (auto simp: map_of_eq_None_iff)
  with 2 show ?case by (auto simp: fun_eq_iff)
qed auto

subsection \<open>Lines and segments\<close>

lemma line_idx_mod: "line_idx a = unat a mod 128"
proof -
  have "a AND 127 = take_bit 7 a" by (simp add: take_bit_eq_mask mask_eq_exp_minus_1)
  also have "unat (take_bit 7 a) = take_bit 7 (unat a)" by (rule unsigned_take_bit_eq)
  finally show ?thesis by (simp add: line_idx_def take_bit_eq_mod)
qed

lemma unat_tag:
  assumes "seg = 2 ^ k" "k < 64"
  shows "unat (line_size_based_tag_func a (of_nat seg)) = unat a div seg * seg"
proof -
  have "line_size_based_tag_func a (of_nat seg) = push_bit k (drop_bit k a)"
    by (rule bit_word_eqI)
      (auto simp: line_size_based_tag_func_def assms(1) bit_and_iff bit_not_iff bit_push_bit_iff bit_drop_bit_eq
        mask_eq_exp_minus_1 [symmetric] bit_mask_iff)
  moreover have "unat (drop_bit k a) = unat a div seg"
    by (rule trans [OF _ drop_bit_eq_div [of k "unat a", unfolded assms(1) [symmetric]]])
      (rule bit_eqI, auto simp: bit_unsigned_iff bit_drop_bit_eq dest: bit_imp_le_length)
  moreover have "unat a div seg * seg < 2 ^ 64"
  proof -
    have "unat a < 2 ^ LENGTH(64)" by (rule unsigned_less)
    then have "unat a < 2 ^ 64" by simp
    with div_times_less_eq_dividend [of "unat a" seg] show ?thesis by (rule le_less_trans)
  qed
  moreover have "unat (push_bit k (drop_bit k a)) = take_bit LENGTH(64) (push_bit k (unat (drop_bit k a)))"
    by (rule unsigned_push_bit_eq)
  ultimately show ?thesis by (simp only: push_bit_eq_mult assms(1)) (simp add: take_bit_nat_eq_self)
qed

lemma unat_segment:
  assumes "seg \<in> {32, 64, 128}"
  shows "unat (line_size_based_tag_func a (of_nat seg)) = unat a div seg * seg"
  using assms unat_tag [of seg 5 a] unat_tag [of seg 6 a] unat_tag [of seg 7 a] by auto

text \<open>A segment in its 128-byte line.\<close>

lemma segment_parts:
  assumes "seg \<in> {32, 64, 128 :: nat}"
  shows "x div seg * seg div 128 = x div 128 \<and> x div seg * seg mod 128 = x mod 128 div seg * seg"
proof -
  obtain m where m: "128 = seg * m" "0 < m" using that [of 4] that [of 2] that [of 1] assms by auto
  have pos: "0 < seg" using assms by auto
  have "x div seg * seg div (seg * m) = x div seg * seg div seg div m" by (rule div_mult2_eq)
  also have "\<dots> = x div seg div m" using pos by simp
  also have "\<dots> = x div (seg * m)" by (rule div_mult2_eq [symmetric])
  finally have "x div seg * seg div (seg * m) = x div (seg * m)" .
  moreover have "x div seg * seg mod (seg * m) = x mod (seg * m) div seg * seg"
  proof -
    have "x mod (seg * m) = seg * (x div seg mod m) + x mod seg" by (rule mod_mult2_eq)
    then have "x mod (seg * m) div seg = x div seg mod m" using pos by simp
    moreover have "x div seg * seg mod (m * seg) = x div seg mod m * seg" by (rule mod_mult_mult2)
    ultimately show ?thesis by (simp only: mult.commute [of m seg])
  qed
  ultimately show ?thesis unfolding m(1) by blast
qed

lemma word_add_small:
  fixes b :: u64
  assumes "unat b mod 128 + n < 128"
  shows "unat (b + of_nat n) = unat b + n"
proof -
  have "unat b < 2 ^ LENGTH(64)" by (rule unsigned_less)
  then have "unat b div 128 < 2 ^ 57" by (intro less_mult_imp_div_less) simp
  moreover have "unat b = unat b div 128 * 128 + unat b mod 128" by simp
  then have "unat b + n < unat b div 128 * 128 + 128" using assms by (simp only: add.assoc add_less_cancel_left)
  ultimately have "unat b + n < 2 ^ 64" by simp
  moreover have "n < 2 ^ 64" using assms by simp
  ultimately show ?thesis by (simp add: unat_word_ariths unat_of_nat take_bit_nat_eq_self)
qed

definition within :: "nat set \<Rightarrow> nat \<Rightarrow> nat \<Rightarrow> bool" where
  "within q off sz = (\<forall>c \<in> q. off \<le> 32 * c \<and> 32 * c + 32 \<le> off + sz)"

text \<open>Of a 64-byte half, the quarter that is used, or both.\<close>

definition keep_used :: "u64 \<Rightarrow> bool \<Rightarrow> bool \<Rightarrow> (u64 \<times> nat) option" where
  "keep_used addr h0 h1 =
     (if h0 \<and> \<not> h1 then Some (addr, 32)
      else if \<not> h0 \<and> h1 then Some (addr + 32, 32)
      else do { cassert (h0 \<and> h1); Some (addr, 64) })"

definition reduced :: "nat set \<Rightarrow> u64 \<Rightarrow> nat \<Rightarrow> u64 \<Rightarrow> nat \<Rightarrow> bool" where
  "reduced q b seg b' sz \<longleftrightarrow> sz \<in> {32, 64, 128} \<and> unat b' mod sz = 0 \<and>
    unat b' div 128 = unat b div 128 \<and> unat b \<le> unat b' \<and> unat b' + sz \<le> unat b + seg \<and>
    within q (unat b' mod 128) sz \<and>
    (sz \<noteq> 32 \<longrightarrow> (\<exists>c \<in> q. 32 * c < unat b' mod 128 + sz div 2) \<and> (\<exists>c \<in> q. unat b' mod 128 + sz div 2 \<le> 32 * c))"

lemma keep_used_ok:
  assumes b: "unat b mod 128 = 64 * j" "j < 2" and q: "q \<noteq> {}" "within q (64 * j) 64"
  shows "\<exists>b' sz. keep_used b (2 * j \<in> q) (2 * j + 1 \<in> q) = Some (b', sz) \<and> reduced q b 64 b' sz"
proof -
  have sub: "c = 2 * j \<or> c = 2 * j + 1" if "c \<in> q" for c
    using q(2) that unfolding within_def by force
  with q(1) have ne: "2 * j \<in> q \<or> 2 * j + 1 \<in> q" by blast
  have up: "unat (b + 32) = unat b + 32" using word_add_small [of b 32] b by simp
  have m: "unat b mod 32 = 0" "unat b mod 64 = 0" "(unat b + 32) mod 32 = 0"
    "(unat b + 32) div 128 = unat b div 128" "(unat b + 32) mod 128 = 64 * j + 32"
  proof -
    define d where "d = unat b div 128"
    have x: "unat b = 128 * d + 64 * j" using b(1) by (simp add: d_def flip: b(1))
    have "j = 0 \<or> j = 1" using b(2) by linarith
    then show "unat b mod 32 = 0" "unat b mod 64 = 0" "(unat b + 32) mod 32 = 0"
      "(unat b + 32) div 128 = unat b div 128" "(unat b + 32) mod 128 = 64 * j + 32"
      unfolding x by (elim disjE; simp)+
  qed
  consider "2 * j \<in> q" "2 * j + 1 \<notin> q" | "2 * j \<notin> q" "2 * j + 1 \<in> q" | "2 * j \<in> q" "2 * j + 1 \<in> q"
    using ne by blast
  then show ?thesis
  proof cases
    case 1
    then have "within q (64 * j) 32" using sub by (force simp: within_def)
    with 1 show ?thesis using b m by (simp add: keep_used_def reduced_def)
  next
    case 2
    then have "within q (64 * j + 32) 32" using sub by (force simp: within_def)
    with 2 show ?thesis using b m by (simp add: keep_used_def reduced_def up)
  next
    case 3
    then have "\<exists>c \<in> q. 32 * c < 64 * j + 32" "\<exists>c \<in> q. 64 * j + 32 \<le> 32 * c" by force+
    with 3 q(2) show ?thesis using b m by (simp add: keep_used_def reduced_def)
  qed
qed

lemma reduce_size_ok:
  assumes seg: "seg \<in> {32, 64, 128}" "unat b mod seg = 0" and q: "q \<noteq> {}" "within q (unat b mod 128) seg"
  shows "\<exists>b' sz. reduce_size q b seg = Some (b', sz) \<and> reduced q b seg b' sz"
proof -
  have wmod: "b mod 128 = of_nat m \<longleftrightarrow> unat b mod 128 = m" if "m < 128" for m
    using that by (auto simp: word_unat_eq_iff unat_mod_distrib unat_of_nat take_bit_nat_eq_self)
  consider "seg = 32" | "seg = 64" | "seg = 128" using seg(1) by blast
  then show ?thesis
  proof cases
    case 1
    then show ?thesis using seg q by (simp add: reduce_size_def reduced_def)
  next
    case 2
    with seg(2) have "unat b mod (64 * 2) = 64 * (unat b div 64 mod 2)"
      using mod_mult2_eq [of "unat b" 64 2] by simp
    moreover have "unat b div 64 mod 2 = 0 \<or> unat b div 64 mod 2 = 1" by linarith
    ultimately have "unat b mod 128 = 0 \<or> unat b mod 128 = 64" by auto
    then show ?thesis
    proof
      assume o: "unat b mod 128 = 0"
      then have "reduce_size q b seg = keep_used b (0 \<in> q) (1 \<in> q)"
        using wmod [of 0] 2 by (simp add: reduce_size_def keep_used_def)
      with keep_used_ok [of b 0 q] o q 2 show ?thesis by simp
    next
      assume o: "unat b mod 128 = 64"
      then have "b mod 128 = 64" using wmod [of 64] by simp
      then have "reduce_size q b seg = keep_used b (2 \<in> q) (3 \<in> q)"
        using 2 by (simp add: reduce_size_def keep_used_def)
      with keep_used_ok [of b 1 q] o q 2 show ?thesis by simp
    qed
  next
    case 3
    with seg(2) have o: "unat b mod 128 = 0" by simp
    have sub: "c < 4" if "c \<in> q" for c using q(2) that o 3 by (force simp: within_def)
    have x: "unat b = 128 * (unat b div 128)" using o by (metis add.right_neutral mult_div_mod_eq)
    have x64: "(unat b + 64) mod 128 = 64" "(unat b + 64) div 128 = unat b div 128"
      by (subst x, simp)+
    have up: "unat (b + 64) = unat b + 64" using word_add_small [of b 64] o by simp
    let ?lower = "0 \<in> q \<or> 1 \<in> q" and ?upper = "2 \<in> q \<or> 3 \<in> q"
    have ne: "?lower \<or> ?upper"
    proof -
      obtain c where "c \<in> q" using q(1) by blast
      moreover from sub [OF this] have "c = 0 \<or> c = 1 \<or> c = 2 \<or> c = 3" by linarith
      ultimately show ?thesis by blast
    qed
    have four: "c = 0 \<or> c = 1 \<or> c = 2 \<or> c = 3" if "c \<in> q" for c using sub [OF that] by linarith
    consider (low) "?lower" "\<not> ?upper" | (up) "\<not> ?lower" "?upper" | (both) "?lower" "?upper" using ne by blast
    then show ?thesis
    proof cases
      case low
      then have "within q 0 64" using four by (force simp: within_def)
      then obtain b' sz where k: "keep_used b (0 \<in> q) (1 \<in> q) = Some (b', sz)" "reduced q b 64 b' sz"
        using keep_used_ok [of b 0 q] o q(1) by auto
      moreover have "reduce_size q b seg = keep_used b (0 \<in> q) (1 \<in> q)"
        using low 3 by (simp add: reduce_size_def keep_used_def)
      ultimately show ?thesis using 3 by (auto simp: reduced_def)
    next
      case up
      then have w: "within q 64 64" using four by (force simp: within_def)
      have "unat (b + 64) mod 128 = 64" using \<open>unat (b + 64) = _\<close> x64 by simp
      then obtain b' sz where k: "keep_used (b + 64) (2 \<in> q) (3 \<in> q) = Some (b', sz)" "reduced q (b + 64) 64 b' sz"
        using keep_used_ok [of "b + 64" 1 q] w q(1) by auto
      moreover have "reduce_size q b seg = keep_used (b + 64) (2 \<in> q) (3 \<in> q)"
        using up 3 by (simp add: reduce_size_def keep_used_def)
      ultimately show ?thesis using 3 \<open>unat (b + 64) = _\<close> x64 by (auto simp: reduced_def)
    next
      case both
      then have "reduce_size q b seg = Some (b, 128)" using 3 by (simp add: reduce_size_def)
      moreover have "\<exists>c \<in> q. 32 * c < 64" using both(1) by (elim disjE) (auto intro: bexI [of _ 0] bexI [of _ 1])
      moreover have "\<exists>c \<in> q. 64 \<le> 32 * c" using both(2) by (elim disjE) (auto intro: bexI [of _ 2] bexI [of _ 3])
      ultimately show ?thesis using 3 o q by (simp add: reduced_def)
    qed
  qed
qed

subsection \<open>Requests and transactions\<close>

text \<open>The requests (lane, address, size) of the lanes of a subwarp.\<close>

definition lane_requests :: "mem_inst \<Rightarrow> nat \<Rightarrow> (nat \<times> u64 \<times> nat) list" where
  "lane_requests i th =
     (let info = mi_threads i ! th; sz = fst (coalesce_size i info)
      in if th \<in> mi_active i \<and> sz \<noteq> 0 then map (\<lambda>a. (th, a, sz)) (thread_accesses info) else [])"

definition subwarp_requests :: "mem_config \<Rightarrow> mem_inst \<Rightarrow> nat \<Rightarrow> (nat \<times> u64 \<times> nat) list" where
  "subwarp_requests cfg i subwarp = concat (map (lane_requests i) (subwarp_threads cfg subwarp))"

text \<open>A request that stays within its 32-byte sector.\<close>

definition sector_aligned :: "nat \<times> u64 \<times> nat \<Rightarrow> bool" where
  "sector_aligned r = (case r of (th, a, sz) \<Rightarrow> 0 < sz \<and> line_idx a mod 32 + sz \<le> 32)"

definition tag :: "nat \<Rightarrow> u64 \<Rightarrow> u64" where
  "tag seg a = line_size_based_tag_func a (of_nat seg)"

definition add_request :: "nat \<Rightarrow> nat \<times> u64 \<times> nat \<Rightarrow> transactions \<Rightarrow> transactions" where
  "add_request seg r = (case r of (th, a, sz) \<Rightarrow> smap_upd (tag seg a) new_transaction (mark th a sz))"

lemma sector_end:
  assumes "sector_aligned (th, a, sz)"
  shows "line_idx a + sz \<le> 128" "unat (a + of_nat sz - 1) = unat a + (sz - 1)"
    "unat a div 32 = (unat a + (sz - 1)) div 32"
proof -
  have al: "0 < sz" "unat a mod 128 mod 32 + sz \<le> 32" using assms by (simp_all add: sector_aligned_def line_idx_mod)
  have "unat a mod 128 mod 32 = unat a mod 32" by (rule mod_mod_cancel) simp
  with al have m: "unat a mod 32 + sz \<le> 32" by simp
  have "unat a mod 128 = 32 * (unat a mod 128 div 32) + unat a mod 128 mod 32" by simp
  moreover have "unat a mod 128 div 32 < 4" by (intro less_mult_imp_div_less) simp
  ultimately show le: "line_idx a + sz \<le> 128" using al unfolding line_idx_mod by linarith
  have "a + of_nat sz - 1 = a + of_nat (sz - 1)" using al(1)
    by (cases sz) (simp_all add: algebra_simps)
  moreover have "unat (a + of_nat (sz - 1)) = unat a + (sz - 1)"
    by (rule word_add_small) (use le al(1) in \<open>simp add: line_idx_mod\<close>)
  ultimately show "unat (a + of_nat sz - 1) = unat a + (sz - 1)" by metis
  have "unat a = 32 * (unat a div 32) + unat a mod 32" by simp
  then have "unat a + (sz - 1) = (unat a mod 32 + (sz - 1)) + unat a div 32 * 32" by linarith
  then have "(unat a + (sz - 1)) div 32 = ((unat a mod 32 + (sz - 1)) + unat a div 32 * 32) div 32" by (rule arg_cong)
  also have "\<dots> = unat a div 32 + (unat a mod 32 + (sz - 1)) div 32" by (rule div_mult_self1) simp
  also have "(unat a mod 32 + (sz - 1)) div 32 = 0" using m al(1) by simp
  finally show "unat a div 32 = (unat a + (sz - 1)) div 32" by simp
qed

lemma segment_of_sector:
  assumes "seg \<in> {32, 64, 128 :: nat}" "x div 32 = y div 32"
  shows "x div seg = y div seg"
proof -
  obtain m where m: "seg = 32 * m" using assms(1) that [of 1] that [of 2] that [of 4] by auto
  show ?thesis unfolding m div_mult2_eq assms(2) ..
qed

lemma coalesce_access_aligned:
  assumes "seg \<in> {32, 64, 128}" "sector_aligned (th, a, sz)"
  shows "coalesce_access seg th sz a = add_request seg (th, a, sz)"
proof -
  have "unat (tag seg (a + of_nat sz - 1)) = unat (tag seg a)"
    using segment_of_sector [OF assms(1) sector_end(3) [OF assms(2)]]
    by (simp only: tag_def unat_segment [OF assms(1)] sector_end(2) [OF assms(2)])
  then have "line_size_based_tag_func a (of_nat seg) = line_size_based_tag_func (a + of_nat sz - 1) (of_nat seg)"
    by (simp add: tag_def word_unat_eq_iff)
  then show ?thesis by (auto simp: coalesce_access_def add_request_def Let_def tag_def)
qed

lemma coalesce_thread_requests:
  assumes "seg \<in> {32, 64, 128}" "mi_data_size i \<le> 32" "\<forall>r \<in> set (lane_requests i th). sector_aligned r"
  shows "coalesce_thread i seg txs th = Some (fold (add_request seg) (lane_requests i th) txs)"
proof -
  obtain sz n where sz: "coalesce_size i (mi_threads i ! th) = (sz, n)" by force
  have "n \<le> 8" using sz assms(2) by (auto simp: coalesce_size_def Let_def split: if_splits)
  moreover have "fold (coalesce_access seg th sz) as txs = fold (add_request seg) (map (\<lambda>a. (th, a, sz)) as) txs"
    if "\<forall>a \<in> set as. sector_aligned (th, a, sz)" for as
    using that coalesce_access_aligned [OF assms(1)] by (induction as arbitrary: txs) simp_all
  ultimately show ?thesis
    using assms(3) sz
    by (auto simp: coalesce_thread_def lane_requests_def Let_def MAX_ACCESSES_PER_INSN_PER_THREAD_def)
qed

lemma coalesce_threads_requests:
  assumes "seg \<in> {32, 64, 128}" "mi_data_size i \<le> 32"
  shows "\<forall>r \<in> set (concat (map (lane_requests i) ths)). sector_aligned r \<Longrightarrow>
    run_ops (coalesce_thread i seg) txs ths = Some (fold (add_request seg) (concat (map (lane_requests i) ths)) txs)"
proof (induction ths arbitrary: txs)
  case (Cons th ths)
  then have "coalesce_thread i seg txs th = Some (fold (add_request seg) (lane_requests i th) txs)"
    by (intro coalesce_thread_requests [OF assms]) simp
  with Cons show ?case by simp
qed simp

definition marks :: "(nat \<times> u64 \<times> nat) list \<Rightarrow> transaction_info" where
  "marks rs = fold (\<lambda>(th, a, sz). mark th a sz) rs new_transaction"

lemma add_requests:
  "sorted_wrt (<) (map fst (fold (add_request seg) rs [])) \<and>
   map_of (fold (add_request seg) rs []) b =
     (if filter (\<lambda>(th, a, sz). tag seg a = b) rs = [] then None
      else Some (marks (filter (\<lambda>(th, a, sz). tag seg a = b) rs)))"
proof (induction rs arbitrary: b rule: rev_induct)
  case (snoc r rs)
  obtain th a sz where r: "r = (th, a, sz)" by (cases r)
  let ?txs = "fold (add_request seg) rs []"
  have s: "sorted_wrt (<) (map fst ?txs)" using snoc.IH by blast
  have "fold (add_request seg) (rs @ [r]) [] = smap_upd (tag seg a) new_transaction (mark th a sz) ?txs"
    by (simp add: r add_request_def)
  with s snoc.IH show ?case
    by (auto simp: r smap_lookup [OF s] marks_def)
qed simp

lemma marks_fields:
  "chunks (marks rs) = (\<lambda>(th, a, sz). line_idx a div 32) ` set rs"
  "active (marks rs) = fst ` set rs"
  "bytes (marks rs) = (\<Union>(th, a, sz) \<in> set rs. {line_idx a..<line_idx a + sz} \<inter> {..<128})"
proof -
  have "chunks (marks rs) = (\<lambda>(th, a, sz). line_idx a div 32) ` set rs \<and> active (marks rs) = fst ` set rs \<and>
    bytes (marks rs) = (\<Union>(th, a, sz) \<in> set rs. {line_idx a..<line_idx a + sz} \<inter> {..<128})"
  proof (induction rs rule: rev_induct)
    case (snoc r rs)
    obtain th a sz where r: "r = (th, a, sz)" by (cases r)
    have "marks (rs @ [r]) = mark th a sz (marks rs)" by (simp add: marks_def r)
    with snoc show ?case by (auto simp: mark_def r)
  qed (simp add: marks_def new_transaction_def)
  then show "chunks (marks rs) = (\<lambda>(th, a, sz). line_idx a div 32) ` set rs"
    "active (marks rs) = fst ` set rs"
    "bytes (marks rs) = (\<Union>(th, a, sz) \<in> set rs. {line_idx a..<line_idx a + sz} \<inter> {..<128})" by blast+
qed

subsection \<open>Sending the transactions\<close>

definition send_access :: "bool \<Rightarrow> mem_access_type \<Rightarrow> nat \<Rightarrow> u64 \<times> transaction_info \<Rightarrow> mem_access option" where
  "send_access w ty seg tx = do {
     cassert (fst tx AND ucast (of_nat seg - 1 :: u32) = 0);
     cassert (chunks (snd tx) \<noteq> {});
     (addr', sz) \<leftarrow> reduce_size (chunks (snd tx)) (fst tx) seg;
     Some \<lparr>ma_type = ty, ma_addr = addr', ma_req_size = sz, ma_write = w,
       ma_warp_mask = active (snd tx), ma_byte_mask = bytes (snd tx), ma_sector_mask = chunks (snd tx)\<rparr>
   }"

lemma reduce_and_send_access:
  "reduce_and_send w ty seg queue tx = map_option (\<lambda>x. queue @ [x]) (send_access w ty seg tx)"
  by (cases tx) (auto simp: reduce_and_send_def send_access_def Let_def split: Option.bind_splits)

lemma send_all:
  "(\<And>tx. tx \<in> set txs \<Longrightarrow> \<exists>x. send_access w ty seg tx = Some x) \<Longrightarrow>
   run_ops (reduce_and_send w ty seg) queue txs = Some (queue @ map (the \<circ> send_access w ty seg) txs)"
proof (induction txs arbitrary: queue)
  case (Cons tx txs)
  then obtain x where "send_access w ty seg tx = Some x" by fastforce
  with Cons show ?case by (simp add: reduce_and_send_access)
qed simp

lemma segment_aligned:
  assumes "seg \<in> {32, 64, 128}"
  shows "tag seg a AND ucast (of_nat seg - 1 :: u32) = 0"
proof -
  have "ucast (of_nat seg - 1 :: u32) = (of_nat seg - 1 :: u64)" using assms by auto
  then show ?thesis by (simp add: tag_def line_size_based_tag_func_def and.assoc bit.conj_cancel_left)
qed

text \<open>The access made of the requests of one segment.\<close>

definition serves :: "nat \<Rightarrow> (nat \<times> u64 \<times> nat) list \<Rightarrow> u64 \<Rightarrow> mem_access \<Rightarrow> bool" where
  "serves seg rs b x \<longleftrightarrow> tag seg (ma_addr x) = b \<and> ma_req_size x \<in> {32, 64, 128} \<and> ma_req_size x \<le> seg \<and>
     unat (ma_addr x) mod ma_req_size x = 0 \<and>
     ma_warp_mask x = {th. \<exists>a sz. (th, a, sz) \<in> set rs \<and> tag seg a = b} \<and>
     (\<forall>(th, a, sz) \<in> set rs. tag seg a = b \<longrightarrow> unat (ma_addr x) \<le> unat a \<and>
        unat a + sz \<le> unat (ma_addr x) + ma_req_size x \<and> {line_idx a..<line_idx a + sz} \<subseteq> ma_byte_mask x)"

lemma chunk_within:
  assumes seg: "seg \<in> {32, 64, 128}"
  shows "unat (tag seg a) mod 128 \<le> 32 * (line_idx a div 32) \<and>
    32 * (line_idx a div 32) + 32 \<le> unat (tag seg a) mod 128 + seg"
proof -
  have o: "unat (tag seg a) mod 128 = line_idx a div seg * seg"
    using segment_parts [OF seg, of "unat a"] by (simp add: tag_def unat_segment [OF seg] line_idx_mod)
  obtain m where m: "seg = 32 * m" "0 < m" using seg that [of 1] that [of 2] that [of 4] by auto
  let ?c = "line_idx a div 32" and ?k = "line_idx a div seg"
  have k: "?k = ?c div m" by (simp add: m div_mult2_eq)
  have "?k * m \<le> ?c" "?c < ?k * m + m"
    unfolding k using m(2) dividend_less_div_times [of m ?c] by simp_all
  moreover have "?k * seg = 32 * (?k * m)" by (simp add: m)
  ultimately show ?thesis unfolding o using m(1) by linarith
qed

lemma reducedD:
  assumes "reduced q b seg b' sz"
  shows "sz \<in> {32, 64, 128}" "0 < sz" "sz \<le> seg" "unat b' mod sz = 0" "unat b' div 128 = unat b div 128"
    "unat b \<le> unat b'" "unat b' < unat b + seg" "within q (unat b' mod 128) sz"
proof -
  show "sz \<in> {32, 64, 128}" "unat b' mod sz = 0" "unat b' div 128 = unat b div 128"
    "unat b \<le> unat b'" "within q (unat b' mod 128) sz"
    using assms unfolding reduced_def by blast+
  then show "0 < sz" by auto
  moreover have "unat b' + sz \<le> unat b + seg" using assms unfolding reduced_def by blast
  ultimately show "sz \<le> seg" "unat b' < unat b + seg" using \<open>unat b \<le> unat b'\<close> by linarith+
qed

lemma send_access_serves:
  assumes seg: "seg \<in> {32, 64, 128}" and al: "\<forall>r \<in> set rs. sector_aligned r"
    and sel: "filter (\<lambda>(th, a, sz). tag seg a = b) rs \<noteq> []"
  shows "\<exists>x. send_access w ty seg (b, marks (filter (\<lambda>(th, a, sz). tag seg a = b) rs)) = Some x \<and>
    serves seg rs b x \<and> ma_write x = w \<and> ma_type x = ty"
proof -
  let ?rs = "filter (\<lambda>(th, a, sz). tag seg a = b) rs"
  let ?q = "chunks (marks ?rs)"
  obtain th0 a0 sz0 where r0: "(th0, a0, sz0) \<in> set ?rs" using sel by (metis list.set_intros(1) neq_Nil_conv prod_cases3)
  then have b: "b = tag seg a0" by simp
  have bmod: "unat b mod seg = 0" using seg by (simp add: b tag_def unat_segment)
  have q: "?q \<noteq> {}" using r0 by (auto simp: marks_fields)
  have win: "within ?q (unat b mod 128) seg"
    unfolding within_def marks_fields using chunk_within [OF seg] by auto
  obtain b' sz where red: "reduce_size ?q b seg = Some (b', sz)" "reduced ?q b seg b' sz"
    using reduce_size_ok [OF seg bmod q win] by blast
  define x where "x = \<lparr>ma_type = ty, ma_addr = b', ma_req_size = sz, ma_write = w,
       ma_warp_mask = active (marks ?rs), ma_byte_mask = bytes (marks ?rs), ma_sector_mask = ?q\<rparr>"
  have send: "send_access w ty seg (b, marks ?rs) = Some x"
    using q red segment_aligned [OF seg, of a0] by (simp add: send_access_def x_def b)
  have tagx: "tag seg b' = b"
  proof -
    have ub: "unat b = seg * (unat b div seg)" using bmod by (metis add.right_neutral mult_div_mod_eq)
    have "unat b' div seg = unat b div seg"
    proof (rule div_nat_eqI)
      show "seg * (unat b div seg) \<le> unat b'" using reducedD(6) [OF red(2)] ub by linarith
      show "unat b' < seg * Suc (unat b div seg)"
        using reducedD(7) [OF red(2)] ub unfolding mult_Suc_right by linarith
    qed
    then have "unat (tag seg b') = unat b"
      using ub by (simp add: tag_def unat_segment [OF seg] mult.commute)
    then show ?thesis by (simp add: word_unat_eq_iff)
  qed
  have cover: "unat b' \<le> unat a \<and> unat a + n \<le> unat b' + sz \<and> {line_idx a..<line_idx a + n} \<subseteq> bytes (marks ?rs)"
    if r: "(th, a, n) \<in> set rs" "tag seg a = b" for th a n
  proof -
    have al1: "sector_aligned (th, a, n)" using al r(1) by blast
    have "line_idx a div 32 \<in> ?q" using r by (force simp: marks_fields)
    then have c: "unat b' mod 128 \<le> 32 * (line_idx a div 32)" "32 * (line_idx a div 32) + 32 \<le> unat b' mod 128 + sz"
      using reducedD(8) [OF red(2)] unfolding within_def by blast+
    have line: "unat b' div 128 = unat a div 128"
    proof -
      have "unat b = unat a div seg * seg" using r(2) unat_segment [OF seg, of a] by (simp add: tag_def)
      then show ?thesis using reducedD(5) [OF red(2)] segment_parts [OF seg, of "unat a"] by metis
    qed
    have dec: "unat a = unat a div 128 * 128 + line_idx a" "unat b' = unat b' div 128 * 128 + unat b' mod 128"
      by (simp_all add: line_idx_mod)
    have idx: "line_idx a = 32 * (line_idx a div 32) + line_idx a mod 32" "line_idx a mod 32 + n \<le> 32"
      using al1 by (simp_all add: sector_aligned_def)
    have "{line_idx a..<line_idx a + n} \<subseteq> bytes (marks ?rs)"
      unfolding marks_fields using r sector_end(1) [OF al1] by fastforce
    moreover have "unat b' mod 128 \<le> line_idx a" "line_idx a + n \<le> unat b' mod 128 + sz" using c idx by linarith+
    then have "unat b' \<le> unat a" "unat a + n \<le> unat b' + sz" using dec line by linarith+
    ultimately show ?thesis by blast
  qed
  have f: "ma_addr x = b'" "ma_req_size x = sz" "ma_byte_mask x = bytes (marks ?rs)"
    by (simp_all add: x_def)
  have mask: "ma_warp_mask x = {th. \<exists>a sz. (th, a, sz) \<in> set rs \<and> tag seg a = b}"
    by (force simp: x_def marks_fields)
  have "serves seg rs b x"
    unfolding serves_def f
  proof (intro conjI)
    show "\<forall>(th, a, n) \<in> set rs. tag seg a = b \<longrightarrow> unat b' \<le> unat a \<and>
        unat a + n \<le> unat b' + sz \<and> {line_idx a..<line_idx a + n} \<subseteq> bytes (marks ?rs)"
      using cover by blast
  qed (use tagx reducedD(1,3,4) [OF red(2)] mask in blast)+
  with send show ?thesis by (auto simp: x_def)
qed

text \<open>What the accesses of one subwarp have to be.\<close>

definition coalesced :: "nat \<Rightarrow> (nat \<times> u64 \<times> nat) list \<Rightarrow> mem_access list \<Rightarrow> bool" where
  "coalesced seg rs q \<longleftrightarrow>
     sorted_wrt (<) (map (tag seg \<circ> ma_addr) q) \<and>
     tag seg ` ma_addr ` set q = (\<lambda>(th, a, sz). tag seg a) ` set rs \<and>
     (\<forall>x \<in> set q. serves seg rs (tag seg (ma_addr x)) x)"

lemma coalesce_subwarp_ok:
  assumes seg: "segment_size cfg i \<in> {32, 64, 128}" and "mi_data_size i \<le> 32"
    and al: "\<forall>r \<in> set (subwarp_requests cfg i p). sector_aligned r"
  shows "\<exists>q. coalesce_subwarp cfg i w ty queue p = Some (queue @ q) \<and>
    coalesced (segment_size cfg i) (subwarp_requests cfg i p) q \<and> (\<forall>x \<in> set q. ma_write x = w \<and> ma_type x = ty)"
proof -
  let ?seg = "segment_size cfg i" and ?rs = "subwarp_requests cfg i p"
  define txs where "txs = fold (add_request ?seg) ?rs []"
  have run: "run_ops (coalesce_thread i ?seg) [] (subwarp_threads cfg p) = Some txs"
    using coalesce_threads_requests [OF seg assms(2)] al by (simp add: txs_def subwarp_requests_def)
  have sorted: "sorted_wrt (<) (map fst txs)"
    and lookup: "map_of txs b = (if filter (\<lambda>(th, a, sz). tag ?seg a = b) ?rs = [] then None
      else Some (marks (filter (\<lambda>(th, a, sz). tag ?seg a = b) ?rs)))" for b
    using add_requests by (auto simp: txs_def)
  have dist: "distinct (map fst txs)" using sorted by (simp add: strict_sorted_iff)
  let ?send = "the \<circ> send_access w ty ?seg"
  have each: "\<exists>x. send_access w ty ?seg tx = Some x \<and> serves ?seg ?rs (fst tx) x \<and> ma_write x = w \<and> ma_type x = ty"
    if "tx \<in> set txs" for tx
  proof -
    obtain b info where tx: "tx = (b, info)" by force
    with that dist have "map_of txs b = Some info" by (simp add: map_of_eq_Some_iff)
    then have ne: "filter (\<lambda>(th, a, sz). tag ?seg a = b) ?rs \<noteq> []"
      and info: "info = marks (filter (\<lambda>(th, a, sz). tag ?seg a = b) ?rs)" by (auto simp: lookup split: if_splits)
    from send_access_serves [OF seg al ne] show ?thesis by (simp add: tx info)
  qed
  define q where "q = map ?send txs"
  have "run_ops (reduce_and_send w ty ?seg) queue txs = Some (queue @ q)"
    unfolding q_def by (rule send_all) (use each in blast)
  then have res: "coalesce_subwarp cfg i w ty queue p = Some (queue @ q)"
    using run by (simp add: coalesce_subwarp_def Let_def)
  have one: "serves ?seg ?rs (fst tx) (?send tx) \<and> ma_write (?send tx) = w \<and> ma_type (?send tx) = ty"
    if "tx \<in> set txs" for tx
    using each [OF that] by auto
  then have key: "tag ?seg (ma_addr (?send tx)) = fst tx" if "tx \<in> set txs" for tx
    using that by (simp add: serves_def)
  have keys: "map (tag ?seg \<circ> ma_addr) q = map fst txs" using key by (simp add: q_def)
  have "b \<in> fst ` set txs \<longleftrightarrow> b \<in> (\<lambda>(th, a, sz). tag ?seg a) ` set ?rs" for b
  proof -
    have "b \<in> fst ` set txs \<longleftrightarrow> map_of txs b \<noteq> None" by (simp add: map_of_eq_None_iff)
    also have "\<dots> \<longleftrightarrow> b \<in> (\<lambda>(th, a, sz). tag ?seg a) ` set ?rs"
      by (force simp: lookup filter_empty_conv image_iff)
    finally show ?thesis .
  qed
  moreover have "tag ?seg ` ma_addr ` set q = fst ` set txs"
    using arg_cong [OF keys, of set] by (simp add: image_comp)
  ultimately have "tag ?seg ` ma_addr ` set q = (\<lambda>(th, a, sz). tag ?seg a) ` set ?rs" by blast
  moreover have "sorted_wrt (<) (map (tag ?seg \<circ> ma_addr) q)" unfolding keys by (rule sorted)
  moreover have "\<forall>x \<in> set q. serves ?seg ?rs (tag ?seg (ma_addr x)) x"
    using one key by (auto simp: q_def)
  ultimately have "coalesced ?seg ?rs q" unfolding coalesced_def by blast
  moreover have "\<forall>x \<in> set q. ma_write x = w \<and> ma_type x = ty" using one by (auto simp: q_def)
  ultimately show ?thesis using res by blast
qed

lemma run_appends:
  assumes "\<And>p queue. p \<in> set ps \<Longrightarrow> \<exists>q. f queue p = Some (queue @ q) \<and> P p q"
  shows "\<exists>qs. run_ops f queue ps = Some (queue @ concat qs) \<and> list_all2 P ps qs"
  using assms
proof (induction ps arbitrary: queue)
  case (Cons p ps)
  obtain q where q: "f queue p = Some (queue @ q)" "P p q" using Cons.prems by fastforce
  obtain qs where "run_ops f (queue @ q) ps = Some ((queue @ q) @ concat qs)" "list_all2 P ps qs"
    using Cons.IH [of "queue @ q"] Cons.prems by fastforce
  with q show ?case by (intro exI [of _ "q # qs"]) simp
qed simp

lemma segment_size_cases:
  "mi_data_size i \<in> {1, 2, 4, 8, 16} \<Longrightarrow> segment_size cfg i \<in> {32, 64, 128}"
  by (auto simp: segment_size_def Let_def)

text \<open>
  C24. Coalescing is exact: when every lane's access stays within a 32-byte sector, each subwarp
  emits one access per segment its active lanes touch and no other, in ascending order; the access
  is naturally aligned, 32, 64 or 128 bytes and no larger than the segment, its mask holds exactly
  the lanes of that segment, and it covers each of their bytes, in its range and its byte mask.
\<close>

theorem coalescing_exact:
  assumes "mem_warp_parts cfg \<noteq> 0" "mi_data_size i \<in> {1, 2, 4, 8, 16}"
    "\<forall>p < mem_warp_parts cfg. \<forall>r \<in> set (subwarp_requests cfg i p). sector_aligned r"
  shows "\<exists>qs. memory_coalescing_arch cfg i w ty = Some (mi_accessq i @ concat qs) \<and>
    list_all2 (\<lambda>p q. coalesced (segment_size cfg i) (subwarp_requests cfg i p) q \<and>
      (\<forall>x \<in> set q. ma_write x = w \<and> ma_type x = ty)) [0..<mem_warp_parts cfg] qs"
proof -
  have seg: "segment_size cfg i \<in> {32, 64, 128}" by (rule segment_size_cases [OF assms(2)])
  have "mi_data_size i \<le> 32" using assms(2) by auto
  note sub = coalesce_subwarp_ok [OF seg this]
  have "\<exists>qs. run_ops (coalesce_subwarp cfg i w ty) (mi_accessq i) [0..<mem_warp_parts cfg] =
      Some (mi_accessq i @ concat qs) \<and>
    list_all2 (\<lambda>p q. coalesced (segment_size cfg i) (subwarp_requests cfg i p) q \<and>
      (\<forall>x \<in> set q. ma_write x = w \<and> ma_type x = ty)) [0..<mem_warp_parts cfg] qs"
    by (rule run_appends, rule sub) (use assms(3) in simp)
  then show ?thesis using assms(1) by (simp add: memory_coalescing_arch_def)
qed

definition warp_cfg :: mem_config where
  "warp_cfg = \<lparr>warp_size = 4, mem_warp_parts = 1, gpgpu_coalesce_arch = 70, gmem_skip_L1D = False,
     num_shmem_bank = 32, shmem_limited_broadcast = False, shmem_load_min_dispatch_cycles = 1,
     shmem_store_min_dispatch_cycles = 1, ldmatrix_min_dispatch_cycles = 1,
     gpgpu_cache_texl1_linesize = 128, gpgpu_cache_constl1_linesize = 64\<rparr>"

definition lane_at :: "u64 \<Rightarrow> per_thread_info" where
  "lane_at a = \<lparr>memory_access_size = 0, memory_access_size_valid = False, memreqaddr = [a, 0, 0, 0, 0, 0, 0, 0]\<rparr>"

definition warp_inst :: "uarch_op \<Rightarrow> memory_space_type \<Rightarrow> bool \<Rightarrow> u64 list \<Rightarrow> mem_inst" where
  "warp_inst op space atom addrs =
     \<lparr>mi_empty = False, mi_op = op, mi_memory_op = no_memory_op, mi_space = space, mi_cache_op = CACHE_ALL,
      mi_data_size = 4, mi_vector_elements = 1, mi_isatomic = atom, mi_active = {0, 1, 2, 3},
      mi_shared_dispatch = 0, mi_threads_valid = True, mi_threads = map lane_at addrs,
      mi_created = False, mi_cycles = 1, mi_accessq = []\<rparr>"

lemma sample_requests:
  "subwarp_requests warp_cfg (warp_inst op global_space atom [0x100, 0x104, 0x13C, 0x140]) 0 =
    [(0, 0x100, 4), (1, 0x104, 4), (2, 0x13C, 4), (3, 0x140, 4)]"
  by (simp add: subwarp_requests_def subwarp_threads_def warp_cfg_def warp_inst_def lane_requests_def
      coalesce_size_def thread_accesses_def lane_at_def MAX_ACCESSES_PER_INSN_PER_THREAD_def Let_def upt_rec)

lemma sample_size: "mi_data_size (warp_inst op space atom addrs) = 4"
  by (simp add: warp_inst_def)

lemma sample_accessq: "mi_accessq (warp_inst op space atom addrs) = []"
  by (simp add: warp_inst_def)

lemma coalescing_exact_witness:
  "\<exists>qs. memory_coalescing_arch warp_cfg (warp_inst LOAD_OP global_space False [0x100, 0x104, 0x13C, 0x140]) False GLOBAL_ACC_R
      = Some (concat qs) \<and>
    list_all2 (\<lambda>p q. coalesced 32 [(0, 0x100, 4), (1, 0x104, 4), (2, 0x13C, 4), (3, 0x140, 4)] q \<and>
      (\<forall>x \<in> set q. \<not> ma_write x \<and> ma_type x = GLOBAL_ACC_R)) [0..<1] qs"
proof -
  let ?i = "warp_inst LOAD_OP global_space False [0x100, 0x104, 0x13C, 0x140]"
  have parts: "mem_warp_parts warp_cfg = 1" by (simp add: warp_cfg_def)
  have "segment_size warp_cfg ?i = 32"
    by (simp add: segment_size_def warp_cfg_def warp_inst_def sector_segment_size_def Let_def)
  moreover have "\<exists>qs. memory_coalescing_arch warp_cfg ?i False GLOBAL_ACC_R = Some (mi_accessq ?i @ concat qs) \<and>
    list_all2 (\<lambda>p q. coalesced (segment_size warp_cfg ?i) (subwarp_requests warp_cfg ?i p) q \<and>
      (\<forall>x \<in> set q. ma_write x = False \<and> ma_type x = GLOBAL_ACC_R)) [0..<mem_warp_parts warp_cfg] qs"
    by (rule coalescing_exact)
      (simp_all add: parts sample_requests sector_aligned_def line_idx_def sample_size)
  ultimately show ?thesis by (auto simp: parts sample_requests sample_accessq list_all2_Cons1)
qed

text \<open>
  A lane whose access crosses into the next segment marks the last byte and the bytes after it
  there, not the bytes it touches.
\<close>

lemma split_access_bytes:
  "map_of (coalesce_access 32 0 8 0x1C []) 0x20 =
   Some \<lparr>chunks = {1}, bytes = {0x23, 0x24, 0x25, 0x26, 0x27, 0x28, 0x29, 0x2A}, active = {0}\<rparr>"
  by (simp add: coalesce_access_def line_size_based_tag_func_def mark_def new_transaction_def line_idx_def Let_def upt_rec)

end
