(* ===== verification/Coalescing_Atomics.thy ===== *)
theory Coalescing_Atomics
  imports Coalescing_Props "HOL-Library.Multiset"
begin

section \<open>Atomics are split by byte\<close>

text \<open>
  The transactions of an atomic instruction are groups of its lane requests without a common byte.
\<close>

text \<open>The requests of the lanes of an atomic instruction.\<close>

definition atomic_request :: "mem_inst \<Rightarrow> nat \<Rightarrow> (nat \<times> u64 \<times> nat) list" where
  "atomic_request i th =
     (if th \<in> mi_active i then [(th, hd (memreqaddr (mi_threads i ! th)), mi_data_size i)] else [])"

definition atomic_requests :: "mem_config \<Rightarrow> mem_inst \<Rightarrow> nat \<Rightarrow> (nat \<times> u64 \<times> nat) list" where
  "atomic_requests cfg i subwarp = concat (map (atomic_request i) (subwarp_threads cfg subwarp))"

definition request_bytes :: "nat \<times> u64 \<times> nat \<Rightarrow> nat set" where
  "request_bytes r = (case r of (th, a, sz) \<Rightarrow> {line_idx a..<line_idx a + sz})"

text \<open>Groups of requests of one segment without a common byte.\<close>

definition compatible :: "nat \<Rightarrow> u64 \<Rightarrow> (nat \<times> u64 \<times> nat) list \<Rightarrow> bool" where
  "compatible seg b g \<longleftrightarrow> g \<noteq> [] \<and> (\<forall>(th, a, sz) \<in> set g. tag seg a = b) \<and>
     (\<forall>r \<in> set g. sector_aligned r) \<and>
     sorted_wrt (\<lambda>r r'. request_bytes r \<inter> request_bytes r' = {}) g"

lemma request_bytes_marks:
  assumes "\<forall>r \<in> set g. sector_aligned r"
  shows "bytes (marks g) = (\<Union>r \<in> set g. request_bytes r)"
proof -
  have "request_bytes r \<subseteq> {..<128}" if "r \<in> set g" for r
    using assms that sector_end(1) by (cases r) (force simp: request_bytes_def)
  then show ?thesis unfolding marks_fields(3) by (fastforce simp: request_bytes_def split: prod.splits)
qed

lemma place_atomic_groups:
  assumes "\<forall>g \<in> set gs. compatible seg b g" "sector_aligned (th, a, sz)" "tag seg a = b"
  shows "\<exists>gs'. place_atomic th a sz (map marks gs) = map marks gs' \<and>
    mset (concat gs') = mset (concat gs) + {#(th, a, sz)#} \<and> (\<forall>g \<in> set gs'. compatible seg b g) \<and> gs' \<noteq> []"
  using assms(1)
proof (induction gs)
  case Nil
  have "mark th a sz new_transaction = marks [(th, a, sz)]" by (simp add: marks_def)
  then show ?case using assms(2,3) by (intro exI [of _ "[[(th, a, sz)]]"]) (simp add: compatible_def)
next
  case (Cons g gs)
  have pos: "0 < sz" using assms(2) by (simp add: sector_aligned_def)
  show ?case
  proof (cases "test_bytes (marks g) (line_idx a) (line_idx a + sz - 1)")
    case True
    obtain gs' where "place_atomic th a sz (map marks gs) = map marks gs'"
      "mset (concat gs') = mset (concat gs) + {#(th, a, sz)#}" "\<forall>g \<in> set gs'. compatible seg b g"
      using Cons by auto
    then show ?thesis using True Cons.prems by (intro exI [of _ "g # gs'"]) simp
  next
    case False
    let ?g = "g @ [(th, a, sz)]"
    have al: "\<forall>r \<in> set g. sector_aligned r" using Cons.prems by (simp add: compatible_def)
    have "i \<notin> bytes (marks g)" if "i \<in> request_bytes (th, a, sz)" for i
      using False that pos by (auto simp: test_bytes_def list_ex_iff request_bytes_def)
    then have "request_bytes r \<inter> request_bytes (th, a, sz) = {}" if "r \<in> set g" for r
      using that unfolding request_bytes_marks [OF al] by blast
    then have "compatible seg b ?g"
      using Cons.prems assms(2,3) by (auto simp: compatible_def sorted_wrt_append)
    moreover have "mark th a sz (marks g) = marks ?g" by (simp add: marks_def)
    ultimately show ?thesis using False Cons.prems by (intro exI [of _ "?g # gs"]) simp
  qed
qed

text \<open>The transactions of a block are groups of its requests.\<close>

definition grouped :: "nat \<Rightarrow> (nat \<times> u64 \<times> nat) list \<Rightarrow> atomic_transactions \<Rightarrow> bool" where
  "grouped seg rs txs \<longleftrightarrow> sorted_wrt (<) (map fst txs) \<and>
     fst ` set txs = (\<lambda>(th, a, sz). tag seg a) ` set rs \<and>
     (\<forall>b infos. map_of txs b = Some infos \<longrightarrow>
        (\<exists>gs. infos = map marks gs \<and> gs \<noteq> [] \<and> (\<forall>g \<in> set gs. compatible seg b g) \<and>
           mset (concat gs) = mset (filter (\<lambda>(th, a, sz). tag seg a = b) rs)))"

lemma grouped_add:
  assumes g: "grouped seg rs txs" and al: "sector_aligned (th, a, sz)"
  shows "grouped seg (rs @ [(th, a, sz)]) (smap_upd (tag seg a) [] (place_atomic th a sz) txs)"
proof -
  let ?rs = "rs @ [(th, a, sz)]" and ?b = "tag seg a"
  have s: "sorted_wrt (<) (map fst txs)" and keys: "fst ` set txs = (\<lambda>(th, a, sz). tag seg a) ` set rs"
    using g by (simp_all add: grouped_def)
  have "\<exists>gs. infos = map marks gs \<and> gs \<noteq> [] \<and> (\<forall>g \<in> set gs. compatible seg b g) \<and>
      mset (concat gs) = mset (filter (\<lambda>(th, a, sz). tag seg a = b) ?rs)"
    if look: "map_of (smap_upd ?b [] (place_atomic th a sz) txs) b = Some infos" for b infos
  proof (cases "b = ?b")
    case False
    with look have "map_of txs b = Some infos" by (simp add: smap_lookup [OF s])
    with g False show ?thesis by (simp add: grouped_def)
  next
    case True
    obtain gs where gs: "(case map_of txs b of None \<Rightarrow> [] | Some v \<Rightarrow> v) = map marks gs"
      "\<forall>g \<in> set gs. compatible seg b g" "mset (concat gs) = mset (filter (\<lambda>(th, a, sz). tag seg a = b) rs)"
    proof (cases "map_of txs b")
      case None
      then have "b \<notin> (\<lambda>(th, a, sz). tag seg a) ` set rs" using keys by (metis map_of_eq_None_iff)
      then have "filter (\<lambda>(th, a, sz). tag seg a = b) rs = []" by (force simp: filter_empty_conv)
      with None that [of "[]"] show ?thesis by simp
    next
      case (Some infos')
      then show ?thesis using g that by (force simp: grouped_def)
    qed
    have "infos = place_atomic th a sz (map marks gs)"
      using look True gs(1) by (simp add: smap_lookup [OF s])
    with place_atomic_groups [OF gs(2) al True [symmetric]] gs(3) True show ?thesis by auto
  qed
  then show ?thesis
    unfolding grouped_def using smap_sorted [OF s] keys by auto
qed

lemma sum_list_at: "distinct ks \<Longrightarrow> c \<in> set ks \<Longrightarrow> (\<Sum>b\<leftarrow>ks. if c = b then M else {#}) = M"
proof (induction ks)
  case (Cons k ks)
  have "c \<notin> set ks \<Longrightarrow> (\<Sum>b\<leftarrow>ks. if c = b then M else {#}) = {#}" by (induction ks) auto
  with Cons show ?case by auto
qed simp

lemma mset_by_keys:
  "distinct ks \<Longrightarrow> f ` set rs \<subseteq> set ks \<Longrightarrow> (\<Sum>b\<leftarrow>ks. mset (filter (\<lambda>r. f r = b) rs)) = mset rs"
proof (induction rs)
  case (Cons r rs)
  have "mset (filter (\<lambda>r. f r = b) (r # rs)) =
      (if f r = b then {#r#} else {#}) + mset (filter (\<lambda>r. f r = b) rs)" for b
    by simp
  then have "(\<Sum>b\<leftarrow>ks. mset (filter (\<lambda>r. f r = b) (r # rs))) =
      (\<Sum>b\<leftarrow>ks. if f r = b then {#r#} else {#}) + (\<Sum>b\<leftarrow>ks. mset (filter (\<lambda>r. f r = b) rs))"
    by (simp only: sum_list_addf)
  with Cons show ?case by (simp add: sum_list_at)
qed (induction ks, simp_all)

text \<open>All transactions with their groups, in the order in which they are sent.\<close>

lemma grouped_flat:
  assumes g: "grouped seg rs txs"
  shows "\<exists>ps. concat (map (\<lambda>(addr, infos). map (Pair addr) infos) txs) = map (\<lambda>(b, g). (b, marks g)) ps \<and>
    mset (concat (map snd ps)) = mset rs \<and> (\<forall>(b, g) \<in> set ps. compatible seg b g) \<and>
    sorted_wrt (\<le>) (map fst ps)"
proof -
  let ?f = "\<lambda>(th :: nat, a, sz :: nat). tag seg a"
  have s: "sorted_wrt (<) (map fst txs)" and keys: "fst ` set txs = ?f ` set rs"
    using g by (simp_all add: grouped_def)
  have dist: "distinct (map fst txs)" using s by (simp add: strict_sorted_iff)
  have "\<exists>gs. infos = map marks gs \<and> (\<forall>g \<in> set gs. compatible seg b g) \<and>
      mset (concat gs) = mset (filter (\<lambda>r. ?f r = b) rs)" if "(b, infos) \<in> set txs" for b infos
  proof -
    have "map_of txs b = Some infos" using that dist by (simp add: map_of_eq_Some_iff)
    with g have "\<exists>gs. infos = map marks gs \<and> gs \<noteq> [] \<and> (\<forall>g \<in> set gs. compatible seg b g) \<and>
        mset (concat gs) = mset (filter (\<lambda>(th, a, sz). tag seg a = b) rs)" unfolding grouped_def by blast
    moreover have "(\<lambda>(th, a, sz). tag seg a = b) = (\<lambda>r. ?f r = b)" by (auto simp: fun_eq_iff)
    ultimately show ?thesis by auto
  qed
  then have "\<forall>x \<in> set txs. \<exists>gs. snd x = map marks gs \<and> (\<forall>g \<in> set gs. compatible seg (fst x) g) \<and>
      mset (concat gs) = mset (filter (\<lambda>r. ?f r = fst x) rs)" by auto
  from bchoice [OF this] obtain G where
    G: "\<And>x. x \<in> set txs \<Longrightarrow> snd x = map marks (G x) \<and> (\<forall>g \<in> set (G x). compatible seg (fst x) g) \<and>
      mset (concat (G x)) = mset (filter (\<lambda>r. ?f r = fst x) rs)" by blast
  define ps where "ps = concat (map (\<lambda>x. map (Pair (fst x)) (G x)) txs)"
  have flat: "concat (map (\<lambda>(addr, infos). map (Pair addr) infos) ts) =
      map (\<lambda>(b, g). (b, marks g)) (concat (map (\<lambda>x. map (Pair (fst x)) (G x)) ts))"
    if "set ts \<subseteq> set txs" for ts
    using that
  proof (induction ts)
    case (Cons t ts)
    obtain b infos where tb: "t = (b, infos)" by force
    define gs where "gs = G t"
    have "infos = map marks gs" using Cons.prems G [of t] by (simp add: tb gs_def)
    then have "map (Pair b) infos = map (\<lambda>g. (b, marks g)) gs" by (simp add: comp_def)
    with Cons show ?case by (simp add: tb comp_def gs_def)
  qed simp
  have all: "mset (concat (map snd (concat (map (\<lambda>x. map (Pair (fst x)) (G x)) ts)))) =
      (\<Sum>b\<leftarrow>map fst ts. mset (filter (\<lambda>r. ?f r = b) rs))" if "set ts \<subseteq> set txs" for ts
    using that
  proof (induction ts)
    case (Cons t ts)
    then have "mset (concat (G t)) = mset (filter (\<lambda>r. ?f r = fst t) rs)" using G [of t] by simp
    with Cons show ?case by (simp add: comp_def)
  qed simp
  have comp: "\<forall>(b, g) \<in> set ps. compatible seg b g" using G by (auto simp: ps_def)
  have "sorted_wrt (\<le>) (map fst (concat (map (\<lambda>x. map (Pair (fst x)) (G x)) ts)))"
    if "sorted_wrt (<) (map fst ts)" for ts
    using that
  proof (induction ts)
    case (Cons t ts)
    have rep: "sorted_wrt (\<le>) (map fst (map (Pair b) gs))" for b :: u64 and gs :: "(nat \<times> u64 \<times> nat) list list"
      by (induction gs) auto
    from Cons rep show ?case by (fastforce simp: sorted_wrt_append)
  qed simp
  then have "sorted_wrt (\<le>) (map fst ps)" using s by (simp add: ps_def)
  moreover have "mset (concat (map snd ps)) = mset rs"
    using all [of txs] mset_by_keys [OF dist, of ?f rs] keys by (simp add: ps_def)
  ultimately show ?thesis using flat [of txs] comp by (intro exI [of _ ps]) (simp add: ps_def)
qed

definition atomics_split :: "nat \<Rightarrow> (nat \<times> u64 \<times> nat) list \<Rightarrow> mem_access list \<Rightarrow> bool" where
  "atomics_split seg rs q \<longleftrightarrow> sorted_wrt (\<le>) (map (tag seg \<circ> ma_addr) q) \<and>
     (\<exists>gs. mset (concat gs) = mset rs \<and> list_all2 (\<lambda>g x. compatible seg (tag seg (ma_addr x)) g \<and>
        serves seg g (tag seg (ma_addr x)) x) gs q)"

lemma coalesce_atomic_thread_ok:
  assumes seg: "seg \<in> {32, 64, 128}" and g: "grouped seg rs txs"
    and ne: "th \<in> mi_active i \<Longrightarrow> memreqaddr (mi_threads i ! th) \<noteq> []"
    and al: "\<forall>r \<in> set (atomic_request i th). sector_aligned r"
  shows "\<exists>txs'. coalesce_atomic_thread i seg txs th = Some txs' \<and> grouped seg (rs @ atomic_request i th) txs'"
proof (cases "th \<in> mi_active i")
  case False
  with g show ?thesis by (simp add: coalesce_atomic_thread_def atomic_request_def)
next
  case True
  then obtain a as where a: "memreqaddr (mi_threads i ! th) = a # as" using ne by (cases "memreqaddr (mi_threads i ! th)") auto
  let ?sz = "mi_data_size i"
  have r: "sector_aligned (th, a, ?sz)" using al True a by (simp add: atomic_request_def)
  have "unat (tag seg (a + of_nat ?sz - 1)) = unat (tag seg a)"
    using segment_of_sector [OF seg sector_end(3) [OF r]]
    by (simp only: tag_def unat_segment [OF seg] sector_end(2) [OF r])
  then have "tag seg a = tag seg (a + of_nat ?sz - 1)" by (simp add: word_unat_eq_iff)
  with True a sector_end(1) [OF r] grouped_add [OF g r] show ?thesis
    by (simp add: coalesce_atomic_thread_def atomic_request_def tag_def)
qed

lemma coalesce_atomic_threads_ok:
  assumes seg: "seg \<in> {32, 64, 128}"
  shows "grouped seg rs txs \<Longrightarrow>
    \<forall>th \<in> set ths. (th \<in> mi_active i \<longrightarrow> memreqaddr (mi_threads i ! th) \<noteq> []) \<and>
      (\<forall>r \<in> set (atomic_request i th). sector_aligned r) \<Longrightarrow>
    \<exists>txs'. run_ops (coalesce_atomic_thread i seg) txs ths = Some txs' \<and>
      grouped seg (rs @ concat (map (atomic_request i) ths)) txs'"
proof (induction ths arbitrary: rs txs)
  case (Cons th ths)
  then obtain txs1 where t1: "coalesce_atomic_thread i seg txs th = Some txs1" "grouped seg (rs @ atomic_request i th) txs1"
    using coalesce_atomic_thread_ok [OF seg Cons.prems(1)] by force
  with Cons.IH [OF t1(2)] Cons.prems(2) show ?case by simp
qed simp

lemma coalesce_atomic_subwarp_ok:
  assumes seg: "segment_size cfg i \<in> {32, 64, 128}"
    and ths: "\<forall>th \<in> set (subwarp_threads cfg p). (th \<in> mi_active i \<longrightarrow> memreqaddr (mi_threads i ! th) \<noteq> []) \<and>
      (\<forall>r \<in> set (atomic_request i th). sector_aligned r)"
  shows "\<exists>q. coalesce_atomic_subwarp cfg i w ty queue p = Some (queue @ q) \<and>
    atomics_split (segment_size cfg i) (atomic_requests cfg i p) q"
proof -
  let ?seg = "segment_size cfg i" and ?rs = "atomic_requests cfg i p"
  have "grouped ?seg [] []" by (simp add: grouped_def)
  from coalesce_atomic_threads_ok [OF seg this ths] obtain txs
    where run: "run_ops (coalesce_atomic_thread i ?seg) [] (subwarp_threads cfg p) = Some txs"
      and "grouped ?seg ?rs txs" by (auto simp: atomic_requests_def)
  from grouped_flat [OF this(2)] obtain ps where
    flat: "concat (map (\<lambda>(addr, infos). map (Pair addr) infos) txs) = map (\<lambda>(b, g). (b, marks g)) ps"
    and all: "mset (concat (map snd ps)) = mset ?rs" and comp: "\<forall>(b, g) \<in> set ps. compatible ?seg b g"
    and sorted: "sorted_wrt (\<le>) (map fst ps)" by blast
  have each: "\<exists>x. send_access w ty ?seg (b, marks g) = Some x \<and> serves ?seg g b x" if "(b, g) \<in> set ps" for b g
  proof -
    have c: "compatible ?seg b g" using comp that by blast
    then have f: "filter (\<lambda>(th, a, sz). tag ?seg a = b) g = g" by (auto simp: compatible_def filter_id_conv)
    have "\<forall>r \<in> set g. sector_aligned r" "g \<noteq> []" using c by (simp_all add: compatible_def)
    with send_access_serves [OF seg, of g b w ty] f show ?thesis by auto
  qed
  define S where "S x = the (send_access w ty ?seg (fst x, marks (snd x)))" for x
  define q where "q = map S ps"
  have "run_ops (reduce_and_send w ty ?seg) queue (map (\<lambda>(b, g). (b, marks g)) ps) =
      Some (queue @ map (the \<circ> send_access w ty ?seg) (map (\<lambda>(b, g). (b, marks g)) ps))"
    by (rule send_all) (use each in auto)
  moreover have "map (the \<circ> send_access w ty ?seg) (map (\<lambda>(b, g). (b, marks g)) ps) = q"
    by (auto simp: q_def S_def)
  ultimately have res: "coalesce_atomic_subwarp cfg i w ty queue p = Some (queue @ q)"
    using run flat by (simp add: coalesce_atomic_subwarp_def Let_def)
  have one: "serves ?seg g b (S (b, g)) \<and> tag ?seg (ma_addr (S (b, g))) = b" if mem: "(b, g) \<in> set ps" for b g
  proof -
    obtain x where x: "send_access w ty ?seg (b, marks g) = Some x" "serves ?seg g b x" using each [OF mem] by blast
    have "tag ?seg (ma_addr x) = b" using x(2) unfolding serves_def by blast
    with x show ?thesis by (simp add: S_def)
  qed
  have keys: "map (tag ?seg \<circ> ma_addr) q = map fst ps" using one by (auto simp: q_def)
  have groups: "list_all2 (\<lambda>g x. compatible ?seg (tag ?seg (ma_addr x)) g \<and>
      serves ?seg g (tag ?seg (ma_addr x)) x) (map snd ps) q"
    unfolding q_def list_all2_map1 list_all2_map2
  proof (rule list_all2_same [THEN iffD2], rule ballI)
    fix z
    assume "z \<in> set ps"
    moreover obtain b g where z: "z = (b, g)" by force
    ultimately have mem: "(b, g) \<in> set ps" by simp
    have c: "compatible ?seg b g" using comp mem by blast
    have e: "tag ?seg (ma_addr (S (b, g))) = b" and v: "serves ?seg g b (S (b, g))"
      by (rule conjunct2 [OF one [OF mem]], rule conjunct1 [OF one [OF mem]])
    show "compatible ?seg (tag ?seg (ma_addr (S z))) (snd z) \<and>
        serves ?seg (snd z) (tag ?seg (ma_addr (S z))) (S z)"
      unfolding z snd_conv e using c v by (rule conjI)
  qed
  have "atomics_split ?seg ?rs q"
    unfolding atomics_split_def keys by (intro conjI exI [of _ "map snd ps"] sorted all groups)
  with res show ?thesis by blast
qed

text \<open>
  C27. Atomics are serialised where they touch the same bytes: when every lane's access stays
  within a sector, the accesses of a subwarp split its atomic requests into groups, every request
  in exactly one, so that no two lanes of an access share a byte; each access covers its group.
\<close>

theorem atomic_lanes_split:
  assumes "mi_space i = global_space" "mem_warp_parts cfg \<noteq> 0" "mi_data_size i \<in> {1, 2, 4, 8, 16}"
    "\<forall>p < mem_warp_parts cfg. \<forall>th \<in> set (subwarp_threads cfg p).
       (th \<in> mi_active i \<longrightarrow> memreqaddr (mi_threads i ! th) \<noteq> []) \<and>
       (\<forall>r \<in> set (atomic_request i th). sector_aligned r)"
  shows "\<exists>qs. memory_coalescing_arch_atomic cfg i w ty = Some (mi_accessq i @ concat qs) \<and>
    list_all2 (\<lambda>p q. atomics_split (segment_size cfg i) (atomic_requests cfg i p) q) [0..<mem_warp_parts cfg] qs"
proof -
  note sub = coalesce_atomic_subwarp_ok [OF segment_size_cases [OF assms(3)]]
  have "\<exists>qs. run_ops (coalesce_atomic_subwarp cfg i w ty) (mi_accessq i) [0..<mem_warp_parts cfg] =
      Some (mi_accessq i @ concat qs) \<and>
    list_all2 (\<lambda>p q. atomics_split (segment_size cfg i) (atomic_requests cfg i p) q) [0..<mem_warp_parts cfg] qs"
    by (rule run_appends, rule sub) (use assms(4) in simp)
  then show ?thesis using assms(1,2) by (simp add: memory_coalescing_arch_atomic_def)
qed

lemma atomic_lanes_split_witness:
  "\<exists>q. memory_coalescing_arch_atomic warp_cfg (warp_inst LOAD_OP global_space True [0x100, 0x104, 0x100, 0x140])
      False GLOBAL_ACC_R = Some q \<and>
    atomics_split 32 [(0, 0x100, 4), (1, 0x104, 4), (2, 0x100, 4), (3, 0x140, 4)] q"
proof -
  let ?i = "warp_inst LOAD_OP global_space True [0x100, 0x104, 0x100, 0x140]"
  have parts: "mem_warp_parts warp_cfg = 1" by (simp add: warp_cfg_def)
  have ths: "subwarp_threads warp_cfg 0 = [0, 1, 2, 3]"
    by (simp add: subwarp_threads_def warp_cfg_def Let_def upt_rec)
  have reqs: "atomic_requests warp_cfg ?i 0 = [(0, 0x100, 4), (1, 0x104, 4), (2, 0x100, 4), (3, 0x140, 4)]"
    by (simp add: atomic_requests_def ths atomic_request_def warp_inst_def lane_at_def)
  have seg: "segment_size warp_cfg ?i = 32"
    by (simp add: segment_size_def warp_cfg_def warp_inst_def sector_segment_size_def Let_def)
  have "\<exists>qs. memory_coalescing_arch_atomic warp_cfg ?i False GLOBAL_ACC_R = Some (mi_accessq ?i @ concat qs) \<and>
    list_all2 (\<lambda>p q. atomics_split (segment_size warp_cfg ?i) (atomic_requests warp_cfg ?i p) q)
      [0..<mem_warp_parts warp_cfg] qs"
    by (rule atomic_lanes_split)
      (simp_all add: parts ths, simp_all add: warp_inst_def lane_at_def atomic_request_def sector_aligned_def line_idx_def)
  then show ?thesis by (auto simp: parts reqs seg sample_accessq list_all2_Cons1)
qed

end
