(* ===== verification/Shared_Banks.thy ===== *)
theory Shared_Banks
  imports Coalescing_Props
begin

section \<open>Bank conflicts of shared memory\<close>

text \<open>
  The maps of banks, words and counts compute the largest number of distinct words of a bank.
\<close>

text \<open>The words that the lanes touch in a bank.\<close>

definition bank_words :: "mem_config \<Rightarrow> u64 list \<Rightarrow> u32 \<Rightarrow> u64 set" where
  "bank_words cfg ws b =
     (\<lambda>w. line_size_based_tag_func w 4) ` {w \<in> set ws. shmem_bank_func cfg w = b}"

lemma count_elements:
  "sorted_wrt (<) (map fst (fold (count_element cfg) ws [])) \<and>
   (case map_of (fold (count_element cfg) ws []) b of
      None \<Rightarrow> bank_words cfg ws b = {}
    | Some m \<Rightarrow> m \<noteq> [] \<and> sorted_wrt (<) (map fst m) \<and> fst ` set m = bank_words cfg ws b)"
proof (induction ws arbitrary: b rule: rev_induct)
  case Nil
  then show ?case by (simp add: bank_words_def)
next
  case (snoc w ws)
  let ?accs = "fold (count_element cfg) ws []" and ?b = "shmem_bank_func cfg w"
  let ?up = "smap_upd (line_size_based_tag_func w 4) (0 :: nat) Suc"
  have s: "sorted_wrt (<) (map fst ?accs)" using snoc.IH by blast
  have fold: "fold (count_element cfg) (ws @ [w]) [] = smap_upd ?b [] ?up ?accs" by (simp add: count_element_def)
  have words: "bank_words cfg (ws @ [w]) b =
      (if ?b = b then insert (line_size_based_tag_func w 4) (bank_words cfg ws b) else bank_words cfg ws b)"
    by (auto simp: bank_words_def)
  have look: "map_of (smap_upd ?b [] ?up ?accs) b =
      (if b = ?b then Some (?up (case map_of ?accs b of None \<Rightarrow> [] | Some v \<Rightarrow> v)) else map_of ?accs b)"
    by (simp add: smap_lookup [OF s])
  have ne: "?up m \<noteq> []" for m by (cases m) (auto split: if_splits)
  show ?case
  proof (cases "b = ?b")
    case False
    with snoc.IH [of b] show ?thesis unfolding fold look words using smap_sorted [OF s] by simp
  next
    case True
    define m where "m = (case map_of ?accs b of None \<Rightarrow> [] | Some v \<Rightarrow> v)"
    have "sorted_wrt (<) (map fst m) \<and> fst ` set m = bank_words cfg ws b"
      using snoc.IH [of b] by (auto simp: m_def split: option.splits)
    moreover have "bank_words cfg (ws @ [w]) b = insert (line_size_based_tag_func w 4) (bank_words cfg ws b)"
      by (subst words) (simp add: True)
    ultimately have "sorted_wrt (<) (map fst (?up m))" "fst ` set (?up m) = bank_words cfg (ws @ [w]) b"
      by auto
    then show ?thesis
      unfolding fold look unfolding m_def [symmetric] using True ne [of m] smap_sorted [OF s] by simp
  qed
qed

lemma length_sorted_keys:
  "sorted_wrt (<) (map fst (m :: ('k :: linorder \<times> 'v) list)) \<Longrightarrow> length m = card (fst ` set m)"
  using distinct_card [of "map fst m"] by (simp add: strict_sorted_iff)

lemma fold_max: "fold max ns (k :: nat) = Max (insert k (set ns))"
proof (induction ns arbitrary: k)
  case (Cons n ns)
  have "Max (insert (max n k) (set ns)) = Max (insert k (insert n (set ns)))"
    by (cases "ns = []") (simp_all add: max.commute max.left_commute max.assoc)
  with Cons show ?case by simp
qed simp

text \<open>The conflict degree of a list of word accesses: the most words that one bank has to serve.\<close>

definition conflict_degree :: "mem_config \<Rightarrow> u64 list \<Rightarrow> nat" where
  "conflict_degree cfg ws = Max (insert 0 ((\<lambda>w. card (bank_words cfg ws (shmem_bank_func cfg w))) ` set ws))"

definition subwarp_words :: "mem_config \<Rightarrow> mem_inst \<Rightarrow> nat \<Rightarrow> u64 list" where
  "subwarp_words cfg i p = concat (map (lane_words i) (subwarp_threads cfg p))"

lemma subwarp_shared_accesses_degree:
  assumes "\<not> shmem_limited_broadcast cfg"
  shows "subwarp_shared_accesses cfg i p = conflict_degree cfg (subwarp_words cfg i p)"
proof -
  let ?ws = "subwarp_words cfg i p" and ?accs = "bank_accesses_of cfg i p"
  have accs: "?accs = fold (count_element cfg) ?ws []" by (simp add: bank_accesses_of_def subwarp_words_def)
  have s: "sorted_wrt (<) (map fst ?accs)" using count_elements by (simp add: accs)
  have "n \<in> set (map (\<lambda>(b, ws). length ws) ?accs) \<longleftrightarrow>
      n \<in> (\<lambda>w. card (bank_words cfg ?ws (shmem_bank_func cfg w))) ` set ?ws" for n
  proof
    assume "n \<in> set (map (\<lambda>(b, ws). length ws) ?accs)"
    then obtain b m where m: "(b, m) \<in> set ?accs" "n = length m" by auto
    then have "map_of ?accs b = Some m" using s by (simp add: strict_sorted_iff map_of_eq_Some_iff)
    then have w: "m \<noteq> []" "sorted_wrt (<) (map fst m)" "fst ` set m = bank_words cfg ?ws b"
      using count_elements [of cfg ?ws b] by (simp_all add: accs)
    then have "bank_words cfg ?ws b \<noteq> {}" by (metis image_is_empty set_empty)
    then obtain w where "w \<in> set ?ws" "shmem_bank_func cfg w = b" by (auto simp: bank_words_def)
    with w m(2) show "n \<in> (\<lambda>w. card (bank_words cfg ?ws (shmem_bank_func cfg w))) ` set ?ws"
      by (auto simp: length_sorted_keys)
  next
    assume "n \<in> (\<lambda>w. card (bank_words cfg ?ws (shmem_bank_func cfg w))) ` set ?ws"
    then obtain w where w: "w \<in> set ?ws" "n = card (bank_words cfg ?ws (shmem_bank_func cfg w))" by blast
    let ?b = "shmem_bank_func cfg w"
    have "bank_words cfg ?ws ?b \<noteq> {}" using w(1) by (auto simp: bank_words_def)
    then obtain m where m: "map_of ?accs ?b = Some m" "sorted_wrt (<) (map fst m)" "fst ` set m = bank_words cfg ?ws ?b"
      using count_elements [of cfg ?ws ?b] by (auto simp: accs split: option.splits)
    then have "n = length m" using w(2) by (simp add: length_sorted_keys)
    with map_of_SomeD [OF m(1)] show "n \<in> set (map (\<lambda>(b, ws). length ws) ?accs)" by force
  qed
  then have "set (map (\<lambda>(b, ws). length ws) ?accs) =
      (\<lambda>w. card (bank_words cfg ?ws (shmem_bank_func cfg w))) ` set ?ws" by blast
  with assms show ?thesis
    by (simp add: subwarp_shared_accesses_def Let_def fold_max conflict_degree_def del: set_map)
qed

lemma conflict_degree_le: "conflict_degree cfg ws \<le> length ws"
proof -
  have "card (bank_words cfg ws b) \<le> length ws" for b
  proof -
    have "card (bank_words cfg ws b) \<le> card {w \<in> set ws. shmem_bank_func cfg w = b}"
      unfolding bank_words_def by (rule card_image_le) simp
    also have "\<dots> \<le> card (set ws)" by (rule card_mono) auto
    finally show ?thesis using card_length [of ws] by linarith
  qed
  then show ?thesis by (auto simp: conflict_degree_def)
qed

lemma conflict_degree_pos: "ws \<noteq> [] \<Longrightarrow> 0 < conflict_degree cfg ws"
proof -
  assume "ws \<noteq> []"
  then obtain w where w: "w \<in> set ws" by (cases ws) auto
  let ?n = "card (bank_words cfg ws (shmem_bank_func cfg w))"
  have "bank_words cfg ws (shmem_bank_func cfg w) \<noteq> {}" "finite (bank_words cfg ws (shmem_bank_func cfg w))"
    using w by (auto simp: bank_words_def)
  then have "0 < ?n" by (simp add: card_gt_0_iff)
  also have "?n \<le> conflict_degree cfg ws" unfolding conflict_degree_def using w by (intro Max_ge) auto
  finally show ?thesis .
qed

lemma length_subwarp_words: "length (subwarp_words cfg i p) \<le> (warp_size cfg div mem_warp_parts cfg) * mi_vector_elements i"
proof -
  have "length (concat (map (lane_words i) ths)) \<le> length ths * mi_vector_elements i" for ths
    by (induction ths) (auto simp: lane_words_def)
  from this [of "subwarp_threads cfg p"] show ?thesis by (simp add: subwarp_words_def subwarp_threads_def Let_def)
qed

text \<open>
  C28. Bank conflicts are exact: without limited broadcast, a shared-memory instruction with an
  active lane and no fixed dispatch width occupies the memory unit for the sum over its subwarps
  of the largest number of distinct words that one bank has to serve, raised to the configured
  minimum; lanes that read the same word are served together. The assertion on the sum never
  fails.
\<close>

theorem shared_cycles_exact:
  assumes "\<not> shmem_limited_broadcast cfg" "mi_shared_dispatch i = 0" "mem_warp_parts cfg \<noteq> 0"
    "num_shmem_bank cfg \<noteq> 0" "0 < mi_vector_elements i" "p < mem_warp_parts cfg"
    "th \<in> set (subwarp_threads cfg p)" "th \<in> mi_active i"
  shows "shared_cycles cfg i = Some (min_dispatch cfg i
    (\<Sum>p \<leftarrow> [0..<mem_warp_parts cfg]. conflict_degree cfg (subwarp_words cfg i p)))"
proof -
  let ?n = "\<lambda>p. conflict_degree cfg (subwarp_words cfg i p)" and ?parts = "mem_warp_parts cfg"
  have sum: "sum_list (map (subwarp_shared_accesses cfg i) [0..<?parts]) = (\<Sum>p\<leftarrow>[0..<?parts]. ?n p)"
    by (simp add: subwarp_shared_accesses_degree [OF assms(1)] cong: map_cong)
  have "lane_words i th \<noteq> []" using assms(5,8) by (simp add: lane_words_def)
  then have "subwarp_words cfg i p \<noteq> []" using assms(7) by (auto simp: subwarp_words_def)
  then have "0 < ?n p" by (rule conflict_degree_pos)
  moreover have "?n p \<le> (\<Sum>p\<leftarrow>[0..<?parts]. ?n p)" using assms(6) by (intro member_le_sum_list) auto
  ultimately have pos: "0 < (\<Sum>p\<leftarrow>[0..<?parts]. ?n p)" by linarith
  have "(\<Sum>p\<leftarrow>ps. ?n p) \<le> length ps * ((warp_size cfg div ?parts) * mi_vector_elements i)" for ps
  proof (induction ps)
    case (Cons p ps)
    have "?n p \<le> (warp_size cfg div ?parts) * mi_vector_elements i"
      using conflict_degree_le length_subwarp_words by (rule le_trans)
    with Cons show ?case by simp
  qed simp
  from this [of "[0..<?parts]"] have "(\<Sum>p\<leftarrow>[0..<?parts]. ?n p) \<le> ?parts * (warp_size cfg div ?parts) * mi_vector_elements i"
    by (simp add: mult.assoc)
  also have "\<dots> \<le> warp_size cfg * mi_vector_elements i" by (intro mult_le_mono1) (simp add: times_div_less_eq_dividend)
  finally show ?thesis using pos assms(2-4) unfolding shared_cycles_def by (simp add: sum)
qed

lemma shared_cycles_exact_witness:
  "shared_cycles warp_cfg (warp_inst LOAD_OP shared_space False [0x10, 0x90, 0x10, 0x14]) =
   Some (min_dispatch warp_cfg (warp_inst LOAD_OP shared_space False [0x10, 0x90, 0x10, 0x14])
     (\<Sum>p \<leftarrow> [0..<1]. conflict_degree warp_cfg
       (subwarp_words warp_cfg (warp_inst LOAD_OP shared_space False [0x10, 0x90, 0x10, 0x14]) p)))"
  using shared_cycles_exact [of warp_cfg "warp_inst LOAD_OP shared_space False [0x10, 0x90, 0x10, 0x14]" 0 0]
  by (simp add: warp_cfg_def subwarp_threads_def Let_def) (simp add: warp_inst_def)

end
