(* ===== verification/Cache_Block.thy ===== *)
theory Cache_Block
  imports Coalescing
begin

section \<open>Cache blocks\<close>

text \<open>
  Models the block classes of \<^verbatim>\<open>src/gpgpu-sim/gpu-cache.h\<close>: \<^verbatim>\<open>cache_block_t\<close> with its two
  implementations \<^verbatim>\<open>line_cache_block\<close> (one state per line) and \<^verbatim>\<open>sector_cache_block\<close> (one
  state per 32-byte sector), and the part of \<^verbatim>\<open>mem_fetch\<close> the caches use. The per-sector arrays of
  a sector block are one list of records. Masks are sets of bits, times are \<open>nat\<close>. A virtual
  method is a definition by cases on the implementation; its \<open>assert\<close>s are \<open>None\<close>.
\<close>

subsection \<open>Requests\<close>

text \<open>
  The requesting instruction only matters for \<^verbatim>\<open>isatomic\<close>. Pointers to other requests are
  identities in the store of the cache.
\<close>

record mem_fetch =
  mf_access :: mem_access
  mf_data_size :: nat
  mf_ctrl_size :: nat
  mf_atomic :: bool
  mf_chip :: nat
  mf_sub_partition :: nat
  mf_original_mf :: "nat option"
  mf_original_wr_mf :: "nat option"

definition get_addr :: "mem_fetch \<Rightarrow> u64" where "get_addr mf = ma_addr (mf_access mf)"

definition set_addr :: "u64 \<Rightarrow> mem_fetch \<Rightarrow> mem_fetch" where
  "set_addr a mf = mf\<lparr>mf_access := (mf_access mf)\<lparr>ma_addr := a\<rparr>\<rparr>"

definition get_is_write :: "mem_fetch \<Rightarrow> bool" where "get_is_write mf = ma_write (mf_access mf)"

definition get_access_type :: "mem_fetch \<Rightarrow> mem_access_type" where
  "get_access_type mf = ma_type (mf_access mf)"

definition get_access_byte_mask :: "mem_fetch \<Rightarrow> nat set" where
  "get_access_byte_mask mf = ma_byte_mask (mf_access mf)"

definition get_access_sector_mask :: "mem_fetch \<Rightarrow> nat set" where
  "get_access_sector_mask mf = ma_sector_mask (mf_access mf)"

definition mf_size :: "mem_fetch \<Rightarrow> nat" where "mf_size mf = mf_data_size mf + mf_ctrl_size mf"

subsection \<open>Blocks\<close>

definition SECTOR_CHUNCK_SIZE :: nat where "SECTOR_CHUNCK_SIZE = 4"

definition SECTOR_SIZE :: nat where "SECTOR_SIZE = 32"

datatype cache_block_state = INVALID | RESERVED | VALID | MODIFIED

record line_cache_block =
  lb_alloc_time :: nat
  lb_last_access_time :: nat
  lb_fill_time :: nat
  lb_status :: cache_block_state
  lb_ignore_on_fill_status :: bool
  lb_set_modified_on_fill :: bool
  lb_set_readable_on_fill :: bool
  lb_set_byte_mask_on_fill :: bool
  lb_readable :: bool
  lb_dirty_byte_mask :: "nat set"

record sector =
  sec_alloc_time :: nat
  sec_last_access_time :: nat
  sec_fill_time :: nat
  sec_status :: cache_block_state
  sec_ignore_on_fill_status :: bool
  sec_set_modified_on_fill :: bool
  sec_set_readable_on_fill :: bool
  sec_readable :: bool

record sector_cache_block =
  sb_sectors :: "sector list"
  sb_line_alloc_time :: nat
  sb_line_last_access_time :: nat
  sb_line_fill_time :: nat
  sb_set_byte_mask_on_fill :: bool
  sb_dirty_byte_mask :: "nat set"

datatype block_impl = Line line_cache_block | Sectors sector_cache_block

record cache_block =
  cb_tag :: u64
  cb_block_addr :: u64
  cb_impl :: block_impl

text \<open>
  The constructors leave \<^verbatim>\<open>m_set_byte_mask_on_fill\<close> uninitialised; it is first read by a fill,
  after an allocation has cleared it, and starts as false here.
\<close>

definition new_line_block :: cache_block where
  "new_line_block = \<lparr>cb_tag = 0, cb_block_addr = 0, cb_impl = Line
     \<lparr>lb_alloc_time = 0, lb_last_access_time = 0, lb_fill_time = 0, lb_status = INVALID,
      lb_ignore_on_fill_status = False, lb_set_modified_on_fill = False,
      lb_set_readable_on_fill = False, lb_set_byte_mask_on_fill = False, lb_readable = True,
      lb_dirty_byte_mask = {}\<rparr>\<rparr>"

definition new_sector :: sector where
  "new_sector =
     \<lparr>sec_alloc_time = 0, sec_last_access_time = 0, sec_fill_time = 0, sec_status = INVALID,
      sec_ignore_on_fill_status = False, sec_set_modified_on_fill = False,
      sec_set_readable_on_fill = False, sec_readable = True\<rparr>"

text \<open>\<^verbatim>\<open>sector_cache_block::init\<close> resets all but the byte-mask flag.\<close>

definition sector_init :: "sector_cache_block \<Rightarrow> sector_cache_block" where
  "sector_init s = s\<lparr>sb_sectors := replicate SECTOR_CHUNCK_SIZE new_sector, sb_line_alloc_time := 0,
     sb_line_last_access_time := 0, sb_line_fill_time := 0, sb_dirty_byte_mask := {}\<rparr>"

definition new_sector_block :: cache_block where
  "new_sector_block = \<lparr>cb_tag = 0, cb_block_addr = 0, cb_impl = Sectors
     \<lparr>sb_sectors = replicate SECTOR_CHUNCK_SIZE new_sector, sb_line_alloc_time = 0,
      sb_line_last_access_time = 0, sb_line_fill_time = 0, sb_set_byte_mask_on_fill = False,
      sb_dirty_byte_mask = {}\<rparr>\<rparr>"

definition get_sector_index :: "nat set \<Rightarrow> nat option" where
  "get_sector_index smask =
     (case filter (\<lambda>i. i \<in> smask) [0..<SECTOR_CHUNCK_SIZE] of [i] \<Rightarrow> Some i | _ \<Rightarrow> None)"

definition upd_sector ::
  "nat set \<Rightarrow> (sector \<Rightarrow> sector) \<Rightarrow> sector_cache_block \<Rightarrow> sector_cache_block option" where
  "upd_sector smask f s = do {
     i \<leftarrow> get_sector_index smask;
     Some (s\<lparr>sb_sectors := (sb_sectors s)[i := f (sb_sectors s ! i)]\<rparr>)
   }"

definition line_op ::
  "(line_cache_block \<Rightarrow> line_cache_block) \<Rightarrow> (sector_cache_block \<Rightarrow> sector_cache_block option) \<Rightarrow>
   cache_block \<Rightarrow> cache_block option" where
  "line_op fl fs b =
     (case cb_impl b of
        Line l \<Rightarrow> Some (b\<lparr>cb_impl := Line (fl l)\<rparr>)
      | Sectors s \<Rightarrow> map_option (\<lambda>s. b\<lparr>cb_impl := Sectors s\<rparr>) (fs s))"

subsection \<open>States\<close>

definition is_invalid_line :: "cache_block \<Rightarrow> bool" where
  "is_invalid_line b =
     (case cb_impl b of Line l \<Rightarrow> lb_status l = INVALID
      | Sectors s \<Rightarrow> (\<forall>x \<in> set (sb_sectors s). sec_status x = INVALID))"

definition is_valid_line :: "cache_block \<Rightarrow> bool" where
  "is_valid_line b =
     (case cb_impl b of Line l \<Rightarrow> lb_status l = VALID | Sectors s \<Rightarrow> \<not> is_invalid_line b)"

definition is_reserved_line :: "cache_block \<Rightarrow> bool" where
  "is_reserved_line b =
     (case cb_impl b of Line l \<Rightarrow> lb_status l = RESERVED
      | Sectors s \<Rightarrow> (\<exists>x \<in> set (sb_sectors s). sec_status x = RESERVED))"

definition is_modified_line :: "cache_block \<Rightarrow> bool" where
  "is_modified_line b =
     (case cb_impl b of Line l \<Rightarrow> lb_status l = MODIFIED
      | Sectors s \<Rightarrow> (\<exists>x \<in> set (sb_sectors s). sec_status x = MODIFIED))"

definition get_status :: "nat set \<Rightarrow> cache_block \<Rightarrow> cache_block_state option" where
  "get_status smask b =
     (case cb_impl b of Line l \<Rightarrow> Some (lb_status l)
      | Sectors s \<Rightarrow> map_option (\<lambda>i. sec_status (sb_sectors s ! i)) (get_sector_index smask))"

definition is_readable :: "nat set \<Rightarrow> cache_block \<Rightarrow> bool option" where
  "is_readable smask b =
     (case cb_impl b of Line l \<Rightarrow> Some (lb_readable l)
      | Sectors s \<Rightarrow> map_option (\<lambda>i. sec_readable (sb_sectors s ! i)) (get_sector_index smask))"

definition get_last_access_time :: "cache_block \<Rightarrow> nat" where
  "get_last_access_time b =
     (case cb_impl b of Line l \<Rightarrow> lb_last_access_time l | Sectors s \<Rightarrow> sb_line_last_access_time s)"

definition get_alloc_time :: "cache_block \<Rightarrow> nat" where
  "get_alloc_time b =
     (case cb_impl b of Line l \<Rightarrow> lb_alloc_time l | Sectors s \<Rightarrow> sb_line_alloc_time s)"

definition get_dirty_byte_mask :: "cache_block \<Rightarrow> nat set" where
  "get_dirty_byte_mask b =
     (case cb_impl b of Line l \<Rightarrow> lb_dirty_byte_mask l | Sectors s \<Rightarrow> sb_dirty_byte_mask s)"

definition get_dirty_sector_mask :: "cache_block \<Rightarrow> nat set" where
  "get_dirty_sector_mask b =
     (case cb_impl b of
        Line l \<Rightarrow> if lb_status l = MODIFIED then {0..<SECTOR_CHUNCK_SIZE} else {}
      | Sectors s \<Rightarrow> set (filter (\<lambda>i. sec_status (sb_sectors s ! i) = MODIFIED) [0..<SECTOR_CHUNCK_SIZE]))"

definition get_modified_size :: "cache_block \<Rightarrow> nat" where
  "get_modified_size b =
     (case cb_impl b of
        Line l \<Rightarrow> SECTOR_CHUNCK_SIZE * SECTOR_SIZE
      | Sectors s \<Rightarrow> length (filter (\<lambda>x. sec_status x = MODIFIED) (sb_sectors s)) * SECTOR_SIZE)"

subsection \<open>Updates\<close>

definition allocate :: "u64 \<Rightarrow> u64 \<Rightarrow> nat \<Rightarrow> nat set \<Rightarrow> cache_block \<Rightarrow> cache_block option" where
  "allocate tag block_addr time smask b =
     line_op
       (\<lambda>l. l\<lparr>lb_alloc_time := time, lb_last_access_time := time, lb_fill_time := 0,
             lb_status := RESERVED, lb_ignore_on_fill_status := False,
             lb_set_modified_on_fill := False, lb_set_readable_on_fill := False,
             lb_set_byte_mask_on_fill := False\<rparr>)
       (\<lambda>s. do {
          s \<leftarrow> upd_sector smask (\<lambda>x. x\<lparr>sec_alloc_time := time, sec_last_access_time := time,
                 sec_fill_time := 0, sec_status := RESERVED, sec_ignore_on_fill_status := False,
                 sec_set_modified_on_fill := False, sec_set_readable_on_fill := False\<rparr>)
               (sector_init s);
          Some (s\<lparr>sb_set_byte_mask_on_fill := False, sb_line_alloc_time := time,
                  sb_line_last_access_time := time, sb_line_fill_time := 0\<rparr>)
        })
       (b\<lparr>cb_tag := tag, cb_block_addr := block_addr\<rparr>)"

text \<open>
  \<^verbatim>\<open>allocate_sector\<close> exists for sector blocks only; the callers assert the cache type before the
  cast.
\<close>

definition allocate_sector :: "nat \<Rightarrow> nat set \<Rightarrow> cache_block \<Rightarrow> cache_block option" where
  "allocate_sector time smask b = do {
     cassert (is_valid_line b);
     line_op (\<lambda>l. l)
       (\<lambda>s. do {
          s \<leftarrow> upd_sector smask (\<lambda>x. x\<lparr>sec_alloc_time := time, sec_last_access_time := time,
                 sec_fill_time := 0, sec_set_modified_on_fill := (sec_status x = MODIFIED),
                 sec_set_readable_on_fill := False, sec_status := RESERVED,
                 sec_ignore_on_fill_status := False, sec_readable := True\<rparr>) s;
          Some (s\<lparr>sb_line_last_access_time := time, sb_line_fill_time := 0\<rparr>)
        }) b
   }"

definition set_byte_mask :: "nat set \<Rightarrow> cache_block \<Rightarrow> cache_block" where
  "set_byte_mask byte_mask b =
     (case cb_impl b of
        Line l \<Rightarrow> b\<lparr>cb_impl := Line (l\<lparr>lb_dirty_byte_mask := lb_dirty_byte_mask l \<union> byte_mask\<rparr>)\<rparr>
      | Sectors s \<Rightarrow> b\<lparr>cb_impl := Sectors (s\<lparr>sb_dirty_byte_mask := sb_dirty_byte_mask s \<union> byte_mask\<rparr>)\<rparr>)"

definition block_fill :: "nat \<Rightarrow> nat set \<Rightarrow> nat set \<Rightarrow> cache_block \<Rightarrow> cache_block option" where
  "block_fill time smask byte_mask =
     line_op
       (\<lambda>l. l\<lparr>lb_status := if lb_set_modified_on_fill l then MODIFIED else VALID,
             lb_readable := lb_set_readable_on_fill l \<or> lb_readable l,
             lb_dirty_byte_mask :=
               if lb_set_byte_mask_on_fill l then lb_dirty_byte_mask l \<union> byte_mask
               else lb_dirty_byte_mask l,
             lb_fill_time := time\<rparr>)
       (\<lambda>s. do {
          s \<leftarrow> upd_sector smask (\<lambda>x. x\<lparr>
                 sec_status := if sec_set_modified_on_fill x then MODIFIED else VALID,
                 sec_readable := sec_set_readable_on_fill x \<or> sec_readable x,
                 sec_set_readable_on_fill := False,
                 sec_fill_time := time\<rparr>) s;
          Some (s\<lparr>sb_dirty_byte_mask :=
                    if sb_set_byte_mask_on_fill s then sb_dirty_byte_mask s \<union> byte_mask
                    else sb_dirty_byte_mask s,
                  sb_line_fill_time := time\<rparr>)
        })"

definition set_status :: "cache_block_state \<Rightarrow> nat set \<Rightarrow> cache_block \<Rightarrow> cache_block option" where
  "set_status st smask =
     line_op (\<lambda>l. l\<lparr>lb_status := st\<rparr>) (upd_sector smask (\<lambda>x. x\<lparr>sec_status := st\<rparr>))"

definition set_last_access_time :: "nat \<Rightarrow> nat set \<Rightarrow> cache_block \<Rightarrow> cache_block option" where
  "set_last_access_time time smask =
     line_op (\<lambda>l. l\<lparr>lb_last_access_time := time\<rparr>)
       (\<lambda>s. map_option (\<lambda>s. s\<lparr>sb_line_last_access_time := time\<rparr>)
              (upd_sector smask (\<lambda>x. x\<lparr>sec_last_access_time := time\<rparr>) s))"

definition set_ignore_on_fill :: "bool \<Rightarrow> nat set \<Rightarrow> cache_block \<Rightarrow> cache_block option" where
  "set_ignore_on_fill v smask =
     line_op (\<lambda>l. l\<lparr>lb_ignore_on_fill_status := v\<rparr>)
       (upd_sector smask (\<lambda>x. x\<lparr>sec_ignore_on_fill_status := v\<rparr>))"

definition set_modified_on_fill :: "bool \<Rightarrow> nat set \<Rightarrow> cache_block \<Rightarrow> cache_block option" where
  "set_modified_on_fill v smask =
     line_op (\<lambda>l. l\<lparr>lb_set_modified_on_fill := v\<rparr>)
       (upd_sector smask (\<lambda>x. x\<lparr>sec_set_modified_on_fill := v\<rparr>))"

definition set_readable_on_fill :: "bool \<Rightarrow> nat set \<Rightarrow> cache_block \<Rightarrow> cache_block option" where
  "set_readable_on_fill v smask =
     line_op (\<lambda>l. l\<lparr>lb_set_readable_on_fill := v\<rparr>)
       (upd_sector smask (\<lambda>x. x\<lparr>sec_set_readable_on_fill := v\<rparr>))"

definition set_m_readable :: "bool \<Rightarrow> nat set \<Rightarrow> cache_block \<Rightarrow> cache_block option" where
  "set_m_readable v smask =
     line_op (\<lambda>l. l\<lparr>lb_readable := v\<rparr>) (upd_sector smask (\<lambda>x. x\<lparr>sec_readable := v\<rparr>))"

definition set_byte_mask_on_fill :: "bool \<Rightarrow> cache_block \<Rightarrow> cache_block" where
  "set_byte_mask_on_fill v b =
     (case cb_impl b of
        Line l \<Rightarrow> b\<lparr>cb_impl := Line (l\<lparr>lb_set_byte_mask_on_fill := v\<rparr>)\<rparr>
      | Sectors s \<Rightarrow> b\<lparr>cb_impl := Sectors (s\<lparr>sb_set_byte_mask_on_fill := v\<rparr>)\<rparr>)"

end
