(* ===== verification/Cache_Config.thy ===== *)
theory Cache_Config
  imports Address_Decode Cache_Block
begin

section \<open>Cache configuration\<close>

text \<open>
  Models \<^verbatim>\<open>cache_config\<close>, \<^verbatim>\<open>l1d_cache_config\<close> and \<^verbatim>\<open>l2_cache_config\<close> of
  \<^verbatim>\<open>src/gpgpu-sim/gpu-cache.h\<close> with the set-index functions of \<^verbatim>\<open>gpu-cache.cc\<close>. The
  configuration string is given by its \<^verbatim>\<open>sscanf\<close> tokens. The virtual \<^verbatim>\<open>set_index\<close> depends on
  one field: an L2 with an address mapping indexes by the partition address. Sizes are \<open>nat\<close>: the
  products of sets, ways and line size are below \<open>2^32\<close>.
\<close>

datatype replacement_policy_t = LRU | FIFO

datatype write_policy_t = READ_ONLY | WRITE_BACK | WRITE_THROUGH | WRITE_EVICT | LOCAL_WB_GLOBAL_WT

datatype allocation_policy_t = ON_MISS | ON_FILL | STREAMING

datatype write_allocate_policy_t = NO_WRITE_ALLOCATE | WRITE_ALLOCATE | FETCH_ON_WRITE | LAZY_FETCH_ON_READ

datatype mshr_config_t = TEX_FIFO | ASSOC | SECTOR_TEX_FIFO | SECTOR_ASSOC

datatype set_index_function =
    LINEAR_SET_FUNCTION | BITWISE_XORING_FUNCTION | HASH_IPOLY_FUNCTION | FERMI_HASH_SET_FUNCTION
  | CUSTOM_SET_FUNCTION

datatype cache_type = NORMAL | SECTOR

record cache_config =
  cc_disabled :: bool
  cc_line_sz :: nat
  cc_line_sz_log2 :: nat
  cc_nset :: nat
  cc_nset_log2 :: nat
  cc_assoc :: nat
  cc_atom_sz :: nat
  cc_original_assoc :: nat
  cc_is_streaming :: bool
  cc_replacement_policy :: replacement_policy_t
  cc_write_policy :: write_policy_t
  cc_alloc_policy :: allocation_policy_t
  cc_mshr_type :: mshr_config_t
  cc_cache_type :: cache_type
  cc_write_alloc_policy :: write_allocate_policy_t
  cc_mshr_entries :: nat
  cc_mshr_max_merge :: nat
  cc_miss_queue_size :: nat
  cc_result_fifo_entries :: nat
  cc_data_port_width :: nat
  cc_set_index_function :: set_index_function
  cc_wr_percent :: nat
  cc_address_mapping :: "(u64 \<Rightarrow> u64 option) option"

subsection \<open>Parsing\<close>

record config_tokens =
  ct_ct :: char
  ct_nset :: nat
  ct_line_sz :: nat
  ct_assoc :: nat
  ct_rp :: char
  ct_wp :: char
  ct_ap :: char
  ct_wap :: char
  ct_sif :: char
  ct_mshr_type :: char
  ct_mshr_entries :: nat
  ct_mshr_max_merge :: nat
  ct_miss_queue_size :: nat
  ct_result_fifo_entries :: nat
  ct_data_port_width :: nat

definition cache_type_of :: "char \<Rightarrow> cache_type option" where
  "cache_type_of c =
     (if c = CHR ''N'' then Some NORMAL else if c = CHR ''S'' then Some SECTOR else None)"

definition replacement_of :: "char \<Rightarrow> replacement_policy_t option" where
  "replacement_of c = (if c = CHR ''L'' then Some LRU else if c = CHR ''F'' then Some FIFO else None)"

definition write_policy_of :: "char \<Rightarrow> write_policy_t option" where
  "write_policy_of c =
     (if c = CHR ''R'' then Some READ_ONLY else if c = CHR ''B'' then Some WRITE_BACK
      else if c = CHR ''T'' then Some WRITE_THROUGH else if c = CHR ''E'' then Some WRITE_EVICT
      else if c = CHR ''L'' then Some LOCAL_WB_GLOBAL_WT else None)"

definition alloc_policy_of :: "char \<Rightarrow> allocation_policy_t option" where
  "alloc_policy_of c =
     (if c = CHR ''m'' then Some ON_MISS else if c = CHR ''f'' then Some ON_FILL
      else if c = CHR ''s'' then Some STREAMING else None)"

definition mshr_type_of :: "char \<Rightarrow> nat \<Rightarrow> mshr_config_t option" where
  "mshr_type_of c ntok =
     (if c = CHR ''F'' then (if ntok = 14 then Some TEX_FIFO else None)
      else if c = CHR ''T'' then (if ntok = 14 then Some SECTOR_TEX_FIFO else None)
      else if c = CHR ''A'' then Some ASSOC else if c = CHR ''S'' then Some SECTOR_ASSOC else None)"

definition write_alloc_of :: "char \<Rightarrow> write_allocate_policy_t option" where
  "write_alloc_of c =
     (if c = CHR ''N'' then Some NO_WRITE_ALLOCATE else if c = CHR ''W'' then Some WRITE_ALLOCATE
      else if c = CHR ''F'' then Some FETCH_ON_WRITE
      else if c = CHR ''L'' then Some LAZY_FETCH_ON_READ else None)"

definition set_index_of :: "char \<Rightarrow> set_index_function option" where
  "set_index_of c =
     (if c = CHR ''H'' then Some FERMI_HASH_SET_FUNCTION
      else if c = CHR ''P'' then Some HASH_IPOLY_FUNCTION
      else if c = CHR ''C'' then Some CUSTOM_SET_FUNCTION
      else if c = CHR ''L'' then Some LINEAR_SET_FUNCTION
      else if c = CHR ''X'' then Some BITWISE_XORING_FUNCTION else None)"

text \<open>
  \<^verbatim>\<open>exit_parse_error\<close> and the assertions on invalid combinations are \<open>None\<close>. Tokens that
  \<^verbatim>\<open>sscanf\<close> did not reach keep what \<open>c\<close> and the locals held before; \<open>ntok\<close> is its
  result. The string \<^verbatim>\<open>none\<close> disables the cache.
\<close>

definition cache_config_init ::
  "bool \<Rightarrow> nat \<Rightarrow> config_tokens \<Rightarrow> cache_config \<Rightarrow> cache_config option" where
  "cache_config_init is_none ntok t c =
     (if ntok < 12 then (if is_none then Some (c\<lparr>cc_disabled := True\<rparr>) else None)
      else do {
        ct \<leftarrow> cache_type_of (ct_ct t);
        rp \<leftarrow> replacement_of (ct_rp t);
        wp \<leftarrow> write_policy_of (ct_wp t);
        ap \<leftarrow> alloc_policy_of (ct_ap t);
        let streaming = (ap = STREAMING \<or> cc_is_streaming c);
        let ap = (if ap = STREAMING then ON_FILL else ap);
        ms \<leftarrow> mshr_type_of (ct_mshr_type t) ntok;
        wap \<leftarrow> write_alloc_of (ct_wap t);
        cassert (\<not> ((ap = ON_FILL \<or> ap = STREAMING) \<and> wp = WRITE_BACK));
        cassert (\<not> ((wap = FETCH_ON_WRITE \<or> wap = LAZY_FETCH_ON_READ) \<and> ap = ON_FILL));
        cassert (ct = SECTOR \<longrightarrow>
          ct_line_sz t div SECTOR_SIZE = SECTOR_CHUNCK_SIZE \<and> ct_line_sz t mod SECTOR_SIZE = 0);
        let width = (if ct_data_port_width t = 0 then ct_line_sz t else ct_data_port_width t);
        cassert (width \<noteq> 0 \<and> ct_line_sz t mod width = 0);
        sif \<leftarrow> set_index_of (ct_sif t);
        Some (c\<lparr>
          cc_line_sz := ct_line_sz t, cc_line_sz_log2 := unat (LOGB2_32 (of_nat (ct_line_sz t))),
          cc_nset := ct_nset t, cc_nset_log2 := unat (LOGB2_32 (of_nat (ct_nset t))),
          cc_assoc := ct_assoc t,
          cc_atom_sz := (if ct = SECTOR then SECTOR_SIZE else ct_line_sz t),
          cc_original_assoc := ct_assoc t, cc_is_streaming := streaming,
          cc_replacement_policy := rp, cc_write_policy := wp, cc_alloc_policy := ap,
          cc_mshr_type := ms, cc_cache_type := ct, cc_write_alloc_policy := wap,
          cc_mshr_entries := ct_mshr_entries t, cc_mshr_max_merge := ct_mshr_max_merge t,
          cc_miss_queue_size := ct_miss_queue_size t,
          cc_result_fifo_entries := ct_result_fifo_entries t,
          cc_data_port_width := width, cc_set_index_function := sif\<rparr>)
      })"

subsection \<open>Addresses and sets\<close>

text \<open>\<^verbatim>\<open>tag\<close> and \<^verbatim>\<open>block_addr\<close> clear the offset in the line, \<^verbatim>\<open>mshr_addr\<close> the one in the atom.\<close>

definition tag :: "cache_config \<Rightarrow> u64 \<Rightarrow> u64" where
  "tag c addr = addr AND NOT (ucast ((of_nat (cc_line_sz c) :: u32) - 1))"

definition block_addr :: "cache_config \<Rightarrow> u64 \<Rightarrow> u64" where
  "block_addr c addr = addr AND NOT (ucast ((of_nat (cc_line_sz c) :: u32) - 1))"

definition mshr_addr :: "cache_config \<Rightarrow> u64 \<Rightarrow> u64" where
  "mshr_addr c addr = addr AND NOT (ucast ((of_nat (cc_atom_sz c) :: u32) - 1))"

definition get_num_lines :: "cache_config \<Rightarrow> nat" where
  "get_num_lines c = cc_nset c * cc_assoc c"

definition get_max_num_lines :: "cache_config \<Rightarrow> nat \<Rightarrow> nat" where
  "get_max_num_lines c multiplier = multiplier * cc_nset c * cc_original_assoc c"

definition l1d_max_cache_multiplier :: "cache_config \<Rightarrow> nat \<Rightarrow> nat option" where
  "l1d_max_cache_multiplier c unified_cache_size =
     (if unified_cache_size > 0 then do {
        let original_size = cc_nset c * cc_original_assoc c * cc_line_sz c div 1024;
        cassert (original_size \<noteq> 0 \<and> unified_cache_size mod original_size = 0);
        Some (unified_cache_size div original_size)
      } else Some 4)"

definition fermi_hash :: "u64 \<Rightarrow> nat \<Rightarrow> nat \<Rightarrow> u32 option" where
  "fermi_hash addr nset line_sz_log2 =
     (if nset = 32 \<or> nset = 64 then
        (let lower_xor = ucast (drop_bit line_sz_log2 addr AND 0x1F) :: u32;
             upper_xor = (ucast (drop_bit 13 (addr AND 0xE000)) OR
               ucast (drop_bit 14 (addr AND 0x20000))) OR ucast (drop_bit 15 (addr AND 0x80000));
             set_index = lower_xor XOR upper_xor
         in Some (if nset = 64 then set_index OR ucast (drop_bit 7 (addr AND 0x1000)) else set_index))
      else None)"

definition set_hash :: "u64 \<Rightarrow> nat \<Rightarrow> nat \<Rightarrow> nat \<Rightarrow> set_index_function \<Rightarrow> u32 option" where
  "set_hash addr nset line_sz_log2 nset_log2 f =
     (let higher_bits = drop_bit (line_sz_log2 + nset_log2) addr;
          index = ucast (drop_bit line_sz_log2 addr) AND (of_nat nset - 1) :: u32
      in case f of
           FERMI_HASH_SET_FUNCTION \<Rightarrow> fermi_hash addr nset line_sz_log2
         | BITWISE_XORING_FUNCTION \<Rightarrow> Some (bitwise_hash_function higher_bits index (of_nat nset))
         | HASH_IPOLY_FUNCTION \<Rightarrow> ipoly_hash_function higher_bits index nset
         | CUSTOM_SET_FUNCTION \<Rightarrow> Some 0
         | LINEAR_SET_FUNCTION \<Rightarrow> Some index)"

definition hash_function :: "u64 \<Rightarrow> nat \<Rightarrow> nat \<Rightarrow> nat \<Rightarrow> set_index_function \<Rightarrow> nat option" where
  "hash_function addr nset line_sz_log2 nset_log2 f = do {
     set_index \<leftarrow> set_hash addr nset line_sz_log2 nset_log2 f;
     cassert (unat set_index < nset);
     Some (unat set_index)
   }"

definition set_index :: "cache_config \<Rightarrow> u64 \<Rightarrow> nat option" where
  "set_index c addr = do {
     part_addr \<leftarrow> (case cc_address_mapping c of None \<Rightarrow> Some addr | Some f \<Rightarrow> f addr);
     hash_function part_addr (cc_nset c) (cc_line_sz_log2 c) (cc_nset_log2 c)
       (cc_set_index_function c)
   }"

text \<open>The bank of the L1D an address uses; the last argument is the interleaving granularity.\<close>

definition set_bank :: "u64 \<Rightarrow> nat \<Rightarrow> nat \<Rightarrow> set_index_function \<Rightarrow> nat option" where
  "set_bank addr l1_banks l1_banks_byte_interleaving f =
     hash_function addr l1_banks (unat (LOGB2_32 (of_nat l1_banks_byte_interleaving)))
       (unat (LOGB2_32 (of_nat l1_banks))) f"

end
