(* ===== verification/Tag_Array.thy ===== *)
theory Tag_Array
  imports Cache_Config "HOL-Library.Log_Nat"
begin

section \<open>Tag arrays\<close>

text \<open>
  Models \<^verbatim>\<open>tag_array\<close> of \<^verbatim>\<open>src/gpgpu-sim/gpu-cache.cc\<close>. The configuration, a reference shared
  with the cache, is an argument. Statistics are \<open>nat\<close>; the count of dirty lines is a 32-bit
  word, since it is decremented without a check. A line index is \<open>nat\<close>; an index that
  \<^verbatim>\<open>probe\<close> does not assign is \<open>None\<close>.
\<close>

datatype cache_request_status = HIT | HIT_RESERVED | MISS | RESERVATION_FAIL | SECTOR_MISS | MSHR_HIT

record evicted_block_info =
  ev_block_addr :: u64
  ev_modified_size :: nat
  ev_byte_mask :: "nat set"
  ev_sector_mask :: "nat set"

definition no_evicted :: evicted_block_info where
  "no_evicted = \<lparr>ev_block_addr = 0, ev_modified_size = 0, ev_byte_mask = {}, ev_sector_mask = {}\<rparr>"

record tag_array =
  ta_lines :: "cache_block list"
  ta_access :: nat
  ta_miss :: nat
  ta_pending_hit :: nat
  ta_res_fail :: nat
  ta_sector_miss :: nat
  ta_dirty :: u32
  ta_prev_snapshot_access :: nat
  ta_prev_snapshot_miss :: nat
  ta_prev_snapshot_pending_hit :: nat
  ta_is_used :: bool
  ta_pending_lines :: "(u64 \<times> nat) list"

definition tag_array_new :: "cache_config \<Rightarrow> nat \<Rightarrow> tag_array" where
  "tag_array_new cfg multiplier =
     \<lparr>ta_lines = replicate (get_max_num_lines cfg multiplier)
        (case cc_cache_type cfg of NORMAL \<Rightarrow> new_line_block | SECTOR \<Rightarrow> new_sector_block),
      ta_access = 0, ta_miss = 0, ta_pending_hit = 0, ta_res_fail = 0, ta_sector_miss = 0,
      ta_dirty = 0, ta_prev_snapshot_access = 0, ta_prev_snapshot_miss = 0,
      ta_prev_snapshot_pending_hit = 0, ta_is_used = False, ta_pending_lines = []\<rparr>"

definition add_pending_line :: "cache_config \<Rightarrow> u64 \<Rightarrow> nat \<Rightarrow> tag_array \<Rightarrow> tag_array" where
  "add_pending_line cfg addr uid t =
     (let b = block_addr cfg addr
      in if b \<in> fst ` set (ta_pending_lines t) then t
         else t\<lparr>ta_pending_lines := (b, uid) # ta_pending_lines t\<rparr>)"

definition remove_pending_line :: "cache_config \<Rightarrow> u64 \<Rightarrow> tag_array \<Rightarrow> tag_array" where
  "remove_pending_line cfg addr t =
     t\<lparr>ta_pending_lines := filter (\<lambda>e. fst e \<noteq> block_addr cfg addr) (ta_pending_lines t)\<rparr>"

definition inc_dirty :: "tag_array \<Rightarrow> tag_array" where
  "inc_dirty t = t\<lparr>ta_dirty := ta_dirty t + 1\<rparr>"

definition dec_dirty :: "tag_array \<Rightarrow> tag_array" where
  "dec_dirty t = t\<lparr>ta_dirty := ta_dirty t - 1\<rparr>"

subsection \<open>The share of dirty lines\<close>

text \<open>
  \<^verbatim>\<open>probe\<close> compares \<^verbatim>\<open>((float)m_dirty / (nset * assoc)) * 100\<close> with the configured limit in
  IEEE single precision. \<open>f32 p q\<close> is the fraction \<open>p / q\<close> rounded to 24 significant bits, to
  nearest with ties to even, as a fraction again; the numbers here are neither denormal nor too
  large.
\<close>

definition f32 :: "nat \<Rightarrow> nat \<Rightarrow> nat \<times> nat" where
  "f32 p q =
     (if p = 0 then (0, 1)
      else let e = int (floorlog 2 p) - int (floorlog 2 q) - 24;
               scaled = (\<lambda>e. (p * 2 ^ nat (- e), q * 2 ^ nat e));
               e = (case scaled e of (n, d) \<Rightarrow> if n < 2 ^ 24 * d then e else e + 1);
               (n, d) = scaled e;
               m = n div d;
               r = n mod d;
               m = (if 2 * r < d then m else if d < 2 * r then m + 1 else if even m then m else m + 1)
           in (m * 2 ^ nat e, 2 ^ nat (- e)))"

definition dirty_limit_reached :: "cache_config \<Rightarrow> u32 \<Rightarrow> bool" where
  "dirty_limit_reached cfg dirty =
     (let (dn, dd) = f32 (unat dirty) 1;
          (ln, ld) = f32 (get_num_lines cfg) 1;
          (qn, qd) = f32 (dn * ld) (dd * ln);
          (pn, pd) = f32 (qn * 100) qd;
          (wn, wd) = f32 (cc_wr_percent cfg) 1
      in wn * pd \<le> pn * wd)"

subsection \<open>Probing\<close>

text \<open>
  One way of the scan: either the result of the whole probe, or the candidates so far, which are
  the last invalid line, the replacement victim, its time stamp, and whether every line was
  reserved or protected.
\<close>

type_synonym candidates = "nat option \<times> nat option \<times> nat \<times> bool"

definition candidate_time :: "cache_config \<Rightarrow> cache_block \<Rightarrow> nat" where
  "candidate_time cfg line =
     (case cc_replacement_policy cfg of LRU \<Rightarrow> get_last_access_time line | FIFO \<Rightarrow> get_alloc_time line)"

definition consider_way ::
  "cache_config \<Rightarrow> u32 \<Rightarrow> nat \<Rightarrow> cache_block \<Rightarrow> candidates \<Rightarrow> candidates" where
  "consider_way cfg dirty index line cand =
     (let (invalid_line, valid_line, valid_timestamp, all_reserved) = cand
      in if \<not> is_reserved_line line \<and> (\<not> is_modified_line line \<or> dirty_limit_reached cfg dirty)
         then if is_invalid_line line then (Some index, valid_line, valid_timestamp, False)
              else if candidate_time cfg line < valid_timestamp
              then (invalid_line, Some index, candidate_time cfg line, False)
              else (invalid_line, valid_line, valid_timestamp, False)
         else cand)"

definition tag_match :: "nat set \<Rightarrow> bool \<Rightarrow> cache_block \<Rightarrow> cache_request_status option option" where
  "tag_match smask is_write line = do {
     st \<leftarrow> get_status smask line;
     (case st of
        RESERVED \<Rightarrow> Some (Some HIT_RESERVED)
      | VALID \<Rightarrow> Some (Some HIT)
      | MODIFIED \<Rightarrow> do {
          readable \<leftarrow> is_readable smask line;
          Some (Some (if (\<not> is_write \<and> readable) \<or> is_write then HIT else SECTOR_MISS))
        }
      | INVALID \<Rightarrow> Some (if is_valid_line line then Some SECTOR_MISS else None))
   }"

fun probe_ways ::
  "cache_config \<Rightarrow> tag_array \<Rightarrow> u64 \<Rightarrow> nat set \<Rightarrow> bool \<Rightarrow> nat list \<Rightarrow> candidates \<Rightarrow>
   (cache_request_status \<times> nat option) option" where
  "probe_ways cfg t tg smask is_write [] cand =
     (let (invalid_line, valid_line, valid_timestamp, all_reserved) = cand
      in if all_reserved
         then do { cassert (cc_alloc_policy cfg = ON_MISS); Some (RESERVATION_FAIL, None) }
         else case invalid_line of
                Some idx \<Rightarrow> Some (MISS, Some idx)
              | None \<Rightarrow> (case valid_line of Some idx \<Rightarrow> Some (MISS, Some idx) | None \<Rightarrow> None))"
| "probe_ways cfg t tg smask is_write (index # rest) cand =
     (let line = ta_lines t ! index
      in do {
           m \<leftarrow> (if cb_tag line = tg then tag_match smask is_write line else Some None);
           (case m of
              Some st \<Rightarrow> Some (st, Some index)
            | None \<Rightarrow> probe_ways cfg t tg smask is_write rest
                (consider_way cfg (ta_dirty t) index line cand))
         })"

definition set_ways :: "cache_config \<Rightarrow> nat \<Rightarrow> nat list" where
  "set_ways cfg s = map (\<lambda>way. s * cc_assoc cfg + way) [0..<cc_assoc cfg]"

definition tag_probe ::
  "cache_config \<Rightarrow> tag_array \<Rightarrow> u64 \<Rightarrow> nat set \<Rightarrow> bool \<Rightarrow>
   (cache_request_status \<times> nat option) option" where
  "tag_probe cfg t addr smask is_write = do {
     s \<leftarrow> set_index cfg addr;
     probe_ways cfg t (tag cfg addr) smask is_write (set_ways cfg s) (None, None, 4294967295, True)
   }"

subsection \<open>Accesses\<close>

definition upd_line :: "nat \<Rightarrow> (cache_block \<Rightarrow> cache_block option) \<Rightarrow> tag_array \<Rightarrow> tag_array option" where
  "upd_line i f t = do {
     b \<leftarrow> f (ta_lines t ! i);
     Some (t\<lparr>ta_lines := (ta_lines t)[i := b]\<rparr>)
   }"

text \<open>
  The result is the status, the index \<^verbatim>\<open>idx\<close> refers to afterwards, and the evicted block when
  a dirty line was replaced (\<^verbatim>\<open>wb\<close>).
\<close>

definition tag_access ::
  "cache_config \<Rightarrow> u64 \<Rightarrow> nat \<Rightarrow> nat option \<Rightarrow> mem_fetch \<Rightarrow> tag_array \<Rightarrow>
   (cache_request_status \<times> nat option \<times> evicted_block_info option \<times> tag_array) option" where
  "tag_access cfg addr time idx mf t = do {
     let t = t\<lparr>ta_access := ta_access t + 1, ta_is_used := True\<rparr>;
     let smask = get_access_sector_mask mf;
     (status, pidx) \<leftarrow> tag_probe cfg t addr smask (get_is_write mf);
     let idx = (case pidx of None \<Rightarrow> idx | Some i \<Rightarrow> Some i);
     (case status of
        HIT_RESERVED \<Rightarrow> do {
          i \<leftarrow> idx;
          t \<leftarrow> upd_line i (set_last_access_time time smask)
                 (t\<lparr>ta_pending_hit := ta_pending_hit t + 1\<rparr>);
          Some (status, idx, None, t)
        }
      | HIT \<Rightarrow> do {
          i \<leftarrow> idx;
          t \<leftarrow> upd_line i (set_last_access_time time smask) t;
          Some (status, idx, None, t)
        }
      | MISS \<Rightarrow> do {
          i \<leftarrow> idx;
          let t = t\<lparr>ta_miss := ta_miss t + 1\<rparr>;
          if cc_alloc_policy cfg = ON_MISS then do {
            let line = ta_lines t ! i;
            let dirty = is_modified_line line;
            let evicted = (if dirty
              then Some \<lparr>ev_block_addr = cb_block_addr line, ev_modified_size = get_modified_size line,
                         ev_byte_mask = get_dirty_byte_mask line,
                         ev_sector_mask = get_dirty_sector_mask line\<rparr>
              else None);
            t \<leftarrow> upd_line i (allocate (tag cfg addr) (block_addr cfg addr) time smask)
                   (if dirty then dec_dirty t else t);
            Some (status, idx, evicted, t)
          } else Some (status, idx, None, t)
        }
      | SECTOR_MISS \<Rightarrow> do {
          i \<leftarrow> idx;
          cassert (cc_cache_type cfg = SECTOR);
          let t = t\<lparr>ta_sector_miss := ta_sector_miss t + 1\<rparr>;
          if cc_alloc_policy cfg = ON_MISS then do {
            let was_dirty = is_modified_line (ta_lines t ! i);
            t \<leftarrow> upd_line i (allocate_sector time smask) t;
            Some (status, idx, None,
              if was_dirty \<and> \<not> is_modified_line (ta_lines t ! i) then dec_dirty t else t)
          } else Some (status, idx, None, t)
        }
      | RESERVATION_FAIL \<Rightarrow> Some (status, idx, None, t\<lparr>ta_res_fail := ta_res_fail t + 1\<rparr>)
      | _ \<Rightarrow> None)
   }"

text \<open>The overload without the eviction arguments asserts that nothing dirty was evicted.\<close>

definition tag_access_clean ::
  "cache_config \<Rightarrow> u64 \<Rightarrow> nat \<Rightarrow> nat option \<Rightarrow> mem_fetch \<Rightarrow> tag_array \<Rightarrow>
   (cache_request_status \<times> nat option \<times> tag_array) option" where
  "tag_access_clean cfg addr time idx mf t = do {
     (status, idx, evicted, t) \<leftarrow> tag_access cfg addr time idx mf t;
     cassert (evicted = None);
     Some (status, idx, t)
   }"

subsection \<open>Fills\<close>

definition track_dirty :: "bool \<Rightarrow> nat \<Rightarrow> tag_array \<Rightarrow> tag_array" where
  "track_dirty was_dirty i t =
     (let after = is_modified_line (ta_lines t ! i)
      in if after \<and> \<not> was_dirty then inc_dirty t
         else if was_dirty \<and> \<not> after then dec_dirty t else t)"

definition fill_index ::
  "cache_config \<Rightarrow> nat \<Rightarrow> nat \<Rightarrow> nat set \<Rightarrow> nat set \<Rightarrow> tag_array \<Rightarrow> tag_array option" where
  "fill_index cfg i time smask byte_mask t = do {
     cassert (cc_alloc_policy cfg = ON_MISS);
     let was_dirty = is_modified_line (ta_lines t ! i);
     t \<leftarrow> upd_line i (block_fill time smask byte_mask) t;
     Some (track_dirty was_dirty i t)
   }"

definition fill_addr ::
  "cache_config \<Rightarrow> u64 \<Rightarrow> nat \<Rightarrow> nat set \<Rightarrow> nat set \<Rightarrow> bool \<Rightarrow> tag_array \<Rightarrow> tag_array option" where
  "fill_addr cfg addr time smask byte_mask is_write t = do {
     (status, idx) \<leftarrow> tag_probe cfg t addr smask is_write;
     if status = RESERVATION_FAIL then Some t
     else do {
       i \<leftarrow> idx;
       let was_dirty = is_modified_line (ta_lines t ! i);
       t \<leftarrow> (if status = MISS
             then upd_line i (allocate (tag cfg addr) (block_addr cfg addr) time smask) t
             else if status = SECTOR_MISS
             then do { cassert (cc_cache_type cfg = SECTOR); upd_line i (allocate_sector time smask) t }
             else Some t);
       let t = (if was_dirty \<and> \<not> is_modified_line (ta_lines t ! i) then dec_dirty t else t);
       let was_dirty = is_modified_line (ta_lines t ! i);
       t \<leftarrow> upd_line i (block_fill time smask byte_mask) t;
       Some (track_dirty was_dirty i t)
     }
   }"

subsection \<open>Flush, invalidation, windows\<close>

text \<open>Every sector of the line is set, one after the other, through a mask with one bit.\<close>

definition invalidate_block :: "cache_block \<Rightarrow> cache_block option" where
  "invalidate_block b = run_ops (\<lambda>b j. set_status INVALID {j} b) b [0..<SECTOR_CHUNCK_SIZE]"

definition flush :: "cache_config \<Rightarrow> tag_array \<Rightarrow> tag_array option" where
  "flush cfg t =
     (if \<not> ta_is_used t then Some t
      else do {
        t \<leftarrow> run_ops (\<lambda>t i. if is_modified_line (ta_lines t ! i) then upd_line i invalidate_block t else Some t)
               t [0..<get_num_lines cfg];
        Some (t\<lparr>ta_dirty := 0, ta_is_used := False\<rparr>)
      })"

definition invalidate :: "cache_config \<Rightarrow> tag_array \<Rightarrow> tag_array option" where
  "invalidate cfg t =
     (if \<not> ta_is_used t then Some t
      else do {
        t \<leftarrow> run_ops (\<lambda>t i. upd_line i invalidate_block t) t [0..<get_num_lines cfg];
        Some (t\<lparr>ta_dirty := 0, ta_is_used := False\<rparr>)
      })"

definition new_window :: "tag_array \<Rightarrow> tag_array" where
  "new_window t = t\<lparr>ta_prev_snapshot_access := ta_access t,
     ta_prev_snapshot_miss := ta_miss t + ta_sector_miss t,
     ta_prev_snapshot_pending_hit := ta_pending_hit t\<rparr>"

text \<open>The windowed miss rate, as numerator and denominator; it is 0 without accesses.\<close>

definition windowed_miss_rate :: "tag_array \<Rightarrow> (nat \<times> nat) option" where
  "windowed_miss_rate t =
     (let n_access = ta_access t - ta_prev_snapshot_access t;
          n_miss = (ta_miss t + ta_sector_miss t) - ta_prev_snapshot_miss t
      in if n_access \<noteq> 0 then Some (n_miss + ta_sector_miss t, n_access) else None)"

definition get_stats :: "tag_array \<Rightarrow> nat \<times> nat \<times> nat \<times> nat" where
  "get_stats t = (ta_access t, ta_miss t + ta_sector_miss t, ta_pending_hit t, ta_res_fail t)"

end
