(* ===== verification/Tag_Array_Props.thy ===== *)
theory Tag_Array_Props
  imports Tag_Array
begin

section \<open>Correctness of the tag array\<close>

text \<open>
  A block is abstracted to its tag and the list of its states, one per line or one per sector. On
  that view every operation of a block is one update of the list, so the lemmas below hold for
  both implementations.
\<close>

subsection \<open>Blocks as state lists\<close>

named_theorems block_simps

definition statuses :: "cache_block \<Rightarrow> cache_block_state list" where
  "statuses b = (case cb_impl b of Line l \<Rightarrow> [lb_status l] | Sectors s \<Rightarrow> map sec_status (sb_sectors s))"

definition block_ok :: "cache_type \<Rightarrow> cache_block \<Rightarrow> bool" where
  "block_ok ct b = (case cb_impl b of Line l \<Rightarrow> ct = NORMAL
     | Sectors s \<Rightarrow> ct = SECTOR \<and> length (sb_sectors s) = SECTOR_CHUNCK_SIZE)"

text \<open>The position of a sector in the list of states.\<close>

definition slot :: "cache_type \<Rightarrow> nat set \<Rightarrow> nat" where
  "slot ct smask = (case ct of NORMAL \<Rightarrow> 0 | SECTOR \<Rightarrow> the (get_sector_index smask))"

definition slots :: "cache_type \<Rightarrow> nat" where
  "slots ct = (case ct of NORMAL \<Rightarrow> 1 | SECTOR \<Rightarrow> SECTOR_CHUNCK_SIZE)"

definition one_sector :: "nat set \<Rightarrow> bool" where
  "one_sector smask \<longleftrightarrow> get_sector_index smask \<noteq> None"

lemma get_sector_index_less: "get_sector_index smask = Some i \<Longrightarrow> i < SECTOR_CHUNCK_SIZE \<and> i \<in> smask"
proof -
  assume "get_sector_index smask = Some i"
  then have "filter (\<lambda>i. i \<in> smask) [0..<SECTOR_CHUNCK_SIZE] = [i]"
    by (auto simp: get_sector_index_def split: list.splits)
  then have "i \<in> set (filter (\<lambda>i. i \<in> smask) [0..<SECTOR_CHUNCK_SIZE])" by simp
  then show ?thesis by simp
qed

lemma slot_less: "one_sector smask \<Longrightarrow> slot ct smask < slots ct"
  by (cases ct) (auto simp: slot_def slots_def one_sector_def dest: get_sector_index_less)

lemma length_statuses [block_simps]: "block_ok ct b \<Longrightarrow> length (statuses b) = slots ct"
  by (auto simp: block_ok_def statuses_def slots_def split: block_impl.splits)

lemma line_state_iff [block_simps]:
  "is_reserved_line b \<longleftrightarrow> RESERVED \<in> set (statuses b)"
  "is_modified_line b \<longleftrightarrow> MODIFIED \<in> set (statuses b)"
  "is_invalid_line b \<longleftrightarrow> set (statuses b) \<subseteq> {INVALID}"
  by (force simp: is_reserved_line_def is_modified_line_def is_invalid_line_def statuses_def
      split: block_impl.splits)+

lemma upd_sector_Some:
  "one_sector smask \<Longrightarrow> upd_sector smask f s = Some (s\<lparr>sb_sectors :=
     (sb_sectors s)[the (get_sector_index smask) := f (sb_sectors s ! the (get_sector_index smask))]\<rparr>)"
  by (auto simp: upd_sector_def one_sector_def)

lemma get_status_Some [block_simps]:
  "\<lbrakk>block_ok ct b; one_sector smask\<rbrakk> \<Longrightarrow> get_status smask b = Some (statuses b ! slot ct smask)"
  by (auto simp: get_status_def block_ok_def statuses_def slot_def one_sector_def
      dest: get_sector_index_less split: block_impl.splits)

lemma is_readable_Some [block_simps]:
  "\<lbrakk>block_ok ct b; one_sector smask\<rbrakk> \<Longrightarrow> \<exists>r. is_readable smask b = Some r"
  by (auto simp: is_readable_def block_ok_def one_sector_def split: block_impl.splits)

text \<open>
  What an operation of a block keeps and changes: the tag stays, the access time is the old one
  or the time of the operation, and the only state of a line block stays readable.
\<close>

definition all_readable :: "cache_block \<Rightarrow> bool" where
  "all_readable b = (case cb_impl b of Line l \<Rightarrow> lb_readable l | Sectors s \<Rightarrow> True)"

definition line_effect :: "cache_type \<Rightarrow> nat \<Rightarrow> cache_block \<Rightarrow> cache_block \<Rightarrow> bool" where
  "line_effect ct time b b' \<longleftrightarrow> block_ok ct b' \<and> cb_tag b' = cb_tag b \<and> cb_block_addr b' = cb_block_addr b \<and>
     get_last_access_time b' \<in> {time, get_last_access_time b} \<and> get_alloc_time b' = get_alloc_time b \<and>
     (all_readable b \<longrightarrow> all_readable b')"

definition status_upd :: "cache_type \<Rightarrow> nat \<Rightarrow> cache_block \<Rightarrow> nat \<Rightarrow> cache_block_state \<Rightarrow> cache_block \<Rightarrow> bool" where
  "status_upd ct time b i st b' \<longleftrightarrow> line_effect ct time b b' \<and> statuses b' = (statuses b)[i := st]"

definition same_states :: "cache_type \<Rightarrow> nat \<Rightarrow> (cache_block \<Rightarrow> cache_block option) \<Rightarrow> bool" where
  "same_states ct time f \<longleftrightarrow> (\<forall>b. block_ok ct b \<longrightarrow>
     (\<exists>b'. f b = Some b' \<and> line_effect ct time b b' \<and> statuses b' = statuses b))"

lemma set_updateD: "x \<in> set (xs[i := y]) \<Longrightarrow> x \<in> set xs \<or> (x = y \<and> i < length xs)"
  by (cases "i < length xs") (auto simp: list_update_beyond dest: set_update_subset_insert [THEN subsetD])

lemmas block_effects = line_effect_def block_ok_def statuses_def all_readable_def
  get_last_access_time_def get_alloc_time_def

lemma set_status_ok:
  "\<lbrakk>block_ok ct b; one_sector smask\<rbrakk> \<Longrightarrow>
   \<exists>b'. set_status st smask b = Some b' \<and> status_upd ct time b (slot ct smask) st b'"
  by (auto simp: set_status_def line_op_def upd_sector_Some status_upd_def block_effects
      slot_def map_update one_sector_def dest: get_sector_index_less
      split: block_impl.splits)

lemma block_fill_ok:
  "\<lbrakk>block_ok ct b; one_sector smask\<rbrakk> \<Longrightarrow>
   \<exists>b' st. block_fill time smask byte_mask b = Some b' \<and> st \<in> {VALID, MODIFIED} \<and>
     status_upd ct time b (slot ct smask) st b'"
  by (auto simp: block_fill_def line_op_def upd_sector_Some status_upd_def block_effects
      slot_def map_update one_sector_def dest: get_sector_index_less
      split: block_impl.splits)

lemma block_allocate_ok:
  "\<lbrakk>block_ok ct b; one_sector smask; all_readable b\<rbrakk> \<Longrightarrow>
   \<exists>b'. allocate tg ba time smask b = Some b' \<and> block_ok ct b' \<and> cb_tag b' = tg \<and> cb_block_addr b' = ba \<and>
     statuses b' = (replicate (slots ct) INVALID)[slot ct smask := RESERVED] \<and>
     get_last_access_time b' = time \<and> get_alloc_time b' = time \<and> all_readable b'"
  by (auto simp: allocate_def line_op_def upd_sector_Some block_effects sector_init_def
      slot_def slots_def map_update new_sector_def one_sector_def dest: get_sector_index_less
      split: block_impl.splits)

lemma allocate_sector_ok:
  assumes "block_ok SECTOR b" "one_sector smask" "\<not> is_invalid_line b"
  shows "\<exists>b'. allocate_sector time smask b = Some b' \<and> status_upd SECTOR time b (slot SECTOR smask) RESERVED b'"
proof -
  obtain s where s: "cb_impl b = Sectors s" "length (sb_sectors s) = SECTOR_CHUNCK_SIZE"
    using assms(1) by (auto simp: block_ok_def split: block_impl.splits)
  have "is_valid_line b" using assms(3) s(1) by (simp add: is_valid_line_def)
  then show ?thesis using s assms(2)
    by (auto simp: allocate_sector_def line_op_def upd_sector_Some status_upd_def block_effects
        slot_def map_update one_sector_def dest: get_sector_index_less)
qed

lemma flag_update_ok:
  assumes "block_ok ct b" "one_sector smask"
    "\<And>x. sec_status (g x) = sec_status x" "ct = SECTOR \<or> (\<forall>l. lb_readable l \<longrightarrow> lb_readable (f l))"
    "\<And>l. lb_status (f l) = lb_status l"
    "\<And>l. lb_last_access_time (f l) \<in> {time, lb_last_access_time l}" "\<And>l. lb_alloc_time (f l) = lb_alloc_time l"
  shows "\<exists>b'. line_op f (upd_sector smask g) b = Some b' \<and> line_effect ct time b b' \<and> statuses b' = statuses b"
  using assms by (auto simp: line_op_def upd_sector_Some block_effects one_sector_def
      dest: get_sector_index_less split: block_impl.splits
      intro!: map_update_nth_same [where g = g])

lemma set_last_access_time_same:
  "one_sector smask \<Longrightarrow> same_states ct time (set_last_access_time time smask)"
  by (auto simp: same_states_def set_last_access_time_def line_op_def upd_sector_Some block_effects
      one_sector_def dest: get_sector_index_less split: block_impl.splits
      intro!: map_update_nth_same [where g = "\<lambda>x. x\<lparr>sec_last_access_time := time\<rparr>"])

lemma same_states_flags:
  assumes "one_sector smask"
  shows "same_states ct time (set_ignore_on_fill v smask)"
    "same_states ct time (set_modified_on_fill v smask)"
    "same_states ct time (set_readable_on_fill v smask)"
    "ct = SECTOR \<or> v \<Longrightarrow> same_states ct time (set_m_readable v smask)"
  using assms
  by (auto simp: same_states_def set_ignore_on_fill_def set_modified_on_fill_def
      set_readable_on_fill_def set_m_readable_def intro!: flag_update_ok)

lemma same_states_masks:
  "same_states ct time (\<lambda>b. Some (set_byte_mask m b))"
  "same_states ct time (\<lambda>b. Some (set_byte_mask_on_fill v b))"
  by (auto simp: same_states_def set_byte_mask_def set_byte_mask_on_fill_def block_effects
      split: block_impl.splits)

subsection \<open>Probing\<close>

definition evictable :: "cache_config \<Rightarrow> u32 \<Rightarrow> cache_block \<Rightarrow> bool" where
  "evictable cfg dirty b \<longleftrightarrow> \<not> is_reserved_line b \<and> (\<not> is_modified_line b \<or> dirty_limit_reached cfg dirty)"

text \<open>The line a tag hits in: the tag agrees and the line is not empty.\<close>

definition holds_tag :: "u64 \<Rightarrow> cache_block \<Rightarrow> bool" where
  "holds_tag tg b \<longleftrightarrow> cb_tag b = tg \<and> \<not> is_invalid_line b"

definition match_status :: "cache_type \<Rightarrow> nat set \<Rightarrow> bool \<Rightarrow> cache_block \<Rightarrow> cache_request_status" where
  "match_status ct smask is_write b =
     (case statuses b ! slot ct smask of
        RESERVED \<Rightarrow> HIT_RESERVED | VALID \<Rightarrow> HIT | INVALID \<Rightarrow> SECTOR_MISS
      | MODIFIED \<Rightarrow> if is_write \<or> is_readable smask b = Some True then HIT else SECTOR_MISS)"

lemma tag_match_Some:
  assumes "block_ok ct b" "one_sector smask"
  shows "tag_match smask is_write b =
    Some (if is_invalid_line b then None else Some (match_status ct smask is_write b))"
proof -
  have len: "slot ct smask < length (statuses b)"
    using slot_less [OF assms(2)] assms(1) by (simp add: block_simps)
  then have mem: "statuses b ! slot ct smask \<in> set (statuses b)" by simp
  obtain r where r: "is_readable smask b = Some r" using is_readable_Some [OF assms] by blast
  show ?thesis
  proof (cases "statuses b ! slot ct smask = INVALID")
    case True
    then have "is_valid_line b \<longleftrightarrow> \<not> is_invalid_line b"
      using assms by (auto simp: is_valid_line_def block_ok_def is_invalid_line_def statuses_def slot_def
          split: block_impl.splits)
    then show ?thesis using True by (simp add: tag_match_def get_status_Some [OF assms] match_status_def)
  next
    case False
    then have "\<not> is_invalid_line b" using mem by (auto simp: block_simps)
    then show ?thesis using False r
      by (cases "statuses b ! slot ct smask")
         (auto simp: tag_match_def get_status_Some [OF assms] match_status_def)
  qed
qed

definition consider_all :: "cache_config \<Rightarrow> tag_array \<Rightarrow> nat list \<Rightarrow> candidates \<Rightarrow> candidates" where
  "consider_all cfg t ways = fold (\<lambda>i. consider_way cfg (ta_dirty t) i (ta_lines t ! i)) ways"

lemma probe_ways_find:
  assumes "one_sector smask" "\<forall>i \<in> set ways. block_ok ct (ta_lines t ! i)"
  shows "probe_ways cfg t tg smask w ways cand =
    (case find (\<lambda>i. holds_tag tg (ta_lines t ! i)) ways of
       Some i \<Rightarrow> Some (match_status ct smask w (ta_lines t ! i), Some i)
     | None \<Rightarrow> probe_ways cfg t tg smask w [] (consider_all cfg t ways cand))"
  using assms(2)
proof (induction ways arbitrary: cand)
  case Nil
  show ?case by (simp add: consider_all_def)
next
  case (Cons a ways)
  let ?b = "ta_lines t ! a"
  have m: "(if cb_tag ?b = tg then tag_match smask w ?b else Some None) =
      Some (if holds_tag tg ?b then Some (match_status ct smask w ?b) else None)"
    using Cons.prems by (auto simp: holds_tag_def tag_match_Some [where ct = ct, OF _ assms(1)])
  show ?case
  proof (cases "holds_tag tg ?b")
    case True
    then show ?thesis unfolding probe_ways.simps(2) Let_def m by simp
  next
    case False
    then show ?thesis using Cons.IH Cons.prems
      unfolding probe_ways.simps(2) Let_def m by (simp add: consider_all_def del: probe_ways.simps(1) split: option.split)
  qed
qed

text \<open>What the scan over the ways found.\<close>

definition open_ways :: "cache_config \<Rightarrow> tag_array \<Rightarrow> nat list \<Rightarrow> nat list" where
  "open_ways cfg t ways = filter (\<lambda>i. evictable cfg (ta_dirty t) (ta_lines t ! i)) ways"

definition empty_ways :: "cache_config \<Rightarrow> tag_array \<Rightarrow> nat list \<Rightarrow> nat list" where
  "empty_ways cfg t ways = filter (\<lambda>i. is_invalid_line (ta_lines t ! i)) (open_ways cfg t ways)"

definition used_ways :: "cache_config \<Rightarrow> tag_array \<Rightarrow> nat list \<Rightarrow> nat list" where
  "used_ways cfg t ways = filter (\<lambda>i. \<not> is_invalid_line (ta_lines t ! i)) (open_ways cfg t ways)"

abbreviation way_time :: "cache_config \<Rightarrow> tag_array \<Rightarrow> nat \<Rightarrow> nat" where
  "way_time cfg t i \<equiv> candidate_time cfg (ta_lines t ! i)"

text \<open>The first of the ways with the least time stamp.\<close>

definition oldest :: "cache_config \<Rightarrow> tag_array \<Rightarrow> nat list \<Rightarrow> nat \<Rightarrow> bool" where
  "oldest cfg t ways v \<longleftrightarrow> (\<exists>pre post. ways = pre @ v # post \<and>
     (\<forall>i \<in> set pre. way_time cfg t v < way_time cfg t i) \<and>
     (\<forall>i \<in> set post. way_time cfg t v \<le> way_time cfg t i))"

definition scan_result :: "cache_config \<Rightarrow> tag_array \<Rightarrow> nat list \<Rightarrow> candidates \<Rightarrow> bool" where
  "scan_result cfg t ways cand = (case cand of (iv, vl, ts, ar) \<Rightarrow>
     (ar \<longleftrightarrow> open_ways cfg t ways = []) \<and>
     iv = (if empty_ways cfg t ways = [] then None else Some (last (empty_ways cfg t ways))) \<and>
     (case vl of
        None \<Rightarrow> ts = 4294967295 \<and> (\<forall>i \<in> set (used_ways cfg t ways). 4294967295 \<le> way_time cfg t i)
      | Some v \<Rightarrow> ts = way_time cfg t v \<and> ts < 4294967295 \<and> oldest cfg t (used_ways cfg t ways) v))"

lemma oldest_snoc_keep: "oldest cfg t ways v \<Longrightarrow> way_time cfg t v \<le> way_time cfg t x \<Longrightarrow> oldest cfg t (ways @ [x]) v"
  unfolding oldest_def
  by (elim exE conjE, rule_tac x = pre in exI, rule_tac x = "post @ [x]" in exI) auto

lemma oldest_snoc_new: "\<forall>i \<in> set ways. way_time cfg t x < way_time cfg t i \<Longrightarrow> oldest cfg t (ways @ [x]) x"
  unfolding oldest_def by (rule exI [of _ ways], rule exI [of _ "[]"]) simp

lemma oldest_least: "oldest cfg t ways v \<Longrightarrow> i \<in> set ways \<Longrightarrow> way_time cfg t v \<le> way_time cfg t i"
  by (fastforce simp: oldest_def)

lemma oldest_in: "oldest cfg t ways v \<Longrightarrow> v \<in> set ways"
  by (auto simp: oldest_def)

lemma consider_way_evictable:
  "consider_way cfg dirty i b (iv, vl, ts, ar) =
     (if \<not> evictable cfg dirty b then (iv, vl, ts, ar)
      else if is_invalid_line b then (Some i, vl, ts, False)
      else if candidate_time cfg b < ts then (iv, Some i, candidate_time cfg b, False)
      else (iv, vl, ts, False))"
  by (simp add: consider_way_def evictable_def)

lemma scan_ways:
  "scan_result cfg t ways (consider_all cfg t ways (None, None, 4294967295, True))"
proof (induction ways rule: rev_induct)
  case Nil
  then show ?case
    by (simp add: scan_result_def consider_all_def open_ways_def empty_ways_def used_ways_def)
next
  case (snoc x ways)
  obtain iv vl ts ar where c: "consider_all cfg t ways (None, None, 4294967295, True) = (iv, vl, ts, ar)"
    by (cases "consider_all cfg t ways (None, None, 4294967295, True)") auto
  have step: "consider_all cfg t (ways @ [x]) (None, None, 4294967295, True) =
      consider_way cfg (ta_dirty t) x (ta_lines t ! x) (iv, vl, ts, ar)"
    using c by (simp add: consider_all_def)
  have ih: "scan_result cfg t ways (iv, vl, ts, ar)" using snoc.IH c by simp
  let ?b = "ta_lines t ! x"
  have snocs: "open_ways cfg t (ways @ [x]) = open_ways cfg t ways @ (if evictable cfg (ta_dirty t) ?b then [x] else [])"
    "empty_ways cfg t (ways @ [x]) = empty_ways cfg t ways @
       (if evictable cfg (ta_dirty t) ?b \<and> is_invalid_line ?b then [x] else [])"
    "used_ways cfg t (ways @ [x]) = used_ways cfg t ways @
       (if evictable cfg (ta_dirty t) ?b \<and> \<not> is_invalid_line ?b then [x] else [])"
    by (simp_all add: open_ways_def empty_ways_def used_ways_def)
  note way = step consider_way_evictable
  consider (shut) "\<not> evictable cfg (ta_dirty t) ?b" | (empty) "evictable cfg (ta_dirty t) ?b" "is_invalid_line ?b"
    | (used) "evictable cfg (ta_dirty t) ?b" "\<not> is_invalid_line ?b" by blast
  then show ?case
  proof cases
    case shut
    then show ?thesis using ih by (simp add: way scan_result_def snocs split: option.splits)
  next
    case empty
    then show ?thesis using ih by (simp add: way scan_result_def snocs split: option.splits)
  next
    case used
    show ?thesis
    proof (cases "way_time cfg t x < ts")
      case True
      have "\<forall>i \<in> set (used_ways cfg t ways). way_time cfg t x < way_time cfg t i"
        using True ih by (fastforce simp: scan_result_def split: option.splits dest: oldest_least)
      moreover have "way_time cfg t x < 4294967295"
        using True ih by (auto simp: scan_result_def split: option.splits)
      ultimately show ?thesis using ih used True
        by (simp add: way scan_result_def snocs oldest_snoc_new)
    next
      case False
      then show ?thesis using ih used
        by (auto simp: way scan_result_def snocs split: option.splits intro: oldest_snoc_keep)
    qed
  qed
qed

subsection \<open>The invariant\<close>

text \<open>
  The configurations the invariant is about: lines are allocated on a miss, every address has a
  set, and the set only depends on the line of the address.
\<close>

definition cache_cfg_ok :: "cache_config \<Rightarrow> bool" where
  "cache_cfg_ok cfg \<longleftrightarrow> cc_alloc_policy cfg = ON_MISS \<and> 0 < cc_assoc cfg \<and>
     (\<forall>a. set_index cfg a \<noteq> None \<and> set_index cfg (tag cfg a) = set_index cfg a)"

definition home :: "cache_config \<Rightarrow> u64 \<Rightarrow> nat \<Rightarrow> bool" where
  "home cfg a i \<longleftrightarrow> (\<exists>s. set_index cfg a = Some s \<and> i \<in> set (set_ways cfg s))"

definition modified_count :: "cache_block list \<Rightarrow> nat" where
  "modified_count ls = length (filter is_modified_line ls)"

definition line_placed :: "cache_config \<Rightarrow> nat \<Rightarrow> cache_block \<Rightarrow> bool" where
  "line_placed cfg i b \<longleftrightarrow> is_invalid_line b \<or>
     (tag cfg (cb_tag b) = cb_tag b \<and> cb_block_addr b = cb_tag b \<and> home cfg (cb_tag b) i)"

definition line_fine :: "cache_config \<Rightarrow> cache_block \<Rightarrow> bool" where
  "line_fine cfg b \<longleftrightarrow> block_ok (cc_cache_type cfg) b \<and> all_readable b \<and>
     get_last_access_time b < 4294967295 \<and> get_alloc_time b < 4294967295"

definition unique_tags :: "cache_block list \<Rightarrow> nat \<Rightarrow> bool" where
  "unique_tags ls n \<longleftrightarrow> (\<forall>i < n. \<forall>j < n. \<not> is_invalid_line (ls ! i) \<longrightarrow> \<not> is_invalid_line (ls ! j) \<longrightarrow>
     cb_tag (ls ! i) = cb_tag (ls ! j) \<longrightarrow> i = j)"

definition tags_ok :: "cache_config \<Rightarrow> tag_array \<Rightarrow> bool" where
  "tags_ok cfg t \<longleftrightarrow>
     get_num_lines cfg \<le> length (ta_lines t) \<and> length (ta_lines t) < 2 ^ 32 \<and>
     (\<forall>b \<in> set (ta_lines t). line_fine cfg b) \<and>
     (\<forall>i < get_num_lines cfg. line_placed cfg i (ta_lines t ! i)) \<and>
     unique_tags (ta_lines t) (get_num_lines cfg) \<and>
     ta_dirty t = of_nat (modified_count (ta_lines t))"

lemma set_index_less: "set_index cfg a = Some s \<Longrightarrow> s < cc_nset cfg"
  by (auto simp: set_index_def hash_function_def bind_eq_Some_conv)

lemma set_ways_less: "s < cc_nset cfg \<Longrightarrow> i \<in> set (set_ways cfg s) \<Longrightarrow> i < get_num_lines cfg"
proof -
  assume s: "s < cc_nset cfg" and "i \<in> set (set_ways cfg s)"
  then obtain w where "w < cc_assoc cfg" "i = s * cc_assoc cfg + w"
    unfolding set_ways_def set_map by (elim imageE) simp
  then have "i < (s + 1) * cc_assoc cfg" by simp
  also have "\<dots> \<le> cc_nset cfg * cc_assoc cfg" using s by (intro mult_le_mono1) simp
  finally show ?thesis by (simp add: get_num_lines_def)
qed

lemma home_less: "home cfg a i \<Longrightarrow> i < get_num_lines cfg"
  by (auto simp: home_def intro: set_ways_less set_index_less)

lemma tag_tag [simp]: "tag cfg (tag cfg a) = tag cfg a"
  by (simp add: tag_def and.assoc)

lemma block_addr_tag: "block_addr cfg a = tag cfg a"
  by (simp add: block_addr_def tag_def)

lemma home_tag: "cache_cfg_ok cfg \<Longrightarrow> home cfg (tag cfg a) i = home cfg a i"
  by (simp add: home_def cache_cfg_ok_def)

lemma modified_count_update:
  assumes "i < length ls"
  shows "modified_count (ls[i := b]) + of_bool (is_modified_line (ls ! i)) =
    modified_count ls + of_bool (is_modified_line b)"
  using assms
proof (induction ls arbitrary: i)
  case (Cons a ls)
  show ?case
  proof (cases i)
    case (Suc j)
    then show ?thesis using Cons.IH [of j] Cons.prems by (simp add: modified_count_def)
  qed (simp add: modified_count_def)
qed simp

text \<open>Replacing one line keeps the invariant when the new line is in its place and counted.\<close>

lemma tags_ok_update:
  assumes ok: "tags_ok cfg t" and i: "i < get_num_lines cfg"
    and b: "line_fine cfg b" "line_placed cfg i b"
    and alone: "is_invalid_line b \<or> (\<forall>j < get_num_lines cfg. j \<noteq> i \<longrightarrow> \<not> holds_tag (cb_tag b) (ta_lines t ! j))"
    and t': "ta_lines t' = (ta_lines t)[i := b]"
      "ta_dirty t' + of_bool (is_modified_line (ta_lines t ! i)) = ta_dirty t + of_bool (is_modified_line b)"
  shows "tags_ok cfg t'"
proof -
  have len: "i < length (ta_lines t)" using ok i by (simp add: tags_ok_def)
  have "unique_tags (ta_lines t') (get_num_lines cfg)"
    unfolding unique_tags_def
  proof (intro allI impI)
    fix j k
    assume jk: "j < get_num_lines cfg" "k < get_num_lines cfg" "\<not> is_invalid_line (ta_lines t' ! j)"
      "\<not> is_invalid_line (ta_lines t' ! k)" "cb_tag (ta_lines t' ! j) = cb_tag (ta_lines t' ! k)"
    have old: "\<not> is_invalid_line (ta_lines t ! j) \<Longrightarrow> \<not> is_invalid_line (ta_lines t ! k) \<Longrightarrow>
        cb_tag (ta_lines t ! j) = cb_tag (ta_lines t ! k) \<Longrightarrow> j = k"
      using ok jk(1,2) by (simp add: tags_ok_def unique_tags_def)
    show "j = k" using jk alone len old by (cases "j = i"; cases "k = i") (simp_all add: t'(1) holds_tag_def)
  qed
  moreover have "\<forall>j < get_num_lines cfg. line_placed cfg j (ta_lines t' ! j)"
    using ok b(2) len by (auto simp: tags_ok_def t'(1) nth_list_update)
  moreover have "\<forall>x \<in> set (ta_lines t'). line_fine cfg x"
    using ok b(1) by (auto simp: tags_ok_def t'(1) dest!: set_updateD)
  moreover have "ta_dirty t' = of_nat (modified_count (ta_lines t'))"
  proof -
    have "of_nat (modified_count (ta_lines t')) + of_bool (is_modified_line (ta_lines t ! i)) =
        (of_nat (modified_count (ta_lines t)) + of_bool (is_modified_line b) :: u32)"
      using arg_cong [OF modified_count_update [OF len, of b], of of_nat]
      by (simp add: t'(1))
    then show ?thesis using t'(2) ok by (simp add: tags_ok_def) (metis add_right_cancel)
  qed
  ultimately show ?thesis using ok by (simp add: tags_ok_def t'(1))
qed

end
