(* ===== verification/Data_Cache.thy ===== *)
theory Data_Cache
  imports Tag_Array Mshr
begin

section \<open>Cache controllers\<close>

text \<open>
  Models \<^verbatim>\<open>baseline_cache\<close>, \<^verbatim>\<open>read_only_cache\<close>, \<^verbatim>\<open>data_cache\<close> and
  \<^verbatim>\<open>l2_cache\<close> of \<^verbatim>\<open>src/gpgpu-sim/gpu-cache.cc\<close> on top of the tag array and the MSHR
  table. Requests are shared objects that the code mutates, so a \<^verbatim>\<open>mem_fetch *\<close> is a key of
  the store \<open>dc_heap\<close>; \<open>dc_next\<close> is the key of the next \<open>new\<close>. The event list an access
  gets by reference is the field \<open>dc_events\<close>. Statistics, request status and stream
  identifiers are left out.
\<close>

subsection \<open>State\<close>

datatype cache_event_type =
    WRITE_BACK_REQUEST_SENT | READ_REQUEST_SENT | WRITE_REQUEST_SENT | WRITE_ALLOCATE_SENT

record cache_event =
  ce_type :: cache_event_type
  ce_evicted_block :: evicted_block_info

definition event :: "cache_event_type \<Rightarrow> cache_event" where
  "event ty = \<lparr>ce_type = ty, ce_evicted_block = no_evicted\<rparr>"

record extra_mf_fields =
  ex_block_addr :: u64
  ex_addr :: u64
  ex_cache_index :: "nat option"
  ex_data_size :: nat
  ex_pending_read :: u32

definition extra_of :: "cache_config \<Rightarrow> u64 \<Rightarrow> u64 \<Rightarrow> nat option \<Rightarrow> nat \<Rightarrow> extra_mf_fields" where
  "extra_of cfg a ad i d =
     \<lparr>ex_block_addr = a, ex_addr = ad, ex_cache_index = i, ex_data_size = d,
      ex_pending_read = (if cc_mshr_type cfg = SECTOR_ASSOC then of_nat (cc_line_sz cfg div SECTOR_SIZE) else 0)\<rparr>"

text \<open>
  The write-allocate and write-back access types are constructor arguments of the L1 and L2
  caches; \<open>cp_tlx\<close> is the chip and sub-partition the constructor of a request decodes.
\<close>

record cache_params =
  cp_config :: cache_config
  cp_wr_alloc_type :: mem_access_type
  cp_wrbk_type :: mem_access_type
  cp_tlx :: "u64 \<Rightarrow> nat \<times> nat"

record data_cache =
  dc_tags :: tag_array
  dc_mshrs :: "nat mshr_table"
  dc_miss_queue :: "nat list"
  dc_extra :: "nat \<Rightarrow> extra_mf_fields option"
  dc_data_port :: nat
  dc_fill_port :: nat
  dc_events :: "cache_event list"
  dc_heap :: "nat \<Rightarrow> mem_fetch option"
  dc_next :: nat

definition data_cache_new :: "cache_params \<Rightarrow> nat \<Rightarrow> data_cache" where
  "data_cache_new p multiplier =
     \<lparr>dc_tags = tag_array_new (cp_config p) multiplier,
      dc_mshrs = mshr_init (cc_mshr_entries (cp_config p)) (cc_mshr_max_merge (cp_config p)),
      dc_miss_queue = [], dc_extra = (\<lambda>_. None), dc_data_port = 0, dc_fill_port = 0,
      dc_events = [], dc_heap = (\<lambda>_. None), dc_next = 0\<rparr>"

text \<open>The assertions of the constructors, on the MSHR type and the write policy.\<close>

definition data_cache_create :: "cache_params \<Rightarrow> nat \<Rightarrow> data_cache option" where
  "data_cache_create p multiplier = do {
     cassert (cc_mshr_type (cp_config p) = ASSOC \<or> cc_mshr_type (cp_config p) = SECTOR_ASSOC);
     cassert (cc_write_policy (cp_config p) \<noteq> READ_ONLY);
     Some (data_cache_new p multiplier)
   }"

text \<open>A changed configuration must keep the parameters of the MSHR table.\<close>

definition update_cache_parameters :: "cache_config \<Rightarrow> cache_params \<Rightarrow> data_cache \<Rightarrow> cache_params option" where
  "update_cache_parameters config p s = do {
     cassert (mt_num_entries (dc_mshrs s) = cc_mshr_entries config);
     cassert (mt_max_merged (dc_mshrs s) = cc_mshr_max_merge config);
     Some (p\<lparr>cp_config := config\<rparr>)
   }"

definition new_mf :: "mem_fetch \<Rightarrow> data_cache \<Rightarrow> nat \<times> data_cache" where
  "new_mf mf s = (dc_next s, s\<lparr>dc_heap := (dc_heap s)(dc_next s := Some mf), dc_next := dc_next s + 1\<rparr>)"

definition miss_queue_full :: "cache_params \<Rightarrow> nat \<Rightarrow> data_cache \<Rightarrow> bool" where
  "miss_queue_full p num_miss s \<longleftrightarrow> cc_miss_queue_size (cp_config p) \<le> length (dc_miss_queue s) + num_miss"

definition was_sent :: "cache_event_type \<Rightarrow> cache_event list \<Rightarrow> bool" where
  "was_sent ty events = list_ex (\<lambda>e. ce_type e = ty) events"

definition was_writeback_sent :: "cache_event list \<Rightarrow> cache_event option" where
  "was_writeback_sent events = find (\<lambda>e. ce_type e = WRITE_BACK_REQUEST_SENT) events"

subsection \<open>Ports\<close>

definition use_data_port :: "cache_params \<Rightarrow> mem_fetch \<Rightarrow> cache_request_status \<Rightarrow> data_cache \<Rightarrow> data_cache option" where
  "use_data_port p mf outcome s =
     (let port_width = cc_data_port_width (cp_config p)
      in case outcome of
           HIT \<Rightarrow> Some (s\<lparr>dc_data_port := dc_data_port s + (mf_data_size mf div port_width +
                    (if mf_data_size mf mod port_width > 0 then 1 else 0))\<rparr>)
         | HIT_RESERVED \<Rightarrow> Some (case was_writeback_sent (dc_events s) of None \<Rightarrow> s
             | Some ev \<Rightarrow> s\<lparr>dc_data_port := dc_data_port s + ev_modified_size (ce_evicted_block ev) div port_width\<rparr>)
         | MISS \<Rightarrow> Some (case was_writeback_sent (dc_events s) of None \<Rightarrow> s
             | Some ev \<Rightarrow> s\<lparr>dc_data_port := dc_data_port s + ev_modified_size (ce_evicted_block ev) div port_width\<rparr>)
         | SECTOR_MISS \<Rightarrow> Some s
         | RESERVATION_FAIL \<Rightarrow> Some s
         | MSHR_HIT \<Rightarrow> None)"

definition use_fill_port :: "cache_params \<Rightarrow> data_cache \<Rightarrow> data_cache" where
  "use_fill_port p s = s\<lparr>dc_fill_port := dc_fill_port s +
     cc_atom_sz (cp_config p) div cc_data_port_width (cp_config p)\<rparr>"

definition replenish_port_bandwidth :: "data_cache \<Rightarrow> data_cache" where
  "replenish_port_bandwidth s =
     s\<lparr>dc_data_port := dc_data_port s - 1, dc_fill_port := dc_fill_port s - 1\<rparr>"

definition data_port_free :: "data_cache \<Rightarrow> bool" where "data_port_free s = (dc_data_port s = 0)"

definition fill_port_free :: "data_cache \<Rightarrow> bool" where "fill_port_free s = (dc_fill_port s = 0)"

text \<open>The port below is an argument: whether it is full for a size and direction.\<close>

definition advance_miss_queue ::
  "(nat \<Rightarrow> bool \<Rightarrow> bool) \<Rightarrow> data_cache \<Rightarrow> (nat option \<times> data_cache) option" where
  "advance_miss_queue port_full s =
     (case dc_miss_queue s of
        [] \<Rightarrow> Some (None, s)
      | mid # rest \<Rightarrow> do {
          mf \<leftarrow> dc_heap s mid;
          Some (if \<not> port_full (mf_size mf) (get_is_write mf)
                then (Some mid, s\<lparr>dc_miss_queue := rest\<rparr>) else (None, s))
        })"

definition cache_cycle ::
  "(nat \<Rightarrow> bool \<Rightarrow> bool) \<Rightarrow> data_cache \<Rightarrow> (nat option \<times> data_cache) option" where
  "cache_cycle port_full s = do {
     (sent, s) \<leftarrow> advance_miss_queue port_full s;
     Some (sent, replenish_port_bandwidth s)
   }"

subsection \<open>Fills\<close>

text \<open>
  The three statements that mark a block as written: count the line if it was clean, set the
  status, add the bytes.
\<close>

definition mark_modified :: "nat \<Rightarrow> mem_fetch \<Rightarrow> tag_array \<Rightarrow> tag_array option" where
  "mark_modified i mf t = do {
     let t = (if \<not> is_modified_line (ta_lines t ! i) then inc_dirty t else t);
     t \<leftarrow> upd_line i (set_status MODIFIED (get_access_sector_mask mf)) t;
     upd_line i (\<lambda>b. Some (set_byte_mask (get_access_byte_mask mf) b)) t
   }"

text \<open>
  With \<open>SECTOR_ASSOC\<close> a request is answered by one response per sector; the last one stands for
  the original request. \<open>None\<close> in the result is the null pointer.
\<close>

definition collect_sectors :: "cache_params \<Rightarrow> nat \<Rightarrow> data_cache \<Rightarrow> (nat option \<times> data_cache) option" where
  "collect_sectors p mid s =
     (if cc_mshr_type (cp_config p) = SECTOR_ASSOC then do {
        mf \<leftarrow> dc_heap s mid;
        orig \<leftarrow> mf_original_mf mf;
        e \<leftarrow> dc_extra s orig;
        let e = e\<lparr>ex_pending_read := ex_pending_read e - 1\<rparr>;
        let s = s\<lparr>dc_extra := (dc_extra s)(orig := Some e), dc_heap := (dc_heap s)(mid := None)\<rparr>;
        Some (if ex_pending_read e > 0 then None else Some orig, s)
      } else Some (Some mid, s))"

definition fill_cache_state :: "cache_params \<Rightarrow> nat \<Rightarrow> nat \<Rightarrow> data_cache \<Rightarrow> (nat option \<times> data_cache) option" where
  "fill_cache_state p mid time s = do {
     let cfg = cp_config p;
     (whole, s) \<leftarrow> collect_sectors p mid s;
     (case whole of
        None \<Rightarrow> Some (None, s)
      | Some mid \<Rightarrow> do {
          e \<leftarrow> dc_extra s mid;
          mf \<leftarrow> dc_heap s mid;
          let mf = set_addr (ex_addr e) (mf\<lparr>mf_data_size := ex_data_size e\<rparr>);
          let s = s\<lparr>dc_heap := (dc_heap s)(mid := Some mf)\<rparr>;
          t \<leftarrow> (case cc_alloc_policy cfg of
                  ON_MISS \<Rightarrow> do {
                    i \<leftarrow> ex_cache_index e;
                    fill_index cfg i time (get_access_sector_mask mf) (get_access_byte_mask mf) (dc_tags s)
                  }
                | ON_FILL \<Rightarrow> fill_addr cfg (ex_block_addr e) time (get_access_sector_mask mf)
                    (get_access_byte_mask mf) (get_is_write mf) (dc_tags s)
                | STREAMING \<Rightarrow> None);
          (has_atomic, mshrs) \<leftarrow> mark_ready (ex_block_addr e) (dc_mshrs s);
          t \<leftarrow> (if has_atomic then do {
                  cassert (cc_alloc_policy cfg = ON_MISS);
                  i \<leftarrow> ex_cache_index e;
                  mark_modified i mf t
                } else Some t);
          Some (Some mid, s\<lparr>dc_tags := t, dc_mshrs := mshrs, dc_extra := (dc_extra s)(mid := None)\<rparr>)
        })
   }"

definition cache_fill :: "cache_params \<Rightarrow> nat \<Rightarrow> nat \<Rightarrow> data_cache \<Rightarrow> data_cache option" where
  "cache_fill p mid time s = do {
     (filled_mf, s) \<leftarrow> fill_cache_state p mid time s;
     Some (if filled_mf \<noteq> None then use_fill_port p s else s)
   }"

definition waiting_for_fill :: "nat \<Rightarrow> data_cache \<Rightarrow> bool" where
  "waiting_for_fill mid s \<longleftrightarrow> dc_extra s mid \<noteq> None"

definition force_tag_access :: "cache_params \<Rightarrow> u64 \<Rightarrow> nat \<Rightarrow> nat set \<Rightarrow> data_cache \<Rightarrow> data_cache option" where
  "force_tag_access p addr time smask s = do {
     t \<leftarrow> fill_addr (cp_config p) addr time smask {} True (dc_tags s);
     Some (s\<lparr>dc_tags := t\<rparr>)
   }"

definition cache_flush :: "cache_params \<Rightarrow> data_cache \<Rightarrow> data_cache option" where
  "cache_flush p s = map_option (\<lambda>t. s\<lparr>dc_tags := t\<rparr>) (flush (cp_config p) (dc_tags s))"

definition cache_invalidate :: "cache_params \<Rightarrow> data_cache \<Rightarrow> data_cache option" where
  "cache_invalidate p s = map_option (\<lambda>t. s\<lparr>dc_tags := t\<rparr>) (invalidate (cp_config p) (dc_tags s))"

definition next_ready_access :: "data_cache \<Rightarrow> (nat \<times> data_cache) option" where
  "next_ready_access s = do {
     ((b, mid), mshrs) \<leftarrow> next_access (dc_mshrs s);
     Some (mid, s\<lparr>dc_mshrs := mshrs\<rparr>)
   }"

subsection \<open>Requests to the level below\<close>

definition read_access_tags ::
  "cache_params \<Rightarrow> u64 \<Rightarrow> nat option \<Rightarrow> mem_fetch \<Rightarrow> nat \<Rightarrow> bool \<Rightarrow> data_cache \<Rightarrow>
   (nat option \<times> evicted_block_info option \<times> data_cache) option" where
  "read_access_tags p baddr idx mf time read_only s =
     (if read_only then do {
        (st, idx, t) \<leftarrow> tag_access_clean (cp_config p) baddr time idx mf (dc_tags s);
        Some (idx, None, s\<lparr>dc_tags := t\<rparr>)
      } else do {
        (st, idx, evicted, t) \<leftarrow> tag_access (cp_config p) baddr time idx mf (dc_tags s);
        Some (idx, evicted, s\<lparr>dc_tags := t\<rparr>)
      })"

text \<open>The result is \<^verbatim>\<open>do_miss\<close> and the evicted dirty block, if there is one (\<^verbatim>\<open>wb\<close>).\<close>

definition send_read_request ::
  "cache_params \<Rightarrow> u64 \<Rightarrow> nat option \<Rightarrow> nat \<Rightarrow> nat \<Rightarrow> bool \<Rightarrow> bool \<Rightarrow> data_cache \<Rightarrow>
   (bool \<times> evicted_block_info option \<times> data_cache) option" where
  "send_read_request p baddr idx mid time read_only wa s = do {
     let cfg = cp_config p;
     mf \<leftarrow> dc_heap s mid;
     let maddr = mshr_addr cfg (get_addr mf);
     let mshr_hit = probe maddr (dc_mshrs s);
     let mshr_avail = (\<not> full maddr (dc_mshrs s));
     if ready_forward_eligible (dc_mshrs s) maddr wa (mf_atomic mf) then do {
       mshrs \<leftarrow> add_ready maddr mid (dc_mshrs s);
       Some (True, None, s\<lparr>dc_mshrs := mshrs\<rparr>)
     } else if mshr_hit \<and> mshr_avail then do {
       (idx, evicted, s) \<leftarrow> read_access_tags p baddr idx mf time read_only s;
       mshrs \<leftarrow> add maddr mid (mf_atomic mf) (dc_mshrs s);
       Some (True, evicted, s\<lparr>dc_mshrs := mshrs\<rparr>)
     } else if \<not> mshr_hit \<and> mshr_avail \<and> length (dc_miss_queue s) < cc_miss_queue_size cfg then do {
       (idx, evicted, s) \<leftarrow> read_access_tags p baddr idx mf time read_only s;
       mshrs \<leftarrow> add maddr mid (mf_atomic mf) (dc_mshrs s);
       Some (True, evicted, s\<lparr>dc_mshrs := mshrs,
         dc_extra := (dc_extra s)(mid := Some (extra_of cfg maddr (get_addr mf) idx (mf_data_size mf))),
         dc_heap := (dc_heap s)(mid := Some (set_addr maddr (mf\<lparr>mf_data_size := cc_atom_sz cfg\<rparr>))),
         dc_miss_queue := dc_miss_queue s @ [mid],
         dc_events := dc_events s @ (if wa then [] else [event READ_REQUEST_SENT])\<rparr>)
     } else if (mshr_hit \<and> \<not> mshr_avail) \<or> probe_ready maddr (dc_mshrs s) then Some (False, None, s)
     else if \<not> mshr_hit \<and> \<not> mshr_avail then Some (False, None, s)
     else None
   }"

definition send_write_request :: "nat \<Rightarrow> cache_event \<Rightarrow> data_cache \<Rightarrow> data_cache" where
  "send_write_request mid request s =
     s\<lparr>dc_events := dc_events s @ [request], dc_miss_queue := dc_miss_queue s @ [mid]\<rparr>"

definition WRITE_PACKET_SIZE :: nat where "WRITE_PACKET_SIZE = 8"

text \<open>
  The block that writes an evicted dirty line back, shared by the miss handlers; the request goes
  to the chip of the access that evicted the line.
\<close>

definition write_back ::
  "cache_params \<Rightarrow> mem_fetch \<Rightarrow> evicted_block_info option \<Rightarrow> cache_event \<Rightarrow> data_cache \<Rightarrow> data_cache" where
  "write_back p mf wb request s =
     (case wb of
        Some evicted \<Rightarrow>
          if cc_write_policy (cp_config p) \<noteq> WRITE_THROUGH
          then (case new_mf
                  \<lparr>mf_access = \<lparr>ma_type = cp_wrbk_type p, ma_addr = ev_block_addr evicted,
                     ma_req_size = ev_modified_size evicted, ma_write = True,
                     ma_warp_mask = ma_warp_mask (mf_access mf), ma_byte_mask = ev_byte_mask evicted,
                     ma_sector_mask = ev_sector_mask evicted\<rparr>,
                   mf_data_size = ev_modified_size evicted, mf_ctrl_size = WRITE_PACKET_SIZE,
                   mf_atomic = False, mf_chip = mf_chip mf, mf_sub_partition = mf_sub_partition mf,
                   mf_original_mf = None, mf_original_wr_mf = None\<rparr> s of
                (mid, s) \<Rightarrow> send_write_request mid request s)
          else s
      | None \<Rightarrow> s)"

definition wb_event :: "evicted_block_info option \<Rightarrow> cache_event" where
  "wb_event wb = \<lparr>ce_type = WRITE_BACK_REQUEST_SENT,
     ce_evicted_block = (case wb of None \<Rightarrow> no_evicted | Some e \<Rightarrow> e)\<rparr>"

definition update_m_readable :: "mem_fetch \<Rightarrow> nat \<Rightarrow> tag_array \<Rightarrow> tag_array option" where
  "update_m_readable mf i t =
     run_ops (\<lambda>t k.
        if k \<in> get_access_sector_mask mf \<and>
           list_all (\<lambda>b. b \<in> get_dirty_byte_mask (ta_lines t ! i)) [k * SECTOR_SIZE..<(k + 1) * SECTOR_SIZE]
        then upd_line i (set_m_readable True (get_access_sector_mask mf)) t else Some t)
       t [0..<SECTOR_CHUNCK_SIZE]"

subsection \<open>Write hits\<close>

text \<open>
  A handler gets the probed index by value, the request by its key, and returns the status of
  the access.
\<close>

type_synonym outcome = "(cache_request_status \<times> data_cache) option"

definition write_line ::
  "cache_params \<Rightarrow> u64 \<Rightarrow> nat option \<Rightarrow> nat \<Rightarrow> nat \<Rightarrow> data_cache \<Rightarrow> data_cache option" where
  "write_line p addr idx mid time s = do {
     mf \<leftarrow> dc_heap s mid;
     (st, idx, t) \<leftarrow> tag_access_clean (cp_config p) (block_addr (cp_config p) addr) time idx mf (dc_tags s);
     i \<leftarrow> idx;
     t \<leftarrow> mark_modified i mf t;
     t \<leftarrow> update_m_readable mf i t;
     Some (s\<lparr>dc_tags := t\<rparr>)
   }"

definition wr_hit_wb :: "cache_params \<Rightarrow> u64 \<Rightarrow> nat option \<Rightarrow> nat \<Rightarrow> nat \<Rightarrow> data_cache \<Rightarrow> outcome" where
  "wr_hit_wb p addr idx mid time s = do {
     s \<leftarrow> write_line p addr idx mid time s;
     Some (HIT, s)
   }"

definition wr_hit_wt :: "cache_params \<Rightarrow> u64 \<Rightarrow> nat option \<Rightarrow> nat \<Rightarrow> nat \<Rightarrow> data_cache \<Rightarrow> outcome" where
  "wr_hit_wt p addr idx mid time s =
     (if miss_queue_full p 0 s then Some (RESERVATION_FAIL, s)
      else do {
        s \<leftarrow> write_line p addr idx mid time s;
        Some (HIT, send_write_request mid (event WRITE_REQUEST_SENT) s)
      })"

definition wr_hit_we :: "cache_params \<Rightarrow> u64 \<Rightarrow> nat option \<Rightarrow> nat \<Rightarrow> nat \<Rightarrow> data_cache \<Rightarrow> outcome" where
  "wr_hit_we p addr idx mid time s =
     (if miss_queue_full p 0 s then Some (RESERVATION_FAIL, s)
      else do {
        mf \<leftarrow> dc_heap s mid;
        i \<leftarrow> idx;
        let s = send_write_request mid (event WRITE_REQUEST_SENT) s;
        t \<leftarrow> upd_line i (set_status INVALID (get_access_sector_mask mf)) (dc_tags s);
        Some (HIT, s\<lparr>dc_tags := t\<rparr>)
      })"

definition wr_hit_global_we_local_wb ::
  "cache_params \<Rightarrow> u64 \<Rightarrow> nat option \<Rightarrow> nat \<Rightarrow> nat \<Rightarrow> data_cache \<Rightarrow> outcome" where
  "wr_hit_global_we_local_wb p addr idx mid time s = do {
     mf \<leftarrow> dc_heap s mid;
     if get_access_type mf = GLOBAL_ACC_W then wr_hit_we p addr idx mid time s
     else wr_hit_wb p addr idx mid time s
   }"

subsection \<open>Write misses\<close>

definition mshr_ready_for :: "cache_params \<Rightarrow> u64 \<Rightarrow> data_cache \<Rightarrow> bool" where
  "mshr_ready_for p maddr s \<longleftrightarrow>
     \<not> full maddr (dc_mshrs s) \<and>
     (probe maddr (dc_mshrs s) \<or> length (dc_miss_queue s) < cc_miss_queue_size (cp_config p))"

text \<open>
  What the two allocating handlers do when they find no room: the failure reason is a statistic,
  but one of the reasons must apply.
\<close>

definition no_room :: "cache_params \<Rightarrow> nat \<Rightarrow> u64 \<Rightarrow> data_cache \<Rightarrow> outcome" where
  "no_room p num_miss maddr s =
     (if miss_queue_full p num_miss s \<or> full maddr (dc_mshrs s) then Some (RESERVATION_FAIL, s) else None)"

definition write_alloc_mf :: "cache_params \<Rightarrow> mem_fetch \<Rightarrow> nat option \<Rightarrow> mem_fetch" where
  "write_alloc_mf p mf original_wr =
     \<lparr>mf_access = (mf_access mf)\<lparr>ma_type := cp_wr_alloc_type p,
        ma_req_size := cc_atom_sz (cp_config p), ma_write := False\<rparr>,
      mf_data_size = cc_atom_sz (cp_config p), mf_ctrl_size = mf_ctrl_size mf, mf_atomic = False,
      mf_chip = fst (cp_tlx p (get_addr mf)), mf_sub_partition = snd (cp_tlx p (get_addr mf)),
      mf_original_mf = None, mf_original_wr_mf = original_wr\<rparr>"

definition wr_miss_wa_naive ::
  "cache_params \<Rightarrow> u64 \<Rightarrow> nat option \<Rightarrow> nat \<Rightarrow> nat \<Rightarrow> cache_request_status \<Rightarrow> data_cache \<Rightarrow> outcome" where
  "wr_miss_wa_naive p addr idx mid time status s = do {
     let cfg = cp_config p;
     mf \<leftarrow> dc_heap s mid;
     let maddr = mshr_addr cfg (get_addr mf);
     if miss_queue_full p 2 s \<or> \<not> mshr_ready_for p maddr s then no_room p 2 maddr s
     else do {
       let s = send_write_request mid (event WRITE_REQUEST_SENT) s;
       let (n_id, s) = new_mf (write_alloc_mf p mf None) s;
       (do_miss, wb, s) \<leftarrow> send_read_request p (block_addr cfg addr) idx n_id time False True s;
       let s = s\<lparr>dc_events := dc_events s @ [event WRITE_ALLOCATE_SENT]\<rparr>;
       if do_miss then do {
         cassert (wb \<noteq> None \<and> cc_write_policy cfg \<noteq> WRITE_THROUGH \<longrightarrow> status = MISS);
         Some (MISS, write_back p mf wb (wb_event wb) s)
       } else Some (RESERVATION_FAIL, s)
     }
   }"

definition wr_miss_wa_fetch_on_write ::
  "cache_params \<Rightarrow> u64 \<Rightarrow> nat option \<Rightarrow> nat \<Rightarrow> nat \<Rightarrow> cache_request_status \<Rightarrow> data_cache \<Rightarrow> outcome" where
  "wr_miss_wa_fetch_on_write p addr idx mid time status s = do {
     let cfg = cp_config p;
     mf \<leftarrow> dc_heap s mid;
     let baddr = block_addr cfg addr;
     let maddr = mshr_addr cfg (get_addr mf);
     if card (get_access_byte_mask mf) = cc_atom_sz cfg then
       (if miss_queue_full p 0 s then Some (RESERVATION_FAIL, s)
        else do {
          (st, idx, wb, t) \<leftarrow> tag_access cfg baddr time idx mf (dc_tags s);
          cassert (st \<noteq> HIT);
          i \<leftarrow> idx;
          t \<leftarrow> mark_modified i mf t;
          t \<leftarrow> (if st = HIT_RESERVED then upd_line i (set_ignore_on_fill True (get_access_sector_mask mf)) t
                else Some t);
          let s = s\<lparr>dc_tags := t\<rparr>;
          if st \<noteq> RESERVATION_FAIL then Some (MISS, write_back p mf wb (wb_event wb) s)
          else Some (RESERVATION_FAIL, s)
        })
     else if miss_queue_full p 1 s \<or> \<not> mshr_ready_for p maddr s then no_room p 1 maddr s
     else do {
       let hit = probe maddr (dc_mshrs s);
       let (pending, mshrs) =
         (if hit then is_read_after_write_pending (\<lambda>k. case dc_heap s k of None \<Rightarrow> False | Some m \<Rightarrow> get_is_write m)
                        maddr (dc_mshrs s)
          else (False, dc_mshrs s));
       let s = s\<lparr>dc_mshrs := mshrs\<rparr>;
       if hit \<and> pending \<and> get_is_write mf then Some (RESERVATION_FAIL, s)
       else do {
         let (n_id, s) = new_mf (write_alloc_mf p mf (Some mid)) s;
         (do_miss, wb, s) \<leftarrow> send_read_request p baddr idx n_id time False True s;
         i \<leftarrow> idx;
         t \<leftarrow> upd_line i (set_modified_on_fill True (get_access_sector_mask mf)) (dc_tags s);
         t \<leftarrow> upd_line i (\<lambda>b. Some (set_byte_mask_on_fill True b)) t;
         let s = s\<lparr>dc_tags := t, dc_events := dc_events s @ [event WRITE_ALLOCATE_SENT]\<rparr>;
         if do_miss then Some (MISS, write_back p mf wb (wb_event wb) s)
         else Some (RESERVATION_FAIL, s)
       }
     }
   }"

definition wr_miss_wa_lazy_fetch_on_read ::
  "cache_params \<Rightarrow> u64 \<Rightarrow> nat option \<Rightarrow> nat \<Rightarrow> nat \<Rightarrow> cache_request_status \<Rightarrow> data_cache \<Rightarrow> outcome" where
  "wr_miss_wa_lazy_fetch_on_read p addr idx mid time status s = do {
     let cfg = cp_config p;
     mf \<leftarrow> dc_heap s mid;
     let smask = get_access_sector_mask mf;
     if miss_queue_full p 0 s then Some (RESERVATION_FAIL, s)
     else do {
       let s = (if cc_write_policy cfg = WRITE_THROUGH
                then send_write_request mid (event WRITE_REQUEST_SENT) s else s);
       (m_status, idx, wb, t) \<leftarrow> tag_access cfg (block_addr cfg addr) time idx mf (dc_tags s);
       cassert (m_status \<noteq> HIT);
       i \<leftarrow> idx;
       t \<leftarrow> mark_modified i mf t;
       t \<leftarrow> (if m_status = HIT_RESERVED then do {
               t \<leftarrow> upd_line i (set_ignore_on_fill True smask) t;
               t \<leftarrow> upd_line i (set_modified_on_fill True smask) t;
               upd_line i (\<lambda>b. Some (set_byte_mask_on_fill True b)) t
             } else Some t);
       t \<leftarrow> (if card (get_access_byte_mask mf) = cc_atom_sz cfg
             then upd_line i (set_m_readable True smask) t
             else do {
               t \<leftarrow> upd_line i (set_m_readable False smask) t;
               if m_status = HIT_RESERVED then upd_line i (set_readable_on_fill True smask) t else Some t
             });
       t \<leftarrow> update_m_readable mf i t;
       let s = s\<lparr>dc_tags := t\<rparr>;
       if m_status \<noteq> RESERVATION_FAIL then Some (MISS, write_back p mf wb (wb_event wb) s)
       else Some (RESERVATION_FAIL, s)
     }
   }"

definition wr_miss_no_wa :: "cache_params \<Rightarrow> nat \<Rightarrow> data_cache \<Rightarrow> outcome" where
  "wr_miss_no_wa p mid s =
     (if miss_queue_full p 0 s then Some (RESERVATION_FAIL, s)
      else Some (MISS, send_write_request mid (event WRITE_REQUEST_SENT) s))"

subsection \<open>Reads\<close>

definition rd_hit_base :: "cache_params \<Rightarrow> u64 \<Rightarrow> nat option \<Rightarrow> nat \<Rightarrow> nat \<Rightarrow> data_cache \<Rightarrow> outcome" where
  "rd_hit_base p addr idx mid time s = do {
     mf \<leftarrow> dc_heap s mid;
     (st, idx, t) \<leftarrow> tag_access_clean (cp_config p) (block_addr (cp_config p) addr) time idx mf (dc_tags s);
     t \<leftarrow> (if mf_atomic mf then do {
             cassert (get_access_type mf = GLOBAL_ACC_R);
             i \<leftarrow> idx;
             mark_modified i mf t
           } else Some t);
     Some (HIT, s\<lparr>dc_tags := t\<rparr>)
   }"

text \<open>Unlike the write misses, the event of the write-back carries no block.\<close>

definition rd_miss_base :: "cache_params \<Rightarrow> u64 \<Rightarrow> nat option \<Rightarrow> nat \<Rightarrow> nat \<Rightarrow> data_cache \<Rightarrow> outcome" where
  "rd_miss_base p addr idx mid time s =
     (if miss_queue_full p 1 s then Some (RESERVATION_FAIL, s)
      else do {
        mf \<leftarrow> dc_heap s mid;
        (do_miss, wb, s) \<leftarrow> send_read_request p (block_addr (cp_config p) addr) idx mid time False False s;
        mf \<leftarrow> dc_heap s mid;
        if do_miss then Some (MISS, write_back p mf wb (event WRITE_BACK_REQUEST_SENT) s)
        else Some (RESERVATION_FAIL, s)
      })"

definition read_only_access :: "cache_params \<Rightarrow> u64 \<Rightarrow> nat \<Rightarrow> nat \<Rightarrow> data_cache \<Rightarrow> outcome" where
  "read_only_access p addr mid time s = do {
     let cfg = cp_config p;
     mf \<leftarrow> dc_heap s mid;
     cassert (mf_data_size mf \<le> cc_atom_sz cfg);
     cassert (cc_write_policy cfg = READ_ONLY);
     cassert (\<not> get_is_write mf);
     let baddr = block_addr cfg addr;
     (status, idx) \<leftarrow> tag_probe cfg (dc_tags s) baddr (get_access_sector_mask mf) (get_is_write mf);
     if status = HIT then do {
       (st, idx, t) \<leftarrow> tag_access_clean cfg baddr time idx mf (dc_tags s);
       Some (st, s\<lparr>dc_tags := t\<rparr>)
     } else if status \<noteq> RESERVATION_FAIL then
       (if \<not> miss_queue_full p 0 s then do {
          (do_miss, wb, s) \<leftarrow> send_read_request p baddr idx mid time True False s;
          Some (if do_miss then MISS else RESERVATION_FAIL, s)
        } else Some (RESERVATION_FAIL, s))
     else Some (RESERVATION_FAIL, s)
   }"

subsection \<open>Dispatch\<close>

text \<open>The function pointers the constructor sets from the policies.\<close>

definition wr_hit :: "cache_params \<Rightarrow> u64 \<Rightarrow> nat option \<Rightarrow> nat \<Rightarrow> nat \<Rightarrow> data_cache \<Rightarrow> outcome" where
  "wr_hit p = (case cc_write_policy (cp_config p) of
       READ_ONLY \<Rightarrow> (\<lambda>addr idx mid time s. None)
     | WRITE_BACK \<Rightarrow> wr_hit_wb p
     | WRITE_THROUGH \<Rightarrow> wr_hit_wt p
     | WRITE_EVICT \<Rightarrow> wr_hit_we p
     | LOCAL_WB_GLOBAL_WT \<Rightarrow> wr_hit_global_we_local_wb p)"

definition wr_miss ::
  "cache_params \<Rightarrow> u64 \<Rightarrow> nat option \<Rightarrow> nat \<Rightarrow> nat \<Rightarrow> cache_request_status \<Rightarrow> data_cache \<Rightarrow> outcome" where
  "wr_miss p addr idx mid time status s = (case cc_write_alloc_policy (cp_config p) of
       NO_WRITE_ALLOCATE \<Rightarrow> wr_miss_no_wa p mid s
     | WRITE_ALLOCATE \<Rightarrow> wr_miss_wa_naive p addr idx mid time status s
     | FETCH_ON_WRITE \<Rightarrow> wr_miss_wa_fetch_on_write p addr idx mid time status s
     | LAZY_FETCH_ON_READ \<Rightarrow> wr_miss_wa_lazy_fetch_on_read p addr idx mid time status s)"

definition process_tag_probe ::
  "cache_params \<Rightarrow> bool \<Rightarrow> cache_request_status \<Rightarrow> u64 \<Rightarrow> nat option \<Rightarrow> nat \<Rightarrow> nat \<Rightarrow> data_cache \<Rightarrow> outcome" where
  "process_tag_probe p wr probe_status addr idx mid time s =
     (if wr then
        (if probe_status = HIT then wr_hit p addr idx mid time s
         else if probe_status \<noteq> RESERVATION_FAIL \<or> cc_write_alloc_policy (cp_config p) = NO_WRITE_ALLOCATE
         then wr_miss p addr idx mid time probe_status s
         else Some (probe_status, s))
      else
        (if probe_status = HIT then rd_hit_base p addr idx mid time s
         else if probe_status \<noteq> RESERVATION_FAIL then rd_miss_base p addr idx mid time s
         else Some (probe_status, s)))"

definition access_cache_state :: "cache_params \<Rightarrow> u64 \<Rightarrow> nat \<Rightarrow> nat \<Rightarrow> data_cache \<Rightarrow> outcome" where
  "access_cache_state p addr mid time s = do {
     let cfg = cp_config p;
     mf \<leftarrow> dc_heap s mid;
     cassert (mf_data_size mf \<le> cc_atom_sz cfg);
     (probe_status, idx) \<leftarrow> tag_probe cfg (dc_tags s) (block_addr cfg addr) (get_access_sector_mask mf) (get_is_write mf);
     process_tag_probe p (get_is_write mf) probe_status addr idx mid time s
   }"

definition data_cache_access ::
  "cache_params \<Rightarrow> u64 \<Rightarrow> nat \<Rightarrow> nat \<Rightarrow> cache_event list \<Rightarrow> data_cache \<Rightarrow>
   (cache_request_status \<times> cache_event list \<times> data_cache) option" where
  "data_cache_access p addr mid time events s = do {
     (status, s) \<leftarrow> access_cache_state p addr mid time (s\<lparr>dc_events := events\<rparr>);
     mf \<leftarrow> dc_heap s mid;
     s \<leftarrow> use_data_port p mf status s;
     Some (status, dc_events s, s)
   }"

subsection \<open>The L2 with externally accounted ports\<close>

definition l2_probe :: "cache_params \<Rightarrow> u64 \<Rightarrow> mem_fetch \<Rightarrow> data_cache \<Rightarrow> (cache_request_status \<times> nat) option" where
  "l2_probe p addr mf s = do {
     let cfg = cp_config p;
     (status, idx) \<leftarrow> tag_probe cfg (dc_tags s) (block_addr cfg addr) (get_access_sector_mask mf) (get_is_write mf);
     if status = MISS \<and> \<not> (get_is_write mf \<and> cc_write_alloc_policy cfg = NO_WRITE_ALLOCATE) \<and>
        cc_write_policy cfg \<noteq> WRITE_THROUGH
     then do {
       i \<leftarrow> idx;
       let line = ta_lines (dc_tags s) ! i;
       if is_modified_line line then do {
         let sectors = (get_modified_size line + SECTOR_SIZE - 1) div SECTOR_SIZE;
         cassert (sectors > 0);
         Some (status, sectors)
       } else Some (status, 0)
     } else Some (status, 0)
   }"

text \<open>The result holds the deferred write-back and its sectors.\<close>

definition access_multi_issue ::
  "cache_params \<Rightarrow> u64 \<Rightarrow> nat \<Rightarrow> nat \<Rightarrow> cache_event list \<Rightarrow> data_cache \<Rightarrow>
   (cache_request_status \<times> (nat \<times> nat) option \<times> cache_event list \<times> data_cache) option" where
  "access_multi_issue p addr mid time events s = do {
     let queued = length (dc_miss_queue s);
     (status, s) \<leftarrow> access_cache_state p addr mid time (s\<lparr>dc_events := events\<rparr>);
     (case was_writeback_sent (dc_events s) of
        None \<Rightarrow> Some (status, None, dc_events s, s)
      | Some ev \<Rightarrow> do {
          cassert (status \<noteq> RESERVATION_FAIL);
          cassert (queued < length (dc_miss_queue s));
          let wb = last (dc_miss_queue s);
          m \<leftarrow> dc_heap s wb;
          cassert (get_access_type m = L2_WRBK_ACC);
          let bytes = mf_data_size m;
          cassert (0 < bytes \<and> bytes \<le> cc_line_sz (cp_config p));
          cassert (ev_modified_size (ce_evicted_block ev) \<in> {0, bytes});
          Some (status, Some (wb, (bytes + SECTOR_SIZE - 1) div SECTOR_SIZE), dc_events s,
            s\<lparr>dc_miss_queue := butlast (dc_miss_queue s)\<rparr>)
        })
   }"

definition release_deferred_writeback :: "nat \<Rightarrow> data_cache \<Rightarrow> data_cache option" where
  "release_deferred_writeback mid s = do {
     m \<leftarrow> dc_heap s mid;
     cassert (get_access_type m = L2_WRBK_ACC);
     Some (s\<lparr>dc_miss_queue := dc_miss_queue s @ [mid]\<rparr>)
   }"

definition cycle_multi_issue_port_model ::
  "(nat \<Rightarrow> bool \<Rightarrow> bool) \<Rightarrow> data_cache \<Rightarrow> (nat option \<times> data_cache) option" where
  "cycle_multi_issue_port_model port_full s = advance_miss_queue port_full s"

definition fill_multi_issue_port_model :: "cache_params \<Rightarrow> nat \<Rightarrow> nat \<Rightarrow> data_cache \<Rightarrow> data_cache option" where
  "fill_multi_issue_port_model p mid time s = map_option snd (fill_cache_state p mid time s)"

definition l2_ready_read_forward_eligible :: "cache_params \<Rightarrow> mem_fetch \<Rightarrow> data_cache \<Rightarrow> cache_request_status \<Rightarrow> bool" where
  "l2_ready_read_forward_eligible p mf s probe_status =
     (\<not> get_is_write mf \<and> probe_status \<noteq> HIT \<and> probe_status \<noteq> RESERVATION_FAIL \<and>
      ready_forward_eligible (dc_mshrs s) (mshr_addr (cp_config p) (get_addr mf)) False (mf_atomic mf))"

end
