(* ===== verification/Tag_Array_Access.thy ===== *)
theory Tag_Array_Access
  imports Tag_Array_Props Data_Cache
begin

section \<open>Accesses of the tag array\<close>

text \<open>
  What a probe returns and what an access does to the lines, as effects on the state lists; the
  cache controllers are verified on top of these lemmas.
\<close>

subsection \<open>Replacement\<close>

lemma open_ways_in: "i \<in> set (open_ways cfg t ways) \<longleftrightarrow> i \<in> set ways \<and> evictable cfg (ta_dirty t) (ta_lines t ! i)"
  by (auto simp: open_ways_def)

lemma empty_ways_in: "i \<in> set (empty_ways cfg t ways) \<longleftrightarrow> i \<in> set (open_ways cfg t ways) \<and> is_invalid_line (ta_lines t ! i)"
  by (auto simp: empty_ways_def)

lemma used_ways_in: "i \<in> set (used_ways cfg t ways) \<longleftrightarrow> i \<in> set (open_ways cfg t ways) \<and> \<not> is_invalid_line (ta_lines t ! i)"
  by (auto simp: used_ways_def)

lemma probe_end:
  assumes "scan_result cfg t ways cand" "\<forall>i \<in> set ways. way_time cfg t i < 4294967295"
    "cc_alloc_policy cfg = ON_MISS"
  shows "if open_ways cfg t ways = [] then probe_ways cfg t tg smask w [] cand = Some (RESERVATION_FAIL, None)
    else \<exists>v. probe_ways cfg t tg smask w [] cand = Some (MISS, Some v) \<and>
      (if empty_ways cfg t ways \<noteq> [] then v = last (empty_ways cfg t ways) else oldest cfg t (used_ways cfg t ways) v)"
proof -
  obtain iv vl ts ar where c: "cand = (iv, vl, ts, ar)" by (cases cand) auto
  show ?thesis
  proof (cases "open_ways cfg t ways = []")
    case True
    then show ?thesis using assms(1,3) by (simp add: c scan_result_def)
  next
    case False
    have "vl \<noteq> None" if "empty_ways cfg t ways = []"
    proof -
      obtain i where i: "i \<in> set (open_ways cfg t ways)" using False by (cases "open_ways cfg t ways") auto
      then have "i \<in> set (used_ways cfg t ways)" using that by (auto simp: empty_ways_def used_ways_in filter_empty_conv)
      moreover have "way_time cfg t i < 4294967295" using assms(2) i by (simp add: open_ways_in)
      ultimately show ?thesis using assms(1) by (fastforce simp: c scan_result_def split: option.splits)
    qed
    then show ?thesis using False assms(1) by (auto simp: c scan_result_def split: option.splits)
  qed
qed

lemma tag_probe_defined:
  assumes blocks: "\<forall>i \<in> set (set_ways cfg s). block_ok (cc_cache_type cfg) (ta_lines t ! i)"
    and m: "one_sector smask" and s: "set_index cfg addr = Some s"
    and times: "\<forall>i \<in> set (set_ways cfg s). way_time cfg t i < 4294967295" and ap: "cc_alloc_policy cfg = ON_MISS"
  shows "(\<exists>i. find (\<lambda>i. holds_tag (tag cfg addr) (ta_lines t ! i)) (set_ways cfg s) = Some i \<and>
       tag_probe cfg t addr smask w = Some (match_status (cc_cache_type cfg) smask w (ta_lines t ! i), Some i)) \<or>
     (find (\<lambda>i. holds_tag (tag cfg addr) (ta_lines t ! i)) (set_ways cfg s) = None \<and>
       (if open_ways cfg t (set_ways cfg s) = [] then tag_probe cfg t addr smask w = Some (RESERVATION_FAIL, None)
        else \<exists>v. tag_probe cfg t addr smask w = Some (MISS, Some v) \<and>
          (if empty_ways cfg t (set_ways cfg s) \<noteq> [] then v = last (empty_ways cfg t (set_ways cfg s))
           else oldest cfg t (used_ways cfg t (set_ways cfg s)) v)))"
proof -
  note p = probe_ways_find [where tg = "tag cfg addr" and w = w and cand = "(None, None, 4294967295, True)", OF m blocks]
  show ?thesis
  proof (cases "find (\<lambda>i. holds_tag (tag cfg addr) (ta_lines t ! i)) (set_ways cfg s)")
    case None
    then have "tag_probe cfg t addr smask w = probe_ways cfg t (tag cfg addr) smask w []
        (consider_all cfg t (set_ways cfg s) (None, None, 4294967295, True))"
      using p by (simp add: tag_probe_def s del: probe_ways.simps(1))
    then show ?thesis using None probe_end [OF scan_ways times ap] by (simp del: probe_ways.simps(1))
  next
    case (Some i)
    then show ?thesis using p by (simp add: tag_probe_def s)
  qed
qed

text \<open>
  Hits and replacement victims are exact. A probe hits exactly when a line of the set holds the
  tag, with the status of its sector. Otherwise it fails exactly when every line of the set is
  reserved or protected as dirty, and else returns an evictable line: an empty one when there is
  one, and one with the least time stamp otherwise.
\<close>

theorem tag_probe_exact:
  assumes "set_index cfg addr = Some s" "one_sector smask" "cc_alloc_policy cfg = ON_MISS"
    "\<forall>i \<in> set (set_ways cfg s). block_ok (cc_cache_type cfg) (ta_lines t ! i) \<and>
       candidate_time cfg (ta_lines t ! i) < 4294967295"
  shows "\<exists>st idx. tag_probe cfg t addr smask w = Some (st, idx) \<and>
    (if \<exists>i \<in> set (set_ways cfg s). holds_tag (tag cfg addr) (ta_lines t ! i)
     then \<exists>i \<in> set (set_ways cfg s). idx = Some i \<and> holds_tag (tag cfg addr) (ta_lines t ! i) \<and>
       st = match_status (cc_cache_type cfg) smask w (ta_lines t ! i)
     else if \<forall>i \<in> set (set_ways cfg s). is_reserved_line (ta_lines t ! i) \<or>
       (is_modified_line (ta_lines t ! i) \<and> \<not> dirty_limit_reached cfg (ta_dirty t))
     then st = RESERVATION_FAIL \<and> idx = None
     else \<exists>v \<in> set (set_ways cfg s). st = MISS \<and> idx = Some v \<and> evictable cfg (ta_dirty t) (ta_lines t ! v) \<and>
       (is_invalid_line (ta_lines t ! v) \<or>
        (\<forall>i \<in> set (set_ways cfg s). evictable cfg (ta_dirty t) (ta_lines t ! i) \<longrightarrow>
           \<not> is_invalid_line (ta_lines t ! i) \<and>
           candidate_time cfg (ta_lines t ! v) \<le> candidate_time cfg (ta_lines t ! i))))"
proof -
  let ?ways = "set_ways cfg s" and ?tg = "tag cfg addr"
  have "\<forall>i \<in> set ?ways. block_ok (cc_cache_type cfg) (ta_lines t ! i)" "\<forall>i \<in> set ?ways. way_time cfg t i < 4294967295"
    using assms(4) by auto
  note probe = tag_probe_defined [OF this(1) assms(2,1) this(2) assms(3), of w]
  show ?thesis
  proof (cases "find (\<lambda>i. holds_tag ?tg (ta_lines t ! i)) ?ways")
    case (Some i)
    then have "i \<in> set ?ways" "holds_tag ?tg (ta_lines t ! i)" by (auto simp: find_Some_iff)
    moreover have "tag_probe cfg t addr smask w = Some (match_status (cc_cache_type cfg) smask w (ta_lines t ! i), Some i)"
      using probe Some by simp
    ultimately show ?thesis by auto
  next
    case None
    have miss: "if open_ways cfg t ?ways = [] then tag_probe cfg t addr smask w = Some (RESERVATION_FAIL, None)
       else \<exists>v. tag_probe cfg t addr smask w = Some (MISS, Some v) \<and>
         (if empty_ways cfg t ?ways \<noteq> [] then v = last (empty_ways cfg t ?ways) else oldest cfg t (used_ways cfg t ?ways) v)"
      using probe None by simp
    have none: "\<not> (\<exists>i \<in> set ?ways. holds_tag ?tg (ta_lines t ! i))" using None by (simp add: find_None_iff)
    show ?thesis
    proof (cases "open_ways cfg t ?ways = []")
      case True
      then have "\<forall>i \<in> set ?ways. is_reserved_line (ta_lines t ! i) \<or>
          (is_modified_line (ta_lines t ! i) \<and> \<not> dirty_limit_reached cfg (ta_dirty t))"
        by (auto simp: open_ways_def filter_empty_conv evictable_def)
      then show ?thesis using True miss none by simp
    next
      case False
      then obtain v where v: "tag_probe cfg t addr smask w = Some (MISS, Some v)"
        "if empty_ways cfg t ?ways \<noteq> [] then v = last (empty_ways cfg t ?ways) else oldest cfg t (used_ways cfg t ?ways) v"
        using miss False by auto
      have some: "\<not> (\<forall>i \<in> set ?ways. is_reserved_line (ta_lines t ! i) \<or>
          (is_modified_line (ta_lines t ! i) \<and> \<not> dirty_limit_reached cfg (ta_dirty t)))"
        using False by (auto simp: open_ways_def filter_empty_conv evictable_def)
      have "v \<in> set ?ways \<and> evictable cfg (ta_dirty t) (ta_lines t ! v) \<and> (is_invalid_line (ta_lines t ! v) \<or>
        (\<forall>i \<in> set ?ways. evictable cfg (ta_dirty t) (ta_lines t ! i) \<longrightarrow>
           \<not> is_invalid_line (ta_lines t ! i) \<and> way_time cfg t v \<le> way_time cfg t i))"
      proof (cases "empty_ways cfg t ?ways = []")
        case True
        then have "oldest cfg t (used_ways cfg t ?ways) v" using v(2) by simp
        moreover have "\<not> is_invalid_line (ta_lines t ! i)" if "i \<in> set ?ways" "evictable cfg (ta_dirty t) (ta_lines t ! i)" for i
          using True that by (auto simp: empty_ways_def open_ways_def filter_empty_conv)
        ultimately show ?thesis
          using oldest_in [of cfg t "used_ways cfg t ?ways" v] oldest_least [of cfg t "used_ways cfg t ?ways" v]
          by (auto simp: used_ways_in open_ways_in)
      next
        case False
        then have "v \<in> set (empty_ways cfg t ?ways)" using v(2) by simp
        then show ?thesis by (simp add: empty_ways_in open_ways_in)
      qed
      then show ?thesis using v(1) none some by auto
    qed
  qed
qed

subsection \<open>Probes under the invariant\<close>

text \<open>No line of the array holds the tag.\<close>

definition absent :: "cache_config \<Rightarrow> tag_array \<Rightarrow> u64 \<Rightarrow> bool" where
  "absent cfg t tg \<longleftrightarrow> (\<forall>j < get_num_lines cfg. \<not> holds_tag tg (ta_lines t ! j))"

definition line_state :: "cache_config \<Rightarrow> tag_array \<Rightarrow> nat \<Rightarrow> nat set \<Rightarrow> cache_block_state" where
  "line_state cfg t i smask = statuses (ta_lines t ! i) ! slot (cc_cache_type cfg) smask"

lemma tags_okD:
  assumes "tags_ok cfg t" "i < get_num_lines cfg"
  shows "i < length (ta_lines t)" "line_fine cfg (ta_lines t ! i)" "line_placed cfg i (ta_lines t ! i)"
    "block_ok (cc_cache_type cfg) (ta_lines t ! i)" "all_readable (ta_lines t ! i)"
  using assms by (auto simp: tags_ok_def line_fine_def)

text \<open>The status of a line that holds the tag, from the state of the sector.\<close>

lemma match_status_HIT: "match_status ct smask w b = HIT \<Longrightarrow> statuses b ! slot ct smask \<in> {VALID, MODIFIED}"
  by (auto simp: match_status_def split: cache_block_state.splits if_splits)

lemma match_status_RESERVED: "match_status ct smask w b = HIT_RESERVED \<longleftrightarrow> statuses b ! slot ct smask = RESERVED"
  by (auto simp: match_status_def split: cache_block_state.splits if_splits)

lemma match_status_MISS: "match_status ct smask w b \<in> {HIT, HIT_RESERVED, SECTOR_MISS}"
  by (auto simp: match_status_def split: cache_block_state.splits)

lemma match_status_write:
  "match_status ct smask True b \<noteq> HIT \<Longrightarrow> match_status ct smask w b = match_status ct smask True b"
  by (auto simp: match_status_def split: cache_block_state.splits)

lemma match_status_SECTOR:
  assumes "match_status ct smask w b = SECTOR_MISS" "block_ok ct b" "one_sector smask" "all_readable b"
    "\<not> is_invalid_line b"
  shows "ct = SECTOR"
  using assms by (auto simp: match_status_def block_ok_def is_invalid_line_def statuses_def slot_def
      all_readable_def is_readable_def split: block_impl.splits cache_block_state.splits cache_type.splits if_splits)

lemma tags_ok_unique:
  "\<lbrakk>tags_ok cfg t; i < get_num_lines cfg; j < get_num_lines cfg; holds_tag tg (ta_lines t ! i);
    holds_tag tg (ta_lines t ! j)\<rbrakk> \<Longrightarrow> i = j"
  by (auto simp: tags_ok_def unique_tags_def holds_tag_def)

lemma holds_home:
  "\<lbrakk>tags_ok cfg t; i < get_num_lines cfg; holds_tag tg (ta_lines t ! i)\<rbrakk> \<Longrightarrow> home cfg tg i"
  using tags_okD(3) by (auto simp: holds_tag_def line_placed_def)

lemma way_time_less: "tags_ok cfg t \<Longrightarrow> i < get_num_lines cfg \<Longrightarrow> way_time cfg t i < 4294967295"
  using tags_okD(2) [of cfg t i] by (auto simp: line_fine_def candidate_time_def split: replacement_policy_t.split)

lemma probe_cases:
  assumes cfg: "cache_cfg_ok cfg" and t: "tags_ok cfg t" and m: "one_sector smask"
  obtains (found) i where
      "\<And>w. tag_probe cfg t addr smask w = Some (match_status (cc_cache_type cfg) smask w (ta_lines t ! i), Some i)"
      "i < get_num_lines cfg" "home cfg addr i" "holds_tag (tag cfg addr) (ta_lines t ! i)"
  | (miss) i where "\<And>w. tag_probe cfg t addr smask w = Some (MISS, Some i)"
      "i < get_num_lines cfg" "home cfg addr i" "\<not> is_reserved_line (ta_lines t ! i)" "absent cfg t (tag cfg addr)"
  | (fail) "\<And>w. tag_probe cfg t addr smask w = Some (RESERVATION_FAIL, None)" "absent cfg t (tag cfg addr)"
proof -
  obtain s where s: "set_index cfg addr = Some s" using cfg by (auto simp: cache_cfg_ok_def)
  have ways: "i < get_num_lines cfg" if "i \<in> set (set_ways cfg s)" for i
    using set_ways_less [OF set_index_less [OF s] that] .
  let ?find = "find (\<lambda>i. holds_tag (tag cfg addr) (ta_lines t ! i)) (set_ways cfg s)"
  have b: "\<forall>i \<in> set (set_ways cfg s). block_ok (cc_cache_type cfg) (ta_lines t ! i)" using t ways tags_okD(4) by blast
  have times: "\<forall>i \<in> set (set_ways cfg s). way_time cfg t i < 4294967295" using t ways way_time_less by blast
  note probe = tag_probe_defined [OF b m s times]
  have gone: "absent cfg t (tag cfg addr)" if "?find = None"
    unfolding absent_def
  proof (intro allI impI notI)
    fix j assume j: "j < get_num_lines cfg" "holds_tag (tag cfg addr) (ta_lines t ! j)"
    then have "home cfg addr j" using holds_home [OF t j] home_tag [OF cfg] by simp
    then have "j \<in> set (set_ways cfg s)" using s by (simp add: home_def)
    then show False using that j(2) by (auto simp: find_None_iff)
  qed
  show thesis
  proof (cases ?find)
    case (Some i)
    then have i: "i \<in> set (set_ways cfg s)" "holds_tag (tag cfg addr) (ta_lines t ! i)" by (auto simp: find_Some_iff)
    have "tag_probe cfg t addr smask w = Some (match_status (cc_cache_type cfg) smask w (ta_lines t ! i), Some i)" for w
      using probe [of w] Some cfg by (simp add: cache_cfg_ok_def)
    then show thesis using found i ways s by (auto simp: home_def)
  next
    case None
    show thesis
    proof (cases "open_ways cfg t (set_ways cfg s) = []")
      case True
      then show thesis using probe None cfg gone fail by (auto simp: cache_cfg_ok_def)
    next
      case False
      define v where "v = (case tag_probe cfg t addr smask True of Some (st, Some v) \<Rightarrow> v | _ \<Rightarrow> 0)"
      have same: "tag_probe cfg t addr smask w = tag_probe cfg t addr smask True" for w
        using None probe_ways_find [where tg = "tag cfg addr" and w = w, OF m b]
          probe_ways_find [where tg = "tag cfg addr" and w = True, OF m b]
        by (simp add: tag_probe_def s)
      obtain v where v: "tag_probe cfg t addr smask True = Some (MISS, Some v)"
        "if empty_ways cfg t (set_ways cfg s) \<noteq> [] then v = last (empty_ways cfg t (set_ways cfg s))
         else oldest cfg t (used_ways cfg t (set_ways cfg s)) v"
        using probe [of True] None False cfg by (auto simp: cache_cfg_ok_def)
      have "v \<in> set (open_ways cfg t (set_ways cfg s))"
        using v(2) oldest_in [of cfg t "used_ways cfg t (set_ways cfg s)" v]
        by (metis empty_ways_in last_in_set used_ways_in)
      then show thesis using miss [of v] v(1) same gone [OF None] ways s
        by (auto simp: open_ways_in evictable_def home_def)
    qed
  qed
qed

subsection \<open>Effects of the operations\<close>

text \<open>The view the effects are stated on: tag and states of every line.\<close>

definition line_view :: "cache_block \<Rightarrow> u64 \<times> cache_block_state list" where
  "line_view b = (cb_tag b, statuses b)"

definition tags_view :: "tag_array \<Rightarrow> (u64 \<times> cache_block_state list) list" where
  "tags_view t = map line_view (ta_lines t)"

lemma length_tags_view [simp]: "length (tags_view t) = length (ta_lines t)"
  by (simp add: tags_view_def)

lemma tags_view_update: "ta_lines t' = (ta_lines t)[i := b] \<Longrightarrow> tags_view t' = (tags_view t)[i := line_view b]"
  by (simp add: tags_view_def map_update)

lemma view_determines:
  assumes "tags_view t = tags_view t'" "i < length (ta_lines t)"
  shows "cb_tag (ta_lines t ! i) = cb_tag (ta_lines t' ! i)" "statuses (ta_lines t ! i) = statuses (ta_lines t' ! i)"
proof -
  have "length (ta_lines t) = length (ta_lines t')" using arg_cong [OF assms(1), of length] by simp
  then show "cb_tag (ta_lines t ! i) = cb_tag (ta_lines t' ! i)" "statuses (ta_lines t ! i) = statuses (ta_lines t' ! i)"
    using assms(2) arg_cong [OF assms(1), of "\<lambda>v. v ! i"] by (simp_all add: tags_view_def line_view_def)
qed

text \<open>A change that keeps the tag of a line keeps the invariant, unless it revives an empty line.\<close>

lemma line_changed_ok:
  assumes t: "tags_ok cfg t" and i: "i < get_num_lines cfg" and time: "time < 4294967295"
    and b: "line_effect (cc_cache_type cfg) time (ta_lines t ! i) b" "is_invalid_line (ta_lines t ! i) \<Longrightarrow> is_invalid_line b"
    and t': "ta_lines t' = (ta_lines t)[i := b]"
      "ta_dirty t' + of_bool (is_modified_line (ta_lines t ! i)) = ta_dirty t + of_bool (is_modified_line b)"
  shows "tags_ok cfg t'"
proof (rule tags_ok_update [OF t i _ _ _ t'])
  note old = tags_okD [OF t i]
  show "line_fine cfg b" using old(2) b(1) time by (auto simp: line_fine_def line_effect_def)
  show "line_placed cfg i b" using old(3) b by (auto simp: line_placed_def line_effect_def)
  show "is_invalid_line b \<or> (\<forall>j < get_num_lines cfg. j \<noteq> i \<longrightarrow> \<not> holds_tag (cb_tag b) (ta_lines t ! j))"
    using b t i by (auto simp: line_effect_def holds_tag_def tags_ok_def unique_tags_def)
qed

lemma upd_line_Some: "f (ta_lines t ! i) = Some b \<Longrightarrow> upd_line i f t = Some (t\<lparr>ta_lines := (ta_lines t)[i := b]\<rparr>)"
  by (simp add: upd_line_def)

lemma upd_line_same:
  assumes t: "tags_ok cfg t" and i: "i < get_num_lines cfg" and time: "time < 4294967295"
    and f: "same_states (cc_cache_type cfg) time f"
  obtains t' where "upd_line i f t = Some t'" "tags_ok cfg t'" "tags_view t' = tags_view t" "ta_dirty t' = ta_dirty t"
proof -
  note old = tags_okD [OF t i]
  obtain b where b: "f (ta_lines t ! i) = Some b" "line_effect (cc_cache_type cfg) time (ta_lines t ! i) b"
    "statuses b = statuses (ta_lines t ! i)" using f old(4) unfolding same_states_def by blast
  let ?t = "t\<lparr>ta_lines := (ta_lines t)[i := b]\<rparr>"
  have "line_view b = tags_view t ! i" using b old(1) by (simp add: line_view_def line_effect_def tags_view_def)
  then have view: "tags_view ?t = tags_view t" by (simp add: tags_view_update [of ?t t i b])
  have "tags_ok cfg ?t" by (rule line_changed_ok [OF t i time b(2)]) (simp_all add: b(3) line_state_iff)
  then show thesis using that [of ?t] view by (simp add: upd_line_Some [of f t i, OF b(1)])
qed

lemma modified_update:
  assumes "i < length sts"
  shows "MODIFIED \<in> set (sts[i := st]) \<longleftrightarrow> st = MODIFIED \<or> (\<exists>j < length sts. j \<noteq> i \<and> sts ! j = MODIFIED)"
  using assms by (auto simp: in_set_conv_nth nth_list_update)

text \<open>One sector changes its state in a line that is in use, and the count of dirty lines follows.\<close>

lemma status_changed_ok:
  assumes t: "tags_ok cfg t" and i: "i < get_num_lines cfg" and time: "time < 4294967295" and m: "one_sector smask"
    and used: "\<not> is_invalid_line (ta_lines t ! i)"
    and b: "status_upd (cc_cache_type cfg) time (ta_lines t ! i) (slot (cc_cache_type cfg) smask) st b"
    and t': "ta_lines t' = (ta_lines t)[i := b]"
      "ta_dirty t' + of_bool (is_modified_line (ta_lines t ! i)) = ta_dirty t + of_bool (is_modified_line b)"
  shows "tags_ok cfg t'"
    "tags_view t' = (tags_view t)[i := (cb_tag (ta_lines t ! i), (statuses (ta_lines t ! i))[slot (cc_cache_type cfg) smask := st])]"
proof -
  show "tags_ok cfg t'" using b used by (intro line_changed_ok [OF t i time _ _ t']) (auto simp: status_upd_def)
  show "tags_view t' = (tags_view t)[i := (cb_tag (ta_lines t ! i), (statuses (ta_lines t ! i))[slot (cc_cache_type cfg) smask := st])]"
    using b by (simp add: tags_view_update [OF t'(1)] line_view_def status_upd_def line_effect_def)
qed

definition evicted_of :: "cache_block \<Rightarrow> evicted_block_info option" where
  "evicted_of line = (if is_modified_line line
     then Some \<lparr>ev_block_addr = cb_block_addr line, ev_modified_size = get_modified_size line,
                ev_byte_mask = get_dirty_byte_mask line, ev_sector_mask = get_dirty_sector_mask line\<rparr>
     else None)"

lemma tags_ok_stats [simp]:
  "tags_ok cfg (t\<lparr>ta_access := a\<rparr>) = tags_ok cfg t" "tags_ok cfg (t\<lparr>ta_is_used := u\<rparr>) = tags_ok cfg t"
  "tags_ok cfg (t\<lparr>ta_pending_hit := a\<rparr>) = tags_ok cfg t" "tags_ok cfg (t\<lparr>ta_miss := a\<rparr>) = tags_ok cfg t"
  "tags_ok cfg (t\<lparr>ta_sector_miss := a\<rparr>) = tags_ok cfg t" "tags_ok cfg (t\<lparr>ta_res_fail := a\<rparr>) = tags_ok cfg t"
  by (simp_all add: tags_ok_def)

lemma tags_view_stats [simp]:
  "tags_view (t\<lparr>ta_access := a\<rparr>) = tags_view t" "tags_view (t\<lparr>ta_is_used := u\<rparr>) = tags_view t"
  "tags_view (t\<lparr>ta_pending_hit := a\<rparr>) = tags_view t" "tags_view (t\<lparr>ta_miss := a\<rparr>) = tags_view t"
  "tags_view (t\<lparr>ta_sector_miss := a\<rparr>) = tags_view t" "tags_view (t\<lparr>ta_res_fail := a\<rparr>) = tags_view t"
  by (simp_all add: tags_view_def)

lemma tag_probe_stats [simp]:
  "tag_probe cfg (t\<lparr>ta_access := a, ta_is_used := u\<rparr>) addr smask w = tag_probe cfg t addr smask w"
proof -
  have "probe_ways cfg (t\<lparr>ta_access := a, ta_is_used := u\<rparr>) tg smask w ways cand =
      probe_ways cfg t tg smask w ways cand" for tg ways cand
    by (induction ways arbitrary: cand) (auto simp: Let_def split: option.splits Option.bind_splits)
  then show ?thesis by (simp add: tag_probe_def)
qed

text \<open>
  An access returns what the probe returned, with one of four effects: nothing but the time
  stamps, a sector reserved in the line of the tag, a new line with one reserved sector, or
  nothing at all.
\<close>

lemma slot_in_states:
  "tags_ok cfg t \<Longrightarrow> i < get_num_lines cfg \<Longrightarrow> one_sector smask \<Longrightarrow>
   slot (cc_cache_type cfg) smask < length (statuses (ta_lines t ! i))"
  using tags_okD(4) [of cfg t i] slot_less by (simp add: length_statuses)

lemma reserved_not_modified:
  "(replicate n INVALID)[k := RESERVED] = sts \<Longrightarrow> MODIFIED \<notin> set sts"
  by (auto dest!: set_updateD)

lemma access_hit_effect:
  assumes cfg: "cache_cfg_ok cfg" and t: "tags_ok cfg t" and m: "one_sector (get_access_sector_mask mf)"
    and time: "time < 4294967295"
    and p: "tag_probe cfg t addr (get_access_sector_mask mf) (get_is_write mf) = Some (st, Some i)"
    and st: "st = HIT \<or> st = HIT_RESERVED" and i: "i < get_num_lines cfg"
  obtains t' where "tag_access cfg addr time idx mf t = Some (st, Some i, None, t')" "tags_ok cfg t'"
    "tags_view t' = tags_view t"
proof -
  let ?t = "t\<lparr>ta_access := ta_access t + 1, ta_is_used := True\<rparr>"
  let ?u = "if st = HIT then ?t else ?t\<lparr>ta_pending_hit := ta_pending_hit ?t + 1\<rparr>"
  have "tags_ok cfg ?u" using t by simp
  then obtain t' where t': "upd_line i (set_last_access_time time (get_access_sector_mask mf)) ?u = Some t'"
    "tags_ok cfg t'" "tags_view t' = tags_view ?u"
    by (rule upd_line_same [OF _ i time set_last_access_time_same [OF m]])
  then have "tags_view t' = tags_view t" by simp
  with t' st p show thesis by (intro that [of t']) (auto simp: tag_access_def Let_def)
qed

lemma access_sector_effect:
  assumes t: "tags_ok cfg t" and m: "one_sector (get_access_sector_mask mf)" and time: "time < 4294967295"
    and p: "tag_probe cfg t addr (get_access_sector_mask mf) (get_is_write mf) = Some (SECTOR_MISS, Some i)"
    and i: "i < get_num_lines cfg" and used: "\<not> is_invalid_line (ta_lines t ! i)" and cfg: "cache_cfg_ok cfg"
    and st: "match_status (cc_cache_type cfg) (get_access_sector_mask mf) (get_is_write mf) (ta_lines t ! i) = SECTOR_MISS"
  obtains t' where "tag_access cfg addr time idx mf t = Some (SECTOR_MISS, Some i, None, t')" "tags_ok cfg t'"
    "tags_view t' = (tags_view t)[i := (cb_tag (ta_lines t ! i),
       (statuses (ta_lines t ! i))[slot (cc_cache_type cfg) (get_access_sector_mask mf) := RESERVED])]"
proof -
  let ?m = "get_access_sector_mask mf" and ?ct = "cc_cache_type cfg" and ?b = "ta_lines t ! i"
  let ?t = "t\<lparr>ta_access := ta_access t + 1, ta_is_used := True, ta_sector_miss := ta_sector_miss t + 1\<rparr>"
  note old = tags_okD [OF t i]
  have sec: "?ct = SECTOR" by (rule match_status_SECTOR [OF st old(4) m old(5) used])
  obtain b where b: "allocate_sector time ?m ?b = Some b" "status_upd ?ct time ?b (slot ?ct ?m) RESERVED b"
    using allocate_sector_ok [of ?b ?m time] old(4) m used sec by auto
  have mod: "is_modified_line ?b" if "is_modified_line b"
    using that b(2) modified_update [OF slot_in_states [OF t i m], of RESERVED]
    by (auto simp: line_state_iff status_upd_def) (metis nth_mem)
  let ?u = "?t\<lparr>ta_lines := (ta_lines t)[i := b]\<rparr>"
  let ?t' = "if is_modified_line ?b \<and> \<not> is_modified_line b then dec_dirty ?u else ?u"
  have lines: "ta_lines ?t' = (ta_lines t)[i := b]" by (simp add: dec_dirty_def)
  have dirty: "ta_dirty ?t' + of_bool (is_modified_line ?b) = ta_dirty t + of_bool (is_modified_line b)"
    using mod by (simp add: dec_dirty_def)
  note eff = status_changed_ok [OF t i time m used b(2) lines dirty]
  have "tag_access cfg addr time idx mf t = Some (SECTOR_MISS, Some i, None, ?t')"
    using cfg p sec old(1) b(1) by (simp add: tag_access_def upd_line_def cache_cfg_ok_def Let_def)
  then show thesis using eff by (rule that)
qed

lemma access_miss_effect:
  assumes t: "tags_ok cfg t" and m: "one_sector (get_access_sector_mask mf)" and time: "time < 4294967295"
    and p: "tag_probe cfg t addr (get_access_sector_mask mf) (get_is_write mf) = Some (MISS, Some i)"
    and i: "i < get_num_lines cfg" and cfg: "cache_cfg_ok cfg" and home: "home cfg addr i"
    and absent: "absent cfg t (tag cfg addr)"
  obtains t' where "tag_access cfg addr time idx mf t = Some (MISS, Some i, evicted_of (ta_lines t ! i), t')" "tags_ok cfg t'"
    "tags_view t' = (tags_view t)[i := (tag cfg addr,
       (replicate (slots (cc_cache_type cfg)) INVALID)[slot (cc_cache_type cfg) (get_access_sector_mask mf) := RESERVED])]"
proof -
  let ?m = "get_access_sector_mask mf" and ?ct = "cc_cache_type cfg" and ?b = "ta_lines t ! i"
  note old = tags_okD [OF t i]
  obtain b where b: "allocate (tag cfg addr) (block_addr cfg addr) time ?m ?b = Some b" "block_ok ?ct b"
      "cb_tag b = tag cfg addr" "cb_block_addr b = tag cfg addr"
      "statuses b = (replicate (slots ?ct) INVALID)[slot ?ct ?m := RESERVED]"
      "get_last_access_time b = time" "get_alloc_time b = time" "all_readable b"
    using block_allocate_ok [OF old(4) m old(5), of "tag cfg addr" "block_addr cfg addr" time] by (auto simp: block_addr_tag)
  have clean: "\<not> is_modified_line b" using reserved_not_modified [OF b(5) [symmetric]] by (simp add: line_state_iff)
  let ?t = "t\<lparr>ta_access := ta_access t + 1, ta_is_used := True, ta_miss := ta_miss t + 1\<rparr>"
  let ?u = "if is_modified_line ?b then dec_dirty ?t else ?t"
  let ?t' = "?u\<lparr>ta_lines := (ta_lines t)[i := b]\<rparr>"
  have "tags_ok cfg ?t'"
  proof (rule tags_ok_update [OF t i])
    show "line_fine cfg b" using b time by (simp add: line_fine_def)
    show "line_placed cfg i b" using b(3,4) home home_tag [OF cfg] by (simp add: line_placed_def)
    show "is_invalid_line b \<or> (\<forall>j < get_num_lines cfg. j \<noteq> i \<longrightarrow> \<not> holds_tag (cb_tag b) (ta_lines t ! j))"
      using absent b(3) by (simp add: absent_def)
    show "ta_lines ?t' = (ta_lines t)[i := b]" by simp
    show "ta_dirty ?t' + of_bool (is_modified_line ?b) = ta_dirty t + of_bool (is_modified_line b)"
      using clean by (simp add: dec_dirty_def)
  qed
  moreover have "tags_view ?t' = (tags_view t)[i := (tag cfg addr, (replicate (slots ?ct) INVALID)[slot ?ct ?m := RESERVED])]"
    using b(3,5) tags_view_update [of ?t' t i b] by (simp add: line_view_def)
  moreover have "tag_access cfg addr time idx mf t = Some (MISS, Some i, evicted_of ?b, ?t')"
    using cfg p b(1) by (simp add: tag_access_def upd_line_def cache_cfg_ok_def evicted_of_def dec_dirty_def Let_def)
  ultimately show thesis by (rule that [rotated])
qed

lemma access_fail_effect:
  assumes t: "tags_ok cfg t"
    and p: "tag_probe cfg t addr (get_access_sector_mask mf) (get_is_write mf) = Some (RESERVATION_FAIL, None)"
  obtains t' where "tag_access cfg addr time idx mf t = Some (RESERVATION_FAIL, idx, None, t')" "tags_ok cfg t'"
    "tags_view t' = tags_view t"
  using p t
  by (intro that [of "t\<lparr>ta_access := ta_access t + 1, ta_is_used := True, ta_res_fail := ta_res_fail t + 1\<rparr>"])
    (simp_all add: tag_access_def)

subsection \<open>Fills and writes\<close>

lemma fill_effect:
  assumes cfg: "cache_cfg_ok cfg" and t: "tags_ok cfg t" and m: "one_sector smask" and time: "time < 4294967295"
    and i: "i < get_num_lines cfg" and used: "\<not> is_invalid_line (ta_lines t ! i)"
  obtains t' st where "fill_index cfg i time smask byte_mask t = Some t'" "tags_ok cfg t'" "st \<in> {VALID, MODIFIED}"
    "tags_view t' = (tags_view t)[i := (cb_tag (ta_lines t ! i), (statuses (ta_lines t ! i))[slot (cc_cache_type cfg) smask := st])]"
proof -
  let ?ct = "cc_cache_type cfg" and ?b = "ta_lines t ! i"
  note old = tags_okD [OF t i]
  obtain b st where b: "block_fill time smask byte_mask ?b = Some b" "st \<in> {VALID, MODIFIED}"
      "status_upd ?ct time ?b (slot ?ct smask) st b"
    using block_fill_ok [OF old(4) m, of time byte_mask] by blast
  let ?u = "t\<lparr>ta_lines := (ta_lines t)[i := b]\<rparr>"
  let ?t' = "track_dirty (is_modified_line ?b) i ?u"
  have lines: "ta_lines ?t' = (ta_lines t)[i := b]" by (simp add: track_dirty_def inc_dirty_def dec_dirty_def Let_def)
  have "ta_dirty ?t' + of_bool (is_modified_line ?b) = ta_dirty t + of_bool (is_modified_line b)"
    using old(1) by (simp add: track_dirty_def inc_dirty_def dec_dirty_def)
  note eff = status_changed_ok [OF t i time m used b(3) lines this]
  have "fill_index cfg i time smask byte_mask t = Some ?t'"
    using cfg b(1) by (simp add: fill_index_def upd_line_def cache_cfg_ok_def)
  then show thesis using that eff b(2) by blast
qed

lemma mark_modified_effect:
  assumes t: "tags_ok cfg t" and m: "one_sector (get_access_sector_mask mf)"
    and i: "i < get_num_lines cfg" and used: "\<not> is_invalid_line (ta_lines t ! i)"
  obtains t' where "mark_modified i mf t = Some t'" "tags_ok cfg t'"
    "tags_view t' = (tags_view t)[i := (cb_tag (ta_lines t ! i),
       (statuses (ta_lines t ! i))[slot (cc_cache_type cfg) (get_access_sector_mask mf) := MODIFIED])]"
proof -
  let ?m = "get_access_sector_mask mf" and ?ct = "cc_cache_type cfg" and ?b = "ta_lines t ! i"
  note old = tags_okD [OF t i]
  obtain b where b: "set_status MODIFIED ?m ?b = Some b" "status_upd ?ct 0 ?b (slot ?ct ?m) MODIFIED b"
    using set_status_ok [OF old(4) m] by blast
  have mod: "is_modified_line b"
    using b(2) modified_update [OF slot_in_states [OF t i m], of MODIFIED] by (simp add: line_state_iff status_upd_def)
  let ?u = "if \<not> is_modified_line ?b then inc_dirty t else t"
  let ?v = "?u\<lparr>ta_lines := (ta_lines t)[i := b]\<rparr>"
  have v: "tags_ok cfg ?v" "tags_view ?v = (tags_view t)[i := (cb_tag ?b, (statuses ?b)[slot ?ct ?m := MODIFIED])]"
    by (rule status_changed_ok [OF t i _ m used b(2)]; simp add: mod inc_dirty_def)+
  obtain t' where t': "upd_line i (\<lambda>b. Some (set_byte_mask (get_access_byte_mask mf) b)) ?v = Some t'"
      "tags_ok cfg t'" "tags_view t' = tags_view ?v"
    by (rule upd_line_same [OF v(1) i _ same_states_masks(1), of 0]) auto
  have "mark_modified i mf t = Some t'"
    using t'(1) b(1) by (cases "is_modified_line ?b") (simp_all add: mark_modified_def upd_line_def inc_dirty_def)
  then show thesis using that t' v by simp
qed

end
