(* ===== verification/Cache_Invariant.thy ===== *)
theory Cache_Invariant
  imports Tag_Array_Access
begin

section \<open>Safety of the cache controllers\<close>

text \<open>
  A data cache is driven by requests, the responses of the level below, and cycles. The theory
  shows that no such run aborts and what every state on the way satisfies.
\<close>

subsection \<open>Runs\<close>

datatype cache_op =
    New_Request mem_fetch
  | Access u64 nat nat
  | Fill nat nat
  | Cycle "nat \<Rightarrow> bool \<Rightarrow> bool"
  | Take_Ready

definition cache_step :: "cache_params \<Rightarrow> data_cache \<Rightarrow> cache_op \<Rightarrow> data_cache option" where
  "cache_step p s x = (case x of
       New_Request mf \<Rightarrow> Some (snd (new_mf mf s))
     | Access addr mid time \<Rightarrow> map_option (\<lambda>(_, _, s). s) (data_cache_access p addr mid time [] s)
     | Fill mid time \<Rightarrow> cache_fill p mid time s
     | Cycle port_full \<Rightarrow> map_option snd (cache_cycle port_full s)
     | Take_Ready \<Rightarrow> map_option snd (next_ready_access s))"

text \<open>
  The sectors of a line are \<open>SECTOR_SIZE\<close> bytes apart; the address a miss is tracked under is
  the one of its sector.
\<close>

definition sector_key :: "u64 \<Rightarrow> nat \<Rightarrow> u64" where
  "sector_key tg k = tg + of_nat (k * SECTOR_SIZE)"

text \<open>
  A request fits an atom, lies in one sector, the one of its address, and is a global read when
  it is atomic.
\<close>

definition request_ok :: "cache_params \<Rightarrow> mem_fetch \<Rightarrow> bool" where
  "request_ok p mf \<longleftrightarrow> mf_data_size mf \<le> cc_atom_sz (cp_config p) \<and> one_sector (get_access_sector_mask mf) \<and>
     mshr_addr (cp_config p) (get_addr mf) =
       sector_key (tag (cp_config p) (get_addr mf)) (slot (cc_cache_type (cp_config p)) (get_access_sector_mask mf)) \<and>
     (mf_atomic mf \<longrightarrow> get_access_type mf = GLOBAL_ACC_R \<and> \<not> get_is_write mf)"

text \<open>
  What the callers guarantee: an access is for a request that is not already waiting, a response
  answers a waiting request, and times stay below the sentinel of the replacement scan.
\<close>

definition cache_allowed :: "cache_params \<Rightarrow> data_cache \<Rightarrow> cache_op \<Rightarrow> bool" where
  "cache_allowed p s x = (case x of
       New_Request mf \<Rightarrow> True
     | Access addr mid time \<Rightarrow> time < 4294967295 \<and> \<not> waiting_for_fill mid s \<and>
         (case dc_heap s mid of None \<Rightarrow> False | Some mf \<Rightarrow> request_ok p mf \<and> addr = get_addr mf)
     | Fill mid time \<Rightarrow> time < 4294967295 \<and> waiting_for_fill mid s
     | Cycle port_full \<Rightarrow> True
     | Take_Ready \<Rightarrow> access_ready (dc_mshrs s))"

definition sectors_apart :: "cache_config \<Rightarrow> bool" where
  "sectors_apart cfg \<longleftrightarrow> (\<forall>a b j k. j < slots (cc_cache_type cfg) \<longrightarrow> k < slots (cc_cache_type cfg) \<longrightarrow>
     sector_key (tag cfg a) j = sector_key (tag cfg b) k \<longrightarrow> tag cfg a = tag cfg b \<and> j = k)"

definition cache_params_ok :: "cache_params \<Rightarrow> bool" where
  "cache_params_ok p \<longleftrightarrow> (let cfg = cp_config p in
     cache_cfg_ok cfg \<and> sectors_apart cfg \<and> cc_mshr_type cfg = ASSOC \<and> 0 < cc_mshr_max_merge cfg \<and>
     cc_write_policy cfg \<in> {WRITE_BACK, WRITE_THROUGH} \<and>
     (cc_cache_type cfg = SECTOR \<or> cc_write_alloc_policy cfg \<noteq> LAZY_FETCH_ON_READ))"

text \<open>
  Write policies that never write into a sector whose data is still on its way.
\<close>

definition waits_for_data :: "cache_params \<Rightarrow> bool" where
  "waits_for_data p \<longleftrightarrow> cc_write_alloc_policy (cp_config p) \<in> {NO_WRITE_ALLOCATE, WRITE_ALLOCATE}"

subsection \<open>The invariant\<close>

text \<open>
  Outstanding reads and reserved sectors are the same thing: every outstanding read owns the
  reserved sector its answer will fill, and every reserved sector has an outstanding read.
\<close>

definition reads_own_sectors ::
  "cache_config \<Rightarrow> tag_array \<Rightarrow> (nat \<Rightarrow> extra_mf_fields option) \<Rightarrow> (nat \<Rightarrow> mem_fetch option) \<Rightarrow> bool" where
  "reads_own_sectors cfg t ex h \<longleftrightarrow>
     (\<forall>mid e mf i. ex mid = Some e \<longrightarrow> h mid = Some mf \<longrightarrow> ex_cache_index e = Some i \<longrightarrow>
        line_state cfg t i (get_access_sector_mask mf) = RESERVED \<and>
        ex_block_addr e = sector_key (cb_tag (ta_lines t ! i)) (slot (cc_cache_type cfg) (get_access_sector_mask mf))) \<and>
     (\<forall>i k. i < get_num_lines cfg \<longrightarrow> k < slots (cc_cache_type cfg) \<longrightarrow> statuses (ta_lines t ! i) ! k = RESERVED \<longrightarrow>
        (\<exists>mid e. ex mid = Some e \<and> ex_cache_index e = Some i \<and> ex_block_addr e = sector_key (cb_tag (ta_lines t ! i)) k))"

definition extra_ok ::
  "cache_config \<Rightarrow> tag_array \<Rightarrow> (nat \<Rightarrow> mem_fetch option) \<Rightarrow> nat \<Rightarrow> extra_mf_fields \<Rightarrow> bool" where
  "extra_ok cfg t h mid e \<longleftrightarrow> (\<exists>mf i. h mid = Some mf \<and> one_sector (get_access_sector_mask mf) \<and>
     ex_cache_index e = Some i \<and> i < get_num_lines cfg \<and> \<not> is_invalid_line (ta_lines t ! i))"

definition store_ok ::
  "cache_params \<Rightarrow> tag_array \<Rightarrow> nat mshr_table \<Rightarrow> (nat \<Rightarrow> extra_mf_fields option) \<Rightarrow> (nat \<Rightarrow> mem_fetch option) \<Rightarrow> bool" where
  "store_ok p t m ex h \<longleftrightarrow>
     tags_ok (cp_config p) t \<and> mshr_wf m \<and>
     (\<forall>mid e. ex mid = Some e \<longrightarrow> extra_ok (cp_config p) t h mid e) \<and>
     (\<forall>b. probe b m \<longleftrightarrow> (\<exists>mid e. ex mid = Some e \<and> ex_block_addr e = b)) \<and>
     (\<forall>mid mid' e e'. ex mid = Some e \<longrightarrow> ex mid' = Some e' \<longrightarrow> ex_block_addr e = ex_block_addr e' \<longrightarrow> mid = mid') \<and>
     (waits_for_data p \<longrightarrow> reads_own_sectors (cp_config p) t ex h)"

definition heap_ok :: "data_cache \<Rightarrow> bool" where
  "heap_ok s \<longleftrightarrow> (\<forall>mid. dc_heap s mid \<noteq> None \<longrightarrow> mid < dc_next s) \<and> (\<forall>mid \<in> set (dc_miss_queue s). dc_heap s mid \<noteq> None)"

definition cache_ok :: "cache_params \<Rightarrow> data_cache \<Rightarrow> bool" where
  "cache_ok p s \<longleftrightarrow> store_ok p (dc_tags s) (dc_mshrs s) (dc_extra s) (dc_heap s) \<and> heap_ok s"

lemma owns_sector:
  "\<lbrakk>reads_own_sectors cfg t ex h; ex mid = Some e; h mid = Some mf; ex_cache_index e = Some i\<rbrakk> \<Longrightarrow>
   line_state cfg t i (get_access_sector_mask mf) = RESERVED \<and>
   ex_block_addr e = sector_key (cb_tag (ta_lines t ! i)) (slot (cc_cache_type cfg) (get_access_sector_mask mf))"
  unfolding reads_own_sectors_def by blast

lemma sector_owned:
  "\<lbrakk>reads_own_sectors cfg t ex h; i < get_num_lines cfg; k < slots (cc_cache_type cfg); statuses (ta_lines t ! i) ! k = RESERVED\<rbrakk> \<Longrightarrow>
   \<exists>mid e. ex mid = Some e \<and> ex_cache_index e = Some i \<and> ex_block_addr e = sector_key (cb_tag (ta_lines t ! i)) k"
  unfolding reads_own_sectors_def by blast

lemma store_okD:
  assumes "store_ok p t m ex h"
  shows "tags_ok (cp_config p) t" "mshr_wf m" "ex mid = Some e \<Longrightarrow> extra_ok (cp_config p) t h mid e"
    "probe b m \<longleftrightarrow> (\<exists>mid e. ex mid = Some e \<and> ex_block_addr e = b)"
    "ex mid = Some e \<Longrightarrow> ex mid' = Some e' \<Longrightarrow> ex_block_addr e = ex_block_addr e' \<Longrightarrow> mid = mid'"
    "waits_for_data p \<Longrightarrow> reads_own_sectors (cp_config p) t ex h"
  using assms unfolding store_ok_def by blast+

subsection \<open>The view decides\<close>

lemma state_of_view:
  assumes "i < length (ta_lines t)"
  shows "cb_tag (ta_lines t ! i) = fst (tags_view t ! i)" "statuses (ta_lines t ! i) = snd (tags_view t ! i)"
  using assms by (simp_all add: tags_view_def line_view_def)

lemma invalid_of_view:
  "i < length (ta_lines t) \<Longrightarrow> is_invalid_line (ta_lines t ! i) \<longleftrightarrow> set (snd (tags_view t ! i)) \<subseteq> {INVALID}"
  by (simp add: line_state_iff state_of_view)

lemma extra_ok_lines:
  assumes "extra_ok cfg t h mid e"
    "\<And>i. i < get_num_lines cfg \<Longrightarrow> \<not> is_invalid_line (ta_lines t ! i) \<Longrightarrow> \<not> is_invalid_line (ta_lines t' ! i)"
  shows "extra_ok cfg t' h mid e"
  using assms unfolding extra_ok_def by blast

lemma store_ok_tags:
  assumes s: "store_ok p t m ex h" and t': "tags_ok (cp_config p) t'"
    "\<And>i. i < get_num_lines (cp_config p) \<Longrightarrow> \<not> is_invalid_line (ta_lines t ! i) \<Longrightarrow> \<not> is_invalid_line (ta_lines t' ! i)"
    "waits_for_data p \<Longrightarrow> reads_own_sectors (cp_config p) t' ex h"
  shows "store_ok p t' m ex h"
  unfolding store_ok_def
  by (intro conjI allI impI t'(1,3))
    (use store_okD [OF s] extra_ok_lines [OF store_okD(3) [OF s] t'(2)] in blast)+

lemma store_ok_same:
  assumes s: "store_ok p t m ex h" and t': "tags_ok (cp_config p) t'" "tags_view t' = tags_view t"
  shows "store_ok p t' m ex h"
proof -
  let ?cfg = "cp_config p"
  have len: "length (ta_lines t') = length (ta_lines t)" using arg_cong [OF t'(2), of length] by simp
  have inr: "i < length (ta_lines t)" if "i < get_num_lines ?cfg" for i using tags_okD(1) [OF store_okD(1) [OF s] that] .
  have st: "statuses (ta_lines t' ! i) = statuses (ta_lines t ! i)" "cb_tag (ta_lines t' ! i) = cb_tag (ta_lines t ! i)"
    if "i < get_num_lines ?cfg" for i
    using inr [OF that] len t'(2) by (simp_all add: state_of_view)
  show ?thesis
  proof (rule store_ok_tags [OF s t'(1)])
    fix i assume "i < get_num_lines ?cfg" "\<not> is_invalid_line (ta_lines t ! i)"
    then show "\<not> is_invalid_line (ta_lines t' ! i)" using st by (simp add: line_state_iff)
  next
    assume "waits_for_data p"
    note own = store_okD(6) [OF s this]
    show "reads_own_sectors ?cfg t' ex h"
      unfolding reads_own_sectors_def
    proof (rule conjI; intro allI impI)
      fix mid e mf i assume a: "ex mid = Some e" "h mid = Some mf" "ex_cache_index e = Some i"
      then have i: "i < get_num_lines ?cfg" using store_okD(3) [OF s a(1)] by (auto simp: extra_ok_def)
      show "line_state ?cfg t' i (get_access_sector_mask mf) = RESERVED \<and>
        ex_block_addr e = sector_key (cb_tag (ta_lines t' ! i)) (slot (cc_cache_type ?cfg) (get_access_sector_mask mf))"
        using owns_sector [OF own a] st [OF i] by (simp add: line_state_def)
    next
      fix i k assume "i < get_num_lines ?cfg" "k < slots (cc_cache_type ?cfg)" "statuses (ta_lines t' ! i) ! k = RESERVED"
      then show "\<exists>mid e. ex mid = Some e \<and> ex_cache_index e = Some i \<and> ex_block_addr e = sector_key (cb_tag (ta_lines t' ! i)) k"
        using sector_owned [OF own] st by simp
    qed
  qed
qed

subsection \<open>Updates of one line\<close>

lemma view_update_states:
  assumes "tags_view t' = (tags_view t)[i := (tg, sts)]" "j < length (ta_lines t)"
  shows "cb_tag (ta_lines t' ! j) = (if j = i then tg else cb_tag (ta_lines t ! j))"
    "statuses (ta_lines t' ! j) = (if j = i then sts else statuses (ta_lines t ! j))"
proof -
  have "length (ta_lines t') = length (ta_lines t)" using arg_cong [OF assms(1), of length] by simp
  then show "cb_tag (ta_lines t' ! j) = (if j = i then tg else cb_tag (ta_lines t ! j))"
    "statuses (ta_lines t' ! j) = (if j = i then sts else statuses (ta_lines t ! j))"
    using assms by (auto simp: state_of_view nth_list_update)
qed

text \<open>A sector that is not reserved is written or filled.\<close>

lemma store_ok_written:
  assumes s: "store_ok p t m ex h" and cfg: "cfg = cp_config p" and i: "i < get_num_lines cfg"
    and st: "st \<in> {VALID, MODIFIED}" and k: "k < slots (cc_cache_type cfg)" and t': "tags_ok cfg t'"
    and view: "tags_view t' = (tags_view t)[i := (cb_tag (ta_lines t ! i), (statuses (ta_lines t ! i))[k := st])]"
    and free: "waits_for_data p \<Longrightarrow> statuses (ta_lines t ! i) ! k \<noteq> RESERVED"
  shows "store_ok p t' m ex h"
proof -
  note t = store_okD(1) [OF s, folded cfg]
  have inr: "j < length (ta_lines t)" if "j < get_num_lines cfg" for j using tags_okD(1) [OF t that] .
  note states = view_update_states [OF view inr]
  have len: "length (statuses (ta_lines t ! i)) = slots (cc_cache_type cfg)"
    by (rule length_statuses [OF tags_okD(4) [OF t i]])
  show ?thesis
  proof (rule store_ok_tags [OF s t' [unfolded cfg]]; unfold cfg [symmetric])
    fix j assume j: "j < get_num_lines cfg" "\<not> is_invalid_line (ta_lines t ! j)"
    have "st \<in> set ((statuses (ta_lines t ! i))[k := st])" using k len by (simp add: set_update_memI)
    then show "\<not> is_invalid_line (ta_lines t' ! j)" using j states [OF j(1)] st by (auto simp: line_state_iff)
  next
    assume w: "waits_for_data p"
    note own = store_okD(6) [OF s w, folded cfg]
    show "reads_own_sectors cfg t' ex h"
      unfolding reads_own_sectors_def
    proof (rule conjI; intro allI impI)
      fix mid e mf j assume a: "ex mid = Some e" "h mid = Some mf" "ex_cache_index e = Some j"
      then have j: "j < get_num_lines cfg" using store_okD(3) [OF s a(1)] cfg by (auto simp: extra_ok_def)
      have "\<not> (j = i \<and> slot (cc_cache_type cfg) (get_access_sector_mask mf) = k)"
        using owns_sector [OF own a] free [OF w] by (auto simp: line_state_def)
      then show "line_state cfg t' j (get_access_sector_mask mf) = RESERVED \<and>
        ex_block_addr e = sector_key (cb_tag (ta_lines t' ! j)) (slot (cc_cache_type cfg) (get_access_sector_mask mf))"
        using owns_sector [OF own a] states [OF j] by (auto simp: line_state_def)
    next
      fix j l assume j: "j < get_num_lines cfg" "l < slots (cc_cache_type cfg)" "statuses (ta_lines t' ! j) ! l = RESERVED"
      then have "statuses (ta_lines t ! j) ! l = RESERVED"
        using states [OF j(1)] st len k by (cases "l = k"; cases "j = i") auto
      then show "\<exists>mid e. ex mid = Some e \<and> ex_cache_index e = Some j \<and> ex_block_addr e = sector_key (cb_tag (ta_lines t' ! j)) l"
        using sector_owned [OF own j(1,2)] states [OF j(1)] by (cases "j = i") simp_all
    qed
  qed
qed

text \<open>A new outstanding read with its reserved sector.\<close>

lemma reads_own_reserve:
  assumes own: "reads_own_sectors cfg t ex h" and i: "i < get_num_lines cfg" and k: "k < slots (cc_cache_type cfg)"
    and inr: "\<And>j. j < get_num_lines cfg \<Longrightarrow> j < length (ta_lines t)"
    and idx: "\<And>mid e. ex mid = Some e \<Longrightarrow> \<exists>j < get_num_lines cfg. ex_cache_index e = Some j"
    and view: "tags_view t' = (tags_view t)[i := (tg, sts)]"
    and sts: "sts ! k = RESERVED" "statuses (ta_lines t ! i) ! k \<noteq> RESERVED"
      "\<And>l. l < slots (cc_cache_type cfg) \<Longrightarrow> l \<noteq> k \<Longrightarrow> sts ! l = RESERVED \<Longrightarrow>
         statuses (ta_lines t ! i) ! l = RESERVED \<and> tg = cb_tag (ta_lines t ! i)"
      "\<And>l. l \<noteq> k \<Longrightarrow> statuses (ta_lines t ! i) ! l = RESERVED \<Longrightarrow> l < slots (cc_cache_type cfg) \<Longrightarrow>
         sts ! l = RESERVED \<and> tg = cb_tag (ta_lines t ! i)"
    and small: "\<And>mid e mf. ex mid = Some e \<Longrightarrow> h mid = Some mf \<Longrightarrow> slot (cc_cache_type cfg) (get_access_sector_mask mf) < slots (cc_cache_type cfg)"
    and e: "ex_cache_index e = Some i" "ex_block_addr e = sector_key tg k" "slot (cc_cache_type cfg) (get_access_sector_mask mf) = k"
    and fresh: "ex mid = None"
  shows "reads_own_sectors cfg t' (ex(mid := Some e)) (h(mid := Some mf))"
  unfolding reads_own_sectors_def
proof (rule conjI; intro allI impI)
  note states = view_update_states [OF view inr]
  fix mid' e' mf' j assume a: "(ex(mid := Some e)) mid' = Some e'" "(h(mid := Some mf)) mid' = Some mf'" "ex_cache_index e' = Some j"
  show "line_state cfg t' j (get_access_sector_mask mf') = RESERVED \<and>
    ex_block_addr e' = sector_key (cb_tag (ta_lines t' ! j)) (slot (cc_cache_type cfg) (get_access_sector_mask mf'))"
  proof (cases "mid' = mid")
    case True
    then show ?thesis using a e sts(1) states [OF i] by (auto simp: line_state_def)
  next
    case False
    then have old: "ex mid' = Some e'" "h mid' = Some mf'" using a by simp_all
    note o = owns_sector [OF own old a(3)]
    obtain j' where "j' < get_num_lines cfg" "ex_cache_index e' = Some j'" using idx [OF old(1)] by blast
    then have j: "j < get_num_lines cfg" using a(3) by simp
    show ?thesis
    proof (cases "j = i")
      case True
      then have "slot (cc_cache_type cfg) (get_access_sector_mask mf') \<noteq> k" using o sts(2) by (auto simp: line_state_def)
      then show ?thesis using sts(4) o True small [OF old] states [OF j] by (simp add: line_state_def)
    next
      case False
      then show ?thesis using o states [OF j] by (simp add: line_state_def)
    qed
  qed
next
  note states = view_update_states [OF view inr]
  fix j l assume j: "j < get_num_lines cfg" "l < slots (cc_cache_type cfg)" "statuses (ta_lines t' ! j) ! l = RESERVED"
  show "\<exists>mid' e'. (ex(mid := Some e)) mid' = Some e' \<and> ex_cache_index e' = Some j \<and>
    ex_block_addr e' = sector_key (cb_tag (ta_lines t' ! j)) l"
  proof (cases "j = i \<and> l = k")
    case True
    then show ?thesis using e states [OF j(1)] by (intro exI [of _ mid] exI [of _ e]) simp
  next
    case False
    then have "statuses (ta_lines t ! j) ! l = RESERVED \<and> cb_tag (ta_lines t' ! j) = cb_tag (ta_lines t ! j)"
      using j states [OF j(1)] sts(3) [of l] by (auto split: if_splits)
    then obtain mid' e' where "ex mid' = Some e'" "ex_cache_index e' = Some j" "ex_block_addr e' = sector_key (cb_tag (ta_lines t' ! j)) l"
      using sector_owned [OF own j(1,2)] by auto
    then show ?thesis using fresh by (intro exI [of _ mid'] exI [of _ e']) auto
  qed
qed

subsection \<open>Reads that leave the cache\<close>

lemma probe_add:
  assumes "add b mid a m = Some m'"
  shows "probe c m' \<longleftrightarrow> c = b \<or> probe c m"
proof -
  have "\<not> probe_ready b m" using add_effect [OF assms] by simp
  then show ?thesis using add_effect [OF assms]
    by (auto simp: probe_def probe_ready_iff data_at_def empty_entry_def split: option.splits)
qed

lemma probe_add_ready:
  assumes "add_ready b mid m = Some m'"
  shows "probe c m' = probe c m"
  using add_ready_effect [OF assms] by (cases "c = b") (auto simp: probe_def split: option.splits)

lemma probe_mark_ready:
  assumes "mark_ready b m = Some (a, m')"
  shows "probe c m' \<longleftrightarrow> c \<noteq> b \<and> probe c m"
  using mark_ready_effect [OF assms] by (cases "c = b") (auto simp: probe_def split: option.splits)

lemma probe_next_access:
  assumes "mshr_wf m" "next_access m = Some (a, m')"
  shows "probe c m' = probe c m"
proof -
  have "access_ready m" using assms(2) by (auto simp: next_access_def cassert_def split: if_splits)
  with assms(1) obtain b bs e mf ms where f: "mt_current_response m = b # bs" "fmlookup (mt_data m) b = Some e"
    "me_ready e" "me_list e = mf # ms" by (rule wf_front)
  then show ?thesis using next_access_front [OF f(1,2,4)] assms(2) by (auto simp: probe_def split: option.splits)
qed

lemma store_ok_mshr:
  assumes "store_ok p t m ex h" "mshr_wf m'" "\<And>b. probe b m' = probe b m"
  shows "store_ok p t m' ex h"
  using assms unfolding store_ok_def by simp

lemma store_ok_heap:
  assumes "store_ok p t m ex h" "ex mid = None"
  shows "store_ok p t m ex (h(mid := x))"
proof -
  have other: "(h(mid := x)) mid' = h mid'" if "ex mid' = Some e" for mid' e using that assms(2) by auto
  have "extra_ok (cp_config p) t (h(mid := x)) mid' e" if "ex mid' = Some e" for mid' e
    using store_okD(3) [OF assms(1) that] other [OF that] by (simp add: extra_ok_def)
  moreover have "reads_own_sectors (cp_config p) t ex (h(mid := x))" if own: "reads_own_sectors (cp_config p) t ex h"
    unfolding reads_own_sectors_def
  proof (rule conjI; intro allI impI)
    fix mid' e mf i assume a: "ex mid' = Some e" "(h(mid := x)) mid' = Some mf" "ex_cache_index e = Some i"
    then have "h mid' = Some mf" using other by simp
    then show "line_state (cp_config p) t i (get_access_sector_mask mf) = RESERVED \<and>
      ex_block_addr e = sector_key (cb_tag (ta_lines t ! i)) (slot (cc_cache_type (cp_config p)) (get_access_sector_mask mf))"
      by (rule owns_sector [OF own a(1) _ a(3)])
  next
    fix i k assume "i < get_num_lines (cp_config p)" "k < slots (cc_cache_type (cp_config p))" "statuses (ta_lines t ! i) ! k = RESERVED"
    then show "\<exists>mid e. ex mid = Some e \<and> ex_cache_index e = Some i \<and> ex_block_addr e = sector_key (cb_tag (ta_lines t ! i)) k"
      by (rule sector_owned [OF own])
  qed
  ultimately show ?thesis using assms(1) unfolding store_ok_def by blast
qed

lemma not_all_invalid: "k < length sts \<Longrightarrow> st \<noteq> INVALID \<Longrightarrow> \<not> set (sts[k := st]) \<subseteq> {INVALID}"
  by (meson set_update_memI singletonD subsetD)

text \<open>The condition under which the miss handlers ask for a line.\<close>

definition missed ::
  "cache_config \<Rightarrow> tag_array \<Rightarrow> u64 \<Rightarrow> mem_fetch \<Rightarrow> cache_request_status \<Rightarrow> nat \<Rightarrow> bool" where
  "missed cfg t addr mf st i \<longleftrightarrow>
     tag_probe cfg t addr (get_access_sector_mask mf) (get_is_write mf) = Some (st, Some i) \<and>
     st \<in> {HIT_RESERVED, MISS, SECTOR_MISS}"

text \<open>A sector that was not reserved is reserved now, in a line of the tag; no other reservation changes.\<close>

definition reserves :: "cache_config \<Rightarrow> tag_array \<Rightarrow> tag_array \<Rightarrow> u64 \<Rightarrow> nat set \<Rightarrow> nat \<Rightarrow> bool" where
  "reserves cfg t t' addr smask i \<longleftrightarrow> (\<exists>sts. tags_view t' = (tags_view t)[i := (tag cfg addr, sts)] \<and>
     sts ! slot (cc_cache_type cfg) smask = RESERVED \<and> line_state cfg t i smask \<noteq> RESERVED \<and>
     (\<forall>l < slots (cc_cache_type cfg). l \<noteq> slot (cc_cache_type cfg) smask \<longrightarrow>
        (sts ! l = RESERVED \<longleftrightarrow> statuses (ta_lines t ! i) ! l = RESERVED) \<and>
        (sts ! l = RESERVED \<longrightarrow> tag cfg addr = cb_tag (ta_lines t ! i))))"

text \<open>A dirty line that gives way to another tag is the one the access reports as evicted.\<close>

definition reports :: "cache_config \<Rightarrow> tag_array \<Rightarrow> tag_array \<Rightarrow> evicted_block_info option \<Rightarrow> bool" where
  "reports cfg t t' ev \<longleftrightarrow> (\<forall>i < get_num_lines cfg. is_modified_line (ta_lines t ! i) \<longrightarrow>
     cb_tag (ta_lines t' ! i) \<noteq> cb_tag (ta_lines t ! i) \<longrightarrow> ev = evicted_of (ta_lines t ! i))"

definition same_tags :: "cache_config \<Rightarrow> tag_array \<Rightarrow> tag_array \<Rightarrow> bool" where
  "same_tags cfg t t' \<longleftrightarrow> (\<forall>i < get_num_lines cfg. cb_tag (ta_lines t' ! i) = cb_tag (ta_lines t ! i))"

lemma reports_same_tags: "reports cfg t t' ev \<Longrightarrow> same_tags cfg t' t'' \<Longrightarrow> reports cfg t t'' ev"
  by (simp add: reports_def same_tags_def)

lemma same_tags_reports: "same_tags cfg t t' \<Longrightarrow> reports cfg t t' ev"
  by (simp add: reports_def same_tags_def)

lemma same_tags_refl [simp]: "same_tags cfg t t"
  by (simp add: same_tags_def)

lemma same_tags_trans: "same_tags cfg t t' \<Longrightarrow> same_tags cfg t' t'' \<Longrightarrow> same_tags cfg t t''"
  by (simp add: same_tags_def)

lemma same_tags_view:
  assumes "tags_ok cfg t" "tags_view t' = tags_view t \<or> tags_view t' = (tags_view t)[i := (cb_tag (ta_lines t ! i), sts)]"
  shows "same_tags cfg t t'"
  using assms(2)
proof
  assume v: "tags_view t' = tags_view t"
  have "length (ta_lines t') = length (ta_lines t)" using arg_cong [OF v, of length] by simp
  then show ?thesis using v tags_okD(1) [OF assms(1)] by (simp add: same_tags_def state_of_view)
next
  assume "tags_view t' = (tags_view t)[i := (cb_tag (ta_lines t ! i), sts)]"
  from view_update_states(1) [OF this] show ?thesis using tags_okD(1) [OF assms(1)] by (simp add: same_tags_def)
qed

text \<open>
  The access of a miss: the line is in use afterwards, nothing is freed, and either the sector was
  already reserved or it is reserved now.
\<close>

lemma access_missed:
  assumes cfg: "cache_cfg_ok cfg" and t: "tags_ok cfg t" and m: "one_sector (get_access_sector_mask mf)"
    and time: "time < 4294967295" and miss: "missed cfg t addr mf st i"
  obtains t' ev where "tag_access cfg addr time idx mf t = Some (st, Some i, ev, t')" "tags_ok cfg t'"
    "i < get_num_lines cfg" "ev \<noteq> None \<Longrightarrow> st = MISS" "\<not> is_invalid_line (ta_lines t' ! i)"
    "\<And>j. j < get_num_lines cfg \<Longrightarrow> \<not> is_invalid_line (ta_lines t ! j) \<Longrightarrow> \<not> is_invalid_line (ta_lines t' ! j)"
    "st = HIT_RESERVED \<Longrightarrow> tags_view t' = tags_view t \<and> holds_tag (tag cfg addr) (ta_lines t ! i) \<and>
       line_state cfg t i (get_access_sector_mask mf) = RESERVED"
    "st \<noteq> HIT_RESERVED \<Longrightarrow> reserves cfg t t' addr (get_access_sector_mask mf) i"
    "reports cfg t t' ev"
proof -
  let ?m = "get_access_sector_mask mf" and ?ct = "cc_cache_type cfg" and ?w = "get_is_write mf"
  have p: "tag_probe cfg t addr ?m ?w = Some (st, Some i)" and st: "st \<in> {HIT_RESERVED, MISS, SECTOR_MISS}"
    using miss by (simp_all add: missed_def)
  have inr: "j < length (ta_lines t)" if "j < get_num_lines cfg" for j using tags_okD(1) [OF t that] .
  have len: "length (statuses (ta_lines t ! j)) = slots ?ct" if "j < get_num_lines cfg" for j
    using length_statuses [OF tags_okD(4) [OF t that]] .
  have k: "slot ?ct ?m < slots ?ct" by (rule slot_less [OF m])
  from cfg t m show thesis
  proof (cases rule: probe_cases [where addr = addr])
    case (found j)
    then have j: "j = i" "st = match_status ?ct ?m ?w (ta_lines t ! i)" using p by auto
    then have i: "i < get_num_lines cfg" and holds: "holds_tag (tag cfg addr) (ta_lines t ! i)" using found by simp_all
    have used: "\<not> is_invalid_line (ta_lines t ! i)" using holds by (simp add: holds_tag_def)
    show thesis
    proof (cases "st = HIT_RESERVED")
      case True
      obtain t' where t': "tag_access cfg addr time idx mf t = Some (st, Some i, None, t')" "tags_ok cfg t'" "tags_view t' = tags_view t"
        using access_hit_effect [OF cfg t m time p _ i] True by blast
      have len': "length (ta_lines t') = length (ta_lines t)" using arg_cong [OF t'(3), of length] by simp
      have same: "is_invalid_line (ta_lines t' ! j) = is_invalid_line (ta_lines t ! j)" if "j < get_num_lines cfg" for j
        using inr [OF that] t'(3) len' by (simp add: invalid_of_view)
      have "line_state cfg t i ?m = RESERVED"
        using True j(2) match_status_RESERVED [of ?ct ?m ?w "ta_lines t ! i"] by (simp add: line_state_def)
      moreover have "reports cfg t t' None" using same_tags_view [OF t] t'(3) by (blast intro: same_tags_reports)
      ultimately show thesis using t' i same used holds True by (intro that [of None t']) auto
    next
      case False
      then have sm: "st = SECTOR_MISS" using st j(2) match_status_MISS [of ?ct ?m ?w "ta_lines t ! i"] by auto
      obtain t' where t': "tag_access cfg addr time idx mf t = Some (SECTOR_MISS, Some i, None, t')" "tags_ok cfg t'"
        "tags_view t' = (tags_view t)[i := (cb_tag (ta_lines t ! i), (statuses (ta_lines t ! i))[slot ?ct ?m := RESERVED])]"
        using access_sector_effect [OF t m time _ i used cfg] p sm j(2) by metis
      note states = view_update_states [OF t'(3) inr]
      have "\<not> is_invalid_line (ta_lines t' ! l)" if "l < get_num_lines cfg" "l = i \<or> \<not> is_invalid_line (ta_lines t ! l)" for l
        using that states [OF that(1)] k len [OF i] by (cases "l = i") (simp_all add: line_state_iff not_all_invalid)
      moreover have "line_state cfg t i ?m \<noteq> RESERVED"
        using sm j(2) match_status_RESERVED [of ?ct ?m ?w "ta_lines t ! i"] by (auto simp: line_state_def)
      moreover have "reports cfg t t' None" using same_tags_view [OF t] t'(3) by (blast intro: same_tags_reports)
      ultimately show thesis using t' i holds sm k len [OF i]
        by (intro that [of None t']) (auto simp: holds_tag_def reserves_def intro!: exI [of _ "(statuses (ta_lines t ! i))[slot ?ct ?m := RESERVED]"])
    qed
  next
    case (miss j)
    then have j: "j = i" "st = MISS" using p by auto
    then have i: "i < get_num_lines cfg" using miss by simp
    obtain t' where t': "tag_access cfg addr time idx mf t = Some (MISS, Some i, evicted_of (ta_lines t ! i), t')" "tags_ok cfg t'"
      "tags_view t' = (tags_view t)[i := (tag cfg addr, (replicate (slots ?ct) INVALID)[slot ?ct ?m := RESERVED])]"
      using access_miss_effect [OF t m time _ i cfg _ miss(5)] p j miss(3) by metis
    note states = view_update_states [OF t'(3) inr]
    have "\<not> is_invalid_line (ta_lines t' ! l)" if "l < get_num_lines cfg" "l = i \<or> \<not> is_invalid_line (ta_lines t ! l)" for l
      using that states [OF that(1)] k by (cases "l = i") (simp_all add: line_state_iff not_all_invalid)
    moreover have none: "statuses (ta_lines t ! i) ! l \<noteq> RESERVED" if "l < slots ?ct" for l
      using miss(4) j(1) that len [OF i] by (metis line_state_iff(1) nth_mem)
    moreover have "reports cfg t t' (evicted_of (ta_lines t ! i))" using states inr by (auto simp: reports_def)
    ultimately show thesis using t' i j(2) k none [OF k]
      by (intro that [of "evicted_of (ta_lines t ! i)" t'])
         (auto simp: line_state_def reserves_def intro!: exI [of _ "(replicate (slots ?ct) INVALID)[slot ?ct ?m := RESERVED]"])
  next
    case fail
    then show thesis using p by simp
  qed
qed

lemma store_ok_add:
  assumes s: "store_ok p t m ex h" and fresh: "ex mid = None"
    and t': "tags_ok (cp_config p) t'"
      "\<And>j. j < get_num_lines (cp_config p) \<Longrightarrow> \<not> is_invalid_line (ta_lines t ! j) \<Longrightarrow> \<not> is_invalid_line (ta_lines t' ! j)"
    and m': "mshr_wf m'" "\<And>c. probe c m' \<longleftrightarrow> c = ex_block_addr e \<or> probe c m" "\<not> probe (ex_block_addr e) m"
    and e: "ex_cache_index e = Some i" "i < get_num_lines (cp_config p)" "\<not> is_invalid_line (ta_lines t' ! i)"
      "one_sector (get_access_sector_mask mf)"
    and own: "waits_for_data p \<Longrightarrow> reads_own_sectors (cp_config p) t' (ex(mid := Some e)) (h(mid := Some mf))"
  shows "store_ok p t' m' (ex(mid := Some e)) (h(mid := Some mf))"
proof -
  have "extra_ok (cp_config p) t' (h(mid := Some mf)) mid' e'" if "(ex(mid := Some e)) mid' = Some e'" for mid' e'
  proof (cases "mid' = mid")
    case True
    then show ?thesis using that e by (simp add: extra_ok_def)
  next
    case False
    then show ?thesis using that extra_ok_lines [OF store_okD(3) [OF s] t'(2), of mid' e'] by (simp add: extra_ok_def)
  qed
  moreover have "probe b m' \<longleftrightarrow> (\<exists>mid' e'. (ex(mid := Some e)) mid' = Some e' \<and> ex_block_addr e' = b)" for b
    using m'(2) store_okD(4) [OF s, of b] fresh by (metis fun_upd_apply option.distinct(1) option.inject)
  moreover have "mid1 = mid2" if "(ex(mid := Some e)) mid1 = Some e1" "(ex(mid := Some e)) mid2 = Some e2"
    "ex_block_addr e1 = ex_block_addr e2" for mid1 mid2 e1 e2
    using that m'(3) store_okD(4) [OF s, of "ex_block_addr e"] store_okD(5) [OF s]
    by (metis fun_upd_apply option.inject)
  ultimately show ?thesis using t'(1) m'(1) own unfolding store_ok_def by blast
qed

lemma missed_unique:
  assumes "cache_cfg_ok cfg" "tags_ok cfg t" "one_sector (get_access_sector_mask mf)" "missed cfg t addr mf st i"
    "j < get_num_lines cfg" "holds_tag (tag cfg addr) (ta_lines t ! j)"
  shows "i = j" "st = match_status (cc_cache_type cfg) (get_access_sector_mask mf) (get_is_write mf) (ta_lines t ! j)"
proof -
  have p: "tag_probe cfg t addr (get_access_sector_mask mf) (get_is_write mf) = Some (st, Some i)"
    using assms(4) by (simp add: missed_def)
  have "i = j \<and> st = match_status (cc_cache_type cfg) (get_access_sector_mask mf) (get_is_write mf) (ta_lines t ! j)"
    using assms(1-3)
  proof (cases rule: probe_cases [where addr = addr])
    case (found k)
    then have "k = j" using tags_ok_unique [OF assms(2) _ assms(5) _ assms(6)] by blast
    then show ?thesis using found(1) [of "get_is_write mf"] p by auto
  qed (use p assms(5,6) in \<open>auto simp: absent_def\<close>)
  then show "i = j" "st = match_status (cc_cache_type cfg) (get_access_sector_mask mf) (get_is_write mf) (ta_lines t ! j)" by simp_all
qed

text \<open>Under the waiting policies a sector is reserved exactly when a read for it is outstanding.\<close>

lemma reserved_iff_outstanding:
  assumes pok: "cache_params_ok p" and s: "store_ok p t m ex h" and w: "waits_for_data p"
    and m: "one_sector (get_access_sector_mask mf)" and miss: "missed (cp_config p) t baddr mf st i"
    and key: "key = sector_key (tag (cp_config p) baddr) (slot (cc_cache_type (cp_config p)) (get_access_sector_mask mf))"
  shows "probe key m \<longleftrightarrow> st = HIT_RESERVED"
proof
  let ?cfg = "cp_config p" and ?k = "slot (cc_cache_type (cp_config p)) (get_access_sector_mask mf)"
  have cfg: "cache_cfg_ok ?cfg" and apart: "sectors_apart ?cfg" using pok by (simp_all add: cache_params_ok_def Let_def)
  note t = store_okD(1) [OF s] and own = store_okD(6) [OF s w]
  show "st = HIT_RESERVED" if pk: "probe key m"
  proof -
    obtain mid' e where e: "ex mid' = Some e" "ex_block_addr e = key"
      using store_okD(4) [OF s, THEN iffD1, OF pk] by (elim exE conjE)
    obtain mf' j where j: "h mid' = Some mf'" "one_sector (get_access_sector_mask mf')" "ex_cache_index e = Some j"
      "j < get_num_lines ?cfg" "\<not> is_invalid_line (ta_lines t ! j)"
      using store_okD(3) [OF s e(1)] by (auto simp: extra_ok_def)
    note o = owns_sector [OF own e(1) j(1,3)]
    have "tag ?cfg (cb_tag (ta_lines t ! j)) = cb_tag (ta_lines t ! j)"
      using tags_okD(3) [OF t j(4)] j(5) by (simp add: line_placed_def)
    then have "sector_key (tag ?cfg (cb_tag (ta_lines t ! j))) (slot (cc_cache_type ?cfg) (get_access_sector_mask mf')) =
        sector_key (tag ?cfg baddr) ?k" using o e(2) key by simp
    then have same: "tag ?cfg (cb_tag (ta_lines t ! j)) = tag ?cfg baddr" "slot (cc_cache_type ?cfg) (get_access_sector_mask mf') = ?k"
      using apart [unfolded sectors_apart_def, rule_format, OF slot_less [OF j(2)] slot_less [OF m]] by simp_all
    then have "holds_tag (tag ?cfg baddr) (ta_lines t ! j)" using j(5) tags_okD(3) [OF t j(4)] by (simp add: holds_tag_def line_placed_def)
    then show ?thesis using missed_unique(2) [OF cfg t m miss j(4)] o same(2)
      by (simp add: match_status_RESERVED line_state_def)
  qed
  show "probe key m" if "st = HIT_RESERVED"
  proof -
    have p: "tag_probe ?cfg t baddr (get_access_sector_mask mf) (get_is_write mf) = Some (st, Some i)"
      using miss by (simp add: missed_def)
    from cfg t m show ?thesis
    proof (cases rule: probe_cases [where addr = baddr])
      case (found j)
      then have "statuses (ta_lines t ! j) ! ?k = RESERVED" using p that match_status_RESERVED by (metis option.inject prod.inject)
      then obtain mid' e where "ex mid' = Some e" "ex_block_addr e = sector_key (cb_tag (ta_lines t ! j)) ?k"
        using sector_owned [OF own found(2) slot_less [OF m]] by auto
      then show ?thesis using found(4) key by (intro store_okD(4) [OF s, THEN iffD2]) (auto simp: holds_tag_def)
    qed (use p that in auto)
  qed
qed

subsection \<open>The miss path\<close>

definition keeps_requests :: "data_cache \<Rightarrow> data_cache \<Rightarrow> bool" where
  "keeps_requests s s' \<longleftrightarrow> (\<forall>mid. dc_heap s mid \<noteq> None \<longrightarrow> dc_heap s' mid \<noteq> None)"

lemma send_read_request_ok:
  assumes pok: "cache_params_ok p" and ok: "cache_ok p s" and mf: "dc_heap s mid = Some mf"
    and fresh: "dc_extra s mid = None" and m: "one_sector (get_access_sector_mask mf)"
    and key: "mshr_addr (cp_config p) (get_addr mf) =
      sector_key (tag (cp_config p) baddr) (slot (cc_cache_type (cp_config p)) (get_access_sector_mask mf))"
    and time: "time < 4294967295" and miss: "missed (cp_config p) (dc_tags s) baddr mf st i"
    and room: "length (dc_miss_queue s) < cc_miss_queue_size (cp_config p)"
  obtains do_miss ev s' where "send_read_request p baddr (Some i) mid time False wa s = Some (do_miss, ev, s')"
    "cache_ok p s'" "ev \<noteq> None \<Longrightarrow> st = MISS" "keeps_requests s s'"
    "reports (cp_config p) (dc_tags s) (dc_tags s') ev" "\<not> do_miss \<Longrightarrow> ev = None"
proof -
  let ?cfg = "cp_config p" and ?m = "get_access_sector_mask mf" and ?b = "mshr_addr (cp_config p) (get_addr mf)"
  let ?k = "slot (cc_cache_type ?cfg) ?m"
  have cfg: "cache_cfg_ok ?cfg" using pok by (simp add: cache_params_ok_def Let_def)
  have st: "store_ok p (dc_tags s) (dc_mshrs s) (dc_extra s) (dc_heap s)" and heap: "heap_ok s"
    using ok by (simp_all add: cache_ok_def)
  note t = store_okD(1) [OF st] and wf = store_okD(2) [OF st]
  consider (forward) "ready_forward_eligible (dc_mshrs s) ?b wa (mf_atomic mf)"
    | (merge) "\<not> ready_forward_eligible (dc_mshrs s) ?b wa (mf_atomic mf)" "probe ?b (dc_mshrs s)" "\<not> full ?b (dc_mshrs s)"
    | (new) "\<not> ready_forward_eligible (dc_mshrs s) ?b wa (mf_atomic mf)" "\<not> probe ?b (dc_mshrs s)" "\<not> full ?b (dc_mshrs s)"
    | (none) "\<not> ready_forward_eligible (dc_mshrs s) ?b wa (mf_atomic mf)" "full ?b (dc_mshrs s)" by blast
  then show thesis
  proof cases
    case forward
    then obtain m' where m': "add_ready ?b mid (dc_mshrs s) = Some m'"
      by (auto simp: ready_forward_eligible_def add_ready_def Let_def)
    have "send_read_request p baddr (Some i) mid time False wa s = Some (True, None, s\<lparr>dc_mshrs := m'\<rparr>)"
      using forward mf m' by (simp add: send_read_request_def)
    moreover have "cache_ok p (s\<lparr>dc_mshrs := m'\<rparr>)"
      using store_ok_mshr [OF st add_ready_keeps [OF wf m'] probe_add_ready [OF m']] heap
      by (simp add: cache_ok_def heap_ok_def)
    ultimately show thesis using that by (simp add: keeps_requests_def same_tags_reports)
  next
    case none
    then have "send_read_request p baddr (Some i) mid time False wa s = Some (False, None, s)"
      using mf by (simp add: send_read_request_def Let_def)
    then show thesis using ok by (intro that [of False None s]) (simp_all add: keeps_requests_def same_tags_reports)
  next
    case merge
    obtain t' ev where a: "tag_access ?cfg baddr time (Some i) mf (dc_tags s) = Some (st, Some i, ev, t')" "tags_ok ?cfg t'"
      "ev \<noteq> None \<Longrightarrow> st = MISS"
      "\<And>j. j < get_num_lines ?cfg \<Longrightarrow> \<not> is_invalid_line (ta_lines (dc_tags s) ! j) \<Longrightarrow> \<not> is_invalid_line (ta_lines t' ! j)"
      "st = HIT_RESERVED \<Longrightarrow> tags_view t' = tags_view (dc_tags s)" "reports ?cfg (dc_tags s) t' ev"
      using access_missed [OF cfg t m time miss] by metis
    obtain m' where m': "add ?b mid (mf_atomic mf) (dc_mshrs s) = Some m'" using add_defined [OF wf merge(3)] by blast
    let ?s = "s\<lparr>dc_tags := t', dc_mshrs := m'\<rparr>"
    have "store_ok p t' (dc_mshrs s) (dc_extra s) (dc_heap s)"
    proof (cases "waits_for_data p")
      case True
      then have "st = HIT_RESERVED" using reserved_iff_outstanding [OF pok st _ m miss key] merge(2) by simp
      then show ?thesis using store_ok_same [OF st a(2)] a(5) by simp
    next
      case False
      then show ?thesis by (intro store_ok_tags [OF st a(2) a(4)]) simp_all
    qed
    then have "store_ok p t' m' (dc_extra s) (dc_heap s)"
      by (rule store_ok_mshr [OF _ add_keeps [OF wf m']]) (use probe_add [OF m'] merge(2) in auto)
    then have "cache_ok p ?s" using heap by (simp add: cache_ok_def heap_ok_def)
    moreover have "send_read_request p baddr (Some i) mid time False wa s = Some (True, ev, ?s)"
      using merge mf m' a(1) by (simp add: send_read_request_def read_access_tags_def)
    ultimately show thesis using that a(3,6) by (simp add: keeps_requests_def)
  next
    case new
    obtain t' ev where
      a: "tag_access ?cfg baddr time (Some i) mf (dc_tags s) = Some (st, Some i, ev, t')" "tags_ok ?cfg t'"
      "i < get_num_lines ?cfg" "ev \<noteq> None \<Longrightarrow> st = MISS" "\<not> is_invalid_line (ta_lines t' ! i)"
      "\<And>j. j < get_num_lines ?cfg \<Longrightarrow> \<not> is_invalid_line (ta_lines (dc_tags s) ! j) \<Longrightarrow> \<not> is_invalid_line (ta_lines t' ! j)"
      and reserved: "st \<noteq> HIT_RESERVED \<Longrightarrow> reserves ?cfg (dc_tags s) t' baddr ?m i" "reports ?cfg (dc_tags s) t' ev"
      using access_missed [OF cfg t m time miss] by metis
    obtain m' where m': "add ?b mid (mf_atomic mf) (dc_mshrs s) = Some m'" using add_defined [OF wf new(3)] by blast
    let ?e = "extra_of ?cfg ?b (get_addr mf) (Some i) (mf_data_size mf)"
    let ?mf = "set_addr ?b (mf\<lparr>mf_data_size := cc_atom_sz ?cfg\<rparr>)"
    have msk: "get_access_sector_mask ?mf = ?m" by (simp add: set_addr_def get_access_sector_mask_def)
    have e: "ex_block_addr ?e = ?b" "ex_cache_index ?e = Some i" by (simp_all add: extra_of_def)
    have own: "reads_own_sectors ?cfg t' ((dc_extra s)(mid := Some ?e)) ((dc_heap s)(mid := Some ?mf))" if w: "waits_for_data p"
    proof -
      have "st \<noteq> HIT_RESERVED" using reserved_iff_outstanding [OF pok st w m miss key] new(2) by simp
      then obtain sts where sts: "tags_view t' = (tags_view (dc_tags s))[i := (tag ?cfg baddr, sts)]" "sts ! ?k = RESERVED"
        "line_state ?cfg (dc_tags s) i ?m \<noteq> RESERVED"
        "\<And>l. l < slots (cc_cache_type ?cfg) \<Longrightarrow> l \<noteq> ?k \<Longrightarrow>
            (sts ! l = RESERVED \<longleftrightarrow> statuses (ta_lines (dc_tags s) ! i) ! l = RESERVED) \<and>
            (sts ! l = RESERVED \<longrightarrow> tag ?cfg baddr = cb_tag (ta_lines (dc_tags s) ! i))"
        using reserved(1) unfolding reserves_def by auto
      show ?thesis
      proof (rule reads_own_reserve [OF store_okD(6) [OF st w] a(3) slot_less [OF m] tags_okD(1) [OF t] _ sts(1,2) _ _ _ _ e(2)])
        show "\<exists>j < get_num_lines ?cfg. ex_cache_index e' = Some j" if "dc_extra s mid' = Some e'" for mid' e'
          using store_okD(3) [OF st that] by (auto simp: extra_ok_def)
        show "slot (cc_cache_type ?cfg) (get_access_sector_mask mf') < slots (cc_cache_type ?cfg)"
          if "dc_extra s mid' = Some e'" "dc_heap s mid' = Some mf'" for mid' e' mf'
          using store_okD(3) [OF st that(1)] that(2) by (auto simp: extra_ok_def intro: slot_less)
      qed (use sts(3,4) e(1) key msk fresh in \<open>auto simp: line_state_def\<close>)
    qed
    have store: "store_ok p t' m' ((dc_extra s)(mid := Some ?e)) ((dc_heap s)(mid := Some ?mf))"
      using store_ok_add [OF st fresh a(2,6) add_keeps [OF wf m'], of ?e i ?mf] probe_add [OF m'] new(2) e a(3,5) m msk own by simp
    let ?s = "s\<lparr>dc_tags := t', dc_mshrs := m', dc_extra := (dc_extra s)(mid := Some ?e),
      dc_heap := (dc_heap s)(mid := Some ?mf), dc_miss_queue := dc_miss_queue s @ [mid],
      dc_events := dc_events s @ (if wa then [] else [event READ_REQUEST_SENT])\<rparr>"
    have "cache_ok p ?s" using store heap mf by (auto simp: cache_ok_def heap_ok_def)
    moreover have "send_read_request p baddr (Some i) mid time False wa s = Some (True, ev, ?s)"
      using new mf m' a(1) room by (simp add: send_read_request_def read_access_tags_def Let_def)
    ultimately show thesis using that [of True ev ?s] a(4) reserved(2) by (auto simp: keeps_requests_def)
  qed
qed

subsection \<open>Hits and writes\<close>

lemma probe_result:
  assumes cfg: "cache_cfg_ok cfg" and t: "tags_ok cfg t" and m: "one_sector smask"
  obtains (hit) i where "tag_probe cfg t addr smask w = Some (HIT, Some i)" "i < get_num_lines cfg"
      "\<not> is_invalid_line (ta_lines t ! i)" "line_state cfg t i smask \<in> {VALID, MODIFIED}"
  | (miss) st i where "tag_probe cfg t addr smask w = Some (st, Some i)" "st \<in> {HIT_RESERVED, MISS, SECTOR_MISS}"
      "w \<Longrightarrow> tag_probe cfg t addr smask False = Some (st, Some i)" "i < get_num_lines cfg"
  | (fail) "tag_probe cfg t addr smask w = Some (RESERVATION_FAIL, None)"
  using cfg t m
proof (cases rule: probe_cases [where addr = addr])
  case (found i)
  let ?st = "match_status (cc_cache_type cfg) smask w (ta_lines t ! i)"
  show thesis
  proof (cases "?st = HIT")
    case True
    then show thesis using hit [of i] found match_status_HIT [OF True] by (simp add: holds_tag_def line_state_def)
  next
    case False
    then have "w \<Longrightarrow> match_status (cc_cache_type cfg) smask False (ta_lines t ! i) = ?st"
      using match_status_write [of "cc_cache_type cfg" smask "ta_lines t ! i" False] by (cases w) simp_all
    then show thesis using miss [of ?st i] found False match_status_MISS [of "cc_cache_type cfg" smask w "ta_lines t ! i"]
      by auto
  qed
qed (use miss fail in auto)

lemma mark_modified_ok:
  assumes s: "store_ok p t m ex h" and i: "i < get_num_lines (cp_config p)" and msk: "one_sector (get_access_sector_mask mf)"
    and used: "\<not> is_invalid_line (ta_lines t ! i)"
    and free: "waits_for_data p \<Longrightarrow> line_state (cp_config p) t i (get_access_sector_mask mf) \<noteq> RESERVED"
  obtains t' where "mark_modified i mf t = Some t'" "store_ok p t' m ex h" "same_tags (cp_config p) t t'"
proof -
  let ?cfg = "cp_config p" and ?k = "slot (cc_cache_type (cp_config p)) (get_access_sector_mask mf)"
  obtain t' where t': "mark_modified i mf t = Some t'" "tags_ok ?cfg t'"
    "tags_view t' = (tags_view t)[i := (cb_tag (ta_lines t ! i), (statuses (ta_lines t ! i))[?k := MODIFIED])]"
    by (rule mark_modified_effect [OF store_okD(1) [OF s] msk i used])
  have "store_ok p t' m ex h"
    by (rule store_ok_written [OF s refl i _ slot_less [OF msk] t'(2,3)]) (use free in \<open>simp_all add: line_state_def\<close>)
  with t'(1) show thesis by (rule that) (use same_tags_view [OF store_okD(1) [OF s]] t'(3) in blast)
qed

lemma flag_ok:
  assumes s: "store_ok p t m ex h" and i: "i < get_num_lines (cp_config p)"
    and f: "same_states (cc_cache_type (cp_config p)) 0 f"
  obtains t' where "upd_line i f t = Some t'" "store_ok p t' m ex h" "same_tags (cp_config p) t t'"
proof -
  obtain t' where t': "upd_line i f t = Some t'" "tags_ok (cp_config p) t'" "tags_view t' = tags_view t"
    by (rule upd_line_same [OF store_okD(1) [OF s] i _ f]) auto
  show thesis by (rule that [OF t'(1) store_ok_same [OF s t'(2,3)]]) (use same_tags_view [OF store_okD(1) [OF s]] t'(3) in blast)
qed

lemma update_m_readable_ok:
  assumes s: "store_ok p t m ex h" and i: "i < get_num_lines (cp_config p)" and msk: "one_sector (get_access_sector_mask mf)"
  obtains t' where "update_m_readable mf i t = Some t'" "store_ok p t' m ex h" "same_tags (cp_config p) t t'"
proof -
  let ?step = "\<lambda>t k. if k \<in> get_access_sector_mask mf \<and>
      list_all (\<lambda>b. b \<in> get_dirty_byte_mask (ta_lines t ! i)) [k * SECTOR_SIZE..<(k + 1) * SECTOR_SIZE]
    then upd_line i (set_m_readable True (get_access_sector_mask mf)) t else Some t"
  have "\<exists>t'. run_ops ?step t ks = Some t' \<and> store_ok p t' m ex h \<and> same_tags (cp_config p) t t'" if "store_ok p t m ex h" for ks t
    using that
  proof (induction ks arbitrary: t)
    case (Cons k ks)
    obtain t1 where t1: "?step t k = Some t1" "store_ok p t1 m ex h" "same_tags (cp_config p) t t1"
    proof (cases "k \<in> get_access_sector_mask mf \<and>
        list_all (\<lambda>b. b \<in> get_dirty_byte_mask (ta_lines t ! i)) [k * SECTOR_SIZE..<(k + 1) * SECTOR_SIZE]")
      case True
      then show thesis using flag_ok [OF Cons.prems i same_states_flags(4) [OF msk, of _ True]] that by auto
    next
      case False
      then have "?step t k = Some t" by auto
      then show thesis by (rule that [OF _ Cons.prems same_tags_refl])
    qed
    obtain t2 where "run_ops ?step t1 ks = Some t2" "store_ok p t2 m ex h" "same_tags (cp_config p) t1 t2"
      using Cons.IH [OF t1(2)] by blast
    then show ?case using t1(1) same_tags_trans [OF t1(3)] by (intro exI [of _ t2]) (simp only: run_ops.simps, simp)
  qed simp
  with s show thesis using that unfolding update_m_readable_def by blast
qed

lemma hit_ok:
  assumes pok: "cache_params_ok p" and s: "store_ok p t m ex h" and msk: "one_sector (get_access_sector_mask mf)"
    and time: "time < 4294967295"
    and hit: "tag_probe (cp_config p) t addr (get_access_sector_mask mf) (get_is_write mf) = Some (HIT, Some i)"
  obtains t' where "tag_access_clean (cp_config p) addr time idx mf t = Some (HIT, Some i, t')" "store_ok p t' m ex h"
    "i < get_num_lines (cp_config p)" "\<not> is_invalid_line (ta_lines t' ! i)"
    "line_state (cp_config p) t' i (get_access_sector_mask mf) \<noteq> RESERVED" "same_tags (cp_config p) t t'"
proof -
  let ?cfg = "cp_config p"
  have cfg: "cache_cfg_ok ?cfg" using pok by (simp add: cache_params_ok_def Let_def)
  note t = store_okD(1) [OF s]
  have i: "i < get_num_lines ?cfg" "\<not> is_invalid_line (ta_lines t ! i)"
    "line_state ?cfg t i (get_access_sector_mask mf) \<in> {VALID, MODIFIED}"
    using cfg t msk by (cases rule: probe_result [where addr = addr and w = "get_is_write mf"]; use hit in auto)+
  obtain t' where t': "tag_access ?cfg addr time idx mf t = Some (HIT, Some i, None, t')" "tags_ok ?cfg t'" "tags_view t' = tags_view t"
    using access_hit_effect [OF cfg t msk time hit _ i(1)] by blast
  have inr: "i < length (ta_lines t)" "i < length (ta_lines t')" by (rule tags_okD(1) [OF t i(1)], rule tags_okD(1) [OF t'(2) i(1)])
  have "\<not> is_invalid_line (ta_lines t' ! i)" "line_state ?cfg t' i (get_access_sector_mask mf) \<noteq> RESERVED"
    using i(2,3) inr t'(3) by (auto simp: invalid_of_view line_state_def state_of_view)
  with t' i(1) show thesis using store_ok_same [OF s t'(2,3)] same_tags_view [OF t]
    by (intro that [of t']) (simp_all add: tag_access_clean_def)
qed

lemma cache_ok_queue:
  "cache_ok p s \<Longrightarrow> dc_heap s mid \<noteq> None \<Longrightarrow> cache_ok p (send_write_request mid ev s)"
  by (simp add: cache_ok_def heap_ok_def send_write_request_def)

lemma cache_ok_events [simp]: "cache_ok p (s\<lparr>dc_events := ev\<rparr>) = cache_ok p s"
  by (simp add: cache_ok_def heap_ok_def)

lemma cache_ok_ports [simp]:
  "cache_ok p (s\<lparr>dc_data_port := n\<rparr>) = cache_ok p s" "cache_ok p (s\<lparr>dc_fill_port := n\<rparr>) = cache_ok p s"
  by (simp_all add: cache_ok_def heap_ok_def)

lemma cache_ok_tags:
  "cache_ok p s \<Longrightarrow> store_ok p t (dc_mshrs s) (dc_extra s) (dc_heap s) \<Longrightarrow> cache_ok p (s\<lparr>dc_tags := t\<rparr>)"
  by (simp add: cache_ok_def heap_ok_def)

lemma cache_okD: "cache_ok p s \<Longrightarrow> store_ok p (dc_tags s) (dc_mshrs s) (dc_extra s) (dc_heap s)"
  by (simp add: cache_ok_def)

lemma fresh_next:
  assumes "cache_ok p s"
  shows "dc_heap s (dc_next s) = None" "dc_extra s (dc_next s) = None"
proof -
  show h: "dc_heap s (dc_next s) = None" using assms by (auto simp: cache_ok_def heap_ok_def)
  show "dc_extra s (dc_next s) = None"
  proof (cases "dc_extra s (dc_next s)")
    case (Some e)
    then show ?thesis using store_okD(3) [OF cache_okD [OF assms] Some] h by (simp add: extra_ok_def)
  qed
qed

lemma new_mf_ok:
  assumes "cache_ok p s"
  shows "cache_ok p (snd (new_mf mf s))" "keeps_requests s (snd (new_mf mf s))"
proof -
  note f = fresh_next [OF assms]
  have "store_ok p (dc_tags s) (dc_mshrs s) (dc_extra s) ((dc_heap s)(dc_next s := Some mf))"
    by (rule store_ok_heap [OF cache_okD [OF assms] f(2)])
  then show "cache_ok p (snd (new_mf mf s))"
    using assms f by (auto simp: cache_ok_def heap_ok_def new_mf_def less_Suc_eq)
  show "keeps_requests s (snd (new_mf mf s))" by (simp add: keeps_requests_def new_mf_def)
qed

lemma keeps_requests_trans: "keeps_requests s s' \<Longrightarrow> keeps_requests s' s'' \<Longrightarrow> keeps_requests s s''"
  by (simp add: keeps_requests_def)

lemma write_back_ok:
  assumes "cache_ok p s"
  shows "cache_ok p (write_back p mf wb ev s)" "keeps_requests s (write_back p mf wb ev s)"
proof -
  have "cache_ok p (send_write_request (fst (new_mf x s)) ev (snd (new_mf x s)))" for x
    by (rule cache_ok_queue [OF new_mf_ok(1) [OF assms]]) (simp add: new_mf_def)
  then show "cache_ok p (write_back p mf wb ev s)"
    using assms by (simp add: write_back_def case_prod_beta split: option.split)
  show "keeps_requests s (write_back p mf wb ev s)"
    by (simp add: write_back_def case_prod_beta keeps_requests_def new_mf_def send_write_request_def split: option.split)
qed

end
