(* ===== verification/Cache_Handlers.thy ===== *)
theory Cache_Handlers
  imports Cache_Invariant
begin

section \<open>The handlers of a cache access\<close>

text \<open>
  Every hit and miss handler returns, keeps the invariant of \<open>Cache_Invariant\<close>, and
  forgets no request.
\<close>

subsection \<open>The handlers\<close>

text \<open>What a handler must achieve: it returns, keeps the invariant, and forgets no request.\<close>

text \<open>
  A dirty line that the access replaced is written back: a new request with its address, its
  dirty bytes and sectors, and their size waits in the miss queue.
\<close>

definition wb_request :: "cache_params \<Rightarrow> cache_block \<Rightarrow> mem_fetch \<Rightarrow> bool" where
  "wb_request p b m \<longleftrightarrow> get_is_write m \<and> get_access_type m = cp_wrbk_type p \<and> get_addr m = cb_block_addr b \<and>
     mf_data_size m = get_modified_size b \<and> get_access_byte_mask m = get_dirty_byte_mask b \<and>
     get_access_sector_mask m = get_dirty_sector_mask b"

definition dirty_kept :: "cache_params \<Rightarrow> data_cache \<Rightarrow> data_cache \<Rightarrow> bool" where
  "dirty_kept p s s' \<longleftrightarrow> (\<forall>i < get_num_lines (cp_config p). is_modified_line (ta_lines (dc_tags s) ! i) \<longrightarrow>
     cb_tag (ta_lines (dc_tags s') ! i) \<noteq> cb_tag (ta_lines (dc_tags s) ! i) \<longrightarrow>
     (\<exists>w m. w \<in> set (dc_miss_queue s') \<and> dc_heap s w = None \<and> dc_heap s' w = Some m \<and>
        wb_request p (ta_lines (dc_tags s) ! i) m))"

lemma dirty_kept_same: "same_tags (cp_config p) (dc_tags s) (dc_tags s') \<Longrightarrow> dirty_kept p s s'"
  by (simp add: dirty_kept_def same_tags_def)

lemma dirty_kept_none: "reports (cp_config p) (dc_tags s) (dc_tags s') None \<Longrightarrow> dirty_kept p s s'"
  by (simp add: dirty_kept_def reports_def evicted_of_def)

lemma write_back_kept:
  assumes r: "reports (cp_config p) (dc_tags s) (dc_tags s') ev" and ok: "cache_ok p s'" and k: "keeps_requests s s'"
    and wb: "cc_write_policy (cp_config p) = WRITE_BACK"
  shows "dirty_kept p s (write_back p mf ev request s')"
proof (cases ev)
  case None
  then show ?thesis using r dirty_kept_none by (simp add: write_back_def)
next
  case (Some e)
  let ?w = "dc_next s'"
  have fresh: "dc_heap s ?w = None" using fresh_next(1) [OF ok] k by (auto simp: keeps_requests_def)
  show ?thesis
    unfolding dirty_kept_def
  proof (intro allI impI)
    fix i assume i: "i < get_num_lines (cp_config p)" "is_modified_line (ta_lines (dc_tags s) ! i)"
      "cb_tag (ta_lines (dc_tags (write_back p mf ev request s')) ! i) \<noteq> cb_tag (ta_lines (dc_tags s) ! i)"
    have "dc_tags (write_back p mf ev request s') = dc_tags s'"
      using Some wb by (simp add: write_back_def new_mf_def send_write_request_def)
    then have "Some e = evicted_of (ta_lines (dc_tags s) ! i)" using r i Some by (simp add: reports_def)
    then have e: "e = \<lparr>ev_block_addr = cb_block_addr (ta_lines (dc_tags s) ! i), ev_modified_size = get_modified_size (ta_lines (dc_tags s) ! i),
        ev_byte_mask = get_dirty_byte_mask (ta_lines (dc_tags s) ! i), ev_sector_mask = get_dirty_sector_mask (ta_lines (dc_tags s) ! i)\<rparr>"
      using i(2) by (simp add: evicted_of_def)
    show "\<exists>w m. w \<in> set (dc_miss_queue (write_back p mf ev request s')) \<and> dc_heap s w = None \<and>
        dc_heap (write_back p mf ev request s') w = Some m \<and> wb_request p (ta_lines (dc_tags s) ! i) m"
      using Some wb fresh
      by (intro exI [of _ ?w]) (simp add: write_back_def new_mf_def send_write_request_def wb_request_def e
          get_is_write_def get_access_type_def get_addr_def get_access_byte_mask_def get_access_sector_mask_def)
  qed
qed

definition handled :: "cache_params \<Rightarrow> data_cache \<Rightarrow> (cache_request_status \<times> data_cache) option \<Rightarrow> bool" where
  "handled p s r \<longleftrightarrow> (\<exists>st s'. r = Some (st, s') \<and> st \<noteq> MSHR_HIT \<and> cache_ok p s' \<and> keeps_requests s s' \<and>
     (cc_write_policy (cp_config p) = WRITE_BACK \<longrightarrow> dirty_kept p s s'))"

lemma handled_tags:
  "\<lbrakk>cache_ok p s'; keeps_requests s s'; same_tags (cp_config p) (dc_tags s) (dc_tags s'); st \<noteq> MSHR_HIT\<rbrakk> \<Longrightarrow>
   handled p s (Some (st, s'))"
  by (simp add: handled_def dirty_kept_same)

lemma handled_same: "cache_ok p s \<Longrightarrow> st \<noteq> MSHR_HIT \<Longrightarrow> handled p s (Some (st, s))"
  by (rule handled_tags) (simp_all add: keeps_requests_def)

lemma handled_miss:
  assumes "cache_ok p s'" "keeps_requests s s'" "reports (cp_config p) (dc_tags s) (dc_tags s') ev" "\<not> do_miss \<Longrightarrow> ev = None"
  shows "handled p s (Some (if do_miss then MISS else RESERVATION_FAIL, if do_miss then write_back p mf ev request s' else s'))"
  using assms write_back_ok [OF assms(1)] keeps_requests_trans [OF assms(2)] write_back_kept [OF assms(3,1,2)] dirty_kept_none
  by (cases do_miss) (simp_all add: handled_def)

text \<open>The request an access is made with.\<close>

definition request_at :: "cache_params \<Rightarrow> data_cache \<Rightarrow> nat \<Rightarrow> mem_fetch \<Rightarrow> u64 \<Rightarrow> nat \<Rightarrow> bool" where
  "request_at p s mid mf addr time \<longleftrightarrow> dc_heap s mid = Some mf \<and> dc_extra s mid = None \<and> request_ok p mf \<and>
     addr = get_addr mf \<and> time < 4294967295"

lemma request_atD:
  assumes "request_at p s mid mf addr time"
  shows "dc_heap s mid = Some mf" "dc_extra s mid = None" "one_sector (get_access_sector_mask mf)" "time < 4294967295"
    "mshr_addr (cp_config p) (get_addr mf) =
      sector_key (tag (cp_config p) (block_addr (cp_config p) addr)) (slot (cc_cache_type (cp_config p)) (get_access_sector_mask mf))"
    "mf_atomic mf \<Longrightarrow> get_access_type mf = GLOBAL_ACC_R" "mf_data_size mf \<le> cc_atom_sz (cp_config p)"
  using assms by (auto simp: request_at_def request_ok_def block_addr_tag)

abbreviation probed :: "cache_params \<Rightarrow> data_cache \<Rightarrow> mem_fetch \<Rightarrow> u64 \<Rightarrow> cache_request_status \<Rightarrow> nat option \<Rightarrow> bool" where
  "probed p s mf addr st idx \<equiv> tag_probe (cp_config p) (dc_tags s) (block_addr (cp_config p) addr)
     (get_access_sector_mask mf) (get_is_write mf) = Some (st, idx)"

lemma write_line_ok:
  assumes pok: "cache_params_ok p" and ok: "cache_ok p s" and r: "request_at p s mid mf addr time"
    and hit: "probed p s mf addr HIT (Some i)"
  obtains t where "write_line p addr (Some i) mid time s = Some (s\<lparr>dc_tags := t\<rparr>)" "cache_ok p (s\<lparr>dc_tags := t\<rparr>)"
    "same_tags (cp_config p) (dc_tags s) t"
proof -
  note r' = request_atD [OF r]
  obtain t1 where t1: "tag_access_clean (cp_config p) (block_addr (cp_config p) addr) time (Some i) mf (dc_tags s) = Some (HIT, Some i, t1)"
    "store_ok p t1 (dc_mshrs s) (dc_extra s) (dc_heap s)" "i < get_num_lines (cp_config p)" "\<not> is_invalid_line (ta_lines t1 ! i)"
    "line_state (cp_config p) t1 i (get_access_sector_mask mf) \<noteq> RESERVED" "same_tags (cp_config p) (dc_tags s) t1"
    by (rule hit_ok [OF pok cache_okD [OF ok] r'(3,4) hit])
  obtain t2 where t2: "mark_modified i mf t1 = Some t2" "store_ok p t2 (dc_mshrs s) (dc_extra s) (dc_heap s)"
    "same_tags (cp_config p) t1 t2" by (rule mark_modified_ok [OF t1(2,3) r'(3) t1(4,5)])
  obtain t3 where t3: "update_m_readable mf i t2 = Some t3" "store_ok p t3 (dc_mshrs s) (dc_extra s) (dc_heap s)"
    "same_tags (cp_config p) t2 t3" by (rule update_m_readable_ok [OF t2(2) t1(3) r'(3)])
  have "same_tags (cp_config p) (dc_tags s) t3" using t1(6) t2(3) t3(3) by (blast intro: same_tags_trans)
  then show thesis
    using that [of t3] cache_ok_tags [OF ok t3(2)] t1(1) t2(1) t3(1) r'(1) by (simp add: write_line_def)
qed

lemma wr_hit_ok:
  assumes pok: "cache_params_ok p" and ok: "cache_ok p s" and r: "request_at p s mid mf addr time"
    and hit: "probed p s mf addr HIT (Some i)"
  shows "handled p s (wr_hit p addr (Some i) mid time s)"
proof -
  obtain t where t: "write_line p addr (Some i) mid time s = Some (s\<lparr>dc_tags := t\<rparr>)" "cache_ok p (s\<lparr>dc_tags := t\<rparr>)"
    "same_tags (cp_config p) (dc_tags s) t" by (rule write_line_ok [OF assms])
  have sent: "cache_ok p (send_write_request mid (event WRITE_REQUEST_SENT) (s\<lparr>dc_tags := t\<rparr>))"
    by (rule cache_ok_queue [OF t(2)]) (use request_atD(1) [OF r] in simp)
  have pol: "cc_write_policy (cp_config p) \<in> {WRITE_BACK, WRITE_THROUGH}" using pok by (simp add: cache_params_ok_def Let_def)
  show ?thesis
  proof (cases "cc_write_policy (cp_config p) = WRITE_BACK")
    case True
    then show ?thesis using t by (simp add: handled_tags wr_hit_def wr_hit_wb_def keeps_requests_def)
  next
    case False
    then have "cc_write_policy (cp_config p) = WRITE_THROUGH" using pol by simp
    then show ?thesis using t sent ok
      by (simp add: handled_tags handled_same wr_hit_def wr_hit_wt_def keeps_requests_def send_write_request_def)
  qed
qed

lemma rd_hit_ok:
  assumes pok: "cache_params_ok p" and ok: "cache_ok p s" and r: "request_at p s mid mf addr time"
    and hit: "probed p s mf addr HIT (Some i)"
  shows "handled p s (rd_hit_base p addr (Some i) mid time s)"
proof -
  note r' = request_atD [OF r]
  obtain t1 where t1: "tag_access_clean (cp_config p) (block_addr (cp_config p) addr) time (Some i) mf (dc_tags s) = Some (HIT, Some i, t1)"
    "store_ok p t1 (dc_mshrs s) (dc_extra s) (dc_heap s)" "i < get_num_lines (cp_config p)" "\<not> is_invalid_line (ta_lines t1 ! i)"
    "line_state (cp_config p) t1 i (get_access_sector_mask mf) \<noteq> RESERVED" "same_tags (cp_config p) (dc_tags s) t1"
    by (rule hit_ok [OF pok cache_okD [OF ok] r'(3,4) hit])
  obtain t2 where t2: "mark_modified i mf t1 = Some t2" "store_ok p t2 (dc_mshrs s) (dc_extra s) (dc_heap s)"
    "same_tags (cp_config p) t1 t2" by (rule mark_modified_ok [OF t1(2,3) r'(3) t1(4,5)])
  have "handled p s (Some (HIT, s\<lparr>dc_tags := t\<rparr>))" if "t = t1 \<or> t = t2" for t
    using that cache_ok_tags [OF ok t1(2)] cache_ok_tags [OF ok t2(2)] t1(6) same_tags_trans [OF t1(6) t2(3)]
    by (intro handled_tags) (auto simp: keeps_requests_def)
  then show ?thesis using t1(1) t2(1) r'(1,6) by (simp add: rd_hit_base_def)
qed

lemma rd_miss_ok:
  assumes pok: "cache_params_ok p" and ok: "cache_ok p s" and r: "request_at p s mid mf addr time"
    and miss: "missed (cp_config p) (dc_tags s) (block_addr (cp_config p) addr) mf st i"
  shows "handled p s (rd_miss_base p addr (Some i) mid time s)"
proof (cases "miss_queue_full p 1 s")
  case True
  then show ?thesis using ok by (simp add: rd_miss_base_def handled_same)
next
  case False
  note r' = request_atD [OF r]
  have room: "length (dc_miss_queue s) < cc_miss_queue_size (cp_config p)" using False by (simp add: miss_queue_full_def)
  obtain do_miss ev s1 where s1: "send_read_request p (block_addr (cp_config p) addr) (Some i) mid time False False s = Some (do_miss, ev, s1)"
    "cache_ok p s1" "ev \<noteq> None \<Longrightarrow> st = MISS" "keeps_requests s s1" "reports (cp_config p) (dc_tags s) (dc_tags s1) ev" "\<not> do_miss \<Longrightarrow> ev = None"
    by (rule send_read_request_ok [OF pok ok r'(1,2,3,5,4) miss room, where wa = False]) blast
  obtain mf1 where "dc_heap s1 mid = Some mf1" using s1(4) r'(1) by (auto simp: keeps_requests_def)
  then have "rd_miss_base p addr (Some i) mid time s = Some (if do_miss then MISS else RESERVATION_FAIL,
      if do_miss then write_back p mf1 ev (event WRITE_BACK_REQUEST_SENT) s1 else s1)"
    using False s1(1) r'(1) by (simp add: rd_miss_base_def)
  then show ?thesis using handled_miss [OF s1(2,4,5,6)] by simp
qed

lemma wr_miss_no_wa_ok:
  assumes ok: "cache_ok p s" and mf: "dc_heap s mid = Some mf"
  shows "handled p s (wr_miss_no_wa p mid s)"
  using ok cache_ok_queue [OF ok, of mid "event WRITE_REQUEST_SENT"] mf
  by (simp add: wr_miss_no_wa_def handled_same handled_tags keeps_requests_def send_write_request_def)

lemma wr_miss_wa_naive_ok:
  assumes pok: "cache_params_ok p" and ok: "cache_ok p s" and r: "request_at p s mid mf addr time"
    and miss: "missed (cp_config p) (dc_tags s) (block_addr (cp_config p) addr) (write_alloc_mf p mf None) st i"
  shows "handled p s (wr_miss_wa_naive p addr (Some i) mid time st s)"
proof -
  note r' = request_atD [OF r]
  let ?n = "write_alloc_mf p mf None" and ?b = "mshr_addr (cp_config p) (get_addr mf)"
  show ?thesis
  proof (cases "miss_queue_full p 2 s \<or> \<not> mshr_ready_for p ?b s")
    case True
    then have "no_room p 2 ?b s = Some (RESERVATION_FAIL, s)"
      by (auto simp: no_room_def mshr_ready_for_def miss_queue_full_def)
    then show ?thesis using True ok r'(1) by (simp add: wr_miss_wa_naive_def handled_same)
  next
    case False
    let ?s1 = "send_write_request mid (event WRITE_REQUEST_SENT) s"
    let ?s2 = "snd (new_mf ?n ?s1)"
    have s1: "cache_ok p ?s1" by (rule cache_ok_queue [OF ok]) (use r'(1) in simp)
    note s2 = new_mf_ok [OF s1, of ?n]
    have fields: "fst (new_mf ?n ?s1) = dc_next s" "dc_heap ?s2 (dc_next s) = Some ?n" "dc_extra ?s2 (dc_next s) = None"
      "dc_tags ?s2 = dc_tags s" "length (dc_miss_queue ?s2) < cc_miss_queue_size (cp_config p)"
      using False fresh_next(2) [OF s1] by (auto simp: new_mf_def send_write_request_def miss_queue_full_def)
    have n: "get_access_sector_mask ?n = get_access_sector_mask mf" "get_addr ?n = get_addr mf"
      by (simp_all add: write_alloc_mf_def get_access_sector_mask_def get_addr_def)
    obtain do_miss ev s3 where s3: "send_read_request p (block_addr (cp_config p) addr) (Some i) (dc_next s) time False True ?s2 = Some (do_miss, ev, s3)"
      "cache_ok p s3" "ev \<noteq> None \<Longrightarrow> st = MISS" "keeps_requests ?s2 s3" "reports (cp_config p) (dc_tags ?s2) (dc_tags s3) ev"
      "\<not> do_miss \<Longrightarrow> ev = None"
      by (rule send_read_request_ok [OF pok s2(1) fields(2,3) _ _ r'(4) _ fields(5)]) (use n r'(3,5) miss fields(4) in auto)
    have kept: "keeps_requests s s3"
      using keeps_requests_trans [OF s2(2) s3(4)] by (simp add: keeps_requests_def send_write_request_def)
    let ?s4 = "s3\<lparr>dc_events := dc_events s3 @ [event WRITE_ALLOCATE_SENT]\<rparr>"
    have s4: "cache_ok p ?s4" "keeps_requests s ?s4" using s3(2) kept by (simp_all add: keeps_requests_def)
    have "wr_miss_wa_naive p addr (Some i) mid time st s =
      Some (if do_miss then MISS else RESERVATION_FAIL, if do_miss then write_back p mf ev (wb_event ev) ?s4 else ?s4)"
      using False s3(1,3) r'(1) fields(1) by (auto simp: wr_miss_wa_naive_def case_prod_beta)
    then show ?thesis using handled_miss [OF s4 _ s3(6), where mf = mf and request = "wb_event ev"] s3(5) fields(4) by simp
  qed
qed

subsection \<open>Writes that do not wait\<close>

text \<open>The access of the two policies that write into the line at once, up to the mark.\<close>

lemma write_allocated:
  assumes pok: "cache_params_ok p" and ok: "cache_ok p s" and r: "request_at p s mid mf addr time"
    and miss: "missed (cp_config p) (dc_tags s) (block_addr (cp_config p) addr) mf st i" and w: "\<not> waits_for_data p"
  obtains t1 t2 ev where
    "tag_access (cp_config p) (block_addr (cp_config p) addr) time (Some i) mf (dc_tags s) = Some (st, Some i, ev, t1)"
    "mark_modified i mf t1 = Some t2" "store_ok p t2 (dc_mshrs s) (dc_extra s) (dc_heap s)" "i < get_num_lines (cp_config p)"
    "reports (cp_config p) (dc_tags s) t2 ev"
proof -
  note r' = request_atD [OF r]
  have cfg: "cache_cfg_ok (cp_config p)" using pok by (simp add: cache_params_ok_def Let_def)
  note st = cache_okD [OF ok]
  obtain t1 ev where a: "tag_access (cp_config p) (block_addr (cp_config p) addr) time (Some i) mf (dc_tags s) = Some (st, Some i, ev, t1)"
    "tags_ok (cp_config p) t1" "i < get_num_lines (cp_config p)" "\<not> is_invalid_line (ta_lines t1 ! i)"
    "\<And>j. j < get_num_lines (cp_config p) \<Longrightarrow> \<not> is_invalid_line (ta_lines (dc_tags s) ! j) \<Longrightarrow> \<not> is_invalid_line (ta_lines t1 ! j)"
    "reports (cp_config p) (dc_tags s) t1 ev"
    using access_missed [OF cfg store_okD(1) [OF st] r'(3,4) miss] by metis
  have t1: "store_ok p t1 (dc_mshrs s) (dc_extra s) (dc_heap s)"
    by (rule store_ok_tags [OF st a(2,5)]) (use w in simp_all)
  obtain t2 where t2: "mark_modified i mf t1 = Some t2" "store_ok p t2 (dc_mshrs s) (dc_extra s) (dc_heap s)" "same_tags (cp_config p) t1 t2"
    by (rule mark_modified_ok [OF t1 a(3) r'(3) a(4)]) (use w in simp)
  show thesis by (rule that [OF a(1) t2(1,2) a(3) reports_same_tags [OF a(6) t2(3)]])
qed

lemma wr_miss_wa_fetch_on_write_ok:
  assumes pok: "cache_params_ok p" and ok: "cache_ok p s" and r: "request_at p s mid mf addr time"
    and miss: "missed (cp_config p) (dc_tags s) (block_addr (cp_config p) addr) mf st i"
    and missn: "missed (cp_config p) (dc_tags s) (block_addr (cp_config p) addr) (write_alloc_mf p mf (Some mid)) st i"
    and w: "\<not> waits_for_data p"
  shows "handled p s (wr_miss_wa_fetch_on_write p addr (Some i) mid time st s)"
proof (cases "card (get_access_byte_mask mf) = cc_atom_sz (cp_config p)")
  case True
  note r' = request_atD [OF r]
  show ?thesis
  proof (cases "miss_queue_full p 0 s")
    case True
    then show ?thesis using \<open>card (get_access_byte_mask mf) = cc_atom_sz (cp_config p)\<close> ok r'(1)
      by (simp add: wr_miss_wa_fetch_on_write_def handled_same)
  next
    case False
    obtain t1 t2 ev where a: "tag_access (cp_config p) (block_addr (cp_config p) addr) time (Some i) mf (dc_tags s) = Some (st, Some i, ev, t1)"
      "mark_modified i mf t1 = Some t2" "store_ok p t2 (dc_mshrs s) (dc_extra s) (dc_heap s)" "i < get_num_lines (cp_config p)"
      "reports (cp_config p) (dc_tags s) t2 ev"
      by (rule write_allocated [OF pok ok r miss w])
    obtain t3 where t3: "upd_line i (set_ignore_on_fill True (get_access_sector_mask mf)) t2 = Some t3"
      "store_ok p t3 (dc_mshrs s) (dc_extra s) (dc_heap s)" "same_tags (cp_config p) t2 t3"
      by (rule flag_ok [OF a(3,4) same_states_flags(1) [OF r'(3)]])
    let ?s = "s\<lparr>dc_tags := if st = HIT_RESERVED then t3 else t2\<rparr>"
    have s: "cache_ok p ?s" "keeps_requests s ?s" "reports (cp_config p) (dc_tags s) (dc_tags ?s) ev"
      using cache_ok_tags [OF ok a(3)] cache_ok_tags [OF ok t3(2)] a(5) reports_same_tags [OF a(5) t3(3)]
      by (simp_all add: keeps_requests_def)
    have "st \<notin> {HIT, RESERVATION_FAIL}" using miss by (auto simp: missed_def)
    then have "wr_miss_wa_fetch_on_write p addr (Some i) mid time st s = Some (MISS, write_back p mf ev (wb_event ev) ?s)"
      using True False a(1,2) t3(1) r'(1) by (simp add: wr_miss_wa_fetch_on_write_def)
    then show ?thesis using handled_miss [OF s, where do_miss = True and mf = mf and request = "wb_event ev"] by simp
  qed
next
  case partial: False
  note r' = request_atD [OF r]
  let ?n = "write_alloc_mf p mf (Some mid)" and ?b = "mshr_addr (cp_config p) (get_addr mf)"
  show ?thesis
  proof (cases "miss_queue_full p 1 s \<or> \<not> mshr_ready_for p ?b s")
    case True
    then have "no_room p 1 ?b s = Some (RESERVATION_FAIL, s)"
      by (auto simp: no_room_def mshr_ready_for_def miss_queue_full_def)
    then show ?thesis using True partial ok r'(1) by (simp add: wr_miss_wa_fetch_on_write_def handled_same)
  next
    case room: False
    define raw where "raw = is_read_after_write_pending
      (\<lambda>k. case dc_heap s k of None \<Rightarrow> False | Some m \<Rightarrow> get_is_write m) ?b (dc_mshrs s)"
    have raw: "snd raw = dc_mshrs s" if hit: "probe ?b (dc_mshrs s)"
    proof -
      obtain e where "fmlookup (mt_data (dc_mshrs s)) ?b = Some e" using hit by (auto simp: probe_def split: option.splits)
      then have "fmupd ?b (data_at (dc_mshrs s) ?b) (mt_data (dc_mshrs s)) = mt_data (dc_mshrs s)"
        by (intro fmap_ext) auto
      then show ?thesis by (simp add: raw_def is_read_after_write_pending_def)
    qed
    have upd: "s\<lparr>dc_mshrs := snd raw\<rparr> = s" if "probe ?b (dc_mshrs s)" using raw [OF that] by simp
    show ?thesis
    proof (cases "probe ?b (dc_mshrs s) \<and> fst raw \<and> get_is_write mf")
      case True
      then have "wr_miss_wa_fetch_on_write p addr (Some i) mid time st s = Some (RESERVATION_FAIL, s)"
        using partial room r'(1) upd by (simp add: wr_miss_wa_fetch_on_write_def raw_def [symmetric] case_prod_beta)
      then show ?thesis using ok by (simp add: handled_same)
    next
      case go: False
      let ?s2 = "snd (new_mf ?n s)"
      note s2 = new_mf_ok [OF ok, of ?n]
      have fields: "fst (new_mf ?n s) = dc_next s" "dc_heap ?s2 (dc_next s) = Some ?n" "dc_extra ?s2 (dc_next s) = None"
        "dc_tags ?s2 = dc_tags s" "length (dc_miss_queue ?s2) < cc_miss_queue_size (cp_config p)"
        using room fresh_next(2) [OF ok] by (auto simp: new_mf_def miss_queue_full_def)
      have n: "get_access_sector_mask ?n = get_access_sector_mask mf" "get_addr ?n = get_addr mf"
        by (simp_all add: write_alloc_mf_def get_access_sector_mask_def get_addr_def)
      obtain do_miss ev s3 where s3: "send_read_request p (block_addr (cp_config p) addr) (Some i) (dc_next s) time False True ?s2 = Some (do_miss, ev, s3)"
        "cache_ok p s3" "ev \<noteq> None \<Longrightarrow> st = MISS" "keeps_requests ?s2 s3" "reports (cp_config p) (dc_tags ?s2) (dc_tags s3) ev"
        "\<not> do_miss \<Longrightarrow> ev = None"
        by (rule send_read_request_ok [OF pok s2(1) fields(2,3) _ _ r'(4) _ fields(5)]) (use n r'(3,5) missn fields(4) in auto)
      have i: "i < get_num_lines (cp_config p)"
      proof -
        have cfg: "cache_cfg_ok (cp_config p)" using pok by (simp add: cache_params_ok_def Let_def)
        show ?thesis using cfg store_okD(1) [OF cache_okD [OF ok]] r'(3)
          by (cases rule: probe_result [where addr = "block_addr (cp_config p) addr" and w = "get_is_write mf"])
            (use miss in \<open>auto simp: missed_def\<close>)
      qed
      obtain t4 where t4: "upd_line i (set_modified_on_fill True (get_access_sector_mask mf)) (dc_tags s3) = Some t4"
        "store_ok p t4 (dc_mshrs s3) (dc_extra s3) (dc_heap s3)" "same_tags (cp_config p) (dc_tags s3) t4"
        by (rule flag_ok [OF cache_okD [OF s3(2)] i same_states_flags(2) [OF r'(3)]])
      obtain t5 where t5: "upd_line i (\<lambda>b. Some (set_byte_mask_on_fill True b)) t4 = Some t5"
        "store_ok p t5 (dc_mshrs s3) (dc_extra s3) (dc_heap s3)" "same_tags (cp_config p) t4 t5"
        by (rule flag_ok [OF t4(2) i same_states_masks(2)])
      let ?s6 = "s3\<lparr>dc_tags := t5, dc_events := dc_events s3 @ [event WRITE_ALLOCATE_SENT]\<rparr>"
      have s6: "cache_ok p ?s6" using cache_ok_tags [OF s3(2) t5(2)] by simp
      have k6: "keeps_requests s ?s6" using keeps_requests_trans [OF s2(2) s3(4)] by (simp add: keeps_requests_def)
      have "reports (cp_config p) (dc_tags s) t5 ev"
        using s3(5) fields(4) reports_same_tags [OF _ same_tags_trans [OF t4(3) t5(3)]] by simp
      then have r6: "reports (cp_config p) (dc_tags s) (dc_tags ?s6) ev" by simp
      have "wr_miss_wa_fetch_on_write p addr (Some i) mid time st s =
        Some (if do_miss then MISS else RESERVATION_FAIL, if do_miss then write_back p mf ev (wb_event ev) ?s6 else ?s6)"
        using partial room go r'(1) upd fields(1) s3(1) t4(1) t5(1)
        by (cases "probe ?b (dc_mshrs s)") (auto simp add: wr_miss_wa_fetch_on_write_def raw_def [symmetric] case_prod_beta)
      then show ?thesis using handled_miss [OF s6 k6 r6 s3(6), where mf = mf and request = "wb_event ev"] by simp
    qed
  qed
qed

text \<open>Steps on the tag array that keep the invariant, in sequence.\<close>

definition stays ::
  "cache_params \<Rightarrow> data_cache \<Rightarrow> (tag_array \<Rightarrow> tag_array option) \<Rightarrow> bool" where
  "stays p s f \<longleftrightarrow> (\<forall>t. store_ok p t (dc_mshrs s) (dc_extra s) (dc_heap s) \<longrightarrow>
     (\<exists>t'. f t = Some t' \<and> store_ok p t' (dc_mshrs s) (dc_extra s) (dc_heap s) \<and> same_tags (cp_config p) t t'))"

lemma stays_intros:
  "stays p s Some"
  "stays p s f \<Longrightarrow> stays p s g \<Longrightarrow> stays p s (\<lambda>t. Option.bind (f t) g)"
  "(c \<Longrightarrow> stays p s f) \<Longrightarrow> (\<not> c \<Longrightarrow> stays p s g) \<Longrightarrow> stays p s (\<lambda>t. if c then f t else g t)"
  unfolding stays_def by (fastforce intro: same_tags_trans)+

lemma stays_upd_line:
  assumes "i < get_num_lines (cp_config p)" "same_states (cc_cache_type (cp_config p)) 0 f"
  shows "stays p s (upd_line i f)"
  unfolding stays_def using flag_ok [OF _ assms] by metis

lemma stays_update_m_readable:
  assumes "i < get_num_lines (cp_config p)" "one_sector (get_access_sector_mask mf)"
  shows "stays p s (update_m_readable mf i)"
  unfolding stays_def using update_m_readable_ok [OF _ assms] by metis

lemma staysE:
  assumes "stays p s f" "store_ok p t (dc_mshrs s) (dc_extra s) (dc_heap s)"
  obtains t' where "f t = Some t'" "store_ok p t' (dc_mshrs s) (dc_extra s) (dc_heap s)" "same_tags (cp_config p) t t'"
  using assms unfolding stays_def by blast

lemma wr_miss_wa_lazy_fetch_on_read_ok:
  assumes pok: "cache_params_ok p" and ok: "cache_ok p s" and r: "request_at p s mid mf addr time"
    and miss: "missed (cp_config p) (dc_tags s) (block_addr (cp_config p) addr) mf st i"
    and lazy: "cc_write_alloc_policy (cp_config p) = LAZY_FETCH_ON_READ"
  shows "handled p s (wr_miss_wa_lazy_fetch_on_read p addr (Some i) mid time st s)"
proof (cases "miss_queue_full p 0 s")
  case True
  then show ?thesis using ok request_atD(1) [OF r] by (simp add: wr_miss_wa_lazy_fetch_on_read_def handled_same)
next
  case False
  note r' = request_atD [OF r]
  let ?m = "get_access_sector_mask mf" and ?cfg = "cp_config p"
  let ?s = "if cc_write_policy ?cfg = WRITE_THROUGH then send_write_request mid (event WRITE_REQUEST_SENT) s else s"
  have s1: "cache_ok p ?s" using ok cache_ok_queue [OF ok] r'(1) by simp
  have r1: "request_at p ?s mid mf addr time" and tags: "dc_tags ?s = dc_tags s" and kept: "keeps_requests s ?s"
    using r by (simp_all add: request_at_def send_write_request_def keeps_requests_def)
  have w: "\<not> waits_for_data p" using lazy by (simp add: waits_for_data_def)
  have sector: "cc_cache_type ?cfg = SECTOR" using pok lazy by (auto simp: cache_params_ok_def Let_def)
  obtain t1 t2 ev where a: "tag_access ?cfg (block_addr ?cfg addr) time (Some i) mf (dc_tags s) = Some (st, Some i, ev, t1)"
    "mark_modified i mf t1 = Some t2" "store_ok p t2 (dc_mshrs ?s) (dc_extra ?s) (dc_heap ?s)" and i: "i < get_num_lines ?cfg"
    and rep: "reports ?cfg (dc_tags s) t2 ev"
    using write_allocated [OF pok s1 r1 _ w] miss tags by metis
  note flags = stays_upd_line [OF i same_states_flags(1) [OF r'(3)]] stays_upd_line [OF i same_states_flags(2) [OF r'(3)]]
    stays_upd_line [OF i same_states_flags(3) [OF r'(3)]] stays_upd_line [OF i same_states_flags(4) [OF r'(3), OF disjI1 [OF sector]]]
    stays_upd_line [OF i same_states_masks(2)]
  have f3: "stays p ?s (\<lambda>t. if st = HIT_RESERVED then do {
        t \<leftarrow> upd_line i (set_ignore_on_fill True ?m) t;
        t \<leftarrow> upd_line i (set_modified_on_fill True ?m) t;
        upd_line i (\<lambda>b. Some (set_byte_mask_on_fill True b)) t } else Some t)"
    by (intro stays_intros flags)
  obtain t3 where t3: "(if st = HIT_RESERVED then do {
        t \<leftarrow> upd_line i (set_ignore_on_fill True ?m) t2;
        t \<leftarrow> upd_line i (set_modified_on_fill True ?m) t;
        upd_line i (\<lambda>b. Some (set_byte_mask_on_fill True b)) t } else Some t2) = Some t3"
      "store_ok p t3 (dc_mshrs ?s) (dc_extra ?s) (dc_heap ?s)" "same_tags ?cfg t2 t3"
    by (rule staysE [OF f3 a(3)])
  have f4: "stays p ?s (\<lambda>t. if card (get_access_byte_mask mf) = cc_atom_sz ?cfg then upd_line i (set_m_readable True ?m) t
        else do {
          t \<leftarrow> upd_line i (set_m_readable False ?m) t;
          if st = HIT_RESERVED then upd_line i (set_readable_on_fill True ?m) t else Some t })"
    by (intro stays_intros flags)
  obtain t4 where t4: "(if card (get_access_byte_mask mf) = cc_atom_sz ?cfg then upd_line i (set_m_readable True ?m) t3
        else do {
          t \<leftarrow> upd_line i (set_m_readable False ?m) t3;
          if st = HIT_RESERVED then upd_line i (set_readable_on_fill True ?m) t else Some t }) = Some t4"
      "store_ok p t4 (dc_mshrs ?s) (dc_extra ?s) (dc_heap ?s)" "same_tags ?cfg t3 t4"
    by (rule staysE [OF f4 t3(2)])
  obtain t5 where t5: "update_m_readable mf i t4 = Some t5" "store_ok p t5 (dc_mshrs ?s) (dc_extra ?s) (dc_heap ?s)"
    "same_tags ?cfg t4 t5"
    by (rule staysE [OF stays_update_m_readable [OF i r'(3)] t4(2)])
  let ?s5 = "?s\<lparr>dc_tags := t5\<rparr>"
  have ok5: "cache_ok p ?s5" by (rule cache_ok_tags [OF s1 t5(2)])
  have k5: "keeps_requests s ?s5" using kept by (simp add: keeps_requests_def)
  have "st \<notin> {HIT, RESERVATION_FAIL}" using miss by (auto simp: missed_def)
  then have "wr_miss_wa_lazy_fetch_on_read p addr (Some i) mid time st s = Some (MISS, write_back p mf ev (wb_event ev) ?s5)"
    using False r'(1) a(1,2) t3(1) t4(1) t5(1) tags by (simp add: wr_miss_wa_lazy_fetch_on_read_def Let_def)
  moreover have "reports ?cfg (dc_tags s) (dc_tags ?s5) ev"
    using reports_same_tags [OF rep same_tags_trans [OF t3(3) same_tags_trans [OF t4(3) t5(3)]]] by simp
  ultimately show ?thesis using handled_miss [OF ok5 k5, where ev = ev and do_miss = True and mf = mf and request = "wb_event ev"] by simp
qed

end
