(* ===== verification/Cache_Runs.thy ===== *)
theory Cache_Runs
  imports Cache_Handlers
begin

section \<open>Runs of a data cache\<close>

text \<open>
  The dispatch of an access, the answers of the level below, and the other events of a cache:
  each is defined and keeps the invariant, hence so does every run.
\<close>

subsection \<open>Accesses\<close>

lemma access_cache_state_ok:
  assumes pok: "cache_params_ok p" and ok: "cache_ok p s" and r: "request_at p s mid mf addr time"
  shows "handled p s (access_cache_state p addr mid time s)"
proof -
  note r' = request_atD [OF r]
  let ?cfg = "cp_config p" and ?a = "block_addr (cp_config p) addr" and ?m = "get_access_sector_mask mf"
  have cfg: "cache_cfg_ok ?cfg" using pok by (simp add: cache_params_ok_def Let_def)
  have start: "access_cache_state p addr mid time s = process_tag_probe p (get_is_write mf) st addr idx mid time s"
    if "tag_probe ?cfg (dc_tags s) ?a ?m (get_is_write mf) = Some (st, idx)" for st idx
    using r'(1,7) that by (simp add: access_cache_state_def)
  from cfg store_okD(1) [OF cache_okD [OF ok]] r'(3) show ?thesis
  proof (cases rule: probe_result [where addr = ?a and w = "get_is_write mf"])
    case (hit i)
    then show ?thesis
      using start wr_hit_ok [OF pok ok r] rd_hit_ok [OF pok ok r] by (simp add: process_tag_probe_def)
  next
    case (miss st i)
    then have read: "missed ?cfg (dc_tags s) ?a mf st i" by (simp add: missed_def)
    have alloc: "missed ?cfg (dc_tags s) ?a (write_alloc_mf p mf orig) st i" for orig
      using miss by (cases "get_is_write mf")
        (simp_all add: missed_def write_alloc_mf_def get_access_sector_mask_def get_is_write_def)
    have st: "st \<notin> {HIT, RESERVATION_FAIL}" using miss(2) by auto
    show ?thesis
    proof (cases "get_is_write mf")
      case False
      then show ?thesis using start [OF miss(1)] rd_miss_ok [OF pok ok r read] st by (simp add: process_tag_probe_def)
    next
      case True
      have "handled p s (wr_miss p addr (Some i) mid time st s)"
        using wr_miss_no_wa_ok [OF ok r'(1)] wr_miss_wa_naive_ok [OF pok ok r alloc]
          wr_miss_wa_fetch_on_write_ok [OF pok ok r read alloc] wr_miss_wa_lazy_fetch_on_read_ok [OF pok ok r read]
        by (cases "cc_write_alloc_policy ?cfg") (simp_all add: wr_miss_def waits_for_data_def)
      then show ?thesis using start [OF miss(1)] True st by (simp add: process_tag_probe_def)
    qed
  next
    case fail
    then show ?thesis using start [OF fail] handled_same [OF ok] wr_miss_no_wa_ok [OF ok r'(1)]
      by (simp add: process_tag_probe_def wr_miss_def)
  qed
qed

lemma use_data_port_ok:
  assumes "cache_ok p s" "st \<noteq> MSHR_HIT"
  obtains s' where "use_data_port p mf st s = Some s'" "cache_ok p s'" "\<And>r. dirty_kept p r s \<Longrightarrow> dirty_kept p r s'"
proof -
  have "\<exists>n. use_data_port p mf st s = Some (s\<lparr>dc_data_port := n\<rparr>)"
    using assms(2) by (cases st)
      (auto simp: use_data_port_def Let_def split: option.splits intro: exI [of _ "dc_data_port s"])
  then obtain n where "use_data_port p mf st s = Some (s\<lparr>dc_data_port := n\<rparr>)" by blast
  then show thesis using assms(1) by (intro that [of "s\<lparr>dc_data_port := n\<rparr>"]) (simp_all add: dirty_kept_def)
qed

lemma data_cache_access_ok:
  assumes pok: "cache_params_ok p" and ok: "cache_ok p s" and r: "request_at p s mid mf addr time"
  obtains st ev s' where "data_cache_access p addr mid time events s = Some (st, ev, s')" "cache_ok p s'"
    "cc_write_policy (cp_config p) = WRITE_BACK \<longrightarrow> dirty_kept p s s'"
proof -
  let ?s = "s\<lparr>dc_events := events\<rparr>"
  have "cache_ok p ?s" "request_at p ?s mid mf addr time" using ok r by (simp_all add: request_at_def)
  then have "handled p ?s (access_cache_state p addr mid time ?s)" by (rule access_cache_state_ok [OF pok])
  then obtain st s1 where s1: "access_cache_state p addr mid time ?s = Some (st, s1)" "st \<noteq> MSHR_HIT" "cache_ok p s1"
    "keeps_requests ?s s1" "cc_write_policy (cp_config p) = WRITE_BACK \<longrightarrow> dirty_kept p ?s s1"
    unfolding handled_def by blast
  have "dirty_kept p ?s s1 \<Longrightarrow> dirty_kept p s s1" by (simp add: dirty_kept_def)
  note kept = this s1(5)
  obtain mf1 where mf1: "dc_heap s1 mid = Some mf1" using s1(4) request_atD(1) [OF r] by (auto simp: keeps_requests_def)
  obtain s2 where "use_data_port p mf1 st s1 = Some s2" "cache_ok p s2" "\<And>r. dirty_kept p r s1 \<Longrightarrow> dirty_kept p r s2"
    by (rule use_data_port_ok [OF s1(3,2)]) blast
  then show thesis using s1(1) mf1 kept by (intro that [of st "dc_events s2" s2]) (simp_all add: data_cache_access_def)
qed

subsection \<open>Answers of the level below\<close>

text \<open>The sector of an outstanding read is filled and the read is outstanding no more.\<close>

lemma reads_own_fill:
  assumes s: "store_ok p t m ex h" and own: "reads_own_sectors (cp_config p) t ex h" and cfg: "cfg = cp_config p"
    and apart: "sectors_apart cfg" and e: "ex mid = Some e" "ex_cache_index e = Some i" "h mid = Some mf"
    and m: "one_sector (get_access_sector_mask mf)" and i: "i < get_num_lines cfg" and used: "\<not> is_invalid_line (ta_lines t ! i)"
    and view: "tags_view t' = (tags_view t)[i := (cb_tag (ta_lines t ! i),
      (statuses (ta_lines t ! i))[slot (cc_cache_type cfg) (get_access_sector_mask mf) := st])]"
    and st: "st \<noteq> RESERVED"
  shows "reads_own_sectors cfg t' (ex(mid := None)) h"
proof -
  let ?k = "slot (cc_cache_type cfg) (get_access_sector_mask mf)" and ?l = "\<lambda>j. ta_lines t ! j"
  note t = store_okD(1) [OF s, folded cfg] and own = own [folded cfg]
  have inr: "j < length (ta_lines t)" if "j < get_num_lines cfg" for j using tags_okD(1) [OF t that] .
  note states = view_update_states [OF view inr]
  have len: "length (statuses (?l i)) = slots (cc_cache_type cfg)" by (rule length_statuses [OF tags_okD(4) [OF t i]])
  have k: "?k < slots (cc_cache_type cfg)" by (rule slot_less [OF m])
  have key: "ex_block_addr e = sector_key (cb_tag (?l i)) ?k" using owns_sector [OF own e(1,3,2)] by simp
  show ?thesis
    unfolding reads_own_sectors_def
  proof (rule conjI; intro allI impI)
    fix mid' e' mf' j assume a: "(ex(mid := None)) mid' = Some e'" "h mid' = Some mf'" "ex_cache_index e' = Some j"
    then have a': "ex mid' = Some e'" "mid' \<noteq> mid" by (auto split: if_splits)
    note o = owns_sector [OF own a'(1) a(2,3)]
    have j: "j < get_num_lines cfg" using store_okD(3) [OF s a'(1)] a(3) cfg by (auto simp: extra_ok_def)
    have "\<not> (j = i \<and> slot (cc_cache_type cfg) (get_access_sector_mask mf') = ?k)"
      using o key store_okD(5) [OF s a'(1) e(1)] a'(2) by auto
    then show "line_state cfg t' j (get_access_sector_mask mf') = RESERVED \<and>
      ex_block_addr e' = sector_key (cb_tag (ta_lines t' ! j)) (slot (cc_cache_type cfg) (get_access_sector_mask mf'))"
      using o states [OF j] by (auto simp: line_state_def)
  next
    fix j l assume j: "j < get_num_lines cfg" "l < slots (cc_cache_type cfg)" "statuses (ta_lines t' ! j) ! l = RESERVED"
    then have l: "statuses (?l j) ! l = RESERVED" "\<not> (j = i \<and> l = ?k)"
      using states [OF j(1)] st len k by (cases "l = ?k"; cases "j = i"; simp)+
    obtain mid' e' where o: "ex mid' = Some e'" "ex_cache_index e' = Some j" "ex_block_addr e' = sector_key (cb_tag (?l j)) l"
      using sector_owned [OF own j(1,2) l(1)] by blast
    have "mid' \<noteq> mid"
    proof
      assume "mid' = mid"
      then have same: "j = i" "sector_key (cb_tag (?l i)) l = sector_key (cb_tag (?l i)) ?k" using o e key by simp_all
      have "tag cfg (cb_tag (?l i)) = cb_tag (?l i)" using tags_okD(3) [OF t i] used by (simp add: line_placed_def)
      then show False using apart [unfolded sectors_apart_def, rule_format, OF j(2) k] same l(2) by metis
    qed
    then show "\<exists>mid2 e2. (ex(mid := None)) mid2 = Some e2 \<and> ex_cache_index e2 = Some j \<and>
      ex_block_addr e2 = sector_key (cb_tag (ta_lines t' ! j)) l"
      using o states [OF j(1)] by (intro exI [of _ mid'] exI [of _ e']) (cases "j = i"; simp)
  qed
qed

lemma store_ok_filled:
  assumes pok: "cache_params_ok p" and s: "store_ok p t m ex h" and cfg: "cfg = cp_config p"
    and e: "ex mid = Some e" "ex_cache_index e = Some i" "h mid = Some mf"
    and t': "tags_ok cfg t'"
    and view: "tags_view t' = (tags_view t)[i := (cb_tag (ta_lines t ! i),
      (statuses (ta_lines t ! i))[slot (cc_cache_type cfg) (get_access_sector_mask mf) := st])]"
    and st: "st \<in> {VALID, MODIFIED}" and m': "mshr_wf m'" "\<And>c. probe c m' \<longleftrightarrow> c \<noteq> ex_block_addr e \<and> probe c m"
  shows "store_ok p t' m' (ex(mid := None)) h"
proof -
  let ?ex = "ex(mid := None)" and ?k = "slot (cc_cache_type cfg) (get_access_sector_mask mf)"
  have x: "one_sector (get_access_sector_mask mf)" "i < get_num_lines cfg" "\<not> is_invalid_line (ta_lines t ! i)"
    using store_okD(3) [OF s e(1)] e(2,3) cfg by (auto simp: extra_ok_def)
  note t = store_okD(1) [OF s, folded cfg]
  have inr: "j < length (ta_lines t)" if "j < get_num_lines cfg" for j using tags_okD(1) [OF t that] .
  note states = view_update_states [OF view inr]
  have len: "length (statuses (ta_lines t ! i)) = slots (cc_cache_type cfg)" by (rule length_statuses [OF tags_okD(4) [OF t x(2)]])
  have used: "\<not> is_invalid_line (ta_lines t' ! j)" if "j < get_num_lines cfg" "\<not> is_invalid_line (ta_lines t ! j)" for j
    using that states [OF that(1)] slot_less [OF x(1)] len st
    by (cases "j = i") (auto simp: line_state_iff not_all_invalid)
  have "extra_ok cfg t' h mid' e'" if "?ex mid' = Some e'" for mid' e'
    using that extra_ok_lines [OF store_okD(3) [OF s], folded cfg] used by (metis fun_upd_apply option.distinct(1))
  moreover have "probe b m' \<longleftrightarrow> (\<exists>mid' e'. ?ex mid' = Some e' \<and> ex_block_addr e' = b)" for b
    using m'(2) store_okD(4) [OF s, of b] store_okD(5) [OF s _ e(1)] e(1)
    by (metis fun_upd_apply option.distinct(1) option.inject)
  moreover have "mid1 = mid2" if "?ex mid1 = Some e1" "?ex mid2 = Some e2" "ex_block_addr e1 = ex_block_addr e2" for mid1 mid2 e1 e2
    using that store_okD(5) [OF s] by (metis fun_upd_apply option.distinct(1))
  moreover have "reads_own_sectors cfg t' ?ex h" if "waits_for_data p"
  proof (rule reads_own_fill [OF s store_okD(6) [OF s that] cfg _ e x view])
    show "sectors_apart cfg" using pok cfg by (simp add: cache_params_ok_def Let_def)
  qed (use st in auto)
  ultimately show ?thesis using t' m'(1) cfg unfolding store_ok_def by blast
qed

lemma fill_ok:
  assumes pok: "cache_params_ok p" and ok: "cache_ok p s" and wait: "waiting_for_fill mid s" and time: "time < 4294967295"
  obtains s' e mf i st where "cache_fill p mid time s = Some s'" "cache_ok p s'"
    "dc_extra s mid = Some e" "dc_heap s mid = Some mf" "ex_cache_index e = Some i" "st \<in> {VALID, MODIFIED}"
    "tags_view (dc_tags s') = (tags_view (dc_tags s))[i := (cb_tag (ta_lines (dc_tags s) ! i),
       (statuses (ta_lines (dc_tags s) ! i))[slot (cc_cache_type (cp_config p)) (get_access_sector_mask mf) := st])]"
    "dc_extra s' mid = None" "probe_ready (ex_block_addr e) (dc_mshrs s')"
proof -
  let ?cfg = "cp_config p"
  have cfg: "cache_cfg_ok ?cfg" and whole: "cc_mshr_type ?cfg \<noteq> SECTOR_ASSOC" using pok by (simp_all add: cache_params_ok_def Let_def)
  note s = cache_okD [OF ok]
  note t = store_okD(1) [OF s] and wf = store_okD(2) [OF s]
  obtain e where e: "dc_extra s mid = Some e" using wait by (auto simp: waiting_for_fill_def)
  obtain mf i where mf: "dc_heap s mid = Some mf" "one_sector (get_access_sector_mask mf)" "ex_cache_index e = Some i"
    "i < get_num_lines ?cfg" "\<not> is_invalid_line (ta_lines (dc_tags s) ! i)"
    using store_okD(3) [OF s e] by (auto simp: extra_ok_def)
  let ?mf = "set_addr (ex_addr e) (mf\<lparr>mf_data_size := ex_data_size e\<rparr>)"
  let ?m = "get_access_sector_mask mf"
  let ?k = "slot (cc_cache_type ?cfg) ?m" and ?l = "ta_lines (dc_tags s) ! i"
  have msk: "get_access_sector_mask ?mf = ?m" "get_access_byte_mask ?mf = get_access_byte_mask mf"
    by (simp_all add: set_addr_def get_access_sector_mask_def get_access_byte_mask_def)
  obtain t1 st1 where t1: "fill_index ?cfg i time ?m (get_access_byte_mask mf) (dc_tags s) = Some t1" "tags_ok ?cfg t1"
    "st1 \<in> {VALID, MODIFIED}" "tags_view t1 = (tags_view (dc_tags s))[i := (cb_tag ?l, (statuses ?l)[?k := st1])]"
    by (rule fill_effect [OF cfg t mf(2) time mf(4,5)])
  have "probe (ex_block_addr e) (dc_mshrs s)" using store_okD(4) [OF s] e by blast
  then obtain atomic m1 where m1: "mark_ready (ex_block_addr e) (dc_mshrs s) = Some (atomic, m1)"
    using mark_ready_defined [OF wf] by fastforce
  note m1' = mark_ready_keeps [OF wf m1] probe_mark_ready [OF m1]
  have inr: "i < length (ta_lines (dc_tags s))" by (rule tags_okD(1) [OF t mf(4)])
  note states = view_update_states [OF t1(4) inr]
  have len: "length (statuses ?l) = slots (cc_cache_type ?cfg)" by (rule length_statuses [OF tags_okD(4) [OF t mf(4)]])
  have used: "\<not> is_invalid_line (ta_lines t1 ! i)"
    using states slot_less [OF mf(2)] len t1(3) by (auto simp: line_state_iff not_all_invalid)
  obtain t2 where t2: "mark_modified i ?mf t1 = Some t2" "tags_ok ?cfg t2"
    "tags_view t2 = (tags_view t1)[i := (cb_tag (ta_lines t1 ! i), (statuses (ta_lines t1 ! i))[?k := MODIFIED])]"
    by (rule mark_modified_effect [OF t1(2), of ?mf, unfolded msk, OF mf(2,4) used])
  have view2: "tags_view t2 = (tags_view (dc_tags s))[i := (cb_tag ?l, (statuses ?l)[?k := MODIFIED])]"
    using t2(3) t1(4) states by simp
  let ?t = "if atomic then t2 else t1"
  let ?ex = "(dc_extra s)(mid := None)" and ?h = "(dc_heap s)(mid := Some ?mf)"
  have "store_ok p ?t m1 ?ex (dc_heap s)"
    using store_ok_filled [OF pok s refl e mf(3,1) t1(2,4,3) m1'] store_ok_filled [OF pok s refl e mf(3,1) t2(2) view2 _ m1'] by simp
  then have store: "store_ok p ?t m1 ?ex ?h" by (rule store_ok_heap) simp
  let ?s = "s\<lparr>dc_heap := ?h, dc_tags := ?t, dc_mshrs := m1, dc_extra := ?ex\<rparr>"
  have "fill_cache_state p mid time s = Some (Some mid, ?s)"
    using whole e mf(1,3) t1(1) t2(1) m1 cfg msk
    by (simp add: fill_cache_state_def collect_sectors_def cache_cfg_ok_def)
  moreover have "cache_ok p ?s" using store ok mf(1) by (auto simp: cache_ok_def heap_ok_def)
  moreover have "tags_view ?t = (tags_view (dc_tags s))[i := (cb_tag ?l, (statuses ?l)[?k := if atomic then MODIFIED else st1])]"
    using t1(4) view2 by simp
  moreover have "probe_ready (ex_block_addr e) m1" using mark_ready_effect [OF m1] by (auto simp: probe_ready_iff)
  ultimately show thesis using e mf(1,3) t1(3)
    by (intro that [of "use_fill_port p ?s" e mf i "if atomic then MODIFIED else st1"]) (simp_all add: cache_fill_def use_fill_port_def)
qed

subsection \<open>Steps\<close>

lemma cycle_ok:
  assumes ok: "cache_ok p s"
  obtains sent s' where "cache_cycle port_full s = Some (sent, s')" "cache_ok p s'"
proof -
  obtain sent s1 where s1: "advance_miss_queue port_full s = Some (sent, s1)" "cache_ok p s1"
  proof (cases "dc_miss_queue s")
    case Nil
    then show thesis using ok by (intro that [of None s]) (simp_all add: advance_miss_queue_def)
  next
    case (Cons mid rest)
    then obtain mf where mf: "dc_heap s mid = Some mf" using ok by (auto simp: cache_ok_def heap_ok_def)
    have "cache_ok p (s\<lparr>dc_miss_queue := rest\<rparr>)" using ok Cons by (simp add: cache_ok_def heap_ok_def)
    then show thesis using ok Cons mf
      by (intro that [of "if \<not> port_full (mf_size mf) (get_is_write mf) then Some mid else None"
          "if \<not> port_full (mf_size mf) (get_is_write mf) then s\<lparr>dc_miss_queue := rest\<rparr> else s"])
        (simp_all add: advance_miss_queue_def)
  qed
  then show thesis by (intro that [of sent "replenish_port_bandwidth s1"]) (simp_all add: cache_cycle_def replenish_port_bandwidth_def)
qed

lemma take_ready_ok:
  assumes ok: "cache_ok p s" and ready: "access_ready (dc_mshrs s)"
  obtains mid s' where "next_ready_access s = Some (mid, s')" "cache_ok p s'"
proof -
  note s = cache_okD [OF ok]
  obtain b bs e mf ms where f: "mt_current_response (dc_mshrs s) = b # bs" "fmlookup (mt_data (dc_mshrs s)) b = Some e"
    "me_ready e" "me_list e = mf # ms" "b \<notin> set bs" by (rule wf_front [OF store_okD(2) [OF s] ready])
  obtain a m where n: "next_access (dc_mshrs s) = Some (a, m)" using next_access_front [OF f(1,2,4)] by blast
  have "store_ok p (dc_tags s) m (dc_extra s) (dc_heap s)"
    by (rule store_ok_mshr [OF s next_access_keeps [OF store_okD(2) [OF s] n] probe_next_access [OF store_okD(2) [OF s] n]])
  then have "cache_ok p (s\<lparr>dc_mshrs := m\<rparr>)" using ok by (simp add: cache_ok_def heap_ok_def)
  then show thesis using n by (intro that [of "snd a" "s\<lparr>dc_mshrs := m\<rparr>"]) (simp_all add: next_ready_access_def case_prod_beta)
qed

lemma cache_step_ok:
  assumes pok: "cache_params_ok p" and ok: "cache_ok p s" and allowed: "cache_allowed p s x"
  shows "\<exists>s'. cache_step p s x = Some s' \<and> cache_ok p s'"
proof (cases x)
  case (New_Request mf)
  then show ?thesis using new_mf_ok(1) [OF ok] by (simp add: cache_step_def)
next
  case (Access addr mid time)
  then obtain mf where "request_at p s mid mf addr time"
    using allowed by (auto simp: cache_allowed_def request_at_def waiting_for_fill_def split: option.splits)
  then obtain st ev s' where "data_cache_access p addr mid time [] s = Some (st, ev, s')" "cache_ok p s'"
    by (rule data_cache_access_ok [OF pok ok]) blast
  then show ?thesis using Access by (simp add: cache_step_def)
next
  case (Fill mid time)
  then have "waiting_for_fill mid s" "time < 4294967295" using allowed by (simp_all add: cache_allowed_def)
  then obtain s' where "cache_fill p mid time s = Some s'" "cache_ok p s'" by (rule fill_ok [OF pok ok]) blast
  then show ?thesis using Fill by (simp add: cache_step_def)
next
  case (Cycle port_full)
  obtain sent s' where "cache_cycle port_full s = Some (sent, s')" "cache_ok p s'" by (rule cycle_ok [OF ok])
  then show ?thesis using Cycle by (simp add: cache_step_def)
next
  case Take_Ready
  then have "access_ready (dc_mshrs s)" using allowed by (simp add: cache_allowed_def)
  then obtain mid s' where "next_ready_access s = Some (mid, s')" "cache_ok p s'" by (rule take_ready_ok [OF ok])
  then show ?thesis using Take_Ready by (simp add: cache_step_def)
qed

end
