(* ===== verification/Cache_Props.thy ===== *)
theory Cache_Props
  imports Cache_Runs
begin

section \<open>Properties of the data cache\<close>

text \<open>
  Runs from the constructor, for every configuration whose set index depends only on the line;
  the concrete caches at the end of each section show that such configurations exist.
\<close>

subsection \<open>Lines and sets\<close>

lemma line_mask: "n \<le> 31 \<Longrightarrow> ucast ((of_nat (2 ^ n) :: u32) - 1) = (mask n :: u64)"
proof -
  assume n: "n \<le> 31"
  have "(of_nat (2 ^ n) :: u32) - 1 = mask n" by (simp add: mask_eq_exp_minus_1)
  moreover have "ucast (mask n :: u32) = (mask n :: u64)" using n by (auto simp: bit_eq_iff bit_simps)
  ultimately show ?thesis by (simp only:)
qed

lemma tag_mask: "cc_line_sz cfg = 2 ^ n \<Longrightarrow> n \<le> 31 \<Longrightarrow> tag cfg a = a AND NOT (mask n)"
  using line_mask [of n] by (simp add: tag_def del: of_nat_power)

lemma drop_tag: "drop_bit n (a AND NOT (mask n)) = drop_bit n (a :: u64)"
  by (auto simp: bit_eq_iff bit_simps dest: bit_imp_le_length)

lemma set_index_line:
  assumes "cc_line_sz cfg = 2 ^ n" "cc_line_sz_log2 cfg = n" "n \<le> 31" "cc_address_mapping cfg = None"
    "cc_set_index_function cfg \<noteq> FERMI_HASH_SET_FUNCTION"
  shows "set_index cfg (tag cfg a) = set_index cfg a"
proof -
  have drop: "drop_bit (n + m) (tag cfg a) = drop_bit (n + m) a" for m
    using drop_tag [of n a] tag_mask [OF assms(1,3), of a]
    by (metis add.commute drop_bit_drop_bit)
  show ?thesis
    using assms drop drop [of 0]
    by (simp add: set_index_def hash_function_def set_hash_def Let_def split: set_index_function.split)
qed

lemma linear_set_index:
  assumes "cc_line_sz_log2 cfg = n" "cc_nset cfg = 2 ^ k" "k < 32" "cc_address_mapping cfg = None"
    "cc_set_index_function cfg = LINEAR_SET_FUNCTION"
  shows "set_index cfg a = Some (unat (ucast (drop_bit n a) AND (mask k :: u32)))"
proof -
  have "(of_nat (2 ^ k) :: u32) - 1 = mask k" by (simp add: mask_eq_exp_minus_1)
  moreover have "unat (x AND mask k) < 2 ^ k" for x :: u32 
    using assms(3) by (simp add: take_bit_eq_mask [symmetric] unsigned_take_bit_eq)
  ultimately show ?thesis using assms
    by (simp add: set_index_def hash_function_def set_hash_def cassert_def Let_def del: of_nat_power)
qed

lemma linear_cfg_ok:
  assumes "cc_line_sz cfg = 2 ^ n" "cc_line_sz_log2 cfg = n" "n \<le> 31" "cc_nset cfg = 2 ^ k" "k < 32"
    "cc_address_mapping cfg = None" "cc_set_index_function cfg = LINEAR_SET_FUNCTION" "cc_alloc_policy cfg = ON_MISS" "0 < cc_assoc cfg"
  shows "cache_cfg_ok cfg"
  using assms set_index_line [OF assms(1,2,3,6)] linear_set_index [OF assms(2,4,5,6,7)] by (simp add: cache_cfg_ok_def)

lemma unat_range: "unat (a :: u64) < 2 ^ 64"
  using unsigned_less [where 'b = 64 and w = a, where 'a = nat] by simp

lemma unat_aligned: "unat (a AND NOT (mask n) :: u64) = unat a div 2 ^ n * 2 ^ n"
proof -
  have "a AND NOT (mask n) = push_bit n (drop_bit n a)" by (simp add: bit_eq_iff bit_simps) auto
  moreover have "unat a div 2 ^ n * 2 ^ n \<le> unat a" by simp
  then have "unat a div 2 ^ n * 2 ^ n < 2 ^ 64" using unat_range [of a] by linarith
  moreover have "unat (push_bit n (drop_bit n a)) = take_bit 64 (push_bit n (drop_bit n (take_bit 64 (unat a))))"
    by (simp only: unsigned_push_bit_eq unsigned_drop_bit_eq) simp
  moreover have "take_bit 64 (unat a) = unat a" using unat_range [of a] by (simp add: take_bit_eq_mod)
  ultimately show ?thesis by (simp only: push_bit_eq_mult drop_bit_eq_div take_bit_eq_mod mod_less)
qed

lemma aligned_less:
  fixes u :: nat
  assumes "u < 2 ^ 64" "x < 2 ^ n" "n \<le> 64"
  shows "u div 2 ^ n * 2 ^ n + x < 2 ^ 64"
proof -
  have "(2 :: nat) ^ 64 = 2 ^ (64 - n) * 2 ^ n" using assms(3) by (simp add: power_add [symmetric])
  then have "u div 2 ^ n < 2 ^ (64 - n)" using assms(1) by (simp add: less_mult_imp_div_less)
  then have "Suc (u div 2 ^ n) * 2 ^ n \<le> 2 ^ (64 - n) * 2 ^ n" by (intro mult_right_mono) simp_all
  then show ?thesis using assms(2) \<open>2 ^ 64 = 2 ^ (64 - n) * 2 ^ n\<close> by simp
qed

lemma unat_in_line:
  assumes "x < 2 ^ n" "n \<le> 31"
  shows "unat ((a AND NOT (mask n)) + of_nat x :: u64) = unat a div 2 ^ n * 2 ^ n + x"
proof -
  have "unat a div 2 ^ n * 2 ^ n + x < 2 ^ 64" using aligned_less [of "unat a" x n] assms unat_range [of a] by simp
  moreover have "unat (of_nat x :: u64) = x" using calculation by (simp add: unsigned_of_nat take_bit_eq_mod)
  ultimately show ?thesis by (simp add: unat_word_ariths unat_aligned)
qed

lemma sectors_apart_line:
  assumes "cc_line_sz cfg = 2 ^ n" "n \<le> 31" "cc_cache_type cfg = NORMAL \<or> n = 7"
  shows "sectors_apart cfg"
  unfolding sectors_apart_def
proof (intro allI impI)
  fix a b j k
  assume jk: "j < slots (cc_cache_type cfg)" "k < slots (cc_cache_type cfg)" "sector_key (tag cfg a) j = sector_key (tag cfg b) k"
  note t = tag_mask [OF assms(1,2)]
  have small: "l * SECTOR_SIZE < 2 ^ n" if "l < slots (cc_cache_type cfg)" for l
    using that assms(3) by (cases "cc_cache_type cfg") (auto simp: slots_def SECTOR_CHUNCK_SIZE_def SECTOR_SIZE_def)
  have "unat a div 2 ^ n * 2 ^ n + j * SECTOR_SIZE = unat b div 2 ^ n * 2 ^ n + k * SECTOR_SIZE" (is "?x = ?y")
    using arg_cong [OF jk(3), of unat] unat_in_line [OF small [OF jk(1)] assms(2)] unat_in_line [OF small [OF jk(2)] assms(2)]
    by (simp add: sector_key_def t del: of_nat_mult)
  then have "?x div 2 ^ n = ?y div 2 ^ n" "?x mod 2 ^ n = ?y mod 2 ^ n" by simp_all
  then have "unat a div 2 ^ n = unat b div 2 ^ n" "j * SECTOR_SIZE = k * SECTOR_SIZE"
    using small [OF jk(1)] small [OF jk(2)] by simp_all
  then show "tag cfg a = tag cfg b \<and> j = k"
    using unat_aligned [of a n] unat_aligned [of b n] by (simp add: t SECTOR_SIZE_def word_unat_eq_iff)
qed

subsection \<open>Runs\<close>

lemma new_lines_invalid: "b \<in> set (ta_lines (tag_array_new cfg n)) \<Longrightarrow> is_invalid_line b \<and> \<not> is_modified_line b \<and> line_fine cfg b"
  by (auto simp: tag_array_new_def new_line_block_def new_sector_block_def line_fine_def block_ok_def all_readable_def
      is_invalid_line_def is_modified_line_def get_last_access_time_def get_alloc_time_def new_sector_def
      SECTOR_CHUNCK_SIZE_def split: cache_type.splits block_impl.splits)

lemma data_cache_new_ok:
  assumes pok: "cache_params_ok p" and size: "cc_assoc (cp_config p) \<le> multiplier * cc_original_assoc (cp_config p)"
    and bound: "get_max_num_lines (cp_config p) multiplier < 2 ^ 32"
  shows "cache_ok p (data_cache_new p multiplier)"
proof -
  let ?cfg = "cp_config p" and ?s = "data_cache_new p multiplier"
  have fields: "dc_tags ?s = tag_array_new ?cfg multiplier" "dc_mshrs ?s = mshr_init (cc_mshr_entries ?cfg) (cc_mshr_max_merge ?cfg)"
    "dc_extra ?s = (\<lambda>_. None)" "dc_heap ?s = (\<lambda>_. None)" "dc_miss_queue ?s = []" by (simp_all add: data_cache_new_def)
  have lines: "get_num_lines ?cfg \<le> length (ta_lines (tag_array_new ?cfg multiplier))"
    using mult_le_mono2 [OF size, of "cc_nset ?cfg"]
    by (simp add: tag_array_new_def get_num_lines_def get_max_num_lines_def algebra_simps)
  have inv: "is_invalid_line (ta_lines (tag_array_new ?cfg multiplier) ! i)" if "i < get_num_lines ?cfg" for i
    using that lines new_lines_invalid nth_mem by (metis order_less_le_trans)
  have "filter is_modified_line (ta_lines (tag_array_new ?cfg multiplier)) = []"
    using new_lines_invalid by (simp add: filter_empty_conv)
  then have tags: "tags_ok ?cfg (tag_array_new ?cfg multiplier)"
    using lines inv new_lines_invalid bound
    by (simp add: tags_ok_def line_placed_def unique_tags_def modified_count_def) (simp add: tag_array_new_def)
  have "reads_own_sectors ?cfg (tag_array_new ?cfg multiplier) (\<lambda>_. None) (\<lambda>_. None)"
    unfolding reads_own_sectors_def
  proof (rule conjI; intro allI impI)
    fix i k assume i: "i < get_num_lines ?cfg" "k < slots (cc_cache_type ?cfg)"
      "statuses (ta_lines (tag_array_new ?cfg multiplier) ! i) ! k = RESERVED"
    have "k < length (statuses (ta_lines (tag_array_new ?cfg multiplier) ! i))"
      using length_statuses [OF tags_okD(4) [OF tags i(1)]] i(2) by simp
    then have "RESERVED \<in> set (statuses (ta_lines (tag_array_new ?cfg multiplier) ! i))" using i(3) nth_mem by force
    then have "RESERVED \<in> {INVALID}" using inv [OF i(1)] unfolding line_state_iff by blast
    then show "\<exists>mid e. None = Some e \<and> ex_cache_index e = Some i \<and>
      ex_block_addr e = sector_key (cb_tag (ta_lines (tag_array_new ?cfg multiplier) ! i)) k" by simp
  qed simp
  moreover have "0 < cc_mshr_max_merge ?cfg" using pok by (simp add: cache_params_ok_def Let_def)
  ultimately show ?thesis using tags mshr_init_wf
    by (simp add: cache_ok_def heap_ok_def store_ok_def fields) (simp add: mshr_init_def probe_def)
qed

lemma data_cache_create_ok: "cache_params_ok p \<Longrightarrow> data_cache_create p multiplier = Some (data_cache_new p multiplier)"
  by (auto simp: data_cache_create_def cassert_def cache_params_ok_def Let_def)

interpretation cache_run: guarded_step "cache_step p" "\<lambda>s. cache_params_ok p \<and> cache_ok p s" "cache_allowed p" for p
  by unfold_locales (use cache_step_ok in blast)

lemma cache_run_ok:
  assumes "cache_params_ok p" "cc_assoc (cp_config p) \<le> multiplier * cc_original_assoc (cp_config p)"
    "get_max_num_lines (cp_config p) multiplier < 2 ^ 32" "allowed_run (cache_step p) (cache_allowed p) (data_cache_new p multiplier) xs"
  obtains s where "run_ops (cache_step p) (data_cache_new p multiplier) xs = Some s" "cache_ok p s"
  using cache_run.run_ok [OF _ assms(4)] assms(1) data_cache_new_ok [OF assms(1-3)] by blast

subsection \<open>Concrete caches\<close>

text \<open>Two sets of two sectored lines of 128 bytes with a linear index.\<close>

definition sample_cache :: "write_allocate_policy_t \<Rightarrow> cache_params" where
  "sample_cache wap =
     \<lparr>cp_config = \<lparr>cc_disabled = False, cc_line_sz = 128, cc_line_sz_log2 = 7, cc_nset = 2, cc_nset_log2 = 1,
        cc_assoc = 2, cc_atom_sz = 32, cc_original_assoc = 2, cc_is_streaming = False, cc_replacement_policy = LRU,
        cc_write_policy = WRITE_BACK, cc_alloc_policy = ON_MISS, cc_mshr_type = ASSOC, cc_cache_type = SECTOR,
        cc_write_alloc_policy = wap, cc_mshr_entries = 8, cc_mshr_max_merge = 4, cc_miss_queue_size = 8,
        cc_result_fifo_entries = 0, cc_data_port_width = 32, cc_set_index_function = LINEAR_SET_FUNCTION,
        cc_wr_percent = 0, cc_address_mapping = None\<rparr>,
      cp_wr_alloc_type = L2_WR_ALLOC_R, cp_wrbk_type = L2_WRBK_ACC, cp_tlx = (\<lambda>_. (0, 0))\<rparr>"

definition sample_mf :: "u64 \<Rightarrow> nat \<Rightarrow> bool \<Rightarrow> mem_fetch" where
  "sample_mf a k w =
     \<lparr>mf_access = \<lparr>ma_type = (if w then GLOBAL_ACC_W else GLOBAL_ACC_R), ma_addr = a, ma_req_size = 32, ma_write = w,
        ma_warp_mask = {}, ma_byte_mask = set [k * 32..<k * 32 + 4], ma_sector_mask = {k}\<rparr>,
      mf_data_size = 32, mf_ctrl_size = 8, mf_atomic = False, mf_chip = 0, mf_sub_partition = 0,
      mf_original_mf = None, mf_original_wr_mf = None\<rparr>"

lemma sample_cache_ok: "cache_params_ok (sample_cache wap)"
proof -
  let ?c = "cp_config (sample_cache wap)"
  have "cache_cfg_ok ?c" by (rule linear_cfg_ok [of _ 7 1]) (simp_all add: sample_cache_def)
  moreover have "sectors_apart ?c" by (rule sectors_apart_line [of _ 7]) (simp_all add: sample_cache_def)
  ultimately show ?thesis by (simp add: cache_params_ok_def) (simp add: sample_cache_def)
qed

lemma sample_sizes:
  "cc_assoc (cp_config (sample_cache wap)) \<le> 1 * cc_original_assoc (cp_config (sample_cache wap))"
  "get_max_num_lines (cp_config (sample_cache wap)) 1 < 2 ^ 32"
  by (simp_all add: sample_cache_def get_max_num_lines_def)

subsection \<open>Evaluation\<close>

text \<open>The concrete runs are evaluated by rewriting, from the innermost call outwards.\<close>

lemma bind_weak: "m = m' \<Longrightarrow> Option.bind m f = Option.bind m' f" by simp
lemma four: "replicate 4 x = [x, x, x, x]" "[0..<4] = [0, 1, 2, 3]" "[0..<2] = [0, 1]" by (simp_all add: numeral_eq_Suc upt_rec)
lemmas block_eval = new_sector_block_def new_sector_def SECTOR_CHUNCK_SIZE_def SECTOR_SIZE_def is_reserved_line_def is_modified_line_def is_invalid_line_def
  get_status_def is_valid_line_def is_readable_def
  line_op_def upd_sector_def get_sector_index_def allocate_def allocate_sector_def sector_init_def block_fill_def set_status_def set_last_access_time_def set_modified_on_fill_def
  set_ignore_on_fill_def set_readable_on_fill_def set_m_readable_def set_byte_mask_on_fill_def set_byte_mask_def
lemmas cfg_eval = tag_def block_addr_def mshr_addr_def set_index_def hash_function_def set_hash_def cassert_def get_num_lines_def get_max_num_lines_def
lemmas tag_eval = tag_probe_def set_ways_def consider_way_def tag_match_def candidate_time_def tag_array_new_def upd_line_def tag_access_def
   fill_index_def track_dirty_def inc_dirty_def dec_dirty_def
lemmas mf_eval = get_access_sector_mask_def get_is_write_def get_addr_def sample_mf_def set_addr_def get_access_type_def get_access_byte_mask_def mf_size_def
lemmas mshr_eval = mshr_init_def probe_def full_def ready_forward_eligible_def ready_for_forward_def add_def data_size_def data_at_def probe_ready_def empty_entry_def mark_ready_def
   busy_def next_access_def access_ready_def fcard_fempty fcard_finsert_if
lemmas ctl_eval = data_cache_new_def new_mf_def data_cache_access_def access_cache_state_def process_tag_probe_def rd_miss_base_def send_read_request_def
  read_access_tags_def miss_queue_full_def extra_of_def write_back_def event_def use_data_port_def wr_miss_def wr_miss_wa_naive_def wr_miss_wa_lazy_fetch_on_read_def
  mshr_ready_for_def send_write_request_def write_alloc_mf_def cache_fill_def fill_cache_state_def collect_sectors_def use_fill_port_def
  was_writeback_sent_def wb_event_def next_ready_access_def cache_cycle_def advance_miss_queue_def replenish_port_bandwidth_def mark_modified_def
  wr_hit_def wr_hit_wb_def write_line_def tag_access_clean_def
  update_m_readable_def get_dirty_byte_mask_def get_last_access_time_def
  cache_step_def cache_allowed_def request_ok_def waiting_for_fill_def sector_key_def one_sector_def slot_def sample_cache_def
lemmas all_eval = block_eval cfg_eval tag_eval mf_eval mshr_eval ctl_eval four Let_def

lemma dirty_limit_zero: "cc_wr_percent cfg = 0 \<Longrightarrow> dirty_limit_reached cfg d"
  by (simp add: dirty_limit_reached_def f32_def case_prod_beta)

lemma few_bytes: "list_all (\<lambda>b. b = 0 \<or> b = Suc 0 \<or> b = 2 \<or> b = 3) [0..<32] = False"
  by (auto simp: list_all_iff intro!: bexI [of _ 5])

text \<open>
  Two reads of a sector, a write miss in the other sector of the line, the answers, a write hit
  and a read that replaces the dirty line.
\<close>

definition sample_cache_run :: "cache_op list" where
  "sample_cache_run =
     [New_Request (sample_mf 0x1000 0 False), Access 0x1000 0 1,
      New_Request (sample_mf 0x1000 0 False), Access 0x1000 1 2,
      New_Request (sample_mf 0x1020 1 True), Access 0x1020 2 3,
      Cycle (\<lambda>_ _. False), Fill 0 5, Take_Ready, Take_Ready,
      New_Request (sample_mf 0x1000 0 True), Access 0x1000 4 6,
      Fill 3 7, New_Request (sample_mf 0x2040 2 False), Access 0x2040 5 8,
      New_Request (sample_mf 0x3000 0 False)]"

lemma sample_run_allowed:
  "allowed_run (cache_step (sample_cache WRITE_ALLOCATE)) (cache_allowed (sample_cache WRITE_ALLOCATE))
     (data_cache_new (sample_cache WRITE_ALLOCATE) 1) sample_cache_run"
  by (simp add: all_eval dirty_limit_zero sample_cache_run_def cong: bind_weak)

lemma sample_run_state:
  "\<exists>s. run_ops (cache_step (sample_cache WRITE_ALLOCATE)) (data_cache_new (sample_cache WRITE_ALLOCATE) 1) sample_cache_run = Some s \<and>
     waiting_for_fill 5 s \<and> cache_allowed (sample_cache WRITE_ALLOCATE) s (Access 0x3000 6 9) \<and>
     is_modified_line (ta_lines (dc_tags s) ! 1) \<and> cb_tag (ta_lines (dc_tags s) ! 1) = 0x1000"
  by (simp add: all_eval dirty_limit_zero sample_cache_run_def cong: bind_weak)

subsection \<open>Results\<close>

text \<open>
  C3. A data cache fails no assertion in any run of new requests, accesses, answers, cycles and
  deliveries where each access is for a request that is not waiting, at its own address, of at
  most one atom in one sector (an atomic is a global read), each answer is for a waiting request, a
  delivery is taken when one is ready and times stay below \<open>2^32 - 1\<close>. It allocates on
  miss, writes back or through, has any write-allocation policy (lazy fetch on read with
  sectored lines only), \<open>ASSOC\<close> MSHRs that merge at least one request, at least one and at most the
  allocated number of ways, fewer than \<open>2^32\<close> lines, distinct sector addresses and a set index that
  exists and depends only on the line. In every state reached the count of dirty lines is exact,
  every line in use lies in the set of its tag, no two hold the same tag, and the MSHR table
  tracks exactly the sectors that outstanding reads were sent for.
\<close>

theorem cache_never_aborts:
  assumes "cache_params_ok p" "cc_assoc (cp_config p) \<le> multiplier * cc_original_assoc (cp_config p)"
    and "get_max_num_lines (cp_config p) multiplier < 2 ^ 32"
    and "allowed_run (cache_step p) (cache_allowed p) (data_cache_new p multiplier) xs"
  shows "\<exists>s. run_ops (cache_step p) (data_cache_new p multiplier) xs = Some s \<and>
    unat (ta_dirty (dc_tags s)) = length (filter is_modified_line (ta_lines (dc_tags s))) \<and>
    (\<forall>i < get_num_lines (cp_config p). \<not> is_invalid_line (ta_lines (dc_tags s) ! i) \<longrightarrow>
       (\<exists>k. set_index (cp_config p) (cb_tag (ta_lines (dc_tags s) ! i)) = Some k \<and> i \<in> set (set_ways (cp_config p) k)) \<and>
       (\<forall>j < get_num_lines (cp_config p). \<not> is_invalid_line (ta_lines (dc_tags s) ! j) \<longrightarrow>
          cb_tag (ta_lines (dc_tags s) ! j) = cb_tag (ta_lines (dc_tags s) ! i) \<longrightarrow> j = i)) \<and>
    (\<forall>b. probe b (dc_mshrs s) \<longleftrightarrow> (\<exists>mid e. dc_extra s mid = Some e \<and> ex_block_addr e = b))"
proof -
  obtain s where s: "run_ops (cache_step p) (data_cache_new p multiplier) xs = Some s" "cache_ok p s"
    by (rule cache_run_ok [OF assms])
  note store = cache_okD [OF s(2)]
  note t = store_okD(1) [OF store]
  have placed: "\<exists>k. set_index (cp_config p) (cb_tag (ta_lines (dc_tags s) ! i)) = Some k \<and> i \<in> set (set_ways (cp_config p) k)"
    if "i < get_num_lines (cp_config p)" "\<not> is_invalid_line (ta_lines (dc_tags s) ! i)" for i
    using tags_okD(3) [OF t that(1)] that(2) by (auto simp: line_placed_def home_def)
  have unique: "unique_tags (ta_lines (dc_tags s)) (get_num_lines (cp_config p))"
    and dirty: "ta_dirty (dc_tags s) = of_nat (length (filter is_modified_line (ta_lines (dc_tags s))))"
    and bound: "length (ta_lines (dc_tags s)) < 2 ^ 32"
    using t by (simp_all add: tags_ok_def modified_count_def)
  have "length (filter is_modified_line (ta_lines (dc_tags s))) < 2 ^ 32"
    using length_filter_le [of is_modified_line "ta_lines (dc_tags s)"] bound by linarith
  then have dirty: "unat (ta_dirty (dc_tags s)) = length (filter is_modified_line (ta_lines (dc_tags s)))"
    unfolding dirty by (simp add: unat_of_nat)
  show ?thesis
    using s(1) dirty placed unique [unfolded unique_tags_def] store_okD(4) [OF store] by blast
qed

lemma cache_never_aborts_witness:
  "\<exists>s. run_ops (cache_step (sample_cache WRITE_ALLOCATE)) (data_cache_new (sample_cache WRITE_ALLOCATE) 1) sample_cache_run = Some s \<and>
    unat (ta_dirty (dc_tags s)) = length (filter is_modified_line (ta_lines (dc_tags s)))"
  using cache_never_aborts [OF sample_cache_ok sample_sizes sample_run_allowed] by blast

text \<open>
  C7. No dirty line is replaced without being written back. Take a cache and a run within the
  conditions of \<open>cache_params_ok\<close> and \<open>cache_allowed\<close> (those of the run that never aborts) and the
  write-back policy. In every state reached, any further allowed access returns, and each line
  that was dirty either keeps its tag or a new request in the miss queue writes exactly that line:
  its block address, its dirty bytes, its dirty sectors and their size, with the write-back type.
\<close>

theorem cache_evictions_written_back:
  assumes "cache_params_ok p" "cc_assoc (cp_config p) \<le> multiplier * cc_original_assoc (cp_config p)"
    and "get_max_num_lines (cp_config p) multiplier < 2 ^ 32"
    and "allowed_run (cache_step p) (cache_allowed p) (data_cache_new p multiplier) xs"
    and "run_ops (cache_step p) (data_cache_new p multiplier) xs = Some s"
    and "cc_write_policy (cp_config p) = WRITE_BACK" "cache_allowed p s (Access addr mid time)"
  shows "\<exists>st ev s'. data_cache_access p addr mid time events s = Some (st, ev, s') \<and>
    (\<forall>i < get_num_lines (cp_config p). is_modified_line (ta_lines (dc_tags s) ! i) \<longrightarrow>
       cb_tag (ta_lines (dc_tags s') ! i) \<noteq> cb_tag (ta_lines (dc_tags s) ! i) \<longrightarrow>
       (\<exists>w m. w \<in> set (dc_miss_queue s') \<and> dc_heap s w = None \<and> dc_heap s' w = Some m \<and>
          get_is_write m \<and> get_access_type m = cp_wrbk_type p \<and>
          get_addr m = cb_block_addr (ta_lines (dc_tags s) ! i) \<and>
          mf_data_size m = get_modified_size (ta_lines (dc_tags s) ! i) \<and>
          get_access_byte_mask m = get_dirty_byte_mask (ta_lines (dc_tags s) ! i) \<and>
          get_access_sector_mask m = get_dirty_sector_mask (ta_lines (dc_tags s) ! i)))"
proof -
  have ok: "cache_ok p s" using cache_run_ok [OF assms(1-4)] assms(5) by auto
  obtain mf where "request_at p s mid mf addr time"
    using assms(7) by (auto simp: cache_allowed_def request_at_def waiting_for_fill_def split: option.splits)
  then obtain st ev s' where "data_cache_access p addr mid time events s = Some (st, ev, s')" "dirty_kept p s s'"
    by (rule data_cache_access_ok [OF assms(1) ok]) (use assms(6) in blast)
  then show ?thesis by (auto simp: dirty_kept_def wb_request_def)
qed

lemma cache_evictions_written_back_witness:
  "\<exists>s st ev s'. run_ops (cache_step (sample_cache WRITE_ALLOCATE)) (data_cache_new (sample_cache WRITE_ALLOCATE) 1)
       sample_cache_run = Some s \<and> is_modified_line (ta_lines (dc_tags s) ! 1) \<and>
     data_cache_access (sample_cache WRITE_ALLOCATE) 0x3000 6 9 [] s = Some (st, ev, s') \<and>
     (cb_tag (ta_lines (dc_tags s') ! 1) \<noteq> 0x1000 \<longrightarrow> (\<exists>w m. w \<in> set (dc_miss_queue s') \<and> dc_heap s' w = Some m \<and>
        get_is_write m \<and> get_addr m = cb_block_addr (ta_lines (dc_tags s) ! 1)))"
proof -
  obtain s where s: "run_ops (cache_step (sample_cache WRITE_ALLOCATE)) (data_cache_new (sample_cache WRITE_ALLOCATE) 1)
      sample_cache_run = Some s" "cache_allowed (sample_cache WRITE_ALLOCATE) s (Access 0x3000 6 9)"
    "is_modified_line (ta_lines (dc_tags s) ! 1)" "cb_tag (ta_lines (dc_tags s) ! 1) = 0x1000"
    using sample_run_state by blast
  have "1 < get_num_lines (cp_config (sample_cache WRITE_ALLOCATE))" by (simp add: get_num_lines_def sample_cache_def)
  moreover have "cc_write_policy (cp_config (sample_cache WRITE_ALLOCATE)) = WRITE_BACK" by (simp add: sample_cache_def)
  ultimately show ?thesis
    using cache_evictions_written_back [OF sample_cache_ok sample_sizes sample_run_allowed s(1) _ s(2), of "[]"] s
    by fastforce
qed



subsection \<open>A write into a sector on its way\<close>

text \<open>
  With \<open>LAZY_FETCH_ON_READ\<close> the condition on the policy is needed: a write marks a reserved
  sector as modified, the line can then be replaced while its read is outstanding, and the answer
  turns a sector of the new line valid that was never read.
\<close>

definition lazy_run :: "cache_op list" where
  "lazy_run =
     [New_Request (sample_mf 0x1000 0 False), Access 0x1000 0 1,
      New_Request (sample_mf 0x1000 0 True), Access 0x1000 1 2,
      New_Request (sample_mf 0x2000 0 False), Access 0x2000 2 3,
      New_Request (sample_mf 0x3020 1 False), Access 0x3020 3 4]"

lemma lazy_run_allowed: "allowed_run (cache_step (sample_cache LAZY_FETCH_ON_READ)) (cache_allowed (sample_cache LAZY_FETCH_ON_READ))
     (data_cache_new (sample_cache LAZY_FETCH_ON_READ) 1) (lazy_run @ [Fill 0 6])"
  by (simp add: all_eval dirty_limit_zero lazy_run_def few_bytes cong: bind_weak)

lemma lazy_answer_in_wrong_line:
  "\<exists>s s' e. run_ops (cache_step (sample_cache LAZY_FETCH_ON_READ)) (data_cache_new (sample_cache LAZY_FETCH_ON_READ) 1) lazy_run = Some s \<and>
     cache_fill (sample_cache LAZY_FETCH_ON_READ) 0 6 s = Some s' \<and> dc_extra s 0 = Some e \<and> ex_block_addr e = 0x1000 \<and>
     cb_tag (ta_lines (dc_tags s) ! 1) = 0x3000 \<and> get_status {0} (ta_lines (dc_tags s) ! 1) = Some INVALID \<and>
     get_status {0} (ta_lines (dc_tags s') ! 1) = Some VALID \<and> cb_tag (ta_lines (dc_tags s') ! 1) = 0x3000"
  by (simp add: all_eval dirty_limit_zero lazy_run_def few_bytes cong: bind_weak)

end
