(* ===== verification/Spec2Isabelle.thy ===== *)
theory Spec2Isabelle
  imports Issue_Timing Transport Topology Service_Budget Dsm_Fabric Dsm_Fabric_Safety Dsm_Shaping
    Bulk_Group Barrier_Set Mbarrier Mshr Scoreboard Stream_Buffer
    Tcgen05_Timing Tcgen05_Refinement Tcgen05_Backend Tmem Simt_Stack
    Hashing Address_Bits Address_Decode Address_Decode_Safety Address_Maps
    Coalescing Coalescing_Props Coalescing_Atomics Shared_Banks
    Cache_Block Cache_Config Tag_Array Tag_Array_Props Tag_Array_Access
    Data_Cache Cache_Invariant Cache_Handlers Cache_Runs Cache_Props
begin

text \<open>
  Verification library of FlashGPU-Sim, a cycle-level GPU simulator. The paths below are relative
  to \<^verbatim>\<open>src/gpgpu-sim/\<close> unless they start with \<^verbatim>\<open>src/\<close>.

  \<^bold>\<open>The program.\<close> A warp of a streaming multiprocessor (SM) fetches through the instruction
  prefetcher, issues when the scoreboard and the issue gates let it, moves its threads on the
  SIMT stack and sends its memory instructions through coalescing and address decoding to a cache,
  where a tag array finds the line and a miss-status table (MSHR) holds the accesses that wait
  for the level below. It synchronises through CTA barriers, mbarriers, bulk
  groups and the asynchronous tcgen05 unit with its tensor memory. Shared memory of other SMs of
  the same GPC is reached through the DSM fabric, which is built on flit queues, credits and
  arbiters and on the map of SMs to GPCs. The library models the parts that decide order,
  blocking, addresses and bandwidth, and proves what makes each of them correct.

  \<^bold>\<open>Theories and code.\<close>
  \<^item> \<open>Prelude\<close>: words, assertions (\<open>cassert\<close>, where \<open>None\<close> is an abort), runs of operations and
    the locales \<open>step_invariant\<close>, \<open>step_safe\<close>, \<open>guarded_step\<close> and \<open>simulation\<close> that every component
    with a state interprets on its own step function; saturating and wrapping arithmetic.
  \<^item> \<open>Issue_Timing\<close>: \<^verbatim>\<open>flash/issue_interval_timing.h\<close>, \<^verbatim>\<open>flash/tma_issue_timing.h\<close> and the
    decisions of \<^verbatim>\<open>flash/cluster_hang_prevent.h\<close>. The locale \<open>issue_gate\<close> is their common contract.
  \<^item> \<open>Transport\<close>: \<^verbatim>\<open>transport.h\<close>. The locales \<open>packet_queue\<close>, \<open>credit_pool\<close> and \<open>fair_arbiter\<close> state
    what a client relies on.
  \<^item> \<open>Topology\<close>: \<^verbatim>\<open>gpu_topology.h\<close> and \<^verbatim>\<open>.cc\<close>; a \<open>gpu_topology\<close> record holds the tables that
    \<open>build\<close> fills.
  \<^item> \<open>Service_Budget\<close>: \<^verbatim>\<open>mem_transport_budget.h\<close> and \<^verbatim>\<open>smem_service.h\<close>.
  \<^item> \<open>Dsm_Fabric\<close>: \<^verbatim>\<open>dsm_fabric.h\<close> and \<^verbatim>\<open>.cc\<close>, whose state is the record \<open>dsm_fabric\<close>; injection,
    one whole cycle and ejection are \<open>fabric_inject\<close>, \<open>fabric_cycle\<close> and \<open>fabric_pop\<close>.
    \<open>Dsm_Fabric_Safety\<close> holds its invariant and \<open>Dsm_Shaping\<close> the rates of the shaper and the
    spread of the route hash.
  \<^item> \<open>Bulk_Group\<close>: \<^verbatim>\<open>flash/bulk_group.h\<close> and \<^verbatim>\<open>.cc\<close>.
  \<^item> \<open>Barrier_Set\<close>: \<open>barrier_set_t\<close> of \<^verbatim>\<open>shader.h\<close> and \<^verbatim>\<open>shader.cc\<close>, with its release queue in
    \<^verbatim>\<open>flash/mbarrier.cc\<close>.
  \<^item> \<open>Mbarrier\<close>: \<^verbatim>\<open>flash/mbarrier.h\<close> and \<^verbatim>\<open>.cc\<close>: the manager and the suspended \<open>try_wait\<close>.
  \<^item> \<open>Mshr\<close>: \<^verbatim>\<open>mshr-table.cc\<close> and the ready-forward decision of \<^verbatim>\<open>gpu-cache.cc\<close>.
  \<^item> \<open>Scoreboard\<close>: \<^verbatim>\<open>scoreboard.h\<close>, \<^verbatim>\<open>scoreboard.cc\<close> and the result forwarding of \<^verbatim>\<open>shader.cc\<close>.
  \<^item> \<open>Stream_Buffer\<close>: \<^verbatim>\<open>flash/instruction_cache/stream_buffer.h\<close> and \<^verbatim>\<open>.cc\<close>.
  \<^item> \<open>Tcgen05_Timing\<close>: \<^verbatim>\<open>flash/tcgen05/timing.h\<close> and \<^verbatim>\<open>.cc\<close>. \<open>Tcgen05_Refinement\<close> gives the
    abstract unit and the simulation, \<open>Tcgen05_Backend\<close> the closed form of completion cycles.
  \<^item> \<open>Tmem\<close>: \<^verbatim>\<open>flash/tcgen05/tmem.h\<close> and \<^verbatim>\<open>.cc\<close>.
  \<^item> \<open>Simt_Stack\<close>: \<open>simt_stack\<close> and \<open>core_t::updateSIMTStack\<close> of \<^verbatim>\<open>src/abstract_hardware_model.cc\<close>.
  \<^item> \<open>Hashing\<close>, \<open>Address_Bits\<close>, \<open>Address_Decode\<close>: \<^verbatim>\<open>hashing.cc\<close>, \<^verbatim>\<open>addrdec.h\<close> and \<^verbatim>\<open>addrdec.cc\<close>.
    \<open>Address_Decode_Safety\<close> and \<open>Address_Maps\<close> hold what \<open>init\<close> establishes and the results.
  \<^item> \<open>Coalescing\<close>: \<open>warp_inst_t::generate_mem_accesses\<close> of \<^verbatim>\<open>src/abstract_hardware_model.cc\<close>, with
    the results in \<open>Coalescing_Props\<close>, \<open>Coalescing_Atomics\<close> and \<open>Shared_Banks\<close>.
  \<^item> \<open>Cache_Block\<close>, \<open>Cache_Config\<close>, \<open>Tag_Array\<close>, \<open>Data_Cache\<close>: \<^verbatim>\<open>gpu-cache.h\<close> and \<^verbatim>\<open>gpu-cache.cc\<close> with
    \<^verbatim>\<open>mem_fetch.h\<close>: blocks and their sectors, the configuration, \<open>tag_array\<close>, and the baseline,
    read-only, data and L2 caches. The record \<open>data_cache\<close> holds the tag array, the table of \<open>Mshr\<close>,
    the miss queue and a store of the requests, which the code shares and mutates through pointers.
    \<open>Tag_Array_Props\<close> and \<open>Tag_Array_Access\<close> hold the invariant of the tag array, \<open>Cache_Invariant\<close>
    the one of the whole cache, \<open>Cache_Handlers\<close> and \<open>Cache_Runs\<close> its preservation by each handler
    and operation, and \<open>Cache_Props\<close> the results.

  \<^bold>\<open>How code becomes definitions.\<close> A class is a record with the fields of the class, an operation a
  function from the record to the new one, with the returned value first where there is one.
  \<open>assert\<close>, \<open>abort\<close>, \<open>exit\<close> and an uncaught \<open>at\<close> give \<open>None\<close>; a loop is a structural recursion or
  a \<open>function\<close> with a proved measure. The one fuel is the number of offers \<open>offers_until_accept\<close>
  (\<open>Service_Budget\<close>) may make; the slots of an access divided by the width, rounded up, are proved
  to be enough. Definitions keep the names of the code,
  with a prefix of the component where two classes share one. Maps are finite maps or functions,
  pointers to requests are identities, and generators, callbacks and clocks are arguments.
  Statistics are kept where a later decision or a property reads them; printing is left out.

  \<^bold>\<open>What the lemmas show.\<close> Every component has a well-formedness predicate (\<open>voq_wf\<close>, \<open>fabric_wf\<close>,
  \<open>topo_wf\<close>, \<open>mgr_wf\<close>, \<open>bs_wf\<close>, \<open>mshr_state_wf\<close>, \<open>sb_wf\<close>, \<open>sbuf_wf\<close>, \<open>tmem_ok\<close>, \<open>warp_ok\<close>, \<open>atrans_ok\<close>,
  \<open>tags_ok\<close>, \<open>cache_ok\<close>)
  that holds initially and is kept by every operation; from it follows that no assertion fails in
  any run that respects the caller's duties, written out as the predicates named \<open>allowed\<close>. On
  top of the invariants stand the functional results: order and conservation of packets
  (\<open>Transport\<close>, \<open>Dsm_Fabric_Safety\<close>), exact release conditions (\<open>Barrier_Set\<close>, \<open>Mbarrier\<close>,
  \<open>Bulk_Group\<close>), refinements (\<open>Scoreboard\<close> by a map of pending writes, \<open>Tcgen05_Refinement\<close> by sets of
  outstanding operations), closed forms (\<open>Issue_Timing\<close>, \<open>Tcgen05_Backend\<close>, \<open>Shared_Banks\<close>), round
  trips (\<open>Topology\<close>, \<open>Tmem\<close>), injectivity and conflict freedom of address maps (\<open>Address_Maps\<close>,
  \<open>Hashing\<close>), and exactness of windows and transactions (\<open>Stream_Buffer\<close>, \<open>Coalescing_Props\<close>,
  \<open>Coalescing_Atomics\<close>), and that a cache writes every replaced dirty line back and fills exactly the
  sector an answer was asked for (\<open>Cache_Props\<close>). Lemmas also record where code and comments disagree, for example
  \<open>expect_tx_leaves_complete_phase\<close>, \<open>wait_counts_from_oldest\<close> and \<open>next_powerOf2_one\<close>, or where the code
  goes wrong, as \<open>lazy_answer_in_wrong_line\<close> does.

  \<^bold>\<open>Bounds.\<close> Addresses, masks and clocks that can wrap are words. Other counters are \<open>nat\<close>, within
  these ranges of the code:
  \<^item> the flit limits of queues and ejection buffers are below \<open>2^31\<close> and CPCs times routes below
    \<open>2^32\<close> (\<open>fabric_in_range\<close>); then the 32-bit capacity check is the one on \<open>nat\<close>
    (\<open>voq_can_push_32_eq\<close>). The flit count of a payload, the difference of flit counts in a request
    and the sums of occupancies are wrapped as in the code;
  \<^item> packets entering the fabric carry at least one flit and hold no ejection credit;
  \<^item> the SM counts of a topology sum to less than \<open>2^32\<close>; the slots of a GPC are wrapped as in the
    code (\<open>cpc_slots\<close>);
  \<^item> the results on address maps are about maps of the form \<^verbatim>\<open>dramid@s\<close> with \<open>s\<close> from 0 to 30 and
    fewer than \<open>2^31\<close> slices; maps that list the chip bits as \<^verbatim>\<open>D\<close> are parsed and decoded by the
    definitions but no result covers them;
  \<^item> a cache has fewer than \<open>2^32\<close> lines and access times are below \<open>2^32 - 1\<close>, the sentinel of the
    replacement scan; the count of dirty lines is a 32-bit word, and the share of dirty lines is
    computed in single precision as in the code (\<open>f32\<close>). The results on caches are about \<open>ASSOC\<close>
    MSHRs, allocation on miss and write-back or write-through (\<open>cache_params_ok\<close>); the definitions
    cover the other policies too;
  \<^item> the depth of a prefetch stream is below \<open>2^32 - 1\<close>; generations, sequence numbers, packet
    identities and statistics stay within their width (64 bits for cycles and sequence numbers
    of the tcgen05 unit).

  \<^bold>\<open>Not modelled.\<close> The texture cache and the cache statistics; the memory partition around the L2 cache and
  the DRAM, whose behaviour the results do not need; the pipeline of the shader core around the
  modelled parts, with the WGMMA wait bits and the hang preventers of \<open>barrier_set_t\<close>; the endpoint
  that turns shared-memory accesses into fabric packets and the messages for remote mbarriers; the
  interconnect, cluster placement, the TMA engine and the functional execution of PTX, MMA and
  WGMMA, which depend on the contents of the functional memory; the runtime interface to host
  programs, the power model and all reporting.
\<close>

end
